(* ===== verification/Prelude.thy ===== *)
theory Prelude
  imports
    Main
    "HOL-Library.Word"
    "HOL-Library.Monad_Syntax"
    "HOL-Library.Multiset"
begin

text \<open>
  What the component theories share: the machine integer types of the Rust code, the reading of
  \<open>option\<close> as "the thread may panic", the standard-library list operations the sources use
  (\<open>chunks_exact\<close>, \<open>filter_map\<close>, hash sets and hash maps with an arbitrary but fixed
  iteration order), and the generic lemmas about them.
\<close>

unbundle bit_operations_syntax

section \<open>Machine integers\<close>

type_synonym u8 = "8 word"
type_synonym u16 = "16 word"
type_synonym u32 = "32 word"
type_synonym u64 = "64 word"
type_synonym usize = "64 word"
type_synonym i32 = "32 word"
type_synonym i64 = "64 word"

text \<open>Byte strings; a \<open>[u8; 32]\<close> (a \<open>Pubkey\<close>) is a byte string of length 32 and a
  \<open>[u8; 64]\<close> (a \<open>Signature\<close>) one of length 64.\<close>

type_synonym bytes = "u8 list"
type_synonym pubkey = bytes
type_synonym signature = bytes

definition le_bytes_u16 :: "u16 \<Rightarrow> bytes" where
  "le_bytes_u16 x = [ucast x, ucast (drop_bit 8 x)]"

definition u16_from_le :: "u8 \<Rightarrow> u8 \<Rightarrow> u16" where
  "u16_from_le a b = ucast a OR push_bit 8 (ucast b)"

definition le_bytes_u64 :: "u64 \<Rightarrow> bytes" where
  "le_bytes_u64 x = map (\<lambda>k. ucast (drop_bit (8 * k) x)) [0..<8]"

text \<open>\<open>Option<[u8; N]>::from(slice.try_into().ok())\<close>: the slice when its length is \<open>N\<close>.\<close>

definition try_array :: "nat \<Rightarrow> bytes \<Rightarrow> bytes option" where
  "try_array n bs = (if length bs = n then Some bs else None)"

section \<open>Panics\<close>

text \<open>
  A computation that may panic has an \<open>option\<close> type: \<open>None\<close> is the panic. Where the Rust
  function itself returns an \<open>Option\<close>, the model's type is an \<open>option\<close> of an \<open>option\<close>.
\<close>

type_synonym 'a run = "'a option"

text \<open>\<open>xs[i]\<close>\<close>

definition idx :: "'a list \<Rightarrow> nat \<Rightarrow> 'a run" where
  "idx xs i = (if i < length xs then Some (xs ! i) else None)"

text \<open>\<open>&xs[a..b]\<close>\<close>

definition slice :: "'a list \<Rightarrow> nat \<Rightarrow> nat \<Rightarrow> 'a list run" where
  "slice xs a b = (if a \<le> b \<and> b \<le> length xs then Some (take (b - a) (drop a xs)) else None)"

text \<open>\<open>iter().filter_map(f).collect()\<close> with an \<open>f\<close> that may panic\<close>

fun filter_map_run :: "('a \<Rightarrow> 'b option run) \<Rightarrow> 'a list \<Rightarrow> 'b list run" where
  "filter_map_run f [] = Some []"
| "filter_map_run f (x # xs) =
     do {
       r \<leftarrow> f x;
       rs \<leftarrow> filter_map_run f xs;
       Some (case r of None \<Rightarrow> rs | Some y \<Rightarrow> y # rs)
     }"

text \<open>\<open>iter().any(f)\<close> stops at the first hit\<close>

fun any_run :: "('a \<Rightarrow> bool run) \<Rightarrow> 'a list \<Rightarrow> bool run" where
  "any_run f [] = Some False"
| "any_run f (x # xs) = do { b \<leftarrow> f x; if b then Some True else any_run f xs }"

section \<open>Library functions of the sources\<close>

text \<open>\<open>slice.chunks_exact(n)\<close>: full chunks only, the remainder is dropped.\<close>

function chunks_exact :: "nat \<Rightarrow> 'a list \<Rightarrow> 'a list list" where
  "chunks_exact n xs =
     (if n = 0 \<or> length xs < n then [] else take n xs # chunks_exact n (drop n xs))"
  by pat_completeness auto
termination by (relation "measure (\<lambda>(n, xs). length xs)") auto

declare chunks_exact.simps [simp del]

text \<open>Hash sets and hash maps in their iteration order: distinct lists and association lists.\<close>

type_synonym 'a hset = "'a list"
type_synonym ('k, 'v) hmap = "('k \<times> 'v) list"

definition hset_insert :: "'a \<Rightarrow> 'a hset \<Rightarrow> 'a hset" where
  "hset_insert x xs = (if x \<in> set xs then xs else xs @ [x])"

fun hset_of :: "'a hset \<Rightarrow> 'a list \<Rightarrow> 'a hset" where
  "hset_of acc [] = acc"
| "hset_of acc (x # xs) = hset_of (hset_insert x acc) xs"

fun hmap_insert :: "'k \<Rightarrow> 'v \<Rightarrow> ('k, 'v) hmap \<Rightarrow> ('k, 'v) hmap" where
  "hmap_insert k v [] = [(k, v)]"
| "hmap_insert k v ((k', v') # m) =
     (if k = k' then (k, v) # m else (k', v') # hmap_insert k v m)"

text \<open>\<open>iter.map(f).collect::<Result<Vec<_>, E>>()\<close>: the first error wins.\<close>

fun collect_result :: "('a \<Rightarrow> 'e + 'b) \<Rightarrow> 'a list \<Rightarrow> 'e + 'b list" where
  "collect_result f [] = Inr []"
| "collect_result f (x # xs) =
     (case f x of
        Inl e \<Rightarrow> Inl e
      | Inr y \<Rightarrow> (case collect_result f xs of Inl e \<Rightarrow> Inl e | Inr ys \<Rightarrow> Inr (y # ys)))"

section \<open>Shared lemmas\<close>

named_theorems wf_intros \<open>an operation keeps the invariant of its component\<close>

lemma idx_in [simp]: "i < length xs \<Longrightarrow> idx xs i = Some (xs ! i)"
  by (simp add: idx_def)

lemma idx_None_iff [simp]: "idx xs i = None \<longleftrightarrow> length xs \<le> i"
  by (auto simp: idx_def)

lemma filter_map_run_append:
  "filter_map_run f (xs @ ys) =
     do { as \<leftarrow> filter_map_run f xs; bs \<leftarrow> filter_map_run f ys; Some (as @ bs) }"
proof (induction xs)
  case Nil
  then show ?case by (cases "filter_map_run f ys") auto
next
  case (Cons x xs)
  then show ?case
    by (cases "f x"; cases "filter_map_run f xs"; cases "filter_map_run f ys")
      (auto split: option.splits)
qed

lemma filter_map_run_cong:
  "(\<And>x. x \<in> set xs \<Longrightarrow> f x = g x) \<Longrightarrow> filter_map_run f xs = filter_map_run g xs"
  by (induction xs) auto

text \<open>Elements that are certain not to contribute can be left out.\<close>

lemma filter_map_run_filter:
  "(\<And>x. x \<in> set xs \<Longrightarrow> \<not> P x \<Longrightarrow> f x = Some None) \<Longrightarrow>
     filter_map_run f (filter P xs) = filter_map_run f xs"
proof (induction xs)
  case (Cons x xs)
  then show ?case by (cases "P x") (auto split: option.splits)
qed simp

lemma filter_map_run_map: "filter_map_run f (map g xs) = filter_map_run (\<lambda>x. f (g x)) xs"
  by (induction xs) auto

lemma filter_map_run_Nil: "(\<And>x. x \<in> set xs \<Longrightarrow> f x = Some None) \<Longrightarrow> filter_map_run f xs = Some []"
  by (induction xs) auto

lemma any_run_Some:
  "(\<And>x. x \<in> set xs \<Longrightarrow> f x = Some (P x)) \<Longrightarrow> any_run f xs = Some (\<exists>x\<in>set xs. P x)"
  by (induction xs) auto

lemma hset_insert_set [simp]: "set (hset_insert x xs) = insert x (set xs)"
  by (auto simp: hset_insert_def)

lemma hset_insert_distinct [simp]: "distinct xs \<Longrightarrow> distinct (hset_insert x xs)"
  by (simp add: hset_insert_def)

lemma hset_of_set [simp]: "set (hset_of acc xs) = set acc \<union> set xs"
  by (induction xs arbitrary: acc) auto

lemma hset_of_distinct [simp]: "distinct acc \<Longrightarrow> distinct (hset_of acc xs)"
  by (induction xs arbitrary: acc) auto

lemma map_of_hmap_insert [simp]: "map_of (hmap_insert k v m) = (map_of m)(k \<mapsto> v)"
  by (induction m) auto

lemma keys_hmap_insert [simp]: "fst ` set (hmap_insert k v m) = insert k (fst ` set m)"
  by (induction k v m rule: hmap_insert.induct) auto

lemma distinct_hmap_insert [simp]:
  "distinct (map fst m) \<Longrightarrow> distinct (map fst (hmap_insert k v m))"
proof (induction m)
  case (Cons p m)
  obtain a b where p: "p = (a, b)" by (cases p)
  have "set (map fst (hmap_insert k v m)) = insert k (set (map fst m))" by simp
  with Cons p show ?case by auto
qed simp

lemma chunks_exact_append:
  assumes "length xs = n" "0 < n"
  shows "chunks_exact n (xs @ ys) = xs # chunks_exact n ys"
  using assms by (subst chunks_exact.simps) simp

lemma chunks_exact_short: "length xs < n \<Longrightarrow> chunks_exact n xs = []"
  by (subst chunks_exact.simps) simp

lemma chunks_exact_length:
  "c \<in> set (chunks_exact n xs) \<Longrightarrow> length c = n"
proof (induction n xs rule: chunks_exact.induct)
  case (1 n xs)
  then show ?case
    by (subst (asm) (2) chunks_exact.simps) (auto split: if_splits)
qed

lemma length_chunks_exact: "0 < n \<Longrightarrow> length (chunks_exact n xs) = length xs div n"
proof (induction n xs rule: chunks_exact.induct)
  case (1 n xs)
  show ?case
  proof (cases "length xs < n")
    case True
    then show ?thesis by (simp add: chunks_exact_short)
  next
    case False
    with 1 show ?thesis
      by (subst chunks_exact.simps) (simp add: le_div_geq)
  qed
qed

lemma chunks_exact_concat:
  assumes "\<forall>b \<in> set bs. length b = n" "0 < n"
  shows "chunks_exact n (concat bs) = bs"
  using assms(1)
proof (induction bs)
  case Nil
  with assms(2) show ?case by (simp add: chunks_exact_short)
next
  case (Cons b bs)
  with assms(2) show ?case by (simp add: chunks_exact_append)
qed

lemma u16_le_roundtrip: "u16_from_le (le_bytes_u16 x ! 0) (le_bytes_u16 x ! 1) = x"
  unfolding u16_from_le_def le_bytes_u16_def
  by (rule bit_word_eqI) (auto simp: bit_simps)

lemma length_le_bytes_u16 [simp]: "length (le_bytes_u16 x) = 2"
  by (simp add: le_bytes_u16_def)

text \<open>The sum of a list after an update by index.\<close>

lemma sum_list_map_update:
  fixes h :: "'a \<Rightarrow> 'b :: comm_monoid_add"
  shows "j < length xs \<Longrightarrow> sum_list (map h (xs[j := y])) + h (xs ! j) = sum_list (map h xs) + h y"
proof (induction xs arbitrary: j)
  case (Cons x xs)
  then show ?case by (cases j) (simp_all add: ac_simps)
qed simp

end
