(* ===== verification/Float64.thy ===== *)
theory Float64
  imports "HOL-Library.Log_Nat" Complex_Main
begin

text \<open>
  Double-precision arithmetic. A value is an exact rational, and every operation rounds its exact result to 53
  significant bits, ties to even. Overflow and subnormal numbers are out of scope: the values of the sources
  stay between \<open>2^-200\<close> and \<open>2^200\<close>.
\<close>

section \<open>Rounding\<close>

definition floor_log2 :: "rat \<Rightarrow> int" where
  "floor_log2 x =
     (if 1 \<le> x then bitlen \<lfloor>x\<rfloor> - 1 else - bitlen (\<lceil>1 / x\<rceil> - 1))"

definition round_half_even :: "rat \<Rightarrow> int" where
  "round_half_even q =
     (let f = \<lfloor>q\<rfloor>; d = q - of_int f in
      if d < 1/2 then f else if 1/2 < d then f + 1 else if even f then f else f + 1)"

definition pow2_rat :: "int \<Rightarrow> rat" where
  "pow2_rat e = (if 0 \<le> e then 2 ^ nat e else 1 / 2 ^ nat (- e))"

definition f64_round :: "rat \<Rightarrow> rat" where
  "f64_round x =
     (if x = 0 then 0
      else let u = pow2_rat (floor_log2 x - 52) in of_int (round_half_even (x / u)) * u)"

section \<open>Its error\<close>

lemma pow2_rat_pos: "0 < pow2_rat e"
  by (simp add: pow2_rat_def)

lemma bitlen_pos: "0 < n \<Longrightarrow> 0 < bitlen n"
  using bitlen_nonneg [of n] bitlen_eq_zero_iff [of n] by linarith

lemma floor_log2_le:
  assumes "0 < x"
  shows "pow2_rat (floor_log2 x) \<le> x"
proof (cases "1 \<le> x")
  case True
  then have fl: "0 < \<lfloor>x\<rfloor>" by (metis zero_less_floor)
  then have "0 < bitlen \<lfloor>x\<rfloor>" by (rule bitlen_pos)
  then have e: "pow2_rat (floor_log2 x) = 2 ^ nat (bitlen \<lfloor>x\<rfloor> - 1)"
    using True by (simp add: pow2_rat_def floor_log2_def)
  have "2 ^ nat (bitlen \<lfloor>x\<rfloor> - 1) \<le> \<lfloor>x\<rfloor>" using bitlen_bounds [OF fl] by simp
  then have "(of_int (2 ^ nat (bitlen \<lfloor>x\<rfloor> - 1)) :: rat) \<le> x" by (metis le_floor_iff)
  with e show ?thesis by simp
next
  case False
  let ?k = "\<lceil>1 / x\<rceil> - 1"
  have "1 < 1 / x" using False assms by simp
  then have "1 < \<lceil>1 / x\<rceil>" by (simp add: less_ceiling_iff)
  then have k: "0 < ?k" by simp
  have b: "0 < bitlen ?k" using k by (rule bitlen_pos)
  have "?k < 2 ^ nat (bitlen ?k)" using bitlen_bounds [OF k] by simp
  then have "\<lceil>1 / x\<rceil> \<le> 2 ^ nat (bitlen ?k)" by simp
  then have "1 / x \<le> 2 ^ nat (bitlen ?k)" by (simp add: ceiling_le_iff)
  then have "1 / 2 ^ nat (bitlen ?k) \<le> x" using assms by (simp add: field_simps)
  then show ?thesis using False b by (simp add: pow2_rat_def floor_log2_def)
qed

lemma round_half_even_ge: "q - 1/2 \<le> of_int (round_half_even q)"
  by (auto simp: round_half_even_def Let_def) linarith+

lemma pow2_rat_split: "pow2_rat e = 2 ^ 52 * pow2_rat (e - 52)"
proof (cases "52 \<le> e")
  case True
  then have "nat e = 52 + nat (e - 52)" by simp
  then have "(2::rat) ^ nat e = 2 ^ 52 * 2 ^ nat (e - 52)" by (simp only: power_add)
  with True show ?thesis by (simp add: pow2_rat_def)
next
  case False
  show ?thesis
  proof (cases "0 \<le> e")
    case True
    with False have "52 = nat e + nat (52 - e)" by simp
    then have "(2::rat) ^ 52 = 2 ^ nat e * 2 ^ nat (52 - e)" by (metis power_add)
    with True False show ?thesis by (simp add: pow2_rat_def field_simps)
  next
    case neg: False
    then have "nat (52 - e) = 52 + nat (- e)" by simp
    then have "(2::rat) ^ nat (52 - e) = 2 ^ 52 * 2 ^ nat (- e)" by (simp only: power_add)
    with neg show ?thesis by (simp add: pow2_rat_def)
  qed
qed

lemma f64_round_ge:
  assumes "0 < x"
  shows "x * (1 - 1 / 2 ^ 53) \<le> f64_round x"
proof -
  let ?u = "pow2_rat (floor_log2 x - 52)"
  have u: "0 < ?u" by (rule pow2_rat_pos)
  have "2 ^ 52 * ?u \<le> x"
    using floor_log2_le [OF assms] pow2_rat_split [of "floor_log2 x"] by simp
  then have "?u / 2 \<le> x / 2 ^ 53" by simp
  moreover have "(x / ?u - 1/2) * ?u \<le> of_int (round_half_even (x / ?u)) * ?u"
    using u by (intro mult_right_mono round_half_even_ge) simp
  moreover have "(x / ?u - 1/2) * ?u = x - ?u / 2" using u by (simp add: field_simps)
  ultimately show ?thesis
    using assms by (simp add: f64_round_def Let_def algebra_simps)
qed

lemma round_half_even_le: "of_int (round_half_even q) \<le> q + 1/2"
  by (auto simp: round_half_even_def Let_def) linarith+

lemma f64_round_le:
  assumes "0 < x"
  shows "f64_round x \<le> x * (1 + 1 / 2 ^ 53)"
proof -
  let ?u = "pow2_rat (floor_log2 x - 52)"
  have u: "0 < ?u" by (rule pow2_rat_pos)
  have "2 ^ 52 * ?u \<le> x"
    using floor_log2_le [OF assms] pow2_rat_split [of "floor_log2 x"] by simp
  then have "?u / 2 \<le> x / 2 ^ 53" by simp
  moreover have "of_int (round_half_even (x / ?u)) * ?u \<le> (x / ?u + 1/2) * ?u"
    using u by (intro mult_right_mono round_half_even_le) simp
  moreover have "(x / ?u + 1/2) * ?u = x + ?u / 2" using u by (simp add: field_simps)
  ultimately show ?thesis
    using assms by (simp add: f64_round_def Let_def algebra_simps)
qed

lemma f64_round_0 [simp]: "f64_round 0 = 0"
  by (simp add: f64_round_def)

lemma f64_round_pos: "0 < x \<Longrightarrow> 0 < f64_round x"
  using f64_round_ge [of x] mult_pos_pos [of x "1 - 1 / 2 ^ 53"] by simp

lemma f64_round_nonneg: "0 \<le> x \<Longrightarrow> 0 \<le> f64_round x"
  using f64_round_pos [of x] by (cases "x = 0") auto

lemma f64_round_le_nonneg: "0 \<le> x \<Longrightarrow> f64_round x \<le> x * (1 + 1 / 2 ^ 53)"
  using f64_round_le [of x] by (cases "x = 0") auto

lemma f64_round_ge_nonneg: "0 \<le> x \<Longrightarrow> x * (1 - 1 / 2 ^ 53) \<le> f64_round x"
  using f64_round_ge [of x] by (cases "x = 0") auto

lemma round_half_even_int [simp]: "round_half_even (of_int k) = k"
  by (simp add: round_half_even_def)

text \<open>Whole numbers with 53 bits are exact.\<close>

lemma f64_round_nat:
  assumes "n < 2 ^ 53"
  shows "f64_round (of_nat n) = of_nat n"
proof (cases "n = 0")
  case False
  define e where "e = bitlen (int n) - 1"
  have e: "floor_log2 (of_nat n) = e" using False by (simp add: floor_log2_def e_def)
  have "0 < bitlen (int n)" using False by (intro bitlen_pos) simp
  moreover have "bitlen (int n) \<le> 53"
    using assms by (simp add: bitlen_le_iff_power)
  ultimately have "0 \<le> e" "e \<le> 52" by (simp_all add: e_def)
  then have u: "pow2_rat (e - 52) = 1 / 2 ^ nat (52 - e)"
    by (cases "e = 52") (simp_all add: pow2_rat_def)
  have "(of_nat n :: rat) / pow2_rat (e - 52) = of_int (int n * 2 ^ nat (52 - e))"
    by (simp add: u)
  then have "round_half_even (of_nat n / pow2_rat (e - 52)) = int n * 2 ^ nat (52 - e)"
    by (simp only: round_half_even_int)
  then show ?thesis using False by (simp add: f64_round_def Let_def e u)
qed simp

end
