(* ===== verification/Cuckoo_Filter.thy ===== *)
theory Cuckoo_Filter
  imports Prelude Float64
begin

text \<open>
  The probabilistic account filter of \<^verbatim>\<open>yellowstone-grpc-proto/src/cuckoo\<close>: constants, errors,
  the seeded hasher, the filter with its partial-key cuckoo insertion, and the wire format.

  SipHash-2-4 (crate \<^verbatim>\<open>siphasher\<close>) is the parameter \<open>sip\<close>: key words and the byte
  stream fed to the hasher give the 64-bit digest. No property below restricts it. The item type is
  \<open>[u8; 32]\<close>, the one the sources instantiate the filter with.

  Abstraction: a stored fingerprint \<open>fp\<close> in bucket \<open>i\<close> stands for the unordered pair of
  candidate buckets \<open>{i, i XOR index (hash fp)}\<close>; a table stands for the multiset of these
  entries (\<open>content\<close>). Insertion, lookup and removal are shown to be insertion, membership and
  removal of that multiset.
\<close>

section \<open>Constants, errors, hasher\<close>

definition ENTRIES_PER_BUCKET :: nat where "ENTRIES_PER_BUCKET = 4"
definition MAX_KICKS :: nat where "MAX_KICKS = 500"
definition FINGERPRINT_BITS :: u32 where "FINGERPRINT_BITS = 16"
definition DEFAULT_HASH_SEED :: u64 where "DEFAULT_HASH_SEED = 0x796c6c7773746e21"

datatype CuckooBuildError = CapacityOverflow
datatype TableFullError = TableFullError

type_synonym sip24 = "u64 \<Rightarrow> u64 \<Rightarrow> bytes \<Rightarrow> u64"

record YellowstoneHasherBuilder =
  hb_seed :: u64

definition hasher_new :: "u64 \<Rightarrow> YellowstoneHasherBuilder" where
  "hasher_new s = \<lparr>hb_seed = s\<rparr>"

definition hasher_default :: YellowstoneHasherBuilder where
  "hasher_default = hasher_new DEFAULT_HASH_SEED"

definition keys_from_seed :: "u64 \<Rightarrow> u64 \<times> u64" where
  "keys_from_seed s = (s, word_rotl 32 s)"

text \<open>\<open>BuildHasher::hash_one\<close>: build the hasher, feed the item, finish.\<close>

definition hash_one :: "sip24 \<Rightarrow> YellowstoneHasherBuilder \<Rightarrow> bytes \<Rightarrow> u64" where
  "hash_one sip b stream = (case keys_from_seed (hb_seed b) of (k0, k1) \<Rightarrow> sip k0 k1 stream)"

text \<open>What \<open>Hash::hash\<close> feeds for a byte array (its length as a \<open>usize\<close>, then the bytes) and
  for a \<open>u16\<close> (its native, little-endian bytes).\<close>

definition feed_bytes :: "bytes \<Rightarrow> bytes" where
  "feed_bytes bs = le_bytes_u64 (of_nat (length bs)) @ bs"

definition feed_fp :: "u16 \<Rightarrow> bytes" where
  "feed_fp fp = le_bytes_u16 fp"

section \<open>The filter\<close>

type_synonym bucket = "u16 list"

record CuckooFilter =
  cf_buckets :: "bucket list"
  cf_hasher :: YellowstoneHasherBuilder

definition empty_bucket :: bucket where
  "empty_bucket = replicate ENTRIES_PER_BUCKET 0"

subsection \<open>Construction\<close>

text \<open>
  \<open>(max_capacity as f64 / (0.95 * 4.0)).ceil() as usize\<close>. The constant \<open>0.95\<close> is
  the double \<open>8556839292003942 / 2^53\<close>, and the product with \<open>4\<close> is exact.
\<close>

definition LOAD_FACTOR :: rat where
  "LOAD_FACTOR = 8556839292003942 / 2 ^ 53"

definition buckets_needed :: "nat \<Rightarrow> nat" where
  "buckets_needed max_capacity =
     (let q = f64_round (f64_round (of_nat max_capacity) / (LOAD_FACTOR * of_nat ENTRIES_PER_BUCKET))
      in min (nat \<lceil>q\<rceil>) (2 ^ 64 - 1))"

definition checked_next_power_of_two :: "nat \<Rightarrow> nat option" where
  "checked_next_power_of_two n =
     (let p = 2 ^ floorlog 2 (n - 1) in if p < 2 ^ 64 then Some p else None)"

text \<open>\<open>alloc n\<close> says whether the allocator can reserve \<open>n\<close> buckets.\<close>

definition with_capacity_and_hasher ::
  "(nat \<Rightarrow> bool) \<Rightarrow> nat \<Rightarrow> YellowstoneHasherBuilder \<Rightarrow> CuckooBuildError + CuckooFilter" where
  "with_capacity_and_hasher alloc max_capacity hb =
     (case checked_next_power_of_two (buckets_needed max_capacity) of
        None \<Rightarrow> Inl CapacityOverflow
      | Some p \<Rightarrow>
          let bucket_count = max p 1 in
          if \<not> alloc bucket_count then Inl CapacityOverflow
          else Inr \<lparr>cf_buckets = replicate bucket_count empty_bucket, cf_hasher = hb\<rparr>)"

definition with_capacity :: "(nat \<Rightarrow> bool) \<Rightarrow> nat \<Rightarrow> CuckooBuildError + CuckooFilter" where
  "with_capacity alloc max_capacity = with_capacity_and_hasher alloc max_capacity hasher_default"

subsection \<open>Buckets and indices\<close>

definition cf_hash :: "sip24 \<Rightarrow> CuckooFilter \<Rightarrow> bytes \<Rightarrow> u64" where
  "cf_hash sip f stream = hash_one sip (cf_hasher f) stream"

definition index :: "CuckooFilter \<Rightarrow> u64 \<Rightarrow> usize" where
  "index f h = h AND (of_nat (length (cf_buckets f)) - 1)"

fun bucket_put :: "u16 \<Rightarrow> bucket \<Rightarrow> bucket \<times> bool" where
  "bucket_put fp [] = ([], False)"
| "bucket_put fp (s # ss) =
     (if s = 0 then (fp # ss, True)
      else case bucket_put fp ss of (ss', ok) \<Rightarrow> (s # ss', ok))"

fun bucket_clear :: "u16 \<Rightarrow> bucket \<Rightarrow> bucket \<times> bool" where
  "bucket_clear fp [] = ([], False)"
| "bucket_clear fp (s # ss) =
     (if s = fp then (0 # ss, True)
      else case bucket_clear fp ss of (ss', ok) \<Rightarrow> (s # ss', ok))"

definition set_bucket :: "CuckooFilter \<Rightarrow> usize \<Rightarrow> bucket \<Rightarrow> CuckooFilter" where
  "set_bucket f i b = f\<lparr>cf_buckets := (cf_buckets f)[unat i := b]\<rparr>"

definition try_insert_to_bucket :: "CuckooFilter \<Rightarrow> usize \<Rightarrow> u16 \<Rightarrow> (CuckooFilter \<times> bool) run" where
  "try_insert_to_bucket f i fp =
     do {
       b \<leftarrow> idx (cf_buckets f) (unat i);
       let (b', ok) = bucket_put fp b;
       Some (set_bucket f i b', ok)
     }"

definition try_remove_from_bucket :: "CuckooFilter \<Rightarrow> usize \<Rightarrow> u16 \<Rightarrow> (CuckooFilter \<times> bool) run" where
  "try_remove_from_bucket f i fp =
     do {
       b \<leftarrow> idx (cf_buckets f) (unat i);
       let (b', ok) = bucket_clear fp b;
       Some (set_bucket f i b', ok)
     }"

definition bucket_contains :: "CuckooFilter \<Rightarrow> usize \<Rightarrow> u16 \<Rightarrow> bool run" where
  "bucket_contains f i fp = do { b \<leftarrow> idx (cf_buckets f) (unat i); Some (fp \<in> set b) }"

subsection \<open>Insert, contains, remove\<close>

definition fingerprint_from_hash :: "u64 \<Rightarrow> u16" where
  "fingerprint_from_hash h = (let fp = ucast (drop_bit 32 h) in if fp = 0 then 1 else fp)"

text \<open>\<open>self.index(self.hash(&fp))\<close>, the distance to the other candidate bucket\<close>

definition fp_offset :: "sip24 \<Rightarrow> CuckooFilter \<Rightarrow> u16 \<Rightarrow> usize" where
  "fp_offset sip f fp = index f (cf_hash sip f (feed_fp fp))"

text \<open>\<open>std::mem::swap(&mut fp, &mut self.buckets[i][slot])\<close>\<close>

definition swap_slot :: "CuckooFilter \<Rightarrow> usize \<Rightarrow> nat \<Rightarrow> u16 \<Rightarrow> (CuckooFilter \<times> u16) run" where
  "swap_slot f i s fp =
     do {
       b \<leftarrow> idx (cf_buckets f) (unat i);
       old \<leftarrow> idx b s;
       Some (set_bucket f i (b[s := fp]), old)
     }"

text \<open>\<open>for n in 0..MAX_KICKS\<close>; \<open>rounds\<close> is what is left of the range.\<close>

fun kick_loop ::
  "sip24 \<Rightarrow> nat \<Rightarrow> nat \<Rightarrow> CuckooFilter \<Rightarrow> usize \<Rightarrow> u16 \<Rightarrow> (CuckooFilter \<times> (TableFullError + unit)) run"
where
  "kick_loop sip 0 n f i fp = Some (f, Inl TableFullError)"
| "kick_loop sip (Suc rounds) n f i fp =
     do {
       (f1, fp1) \<leftarrow> swap_slot f i ((n + unat fp) mod ENTRIES_PER_BUCKET) fp;
       let i1 = i XOR fp_offset sip f1 fp1;
       (f2, ok) \<leftarrow> try_insert_to_bucket f1 i1 fp1;
       if ok then Some (f2, Inr ()) else kick_loop sip rounds (Suc n) f2 i1 fp1
     }"

definition cf_insert :: "sip24 \<Rightarrow> CuckooFilter \<Rightarrow> bytes \<Rightarrow> (CuckooFilter \<times> (TableFullError + unit)) run" where
  "cf_insert sip f item =
     do {
       let h = cf_hash sip f (feed_bytes item);
       let fp = fingerprint_from_hash h;
       let i1 = index f h;
       let i2 = i1 XOR fp_offset sip f fp;
       (f1, ok1) \<leftarrow> try_insert_to_bucket f i1 fp;
       if ok1 then Some (f1, Inr ())
       else do {
         (f2, ok2) \<leftarrow> try_insert_to_bucket f1 i2 fp;
         if ok2 then Some (f2, Inr ()) else kick_loop sip MAX_KICKS 0 f2 i1 fp
       }
     }"

definition cf_contains :: "sip24 \<Rightarrow> CuckooFilter \<Rightarrow> bytes \<Rightarrow> bool run" where
  "cf_contains sip f item =
     do {
       let h = cf_hash sip f (feed_bytes item);
       let fp = fingerprint_from_hash h;
       let i1 = index f h;
       let i2 = i1 XOR fp_offset sip f fp;
       c1 \<leftarrow> bucket_contains f i1 fp;
       if c1 then Some True else bucket_contains f i2 fp
     }"

definition cf_remove :: "sip24 \<Rightarrow> CuckooFilter \<Rightarrow> bytes \<Rightarrow> (CuckooFilter \<times> bool) run" where
  "cf_remove sip f item =
     do {
       let h = cf_hash sip f (feed_bytes item);
       let fp = fingerprint_from_hash h;
       let i1 = index f h;
       let i2 = i1 XOR fp_offset sip f fp;
       (f1, r1) \<leftarrow> try_remove_from_bucket f i1 fp;
       if r1 then Some (f1, True) else try_remove_from_bucket f1 i2 fp
     }"

subsection \<open>Wire format\<close>

datatype CuckooHashAlgorithm = SipHash

text \<open>\<open>algorithm as i32\<close>; on the wire the field is any 32-bit integer.\<close>

definition CuckooHashAlgorithm_as_i32 :: "CuckooHashAlgorithm \<Rightarrow> i32" where
  "CuckooHashAlgorithm_as_i32 a = (case a of SipHash \<Rightarrow> 0)"

record ProtoCuckooFilter =
  pc_data :: bytes
  pc_bucket_count :: u32
  pc_entries_per_bucket :: u32
  pc_fingerprint_bits :: u32
  pc_hash_seed :: u64
  pc_hash_algorithm :: i32

definition bucket_of_chunk :: "u16 list \<Rightarrow> bucket" where
  "bucket_of_chunk c = [c ! 0, c ! 1, c ! 2, c ! 3]"

definition decode_buckets :: "bytes \<Rightarrow> bucket list" where
  "decode_buckets data =
     map bucket_of_chunk
       (chunks_exact ENTRIES_PER_BUCKET
         (map (\<lambda>c. u16_from_le (c ! 0) (c ! 1)) (chunks_exact 2 data)))"

definition filter_from_proto :: "ProtoCuckooFilter \<Rightarrow> CuckooFilter" where
  "filter_from_proto p =
     (let hb = hasher_new (pc_hash_seed p) in
      if pc_data p = [] then \<lparr>cf_buckets = [empty_bucket], cf_hasher = hb\<rparr>
      else
        let bs = decode_buckets (pc_data p) in
        if bs = [] then \<lparr>cf_buckets = [empty_bucket], cf_hasher = hb\<rparr>
        else \<lparr>cf_buckets = bs, cf_hasher = hb\<rparr>)"

definition proto_from_filter :: "CuckooFilter \<Rightarrow> ProtoCuckooFilter" where
  "proto_from_filter f =
     \<lparr>pc_data = concat (map le_bytes_u16 (concat (cf_buckets f))),
      pc_bucket_count = of_nat (length (cf_buckets f)),
      pc_entries_per_bucket = of_nat ENTRIES_PER_BUCKET,
      pc_fingerprint_bits = FINGERPRINT_BITS,
      pc_hash_seed = hb_seed (cf_hasher f),
      pc_hash_algorithm = CuckooHashAlgorithm_as_i32 SipHash\<rparr>"

section \<open>Well-formedness and abstraction\<close>

text \<open>A \<open>Vec<[u16; 4]>\<close> holds fewer than \<open>2^60\<close> buckets (its size in bytes is below
  \<open>isize::MAX\<close>); a filter has at least one.\<close>

definition cuckoo_wf :: "CuckooFilter \<Rightarrow> bool" where
  "cuckoo_wf f \<longleftrightarrow>
     cf_buckets f \<noteq> [] \<and> length (cf_buckets f) < 2 ^ 60 \<and>
     (\<forall>b \<in> set (cf_buckets f). length b = ENTRIES_PER_BUCKET)"

type_synonym entry_key = "u16 \<times> usize set"

definition slot_key :: "sip24 \<Rightarrow> CuckooFilter \<Rightarrow> usize \<Rightarrow> u16 \<Rightarrow> entry_key" where
  "slot_key sip f i fp = (fp, {i, i XOR fp_offset sip f fp})"

definition item_key :: "sip24 \<Rightarrow> CuckooFilter \<Rightarrow> bytes \<Rightarrow> entry_key" where
  "item_key sip f item =
     (let h = cf_hash sip f (feed_bytes item) in slot_key sip f (index f h) (fingerprint_from_hash h))"

definition bucket_content :: "sip24 \<Rightarrow> CuckooFilter \<Rightarrow> usize \<Rightarrow> bucket \<Rightarrow> entry_key multiset" where
  "bucket_content sip f i b = image_mset (slot_key sip f i) (filter_mset (\<lambda>fp. fp \<noteq> 0) (mset b))"

definition content :: "sip24 \<Rightarrow> CuckooFilter \<Rightarrow> entry_key multiset" where
  "content sip f =
     (\<Sum>i < length (cf_buckets f). bucket_content sip f (of_nat i) (cf_buckets f ! i))"

section \<open>Indices stay inside the table\<close>

definition table_mask :: "CuckooFilter \<Rightarrow> usize" where
  "table_mask f = of_nat (length (cf_buckets f)) - 1"

definition in_table :: "CuckooFilter \<Rightarrow> usize \<Rightarrow> bool" where
  "in_table f i \<longleftrightarrow> i AND table_mask f = i"

lemma in_table_index [simp]: "in_table f (index f h)"
  by (simp add: in_table_def index_def table_mask_def and.assoc)

lemma in_table_xor [simp]: "in_table f i \<Longrightarrow> in_table f j \<Longrightarrow> in_table f (i XOR j)"
  unfolding in_table_def by (metis and.commute bit.conj_xor_distrib)

lemma in_table_fp_offset [simp]: "in_table f (fp_offset sip f fp)"
  by (simp add: fp_offset_def)

text \<open>Whatever the number of buckets (a deserialised table need not have a power of two), an index
  masked with \<open>len - 1\<close>, and the XOR of two such indices, is below \<open>len\<close>.\<close>

lemma in_table_less:
  assumes "cuckoo_wf f" "in_table f i"
  shows "unat i < length (cf_buckets f)"
proof -
  let ?n = "length (cf_buckets f)"
  have n: "0 < ?n" "?n < 2 ^ 60" using assms(1) by (auto simp: cuckoo_wf_def)
  have "(of_nat (?n - 1) :: usize) = of_nat ?n - of_nat 1"
    using n by (intro of_nat_diff) (simp add: Suc_le_eq)
  then have "table_mask f = of_nat (?n - 1)"
    by (simp add: table_mask_def)
  moreover have "unat (of_nat (?n - 1) :: usize) = ?n - 1"
    using n by (simp add: unat_of_nat)
  ultimately have "unat (table_mask f) = ?n - 1" by simp
  moreover have "unat (i AND table_mask f) \<le> unat (table_mask f)"
    by (rule word_and_le1 [THEN word_le_nat_alt [THEN iffD1]])
  ultimately have "unat i \<le> ?n - 1"
    using assms(2) by (simp add: in_table_def)
  with n(1) show ?thesis by linarith
qed

section \<open>Frame facts\<close>

definition same_table :: "CuckooFilter \<Rightarrow> CuckooFilter \<Rightarrow> bool" where
  "same_table f g \<longleftrightarrow>
     length (cf_buckets f) = length (cf_buckets g) \<and> cf_hasher f = cf_hasher g"

lemma same_table_refl [simp]: "same_table f f"
  by (simp add: same_table_def)

lemma same_table_trans: "same_table f g \<Longrightarrow> same_table g h \<Longrightarrow> same_table f h"
  by (simp add: same_table_def)

lemma same_table_set_bucket [simp]: "same_table f (set_bucket f i b)"
  by (simp add: same_table_def set_bucket_def)

lemma same_table_fp_offset: "same_table f g \<Longrightarrow> fp_offset sip g fp = fp_offset sip f fp"
  by (simp add: same_table_def fp_offset_def index_def cf_hash_def)

lemma same_table_slot_key: "same_table f g \<Longrightarrow> slot_key sip g i fp = slot_key sip f i fp"
  by (simp add: slot_key_def same_table_fp_offset)

lemma same_table_item_key: "same_table f g \<Longrightarrow> item_key sip g x = item_key sip f x"
  by (simp add: item_key_def same_table_slot_key Let_def)
    (simp add: same_table_def index_def cf_hash_def)

lemma same_table_in_table: "same_table f g \<Longrightarrow> in_table g i \<longleftrightarrow> in_table f i"
  by (simp add: same_table_def in_table_def table_mask_def)

lemma same_table_bucket_content:
  "same_table f g \<Longrightarrow> bucket_content sip g i b = bucket_content sip f i b"
  by (simp add: bucket_content_def same_table_slot_key cong: image_mset_cong)

lemmas same_table_simps =
  same_table_fp_offset same_table_slot_key same_table_item_key same_table_in_table
  same_table_bucket_content

lemma wf_set_bucket [wf_intros]:
  assumes "cuckoo_wf f" "length b = ENTRIES_PER_BUCKET"
  shows "cuckoo_wf (set_bucket f i b)"
  using assms set_update_subset_insert [of "cf_buckets f" "unat i" b]
  by (auto simp: cuckoo_wf_def set_bucket_def)

lemma wf_bucket_length:
  "cuckoo_wf f \<Longrightarrow> i < length (cf_buckets f) \<Longrightarrow> length (cf_buckets f ! i) = ENTRIES_PER_BUCKET"
  by (simp add: cuckoo_wf_def)

lemma content_set_bucket:
  assumes "unat i < length (cf_buckets f)"
  shows "content sip (set_bucket f i b) + bucket_content sip f i (cf_buckets f ! unat i) =
    content sip f + bucket_content sip f i b"
proof -
  let ?n = "length (cf_buckets f)" and ?g = "\<lambda>j. bucket_content sip f (of_nat j)"
  let ?bs = "(cf_buckets f)[unat i := b]"
  have st: "bucket_content sip (set_bucket f i b) = bucket_content sip f"
    by (intro ext same_table_bucket_content) simp
  have mem: "unat i \<in> {..<?n}" using assms by simp
  have "content sip (set_bucket f i b) = (\<Sum>j<?n. ?g j (?bs ! j))"
    by (simp add: content_def st) (simp add: set_bucket_def)
  also have "\<dots> = ?g (unat i) b + (\<Sum>j\<in>{..<?n} - {unat i}. ?g j (?bs ! j))"
    using assms by (subst sum.remove [OF _ mem]) simp_all
  also have "(\<Sum>j\<in>{..<?n} - {unat i}. ?g j (?bs ! j)) =
      (\<Sum>j\<in>{..<?n} - {unat i}. ?g j (cf_buckets f ! j))"
    by (rule sum.cong) auto
  finally have 1: "content sip (set_bucket f i b) =
      bucket_content sip f i b + (\<Sum>j\<in>{..<?n} - {unat i}. ?g j (cf_buckets f ! j))" by simp
  have 2: "content sip f = bucket_content sip f i (cf_buckets f ! unat i) +
      (\<Sum>j\<in>{..<?n} - {unat i}. ?g j (cf_buckets f ! j))"
    unfolding content_def by (subst sum.remove [OF _ mem]) simp_all
  show ?thesis unfolding 1 2 by simp
qed

text \<open>Replacing a bucket by one whose fingerprints are those of the old one plus \<open>fp\<close>, or
  minus \<open>fp\<close>.\<close>

abbreviation fps :: "bucket \<Rightarrow> u16 multiset" where
  "fps b \<equiv> filter_mset (\<lambda>fp. fp \<noteq> 0) (mset b)"

lemma content_add_fp:
  assumes "unat i < length (cf_buckets f)" "fps b = fps (cf_buckets f ! unat i) + {#fp#}"
  shows "content sip (set_bucket f i b) = content sip f + {#slot_key sip f i fp#}"
  using content_set_bucket [OF assms(1), of sip b] assms(2) by (simp add: bucket_content_def)

lemma content_del_fp:
  assumes "unat i < length (cf_buckets f)" "fps (cf_buckets f ! unat i) = fps b + {#fp#}"
  shows "content sip f = content sip (set_bucket f i b) + {#slot_key sip f i fp#}"
  using content_set_bucket [OF assms(1), of sip b] assms(2) by (simp add: bucket_content_def)

lemma content_swap_fp:
  assumes "unat i < length (cf_buckets f)"
    "fps b + {#old#} = fps (cf_buckets f ! unat i) + {#fp#}"
  shows "content sip (set_bucket f i b) + {#slot_key sip f i old#} =
    content sip f + {#slot_key sip f i fp#}"
proof -
  let ?B = "bucket_content sip f i (cf_buckets f ! unat i)"
  let ?o = "{#slot_key sip f i old#}" and ?p = "{#slot_key sip f i fp#}"
  have sw: "bucket_content sip f i b + ?o = ?B + ?p"
    using arg_cong [OF assms(2), of "image_mset (slot_key sip f i)"]
    unfolding bucket_content_def by (simp only: image_mset_union image_mset_single)
  have "(content sip (set_bucket f i b) + ?o) + ?B = (content sip (set_bucket f i b) + ?B) + ?o"
    by (simp only: ac_simps)
  also have "\<dots> = content sip f + (bucket_content sip f i b + ?o)"
    by (simp only: content_set_bucket [OF assms(1)] add.assoc)
  also have "\<dots> = (content sip f + ?p) + ?B"
    unfolding sw by (simp only: ac_simps)
  finally have "(content sip (set_bucket f i b) + ?o) + ?B = (content sip f + ?p) + ?B" .
  then show ?thesis by (rule add_right_imp_eq)
qed

section \<open>Bucket operations\<close>

lemma bucket_put_length: "length (fst (bucket_put fp b)) = length b"
  by (induction b) (auto split: prod.splits)

lemma bucket_put_ok:
  "bucket_put fp b = (b', True) \<Longrightarrow> fp \<noteq> 0 \<Longrightarrow> fps b' = fps b + {#fp#}"
  by (induction b arbitrary: b') (auto split: prod.splits if_splits)

lemma bucket_put_fail: "bucket_put fp b = (b', False) \<Longrightarrow> b' = b \<and> 0 \<notin> set b"
  by (induction b arbitrary: b') (auto split: prod.splits if_splits)

lemma bucket_clear_length: "length (fst (bucket_clear fp b)) = length b"
  by (induction b) (auto split: prod.splits)

lemma bucket_clear_ok:
  "bucket_clear fp b = (b', True) \<Longrightarrow> fp \<noteq> 0 \<Longrightarrow> fps b = fps b' + {#fp#}"
  by (induction b arbitrary: b') (auto split: prod.splits if_splits)

lemma bucket_clear_fail: "bucket_clear fp b = (b', False) \<Longrightarrow> b' = b \<and> fp \<notin> set b"
  by (induction b arbitrary: b') (auto split: prod.splits if_splits)

lemma swap_fps:
  assumes "s < length b" "b ! s \<noteq> 0" "fp \<noteq> 0"
  shows "fps (b[s := fp]) + {#b ! s#} = fps b + {#fp#}"
proof -
  have "mset (b[s := fp]) + {#b ! s#} = mset b + {#fp#}"
    using assms(1) by (simp add: mset_update)
  from arg_cong [OF this, of "filter_mset (\<lambda>x. x \<noteq> 0)"] assms(2,3) show ?thesis by simp
qed

lemma fingerprint_nonzero [simp]: "fingerprint_from_hash h \<noteq> 0"
  by (simp add: fingerprint_from_hash_def Let_def)

section \<open>Operations on the table\<close>

lemma try_insert_spec:
  assumes "cuckoo_wf f" "in_table f i" "fp \<noteq> 0"
  obtains (stored) f' where "try_insert_to_bucket f i fp = Some (f', True)" "cuckoo_wf f'"
      "same_table f f'" "content sip f' = content sip f + {#slot_key sip f i fp#}"
    | (full) "try_insert_to_bucket f i fp = Some (f, False)" "0 \<notin> set (cf_buckets f ! unat i)"
proof -
  have lt: "unat i < length (cf_buckets f)" using assms(1,2) by (rule in_table_less)
  obtain b' ok where put: "bucket_put fp (cf_buckets f ! unat i) = (b', ok)" by fastforce
  have step: "try_insert_to_bucket f i fp = Some (set_bucket f i b', ok)"
    using lt put by (simp add: try_insert_to_bucket_def)
  show ?thesis
  proof (cases ok)
    case True
    have "length b' = ENTRIES_PER_BUCKET"
      using bucket_put_length [of fp "cf_buckets f ! unat i"] put wf_bucket_length [OF assms(1) lt]
      by simp
    then have "cuckoo_wf (set_bucket f i b')" by (rule wf_set_bucket [OF assms(1)])
    moreover have "content sip (set_bucket f i b') = content sip f + {#slot_key sip f i fp#}"
      using put True assms(3) by (intro content_add_fp [OF lt] bucket_put_ok) simp_all
    ultimately show ?thesis using step True by (intro stored) simp_all
  next
    case False
    with put have "b' = cf_buckets f ! unat i" "0 \<notin> set (cf_buckets f ! unat i)"
      using bucket_put_fail by auto
    with step False show ?thesis by (intro full) (simp_all add: set_bucket_def)
  qed
qed

lemma try_remove_spec:
  assumes "cuckoo_wf f" "in_table f i" "fp \<noteq> 0"
  obtains (removed) f' where "try_remove_from_bucket f i fp = Some (f', True)" "cuckoo_wf f'"
      "same_table f f'" "content sip f = content sip f' + {#slot_key sip f i fp#}"
    | (absent) "try_remove_from_bucket f i fp = Some (f, False)" "fp \<notin> set (cf_buckets f ! unat i)"
proof -
  have lt: "unat i < length (cf_buckets f)" using assms(1,2) by (rule in_table_less)
  obtain b' ok where clr: "bucket_clear fp (cf_buckets f ! unat i) = (b', ok)" by fastforce
  have step: "try_remove_from_bucket f i fp = Some (set_bucket f i b', ok)"
    using lt clr by (simp add: try_remove_from_bucket_def)
  show ?thesis
  proof (cases ok)
    case True
    have "length b' = ENTRIES_PER_BUCKET"
      using bucket_clear_length [of fp "cf_buckets f ! unat i"] clr wf_bucket_length [OF assms(1) lt]
      by simp
    then have "cuckoo_wf (set_bucket f i b')" by (rule wf_set_bucket [OF assms(1)])
    moreover have "content sip f = content sip (set_bucket f i b') + {#slot_key sip f i fp#}"
      using clr True assms(3) by (intro content_del_fp [OF lt] bucket_clear_ok) simp_all
    ultimately show ?thesis using step True by (intro removed) simp_all
  next
    case False
    with clr have "b' = cf_buckets f ! unat i" "fp \<notin> set (cf_buckets f ! unat i)"
      using bucket_clear_fail by auto
    with step False show ?thesis by (intro absent) (simp_all add: set_bucket_def)
  qed
qed

lemma swap_slot_spec:
  assumes "cuckoo_wf f" "in_table f i" "fp \<noteq> 0" "0 \<notin> set (cf_buckets f ! unat i)"
    "s < ENTRIES_PER_BUCKET"
  obtains f' old where "swap_slot f i s fp = Some (f', old)" "old \<noteq> 0" "cuckoo_wf f'"
    "same_table f f'"
    "content sip f' + {#slot_key sip f i old#} = content sip f + {#slot_key sip f i fp#}"
proof -
  let ?b = "cf_buckets f ! unat i"
  have lt: "unat i < length (cf_buckets f)" using assms(1,2) by (rule in_table_less)
  have s: "s < length ?b" using wf_bucket_length [OF assms(1) lt] assms(5) by simp
  have nz: "?b ! s \<noteq> 0" using s assms(4) by (metis nth_mem)
  have "content sip (set_bucket f i (?b[s := fp])) + {#slot_key sip f i (?b ! s)#} =
      content sip f + {#slot_key sip f i fp#}"
    by (rule content_swap_fp [OF lt]) (rule swap_fps [OF s nz assms(3)])
  moreover have "cuckoo_wf (set_bucket f i (?b[s := fp]))"
    using wf_bucket_length [OF assms(1) lt] by (intro wf_set_bucket [OF assms(1)]) simp
  ultimately show ?thesis
    using lt s nz by (intro that [of _ "?b ! s"]) (simp_all add: swap_slot_def)
qed

text \<open>The two candidate buckets of a stored fingerprint determine each other.\<close>

lemma slot_key_other: "slot_key sip f (i XOR fp_offset sip f fp) fp = slot_key sip f i fp"
  by (auto simp: slot_key_def xor.assoc)

lemma slot_key_eq_iff:
  "slot_key sip f i fp = slot_key sip f j fp' \<longleftrightarrow>
     fp = fp' \<and> (i = j \<or> i = j XOR fp_offset sip f fp)"
  by (auto simp: slot_key_def doubleton_eq_iff xor.assoc)

text \<open>The eviction loop never panics and adds the fingerprint it carries; when it gives up, one
  entry (of the old table, or the new one) is gone.\<close>

definition kick_result ::
  "sip24 \<Rightarrow> entry_key multiset \<Rightarrow> CuckooFilter \<Rightarrow> TableFullError + unit \<Rightarrow> bool" where
  "kick_result sip target f' r \<longleftrightarrow>
     (case r of
        Inr _ \<Rightarrow> content sip f' = target
      | Inl _ \<Rightarrow> (\<exists>lost. target = content sip f' + {#lost#}))"

lemma kick_loop_spec:
  assumes "cuckoo_wf f" "in_table f i" "fp \<noteq> 0" "0 \<notin> set (cf_buckets f ! unat i)"
  shows "\<exists>f' r. kick_loop sip rounds n f i fp = Some (f', r) \<and> cuckoo_wf f' \<and> same_table f f' \<and>
    kick_result sip (content sip f + {#slot_key sip f i fp#}) f' r"
  using assms
proof (induction rounds arbitrary: n f i fp)
  case 0
  then show ?case by (auto simp: kick_result_def)
next
  case (Suc rounds)
  let ?s = "(n + unat fp) mod ENTRIES_PER_BUCKET"
  have "?s < ENTRIES_PER_BUCKET" by (simp add: ENTRIES_PER_BUCKET_def)
  with Suc.prems obtain f1 old where sw: "swap_slot f i ?s fp = Some (f1, old)" "old \<noteq> 0"
    "cuckoo_wf f1" "same_table f f1"
    "content sip f1 + {#slot_key sip f i old#} = content sip f + {#slot_key sip f i fp#}"
    by (rule swap_slot_spec [where sip = sip])
  let ?i = "i XOR fp_offset sip f1 old"
  have key: "slot_key sip f1 ?i old = slot_key sip f i old"
    using sw(4) by (simp add: slot_key_other same_table_slot_key)
  have it: "in_table f1 ?i"
    using Suc.prems(2) sw(4) by (simp add: same_table_in_table same_table_fp_offset)
  show ?case
  proof (rule try_insert_spec [OF sw(3) it sw(2), where sip = sip])
    fix f2
    assume "try_insert_to_bucket f1 ?i old = Some (f2, True)" "cuckoo_wf f2" "same_table f1 f2"
      "content sip f2 = content sip f1 + {#slot_key sip f1 ?i old#}"
    with sw key show ?case
      by (auto simp: kick_result_def intro: same_table_trans)
  next
    assume full: "try_insert_to_bucket f1 ?i old = Some (f1, False)"
      "0 \<notin> set (cf_buckets f1 ! unat ?i)"
    from Suc.IH [OF sw(3) it sw(2) full(2), of "Suc n"] full(1) sw key show ?case
      by (fastforce intro: same_table_trans)
  qed
qed

lemma cf_insert_spec:
  assumes "cuckoo_wf f"
  shows "\<exists>f' r. cf_insert sip f x = Some (f', r) \<and> cuckoo_wf f' \<and> same_table f f' \<and>
    kick_result sip (content sip f + {#item_key sip f x#}) f' r"
proof -
  let ?h = "cf_hash sip f (feed_bytes x)"
  let ?fp = "fingerprint_from_hash ?h" and ?i = "index f ?h"
  let ?j = "?i XOR fp_offset sip f ?fp"
  have key: "item_key sip f x = slot_key sip f ?i ?fp" "slot_key sip f ?j ?fp = slot_key sip f ?i ?fp"
    by (simp_all add: item_key_def Let_def slot_key_other)
  show ?thesis
  proof (rule try_insert_spec [OF assms in_table_index fingerprint_nonzero, of ?h ?h sip])
    fix f' assume "try_insert_to_bucket f ?i ?fp = Some (f', True)" "cuckoo_wf f'"
      "same_table f f'" "content sip f' = content sip f + {#slot_key sip f ?i ?fp#}"
    with key show ?thesis by (auto simp: cf_insert_def kick_result_def Let_def)
  next
    assume full1: "try_insert_to_bucket f ?i ?fp = Some (f, False)" "0 \<notin> set (cf_buckets f ! unat ?i)"
    show ?thesis
    proof (rule try_insert_spec [OF assms _ fingerprint_nonzero, of ?j ?h sip])
      show "in_table f ?j" by simp
    next
      fix f' assume "try_insert_to_bucket f ?j ?fp = Some (f', True)" "cuckoo_wf f'"
        "same_table f f'" "content sip f' = content sip f + {#slot_key sip f ?j ?fp#}"
      with full1 key show ?thesis by (auto simp: cf_insert_def kick_result_def Let_def)
    next
      assume "try_insert_to_bucket f ?j ?fp = Some (f, False)"
      with full1 key kick_loop_spec [OF assms in_table_index fingerprint_nonzero full1(2),
          of sip MAX_KICKS 0 ?h]
      show ?thesis by (auto simp: cf_insert_def Let_def)
    qed
  qed
qed

lemma bucket_contains_spec:
  assumes "cuckoo_wf f" "in_table f i"
  shows "bucket_contains f i fp = Some (fp \<in> set (cf_buckets f ! unat i))"
  using in_table_less [OF assms] by (simp add: bucket_contains_def)

lemma content_member_iff:
  assumes "fp \<noteq> 0" "cuckoo_wf f" "in_table f i"
  shows "slot_key sip f i fp \<in># content sip f \<longleftrightarrow>
    fp \<in> set (cf_buckets f ! unat i) \<or> fp \<in> set (cf_buckets f ! unat (i XOR fp_offset sip f fp))"
    (is "?L \<longleftrightarrow> ?R")
proof
  have n60: "length (cf_buckets f) < 2 ^ 60" using assms(2) by (simp add: cuckoo_wf_def)
  assume ?L
  then obtain j fp' where j: "j < length (cf_buckets f)" "fp' \<in> set (cf_buckets f ! j)"
      "slot_key sip f (of_nat j) fp' = slot_key sip f i fp"
    by (auto simp: content_def bucket_content_def set_mset_sum)
  have "unat (of_nat j :: usize) = j" using j(1) n60 by (simp add: unat_of_nat)
  with j show ?R
    by (auto simp: slot_key_eq_iff xor.assoc)
next
  have mem: "slot_key sip f k fp \<in># content sip f"
    if "in_table f k" "fp \<in> set (cf_buckets f ! unat k)" for k
  proof -
    have "unat k < length (cf_buckets f)" using in_table_less [OF assms(2) that(1)] .
    moreover have "slot_key sip f k fp \<in># bucket_content sip f (of_nat (unat k)) (cf_buckets f ! unat k)"
      using that(2) assms(1) by (simp add: bucket_content_def)
    ultimately show ?thesis unfolding content_def by (subst set_mset_sum) blast+
  qed
  assume ?R
  then show ?L
    using mem [of i] mem [of "i XOR fp_offset sip f fp"] assms(3) by (auto simp: slot_key_other)
qed

lemma cf_contains_spec:
  assumes "cuckoo_wf f"
  shows "cf_contains sip f x = Some (item_key sip f x \<in># content sip f)"
proof -
  let ?h = "cf_hash sip f (feed_bytes x)"
  have "in_table f (index f ?h XOR fp_offset sip f (fingerprint_from_hash ?h))" by simp
  then show ?thesis
    using assms bucket_contains_spec content_member_iff
    by (simp add: cf_contains_def item_key_def Let_def)
qed

lemma cf_remove_spec:
  assumes "cuckoo_wf f"
  shows "\<exists>f'. cf_remove sip f x = Some (f', item_key sip f x \<in># content sip f) \<and> cuckoo_wf f' \<and>
    same_table f f' \<and> content sip f' = content sip f - {#item_key sip f x#}"
proof -
  let ?h = "cf_hash sip f (feed_bytes x)"
  let ?fp = "fingerprint_from_hash ?h" and ?i = "index f ?h"
  let ?j = "?i XOR fp_offset sip f ?fp"
  have key: "item_key sip f x = slot_key sip f ?i ?fp" "slot_key sip f ?j ?fp = slot_key sip f ?i ?fp"
    by (simp_all add: item_key_def Let_def slot_key_other)
  show ?thesis
  proof (rule try_remove_spec [OF assms in_table_index fingerprint_nonzero, of ?h ?h sip])
    fix f' assume "try_remove_from_bucket f ?i ?fp = Some (f', True)" "cuckoo_wf f'"
      "same_table f f'" "content sip f = content sip f' + {#slot_key sip f ?i ?fp#}"
    with key show ?thesis by (auto simp: cf_remove_def Let_def)
  next
    assume absent1: "try_remove_from_bucket f ?i ?fp = Some (f, False)"
      "?fp \<notin> set (cf_buckets f ! unat ?i)"
    show ?thesis
    proof (rule try_remove_spec [OF assms _ fingerprint_nonzero, of ?j ?h sip])
      show "in_table f ?j" by simp
    next
      fix f' assume "try_remove_from_bucket f ?j ?fp = Some (f', True)" "cuckoo_wf f'"
        "same_table f f'" "content sip f = content sip f' + {#slot_key sip f ?j ?fp#}"
      with absent1 key show ?thesis by (auto simp: cf_remove_def Let_def)
    next
      assume absent2: "try_remove_from_bucket f ?j ?fp = Some (f, False)"
        "?fp \<notin> set (cf_buckets f ! unat ?j)"
      have "item_key sip f x \<notin># content sip f"
        using content_member_iff [OF fingerprint_nonzero assms in_table_index, of sip ?h ?h]
          absent1(2) absent2(2) key(1) by simp
      with absent1(1) absent2(1) assms show ?thesis
        by (auto simp: cf_remove_def Let_def diff_single_trivial)
    qed
  qed
qed

section \<open>Wire format\<close>

lemma bucket_of_chunk_id: "length b = ENTRIES_PER_BUCKET \<Longrightarrow> bucket_of_chunk b = b"
  by (rule nth_equalityI)
    (auto simp: bucket_of_chunk_def ENTRIES_PER_BUCKET_def less_Suc_eq numeral_eq_Suc)

lemma decode_fingerprints:
  "map (\<lambda>c. u16_from_le (c ! 0) (c ! 1)) (chunks_exact 2 (concat (map le_bytes_u16 xs))) = xs"
proof -
  have "chunks_exact 2 (concat (map le_bytes_u16 xs)) = map le_bytes_u16 xs"
    by (rule chunks_exact_concat) auto
  moreover have "map (\<lambda>x. u16_from_le (le_bytes_u16 x ! 0) (le_bytes_u16 x ! 1)) xs = xs"
    by (simp add: u16_le_roundtrip map_idI del: One_nat_def)
  ultimately show ?thesis by (simp add: comp_def)
qed

lemma decode_encode_buckets:
  assumes "\<forall>b \<in> set bs. length b = ENTRIES_PER_BUCKET"
  shows "decode_buckets (concat (map le_bytes_u16 (concat bs))) = bs"
proof -
  have "chunks_exact ENTRIES_PER_BUCKET (concat bs) = bs"
    using assms by (intro chunks_exact_concat) (simp_all add: ENTRIES_PER_BUCKET_def)
  then show ?thesis
    using assms
    by (simp add: decode_buckets_def decode_fingerprints bucket_of_chunk_id map_idI del: One_nat_def)
qed

lemma length_decode_buckets: "length (decode_buckets d) = length d div 2 div 4"
  by (simp add: decode_buckets_def length_chunks_exact ENTRIES_PER_BUCKET_def)

lemma decode_buckets_wf: "b \<in> set (decode_buckets d) \<Longrightarrow> length b = ENTRIES_PER_BUCKET"
  by (auto simp: decode_buckets_def bucket_of_chunk_def ENTRIES_PER_BUCKET_def)

lemma filter_from_proto_wf [wf_intros]:
  assumes "length (pc_data p) < 2 ^ 63"
  shows "cuckoo_wf (filter_from_proto p)"
proof -
  have "length (decode_buckets (pc_data p)) < 2 ^ 60"
    using assms by (simp add: length_decode_buckets)
  then show ?thesis
    by (auto simp: filter_from_proto_def cuckoo_wf_def Let_def empty_bucket_def decode_buckets_wf)
qed

lemma empty_bucket_length [simp]: "length empty_bucket = ENTRIES_PER_BUCKET"
  by (simp add: empty_bucket_def)

lemma proto_data_nonempty:
  assumes "cuckoo_wf f"
  shows "pc_data (proto_from_filter f) \<noteq> []"
proof -
  obtain b bs where "cf_buckets f = b # bs" "length b = 4"
    using assms by (cases "cf_buckets f") (auto simp: cuckoo_wf_def ENTRIES_PER_BUCKET_def)
  then show ?thesis
    by (cases b) (auto simp: proto_from_filter_def le_bytes_u16_def)
qed

lemma wire_roundtrip:
  assumes "cuckoo_wf f"
  shows "filter_from_proto (proto_from_filter f) = f"
proof -
  have "decode_buckets (pc_data (proto_from_filter f)) = cf_buckets f"
    using assms by (simp add: proto_from_filter_def cuckoo_wf_def decode_encode_buckets)
  moreover have "cf_buckets f \<noteq> []" using assms by (simp add: cuckoo_wf_def)
  moreover have "pc_hash_seed (proto_from_filter f) = hb_seed (cf_hasher f)"
    by (simp add: proto_from_filter_def)
  ultimately show ?thesis
    using proto_data_nonempty [OF assms] by (simp add: filter_from_proto_def Let_def hasher_new_def)
qed

section \<open>Construction\<close>

lemma checked_next_power_of_two_ge:
  assumes "checked_next_power_of_two n = Some p"
  shows "n \<le> p \<and> p < 2 ^ 64 \<and> (\<exists>k. p = 2 ^ k)"
proof -
  have p: "p = 2 ^ floorlog 2 (n - 1)" "p < 2 ^ 64"
    using assms by (auto simp: checked_next_power_of_two_def Let_def split: if_splits)
  have "n - 1 < 2 ^ floorlog 2 (n - 1)"
    by (cases "n - 1 = 0") (simp_all add: floorlog_bounds floorlog_def [of 2 0])
  with p show ?thesis by auto
qed

lemma buckets_needed_ge:
  assumes "buckets_needed n < 2 ^ 64 - 1"
  shows "n \<le> 4 * buckets_needed n"
proof (cases "n = 0")
  case False
  let ?c = "LOAD_FACTOR * of_nat ENTRIES_PER_BUCKET" and ?e = "1 - 1 / 2 ^ 53 :: rat"
  let ?x = "f64_round (of_nat n)"
  have c: "0 < ?c" "?c \<le> 4 * (?e * ?e)" by (simp_all add: LOAD_FACTOR_def ENTRIES_PER_BUCKET_def)
  have x: "of_nat n * ?e \<le> ?x" using False by (intro f64_round_ge) simp
  have n0: "(0::rat) < of_nat n" using False by simp
  have "0 < of_nat n * ?e" using n0 by simp
  with x have x0: "0 < ?x" by linarith
  have "(of_nat n * ?e / ?c) * ?e \<le> (?x / ?c) * ?e"
    using x c(1) by (intro mult_right_mono divide_right_mono) simp_all
  also have "\<dots> \<le> f64_round (?x / ?c)" using x0 c(1) by (intro f64_round_ge) simp
  also have "\<dots> \<le> of_int \<lceil>f64_round (?x / ?c)\<rceil>" by (rule le_of_int_ceiling)
  finally have lb: "of_nat n * ?e / ?c * ?e \<le> of_int \<lceil>f64_round (?x / ?c)\<rceil>" .
  have "of_nat n / 4 \<le> of_nat n * ?e / ?c * ?e"
  proof -
    have "of_nat n * ?c \<le> of_nat n * (4 * (?e * ?e))"
      using c(2) n0 by (intro mult_left_mono) simp_all
    then show ?thesis using c(1) by (simp add: field_simps)
  qed
  with lb have "(of_nat n :: rat) \<le> 4 * of_int \<lceil>f64_round (?x / ?c)\<rceil>" by simp
  then have "int n \<le> 4 * \<lceil>f64_round (?x / ?c)\<rceil>"
    by (metis of_int_le_iff of_int_mult of_int_numeral of_int_of_nat_eq)
  then show ?thesis using assms by (simp add: buckets_needed_def Let_def min_def split: if_splits)
qed simp

lemma buckets_needed_bound:
  "checked_next_power_of_two (buckets_needed n) = Some p \<Longrightarrow> buckets_needed n < 2 ^ 64 - 1"
proof (rule ccontr)
  assume some: "checked_next_power_of_two (buckets_needed n) = Some p"
    and ge: "\<not> buckets_needed n < 2 ^ 64 - 1"
  have "buckets_needed n \<le> 2 ^ 64 - 1" by (simp add: buckets_needed_def Let_def)
  with ge have eq: "buckets_needed n = 2 ^ 64 - 1" by simp
  obtain k where k: "p = 2 ^ k" "2 ^ 64 - 1 \<le> p" "p < 2 ^ 64"
    using checked_next_power_of_two_ge [OF some] eq by auto
  then have "k < 64" by (metis one_less_numeral_iff power_less_imp_less_exp semiring_norm(76))
  then have "(2::nat) ^ k \<le> 2 ^ 63" by (intro power_increasing) simp_all
  with k(1) have "p \<le> 2 ^ 63" by simp
  with k(2) show False by simp
qed

end
