(* ===== verification/Cuckoo_Set.thy ===== *)
theory Cuckoo_Set
  imports Cuckoo_Filter
begin

text \<open>
  \<^verbatim>\<open>yellowstone-grpc-proto/src/cuckoo/set.rs\<close>: the tracked set of accounts a client keeps beside
  the cuckoo filter it uploads. The contract the set relies on is the locale
  \<open>fingerprint_bag\<close> (membership, insertion and removal as operations of a multiset of keys);
  the client-side argument is made once inside it and interpreted on the functions of
  \<^verbatim>\<open>filter.rs\<close>.
\<close>

section \<open>The contract of the filter\<close>

locale fingerprint_bag =
  fixes wf :: "'f \<Rightarrow> bool"
    and key :: "'f \<Rightarrow> 'x \<Rightarrow> 'k"
    and bag :: "'f \<Rightarrow> 'k multiset"
    and mem :: "'f \<Rightarrow> 'x \<Rightarrow> bool run"
    and ins :: "'f \<Rightarrow> 'x \<Rightarrow> ('f \<times> ('e + unit)) run"
    and del :: "'f \<Rightarrow> 'x \<Rightarrow> ('f \<times> bool) run"
  assumes mem_law: "wf f \<Longrightarrow> mem f x = Some (key f x \<in># bag f)"
    and ins_law: "wf f \<Longrightarrow> \<exists>f' r. ins f x = Some (f', r) \<and> wf f' \<and> key f' = key f \<and>
      (case r of Inr _ \<Rightarrow> bag f' = bag f + {#key f x#}
       | Inl _ \<Rightarrow> (\<exists>lost. bag f + {#key f x#} = bag f' + {#lost#}))"
    and del_law: "wf f \<Longrightarrow> \<exists>f'. del f x = Some (f', key f x \<in># bag f) \<and> wf f' \<and> key f' = key f \<and>
      bag f' = bag f - {#key f x#}"
begin

lemma never_panics:
  "wf f \<Longrightarrow> mem f x \<noteq> None \<and> ins f x \<noteq> None \<and> del f x \<noteq> None"
  using mem_law ins_law del_law by fastforce

lemma ins_ok:
  assumes "wf f" "ins f x = Some (f', Inr u)"
  shows "wf f' \<and> key f' = key f \<and> bag f' = bag f + {#key f x#}"
  using ins_law [OF assms(1), of x] assms(2) by auto

lemma ins_err:
  assumes "wf f" "ins f x = Some (f', Inl e)"
  shows "wf f' \<and> key f' = key f \<and> (\<exists>lost. bag f + {#key f x#} = bag f' + {#lost#})"
  using ins_law [OF assms(1), of x] assms(2) by auto

lemma ins_keeps_members:
  assumes "wf f" "ins f x = Some (f', Inr u)"
  shows "mem f' x = Some True \<and> (mem f y = Some True \<longrightarrow> mem f' y = Some True)"
  using ins_ok [OF assms] mem_law assms(1) by auto

text \<open>A filter whose entries are those of the tracked items finds every one of them.\<close>

lemma tracked_mem:
  assumes "wf f" "bag f = image_mset (key f) (mset xs)" "x \<in> set xs"
  shows "mem f x = Some True"
  using assms by (simp add: mem_law)

lemma tracked_ins:
  assumes "wf f" "bag f = image_mset (key f) (mset xs)" "ins f x = Some (f', Inr u)"
  shows "wf f' \<and> bag f' = image_mset (key f') (mset (xs @ [x]))"
  using ins_ok [OF assms(1,3)] assms(2) by simp

lemma tracked_del:
  assumes "wf f" "bag f = image_mset (key f) (mset xs)" "x \<in> set xs" "distinct xs"
  shows "\<exists>f'. del f x = Some (f', True) \<and> wf f' \<and>
    bag f' = image_mset (key f') (mset (filter (\<lambda>y. y \<noteq> x) xs))"
proof -
  obtain f' where f': "del f x = Some (f', key f x \<in># bag f)" "wf f'" "key f' = key f"
      "bag f' = bag f - {#key f x#}"
    using del_law [OF assms(1)] by blast
  have "filter (\<lambda>y. y \<noteq> x) xs = filter (\<lambda>y. x \<noteq> y) xs"
    by (rule filter_cong) auto
  then have "filter (\<lambda>y. y \<noteq> x) xs = remove1 x xs"
    using assms(4) by (simp add: distinct_remove1_removeAll removeAll_filter_not_eq)
  then have "mset (filter (\<lambda>y. y \<noteq> x) xs) = mset xs - {#x#}" by simp
  moreover have "image_mset (key f) (mset xs - {#x#}) = bag f - {#key f x#}"
    using assms(2,3) by (simp add: image_mset_Diff)
  ultimately show ?thesis using f' assms(2,3) by auto
qed

end

interpretation cf: fingerprint_bag cuckoo_wf "item_key sip" "content sip"
  "cf_contains sip" "cf_insert sip" "cf_remove sip" for sip :: sip24
proof
  fix f :: CuckooFilter and x :: bytes
  assume wf: "cuckoo_wf f"
  have key: "same_table f f' \<Longrightarrow> item_key sip f' = item_key sip f" for f'
    by (intro ext) (rule same_table_item_key)
  show "cf_contains sip f x = Some (item_key sip f x \<in># content sip f)"
    by (rule cf_contains_spec [OF wf])
  show "\<exists>f' r. cf_insert sip f x = Some (f', r) \<and> cuckoo_wf f' \<and> item_key sip f' = item_key sip f \<and>
      (case r of Inr _ \<Rightarrow> content sip f' = content sip f + {#item_key sip f x#}
       | Inl _ \<Rightarrow> (\<exists>lost. content sip f + {#item_key sip f x#} = content sip f' + {#lost#}))"
    using cf_insert_spec [OF wf, of sip x] key unfolding kick_result_def by blast
  show "\<exists>f'. cf_remove sip f x = Some (f', item_key sip f x \<in># content sip f) \<and> cuckoo_wf f' \<and>
      item_key sip f' = item_key sip f \<and> content sip f' = content sip f - {#item_key sip f x#}"
    using cf_remove_spec [OF wf, of sip x] key by blast
qed

section \<open>The tracked set\<close>

record CompressedAccountFilterSet =
  cs_items :: "bytes hset"
  cs_filter :: CuckooFilter
  cs_dirty :: bool

text \<open>\<open>reserve n\<close> says whether the \<open>HashSet\<close> can reserve room for \<open>n\<close> keys.\<close>

definition cs_with_capacity ::
  "(nat \<Rightarrow> bool) \<Rightarrow> (nat \<Rightarrow> bool) \<Rightarrow> nat \<Rightarrow> CuckooBuildError + CompressedAccountFilterSet" where
  "cs_with_capacity alloc reserve max_capacity =
     (case with_capacity alloc max_capacity of
        Inl e \<Rightarrow> Inl e
      | Inr f \<Rightarrow>
          if \<not> reserve max_capacity then Inl CapacityOverflow
          else Inr \<lparr>cs_items = [], cs_filter = f, cs_dirty = False\<rparr>)"

definition cs_insert ::
  "sip24 \<Rightarrow> CompressedAccountFilterSet \<Rightarrow> pubkey \<Rightarrow>
   (CompressedAccountFilterSet \<times> (TableFullError + bool)) run" where
  "cs_insert sip s k =
     (if k \<in> set (cs_items s) then Some (s, Inr False)
      else do {
        (f, r) \<leftarrow> cf_insert sip (cs_filter s) k;
        case r of
          Inl e \<Rightarrow> Some (s\<lparr>cs_filter := f\<rparr>, Inl e)
        | Inr _ \<Rightarrow>
            Some (s\<lparr>cs_filter := f, cs_items := hset_insert k (cs_items s), cs_dirty := True\<rparr>, Inr True)
      })"

definition cs_remove ::
  "sip24 \<Rightarrow> CompressedAccountFilterSet \<Rightarrow> pubkey \<Rightarrow> (CompressedAccountFilterSet \<times> bool) run" where
  "cs_remove sip s k =
     (if k \<in> set (cs_items s) then
        do {
          (f, _) \<leftarrow> cf_remove sip (cs_filter s) k;
          Some (s\<lparr>cs_items := filter (\<lambda>y. y \<noteq> k) (cs_items s), cs_filter := f, cs_dirty := True\<rparr>, True)
        }
      else Some (s, False))"

definition cs_contains :: "CompressedAccountFilterSet \<Rightarrow> pubkey \<Rightarrow> bool" where
  "cs_contains s k \<longleftrightarrow> k \<in> set (cs_items s)"

definition cs_len :: "CompressedAccountFilterSet \<Rightarrow> nat" where
  "cs_len s = length (cs_items s)"

definition cs_iter :: "CompressedAccountFilterSet \<Rightarrow> bytes list" where
  "cs_iter s = cs_items s"

definition cs_is_empty :: "CompressedAccountFilterSet \<Rightarrow> bool" where
  "cs_is_empty s \<longleftrightarrow> cs_items s = []"

definition cs_is_dirty :: "CompressedAccountFilterSet \<Rightarrow> bool" where
  "cs_is_dirty s = cs_dirty s"

definition cs_take_dirty :: "CompressedAccountFilterSet \<Rightarrow> CompressedAccountFilterSet \<times> bool" where
  "cs_take_dirty s = (s\<lparr>cs_dirty := False\<rparr>, cs_dirty s)"

definition cs_to_proto :: "CompressedAccountFilterSet \<Rightarrow> ProtoCuckooFilter" where
  "cs_to_proto s = proto_from_filter (cs_filter s)"

text \<open>States a client can reach through the public operations as long as no insertion reports a
  full table.\<close>

inductive cs_reach ::
  "sip24 \<Rightarrow> (nat \<Rightarrow> bool) \<Rightarrow> (nat \<Rightarrow> bool) \<Rightarrow> CompressedAccountFilterSet \<Rightarrow> bool"
  for sip alloc reserve
where
  reach_new: "cs_with_capacity alloc reserve n = Inr s \<Longrightarrow> cs_reach sip alloc reserve s"
| reach_insert: "cs_reach sip alloc reserve s \<Longrightarrow> cs_insert sip s k = Some (s', Inr b) \<Longrightarrow>
     cs_reach sip alloc reserve s'"
| reach_remove: "cs_reach sip alloc reserve s \<Longrightarrow> cs_remove sip s k = Some (s', b) \<Longrightarrow>
     cs_reach sip alloc reserve s'"
| reach_take_dirty: "cs_reach sip alloc reserve s \<Longrightarrow> cs_reach sip alloc reserve (fst (cs_take_dirty s))"

definition cs_inv :: "sip24 \<Rightarrow> CompressedAccountFilterSet \<Rightarrow> bool" where
  "cs_inv sip s \<longleftrightarrow>
     distinct (cs_items s) \<and> cuckoo_wf (cs_filter s) \<and>
     content sip (cs_filter s) = image_mset (item_key sip (cs_filter s)) (mset (cs_items s))"

lemma with_capacity_wf:
  assumes "with_capacity alloc n = Inr f" "\<And>m. alloc m \<Longrightarrow> m < 2 ^ 60"
  shows "cuckoo_wf f \<and> content sip f = {#}"
proof -
  obtain m where m: "f = \<lparr>cf_buckets = replicate m empty_bucket, cf_hasher = hasher_default\<rparr>"
      "0 < m" "alloc m"
    using assms(1)
    by (auto simp: with_capacity_def with_capacity_and_hasher_def Let_def
        split: option.splits if_splits)
  then have "cuckoo_wf f" using assms(2) by (auto simp: cuckoo_wf_def)
  moreover have e: "fps empty_bucket = {#}"
    by (simp add: empty_bucket_def ENTRIES_PER_BUCKET_def numeral_eq_Suc)
  have "content sip f = {#}"
    by (simp add: m content_def bucket_content_def e)
  ultimately show ?thesis ..
qed

lemma cs_inv_new:
  assumes "cs_with_capacity alloc reserve n = Inr s" "\<And>m. alloc m \<Longrightarrow> m < 2 ^ 60"
  shows "cs_inv sip s"
  using assms with_capacity_wf [of alloc n _ sip]
  by (auto simp: cs_with_capacity_def cs_inv_def split: sum.splits if_splits)

lemma cs_inv_insert [wf_intros]:
  assumes "cs_inv sip s" "cs_insert sip s k = Some (s', Inr b)"
  shows "cs_inv sip s'"
proof (cases "k \<in> set (cs_items s)")
  case True
  with assms show ?thesis by (simp add: cs_insert_def)
next
  case False
  with assms(2) obtain f r where fr: "cf_insert sip (cs_filter s) k = Some (f, r)"
    by (auto simp: cs_insert_def bind_eq_Some_conv)
  with False assms(2) obtain u where f: "cf_insert sip (cs_filter s) k = Some (f, Inr u)"
      "s' = s\<lparr>cs_filter := f, cs_items := cs_items s @ [k], cs_dirty := True\<rparr>"
    by (cases r) (auto simp: cs_insert_def hset_insert_def)
  from cf.tracked_ins [OF _ _ f(1)] assms(1) f(2) False show ?thesis
    by (simp add: cs_inv_def)
qed

lemma cs_inv_remove [wf_intros]:
  assumes "cs_inv sip s" "cs_remove sip s k = Some (s', b)"
  shows "cs_inv sip s'"
proof (cases "k \<in> set (cs_items s)")
  case False
  with assms show ?thesis by (simp add: cs_remove_def)
next
  case True
  from cf.tracked_del [of "cs_filter s" sip "cs_items s" k] assms(1) True
  obtain f where f: "cf_remove sip (cs_filter s) k = Some (f, True)" "cuckoo_wf f"
      "content sip f = image_mset (item_key sip f) (mset (filter (\<lambda>y. y \<noteq> k) (cs_items s)))"
    by (auto simp: cs_inv_def)
  with True assms show ?thesis by (auto simp: cs_remove_def cs_inv_def)
qed

lemma cs_reach_inv:
  assumes "cs_reach sip alloc reserve s" "\<And>m. alloc m \<Longrightarrow> m < 2 ^ 60"
  shows "cs_inv sip s"
  using assms(1)
proof induction
  case (reach_new n s)
  then show ?case using assms(2) by (rule cs_inv_new)
next
  case (reach_take_dirty s)
  then show ?case by (simp add: cs_take_dirty_def cs_inv_def)
qed (auto intro: wf_intros)

end
