(* ===== verification/Cuckoo_Claims.thy ===== *)
theory Cuckoo_Claims
  imports Cuckoo_Set
begin

text \<open>
  The properties of the cuckoo filter and of the tracked account set, with the small concrete table
  their witnesses run on: a one-bucket table under a hash whose fingerprint is the last byte of the
  item.
\<close>

section \<open>A concrete hash and table\<close>

definition toy_sip :: sip24 where
  "toy_sip k0 k1 s = (if length s = 2 then 0 else push_bit 32 (ucast (last s)))"

definition toy_table :: "bucket \<Rightarrow> CuckooFilter" where
  "toy_table b = \<lparr>cf_buckets = [b], cf_hasher = hasher_default\<rparr>"

definition toy_full :: CompressedAccountFilterSet where
  "toy_full = \<lparr>cs_items = [[1], [2], [5], [3]], cs_filter = toy_table [1, 2, 5, 3], cs_dirty = False\<rparr>"

definition toy_proto :: ProtoCuckooFilter where
  "toy_proto = \<lparr>pc_data = replicate 49 7, pc_bucket_count = 9, pc_entries_per_bucket = 4,
     pc_fingerprint_bits = 16, pc_hash_seed = 1, pc_hash_algorithm = 7\<rparr>"

definition toy_start :: CompressedAccountFilterSet where
  "toy_start = \<lparr>cs_items = [], cs_filter = toy_table [0, 0, 0, 0], cs_dirty = False\<rparr>"

definition toy_one :: CompressedAccountFilterSet where
  "toy_one = \<lparr>cs_items = [[7]], cs_filter = toy_table [7, 0, 0, 0], cs_dirty = True\<rparr>"

lemma bucket_put_full: "0 \<notin> set b \<Longrightarrow> bucket_put fp b = (b, False)"
  by (induction b) auto

lemma toy_index [simp]: "index (toy_table b) h = 0" "fp_offset sip (toy_table b) fp = 0"
  by (simp_all add: index_def toy_table_def fp_offset_def)

lemma toy_try_full:
  "0 \<notin> set b \<Longrightarrow> try_insert_to_bucket (toy_table b) 0 fp = Some (toy_table b, False)"
  by (simp add: try_insert_to_bucket_def bucket_put_full set_bucket_def toy_table_def)

lemma toy_kick:
  assumes "(n mod 4 + unat fp) mod 4 = s" "length b = 4" "0 \<notin> set b" "fp \<noteq> 0"
    "b[s := fp] = b'" "b ! s = fp'"
  shows "kick_loop toy_sip (Suc r) n (toy_table b) 0 fp =
    kick_loop toy_sip r (Suc n) (toy_table b') 0 fp'"
proof -
  have s: "(n + unat fp) mod 4 = s" using assms(1) by (simp add: mod_add_left_eq)
  have "s < length b" using assms(2) s by auto
  then have "swap_slot (toy_table b) 0 s fp = Some (toy_table b', fp')"
    using assms(5,6) by (simp add: swap_slot_def toy_table_def set_bucket_def)
  moreover have "0 \<notin> set b'"
    using assms(3,4,5) set_update_subset_insert [of b s fp] by auto
  ultimately show ?thesis using s by (simp add: ENTRIES_PER_BUCKET_def toy_try_full)
qed

lemma toy_cycle:
  "kick_loop toy_sip (4 * r) (4 * k) (toy_table [4, 2, 3, 5]) 0 1 =
     Some (toy_table [4, 2, 3, 5], Inl TableFullError)"
proof (induction r arbitrary: k)
  case (Suc r)
  have "4 * Suc r = Suc (Suc (Suc (Suc (4 * r))))" by simp
  also have "kick_loop toy_sip (Suc (Suc (Suc (Suc (4 * r))))) (4 * k) (toy_table [4, 2, 3, 5]) 0 1 =
      kick_loop toy_sip (Suc (Suc (Suc (4 * r)))) (Suc (4 * k)) (toy_table [4, 1, 3, 5]) 0 2"
    by (rule toy_kick [where s = 1]) simp_all
  also have "\<dots> = kick_loop toy_sip (Suc (Suc (4 * r))) (Suc (Suc (4 * k))) (toy_table [4, 1, 3, 2]) 0 5"
    by (rule toy_kick [where s = 3]) (simp_all add: mod_Suc)
  also have "\<dots> = kick_loop toy_sip (Suc (4 * r)) (Suc (Suc (Suc (4 * k)))) (toy_table [4, 1, 3, 5]) 0 2"
    by (rule toy_kick [where s = 3]) (simp_all add: mod_Suc)
  also have "\<dots> = kick_loop toy_sip (4 * r) (Suc (Suc (Suc (Suc (4 * k))))) (toy_table [4, 2, 3, 5]) 0 1"
    by (rule toy_kick [where s = 1]) (simp_all add: mod_Suc)
  also have "Suc (Suc (Suc (Suc (4 * k)))) = 4 * Suc k" by simp
  also have "kick_loop toy_sip (4 * r) (4 * Suc k) (toy_table [4, 2, 3, 5]) 0 1 =
      Some (toy_table [4, 2, 3, 5], Inl TableFullError)"
    by (rule Suc.IH)
  finally show ?case .
qed simp

lemma toy_kicks:
  "kick_loop toy_sip MAX_KICKS 0 (toy_table [1, 2, 5, 3]) 0 4 =
     Some (toy_table [4, 2, 3, 5], Inl TableFullError)"
proof -
  have "MAX_KICKS = Suc (Suc (Suc (Suc (4 * 124))))" by (simp add: MAX_KICKS_def)
  also have "kick_loop toy_sip (Suc (Suc (Suc (Suc (4 * 124))))) 0 (toy_table [1, 2, 5, 3]) 0 4 =
      kick_loop toy_sip (Suc (Suc (Suc (4 * 124)))) 1 (toy_table [4, 2, 5, 3]) 0 1"
    unfolding One_nat_def by (rule toy_kick [where s = 0]) simp_all
  also have "\<dots> = kick_loop toy_sip (Suc (Suc (4 * 124))) (Suc 1) (toy_table [4, 2, 1, 3]) 0 5"
    by (rule toy_kick [where s = 2]) simp_all
  also have "\<dots> = kick_loop toy_sip (Suc (4 * 124)) (Suc (Suc 1)) (toy_table [4, 2, 1, 5]) 0 3"
    by (rule toy_kick [where s = 3]) simp_all
  also have "\<dots> = kick_loop toy_sip (4 * 124) (Suc (Suc (Suc 1))) (toy_table [4, 2, 3, 5]) 0 1"
    by (rule toy_kick [where s = 2]) simp_all
  also have "\<dots> = kick_loop toy_sip (4 * 124) (4 * 1) (toy_table [4, 2, 3, 5]) 0 1"
    by (rule arg_cong [where f = "\<lambda>n. kick_loop toy_sip (4 * 124) n (toy_table [4, 2, 3, 5]) 0 1"]) simp
  also have "\<dots> = Some (toy_table [4, 2, 3, 5], Inl TableFullError)"
    by (rule toy_cycle)
  finally show ?thesis .
qed

lemma toy_hash: "cf_hash toy_sip f (feed_bytes [b]) = push_bit 32 (ucast b)"
  by (simp add: cf_hash_def hash_one_def keys_from_seed_def toy_sip_def feed_bytes_def le_bytes_u64_def)

lemma toy_table_simps [simp]:
  "cf_buckets (toy_table b) = [b]" "cf_hasher (toy_table b) = hasher_default"
  by (simp_all add: toy_table_def)

lemma toy_key: "item_key toy_sip (toy_table t) [b] =
   (fingerprint_from_hash (push_bit 32 (ucast b)), {0})"
  by (simp add: item_key_def slot_key_def toy_hash Let_def)

lemma toy_overflow:
  "cs_insert toy_sip toy_full [4] =
     Some (toy_full\<lparr>cs_filter := toy_table [4, 2, 3, 5]\<rparr>, Inl TableFullError)"
proof -
  have "fingerprint_from_hash 17179869184 = 4" by (simp add: fingerprint_from_hash_def)
  then show ?thesis
    by (simp add: cs_insert_def cf_insert_def toy_full_def toy_hash toy_try_full toy_kicks Let_def)
qed

lemma toy_wf: "length b = 4 \<Longrightarrow> cuckoo_wf (toy_table b)"
  by (simp add: cuckoo_wf_def ENTRIES_PER_BUCKET_def)

lemma toy_inv: "cs_inv toy_sip toy_full"
  by (simp add: cs_inv_def toy_full_def toy_key content_def bucket_content_def slot_key_def
      cuckoo_wf_def ENTRIES_PER_BUCKET_def fingerprint_from_hash_def)

lemma toy_insert:
  "cf_insert toy_sip (toy_table [0, 0, 0, 0]) [7] = Some (toy_table [7, 0, 0, 0], Inr ())"
  by (simp add: cf_insert_def toy_hash Let_def try_insert_to_bucket_def set_bucket_def
      fingerprint_from_hash_def)

section \<open>The filter\<close>

text \<open>Lookup is membership in the multiset of stored entries: on every well-formed table
  \<open>contains\<close> returns (it never indexes out of range) and answers whether the entry of the
  item, its fingerprint with its unordered pair of candidate buckets, is stored.\<close>

lemma cuckoo_contains_is_membership:
  assumes "cuckoo_wf f"
  shows "cf_contains sip f x = Some (item_key sip f x \<in># content sip f)"
  using assms by (rule cf.mem_law)

lemma cuckoo_contains_is_membership_witness:
  "cf_contains toy_sip (toy_table [4, 2, 3, 5]) [1] =
     Some (item_key toy_sip (toy_table [4, 2, 3, 5]) [1] \<in># content toy_sip (toy_table [4, 2, 3, 5]))"
  by (rule cuckoo_contains_is_membership) (simp add: toy_wf)

text \<open>C1. No false negatives: after an insertion that reports success the item is found, and every
  item that was found before still is, whatever fingerprints were relocated on the way.\<close>

theorem cuckoo_insert_no_false_negatives:
  assumes "cuckoo_wf f" "cf_insert sip f x = Some (f', Inr ())"
  shows "cuckoo_wf f' \<and> cf_contains sip f' x = Some True \<and>
    (\<forall>y. cf_contains sip f y = Some True \<longrightarrow> cf_contains sip f' y = Some True)"
  using cf.ins_keeps_members [OF assms] cf.ins_ok [OF assms] by blast

theorem cuckoo_insert_no_false_negatives_witness:
  "cf_contains toy_sip (toy_table [7, 0, 0, 0]) [7] = Some True"
  using cuckoo_insert_no_false_negatives [OF toy_wf toy_insert] by simp

text \<open>Removal: on every well-formed table \<open>remove\<close> returns, answers whether an entry equal to
  the item's was stored, and takes exactly one copy of that entry out of the multiset.\<close>

lemma cuckoo_remove_takes_one_entry:
  assumes "cuckoo_wf f"
  shows "\<exists>f'. cf_remove sip f x = Some (f', item_key sip f x \<in># content sip f) \<and> cuckoo_wf f' \<and>
    content sip f' = content sip f - {#item_key sip f x#}"
  using cf.del_law [OF assms] by blast

lemma cuckoo_remove_takes_one_entry_witness:
  "\<exists>f'. cf_remove toy_sip (toy_table [7, 0, 0, 0]) [7] =
     Some (f', item_key toy_sip (toy_table [7, 0, 0, 0]) [7] \<in># content toy_sip (toy_table [7, 0, 0, 0])) \<and>
     cuckoo_wf f' \<and> content toy_sip f' = content toy_sip (toy_table [7, 0, 0, 0]) -
       {#item_key toy_sip (toy_table [7, 0, 0, 0]) [7]#}"
  by (rule cuckoo_remove_takes_one_entry) (simp add: toy_wf)

text \<open>A full table: when \<open>insert\<close> gives up after \<open>MAX_KICKS\<close> evictions, the table has
  taken the new entry in and one entry, of the old ones or the new one, is gone. The number of stored
  fingerprints is unchanged.\<close>

lemma cuckoo_insert_full_loses_one:
  assumes "cuckoo_wf f" "cf_insert sip f x = Some (f', Inl e)"
  shows "cuckoo_wf f' \<and> size (content sip f') = size (content sip f) \<and>
    (\<exists>lost. content sip f' = content sip f + {#item_key sip f x#} - {#lost#} \<and>
       lost \<in># content sip f + {#item_key sip f x#})"
proof -
  from cf.ins_err [OF assms] obtain lost
    where l: "cuckoo_wf f'" "content sip f + {#item_key sip f x#} = content sip f' + {#lost#}"
    by blast
  then have "size (content sip f) + 1 = size (content sip f') + 1"
    by (metis size_single size_union)
  with l show ?thesis
    by (metis add_diff_cancel_right' add_right_cancel union_iff union_single_eq_member
        add_mset_add_single)
qed

lemma toy_cf_overflow:
  "cf_insert toy_sip (toy_table [1, 2, 5, 3]) [4] = Some (toy_table [4, 2, 3, 5], Inl TableFullError)"
proof -
  have "fingerprint_from_hash 17179869184 = 4" by (simp add: fingerprint_from_hash_def)
  then show ?thesis
    by (simp add: cf_insert_def toy_hash toy_try_full toy_kicks Let_def)
qed

lemma cuckoo_insert_full_loses_one_witness:
  "size (content toy_sip (toy_table [4, 2, 3, 5])) = size (content toy_sip (toy_table [1, 2, 5, 3]))"
  using cuckoo_insert_full_loses_one [OF toy_wf toy_cf_overflow] by simp

text \<open>Untrusted wire data: for any byte string (odd length, not a multiple of a bucket, any number
  of buckets, a power of two or not) the deserialised filter is well formed, and none of lookup,
  insertion and removal on it indexes out of range.\<close>

lemma cuckoo_wire_data_never_panics:
  assumes "length (pc_data p) < 2 ^ 63"
  shows "cuckoo_wf (filter_from_proto p) \<and>
    cf_contains sip (filter_from_proto p) x \<noteq> None \<and>
    cf_insert sip (filter_from_proto p) x \<noteq> None \<and>
    cf_remove sip (filter_from_proto p) x \<noteq> None"
  using cf.never_panics filter_from_proto_wf [OF assms] by blast

lemma cuckoo_wire_data_never_panics_witness:
  "cf_contains toy_sip (filter_from_proto toy_proto) [3] \<noteq> None"
  using cuckoo_wire_data_never_panics [of toy_proto toy_sip "[3]"] by (simp add: toy_proto_def)

text \<open>Wire round trip: serialising a filter and deserialising the message gives back the same
  buckets and the same seed, so both sides compute the same answers.\<close>

lemma cuckoo_wire_roundtrip:
  assumes "cuckoo_wf f"
  shows "filter_from_proto (proto_from_filter f) = f"
  using assms by (rule wire_roundtrip)

lemma cuckoo_wire_roundtrip_witness:
  "filter_from_proto (proto_from_filter (toy_table [4, 2, 3, 5])) = toy_table [4, 2, 3, 5]"
  by (rule cuckoo_wire_roundtrip) (simp add: toy_wf)

text \<open>Sizing: a filter built for \<open>n\<close> items has a power of two of empty buckets and at least
  \<open>n\<close> slots, in spite of the rounding of the double-precision division.\<close>

lemma cuckoo_capacity:
  assumes "with_capacity alloc n = Inr f"
  shows "(\<exists>k. length (cf_buckets f) = 2 ^ k) \<and>
    n \<le> ENTRIES_PER_BUCKET * length (cf_buckets f) \<and>
    cf_buckets f = replicate (length (cf_buckets f)) empty_bucket \<and>
    hb_seed (cf_hasher f) = DEFAULT_HASH_SEED"
proof -
  obtain p where p: "checked_next_power_of_two (buckets_needed n) = Some p"
      "f = \<lparr>cf_buckets = replicate (max p 1) empty_bucket, cf_hasher = hasher_default\<rparr>"
    using assms by (auto simp: with_capacity_def with_capacity_and_hasher_def Let_def
        split: option.splits if_splits)
  have ge: "buckets_needed n \<le> p" "\<exists>k. p = 2 ^ k"
    using checked_next_power_of_two_ge [OF p(1)] by auto
  then have "max p 1 = p" by auto
  moreover have "n \<le> 4 * p"
    using buckets_needed_ge [OF buckets_needed_bound [OF p(1)]] ge(1) by simp
  ultimately show ?thesis
    using p(2) ge(2) by (simp add: ENTRIES_PER_BUCKET_def hasher_default_def hasher_new_def)
qed

lemma toy_capacity: "with_capacity (\<lambda>_. True) 0 = Inr (toy_table empty_bucket)"
  by (simp add: with_capacity_def with_capacity_and_hasher_def buckets_needed_def f64_round_def
      checked_next_power_of_two_def floorlog_def toy_table_def)

lemma cuckoo_capacity_witness:
  "\<exists>k. length (cf_buckets (toy_table empty_bucket)) = 2 ^ k"
  using cuckoo_capacity [OF toy_capacity] by blast

section \<open>The tracked set\<close>

text \<open>C27. The server never misses a tracked account: in every state a client reaches with its public
  operations, as long as no insertion reported a full table, every key the exact set holds is found
  by the filter the server rebuilds from the uploaded message; and the set is exactly the keys
  inserted and not removed, without repetition.\<close>

theorem tracked_set_never_missed:
  assumes "cs_reach sip alloc reserve s" "\<And>m. alloc m \<Longrightarrow> m < 2 ^ 60" "cs_contains s k"
  shows "cf_contains sip (filter_from_proto (cs_to_proto s)) k = Some True \<and> distinct (cs_iter s)"
proof -
  have inv: "cs_inv sip s" using assms(1,2) by (rule cs_reach_inv)
  then have wf: "cuckoo_wf (cs_filter s)" by (simp add: cs_inv_def)
  have "filter_from_proto (cs_to_proto s) = cs_filter s"
    unfolding cs_to_proto_def using wf by (rule wire_roundtrip)
  with cf.tracked_mem [OF wf, of sip "cs_items s" k] inv assms(3) show ?thesis
    by (simp add: cs_inv_def cs_contains_def cs_iter_def)
qed

text \<open>Set semantics of the tracked wrapper, in a state where the exact set and the filter agree:
  insertion and removal return, report whether the key was new or present, change the exact set by
  that key only, and keep the agreement unless the table was full.\<close>

lemma tracked_set_operations:
  assumes "cs_inv sip s"
  shows "(\<exists>s' b. cs_remove sip s k = Some (s', b) \<and> b = cs_contains s k \<and> cs_inv sip s' \<and>
            set (cs_items s') = set (cs_items s) - {k}) \<and>
    (\<exists>s' r. cs_insert sip s k = Some (s', r) \<and>
       (case r of
          Inr b \<Rightarrow> b = (\<not> cs_contains s k) \<and> cs_inv sip s' \<and>
             set (cs_items s') = insert k (set (cs_items s)) \<and>
             cs_dirty s' = (cs_dirty s \<or> b)
        | Inl _ \<Rightarrow> cs_items s' = cs_items s \<and> cs_dirty s' = cs_dirty s))"
proof (intro conjI)
  have wf: "cuckoo_wf (cs_filter s)" using assms by (simp add: cs_inv_def)
  show "\<exists>s' b. cs_remove sip s k = Some (s', b) \<and> b = cs_contains s k \<and> cs_inv sip s' \<and>
      set (cs_items s') = set (cs_items s) - {k}"
  proof (cases "k \<in> set (cs_items s)")
    case True
    obtain f' where "cf_remove sip (cs_filter s) k = Some f'"
      using cf.never_panics [OF wf] by blast
    with True cs_inv_remove [OF assms, of k] show ?thesis
      by (auto simp: cs_remove_def cs_contains_def split: prod.splits)
  next
    case False
    with assms show ?thesis
      by (intro exI [of _ s] exI [of _ False]) (simp add: cs_remove_def cs_contains_def)
  qed
  show "\<exists>s' r. cs_insert sip s k = Some (s', r) \<and>
      (case r of
         Inr b \<Rightarrow> b = (\<not> cs_contains s k) \<and> cs_inv sip s' \<and>
            set (cs_items s') = insert k (set (cs_items s)) \<and> cs_dirty s' = (cs_dirty s \<or> b)
       | Inl _ \<Rightarrow> cs_items s' = cs_items s \<and> cs_dirty s' = cs_dirty s)"
  proof (cases "k \<in> set (cs_items s)")
    case False
    obtain f' r where ins: "cf_insert sip (cs_filter s) k = Some (f', r)"
      using cf.never_panics [OF wf, of sip k] by auto
    show ?thesis
    proof (cases r)
      case (Inr u)
      with False ins cs_inv_insert [OF assms, of k] show ?thesis
        by (auto simp: cs_insert_def cs_contains_def)
    qed (use False ins in \<open>simp add: cs_insert_def\<close>)
  qed (use assms in \<open>auto simp: cs_insert_def cs_contains_def\<close>)
qed

lemma tracked_set_operations_witness:
  "\<exists>s' b. cs_remove toy_sip toy_full [5] = Some (s', b) \<and> b = cs_contains toy_full [5] \<and>
     cs_inv toy_sip s' \<and> set (cs_items s') = set (cs_items toy_full) - {[5]}"
  using tracked_set_operations [OF toy_inv] by blast

text \<open>A full table is not left unchanged, although the documentation of \<open>insert\<close> and of
  \<open>TableFullError\<close> says so: there is a state in which the exact set and the filter agree, an
  insertion reports a full table, and afterwards a key the set still holds is not found by the
  filter that will be uploaded, while the dirty flag is still clear.\<close>

lemma tracked_set_full_drops_tracked_key:
  "\<exists>sip s s' k tracked.
     cs_inv sip s \<and> cs_insert sip s k = Some (s', Inl TableFullError) \<and>
     cs_contains s' tracked \<and> cf_contains sip (cs_filter s) tracked = Some True \<and>
     cf_contains sip (cs_filter s') tracked = Some False \<and> \<not> cs_is_dirty s'"
proof (intro exI conjI)
  show "cs_inv toy_sip toy_full" by (rule toy_inv)
  show "cs_insert toy_sip toy_full [4] =
      Some (toy_full\<lparr>cs_filter := toy_table [4, 2, 3, 5]\<rparr>, Inl TableFullError)"
    by (rule toy_overflow)
  show "cs_contains (toy_full\<lparr>cs_filter := toy_table [4, 2, 3, 5]\<rparr>) [1]"
    by (simp add: toy_full_def cs_contains_def)
  show "cf_contains toy_sip (cs_filter toy_full) [1] = Some True"
    by (simp add: toy_full_def cf_contains_def toy_hash Let_def bucket_contains_def
        fingerprint_from_hash_def)
  show "cf_contains toy_sip (cs_filter (toy_full\<lparr>cs_filter := toy_table [4, 2, 3, 5]\<rparr>)) [1] = Some False"
    by (simp add: cf_contains_def toy_hash Let_def bucket_contains_def fingerprint_from_hash_def)
  show "\<not> cs_is_dirty (toy_full\<lparr>cs_filter := toy_table [4, 2, 3, 5]\<rparr>)"
    by (simp add: toy_full_def cs_is_dirty_def)
qed

section \<open>A reachable state for the witness of the main property\<close>

lemma toy_reach: "cs_reach toy_sip (\<lambda>m. m < 2 ^ 60) (\<lambda>_. True) toy_one"
proof (rule reach_insert)
  have "empty_bucket = [0, 0, 0, 0]"
    by (simp add: empty_bucket_def ENTRIES_PER_BUCKET_def numeral_eq_Suc)
  then have "cs_with_capacity (\<lambda>m. m < 2 ^ 60) (\<lambda>_. True) 0 = Inr toy_start"
    by (simp add: cs_with_capacity_def with_capacity_def with_capacity_and_hasher_def
        buckets_needed_def f64_round_def checked_next_power_of_two_def floorlog_def toy_table_def
        toy_start_def)
  then show "cs_reach toy_sip (\<lambda>m. m < 2 ^ 60) (\<lambda>_. True) toy_start" by (rule reach_new)
  show "cs_insert toy_sip toy_start [7] = Some (toy_one, Inr True)"
    by (simp add: cs_insert_def toy_start_def toy_one_def toy_insert hset_insert_def)
qed

theorem tracked_set_never_missed_witness:
  "cf_contains toy_sip (filter_from_proto (cs_to_proto toy_one)) [7] = Some True"
  using tracked_set_never_missed [OF toy_reach, of "[7]"] by (simp add: toy_one_def cs_contains_def)

end
