(* ===== verification/Proto.thy ===== *)
theory Proto
  imports Cuckoo_Filter
begin

text \<open>
  The wire types of \<^verbatim>\<open>yellowstone-grpc-proto/proto\<close> the server and the clients exchange. The Rust
  structs are generated from these files by the build, field by field: a \<open>repeated\<close> field is a
  list, an \<open>optional\<close> field and a message-typed field an \<open>option\<close>, a \<open>oneof\<close> an
  \<open>option\<close> of a datatype, a \<open>map\<close> an association list in the iteration order of the
  hash map, an enumeration a 32-bit integer, a string its UTF-8 bytes. A message with a single scalar
  field (\<open>UnixTimestamp\<close>, \<open>BlockHeight\<close>, \<open>NumPartitions\<close>, the pings) is that
  scalar, a message without fields is \<open>unit\<close>.
\<close>

section \<open>Confirmed blocks\<close>

record MessageHeader =
  mh_num_required_signatures :: u32
  mh_num_readonly_signed_accounts :: u32
  mh_num_readonly_unsigned_accounts :: u32

record CompiledInstruction =
  ci_program_id_index :: u32
  ci_accounts :: bytes
  ci_data :: bytes

record MessageAddressTableLookup =
  al_account_key :: bytes
  al_writable_indexes :: bytes
  al_readonly_indexes :: bytes

record TransactionConfig =
  tc_priority_fee :: "u64 option"
  tc_compute_unit_limit :: "u32 option"
  tc_loaded_accounts_data_size_limit :: "u32 option"
  tc_heap_size :: "u32 option"

record TxMessage =
  tm_header :: "MessageHeader option"
  tm_account_keys :: "bytes list"
  tm_recent_blockhash :: bytes
  tm_instructions :: "CompiledInstruction list"
  tm_versioned :: bool
  tm_address_table_lookups :: "MessageAddressTableLookup list"
  tm_config :: "TransactionConfig option"

record Transaction =
  tr_signatures :: "bytes list"
  tr_message :: "TxMessage option"

record TransactionError =
  te_err :: bytes

record InnerInstruction =
  ii_program_id_index :: u32
  ii_accounts :: bytes
  ii_data :: bytes
  ii_stack_height :: "u32 option"

record InnerInstructions =
  is_index :: u32
  is_instructions :: "InnerInstruction list"

text \<open>The double \<open>ui_amount\<close> is kept as its 64 bits.\<close>

record UiTokenAmount =
  ua_ui_amount :: u64
  ua_decimals :: u32
  ua_amount :: string
  ua_ui_amount_string :: string

record TokenBalance =
  tb_account_index :: u32
  tb_mint :: string
  tb_ui_token_amount :: "UiTokenAmount option"
  tb_owner :: string
  tb_program_id :: string

record ReturnData =
  rd_program_id :: bytes
  rd_data :: bytes

record Reward =
  rw_pubkey :: string
  rw_lamports :: i64
  rw_post_balance :: u64
  rw_reward_type :: i32
  rw_commission :: string
  rw_commission_bps :: string

record Rewards =
  rs_rewards :: "Reward list"
  rs_num_partitions :: "u64 option"

record TransactionStatusMeta =
  ts_err :: "TransactionError option"
  ts_fee :: u64
  ts_pre_balances :: "u64 list"
  ts_post_balances :: "u64 list"
  ts_inner_instructions :: "InnerInstructions list"
  ts_inner_instructions_none :: bool
  ts_log_messages :: "string list"
  ts_log_messages_none :: bool
  ts_pre_token_balances :: "TokenBalance list"
  ts_post_token_balances :: "TokenBalance list"
  ts_rewards :: "Reward list"
  ts_loaded_writable_addresses :: "bytes list"
  ts_loaded_readonly_addresses :: "bytes list"
  ts_return_data :: "ReturnData option"
  ts_return_data_none :: bool
  ts_compute_units_consumed :: "u64 option"
  ts_cost_units :: "u64 option"

record Timestamp =
  stamp_seconds :: i64
  stamp_nanos :: i32

section \<open>Subscribe requests\<close>

datatype MemcmpData = MBytes bytes | MBase58 string | MBase64 string

record FilterMemcmp =
  mc_offset :: u64
  mc_data :: "MemcmpData option"

datatype LamportsCmp = CmpEq u64 | CmpNe u64 | CmpLt u64 | CmpGt u64

datatype AccountsFilterOneof =
    Memcmp FilterMemcmp
  | Datasize u64
  | TokenAccountState bool
  | Lamports "LamportsCmp option"

type_synonym SubscribeRequestFilterAccountsFilter = "AccountsFilterOneof option"

record SubscribeRequestFilterAccounts =
  fa_account :: "string list"
  fa_owner :: "string list"
  fa_filters :: "SubscribeRequestFilterAccountsFilter list"
  fa_nonempty_txn_signature :: "bool option"
  fa_cuckoo_accounts_filter :: "ProtoCuckooFilter option"

record SubscribeRequestFilterSlots =
  fs_filter_by_commitment :: "bool option"
  fs_interslot_updates :: "bool option"

record SubscribeRequestFilterTransactions =
  ft_vote :: "bool option"
  ft_failed :: "bool option"
  ft_signature :: "string option"
  ft_account_include :: "string list"
  ft_account_exclude :: "string list"
  ft_account_required :: "string list"
  ft_cuckoo_account_include :: "ProtoCuckooFilter option"
  ft_token_accounts :: "i32 option"

record SubscribeRequestFilterBlocks =
  fb_account_include :: "string list"
  fb_include_transactions :: "bool option"
  fb_include_accounts :: "bool option"
  fb_include_entries :: "bool option"
  fb_cuckoo_account_include :: "ProtoCuckooFilter option"

record SubscribeRequestFilterDeshredTransactions =
  fd_vote :: "bool option"
  fd_account_include :: "string list"
  fd_account_exclude :: "string list"
  fd_account_required :: "string list"

record SubscribeRequestAccountsDataSlice =
  ds_offset :: u64
  ds_length :: u64

record SubscribeRequest =
  sr_accounts :: "(string, SubscribeRequestFilterAccounts) hmap"
  sr_slots :: "(string, SubscribeRequestFilterSlots) hmap"
  sr_transactions :: "(string, SubscribeRequestFilterTransactions) hmap"
  sr_transactions_status :: "(string, SubscribeRequestFilterTransactions) hmap"
  sr_blocks :: "(string, SubscribeRequestFilterBlocks) hmap"
  sr_blocks_meta :: "(string, unit) hmap"
  sr_entry :: "(string, unit) hmap"
  sr_commitment :: "i32 option"
  sr_accounts_data_slice :: "SubscribeRequestAccountsDataSlice list"
  sr_ping :: "i32 option"
  sr_from_slot :: "u64 option"

record SubscribeDeshredRequest =
  sd_deshred_transactions :: "(string, SubscribeRequestFilterDeshredTransactions) hmap"
  sd_ping :: "i32 option"
  sd_slots :: "(string, SubscribeRequestFilterSlots) hmap"

definition SubscribeRequest_default :: SubscribeRequest where
  "SubscribeRequest_default =
     \<lparr>sr_accounts = [], sr_slots = [], sr_transactions = [], sr_transactions_status = [],
      sr_blocks = [], sr_blocks_meta = [], sr_entry = [], sr_commitment = None,
      sr_accounts_data_slice = [], sr_ping = None, sr_from_slot = None\<rparr>"

section \<open>Updates\<close>

record SubscribeUpdateAccountInfo =
  uai_pubkey :: bytes
  uai_lamports :: u64
  uai_owner :: bytes
  uai_executable :: bool
  uai_rent_epoch :: u64
  uai_data :: bytes
  uai_write_version :: u64
  uai_txn_signature :: "bytes option"

record SubscribeUpdateAccount =
  ua_account :: "SubscribeUpdateAccountInfo option"
  ua_slot :: u64
  ua_is_startup :: bool

record SubscribeUpdateSlot =
  us_slot :: u64
  us_parent :: "u64 option"
  us_status :: i32
  us_dead_error :: "string option"

record SubscribeUpdateTransactionInfo =
  uti_signature :: bytes
  uti_is_vote :: bool
  uti_transaction :: "Transaction option"
  uti_meta :: "TransactionStatusMeta option"
  uti_index :: u64

record SubscribeUpdateTransaction =
  ut_transaction :: "SubscribeUpdateTransactionInfo option"
  ut_slot :: u64

record SubscribeUpdateTransactionStatus =
  uts_slot :: u64
  uts_signature :: bytes
  uts_is_vote :: bool
  uts_index :: u64
  uts_err :: "TransactionError option"

record SubscribeUpdateEntry =
  ue_slot :: u64
  ue_index :: u64
  ue_num_hashes :: u64
  ue_hash :: bytes
  ue_executed_transaction_count :: u64
  ue_starting_transaction_index :: u64

record SubscribeUpdateBlock =
  ub_slot :: u64
  ub_blockhash :: string
  ub_rewards :: "Rewards option"
  ub_block_time :: "i64 option"
  ub_block_height :: "u64 option"
  ub_parent_slot :: u64
  ub_parent_blockhash :: string
  ub_executed_transaction_count :: u64
  ub_transactions :: "SubscribeUpdateTransactionInfo list"
  ub_updated_account_count :: u64
  ub_accounts :: "SubscribeUpdateAccountInfo list"
  ub_entries_count :: u64
  ub_entries :: "SubscribeUpdateEntry list"

record SubscribeUpdateBlockMeta =
  um_slot :: u64
  um_blockhash :: string
  um_rewards :: "Rewards option"
  um_block_time :: "i64 option"
  um_block_height :: "u64 option"
  um_parent_slot :: u64
  um_parent_blockhash :: string
  um_executed_transaction_count :: u64
  um_entries_count :: u64

datatype UpdateOneof =
    UAccount SubscribeUpdateAccount
  | USlot SubscribeUpdateSlot
  | UTransaction SubscribeUpdateTransaction
  | UTransactionStatus SubscribeUpdateTransactionStatus
  | UBlock SubscribeUpdateBlock
  | UPing
  | UPong i32
  | UBlockMeta SubscribeUpdateBlockMeta
  | UEntry SubscribeUpdateEntry

record SubscribeUpdate =
  su_filters :: "string list"
  su_update_oneof :: "UpdateOneof option"
  su_created_at :: "Timestamp option"

end
