(* ===== verification/Cuckoo_Request.thy ===== *)
theory Cuckoo_Request
  imports Cuckoo_Set Proto
begin

text \<open>
  Placing the filter of a tracked set in a subscribe request
  (\<^verbatim>\<open>yellowstone-grpc-proto/src/cuckoo/set.rs\<close>): the filter messages that carry nothing but the cuckoo
  filter, and their insertion under a name, which marks the set as clean.
\<close>

definition to_account_filter :: "CompressedAccountFilterSet \<Rightarrow> SubscribeRequestFilterAccounts" where
  "to_account_filter s =
     \<lparr>fa_account = [], fa_owner = [], fa_filters = [], fa_nonempty_txn_signature = None,
      fa_cuckoo_accounts_filter = Some (cs_to_proto s)\<rparr>"

definition to_block_filter :: "CompressedAccountFilterSet \<Rightarrow> SubscribeRequestFilterBlocks" where
  "to_block_filter s =
     \<lparr>fb_account_include = [], fb_include_transactions = None, fb_include_accounts = None,
      fb_include_entries = None, fb_cuckoo_account_include = Some (cs_to_proto s)\<rparr>"

definition to_transaction_filter :: "CompressedAccountFilterSet \<Rightarrow> SubscribeRequestFilterTransactions" where
  "to_transaction_filter s =
     \<lparr>ft_vote = None, ft_failed = None, ft_signature = None, ft_account_include = [], ft_account_exclude = [],
      ft_account_required = [], ft_cuckoo_account_include = Some (cs_to_proto s), ft_token_accounts = None\<rparr>"

definition insert_into_subscribe_request ::
  "CompressedAccountFilterSet \<Rightarrow> SubscribeRequest \<Rightarrow> string \<Rightarrow> SubscribeRequest \<times> CompressedAccountFilterSet" where
  "insert_into_subscribe_request s req name =
     (req\<lparr>sr_accounts := hmap_insert name (to_account_filter s) (sr_accounts req)\<rparr>, s\<lparr>cs_dirty := False\<rparr>)"

definition insert_into_block_subscribe_request ::
  "CompressedAccountFilterSet \<Rightarrow> SubscribeRequest \<Rightarrow> string \<Rightarrow> SubscribeRequest \<times> CompressedAccountFilterSet" where
  "insert_into_block_subscribe_request s req name =
     (req\<lparr>sr_blocks := hmap_insert name (to_block_filter s) (sr_blocks req)\<rparr>, s\<lparr>cs_dirty := False\<rparr>)"

definition insert_into_transaction_subscribe_request ::
  "CompressedAccountFilterSet \<Rightarrow> SubscribeRequest \<Rightarrow> string \<Rightarrow> SubscribeRequest \<times> CompressedAccountFilterSet" where
  "insert_into_transaction_subscribe_request s req name =
     (req\<lparr>sr_transactions := hmap_insert name (to_transaction_filter s) (sr_transactions req)\<rparr>, s\<lparr>cs_dirty := False\<rparr>)"

lemma hmap_insert_mem: "(k, v) \<in> set (hmap_insert k v m)"
  by (induction k v m rule: hmap_insert.induct) auto

text \<open>The filter the server rebuilds from the request finds every tracked key.\<close>

lemma tracked_in_proto:
  assumes "cs_inv sip s" "cs_contains s k"
  shows "cf_contains sip (filter_from_proto (cs_to_proto s)) k = Some True"
proof -
  have wf: "cuckoo_wf (cs_filter s)" using assms(1) by (simp add: cs_inv_def)
  have "filter_from_proto (cs_to_proto s) = cs_filter s"
    unfolding cs_to_proto_def using wf by (rule wire_roundtrip)
  with cf.tracked_mem [OF wf, of sip "cs_items s" k] assms show ?thesis
    by (simp add: cs_inv_def cs_contains_def)
qed

end
