(* ===== verification/Messages.thy ===== *)
theory Messages
  imports Proto
begin

text \<open>
  The plugin's internal messages (\<^verbatim>\<open>yellowstone-grpc-geyser/src/plugin/message.rs\<close>): what the
  validator callbacks produce and what block reconstruction and the filters consume. \<open>Arc\<close>s are
  transparent. The wall clock is the parameter \<open>now\<close> of the constructors that read it. A
  \<open>OnceLock\<close> is an \<open>option\<close>: \<open>None\<close> before initialisation.
\<close>

section \<open>Commitment levels and slot statuses\<close>

datatype CommitmentLevel = Processed | Confirmed | Finalized

datatype CommitmentLevelProto = PProcessed | PConfirmed | PFinalized

definition proto_of_commitment :: "CommitmentLevel \<Rightarrow> CommitmentLevelProto" where
  "proto_of_commitment c =
     (case c of Processed \<Rightarrow> PProcessed | Confirmed \<Rightarrow> PConfirmed | Finalized \<Rightarrow> PFinalized)"

definition commitment_of_proto :: "CommitmentLevelProto \<Rightarrow> CommitmentLevel" where
  "commitment_of_proto c =
     (case c of PProcessed \<Rightarrow> Processed | PConfirmed \<Rightarrow> Confirmed | PFinalized \<Rightarrow> Finalized)"

definition commitment_as_str :: "CommitmentLevel \<Rightarrow> string" where
  "commitment_as_str c =
     (case c of Processed \<Rightarrow> ''processed'' | Confirmed \<Rightarrow> ''confirmed'' | Finalized \<Rightarrow> ''finalized'')"

text \<open>The generated conversions between the protobuf enumeration and its wire integer.\<close>

definition CommitmentLevelProto_as_i32 :: "CommitmentLevelProto \<Rightarrow> i32" where
  "CommitmentLevelProto_as_i32 c = (case c of PProcessed \<Rightarrow> 0 | PConfirmed \<Rightarrow> 1 | PFinalized \<Rightarrow> 2)"

definition CommitmentLevelProto_try_from :: "i32 \<Rightarrow> CommitmentLevelProto option" where
  "CommitmentLevelProto_try_from n =
     (if n = 0 then Some PProcessed else if n = 1 then Some PConfirmed
      else if n = 2 then Some PFinalized else None)"

datatype SlotStatus =
    SProcessed | SConfirmed | SFinalized | SFirstShredReceived | SCompleted | SCreatedBank | SDead

datatype GeyserSlotStatus =
    GProcessed | GRooted | GConfirmed | GFirstShredReceived | GCompleted | GCreatedBank | GDead string

datatype SlotStatusProto =
    SlotProcessed | SlotConfirmed | SlotFinalized | SlotFirstShredReceived | SlotCompleted
  | SlotCreatedBank | SlotDead

definition status_of_geyser :: "GeyserSlotStatus \<Rightarrow> SlotStatus" where
  "status_of_geyser s =
     (case s of
        GProcessed \<Rightarrow> SProcessed | GConfirmed \<Rightarrow> SConfirmed | GRooted \<Rightarrow> SFinalized
      | GFirstShredReceived \<Rightarrow> SFirstShredReceived | GCompleted \<Rightarrow> SCompleted
      | GCreatedBank \<Rightarrow> SCreatedBank | GDead _ \<Rightarrow> SDead)"

definition status_of_proto :: "SlotStatusProto \<Rightarrow> SlotStatus" where
  "status_of_proto s =
     (case s of
        SlotProcessed \<Rightarrow> SProcessed | SlotConfirmed \<Rightarrow> SConfirmed | SlotFinalized \<Rightarrow> SFinalized
      | SlotFirstShredReceived \<Rightarrow> SFirstShredReceived | SlotCompleted \<Rightarrow> SCompleted
      | SlotCreatedBank \<Rightarrow> SCreatedBank | SlotDead \<Rightarrow> SDead)"

definition proto_of_status :: "SlotStatus \<Rightarrow> SlotStatusProto" where
  "proto_of_status s =
     (case s of
        SProcessed \<Rightarrow> SlotProcessed | SConfirmed \<Rightarrow> SlotConfirmed | SFinalized \<Rightarrow> SlotFinalized
      | SFirstShredReceived \<Rightarrow> SlotFirstShredReceived | SCompleted \<Rightarrow> SlotCompleted
      | SCreatedBank \<Rightarrow> SlotCreatedBank | SDead \<Rightarrow> SlotDead)"

text \<open>\<open>status as i32\<close>: the discriminants of the Rust enumeration and of the protobuf one.\<close>

definition SlotStatus_as_i32 :: "SlotStatus \<Rightarrow> i32" where
  "SlotStatus_as_i32 s =
     (case s of
        SProcessed \<Rightarrow> 0 | SConfirmed \<Rightarrow> 1 | SFinalized \<Rightarrow> 2 | SFirstShredReceived \<Rightarrow> 3
      | SCompleted \<Rightarrow> 4 | SCreatedBank \<Rightarrow> 5 | SDead \<Rightarrow> 6)"

definition SlotStatusProto_as_i32 :: "SlotStatusProto \<Rightarrow> i32" where
  "SlotStatusProto_as_i32 s =
     (case s of
        SlotProcessed \<Rightarrow> 0 | SlotConfirmed \<Rightarrow> 1 | SlotFinalized \<Rightarrow> 2 | SlotFirstShredReceived \<Rightarrow> 3
      | SlotCompleted \<Rightarrow> 4 | SlotCreatedBank \<Rightarrow> 5 | SlotDead \<Rightarrow> 6)"

text \<open>\<open>impl PartialEq<SlotStatus> for CommitmentLevel\<close>\<close>

definition commitment_eq_status :: "CommitmentLevel \<Rightarrow> SlotStatus \<Rightarrow> bool" where
  "commitment_eq_status c s =
     (case c of
        Processed \<Rightarrow> s = SProcessed | Confirmed \<Rightarrow> s = SConfirmed | Finalized \<Rightarrow> s = SFinalized)"

text \<open>The derived order of the enumeration.\<close>

instantiation CommitmentLevel :: linorder
begin

definition rank_commitment :: "CommitmentLevel \<Rightarrow> nat" where
  "rank_commitment c = (case c of Processed \<Rightarrow> 0 | Confirmed \<Rightarrow> 1 | Finalized \<Rightarrow> 2)"

definition less_eq_CommitmentLevel :: "CommitmentLevel \<Rightarrow> CommitmentLevel \<Rightarrow> bool" where
  "less_eq_CommitmentLevel a b \<longleftrightarrow> rank_commitment a \<le> rank_commitment b"

definition less_CommitmentLevel :: "CommitmentLevel \<Rightarrow> CommitmentLevel \<Rightarrow> bool" where
  "less_CommitmentLevel a b \<longleftrightarrow> rank_commitment a < rank_commitment b"

instance
  by standard
    (auto simp: less_eq_CommitmentLevel_def less_CommitmentLevel_def rank_commitment_def
      split: CommitmentLevel.splits)

end

section \<open>Messages\<close>

type_synonym slot = u64

record MessageSlot =
  sl_slot :: slot
  sl_parent :: "slot option"
  sl_status :: SlotStatus
  sl_dead_error :: "string option"
  sl_created_at :: Timestamp

definition MessageSlot_from_geyser ::
  "Timestamp \<Rightarrow> slot \<Rightarrow> slot option \<Rightarrow> GeyserSlotStatus \<Rightarrow> MessageSlot" where
  "MessageSlot_from_geyser now s p st =
     \<lparr>sl_slot = s, sl_parent = p, sl_status = status_of_geyser st,
      sl_dead_error = (case st of GDead error \<Rightarrow> Some error | _ \<Rightarrow> None), sl_created_at = now\<rparr>"

record MessageAccountInfo =
  ai_pubkey :: pubkey
  ai_lamports :: u64
  ai_owner :: pubkey
  ai_executable :: bool
  ai_rent_epoch :: u64
  ai_data :: bytes
  ai_write_version :: u64
  ai_txn_signature :: "signature option"
  ai_pre_encoded :: "bytes option"

text \<open>The fields of \<open>ReplicaAccountInfoV3\<close> the plugin reads; \<open>txn\<close> stands for the
  signature of the transaction.\<close>

record ReplicaAccountInfoV3 =
  ra_pubkey :: bytes
  ra_lamports :: u64
  ra_owner :: bytes
  ra_executable :: bool
  ra_rent_epoch :: u64
  ra_data :: bytes
  ra_write_version :: u64
  ra_txn :: "signature option"

text \<open>\<open>Pubkey::try_from(..).expect(..)\<close> panics on a slice that is not 32 bytes long.\<close>

definition MessageAccountInfo_from_geyser :: "ReplicaAccountInfoV3 \<Rightarrow> MessageAccountInfo run" where
  "MessageAccountInfo_from_geyser info =
     do {
       pk \<leftarrow> try_array 32 (ra_pubkey info);
       own \<leftarrow> try_array 32 (ra_owner info);
       Some \<lparr>ai_pubkey = pk, ai_lamports = ra_lamports info, ai_owner = own,
         ai_executable = ra_executable info, ai_rent_epoch = ra_rent_epoch info,
         ai_data = ra_data info, ai_write_version = ra_write_version info,
         ai_txn_signature = ra_txn info, ai_pre_encoded = None\<rparr>
     }"

record MessageAccount =
  ac_account :: MessageAccountInfo
  ac_slot :: slot
  ac_is_startup :: bool
  ac_created_at :: Timestamp

definition MessageAccount_from_geyser ::
  "Timestamp \<Rightarrow> ReplicaAccountInfoV3 \<Rightarrow> slot \<Rightarrow> bool \<Rightarrow> MessageAccount run" where
  "MessageAccount_from_geyser now info s startup =
     do {
       a \<leftarrow> MessageAccountInfo_from_geyser info;
       Some \<lparr>ac_account = a, ac_slot = s, ac_is_startup = startup, ac_created_at = now\<rparr>
     }"

record MessageTransactionInfo =
  ti_signature :: signature
  ti_is_vote :: bool
  ti_transaction :: Transaction
  ti_meta :: TransactionStatusMeta
  ti_index :: usize
  ti_account_keys :: "pubkey hset"
  ti_pre_encoded :: "bytes option"
  ti_token_owners_all :: "pubkey hset option"
  ti_token_owners_changed :: "pubkey hset option"

text \<open>One insertion loop of \<open>fill_account_keys\<close>: \<open>Pubkey::try_from\<close> fails on a wrong
  length and the error leaves the function.\<close>

fun insert_pubkeys :: "pubkey hset \<Rightarrow> bytes list \<Rightarrow> string + pubkey hset" where
  "insert_pubkeys acc [] = Inr acc"
| "insert_pubkeys acc (pk # pks) =
     (case try_array 32 pk of
        None \<Rightarrow> Inl ''invalid pubkey length''
      | Some k \<Rightarrow> insert_pubkeys (hset_insert k acc) pks)"

definition fill_account_keys ::
  "MessageTransactionInfo \<Rightarrow> MessageTransactionInfo \<times> (string + unit)" where
  "fill_account_keys tx =
     (let static_keys = (case tr_message (ti_transaction tx) of
                           None \<Rightarrow> [] | Some m \<Rightarrow> tm_account_keys m)
      in case insert_pubkeys [] static_keys of
           Inl e \<Rightarrow> (tx, Inl e)
         | Inr acc1 \<Rightarrow>
             (case insert_pubkeys acc1 (ts_loaded_writable_addresses (ti_meta tx)) of
                Inl e \<Rightarrow> (tx, Inl e)
              | Inr acc2 \<Rightarrow>
                  (case insert_pubkeys acc2 (ts_loaded_readonly_addresses (ti_meta tx)) of
                     Inl e \<Rightarrow> (tx, Inl e)
                   | Inr acc3 \<Rightarrow> (tx\<lparr>ti_account_keys := acc3\<rparr>, Inr ()))))"

record MessageTransaction =
  mt_transaction :: MessageTransactionInfo
  mt_slot :: u64
  mt_created_at :: Timestamp

record MessageDeshredTransactionInfo =
  dti_signature :: signature
  dti_is_vote :: bool
  dti_transaction :: Transaction
  dti_static_account_keys :: "pubkey hset"
  dti_loaded_writable_addresses :: "pubkey list"
  dti_loaded_readonly_addresses :: "pubkey list"
  dti_completed_data_set_starting_shred_index :: u32
  dti_completed_data_set_ending_shred_index_exclusive :: u32

definition all_account_keys :: "MessageDeshredTransactionInfo \<Rightarrow> pubkey list" where
  "all_account_keys tx =
     dti_static_account_keys tx @ dti_loaded_writable_addresses tx @ dti_loaded_readonly_addresses tx"

record MessageDeshredTransaction =
  md_transaction :: MessageDeshredTransactionInfo
  md_slot :: u64
  md_created_at :: Timestamp

record MessageEntry =
  en_slot :: u64
  en_index :: usize
  en_num_hashes :: u64
  en_hash :: bytes
  en_executed_transaction_count :: u64
  en_starting_transaction_index :: u64
  en_created_at :: Timestamp

record ReplicaEntryInfoV2 =
  re_slot :: u64
  re_index :: usize
  re_num_hashes :: u64
  re_hash :: bytes
  re_executed_transaction_count :: u64
  re_starting_transaction_index :: usize

definition MessageEntry_from_geyser :: "Timestamp \<Rightarrow> ReplicaEntryInfoV2 \<Rightarrow> MessageEntry run" where
  "MessageEntry_from_geyser now info =
     do {
       h \<leftarrow> try_array 32 (re_hash info);
       Some \<lparr>en_slot = re_slot info, en_index = re_index info, en_num_hashes = re_num_hashes info,
         en_hash = h, en_executed_transaction_count = re_executed_transaction_count info,
         en_starting_transaction_index = re_starting_transaction_index info, en_created_at = now\<rparr>
     }"

record MessageBlockMeta =
  bm_block_meta :: SubscribeUpdateBlockMeta
  bm_created_at :: Timestamp

definition MessageBlockMeta_from_update_oneof ::
  "SubscribeUpdateBlockMeta \<Rightarrow> Timestamp \<Rightarrow> MessageBlockMeta" where
  "MessageBlockMeta_from_update_oneof m t = \<lparr>bm_block_meta = m, bm_created_at = t\<rparr>"

record MessageBlock =
  mb_meta :: MessageBlockMeta
  mb_transactions :: "MessageTransaction list"
  mb_updated_account_count :: u64
  mb_accounts :: "MessageAccount list"
  mb_entries :: "MessageEntry list"
  mb_created_at :: Timestamp

definition MessageBlock_new ::
  "Timestamp \<Rightarrow> MessageBlockMeta \<Rightarrow> MessageTransaction list \<Rightarrow> MessageAccount list \<Rightarrow> MessageEntry list
   \<Rightarrow> MessageBlock" where
  "MessageBlock_new now meta txs accs ens =
     \<lparr>mb_meta = meta, mb_transactions = txs, mb_updated_account_count = of_nat (length accs),
      mb_accounts = accs, mb_entries = ens, mb_created_at = now\<rparr>"

datatype Message =
    MSlot MessageSlot
  | MAccount MessageAccount
  | MTransaction MessageTransaction
  | MDeshredTransaction MessageDeshredTransaction
  | MEntry MessageEntry
  | MBlockMeta MessageBlockMeta
  | MBlock MessageBlock

definition get_slot :: "Message \<Rightarrow> u64" where
  "get_slot m =
     (case m of
        MSlot x \<Rightarrow> sl_slot x
      | MAccount x \<Rightarrow> ac_slot x
      | MTransaction x \<Rightarrow> mt_slot x
      | MDeshredTransaction x \<Rightarrow> md_slot x
      | MEntry x \<Rightarrow> en_slot x
      | MBlockMeta x \<Rightarrow> um_slot (bm_block_meta x)
      | MBlock x \<Rightarrow> um_slot (bm_block_meta (mb_meta x)))"

section \<open>Lemmas\<close>

lemma commitment_proto_roundtrip [simp]:
  "commitment_of_proto (proto_of_commitment c) = c" "proto_of_commitment (commitment_of_proto p) = p"
  by (cases c; simp add: commitment_of_proto_def proto_of_commitment_def)
    (cases p; simp add: commitment_of_proto_def proto_of_commitment_def)

lemma status_proto_roundtrip [simp]:
  "status_of_proto (proto_of_status s) = s" "proto_of_status (status_of_proto p) = p"
  by (cases s; simp add: status_of_proto_def proto_of_status_def)
    (cases p; simp add: status_of_proto_def proto_of_status_def)

lemma SlotStatus_discriminants: "SlotStatusProto_as_i32 (proto_of_status s) = SlotStatus_as_i32 s"
  by (cases s) (simp_all add: SlotStatusProto_as_i32_def proto_of_status_def SlotStatus_as_i32_def)

lemma commitment_le_Finalized [simp]: "c \<le> Finalized"
  by (cases c) (simp_all add: less_eq_CommitmentLevel_def rank_commitment_def)

lemma insert_pubkeys_Inr:
  "insert_pubkeys acc pks = Inr r \<Longrightarrow>
     set r = set acc \<union> set pks \<and> (\<forall>pk \<in> set pks. length pk = 32) \<and> (distinct acc \<longrightarrow> distinct r)"
proof (induction pks arbitrary: acc)
  case (Cons pk pks)
  then show ?case by (auto simp: try_array_def split: if_splits)
qed simp

lemma insert_pubkeys_Inl:
  "(\<exists>e. insert_pubkeys acc pks = Inl e) \<longleftrightarrow> (\<exists>pk \<in> set pks. length pk \<noteq> 32)"
  by (induction pks arbitrary: acc) (auto simp: try_array_def)

end
