(* ===== verification/Filter_Limits.thy ===== *)
theory Filter_Limits
  imports Messages
begin

text \<open>
  What building a filter from a subscribe request relies on: the administrator's limits
  (\<^verbatim>\<open>plugin/filter/limits.rs\<close>), the interned filter names (\<^verbatim>\<open>plugin/filter/name.rs\<close>), the errors
  of \<^verbatim>\<open>plugin/filter/filter.rs\<close> and its decoding helpers. Sizes and limits are natural numbers:
  nothing is computed from them here.

  A constructor returns early on the first error but has already interned the names it met, so it is
  a function from the name table to a result and the table it leaves.
\<close>

section \<open>Results with a state\<close>

type_synonym ('s, 'e, 'a) sres = "'s \<Rightarrow> ('e + 'a) \<times> 's"

definition st_return :: "'a \<Rightarrow> ('s, 'e, 'a) sres" where
  "st_return x s = (Inr x, s)"

definition st_lift :: "'e + 'a \<Rightarrow> ('s, 'e, 'a) sres" where
  "st_lift r s = (r, s)"

definition st_bind :: "('s, 'e, 'a) sres \<Rightarrow> ('a \<Rightarrow> ('s, 'e, 'b) sres) \<Rightarrow> ('s, 'e, 'b) sres" where
  "st_bind m f s = (case m s of (Inl e, s') \<Rightarrow> (Inl e, s') | (Inr x, s') \<Rightarrow> f x s')"

text \<open>\<open>for x in xs { ...?; out.push(..) }\<close>\<close>

fun st_map :: "('a \<Rightarrow> ('s, 'e, 'b) sres) \<Rightarrow> 'a list \<Rightarrow> ('s, 'e, 'b list) sres" where
  "st_map f [] s = (Inr [], s)"
| "st_map f (x # xs) s =
     (case f x s of
        (Inl e, s') \<Rightarrow> (Inl e, s')
      | (Inr y, s') \<Rightarrow>
          (case st_map f xs s' of (Inl e, s'') \<Rightarrow> (Inl e, s'') | (Inr ys, s'') \<Rightarrow> (Inr (y # ys), s'')))"

section \<open>Names\<close>

type_synonym FilterName = string

datatype FilterNameError = Oversized nat nat

record FilterNames =
  fn_name_size_limit :: nat
  fn_names :: "FilterName hset"
  fn_names_size_limit :: nat
  fn_cleanup_ts :: nat
  fn_cleanup_interval :: nat

definition FilterNames_new :: "nat \<Rightarrow> nat \<Rightarrow> nat \<Rightarrow> nat \<Rightarrow> FilterNames" where
  "FilterNames_new now name_limit names_limit interval =
     \<lparr>fn_name_size_limit = name_limit, fn_names = [], fn_names_size_limit = names_limit,
      fn_cleanup_ts = now, fn_cleanup_interval = interval\<rparr>"

text \<open>\<open>now\<close> is the monotonic clock; \<open>uniq n\<close> says that the table holds the only reference to
  the name \<open>n\<close>.\<close>

definition try_clean :: "nat \<Rightarrow> (FilterName \<Rightarrow> bool) \<Rightarrow> FilterNames \<Rightarrow> FilterNames" where
  "try_clean now uniq ns =
     (if fn_names_size_limit ns < length (fn_names ns) \<and> fn_cleanup_interval ns < now - fn_cleanup_ts ns
      then ns\<lparr>fn_names := filter (\<lambda>n. \<not> uniq n) (fn_names ns), fn_cleanup_ts := now\<rparr>
      else ns)"

definition names_get :: "string \<Rightarrow> (FilterNames, FilterNameError, FilterName) sres" where
  "names_get name ns =
     (if name \<in> set (fn_names ns) then (Inr name, ns)
      else if fn_name_size_limit ns < length name
      then (Inl (Oversized (fn_name_size_limit ns) (length name)), ns)
      else (Inr name, ns\<lparr>fn_names := hset_insert name (fn_names ns)\<rparr>))"

section \<open>Limits\<close>

datatype FilterLimitsCheckError = Max nat | Any | MaxPubkey nat | PubkeyReject pubkey

definition usize_MAX :: nat where "usize_MAX = 2 ^ 64 - 1"

record FilterLimitsAccounts =
  la_max :: nat
  la_any :: bool
  la_account_max :: nat
  la_account_reject :: "pubkey hset"
  la_owner_max :: nat
  la_owner_reject :: "pubkey hset"
  la_data_slice_max :: nat
  la_cuckoo_max_size :: nat

definition FilterLimitsAccounts_default :: FilterLimitsAccounts where
  "FilterLimitsAccounts_default =
     \<lparr>la_max = usize_MAX, la_any = True, la_account_max = usize_MAX, la_account_reject = [],
      la_owner_max = usize_MAX, la_owner_reject = [], la_data_slice_max = usize_MAX,
      la_cuckoo_max_size = usize_MAX\<rparr>"

record FilterLimitsTransactions =
  lt_max :: nat
  lt_any :: bool
  lt_account_include_max :: nat
  lt_account_include_reject :: "pubkey hset"
  lt_account_exclude_max :: nat
  lt_account_required_max :: nat
  lt_cuckoo_max_size :: nat

definition FilterLimitsTransactions_default :: FilterLimitsTransactions where
  "FilterLimitsTransactions_default =
     \<lparr>lt_max = usize_MAX, lt_any = True, lt_account_include_max = usize_MAX,
      lt_account_include_reject = [], lt_account_exclude_max = usize_MAX,
      lt_account_required_max = usize_MAX, lt_cuckoo_max_size = usize_MAX\<rparr>"

record FilterLimitsBlocks =
  lb_max :: nat
  lb_account_include_max :: nat
  lb_account_include_any :: bool
  lb_account_include_reject :: "pubkey hset"
  lb_include_transactions :: bool
  lb_include_accounts :: bool
  lb_include_entries :: bool
  lb_cuckoo_max_size :: nat

definition FilterLimitsBlocks_default :: FilterLimitsBlocks where
  "FilterLimitsBlocks_default =
     \<lparr>lb_max = usize_MAX, lb_account_include_max = usize_MAX, lb_account_include_any = True,
      lb_account_include_reject = [], lb_include_transactions = True, lb_include_accounts = True,
      lb_include_entries = True, lb_cuckoo_max_size = usize_MAX\<rparr>"

record FilterLimitsDeshredTransactions =
  ld_max :: nat
  ld_any :: bool
  ld_account_include_max :: nat
  ld_account_include_reject :: "pubkey hset"
  ld_account_exclude_max :: nat
  ld_account_required_max :: nat

definition FilterLimitsDeshredTransactions_default :: FilterLimitsDeshredTransactions where
  "FilterLimitsDeshredTransactions_default =
     \<lparr>ld_max = usize_MAX, ld_any = True, ld_account_include_max = usize_MAX,
      ld_account_include_reject = [], ld_account_exclude_max = usize_MAX,
      ld_account_required_max = usize_MAX\<rparr>"

text \<open>The limits of slots, block metadata and entries are their \<open>max\<close> field alone.\<close>

record FilterLimits =
  fl_accounts :: FilterLimitsAccounts
  fl_slots_max :: nat
  fl_transactions :: FilterLimitsTransactions
  fl_transactions_status :: FilterLimitsTransactions
  fl_blocks :: FilterLimitsBlocks
  fl_blocks_meta_max :: nat
  fl_entries_max :: nat
  fl_deshred_transactions :: FilterLimitsDeshredTransactions

definition FilterLimits_default :: FilterLimits where
  "FilterLimits_default =
     \<lparr>fl_accounts = FilterLimitsAccounts_default, fl_slots_max = usize_MAX,
      fl_transactions = FilterLimitsTransactions_default,
      fl_transactions_status = FilterLimitsTransactions_default,
      fl_blocks = FilterLimitsBlocks_default, fl_blocks_meta_max = usize_MAX,
      fl_entries_max = usize_MAX,
      fl_deshred_transactions = FilterLimitsDeshredTransactions_default\<rparr>"

section \<open>Errors and checks\<close>

datatype FilterError =
    Name FilterNameError
  | LimitsCheck FilterLimitsCheckError
  | InvalidCommitment i32
  | InvalidPubkey
  | InvalidSignature
  | CreateAccountStateMaxFilters nat
  | CreateAccountState string
  | CreateBlocksNotAllowed string
  | CreateDataSliceOutOfOrder
  | CreateDataSliceOverlap
  | InvalidTokenAccountsMode i32

type_synonym 'a FilterResult = "FilterError + 'a"

definition check_max :: "nat \<Rightarrow> nat \<Rightarrow> unit FilterResult" where
  "check_max len mx = (if len \<le> mx then Inr () else Inl (LimitsCheck (Max mx)))"

definition check_any :: "bool \<Rightarrow> bool \<Rightarrow> unit FilterResult" where
  "check_any is_empty any = (if \<not> is_empty \<or> any then Inr () else Inl (LimitsCheck Any))"

definition check_pubkey_max :: "nat \<Rightarrow> nat \<Rightarrow> unit FilterResult" where
  "check_pubkey_max len mx = (if len \<le> mx then Inr () else Inl (LimitsCheck (MaxPubkey mx)))"

definition check_pubkey_reject :: "pubkey \<Rightarrow> pubkey hset \<Rightarrow> unit FilterResult" where
  "check_pubkey_reject pk reject =
     (if pk \<notin> set reject then Inr () else Inl (LimitsCheck (PubkeyReject pk)))"

definition filter_name :: "string \<Rightarrow> (FilterNames, FilterError, FilterName) sres" where
  "filter_name name ns = (case names_get name ns of (Inl e, ns') \<Rightarrow> (Inl (Name e), ns') | (Inr n, ns') \<Rightarrow> (Inr n, ns'))"

section \<open>External functions\<close>

text \<open>
  The functions of other crates the filters call: the base58 readers of public keys and signatures,
  the base58 and base64 decoders, the token program's account check and SipHash-2-4.
\<close>

record externs =
  ex_pubkey :: "string \<Rightarrow> pubkey option"
  ex_signature :: "string \<Rightarrow> signature option"
  ex_base58 :: "string \<Rightarrow> bytes option"
  ex_base64 :: "string \<Rightarrow> bytes option"
  ex_token_account :: "bytes \<Rightarrow> bool"
  ex_sip :: sip24

definition decode_pubkey :: "externs \<Rightarrow> pubkey hset \<Rightarrow> string \<Rightarrow> pubkey FilterResult" where
  "decode_pubkey X limit value =
     (case ex_pubkey X value of
        None \<Rightarrow> Inl InvalidPubkey
      | Some pk \<Rightarrow> (case check_pubkey_reject pk limit of Inl e \<Rightarrow> Inl e | Inr _ \<Rightarrow> Inr pk))"

definition decode_pubkeys_into_set ::
  "externs \<Rightarrow> string list \<Rightarrow> pubkey hset \<Rightarrow> pubkey hset FilterResult" where
  "decode_pubkeys_into_set X pubkeys limit =
     (case collect_result (decode_pubkey X limit) pubkeys of
        Inl e \<Rightarrow> Inl e
      | Inr pks \<Rightarrow> Inr (hset_of [] pks))"

definition decode_commitment :: "i32 option \<Rightarrow> CommitmentLevel FilterResult" where
  "decode_commitment c =
     (let n = (case c of None \<Rightarrow> CommitmentLevelProto_as_i32 PProcessed | Some n \<Rightarrow> n)
      in case CommitmentLevelProto_try_from n of
           None \<Rightarrow> Inl (InvalidCommitment n)
         | Some p \<Rightarrow> Inr (commitment_of_proto p))"

section \<open>Lemmas\<close>

lemma st_simps [simp]:
  "st_return x s = (Inr x, s)"
  "st_lift r s = (r, s)"
  by (simp_all add: st_return_def st_lift_def)

lemma st_bind_Inr:
  "st_bind m f s = (Inr y, s') \<longleftrightarrow> (\<exists>x s1. m s = (Inr x, s1) \<and> f x s1 = (Inr y, s'))"
  by (auto simp: st_bind_def split: prod.splits sum.splits)

lemma st_bind_Inl:
  "st_bind m f s = (Inl e, s') \<longleftrightarrow>
     m s = (Inl e, s') \<or> (\<exists>x s1. m s = (Inr x, s1) \<and> f x s1 = (Inl e, s'))"
  by (auto simp: st_bind_def split: prod.splits sum.splits)

lemma check_Inr [simp]:
  "check_max n m = Inr u \<longleftrightarrow> n \<le> m"
  "check_any b a = Inr u \<longleftrightarrow> \<not> b \<or> a"
  "check_pubkey_max n m = Inr u \<longleftrightarrow> n \<le> m"
  "check_pubkey_reject pk r = Inr u \<longleftrightarrow> pk \<notin> set r"
  by (simp_all add: check_max_def check_any_def check_pubkey_max_def check_pubkey_reject_def)

text \<open>A per-element constructor that leaves a relation between input and output holds of the whole
  loop.\<close>

lemma st_map_list_all2:
  assumes "\<And>x s y s'. x \<in> set xs \<Longrightarrow> f x s = (Inr y, s') \<Longrightarrow> R x y"
    and "st_map f xs s = (Inr ys, s')"
  shows "list_all2 R xs ys"
  using assms
proof (induction xs arbitrary: s ys)
  case (Cons x xs)
  from Cons.prems(2) obtain y s1 ys' where
    "f x s = (Inr y, s1)" "st_map f xs s1 = (Inr ys', s')" "ys = y # ys'"
    by (auto split: prod.splits sum.splits)
  with Cons.IH [of s1 ys'] Cons.prems(1) show ?case by auto
qed simp

lemma decode_pubkey_Inr:
  "decode_pubkey X limit v = Inr pk \<longleftrightarrow> ex_pubkey X v = Some pk \<and> pk \<notin> set limit"
  by (auto simp: decode_pubkey_def check_pubkey_reject_def split: option.splits)

lemma collect_result_list_all2:
  "collect_result f xs = Inr ys \<longleftrightarrow> list_all2 (\<lambda>x y. f x = Inr y) xs ys"
proof (induction xs arbitrary: ys)
  case (Cons x xs)
  then show ?case
    by (cases "f x"; cases "collect_result f xs") (auto simp: list_all2_Cons1)
qed auto

lemma decode_pubkeys_Inr:
  assumes "decode_pubkeys_into_set X strs limit = Inr pks"
  shows "set pks = {pk. \<exists>v \<in> set strs. ex_pubkey X v = Some pk}" "distinct pks"
    "set pks \<inter> set limit = {}" "\<forall>v \<in> set strs. ex_pubkey X v \<noteq> None"
    "pks = [] \<longleftrightarrow> strs = []"
proof -
  obtain ys where ys: "list_all2 (\<lambda>x y. decode_pubkey X limit x = Inr y) strs ys" "pks = hset_of [] ys"
    using assms by (auto simp: decode_pubkeys_into_set_def collect_result_list_all2 split: sum.splits)
  have A: "set ys = {pk. \<exists>v \<in> set strs. ex_pubkey X v = Some pk} \<and> set ys \<inter> set limit = {} \<and>
      (\<forall>v \<in> set strs. ex_pubkey X v \<noteq> None)"
    using ys(1) by (induction rule: list_all2_induct) (auto simp: decode_pubkey_Inr)
  have L: "length ys = length strs" using ys(1) by (simp add: list_all2_lengthD)
  show "set pks = {pk. \<exists>v \<in> set strs. ex_pubkey X v = Some pk}" "distinct pks"
    "set pks \<inter> set limit = {}" "\<forall>v \<in> set strs. ex_pubkey X v \<noteq> None"
    using A ys(2) by auto
  have "pks = [] \<longleftrightarrow> ys = []" using ys(2) hset_of_set [of "[]" ys] by (metis set_empty Un_empty_left)
  then show "pks = [] \<longleftrightarrow> strs = []" using L by auto
qed

lemma names_get_Inr:
  "names_get name ns = (Inr n, ns') \<Longrightarrow>
     n = name \<and> (name \<in> set (fn_names ns) \<or> length name \<le> fn_name_size_limit ns) \<and>
     set (fn_names ns') = insert name (set (fn_names ns)) \<and>
     (distinct (fn_names ns) \<longrightarrow> distinct (fn_names ns')) \<and>
     fn_name_size_limit ns' = fn_name_size_limit ns"
  by (auto simp: names_get_def split: if_splits)

lemma filter_name_Inr: "filter_name name ns = (Inr n, ns') \<Longrightarrow> n = name"
  using names_get_Inr [of name ns n ns'] by (auto simp: filter_name_def split: prod.splits sum.splits)

end
