(* ===== verification/Account_Filter.thy ===== *)
theory Account_Filter
  imports Filter_Limits
begin

text \<open>
  The account filters of \<^verbatim>\<open>plugin/filter/filter.rs\<close>: the conditions of one filter
  (\<open>FilterAccountAggregate\<close>, \<open>FilterAccountsState\<close>), the six strategies that find the
  matching filters of an account update, and the choice between them. Positions of aggregates are
  natural numbers; offsets into account data are 64-bit, because their sums wrap.
\<close>

section \<open>Conditions on the account state\<close>

datatype FilterAccountsLamports = LEq u64 | LNe u64 | LLt u64 | LGt u64

definition lamports_from :: "LamportsCmp \<Rightarrow> FilterAccountsLamports" where
  "lamports_from c = (case c of CmpEq v \<Rightarrow> LEq v | CmpNe v \<Rightarrow> LNe v | CmpLt v \<Rightarrow> LLt v | CmpGt v \<Rightarrow> LGt v)"

definition lamports_is_match :: "FilterAccountsLamports \<Rightarrow> u64 \<Rightarrow> bool" where
  "lamports_is_match f lamports =
     (case f of
        LEq v \<Rightarrow> v = lamports | LNe v \<Rightarrow> v \<noteq> lamports | LLt v \<Rightarrow> v > lamports | LGt v \<Rightarrow> v < lamports)"

record FilterAccountsState =
  fst_memcmp :: "(usize \<times> bytes) list"
  fst_datasize :: "usize option"
  fst_token_account_state :: bool
  fst_lamports :: "FilterAccountsLamports list"

definition FilterAccountsState_default :: FilterAccountsState where
  "FilterAccountsState_default =
     \<lparr>fst_memcmp = [], fst_datasize = None, fst_token_account_state = False, fst_lamports = []\<rparr>"

definition MAX_FILTERS :: nat where "MAX_FILTERS = 4"
definition MAX_DATA_SIZE :: nat where "MAX_DATA_SIZE = 128"
definition MAX_DATA_BASE58_SIZE :: nat where "MAX_DATA_BASE58_SIZE = 175"
definition MAX_DATA_BASE64_SIZE :: nat where "MAX_DATA_BASE64_SIZE = 172"

definition memcmp_bytes :: "externs \<Rightarrow> MemcmpData option \<Rightarrow> bytes FilterResult" where
  "memcmp_bytes X d =
     (case d of
        Some (MBytes data) \<Rightarrow> Inr data
      | Some (MBase58 s) \<Rightarrow>
          if MAX_DATA_BASE58_SIZE < length s then Inl (CreateAccountState ''data too large'')
          else (case ex_base58 X s of
                  None \<Rightarrow> Inl (CreateAccountState ''invalid base58'') | Some data \<Rightarrow> Inr data)
      | Some (MBase64 s) \<Rightarrow>
          if MAX_DATA_BASE64_SIZE < length s then Inl (CreateAccountState ''data too large'')
          else (case ex_base64 X s of
                  None \<Rightarrow> Inl (CreateAccountState ''invalid base64'') | Some data \<Rightarrow> Inr data)
      | None \<Rightarrow> Inl (CreateAccountState ''data for memcmp should be defined''))"

definition state_add ::
  "externs \<Rightarrow> FilterAccountsState \<Rightarrow> SubscribeRequestFilterAccountsFilter \<Rightarrow> FilterAccountsState FilterResult" where
  "state_add X this f =
     (case f of
        Some (Memcmp m) \<Rightarrow>
          (case memcmp_bytes X (mc_data m) of
             Inl e \<Rightarrow> Inl e
           | Inr data \<Rightarrow>
               if MAX_DATA_SIZE < length data then Inl (CreateAccountState ''data too large'')
               else Inr (this\<lparr>fst_memcmp := fst_memcmp this @ [(mc_offset m, data)]\<rparr>))
      | Some (Datasize n) \<Rightarrow>
          if fst_datasize this \<noteq> None then Inl (CreateAccountState ''datasize used more than once'')
          else Inr (this\<lparr>fst_datasize := Some n\<rparr>)
      | Some (TokenAccountState v) \<Rightarrow>
          if \<not> v then Inl (CreateAccountState ''token_account_state only allowed to be true'')
          else Inr (this\<lparr>fst_token_account_state := True\<rparr>)
      | Some (Lamports None) \<Rightarrow> Inl (CreateAccountState ''cmp for lamports should be defined'')
      | Some (Lamports (Some c)) \<Rightarrow> Inr (this\<lparr>fst_lamports := fst_lamports this @ [lamports_from c]\<rparr>)
      | None \<Rightarrow> Inl (CreateAccountState ''filter should be defined''))"

fun state_adds ::
  "externs \<Rightarrow> FilterAccountsState \<Rightarrow> SubscribeRequestFilterAccountsFilter list
   \<Rightarrow> FilterAccountsState FilterResult" where
  "state_adds X this [] = Inr this"
| "state_adds X this (f # fs) =
     (case state_add X this f of Inl e \<Rightarrow> Inl e | Inr this' \<Rightarrow> state_adds X this' fs)"

definition FilterAccountsState_new ::
  "externs \<Rightarrow> SubscribeRequestFilterAccountsFilter list \<Rightarrow> FilterAccountsState FilterResult" where
  "FilterAccountsState_new X filters =
     (if MAX_FILTERS < length filters then Inl (CreateAccountStateMaxFilters MAX_FILTERS)
      else state_adds X FilterAccountsState_default filters)"

definition state_is_empty :: "FilterAccountsState \<Rightarrow> bool" where
  "state_is_empty st \<longleftrightarrow>
     fst_memcmp st = [] \<and> fst_datasize st = None \<and> \<not> fst_token_account_state st \<and> fst_lamports st = []"

fun memcmp_match :: "bytes \<Rightarrow> (usize \<times> bytes) list \<Rightarrow> bool run" where
  "memcmp_match data [] = Some True"
| "memcmp_match data ((offset, bs) # rest) =
     (let stop = offset + of_nat (length bs) in
      if of_nat (length data) < stop then Some False
      else do {
        part \<leftarrow> slice data (unat offset) (unat stop);
        if part \<noteq> bs then Some False else memcmp_match data rest
      })"

definition state_is_match :: "externs \<Rightarrow> FilterAccountsState \<Rightarrow> bytes \<Rightarrow> u64 \<Rightarrow> bool run" where
  "state_is_match X st data lamports =
     (if (case fst_datasize st of Some n \<Rightarrow> of_nat (length data) \<noteq> n | None \<Rightarrow> False) then Some False
      else if fst_token_account_state st \<and> \<not> ex_token_account X data then Some False
      else if list_ex (\<lambda>f. \<not> lamports_is_match f lamports) (fst_lamports st) then Some False
      else memcmp_match data (fst_memcmp st))"

section \<open>One filter\<close>

record FilterAccountAggregate =
  ag_filter_name :: FilterName
  ag_txn_signature :: "bool option"
  ag_accounts :: "pubkey hset option"
  ag_accounts_cuckoo :: "CuckooFilter option"
  ag_owners :: "pubkey hset option"
  ag_account_state :: "FilterAccountsState option"

definition FilterAccountAggregate_new :: "FilterName \<Rightarrow> FilterAccountAggregate" where
  "FilterAccountAggregate_new n =
     \<lparr>ag_filter_name = n, ag_txn_signature = None, ag_accounts = None, ag_accounts_cuckoo = None,
      ag_owners = None, ag_account_state = None\<rparr>"

definition match_txn_signature :: "FilterAccountAggregate \<Rightarrow> signature option \<Rightarrow> bool" where
  "match_txn_signature a sig =
     (case ag_txn_signature a of None \<Rightarrow> True | Some required \<Rightarrow> required = (sig \<noteq> None))"

definition match_account ::
  "externs \<Rightarrow> FilterAccountAggregate \<Rightarrow> pubkey \<Rightarrow> bool option \<Rightarrow> bool run" where
  "match_account X a pk matched =
     (if ag_accounts a = None \<and> ag_accounts_cuckoo a = None then Some True
      else if (case ag_accounts a of
                 None \<Rightarrow> False
               | Some accounts \<Rightarrow> (case matched of Some m \<Rightarrow> m | None \<Rightarrow> pk \<in> set accounts))
      then Some True
      else (case ag_accounts_cuckoo a of None \<Rightarrow> Some False | Some c \<Rightarrow> cf_contains (ex_sip X) c pk))"

definition match_owner :: "FilterAccountAggregate \<Rightarrow> pubkey \<Rightarrow> bool option \<Rightarrow> bool" where
  "match_owner a pk matched =
     (case ag_owners a of
        None \<Rightarrow> True
      | Some owners \<Rightarrow> (case matched of Some m \<Rightarrow> m | None \<Rightarrow> pk \<in> set owners))"

definition match_data_lamports :: "externs \<Rightarrow> FilterAccountAggregate \<Rightarrow> bytes \<Rightarrow> u64 \<Rightarrow> bool run" where
  "match_data_lamports X a data lamports =
     (case ag_account_state a of None \<Rightarrow> Some True | Some st \<Rightarrow> state_is_match X st data lamports)"

definition match_filter ::
  "externs \<Rightarrow> FilterAccountAggregate \<Rightarrow> MessageAccountInfo \<Rightarrow> bool option \<Rightarrow> bool option
   \<Rightarrow> FilterName option run" where
  "match_filter X a acc matched_account matched_owner =
     (if \<not> match_txn_signature a (ai_txn_signature acc) then Some None
      else do {
        ma \<leftarrow> match_account X a (ai_pubkey acc) matched_account;
        if \<not> ma then Some None
        else if \<not> match_owner a (ai_owner acc) matched_owner then Some None
        else do {
          md \<leftarrow> match_data_lamports X a (ai_data acc) (ai_lamports acc);
          Some (if md then Some (ag_filter_name a) else None)
        }
      })"

section \<open>Bit sets\<close>

type_synonym FilterBitSet = "u64 list"

definition BITS_PER_WORD :: nat where "BITS_PER_WORD = 64"

definition div_ceil :: "nat \<Rightarrow> nat \<Rightarrow> nat" where
  "div_ceil a b = (a + b - 1) div b"

definition bitset_new :: "nat \<Rightarrow> FilterBitSet" where
  "bitset_new bits = replicate (div_ceil bits BITS_PER_WORD) 0"

definition bitset_insert :: "FilterBitSet \<Rightarrow> nat \<Rightarrow> FilterBitSet run" where
  "bitset_insert bs i =
     (if i div BITS_PER_WORD < length bs
      then Some (bs[i div BITS_PER_WORD :=
             bs ! (i div BITS_PER_WORD) OR push_bit (i mod BITS_PER_WORD) 1])
      else None)"

definition bitset_is_empty :: "FilterBitSet \<Rightarrow> bool" where
  "bitset_is_empty bs = list_all (\<lambda>w. w = 0) bs"

definition bitset_word :: "FilterBitSet \<Rightarrow> nat \<Rightarrow> u64 run" where
  "bitset_word bs i = idx bs i"

definition trailing_zeros :: "u64 \<Rightarrow> nat" where
  "trailing_zeros w = length (takeWhile (\<lambda>n. \<not> bit w n) [0..<64])"

section \<open>The bit-set index\<close>

record FilterAccountsIndex =
  ix_aggregates :: "FilterAccountAggregate list"
  ix_accounts :: "(pubkey, FilterBitSet) hmap"
  ix_owners :: "(pubkey, FilterBitSet) hmap"
  ix_account_fallback :: FilterBitSet
  ix_owner_fallback :: FilterBitSet
  ix_account_fallback_empty :: bool
  ix_owner_fallback_empty :: bool

definition MAX_BITSET_BYTES :: nat where "MAX_BITSET_BYTES = 512 * 1024 * 1024"

definition saturating_add :: "nat \<Rightarrow> nat \<Rightarrow> nat" where
  "saturating_add a b = min (a + b) usize_MAX"

definition saturating_mul :: "nat \<Rightarrow> nat \<Rightarrow> nat" where
  "saturating_mul a b = min (a * b) usize_MAX"

definition memberships :: "FilterAccountAggregate list \<Rightarrow> nat" where
  "memberships aggs =
     foldl (\<lambda>count a.
       saturating_add
         (saturating_add count (case ag_accounts a of None \<Rightarrow> 0 | Some s \<Rightarrow> length s))
         (case ag_owners a of None \<Rightarrow> 0 | Some s \<Rightarrow> length s)) 0 aggs"

definition within_budget :: "FilterAccountAggregate list \<Rightarrow> bool" where
  "within_budget aggs \<longleftrightarrow>
     saturating_mul (saturating_mul (div_ceil (length aggs) BITS_PER_WORD) 8)
       (saturating_add (memberships aggs) 2) \<le> MAX_BITSET_BYTES"

text \<open>\<open>map.entry(k).or_insert_with(|| FilterBitSet::new(n)).insert(index)\<close> for every key\<close>

fun entry_inserts ::
  "nat \<Rightarrow> nat \<Rightarrow> pubkey list \<Rightarrow> (pubkey, FilterBitSet) hmap \<Rightarrow> (pubkey, FilterBitSet) hmap run" where
  "entry_inserts n i [] m = Some m"
| "entry_inserts n i (k # ks) m =
     do {
       b \<leftarrow> bitset_insert (case map_of m k of None \<Rightarrow> bitset_new n | Some b \<Rightarrow> b) i;
       entry_inserts n i ks (hmap_insert k b m)
     }"

definition account_any_agg :: "FilterAccountAggregate \<Rightarrow> bool" where
  "account_any_agg a \<longleftrightarrow> ag_accounts a = None \<or> ag_accounts_cuckoo a \<noteq> None"

fun index_loop ::
  "nat \<Rightarrow> nat \<Rightarrow> FilterAccountAggregate list \<Rightarrow> FilterAccountsIndex \<Rightarrow> FilterAccountsIndex run" where
  "index_loop n i [] this = Some this"
| "index_loop n i (a # as) this =
     do {
       accounts \<leftarrow> entry_inserts n i (case ag_accounts a of None \<Rightarrow> [] | Some s \<Rightarrow> s) (ix_accounts this);
       afb \<leftarrow> (if account_any_agg a then bitset_insert (ix_account_fallback this) i
               else Some (ix_account_fallback this));
       owners \<leftarrow> entry_inserts n i (case ag_owners a of None \<Rightarrow> [] | Some s \<Rightarrow> s) (ix_owners this);
       ofb \<leftarrow> (if ag_owners a = None then bitset_insert (ix_owner_fallback this) i
               else Some (ix_owner_fallback this));
       index_loop n (Suc i) as
         (this\<lparr>ix_accounts := accounts, ix_owners := owners, ix_account_fallback := afb,
               ix_owner_fallback := ofb\<rparr>)
     }"

definition try_init :: "FilterAccountAggregate list \<Rightarrow> FilterAccountsIndex option run" where
  "try_init aggs =
     (if length aggs \<le> 1 then Some None
      else if \<not> within_budget aggs then Some None
      else do {
        this \<leftarrow> index_loop (length aggs) 0 aggs
          \<lparr>ix_aggregates = aggs, ix_accounts = [], ix_owners = [],
           ix_account_fallback = bitset_new (length aggs), ix_owner_fallback = bitset_new (length aggs),
           ix_account_fallback_empty = True, ix_owner_fallback_empty = True\<rparr>;
        Some (if ix_accounts this = [] \<and> ix_owners this = [] then None
              else Some (this\<lparr>ix_account_fallback_empty := bitset_is_empty (ix_account_fallback this),
                              ix_owner_fallback_empty := bitset_is_empty (ix_owner_fallback this)\<rparr>))
      })"

text \<open>The inner \<open>while candidates != 0\<close> loop over the set bits of one word.\<close>

lemma and_minus_one_less: "w \<noteq> 0 \<Longrightarrow> unat (w AND (w - 1)) < unat (w :: 'a::len word)"
proof -
  assume "w \<noteq> 0"
  then have "unat (w - 1) < unat w" by (simp add: unat_minus_one unat_gt_0)
  moreover have "unat (w AND (w - 1)) \<le> unat (w - 1)"
    by (metis and.commute word_and_le1 word_le_nat_alt)
  ultimately show ?thesis by simp
qed

function candidate_loop ::
  "externs \<Rightarrow> FilterAccountAggregate list \<Rightarrow> MessageAccountInfo \<Rightarrow> nat \<Rightarrow> u64 \<Rightarrow> u64 \<Rightarrow> u64
   \<Rightarrow> FilterName list run" where
  "candidate_loop X aggs acc word_index accounts_word owners_word candidates =
     (if candidates = 0 then Some []
      else do {
        let bit_index = trailing_zeros candidates;
        let b = push_bit bit_index 1;
        a \<leftarrow> idx aggs (word_index * BITS_PER_WORD + bit_index);
        r \<leftarrow> match_filter X a acc (Some (accounts_word AND b \<noteq> 0)) (Some (owners_word AND b \<noteq> 0));
        rest \<leftarrow> candidate_loop X aggs acc word_index accounts_word owners_word
                  (candidates AND (candidates - 1));
        Some (case r of None \<Rightarrow> rest | Some n \<Rightarrow> n # rest)
      })"
  by pat_completeness auto
termination
  by (relation "measure (\<lambda>(X, aggs, acc, i, aw, ow, c). unat c)") (auto intro: and_minus_one_less)

declare candidate_loop.simps [simp del]

fun word_loop ::
  "externs \<Rightarrow> FilterAccountsIndex \<Rightarrow> MessageAccountInfo \<Rightarrow> FilterBitSet option \<Rightarrow> FilterBitSet option
   \<Rightarrow> nat list \<Rightarrow> FilterName list run" where
  "word_loop X ix acc ma mo [] = Some []"
| "word_loop X ix acc ma mo (i # is) =
     do {
       aw \<leftarrow> (case ma of None \<Rightarrow> Some 0 | Some bs \<Rightarrow> bitset_word bs i);
       ow \<leftarrow> (case mo of None \<Rightarrow> Some 0 | Some bs \<Rightarrow> bitset_word bs i);
       af \<leftarrow> bitset_word (ix_account_fallback ix) i;
       ofb \<leftarrow> bitset_word (ix_owner_fallback ix) i;
       fs \<leftarrow> candidate_loop X (ix_aggregates ix) acc i aw ow ((aw OR af) AND (ow OR ofb));
       rest \<leftarrow> word_loop X ix acc ma mo is;
       Some (fs @ rest)
     }"

definition index_get_filters ::
  "externs \<Rightarrow> FilterAccountsIndex \<Rightarrow> MessageAccountInfo \<Rightarrow> FilterName list run" where
  "index_get_filters X ix acc =
     (let ma = map_of (ix_accounts ix) (ai_pubkey acc) in
      if ma = None \<and> ix_account_fallback_empty ix then Some []
      else let mo = map_of (ix_owners ix) (ai_owner acc) in
      if mo = None \<and> ix_owner_fallback_empty ix then Some []
      else word_loop X ix acc ma mo [0..<length (ix_account_fallback ix)])"

section \<open>The merge strategies\<close>

definition next_union ::
  "nat list \<Rightarrow> nat list \<Rightarrow> nat \<Rightarrow> nat \<Rightarrow> (nat \<times> bool) option \<times> nat \<times> nat" where
  "next_union hits unc hc uc =
     (case (if hc < length hits then Some (hits ! hc) else None,
            if uc < length unc then Some (unc ! uc) else None) of
        (Some hit, Some u) \<Rightarrow>
          if hit < u then (Some (hit, True), hc + 1, uc)
          else if u < hit then (Some (u, False), hc, uc + 1)
          else (Some (hit, True), hc + 1, uc + 1)
      | (Some hit, None) \<Rightarrow> (Some (hit, True), hc + 1, uc)
      | (None, Some u) \<Rightarrow> (Some (u, False), hc, uc + 1)
      | (None, None) \<Rightarrow> (None, hc, uc))"

definition linear_get_filters ::
  "externs \<Rightarrow> FilterAccountAggregate list \<Rightarrow> MessageAccountInfo \<Rightarrow> FilterName list run" where
  "linear_get_filters X aggs acc = filter_map_run (\<lambda>a. match_filter X a acc None None) aggs"

text \<open>\<open>if map.is_empty() { &[] } else { map.get(key).map_or(&[], ..) }\<close>\<close>

definition hits_of :: "(pubkey, nat list) hmap \<Rightarrow> pubkey \<Rightarrow> nat list" where
  "hits_of m k = (if m = [] then [] else case map_of m k of None \<Rightarrow> [] | Some v \<Rightarrow> v)"

record AllUnconstrainedFilter =
  au_aggregates :: "FilterAccountAggregate list"
  au_accounts :: "(pubkey, nat list) hmap"
  au_owners :: "(pubkey, nat list) hmap"

definition cursor_hit :: "nat list \<Rightarrow> nat \<Rightarrow> nat \<Rightarrow> bool" where
  "cursor_hit hits c i \<longleftrightarrow> c < length hits \<and> hits ! c = i"

fun all_loop ::
  "externs \<Rightarrow> MessageAccountInfo \<Rightarrow> nat list \<Rightarrow> nat list \<Rightarrow> nat \<Rightarrow> nat \<Rightarrow> nat \<Rightarrow> FilterAccountAggregate list
   \<Rightarrow> FilterName list run" where
  "all_loop X acc ah oh ac oc i [] = Some []"
| "all_loop X acc ah oh ac oc i (a # as) =
     (let ma = cursor_hit ah ac i; ac' = (if ma then ac + 1 else ac);
          mo = cursor_hit oh oc i; oc' = (if mo then oc + 1 else oc)
      in do {
        r \<leftarrow> match_filter X a acc (Some ma) (Some mo);
        rest \<leftarrow> all_loop X acc ah oh ac' oc' (Suc i) as;
        Some (case r of None \<Rightarrow> rest | Some n \<Rightarrow> n # rest)
      })"

definition all_get_filters ::
  "externs \<Rightarrow> AllUnconstrainedFilter \<Rightarrow> MessageAccountInfo \<Rightarrow> FilterName list run" where
  "all_get_filters X s acc =
     all_loop X acc (hits_of (au_accounts s) (ai_pubkey acc)) (hits_of (au_owners s) (ai_owner acc))
       0 0 0 (au_aggregates s)"

record SingleAxisMergeFilter =
  sm_aggregates :: "FilterAccountAggregate list"
  sm_unbounded_is_owner :: bool
  sm_bounded_hits :: "(pubkey, nat list) hmap"
  sm_bounded_any :: "nat list"

lemma next_union_cursors:
  assumes "next_union hits unc hc uc = (Some p, hc', uc')"
  shows "(length hits - hc') + (length unc - uc') < (length hits - hc) + (length unc - uc)"
  using assms by (auto simp: next_union_def split: if_splits)

function single_loop ::
  "externs \<Rightarrow> SingleAxisMergeFilter \<Rightarrow> MessageAccountInfo \<Rightarrow> nat list \<Rightarrow> nat \<Rightarrow> nat \<Rightarrow> FilterName list run" where
  "single_loop X s acc hits hc ac =
     (case next_union hits (sm_bounded_any s) hc ac of
        (None, _, _) \<Rightarrow> Some []
      | (Some (i, matched), hc', ac') \<Rightarrow>
          (let (ma, mo) = (if sm_unbounded_is_owner s then (matched, False) else (False, matched)) in
           do {
             a \<leftarrow> idx (sm_aggregates s) i;
             r \<leftarrow> match_filter X a acc (Some ma) (Some mo);
             rest \<leftarrow> single_loop X s acc hits hc' ac';
             Some (case r of None \<Rightarrow> rest | Some n \<Rightarrow> n # rest)
           }))"
  by pat_completeness auto
termination
  by (relation "measure (\<lambda>(X, s, acc, hits, hc, ac). (length hits - hc) + (length (sm_bounded_any s) - ac))")
    (auto dest: next_union_cursors [OF sym])

declare single_loop.simps [simp del]

definition single_get_filters ::
  "externs \<Rightarrow> SingleAxisMergeFilter \<Rightarrow> MessageAccountInfo \<Rightarrow> FilterName list run" where
  "single_get_filters X s acc =
     (let hits = hits_of (sm_bounded_hits s)
                   (if sm_unbounded_is_owner s then ai_pubkey acc else ai_owner acc)
      in if hits = [] \<and> sm_bounded_any s = [] then Some [] else single_loop X s acc hits 0 0)"

record DualAxisMergeFilter =
  dm_aggregates :: "FilterAccountAggregate list"
  dm_accounts :: "(pubkey, nat list) hmap"
  dm_owners :: "(pubkey, nat list) hmap"
  dm_account_any :: "nat list"
  dm_owner_any :: "nat list"

text \<open>One axis of the lockstep walk: the two lists, their cursors and the current position.\<close>

type_synonym axis = "nat list \<times> nat list \<times> nat \<times> nat \<times> (nat \<times> bool) option"

definition axis_next :: "axis \<Rightarrow> axis" where
  "axis_next ax =
     (case ax of (hits, unc, hc, uc, _) \<Rightarrow>
        (case next_union hits unc hc uc of (p, hc', uc') \<Rightarrow> (hits, unc, hc', uc', p)))"

definition axis_pos :: "axis \<Rightarrow> (nat \<times> bool) option" where
  "axis_pos ax = (case ax of (_, _, _, _, p) \<Rightarrow> p)"

definition axis_left :: "axis \<Rightarrow> nat" where
  "axis_left ax = (case ax of (hits, unc, hc, uc, p) \<Rightarrow>
     (length hits - hc) + (length unc - uc) + (if p = None then 0 else 1))"

lemma axis_left_next: "Some p = axis_pos ax \<Longrightarrow> axis_left (axis_next ax) < axis_left ax"
  by (auto simp: axis_pos_def axis_left_def axis_next_def next_union_def
      split: prod.splits option.splits if_splits)

function dual_loop ::
  "externs \<Rightarrow> FilterAccountAggregate list \<Rightarrow> MessageAccountInfo \<Rightarrow> axis \<Rightarrow> axis \<Rightarrow> FilterName list run" where
  "dual_loop X aggs acc aax oax =
     (case (axis_pos aax, axis_pos oax) of
        (Some (ai, ma), Some (oi, mo)) \<Rightarrow>
          if ai < oi then dual_loop X aggs acc (axis_next aax) oax
          else if oi < ai then dual_loop X aggs acc aax (axis_next oax)
          else do {
            a \<leftarrow> idx aggs ai;
            r \<leftarrow> match_filter X a acc (Some ma) (Some mo);
            rest \<leftarrow> dual_loop X aggs acc (axis_next aax) (axis_next oax);
            Some (case r of None \<Rightarrow> rest | Some n \<Rightarrow> n # rest)
          }
      | _ \<Rightarrow> Some [])"
  by pat_completeness auto
termination
  by (relation "measure (\<lambda>(X, aggs, acc, aax, oax). axis_left aax + axis_left oax)")
    (auto intro: axis_left_next add_less_mono)

declare dual_loop.simps [simp del]

definition dual_get_filters ::
  "externs \<Rightarrow> DualAxisMergeFilter \<Rightarrow> MessageAccountInfo \<Rightarrow> FilterName list run" where
  "dual_get_filters X s acc =
     (let ah = hits_of (dm_accounts s) (ai_pubkey acc); oh = hits_of (dm_owners s) (ai_owner acc) in
      if (ah = [] \<and> dm_account_any s = []) \<or> (oh = [] \<and> dm_owner_any s = []) then Some []
      else dual_loop X (dm_aggregates s) acc
             (axis_next (ah, dm_account_any s, 0, 0, None)) (axis_next (oh, dm_owner_any s, 0, 0, None)))"

section \<open>The choice of a strategy\<close>

datatype FilterAccountsStrategy =
    Empty
  | LinearScan "FilterAccountAggregate list"
  | Indexed FilterAccountsIndex
  | AllUnconstrained AllUnconstrainedFilter
  | SingleAxisMerge SingleAxisMergeFilter
  | DualAxisMerge DualAxisMergeFilter

definition DIRECT_SCAN_LIMIT :: nat where "DIRECT_SCAN_LIMIT = 4"

text \<open>\<open>map.entry(k).or_default().push(index)\<close> for every key\<close>

fun entry_pushes :: "nat \<Rightarrow> pubkey list \<Rightarrow> (pubkey, nat list) hmap \<Rightarrow> (pubkey, nat list) hmap" where
  "entry_pushes i [] m = m"
| "entry_pushes i (k # ks) m =
     entry_pushes i ks (hmap_insert k ((case map_of m k of None \<Rightarrow> [] | Some v \<Rightarrow> v) @ [i]) m)"

fun build_maps ::
  "nat \<Rightarrow> FilterAccountAggregate list
   \<Rightarrow> (pubkey, nat list) hmap \<times> nat list \<times> (pubkey, nat list) hmap \<times> nat list
   \<Rightarrow> (pubkey, nat list) hmap \<times> nat list \<times> (pubkey, nat list) hmap \<times> nat list" where
  "build_maps i [] maps = maps"
| "build_maps i (a # as) (accounts, account_any, owners, owner_any) =
     build_maps (Suc i) as
       (entry_pushes i (case ag_accounts a of None \<Rightarrow> [] | Some s \<Rightarrow> s) accounts,
        (if account_any_agg a then account_any @ [i] else account_any),
        entry_pushes i (case ag_owners a of None \<Rightarrow> [] | Some s \<Rightarrow> s) owners,
        (if ag_owners a = None then owner_any @ [i] else owner_any))"

definition build_unindexed :: "FilterAccountAggregate list \<Rightarrow> FilterAccountsStrategy" where
  "build_unindexed aggs =
     (if length aggs \<le> DIRECT_SCAN_LIMIT then LinearScan aggs
      else case build_maps 0 aggs ([], [], [], []) of
        (accounts, account_any, owners, owner_any) \<Rightarrow>
          if length account_any = length aggs \<and> length owner_any = length aggs
          then AllUnconstrained \<lparr>au_aggregates = aggs, au_accounts = accounts, au_owners = owners\<rparr>
          else let account_unbounded = (length account_any = length aggs);
                   owner_unbounded = (length owner_any = length aggs)
          in if account_unbounded \<noteq> owner_unbounded
             then SingleAxisMerge
               (if owner_unbounded
                then \<lparr>sm_aggregates = aggs, sm_unbounded_is_owner = True,
                      sm_bounded_hits = accounts, sm_bounded_any = account_any\<rparr>
                else \<lparr>sm_aggregates = aggs, sm_unbounded_is_owner = False,
                      sm_bounded_hits = owners, sm_bounded_any = owner_any\<rparr>)
             else DualAxisMerge
               \<lparr>dm_aggregates = aggs, dm_accounts = accounts, dm_owners = owners,
                dm_account_any = account_any, dm_owner_any = owner_any\<rparr>)"

definition strategy_build :: "FilterAccountAggregate list \<Rightarrow> FilterAccountsStrategy run" where
  "strategy_build aggs =
     (if aggs = [] then Some Empty
      else do {
        ix \<leftarrow> try_init aggs;
        Some (case ix of Some i \<Rightarrow> Indexed i | None \<Rightarrow> build_unindexed aggs)
      })"

definition strategy_get_filters ::
  "externs \<Rightarrow> FilterAccountsStrategy \<Rightarrow> MessageAccountInfo \<Rightarrow> FilterName list run" where
  "strategy_get_filters X s acc =
     (case s of
        Empty \<Rightarrow> Some []
      | LinearScan aggs \<Rightarrow> linear_get_filters X aggs acc
      | Indexed ix \<Rightarrow> index_get_filters X ix acc
      | AllUnconstrained f \<Rightarrow> all_get_filters X f acc
      | SingleAxisMerge f \<Rightarrow> single_get_filters X f acc
      | DualAxisMerge f \<Rightarrow> dual_get_filters X f acc)"

definition strategy_aggregates :: "FilterAccountsStrategy \<Rightarrow> FilterAccountAggregate list" where
  "strategy_aggregates s =
     (case s of
        Empty \<Rightarrow> []
      | LinearScan aggs \<Rightarrow> aggs
      | Indexed ix \<Rightarrow> ix_aggregates ix
      | AllUnconstrained f \<Rightarrow> au_aggregates f
      | SingleAxisMerge f \<Rightarrow> sm_aggregates f
      | DualAxisMerge f \<Rightarrow> dm_aggregates f)"

section \<open>Parsing the configured filters\<close>

type_synonym FilterAccounts = FilterAccountsStrategy

definition opt_nonempty :: "'a list \<Rightarrow> 'a list option" where
  "opt_nonempty xs = (if xs = [] then None else Some xs)"

definition aggregate_from ::
  "externs \<Rightarrow> FilterLimitsAccounts \<Rightarrow> string \<times> SubscribeRequestFilterAccounts
   \<Rightarrow> (FilterNames, FilterError, FilterAccountAggregate) sres" where
  "aggregate_from X limits nf =
     (case nf of (name, f) \<Rightarrow>
        st_bind (st_lift (check_any (fa_account f = [] \<and> fa_owner f = [] \<and> fa_cuckoo_accounts_filter f = None)
                            (la_any limits))) (\<lambda>_.
        st_bind (st_lift (check_pubkey_max (length (fa_account f)) (la_account_max limits))) (\<lambda>_.
        st_bind (st_lift (check_pubkey_max (length (fa_owner f)) (la_owner_max limits))) (\<lambda>_.
        st_bind (filter_name name) (\<lambda>n.
        st_bind (st_lift (decode_pubkeys_into_set X (fa_account f) (la_account_reject limits))) (\<lambda>accounts.
        st_bind (st_lift (decode_pubkeys_into_set X (fa_owner f) (la_owner_reject limits))) (\<lambda>owners.
        st_bind (st_lift (FilterAccountsState_new X (fa_filters f))) (\<lambda>st.
        st_bind (st_lift (case fa_cuckoo_accounts_filter f of
                            None \<Rightarrow> Inr None
                          | Some p \<Rightarrow>
                              (case check_max (length (pc_data p)) (la_cuckoo_max_size limits) of
                                 Inl e \<Rightarrow> Inl e | Inr _ \<Rightarrow> Inr (Some (filter_from_proto p))))) (\<lambda>cuckoo.
        st_return ((FilterAccountAggregate_new n)
          \<lparr>ag_txn_signature := fa_nonempty_txn_signature f,
           ag_accounts := opt_nonempty accounts, ag_accounts_cuckoo := cuckoo,
           ag_owners := opt_nonempty owners,
           ag_account_state := (if state_is_empty st then None else Some st)\<rparr>))))))))))"

definition FilterAccounts_new ::
  "externs \<Rightarrow> (string, SubscribeRequestFilterAccounts) hmap \<Rightarrow> FilterLimitsAccounts \<Rightarrow> FilterNames
   \<Rightarrow> (FilterAccounts FilterResult \<times> FilterNames) run" where
  "FilterAccounts_new X configs limits names =
     (case check_max (length configs) (la_max limits) of
        Inl e \<Rightarrow> Some (Inl e, names)
      | Inr _ \<Rightarrow>
          (case st_map (aggregate_from X limits) configs names of
             (Inl e, names') \<Rightarrow> Some (Inl e, names')
           | (Inr aggs, names') \<Rightarrow>
               do { s \<leftarrow> strategy_build aggs; Some (Inr s, names') }))"

end
