(* ===== verification/Account_Match.thy ===== *)
theory Account_Match
  imports Account_Filter
begin

text \<open>
  Every matching strategy of the account filters computes the linear scan. The candidates a strategy
  visits are positions of the aggregate list in increasing order, the flags it passes on agree with
  the aggregates' own sets, and what it skips cannot match.
\<close>

section \<open>Flags and candidates\<close>

definition agg_wf :: "FilterAccountAggregate \<Rightarrow> bool" where
  "agg_wf a \<longleftrightarrow>
     (\<forall>c. ag_accounts_cuckoo a = Some c \<longrightarrow> cuckoo_wf c) \<and>
     (\<forall>s. ag_accounts a = Some s \<longrightarrow> distinct s) \<and> (\<forall>s. ag_owners a = Some s \<longrightarrow> distinct s)"

definition acc_keys :: "FilterAccountAggregate \<Rightarrow> pubkey list" where
  "acc_keys a = (case ag_accounts a of None \<Rightarrow> [] | Some s \<Rightarrow> s)"

definition own_keys :: "FilterAccountAggregate \<Rightarrow> pubkey list" where
  "own_keys a = (case ag_owners a of None \<Rightarrow> [] | Some s \<Rightarrow> s)"

definition account_cand :: "FilterAccountAggregate \<Rightarrow> MessageAccountInfo \<Rightarrow> bool" where
  "account_cand a acc \<longleftrightarrow> account_any_agg a \<or> ai_pubkey acc \<in> set (acc_keys a)"

definition owner_cand :: "FilterAccountAggregate \<Rightarrow> MessageAccountInfo \<Rightarrow> bool" where
  "owner_cand a acc \<longleftrightarrow> ag_owners a = None \<or> ai_owner acc \<in> set (own_keys a)"

definition flags_ok :: "FilterAccountAggregate \<Rightarrow> MessageAccountInfo \<Rightarrow> bool \<Rightarrow> bool \<Rightarrow> bool" where
  "flags_ok a acc ma mo \<longleftrightarrow>
     (ag_accounts a \<noteq> None \<longrightarrow> ma = (ai_pubkey acc \<in> set (acc_keys a))) \<and>
     (ag_owners a \<noteq> None \<longrightarrow> mo = (ai_owner acc \<in> set (own_keys a)))"

lemma agg_wf_keys: "agg_wf a \<Longrightarrow> distinct (acc_keys a)" "agg_wf a \<Longrightarrow> distinct (own_keys a)"
  by (auto simp: agg_wf_def acc_keys_def own_keys_def split: option.splits)

lemma match_filter_flags:
  assumes "flags_ok a acc ma mo"
  shows "match_filter X a acc (Some ma) (Some mo) = match_filter X a acc None None"
proof -
  have "match_account X a (ai_pubkey acc) (Some ma) = match_account X a (ai_pubkey acc) None"
    "match_owner a (ai_owner acc) (Some mo) = match_owner a (ai_owner acc) None"
    using assms
    by (auto simp: flags_ok_def match_account_def match_owner_def acc_keys_def own_keys_def
        split: option.splits)
  then show ?thesis by (simp add: match_filter_def)
qed

lemma match_account_total:
  assumes "agg_wf a"
  shows "\<exists>b. match_account X a pk m = Some b"
  using assms cf_contains_spec
  by (auto simp: match_account_def agg_wf_def split: option.splits)

lemma match_filter_skip:
  assumes "agg_wf a" "\<not> (account_cand a acc \<and> owner_cand a acc)"
  shows "match_filter X a acc None None = Some None"
proof (cases "account_cand a acc")
  case False
  then have "match_account X a (ai_pubkey acc) None = Some False"
    by (auto simp: account_cand_def account_any_agg_def match_account_def acc_keys_def
        split: option.splits)
  then show ?thesis by (simp add: match_filter_def)
next
  case True
  obtain b where "match_account X a (ai_pubkey acc) None = Some b"
    using match_account_total [OF assms(1)] by blast
  moreover have "\<not> match_owner a (ai_owner acc) None"
    using assms(2) True by (auto simp: owner_cand_def match_owner_def own_keys_def split: option.splits)
  ultimately show ?thesis by (simp add: match_filter_def)
qed

text \<open>Visiting, in increasing order, positions that include every candidate is the scan.\<close>

lemma scan_positions:
  assumes "list_all agg_wf aggs"
    and skip: "\<And>i. i < length aggs \<Longrightarrow> \<not> P i \<Longrightarrow> \<not> (account_cand (aggs ! i) acc \<and> owner_cand (aggs ! i) acc)"
    and visit: "\<And>i. i < length aggs \<Longrightarrow> P i \<Longrightarrow> f i = match_filter X (aggs ! i) acc None None"
  shows "filter_map_run f (filter P [0..<length aggs]) = linear_get_filters X aggs acc"
proof -
  have "filter_map_run f (filter P [0..<length aggs]) =
      filter_map_run (\<lambda>i. match_filter X (aggs ! i) acc None None) (filter P [0..<length aggs])"
    using visit by (intro filter_map_run_cong) simp
  also have "\<dots> = filter_map_run (\<lambda>i. match_filter X (aggs ! i) acc None None) [0..<length aggs]"
    using skip assms(1) by (intro filter_map_run_filter match_filter_skip) (auto simp: list_all_length)
  also have "\<dots> = linear_get_filters X aggs acc"
    unfolding linear_get_filters_def by (subst filter_map_run_map [symmetric]) (simp add: map_nth)
  finally show ?thesis .
qed

section \<open>Bit sets\<close>

lemma trailing_zeros_bit:
  assumes "w \<noteq> 0"
  shows "bit w (trailing_zeros w)" "trailing_zeros w < 64" "k < trailing_zeros w \<Longrightarrow> \<not> bit w k"
proof -
  let ?P = "\<lambda>n. \<not> bit w n"
  obtain k where k: "k < 64" "bit w k" using assms bit_word_eqI [of w 0] by auto
  have "takeWhile ?P [0..<64] \<noteq> [0..<64]"
    using k by (metis atLeast0LessThan atLeast_upt lessThan_iff takeWhile_eq_all_conv)
  moreover have "length (takeWhile ?P [0..<64]) \<le> 64" using length_takeWhile_le [of ?P "[0..<64]"] by simp
  ultimately have "length (takeWhile ?P [0..<64]) < 64"
    by (metis le_neq_implies_less length_upt diff_zero takeWhile_eq_take take_all order_refl)
  then show tz: "trailing_zeros w < 64" by (simp add: trailing_zeros_def)
  then show "bit w (trailing_zeros w)"
    using nth_length_takeWhile [of ?P "[0..<64]"] by (simp add: trailing_zeros_def)
  show "\<not> bit w k" if "k < trailing_zeros w" for k
    using that tz nth_mem [of k "takeWhile ?P [0..<64]"] takeWhile_nth [of k ?P "[0..<64]"]
    by (auto simp: trailing_zeros_def dest: set_takeWhileD)
qed

lemma bit_clear_lowest:
  fixes w :: u64
  assumes "w \<noteq> 0"
  shows "bit (w AND (w - 1)) n \<longleftrightarrow> bit w n \<and> n \<noteq> trailing_zeros w"
proof -
  let ?t = "trailing_zeros w"
  let ?v = "unset_bit ?t w"
  note t = trailing_zeros_bit [OF assms]
  have "w = ?v OR push_bit ?t 1"
    using t(1,2) by (intro bit_word_eqI) (auto simp: bit_simps)
  also have "\<dots> = ?v + push_bit ?t 1"
    by (rule disjunctive_add_eq_or [symmetric]) (auto intro: bit_word_eqI simp: bit_simps)
  finally have "w - 1 = ?v + (push_bit ?t 1 - 1)" by (simp add: algebra_simps)
  also have "push_bit ?t 1 - 1 = (mask ?t :: u64)" by (simp add: mask_eq_decr_exp push_bit_eq_mult)
  also have "?v + mask ?t = ?v OR mask ?t"
    using t(3) by (intro disjunctive_add_eq_or bit_word_eqI) (auto simp: bit_simps)
  finally have "w - 1 = ?v OR mask ?t" .
  with t(3) show ?thesis
    by (cases "n < 64") (auto simp: bit_simps dest: bit_imp_le_length)
qed

lemma filter_clear_lowest:
  fixes w :: u64
  assumes "w \<noteq> 0"
  shows "filter (bit w) [0..<64] = trailing_zeros w # filter (bit (w AND (w - 1))) [0..<64]"
proof -
  let ?t = "trailing_zeros w"
  note t = trailing_zeros_bit [OF assms]
  have split: "[0..<64] = [0..<?t] @ ?t # [Suc ?t..<64]"
    using t(2) upt_add_eq_append [of 0 ?t "64 - ?t"] by (simp add: upt_conv_Cons)
  have low: "filter (bit w) [0..<?t] = []" "filter (bit (w AND (w - 1))) [0..<?t] = []"
    using t(3) by (auto simp: filter_empty_conv bit_clear_lowest [OF assms])
  have high: "filter (bit (w AND (w - 1))) [Suc ?t..<64] = filter (bit w) [Suc ?t..<64]"
    by (intro filter_cong) (auto simp: bit_clear_lowest [OF assms])
  show ?thesis
    unfolding split using low high t(1) by (simp add: bit_clear_lowest [OF assms])
qed

definition visit ::
  "externs \<Rightarrow> FilterAccountAggregate list \<Rightarrow> MessageAccountInfo \<Rightarrow> (nat \<Rightarrow> bool) \<Rightarrow> (nat \<Rightarrow> bool) \<Rightarrow> nat
   \<Rightarrow> FilterName option run" where
  "visit X aggs acc ma mo i = do { a \<leftarrow> idx aggs i; match_filter X a acc (Some (ma i)) (Some (mo i)) }"

lemma candidate_loop_eq:
  "candidate_loop X aggs acc i aw ow c =
     filter_map_run (\<lambda>b. do { a \<leftarrow> idx aggs (i * 64 + b);
                            match_filter X a acc (Some (bit aw b)) (Some (bit ow b)) })
       (filter (bit c) [0..<64])"
proof (induction "unat c" arbitrary: c rule: less_induct)
  case less
  show ?case
  proof (cases "c = 0")
    case False
    have "candidate_loop X aggs acc i aw ow c =
        do { r \<leftarrow> do { a \<leftarrow> idx aggs (i * 64 + trailing_zeros c);
                     match_filter X a acc (Some (bit aw (trailing_zeros c)))
                       (Some (bit ow (trailing_zeros c))) };
             rs \<leftarrow> candidate_loop X aggs acc i aw ow (c AND (c - 1));
             Some (case r of None \<Rightarrow> rs | Some y \<Rightarrow> y # rs) }"
      using False
      by (subst candidate_loop.simps) (simp add: Let_def BITS_PER_WORD_def and_exp_eq_0_iff_not_bit)
    then show ?thesis
      using less [OF and_minus_one_less [OF False]] by (simp add: filter_clear_lowest [OF False])
  qed (subst candidate_loop.simps, simp)
qed

section \<open>The index\<close>

lemma concat_blocks: "concat (map (\<lambda>i. map (\<lambda>b. i * m + b) [0..<m]) [0..<n]) = [0..<n * m]"
proof (induction n)
  case (Suc n)
  have "map (\<lambda>b. n * m + b) [0..<m] = [n * m..<n * m + m]"
    using map_add_upt [of "n * m" m] by (simp add: add.commute)
  then show ?case using Suc upt_add_eq_append [of 0 "n * m" m] by (simp add: add.commute)
qed simp

definition bs_mem :: "FilterBitSet \<Rightarrow> nat \<Rightarrow> bool" where
  "bs_mem bs i \<longleftrightarrow> i div 64 < length bs \<and> bit (bs ! (i div 64)) (i mod 64)"

definition bs_at :: "FilterBitSet option \<Rightarrow> nat \<Rightarrow> bool" where
  "bs_at m i = (case m of None \<Rightarrow> False | Some bs \<Rightarrow> bs_mem bs i)"

lemma bs_mem_new [simp]: "\<not> bs_mem (bitset_new n) i"
  by (simp add: bs_mem_def bitset_new_def)

lemma length_bitset_new: "length (bitset_new n) = div_ceil n 64"
  by (simp add: bitset_new_def BITS_PER_WORD_def)

lemma div_ceil_bound: "i < n \<Longrightarrow> i div 64 < div_ceil n 64"
  unfolding div_ceil_def by (simp add: div_less_iff_less_mult)

lemma div_ceil_upper: "n \<le> div_ceil n 64 * 64"
  unfolding div_ceil_def by simp

lemma bitset_insert_spec:
  assumes "i div 64 < length bs"
  shows "\<exists>bs'. bitset_insert bs i = Some bs' \<and> length bs' = length bs \<and>
    (\<forall>j. bs_mem bs' j \<longleftrightarrow> bs_mem bs j \<or> j = i)"
proof -
  have split: "j = i \<longleftrightarrow> j div 64 = i div 64 \<and> j mod 64 = i mod 64" for j :: nat
    by (metis div_mod_decomp)
  show ?thesis
    using assms
    by (auto simp: bitset_insert_def BITS_PER_WORD_def bs_mem_def bit_simps nth_list_update split)
qed

lemma bitset_is_empty_iff: "bitset_is_empty bs \<longleftrightarrow> (\<forall>i. \<not> bs_mem bs i)"
proof
  assume all: "\<forall>i. \<not> bs_mem bs i"
  then have none: "\<not> bit (bs ! k) b" if "k < length bs" "b < 64" for k b
    using that spec [OF all, of "64 * k + b"] by (auto simp: bs_mem_def)
  show "bitset_is_empty bs"
    unfolding bitset_is_empty_def list_all_length
  proof (intro allI impI bit_word_eqI)
    fix k n assume "k < length bs" "n < LENGTH(64)"
    then show "bit (bs ! k) n = bit 0 n" using none by simp
  qed
qed (auto simp: bitset_is_empty_def list_all_length bs_mem_def)

text \<open>What the index records after the first \<open>k\<close> aggregates.\<close>

definition map_inv ::
  "nat \<Rightarrow> (FilterAccountAggregate \<Rightarrow> pubkey list) \<Rightarrow> FilterAccountAggregate list \<Rightarrow> (pubkey, FilterBitSet) hmap
   \<Rightarrow> bool" where
  "map_inv n keys as m \<longleftrightarrow>
     (\<forall>pk bs. map_of m pk = Some bs \<longrightarrow> length bs = div_ceil n 64) \<and>
     (\<forall>pk i. bs_at (map_of m pk) i \<longleftrightarrow> i < length as \<and> pk \<in> set (keys (as ! i)))"

definition fallback_inv ::
  "nat \<Rightarrow> (FilterAccountAggregate \<Rightarrow> bool) \<Rightarrow> FilterAccountAggregate list \<Rightarrow> FilterBitSet \<Rightarrow> bool" where
  "fallback_inv n P as bs \<longleftrightarrow>
     length bs = div_ceil n 64 \<and> (\<forall>i. bs_mem bs i \<longleftrightarrow> i < length as \<and> P (as ! i))"

lemma entry_inserts_spec:
  assumes "i < n" "\<forall>pk bs. map_of m pk = Some bs \<longrightarrow> length bs = div_ceil n 64"
  shows "\<exists>m'. entry_inserts n i ks m = Some m' \<and>
    (\<forall>pk bs. map_of m' pk = Some bs \<longrightarrow> length bs = div_ceil n 64) \<and>
    (\<forall>pk j. bs_at (map_of m' pk) j \<longleftrightarrow> bs_at (map_of m pk) j \<or> pk \<in> set ks \<and> j = i)"
  using assms(2)
proof (induction ks arbitrary: m)
  case (Cons k ks)
  define b where "b = (case map_of m k of None \<Rightarrow> bitset_new n | Some b \<Rightarrow> b)"
  have "length b = div_ceil n 64"
    using Cons.prems by (simp add: b_def length_bitset_new split: option.splits)
  then obtain b' where b': "bitset_insert b i = Some b'" "length b' = div_ceil n 64"
      "\<forall>j. bs_mem b' j \<longleftrightarrow> bs_mem b j \<or> j = i"
    using bitset_insert_spec [of i b] div_ceil_bound [OF assms(1)] by auto
  have bm: "bs_mem b j = bs_at (map_of m k) j" for j
    by (simp add: b_def bs_at_def split: option.splits)
  have "\<forall>pk bs. map_of (hmap_insert k b' m) pk = Some bs \<longrightarrow> length bs = div_ceil n 64"
    using b'(2) Cons.prems by simp
  from Cons.IH [OF this]
  obtain m' where "entry_inserts n i ks (hmap_insert k b' m) = Some m'"
      "\<forall>pk bs. map_of m' pk = Some bs \<longrightarrow> length bs = div_ceil n 64"
      "\<forall>pk j. bs_at (map_of m' pk) j \<longleftrightarrow>
         bs_at (((map_of m)(k \<mapsto> b')) pk) j \<or> pk \<in> set ks \<and> j = i"
    by auto
  then show ?case
    using b'(1,3) bm by (auto simp: b_def [symmetric] bs_at_def)
qed simp

lemma map_inv_snoc:
  assumes "map_inv n keys as m" "length as < n"
  shows "\<exists>m'. entry_inserts n (length as) (keys a) m = Some m' \<and> map_inv n keys (as @ [a]) m'"
  using entry_inserts_spec [OF assms(2), of m "keys a"] assms(1)
  unfolding map_inv_def by (fastforce simp: nth_append less_Suc_eq)

lemma fallback_inv_snoc:
  assumes "fallback_inv n P as bs" "length as < n"
  shows "\<exists>bs'. (if P a then bitset_insert bs (length as) else Some bs) = Some bs' \<and>
    fallback_inv n P (as @ [a]) bs'"
proof (cases "P a")
  case True
  then show ?thesis
    using bitset_insert_spec [of "length as" bs] div_ceil_bound [OF assms(2)] assms(1)
    by (fastforce simp: fallback_inv_def nth_append less_Suc_eq)
next
  case False
  then show ?thesis using assms(1) by (auto simp: fallback_inv_def nth_append less_Suc_eq)
qed

definition index_inv ::
  "FilterAccountAggregate list \<Rightarrow> FilterAccountAggregate list \<Rightarrow> FilterAccountsIndex \<Rightarrow> bool" where
  "index_inv aggs as ix \<longleftrightarrow>
     ix_aggregates ix = aggs \<and>
     map_inv (length aggs) acc_keys as (ix_accounts ix) \<and>
     fallback_inv (length aggs) account_any_agg as (ix_account_fallback ix) \<and>
     map_inv (length aggs) own_keys as (ix_owners ix) \<and>
     fallback_inv (length aggs) (\<lambda>a. ag_owners a = None) as (ix_owner_fallback ix)"

lemma index_loop_inv:
  assumes "index_inv aggs as this" "length as + length bs \<le> length aggs"
  shows "\<exists>this'. index_loop (length aggs) (length as) bs this = Some this' \<and> index_inv aggs (as @ bs) this'"
  using assms
proof (induction bs arbitrary: as this)
  case (Cons a bs)
  have n: "length as < length aggs" using Cons.prems(2) by simp
  note inv = Cons.prems(1) [unfolded index_inv_def]
  obtain ma where ma: "entry_inserts (length aggs) (length as) (acc_keys a) (ix_accounts this) = Some ma"
      "map_inv (length aggs) acc_keys (as @ [a]) ma"
    using map_inv_snoc [OF _ n] inv by blast
  obtain fa where fa: "(if account_any_agg a then bitset_insert (ix_account_fallback this) (length as)
        else Some (ix_account_fallback this)) = Some fa"
      "fallback_inv (length aggs) account_any_agg (as @ [a]) fa"
    using fallback_inv_snoc [OF _ n] inv by blast
  obtain mo where mo: "entry_inserts (length aggs) (length as) (own_keys a) (ix_owners this) = Some mo"
      "map_inv (length aggs) own_keys (as @ [a]) mo"
    using map_inv_snoc [OF _ n] inv by blast
  obtain fo where fo: "(if ag_owners a = None then bitset_insert (ix_owner_fallback this) (length as)
        else Some (ix_owner_fallback this)) = Some fo"
      "fallback_inv (length aggs) (\<lambda>a. ag_owners a = None) (as @ [a]) fo"
    using fallback_inv_snoc [OF _ n, of "\<lambda>a. ag_owners a = None"] inv by blast
  let ?this = "this\<lparr>ix_accounts := ma, ix_owners := mo, ix_account_fallback := fa, ix_owner_fallback := fo\<rparr>"
  have "index_inv aggs (as @ [a]) ?this"
    using inv ma(2) fa(2) mo(2) fo(2) by (simp add: index_inv_def)
  from Cons.IH [OF this] Cons.prems(2) show ?case
    by (simp add: acc_keys_def [symmetric] own_keys_def [symmetric] ma(1) fa(1) mo(1) fo(1))
qed simp

lemma try_init_spec:
  obtains (none) "try_init aggs = Some None"
      "length aggs \<le> 1 \<or> \<not> within_budget aggs \<or> (\<forall>a \<in> set aggs. acc_keys a = [])"
  | (index) ix where "try_init aggs = Some (Some ix)" "index_inv aggs aggs ix"
      "ix_account_fallback_empty ix = bitset_is_empty (ix_account_fallback ix)"
      "ix_owner_fallback_empty ix = bitset_is_empty (ix_owner_fallback ix)"
proof (cases "length aggs \<le> 1 \<or> \<not> within_budget aggs")
  case True
  then show ?thesis using none by (auto simp: try_init_def)
next
  case False
  let ?ix0 = "\<lparr>ix_aggregates = aggs, ix_accounts = [], ix_owners = [],
     ix_account_fallback = bitset_new (length aggs), ix_owner_fallback = bitset_new (length aggs),
     ix_account_fallback_empty = True, ix_owner_fallback_empty = True\<rparr>"
  have "index_inv aggs [] ?ix0"
    by (simp add: index_inv_def map_inv_def fallback_inv_def bs_at_def length_bitset_new)
  from index_loop_inv [OF this, of aggs] obtain ix where
    ix: "index_loop (length aggs) 0 aggs ?ix0 = Some ix" "index_inv aggs aggs ix" by auto
  show ?thesis
  proof (cases "ix_accounts ix = [] \<and> ix_owners ix = []")
    case True
    then have "\<forall>pk i. \<not> (i < length aggs \<and> pk \<in> set (acc_keys (aggs ! i)))"
      using ix(2) by (auto simp: index_inv_def map_inv_def bs_at_def)
    then have "\<forall>a \<in> set aggs. acc_keys a = []" by (metis in_set_conv_nth list.set_sel(1))
    with True False ix(1) none show ?thesis by (simp add: try_init_def)
  next
    case non: False
    let ?r = "ix\<lparr>ix_account_fallback_empty := bitset_is_empty (ix_account_fallback ix),
                  ix_owner_fallback_empty := bitset_is_empty (ix_owner_fallback ix)\<rparr>"
    have "index_inv aggs aggs ?r" using ix(2) by (simp add: index_inv_def)
    moreover have "try_init aggs = Some (Some ?r)"
      using non False ix(1) by (simp add: try_init_def)
    ultimately show ?thesis by (intro index [of ?r]) simp_all
  qed
qed

lemma word_loop_eq:
  assumes "index_inv aggs aggs ix" "\<forall>i \<in> set ws. i < div_ceil (length aggs) 64"
    "ma = map_of (ix_accounts ix) pk" "mo = map_of (ix_owners ix) ow"
  shows "word_loop X ix acc ma mo ws =
    filter_map_run (visit X aggs acc (bs_at ma) (bs_at mo))
      (filter (\<lambda>j. (bs_at ma j \<or> bs_mem (ix_account_fallback ix) j) \<and>
                   (bs_at mo j \<or> bs_mem (ix_owner_fallback ix) j))
        (concat (map (\<lambda>i. map (\<lambda>b. i * 64 + b) [0..<64]) ws)))"
  using assms(2)
proof (induction ws)
  case (Cons i ws)
  let ?Q = "\<lambda>j. (bs_at ma j \<or> bs_mem (ix_account_fallback ix) j) \<and>
                 (bs_at mo j \<or> bs_mem (ix_owner_fallback ix) j)"
  have i: "i < div_ceil (length aggs) 64" using Cons.prems by simp
  have len: "length (ix_account_fallback ix) = div_ceil (length aggs) 64"
      "length (ix_owner_fallback ix) = div_ceil (length aggs) 64"
      "\<And>bs. ma = Some bs \<Longrightarrow> length bs = div_ceil (length aggs) 64"
      "\<And>bs. mo = Some bs \<Longrightarrow> length bs = div_ceil (length aggs) 64"
    using assms(1,3,4) by (auto simp: index_inv_def map_inv_def fallback_inv_def)
  define wa where "wa = (case ma of None \<Rightarrow> 0 | Some bs \<Rightarrow> bs ! i)"
  define wo where "wo = (case mo of None \<Rightarrow> 0 | Some bs \<Rightarrow> bs ! i)"
  have wa: "(case ma of None \<Rightarrow> Some 0 | Some bs \<Rightarrow> bitset_word bs i) = Some wa"
    "(case mo of None \<Rightarrow> Some 0 | Some bs \<Rightarrow> bitset_word bs i) = Some wo"
    using len(3,4) i by (auto simp: wa_def wo_def bitset_word_def split: option.splits)
  have bits: "bit wa b = bs_at ma (i * 64 + b)" "bit wo b = bs_at mo (i * 64 + b)"
    "bit (ix_account_fallback ix ! i) b = bs_mem (ix_account_fallback ix) (i * 64 + b)"
    "bit (ix_owner_fallback ix ! i) b = bs_mem (ix_owner_fallback ix) (i * 64 + b)" if "b < 64" for b
    using that i len by (auto simp: wa_def wo_def bs_at_def bs_mem_def split: option.splits)
  have "candidate_loop X aggs acc i wa wo
        ((wa OR ix_account_fallback ix ! i) AND (wo OR ix_owner_fallback ix ! i)) =
      filter_map_run (visit X aggs acc (bs_at ma) (bs_at mo))
        (filter ?Q (map (\<lambda>b. i * 64 + b) [0..<64]))"
    unfolding candidate_loop_eq filter_map filter_map_run_map
    by (rule trans [OF filter_map_run_cong arg_cong [where f = "filter_map_run _"]])
      (auto simp: visit_def bits bit_simps intro!: filter_cong)
  with Cons wa len(1,2) i assms(1) show ?case
    by (simp add: bitset_word_def filter_map_run_append index_inv_def)
qed simp

definition valid_index :: "FilterAccountsIndex \<Rightarrow> bool" where
  "valid_index ix \<longleftrightarrow>
     index_inv (ix_aggregates ix) (ix_aggregates ix) ix \<and> list_all agg_wf (ix_aggregates ix) \<and>
     ix_account_fallback_empty ix = bitset_is_empty (ix_account_fallback ix) \<and>
     ix_owner_fallback_empty ix = bitset_is_empty (ix_owner_fallback ix)"

lemma filter_upt_bound:
  assumes "n \<le> m" "\<And>i. Q i \<Longrightarrow> i < n"
  shows "filter Q [0..<m] = filter Q [0..<n]"
proof -
  have "[0..<m] = [0..<n] @ [n..<m]" using assms(1) upt_add_eq_append [of 0 n "m - n"] by simp
  moreover have "filter Q [n..<m] = []" using assms(2) by (fastforce simp: filter_empty_conv)
  ultimately show ?thesis by simp
qed

lemma scan_none:
  assumes "list_all agg_wf aggs"
    and "\<And>i. i < length aggs \<Longrightarrow> \<not> (account_cand (aggs ! i) acc \<and> owner_cand (aggs ! i) acc)"
  shows "linear_get_filters X aggs acc = Some []"
  using scan_positions [OF assms(1), of "\<lambda>_. False" acc "\<lambda>_. None" X] assms(2) by simp

lemma index_get_filters_eq:
  assumes "valid_index ix"
  shows "index_get_filters X ix acc = linear_get_filters X (ix_aggregates ix) acc"
proof -
  let ?aggs = "ix_aggregates ix" and ?n = "length (ix_aggregates ix)"
  let ?ma = "map_of (ix_accounts ix) (ai_pubkey acc)" and ?mo = "map_of (ix_owners ix) (ai_owner acc)"
  have inv: "index_inv ?aggs ?aggs ix" and wf: "list_all agg_wf ?aggs"
    using assms by (auto simp: valid_index_def)
  have at: "bs_at ?ma i \<longleftrightarrow> i < ?n \<and> ai_pubkey acc \<in> set (acc_keys (?aggs ! i))"
    "bs_at ?mo i \<longleftrightarrow> i < ?n \<and> ai_owner acc \<in> set (own_keys (?aggs ! i))"
    "bs_mem (ix_account_fallback ix) i \<longleftrightarrow> i < ?n \<and> account_any_agg (?aggs ! i)"
    "bs_mem (ix_owner_fallback ix) i \<longleftrightarrow> i < ?n \<and> ag_owners (?aggs ! i) = None" for i
    using inv by (auto simp: index_inv_def map_inv_def fallback_inv_def)
  let ?Q = "\<lambda>j. (bs_at ?ma j \<or> bs_mem (ix_account_fallback ix) j) \<and>
                 (bs_at ?mo j \<or> bs_mem (ix_owner_fallback ix) j)"
  have cand: "?Q i \<longleftrightarrow> i < ?n \<and> account_cand (?aggs ! i) acc \<and> owner_cand (?aggs ! i) acc" for i
    by (auto simp: at account_cand_def owner_cand_def)
  show ?thesis
  proof (cases "(?ma = None \<and> ix_account_fallback_empty ix) \<or> (?mo = None \<and> ix_owner_fallback_empty ix)")
    case True
    then have "\<not> ?Q i" for i
      using assms by (auto simp: valid_index_def bitset_is_empty_iff bs_at_def)
    then have "linear_get_filters X ?aggs acc = Some []"
      using cand by (intro scan_none [OF wf]) blast
    with True show ?thesis by (auto simp: index_get_filters_def Let_def)
  next
    case False
    let ?W = "div_ceil ?n 64"
    have "length (ix_account_fallback ix) = ?W" using inv by (simp add: index_inv_def fallback_inv_def)
    moreover have "\<not> (?ma = None \<and> ix_account_fallback_empty ix)"
      "\<not> (?mo = None \<and> ix_owner_fallback_empty ix)"
      using False by blast+
    ultimately have "index_get_filters X ix acc = word_loop X ix acc ?ma ?mo [0..<?W]"
      by (simp only: index_get_filters_def Let_def if_False)
    also have "\<dots> = filter_map_run (visit X ?aggs acc (bs_at ?ma) (bs_at ?mo)) (filter ?Q [0..<?W * 64])"
    proof -
      have "\<forall>i \<in> set [0..<?W]. i < ?W" by simp
      then show ?thesis by (simp only: word_loop_eq [OF inv _ refl refl] concat_blocks)
    qed
    also have "filter ?Q [0..<?W * 64] = filter ?Q [0..<?n]"
      using div_ceil_upper cand by (intro filter_upt_bound) blast+
    also have "filter_map_run (visit X ?aggs acc (bs_at ?ma) (bs_at ?mo)) (filter ?Q [0..<?n]) =
        linear_get_filters X ?aggs acc"
    proof (rule scan_positions [OF wf])
      fix i assume "i < ?n" "\<not> ?Q i"
      then show "\<not> (account_cand (?aggs ! i) acc \<and> owner_cand (?aggs ! i) acc)" using cand by blast
    next
      fix i assume "i < ?n"
      then have "flags_ok (?aggs ! i) acc (bs_at ?ma i) (bs_at ?mo i)"
        by (simp add: flags_ok_def at)
      then show "visit X ?aggs acc (bs_at ?ma) (bs_at ?mo) i = match_filter X (?aggs ! i) acc None None"
        using \<open>i < ?n\<close> by (simp add: visit_def match_filter_flags)
    qed
    finally show ?thesis .
  qed
qed

section \<open>The merge walks\<close>

fun merge :: "nat list \<Rightarrow> nat list \<Rightarrow> (nat \<times> bool) list" where
  "merge (h # hs) (u # us) =
     (if h < u then (h, True) # merge hs (u # us)
      else if u < h then (u, False) # merge (h # hs) us
      else (h, True) # merge hs us)"
| "merge (h # hs) [] = (h, True) # merge hs []"
| "merge [] (u # us) = (u, False) # merge [] us"
| "merge [] [] = []"

lemma next_union_merge:
  "case next_union hits unc hc uc of
     (None, hc', uc') \<Rightarrow> merge (drop hc hits) (drop uc unc) = []
   | (Some p, hc', uc') \<Rightarrow> merge (drop hc hits) (drop uc unc) = p # merge (drop hc' hits) (drop uc' unc)"
proof -
  have "drop hc hits = (if hc < length hits then hits ! hc # drop (Suc hc) hits else [])"
    "drop uc unc = (if uc < length unc then unc ! uc # drop (Suc uc) unc else [])"
    by (simp_all add: Cons_nth_drop_Suc)
  then show ?thesis by (auto simp: next_union_def)
qed

lemma merge_hit: "\<forall>u \<in> set us. h < u \<Longrightarrow> merge (h # hs) us = (h, True) # merge hs us"
  by (cases us) auto

lemma merge_any: "\<forall>h \<in> set hs. u < h \<Longrightarrow> merge hs (u # us) = (u, False) # merge hs us"
  by (cases hs) auto

lemma merge_filter:
  assumes "sorted_wrt (<) xs"
  shows "merge (filter H xs) (filter U xs) = map (\<lambda>i. (i, H i)) (filter (\<lambda>i. H i \<or> U i) xs)"
  using assms by (induction xs) (auto simp: merge_hit merge_any)

lemma single_loop_eq:
  "single_loop X s acc hits hc ac =
     filter_map_run (\<lambda>(i, m). do { a \<leftarrow> idx (sm_aggregates s) i;
         match_filter X a acc (Some (sm_unbounded_is_owner s \<and> m)) (Some (\<not> sm_unbounded_is_owner s \<and> m)) })
       (merge (drop hc hits) (drop ac (sm_bounded_any s)))"
proof (induction "(length hits - hc) + (length (sm_bounded_any s) - ac)" arbitrary: hc ac rule: less_induct)
  case less
  let ?f = "\<lambda>(i, m). do { a \<leftarrow> idx (sm_aggregates s) i;
      match_filter X a acc (Some (sm_unbounded_is_owner s \<and> m)) (Some (\<not> sm_unbounded_is_owner s \<and> m)) }"
  obtain p hc' ac' where nu: "next_union hits (sm_bounded_any s) hc ac = (p, hc', ac')"
    by (metis prod_cases3)
  show ?case
  proof (cases p)
    case None
    with nu next_union_merge [where hits = hits and unc = "sm_bounded_any s" and hc = hc and uc = ac] show ?thesis
      by (subst single_loop.simps) simp
  next
    case (Some im)
    have step: "single_loop X s acc hits hc ac =
        do { r \<leftarrow> ?f im; rest \<leftarrow> single_loop X s acc hits hc' ac';
             Some (case r of None \<Rightarrow> rest | Some n \<Rightarrow> n # rest) }"
      using nu Some by (subst single_loop.simps) (simp split: prod.splits)
    have "merge (drop hc hits) (drop ac (sm_bounded_any s)) =
        im # merge (drop hc' hits) (drop ac' (sm_bounded_any s))"
      using nu Some next_union_merge [where hits = hits and unc = "sm_bounded_any s" and hc = hc and uc = ac] by simp
    with less [OF next_union_cursors] nu Some step show ?thesis by simp
  qed
qed

text \<open>The lockstep walk of two merged lists.\<close>

fun join :: "(nat \<times> bool) list \<Rightarrow> (nat \<times> bool) list \<Rightarrow> (nat \<times> bool \<times> bool) list" where
  "join ((i, m) # xs) ((j, k) # ys) =
     (if i < j then join xs ((j, k) # ys)
      else if j < i then join ((i, m) # xs) ys
      else (i, m, k) # join xs ys)"
| "join _ _ = []"

definition axis_list :: "axis \<Rightarrow> (nat \<times> bool) list" where
  "axis_list ax = (case ax of (hits, unc, hc, uc, p) \<Rightarrow>
     (case p of None \<Rightarrow> [] | Some q \<Rightarrow> q # merge (drop hc hits) (drop uc unc)))"

lemma axis_list_next: "axis_list (axis_next (hits, unc, hc, uc, p)) = merge (drop hc hits) (drop uc unc)"
  using next_union_merge [where hits = hits and unc = unc and hc = hc and uc = uc]
  by (auto simp: axis_list_def axis_next_def split: prod.splits option.splits)

lemma axis_list_pos:
  "axis_pos ax = None \<Longrightarrow> axis_list ax = []"
  "axis_pos ax = Some q \<Longrightarrow> axis_list ax = q # axis_list (axis_next ax)"
  by (cases ax; simp add: axis_pos_def axis_list_def)
    (cases ax, simp add: axis_list_next, simp add: axis_pos_def axis_list_def)

lemma dual_loop_eq:
  "dual_loop X aggs acc aax oax =
     filter_map_run (\<lambda>(i, ma, mo). do { a \<leftarrow> idx aggs i; match_filter X a acc (Some ma) (Some mo) })
       (join (axis_list aax) (axis_list oax))"
proof (induction "axis_left aax + axis_left oax" arbitrary: aax oax rule: less_induct)
  case less
  let ?f = "\<lambda>(i, ma, mo). do { a \<leftarrow> idx aggs i; match_filter X a acc (Some ma) (Some mo) }"
  show ?case
  proof (cases "axis_pos aax = None \<or> axis_pos oax = None")
    case True
    then have "join (axis_list aax) (axis_list oax) = []"
      by (auto simp: axis_list_pos(1))
    moreover have "dual_loop X aggs acc aax oax = Some []"
      using True by (subst dual_loop.simps) (auto split: option.splits)
    ultimately show ?thesis by simp
  next
    case False
    then obtain i m j k where p: "axis_pos aax = Some (i, m)" "axis_pos oax = Some (j, k)" by auto
    have smaller: "axis_left (axis_next aax) < axis_left aax" "axis_left (axis_next oax) < axis_left oax"
      using p axis_left_next by metis+
    have "dual_loop X aggs acc aax oax =
        (if i < j then dual_loop X aggs acc (axis_next aax) oax
         else if j < i then dual_loop X aggs acc aax (axis_next oax)
         else do { r \<leftarrow> ?f (i, m, k); rest \<leftarrow> dual_loop X aggs acc (axis_next aax) (axis_next oax);
                   Some (case r of None \<Rightarrow> rest | Some n \<Rightarrow> n # rest) })"
      using p by (subst dual_loop.simps) simp
    with less smaller p show ?thesis by (simp add: axis_list_pos(2))
  qed
qed

lemma join_Nil [simp]: "join xs [] = []" "join [] ys = []"
  by (cases xs; auto) auto

lemma join_skip:
  "\<forall>q \<in> set ys. i < fst q \<Longrightarrow> join ((i, m) # xs) ys = join xs ys"
  "\<forall>q \<in> set xs. j < fst q \<Longrightarrow> join xs ((j, k) # ys) = join xs ys"
  by (cases ys; auto) (cases xs; auto)

lemma join_filter:
  assumes "sorted_wrt (<) xs"
  shows "join (map (\<lambda>i. (i, H i)) (filter P xs)) (map (\<lambda>i. (i, G i)) (filter Q xs)) =
    map (\<lambda>i. (i, H i, G i)) (filter (\<lambda>i. P i \<and> Q i) xs)"
  using assms by (induction xs) (auto simp: join_skip)

text \<open>The cursor of the unconstrained walk points at the first hit not yet passed.\<close>

lemma cursor_hit_iff:
  assumes "i < n"
  shows "cursor_hit (filter H [0..<n]) (length (filter H [0..<i])) i \<longleftrightarrow> H i"
proof -
  have "[0..<n] = [0..<i] @ i # [Suc i..<n]"
    using assms upt_add_eq_append [of 0 i "n - i"] by (simp add: upt_conv_Cons)
  then have split: "filter H [0..<n] = filter H [0..<i] @ filter H (i # [Suc i..<n])" by simp
  show ?thesis
  proof
    assume "cursor_hit (filter H [0..<n]) (length (filter H [0..<i])) i"
    then have "i \<in> set (filter H [0..<n])" unfolding cursor_hit_def by (metis nth_mem)
    then show "H i" by simp
  next
    assume "H i"
    then show "cursor_hit (filter H [0..<n]) (length (filter H [0..<i])) i"
      unfolding split cursor_hit_def by simp
  qed
qed

lemma all_loop_cursors:
  assumes "i + length as = n"
    and H: "\<And>i. i < n \<Longrightarrow> cursor_hit hs (c i) i = H i" "\<And>i. c (Suc i) = (if H i then c i + 1 else c i)"
    and G: "\<And>i. i < n \<Longrightarrow> cursor_hit gs (d i) i = G i" "\<And>i. d (Suc i) = (if G i then d i + 1 else d i)"
  shows "all_loop X acc hs gs (c i) (d i) i as =
    filter_map_run (\<lambda>j. match_filter X (as ! (j - i)) acc (Some (H j)) (Some (G j))) [i..<n]"
  using assms(1)
proof (induction as arbitrary: i)
  case (Cons a as)
  have i: "i < n" using Cons.prems by simp
  have "filter_map_run (\<lambda>j. match_filter X (as ! (j - Suc i)) acc (Some (H j)) (Some (G j))) [Suc i..<n] =
      filter_map_run (\<lambda>j. match_filter X ((a # as) ! (j - i)) acc (Some (H j)) (Some (G j))) [Suc i..<n]"
    by (rule filter_map_run_cong) (auto simp: nth_Cons')
  with Cons.IH [of "Suc i"] Cons.prems i H(1) [OF i] G(1) [OF i] H(2) [of i] G(2) [of i] show ?case
    by (simp only: all_loop.simps Let_def upt_conv_Cons filter_map_run.simps) simp
qed simp

lemma all_loop_eq:
  "all_loop X acc (filter H [0..<length aggs]) (filter G [0..<length aggs]) 0 0 0 aggs =
    filter_map_run (\<lambda>j. match_filter X (aggs ! j) acc (Some (H j)) (Some (G j))) [0..<length aggs]"
  using all_loop_cursors [where i = 0 and as = aggs and n = "length aggs" and H = H and G = G
      and c = "\<lambda>i. length (filter H [0..<i])" and d = "\<lambda>i. length (filter G [0..<i])",
      OF _ cursor_hit_iff _ cursor_hit_iff]
  by simp

section \<open>Building the position lists\<close>

lemma hits_of_lookup: "hits_of m k = (case map_of m k of None \<Rightarrow> [] | Some v \<Rightarrow> v)"
  by (simp add: hits_of_def)

lemma hits_entry_pushes:
  "distinct ks \<Longrightarrow> hits_of (entry_pushes i ks m) k = hits_of m k @ (if k \<in> set ks then [i] else [])"
  by (induction ks arbitrary: m) (auto simp: hits_of_lookup)

definition maps_inv ::
  "FilterAccountAggregate list
   \<Rightarrow> (pubkey, nat list) hmap \<times> nat list \<times> (pubkey, nat list) hmap \<times> nat list \<Rightarrow> bool" where
  "maps_inv as maps \<longleftrightarrow> (case maps of (accounts, account_any, owners, owner_any) \<Rightarrow>
     (\<forall>k. hits_of accounts k = filter (\<lambda>i. k \<in> set (acc_keys (as ! i))) [0..<length as]) \<and>
     account_any = filter (\<lambda>i. account_any_agg (as ! i)) [0..<length as] \<and>
     (\<forall>k. hits_of owners k = filter (\<lambda>i. k \<in> set (own_keys (as ! i))) [0..<length as]) \<and>
     owner_any = filter (\<lambda>i. ag_owners (as ! i) = None) [0..<length as])"

lemma filter_upt_snoc:
  "filter (\<lambda>i. P ((as @ [a]) ! i)) [0..<length (as @ [a])] =
     filter (\<lambda>i. P (as ! i)) [0..<length as] @ (if P a then [length as] else [])"
  by (auto simp: nth_append intro!: filter_cong)

lemma build_maps_inv:
  assumes "maps_inv as maps" "list_all agg_wf bs"
  shows "maps_inv (as @ bs) (build_maps (length as) bs maps)"
  using assms
proof (induction bs arbitrary: as maps)
  case (Cons a bs)
  obtain accounts account_any owners owner_any
    where maps: "maps = (accounts, account_any, owners, owner_any)" by (cases maps)
  have wf: "distinct (acc_keys a)" "distinct (own_keys a)"
    using Cons.prems(2) by (auto intro: agg_wf_keys)
  have "maps_inv (as @ [a])
      (entry_pushes (length as) (acc_keys a) accounts,
       (if account_any_agg a then account_any @ [length as] else account_any),
       entry_pushes (length as) (own_keys a) owners,
       (if ag_owners a = None then owner_any @ [length as] else owner_any))"
    using Cons.prems(1) wf unfolding maps maps_inv_def prod.case
    by (simp only: filter_upt_snoc [of account_any_agg] filter_upt_snoc [of "\<lambda>a. ag_owners a = None"]
        filter_upt_snoc [of "\<lambda>a. k \<in> set (acc_keys a)" for k]
        filter_upt_snoc [of "\<lambda>a. k \<in> set (own_keys a)" for k] hits_entry_pushes) simp
  from Cons.IH [OF this] Cons.prems(2) show ?case
    by (simp add: maps acc_keys_def [symmetric] own_keys_def [symmetric])
qed simp

section \<open>The strategies as one interface\<close>

text \<open>
  A matcher holds a list of aggregates and answers with the names of those that match. The law is that
  the answer, panics included, is the linear scan's; the lemmas are what the rest of the filter code
  relies on.
\<close>

definition state_safe :: "FilterAccountAggregate \<Rightarrow> bool" where
  "state_safe a \<longleftrightarrow>
     (\<forall>st. ag_account_state a = Some st \<longrightarrow>
        (\<forall>(off, bs) \<in> set (fst_memcmp st). unat off + length bs < 2 ^ 64))"

lemma memcmp_match_safe:
  assumes "\<forall>(off, bs) \<in> set ms. unat off + length bs < 2 ^ 64" "length data < 2 ^ 64"
  shows "memcmp_match data ms =
    Some (\<forall>(off, bs) \<in> set ms. slice data (unat off) (unat off + length bs) = Some bs)"
  using assms(1)
proof (induction ms)
  case (Cons m ms)
  obtain off bs where m: "m = (off, bs)" by (cases m)
  have lt: "unat off + length bs < 2 ^ 64" using Cons.prems m by simp
  then have "unat (off + of_nat (length bs)) = unat off + length bs"
    by (simp add: unat_word_ariths unat_of_nat)
  moreover have "unat (of_nat (length data) :: usize) = length data"
    using assms(2) by (simp add: unat_of_nat)
  ultimately show ?case
    using Cons m by (auto simp: Let_def word_less_nat_alt slice_def split: if_splits)
qed simp

lemma match_filter_total:
  assumes "agg_wf a" "state_safe a" "length (ai_data acc) < 2 ^ 64"
  shows "match_filter X a acc ma mo \<noteq> None"
proof -
  have "match_data_lamports X a (ai_data acc) (ai_lamports acc) \<noteq> None"
  proof (cases "ag_account_state a")
    case (Some st)
    with assms(2) have "\<forall>(off, bs) \<in> set (fst_memcmp st). unat off + length bs < 2 ^ 64"
      by (simp add: state_safe_def)
    from memcmp_match_safe [OF this assms(3)] Some show ?thesis
      by (simp add: match_data_lamports_def state_is_match_def del: not_None_eq)
  qed (simp add: match_data_lamports_def)
  moreover obtain b where "match_account X a (ai_pubkey acc) ma = Some b"
    using match_account_total [OF assms(1)] by blast
  ultimately show ?thesis by (auto simp: match_filter_def)
qed

lemma filter_map_run_total:
  "(\<And>x. x \<in> set xs \<Longrightarrow> f x \<noteq> None) \<Longrightarrow> filter_map_run f xs \<noteq> None"
  by (induction xs) fastforce+

lemma filter_map_run_set:
  "filter_map_run f xs = Some ys \<Longrightarrow> set ys = {y. \<exists>x \<in> set xs. f x = Some (Some y)}"
proof (induction xs arbitrary: ys)
  case (Cons x xs)
  then obtain r rs where "f x = Some r" "filter_map_run f xs = Some rs"
    "ys = (case r of None \<Rightarrow> rs | Some y \<Rightarrow> y # rs)" by (auto simp: bind_eq_Some_conv)
  with Cons.IH show ?case by (cases r) auto
qed simp

locale account_matcher =
  fixes get :: "externs \<Rightarrow> 's \<Rightarrow> MessageAccountInfo \<Rightarrow> FilterName list run"
    and aggs_of :: "'s \<Rightarrow> FilterAccountAggregate list"
    and valid :: "'s \<Rightarrow> bool"
  assumes scan_law: "valid s \<Longrightarrow> get X s acc = linear_get_filters X (aggs_of s) acc"
    and wf_law: "valid s \<Longrightarrow> list_all agg_wf (aggs_of s)"
begin

lemma get_members:
  assumes "valid s" "get X s acc = Some ns"
  shows "set ns = {n. \<exists>a \<in> set (aggs_of s). match_filter X a acc None None = Some (Some n)}"
  using assms filter_map_run_set by (fastforce simp: scan_law linear_get_filters_def)

lemma get_total:
  assumes "valid s" "list_all state_safe (aggs_of s)" "length (ai_data acc) < 2 ^ 64"
  shows "get X s acc \<noteq> None"
  using assms wf_law [OF assms(1)] match_filter_total
  by (simp add: scan_law linear_get_filters_def list_all_iff filter_map_run_total)

end

definition all_valid :: "AllUnconstrainedFilter \<Rightarrow> bool" where
  "all_valid s \<longleftrightarrow> list_all agg_wf (au_aggregates s) \<and>
     (\<forall>k. hits_of (au_accounts s) k =
        filter (\<lambda>i. k \<in> set (acc_keys (au_aggregates s ! i))) [0..<length (au_aggregates s)]) \<and>
     (\<forall>k. hits_of (au_owners s) k =
        filter (\<lambda>i. k \<in> set (own_keys (au_aggregates s ! i))) [0..<length (au_aggregates s)])"

definition single_valid :: "SingleAxisMergeFilter \<Rightarrow> bool" where
  "single_valid s \<longleftrightarrow> list_all agg_wf (sm_aggregates s) \<and>
     (let as = sm_aggregates s; keys = (if sm_unbounded_is_owner s then acc_keys else own_keys);
          P = (if sm_unbounded_is_owner s then account_any_agg else (\<lambda>a. ag_owners a = None))
      in (\<forall>k. hits_of (sm_bounded_hits s) k = filter (\<lambda>i. k \<in> set (keys (as ! i))) [0..<length as]) \<and>
         sm_bounded_any s = filter (\<lambda>i. P (as ! i)) [0..<length as] \<and>
         (\<forall>a \<in> set as. if sm_unbounded_is_owner s then ag_owners a = None
                      else account_any_agg a \<and> acc_keys a = []))"

definition dual_valid :: "DualAxisMergeFilter \<Rightarrow> bool" where
  "dual_valid s \<longleftrightarrow> list_all agg_wf (dm_aggregates s) \<and>
     maps_inv (dm_aggregates s) (dm_accounts s, dm_account_any s, dm_owners s, dm_owner_any s)"

lemma all_get_filters_eq:
  assumes "all_valid s"
  shows "all_get_filters X s acc = linear_get_filters X (au_aggregates s) acc"
proof -
  let ?as = "au_aggregates s"
  let ?H = "\<lambda>i. ai_pubkey acc \<in> set (acc_keys (?as ! i))" and ?G = "\<lambda>i. ai_owner acc \<in> set (own_keys (?as ! i))"
  have "all_get_filters X s acc =
      filter_map_run (\<lambda>j. match_filter X (?as ! j) acc (Some (?H j)) (Some (?G j)))
        (filter (\<lambda>_. True) [0..<length ?as])"
    using assms by (simp only: all_get_filters_def all_valid_def all_loop_eq filter_True) simp
  also have "\<dots> = linear_get_filters X ?as acc"
    using assms by (intro scan_positions match_filter_flags) (auto simp: all_valid_def flags_ok_def)
  finally show ?thesis .
qed

lemma sorted_upt: "sorted_wrt (<) [0..<n]"
  by simp

lemma idx_visit: "i < length as \<Longrightarrow> flags_ok (as ! i) acc ma mo \<Longrightarrow>
    do { a \<leftarrow> idx as i; match_filter X a acc (Some ma) (Some mo) } = match_filter X (as ! i) acc None None"
  by (simp add: match_filter_flags)

lemma single_get_filters_eq:
  assumes "single_valid s"
  shows "single_get_filters X s acc = linear_get_filters X (sm_aggregates s) acc"
proof -
  let ?as = "sm_aggregates s" and ?b = "sm_unbounded_is_owner s"
  let ?k = "if ?b then ai_pubkey acc else ai_owner acc"
  let ?H = "\<lambda>i. ?k \<in> set ((if ?b then acc_keys else own_keys) (?as ! i))"
  let ?U = "\<lambda>i. (if ?b then account_any_agg else (\<lambda>a. ag_owners a = None)) (?as ! i)"
  have wf: "list_all agg_wf ?as" and hits: "hits_of (sm_bounded_hits s) ?k = filter ?H [0..<length ?as]"
    and any: "sm_bounded_any s = filter ?U [0..<length ?as]"
    and free: "i < length ?as \<Longrightarrow> if ?b then ag_owners (?as ! i) = None
       else account_any_agg (?as ! i) \<and> acc_keys (?as ! i) = []" for i
    using assms by (simp_all add: single_valid_def Let_def)
  have "single_get_filters X s acc = single_loop X s acc (filter ?H [0..<length ?as]) 0 0"
    unfolding single_get_filters_def Let_def hits
    by (auto simp: any single_loop_eq)
  also have "\<dots> = filter_map_run
      (\<lambda>i. do { a \<leftarrow> idx ?as i; match_filter X a acc (Some (?b \<and> ?H i)) (Some (\<not> ?b \<and> ?H i)) })
      (filter (\<lambda>i. ?H i \<or> ?U i) [0..<length ?as])"
    unfolding single_loop_eq any drop_0 merge_filter [OF sorted_upt] filter_map_run_map prod.case ..
  also have "\<dots> = linear_get_filters X ?as acc"
    using free
    by (intro scan_positions [OF wf] idx_visit)
      (auto simp: flags_ok_def account_cand_def owner_cand_def split: if_splits)
  finally show ?thesis .
qed

lemma dual_get_filters_eq:
  assumes "dual_valid s"
  shows "dual_get_filters X s acc = linear_get_filters X (dm_aggregates s) acc"
proof -
  let ?as = "dm_aggregates s"
  let ?H = "\<lambda>i. ai_pubkey acc \<in> set (acc_keys (?as ! i))" and ?U = "\<lambda>i. account_any_agg (?as ! i)"
  let ?G = "\<lambda>i. ai_owner acc \<in> set (own_keys (?as ! i))" and ?V = "\<lambda>i. ag_owners (?as ! i) = None"
  have wf: "list_all agg_wf ?as"
    and h: "hits_of (dm_accounts s) (ai_pubkey acc) = filter ?H [0..<length ?as]"
    "dm_account_any s = filter ?U [0..<length ?as]"
    "hits_of (dm_owners s) (ai_owner acc) = filter ?G [0..<length ?as]"
    "dm_owner_any s = filter ?V [0..<length ?as]"
    using assms by (simp_all add: dual_valid_def maps_inv_def)
  have "dual_get_filters X s acc = filter_map_run
      (\<lambda>(i, ma, mo). do { a \<leftarrow> idx ?as i; match_filter X a acc (Some ma) (Some mo) })
      (join (merge (filter ?H [0..<length ?as]) (filter ?U [0..<length ?as]))
            (merge (filter ?G [0..<length ?as]) (filter ?V [0..<length ?as])))"
    unfolding dual_get_filters_def Let_def h dual_loop_eq axis_list_next drop_0
    by (auto split: if_splits)
  also have "\<dots> = filter_map_run
      (\<lambda>i. do { a \<leftarrow> idx ?as i; match_filter X a acc (Some (?H i)) (Some (?G i)) })
      (filter (\<lambda>i. (?H i \<or> ?U i) \<and> (?G i \<or> ?V i)) [0..<length ?as])"
    unfolding merge_filter [OF sorted_upt] join_filter [OF sorted_upt] filter_map_run_map prod.case ..
  also have "\<dots> = linear_get_filters X ?as acc"
    by (intro scan_positions [OF wf] idx_visit)
      (auto simp: flags_ok_def account_cand_def owner_cand_def)
  finally show ?thesis .
qed

interpretation linear: account_matcher linear_get_filters "\<lambda>as. as" "list_all agg_wf"
  by unfold_locales simp_all

interpretation indexed: account_matcher index_get_filters ix_aggregates valid_index
  by unfold_locales (simp_all add: index_get_filters_eq, simp add: valid_index_def)

interpretation all_unconstrained: account_matcher all_get_filters au_aggregates all_valid
  by unfold_locales (simp_all add: all_get_filters_eq, simp add: all_valid_def)

interpretation single_axis: account_matcher single_get_filters sm_aggregates single_valid
  by unfold_locales (simp_all add: single_get_filters_eq, simp add: single_valid_def)

interpretation dual_axis: account_matcher dual_get_filters dm_aggregates dual_valid
  by unfold_locales (simp_all add: dual_get_filters_eq, simp add: dual_valid_def)

definition strategy_valid :: "FilterAccountsStrategy \<Rightarrow> bool" where
  "strategy_valid s =
     (case s of
        Empty \<Rightarrow> True
      | LinearScan aggs \<Rightarrow> list_all agg_wf aggs
      | Indexed ix \<Rightarrow> valid_index ix
      | AllUnconstrained f \<Rightarrow> all_valid f
      | SingleAxisMerge f \<Rightarrow> single_valid f
      | DualAxisMerge f \<Rightarrow> dual_valid f)"

interpretation strategy: account_matcher strategy_get_filters strategy_aggregates strategy_valid
proof
  fix s X acc assume "strategy_valid s"
  then show "strategy_get_filters X s acc = linear_get_filters X (strategy_aggregates s) acc"
    by (cases s)
      (simp_all add: strategy_valid_def strategy_get_filters_def strategy_aggregates_def
        indexed.scan_law all_unconstrained.scan_law single_axis.scan_law dual_axis.scan_law,
       simp add: linear_get_filters_def)
next
  fix s assume "strategy_valid s"
  then show "list_all agg_wf (strategy_aggregates s)"
    by (cases s)
      (simp_all add: strategy_valid_def strategy_aggregates_def indexed.wf_law
        all_unconstrained.wf_law single_axis.wf_law dual_axis.wf_law)
qed

section \<open>The choice of a strategy\<close>

lemma filter_length_full: "length (filter P xs) = length xs \<Longrightarrow> filter P xs = xs"
  using length_filter_less [of _ xs P] by (metis filter_True less_irrefl)

lemma length_filter_upt: "length (filter P [0..<n]) = n \<longleftrightarrow> (\<forall>i < n. P i)"
proof -
  have "length (filter P [0..<n]) = length [0..<n] \<longleftrightarrow> (\<forall>i \<in> set [0..<n]. P i)"
    by (metis filter_id_conv filter_length_full)
  then show ?thesis by auto
qed

text \<open>The one shape of filters the single-axis strategy gets wrong: every filter carries a cuckoo filter
  or no account list, one of them an explicit account list as well.\<close>

definition no_mixed :: "FilterAccountAggregate list \<Rightarrow> bool" where
  "no_mixed aggs \<longleftrightarrow> (\<forall>a \<in> set aggs. acc_keys a = [] \<or> ag_accounts_cuckoo a = None)"

lemma build_unindexed_valid:
  assumes "list_all agg_wf aggs" "no_mixed aggs"
  shows "strategy_valid (build_unindexed aggs) \<and> strategy_aggregates (build_unindexed aggs) = aggs"
proof (cases "length aggs \<le> DIRECT_SCAN_LIMIT")
  case True
  with assms show ?thesis
    by (simp add: build_unindexed_def strategy_valid_def strategy_aggregates_def)
next
  case False
  obtain A AA W WA where maps: "build_maps 0 aggs ([], [], [], []) = (A, AA, W, WA)"
    by (metis prod_cases4)
  have "maps_inv aggs (A, AA, W, WA)"
    using build_maps_inv [of "[]" "([], [], [], [])" aggs] assms(1)
    by (simp add: maps [symmetric] maps_inv_def hits_of_def)
  note inv = this [unfolded maps_inv_def prod.case]
  have full: "length AA = length aggs \<longleftrightarrow> (\<forall>a \<in> set aggs. account_any_agg a)"
    "length WA = length aggs \<longleftrightarrow> (\<forall>a \<in> set aggs. ag_owners a = None)"
    using inv by (simp_all add: length_filter_upt all_set_conv_all_nth)
  have keys: "acc_keys a = []" if "a \<in> set aggs" "account_any_agg a" for a
    using that assms(2) by (auto simp: no_mixed_def account_any_agg_def acc_keys_def)
  consider "length AA = length aggs" "length WA = length aggs"
    | "length AA \<noteq> length aggs" "length WA = length aggs"
    | "length AA = length aggs" "length WA \<noteq> length aggs"
    | "length AA \<noteq> length aggs" "length WA \<noteq> length aggs" by blast
  then show ?thesis
  proof cases
    case 1
    with False maps inv assms(1) show ?thesis
      by (simp add: build_unindexed_def strategy_valid_def strategy_aggregates_def all_valid_def)
  next
    case 2
    with False maps inv assms(1) full(2) show ?thesis
      by (simp add: build_unindexed_def strategy_valid_def strategy_aggregates_def single_valid_def)
  next
    case 3
    with False maps inv assms(1) full(1) keys show ?thesis
      by (simp add: build_unindexed_def strategy_valid_def strategy_aggregates_def single_valid_def)
  next
    case 4
    with False maps inv assms(1) show ?thesis
      by (simp add: build_unindexed_def strategy_valid_def strategy_aggregates_def dual_valid_def
          maps_inv_def)
  qed
qed

lemma build_unindexed_direct:
  "length aggs \<le> DIRECT_SCAN_LIMIT \<Longrightarrow> build_unindexed aggs = LinearScan aggs"
  by (simp add: build_unindexed_def)

lemma strategy_build_valid:
  assumes "list_all agg_wf aggs" "within_budget aggs \<or> no_mixed aggs"
  shows "\<exists>s. strategy_build aggs = Some s \<and> strategy_valid s \<and> strategy_aggregates s = aggs"
proof (cases "aggs = []")
  case True
  then show ?thesis by (simp add: strategy_build_def strategy_valid_def strategy_aggregates_def)
next
  case False
  show ?thesis
  proof (cases rule: try_init_spec [of aggs])
    case none
    have "strategy_valid (build_unindexed aggs) \<and> strategy_aggregates (build_unindexed aggs) = aggs"
    proof (cases "length aggs \<le> 1")
      case True
      then show ?thesis
        using assms(1)
        by (simp add: build_unindexed_direct DIRECT_SCAN_LIMIT_def strategy_valid_def strategy_aggregates_def)
    next
      case False
      with none(2) assms(2) have "no_mixed aggs" by (auto simp: no_mixed_def)
      with assms(1) show ?thesis by (rule build_unindexed_valid)
    qed
    with False none(1) show ?thesis by (simp add: strategy_build_def)
  next
    case (index ix)
    then have "ix_aggregates ix = aggs" by (simp add: index_inv_def)
    with index assms(1) False show ?thesis
      by (simp add: strategy_build_def strategy_valid_def strategy_aggregates_def valid_index_def)
  qed
qed

end
