(* ===== verification/Account_Claims.thy ===== *)
theory Account_Claims
  imports Account_Match
begin

text \<open>
  What an account subscription promises, stated on the request the client sent: which filter names an
  account update is reported under. The proofs go from the request to the parsed aggregates, to the
  linear scan, to whichever strategy the server chose.
\<close>

section \<open>The specification\<close>

definition lamports_cond :: "LamportsCmp \<Rightarrow> u64 \<Rightarrow> bool" where
  "lamports_cond c lamports =
     (case c of
        CmpEq v \<Rightarrow> lamports = v | CmpNe v \<Rightarrow> lamports \<noteq> v | CmpLt v \<Rightarrow> lamports < v | CmpGt v \<Rightarrow> v < lamports)"

definition state_cond :: "externs \<Rightarrow> bytes \<Rightarrow> u64 \<Rightarrow> SubscribeRequestFilterAccountsFilter \<Rightarrow> bool" where
  "state_cond X data lamports f =
     (case f of
        Some (Memcmp m) \<Rightarrow>
          (case memcmp_bytes X (mc_data m) of
             Inl _ \<Rightarrow> False
           | Inr bs \<Rightarrow> slice data (unat (mc_offset m)) (unat (mc_offset m) + length bs) = Some bs)
      | Some (Datasize n) \<Rightarrow> of_nat (length data) = n
      | Some (TokenAccountState _) \<Rightarrow> ex_token_account X data
      | Some (Lamports (Some c)) \<Rightarrow> lamports_cond c lamports
      | _ \<Rightarrow> False)"

definition account_config_matches ::
  "externs \<Rightarrow> MessageAccountInfo \<Rightarrow> SubscribeRequestFilterAccounts \<Rightarrow> bool" where
  "account_config_matches X acc f \<longleftrightarrow>
     (case fa_nonempty_txn_signature f of None \<Rightarrow> True | Some b \<Rightarrow> b = (ai_txn_signature acc \<noteq> None)) \<and>
     (fa_account f = [] \<and> fa_cuckoo_accounts_filter f = None \<or>
      Some (ai_pubkey acc) \<in> ex_pubkey X ` set (fa_account f) \<or>
      (case fa_cuckoo_accounts_filter f of
         None \<Rightarrow> False | Some p \<Rightarrow> cf_contains (ex_sip X) (filter_from_proto p) (ai_pubkey acc) = Some True)) \<and>
     (fa_owner f = [] \<or> Some (ai_owner acc) \<in> ex_pubkey X ` set (fa_owner f)) \<and>
     list_all (state_cond X (ai_data acc) (ai_lamports acc)) (fa_filters f)"

text \<open>What the claims ask of a request: memory-compare offsets that do not wrap, a cuckoo filter that
  fits in memory.\<close>

definition filter_offset_ok :: "SubscribeRequestFilterAccountsFilter \<Rightarrow> bool" where
  "filter_offset_ok f =
     (case f of Some (Memcmp m) \<Rightarrow> unat (mc_offset m) + MAX_DATA_SIZE < 2 ^ 64 | _ \<Rightarrow> True)"

definition config_ok :: "SubscribeRequestFilterAccounts \<Rightarrow> bool" where
  "config_ok f \<longleftrightarrow> list_all filter_offset_ok (fa_filters f) \<and>
     (case fa_cuckoo_accounts_filter f of None \<Rightarrow> True | Some p \<Rightarrow> length (pc_data p) < 2 ^ 63)"

text \<open>The index fits the 512 MiB budget, or no filter mixes an account list with a cuckoo filter.\<close>

definition indexable :: "(string, SubscribeRequestFilterAccounts) hmap \<Rightarrow> bool" where
  "indexable configs \<longleftrightarrow>
     div_ceil (length configs) 64 * 8 *
       (sum_list (map (\<lambda>(n, f). length (fa_account f) + length (fa_owner f)) configs) + 2)
       \<le> MAX_BITSET_BYTES \<or>
     (\<forall>(n, f) \<in> set configs. fa_account f = [] \<or> fa_cuckoo_accounts_filter f = None)"

section \<open>The account state\<close>

definition st_holds :: "externs \<Rightarrow> bytes \<Rightarrow> u64 \<Rightarrow> FilterAccountsState \<Rightarrow> bool" where
  "st_holds X data lamports st \<longleftrightarrow>
     (case fst_datasize st of None \<Rightarrow> True | Some n \<Rightarrow> of_nat (length data) = n) \<and>
     (fst_token_account_state st \<longrightarrow> ex_token_account X data) \<and>
     (\<forall>f \<in> set (fst_lamports st). lamports_is_match f lamports) \<and>
     (\<forall>(off, bs) \<in> set (fst_memcmp st). slice data (unat off) (unat off + length bs) = Some bs)"

lemma lamports_cond_match: "lamports_is_match (lamports_from c) lamports = lamports_cond c lamports"
  by (cases c) (auto simp: lamports_is_match_def lamports_from_def lamports_cond_def)

lemma state_add_holds:
  assumes "state_add X st f = Inr st'"
  shows "st_holds X data lamports st' \<longleftrightarrow> st_holds X data lamports st \<and> state_cond X data lamports f"
proof (cases f)
  case None
  with assms show ?thesis by (simp add: state_add_def)
next
  case (Some g)
  show ?thesis
  proof (cases g)
    case (Memcmp m)
    with Some assms show ?thesis
      by (cases "memcmp_bytes X (mc_data m)")
        (auto simp: state_add_def st_holds_def state_cond_def split: if_splits)
  next
    case (Datasize n)
    with Some assms show ?thesis
      by (auto simp: state_add_def st_holds_def state_cond_def split: if_splits)
  next
    case (TokenAccountState b)
    with Some assms show ?thesis
      by (auto simp: state_add_def st_holds_def state_cond_def split: if_splits)
  next
    case (Lamports c)
    with Some assms show ?thesis
      by (cases c) (auto simp: state_add_def st_holds_def state_cond_def lamports_cond_match)
  qed
qed

lemma state_adds_holds:
  "state_adds X st fs = Inr st' \<Longrightarrow>
     st_holds X data lamports st' \<longleftrightarrow> st_holds X data lamports st \<and> list_all (state_cond X data lamports) fs"
proof (induction fs arbitrary: st)
  case (Cons f fs)
  then obtain st1 where "state_add X st f = Inr st1" "state_adds X st1 fs = Inr st'"
    by (auto split: sum.splits)
  with Cons.IH state_add_holds show ?case by auto
qed simp

definition memcmp_small :: "FilterAccountsState \<Rightarrow> bool" where
  "memcmp_small st \<longleftrightarrow> (\<forall>(off, bs) \<in> set (fst_memcmp st). unat off + length bs < 2 ^ 64)"

lemma state_adds_small:
  "state_adds X st fs = Inr st' \<Longrightarrow> memcmp_small st \<Longrightarrow> list_all filter_offset_ok fs \<Longrightarrow> memcmp_small st'"
proof (induction fs arbitrary: st)
  case (Cons f fs)
  then obtain st1 where st1: "state_add X st f = Inr st1" "state_adds X st1 fs = Inr st'"
    by (auto split: sum.splits)
  have "memcmp_small st1"
    using st1(1) Cons.prems(2,3)
    by (auto simp: state_add_def memcmp_small_def filter_offset_ok_def
        split: option.splits AccountsFilterOneof.splits sum.splits if_splits)
  with Cons.IH [OF st1(2)] Cons.prems(3) show ?case by simp
qed simp

lemma state_new_match:
  assumes "FilterAccountsState_new X fs = Inr st" "list_all filter_offset_ok fs" "length data < 2 ^ 64"
  shows "state_is_match X st data lamports = Some (list_all (state_cond X data lamports) fs)" "memcmp_small st"
proof -
  have adds: "state_adds X FilterAccountsState_default fs = Inr st"
    using assms(1) by (simp add: FilterAccountsState_new_def split: if_splits)
  have init: "st_holds X data lamports FilterAccountsState_default" "memcmp_small FilterAccountsState_default"
    by (simp_all add: st_holds_def memcmp_small_def FilterAccountsState_default_def)
  show small: "memcmp_small st" using adds init(2) assms(2) by (rule state_adds_small)
  have "state_is_match X st data lamports = Some (st_holds X data lamports st)"
    using memcmp_match_safe [OF small [unfolded memcmp_small_def] assms(3)]
    by (auto simp: state_is_match_def st_holds_def list_ex_iff split: option.splits)
  with state_adds_holds [OF adds] init(1)
  show "state_is_match X st data lamports = Some (list_all (state_cond X data lamports) fs)" by simp
qed

lemma state_empty_filters:
  assumes "FilterAccountsState_new X fs = Inr st" "state_is_empty st"
  shows "list_all (state_cond X data lamports) fs"
proof -
  have adds: "state_adds X FilterAccountsState_default fs = Inr st"
    using assms(1) by (simp add: FilterAccountsState_new_def split: if_splits)
  have "st_holds X data lamports st" using assms(2) by (simp add: state_is_empty_def st_holds_def)
  then show ?thesis by (simp add: state_adds_holds [OF adds])
qed

section \<open>From a configured filter to its aggregate\<close>

lemma decode_pubkeys_length:
  assumes "decode_pubkeys_into_set X strs limit = Inr pks"
  shows "length pks \<le> length strs"
proof -
  note d = decode_pubkeys_Inr [OF assms]
  have "set pks \<subseteq> (\<lambda>v. the (ex_pubkey X v)) ` set strs" unfolding d(1) by force
  then have "card (set pks) \<le> card (set strs)" by (meson List.finite_set card_image_le card_mono finite_imageI le_trans)
  with d(2) card_length [of strs] show ?thesis by (simp add: distinct_card)
qed

lemma aggregate_from_Inr:
  assumes "aggregate_from X limits (name, f) s = (Inr a, s')"
  obtains accs owns st where
    "decode_pubkeys_into_set X (fa_account f) (la_account_reject limits) = Inr accs"
    "decode_pubkeys_into_set X (fa_owner f) (la_owner_reject limits) = Inr owns"
    "FilterAccountsState_new X (fa_filters f) = Inr st"
    "a = \<lparr>ag_filter_name = name, ag_txn_signature = fa_nonempty_txn_signature f,
          ag_accounts = opt_nonempty accs,
          ag_accounts_cuckoo = map_option filter_from_proto (fa_cuckoo_accounts_filter f),
          ag_owners = opt_nonempty owns,
          ag_account_state = (if state_is_empty st then None else Some st)\<rparr>"
proof -
  from assms obtain n s1 accs owns st cuckoo where
    "filter_name name s = (Inr n, s1)"
    and d: "decode_pubkeys_into_set X (fa_account f) (la_account_reject limits) = Inr accs"
    "decode_pubkeys_into_set X (fa_owner f) (la_owner_reject limits) = Inr owns"
    "FilterAccountsState_new X (fa_filters f) = Inr st"
    and c: "(case fa_cuckoo_accounts_filter f of
               None \<Rightarrow> Inr None
             | Some p \<Rightarrow> (case check_max (length (pc_data p)) (la_cuckoo_max_size limits) of
                           Inl e \<Rightarrow> Inl e | Inr _ \<Rightarrow> Inr (Some (filter_from_proto p)))) = Inr cuckoo"
    and a: "a = (FilterAccountAggregate_new n)
          \<lparr>ag_txn_signature := fa_nonempty_txn_signature f,
           ag_accounts := opt_nonempty accs, ag_accounts_cuckoo := cuckoo,
           ag_owners := opt_nonempty owns,
           ag_account_state := (if state_is_empty st then None else Some st)\<rparr>"
    unfolding aggregate_from_def prod.case st_bind_Inr by auto
  have "n = name" using \<open>filter_name name s = (Inr n, s1)\<close> by (rule filter_name_Inr)
  moreover have "cuckoo = map_option filter_from_proto (fa_cuckoo_accounts_filter f)"
    using c by (auto split: option.splits sum.splits)
  ultimately show ?thesis
    using that [OF d] a by (simp add: FilterAccountAggregate_new_def)
qed

definition agg_rel ::
  "externs \<Rightarrow> string \<times> SubscribeRequestFilterAccounts \<Rightarrow> FilterAccountAggregate \<Rightarrow> bool" where
  "agg_rel X nf a \<longleftrightarrow> (case nf of (name, f) \<Rightarrow>
     agg_wf a \<and> length (acc_keys a) \<le> length (fa_account f) \<and> length (own_keys a) \<le> length (fa_owner f) \<and>
     (fa_account f = [] \<or> fa_cuckoo_accounts_filter f = None \<longrightarrow> acc_keys a = [] \<or> ag_accounts_cuckoo a = None) \<and>
     (\<forall>acc. length (ai_data acc) < 2 ^ 64 \<longrightarrow>
        match_filter X a acc None None = Some (if account_config_matches X acc f then Some name else None)))"

lemma opt_nonempty_simps [simp]:
  "opt_nonempty xs = None \<longleftrightarrow> xs = []" "opt_nonempty xs = Some ys \<longleftrightarrow> xs = ys \<and> xs \<noteq> []"
  by (auto simp: opt_nonempty_def)

lemma aggregate_from_rel:
  assumes agg: "aggregate_from X limits nf s = (Inr a, s')" and ok: "config_ok (snd nf)"
  shows "agg_rel X nf a"
proof -
  obtain name f where nf: "nf = (name, f)" by (cases nf)
  obtain accs owns st where
    d: "decode_pubkeys_into_set X (fa_account f) (la_account_reject limits) = Inr accs"
    "decode_pubkeys_into_set X (fa_owner f) (la_owner_reject limits) = Inr owns"
    "FilterAccountsState_new X (fa_filters f) = Inr st"
    and a: "a = \<lparr>ag_filter_name = name, ag_txn_signature = fa_nonempty_txn_signature f,
          ag_accounts = opt_nonempty accs,
          ag_accounts_cuckoo = map_option filter_from_proto (fa_cuckoo_accounts_filter f),
          ag_owners = opt_nonempty owns,
          ag_account_state = (if state_is_empty st then None else Some st)\<rparr>"
    using agg unfolding nf by (rule aggregate_from_Inr)
  note da = decode_pubkeys_Inr [OF d(1)] and dw = decode_pubkeys_Inr [OF d(2)]
  have cw: "cuckoo_wf (filter_from_proto p)" if "fa_cuckoo_accounts_filter f = Some p" for p
    using ok that nf by (auto simp: config_ok_def intro: filter_from_proto_wf)
  have wf: "agg_wf a" using a da(2) dw(2) cw by (auto simp: agg_wf_def)
  have keys: "acc_keys a = accs" "own_keys a = owns"
    using a by (auto simp: acc_keys_def own_keys_def opt_nonempty_def)
  have mem: "pk \<in> set accs \<longleftrightarrow> Some pk \<in> ex_pubkey X ` set (fa_account f)"
    "pk \<in> set owns \<longleftrightarrow> Some pk \<in> ex_pubkey X ` set (fa_owner f)" for pk
    using da(1) dw(1) by force+
  have "match_filter X a acc None None = Some (if account_config_matches X acc f then Some name else None)"
    if len: "length (ai_data acc) < 2 ^ 64" for acc
  proof -
    let ?M = "fa_account f = [] \<and> fa_cuckoo_accounts_filter f = None \<or>
      Some (ai_pubkey acc) \<in> ex_pubkey X ` set (fa_account f) \<or>
      (case fa_cuckoo_accounts_filter f of
         None \<Rightarrow> False | Some p \<Rightarrow> cf_contains (ex_sip X) (filter_from_proto p) (ai_pubkey acc) = Some True)"
    have "match_account X a (ai_pubkey acc) None = Some ?M"
      using a da(5) mem(1) [of "ai_pubkey acc"] cf_contains_spec [OF cw]
      by (auto simp: match_account_def opt_nonempty_def split: option.splits)
    moreover have "match_owner a (ai_owner acc) None \<longleftrightarrow>
        fa_owner f = [] \<or> Some (ai_owner acc) \<in> ex_pubkey X ` set (fa_owner f)"
      using a dw(5) mem(2) [of "ai_owner acc"] by (auto simp: match_owner_def opt_nonempty_def)
    moreover have "match_data_lamports X a (ai_data acc) (ai_lamports acc) =
        Some (list_all (state_cond X (ai_data acc) (ai_lamports acc)) (fa_filters f))"
      using a state_empty_filters [OF d(3)] state_new_match(1) [OF d(3) _ len] ok nf
      by (simp add: match_data_lamports_def config_ok_def)
    moreover have "match_txn_signature a (ai_txn_signature acc) \<longleftrightarrow>
        (case fa_nonempty_txn_signature f of None \<Rightarrow> True | Some b \<Rightarrow> b = (ai_txn_signature acc \<noteq> None))"
      using a by (simp add: match_txn_signature_def)
    moreover have "ag_filter_name a = name" using a by simp
    ultimately show ?thesis
      unfolding match_filter_def account_config_matches_def by (simp only: bind.bind_lunit) auto
  qed
  with wf keys decode_pubkeys_length [OF d(1)] decode_pubkeys_length [OF d(2)] da(5) a show ?thesis
    by (auto simp: agg_rel_def nf)
qed

lemma scan_of_configs:
  assumes "list_all2 (agg_rel X) configs aggs" "length (ai_data acc) < 2 ^ 64"
  shows "linear_get_filters X aggs acc =
    Some (map fst (filter (\<lambda>(n, f). account_config_matches X acc f) configs))"
  using assms(1) unfolding linear_get_filters_def
  by (induction rule: list_all2_induct) (use assms(2) in \<open>auto simp: agg_rel_def\<close>)

lemma memberships_le:
  assumes "list_all2 (agg_rel X) configs aggs"
  shows "memberships aggs \<le> sum_list (map (\<lambda>(n, f). length (fa_account f) + length (fa_owner f)) configs)"
proof -
  have "foldl (\<lambda>count a.
       saturating_add
         (saturating_add count (case ag_accounts a of None \<Rightarrow> 0 | Some s \<Rightarrow> length s))
         (case ag_owners a of None \<Rightarrow> 0 | Some s \<Rightarrow> length s)) c aggs
      \<le> c + sum_list (map (\<lambda>(n, f). length (fa_account f) + length (fa_owner f)) configs)" for c
    using assms
  proof (induction arbitrary: c rule: list_all2_induct)
    case (Cons nf configs a aggs)
    obtain n f where nf: "nf = (n, f)" by (cases nf)
    have "(case ag_accounts a of None \<Rightarrow> 0 | Some s \<Rightarrow> length s) \<le> length (fa_account f)"
      "(case ag_owners a of None \<Rightarrow> 0 | Some s \<Rightarrow> length s) \<le> length (fa_owner f)"
      using Cons.hyps(1) nf by (auto simp: agg_rel_def acc_keys_def own_keys_def split: option.splits)
    then have "saturating_add
         (saturating_add c (case ag_accounts a of None \<Rightarrow> 0 | Some s \<Rightarrow> length s))
         (case ag_owners a of None \<Rightarrow> 0 | Some s \<Rightarrow> length s) \<le> c + length (fa_account f) + length (fa_owner f)"
      by (simp add: saturating_add_def)
    with Cons.IH nf show ?case by (fastforce intro: order_trans)
  qed simp
  from this [of 0] show ?thesis by (simp add: memberships_def)
qed

lemma saturating_mul_le: "saturating_mul a b \<le> a * b"
  by (simp add: saturating_mul_def)

lemma indexable_budget:
  assumes "list_all2 (agg_rel X) configs aggs" "indexable configs"
  shows "within_budget aggs \<or> no_mixed aggs"
  using assms(2) unfolding indexable_def
proof
  assume le: "div_ceil (length configs) 64 * 8 *
       (sum_list (map (\<lambda>(n, f). length (fa_account f) + length (fa_owner f)) configs) + 2) \<le> MAX_BITSET_BYTES"
  have "saturating_add (memberships aggs) 2 \<le>
      sum_list (map (\<lambda>(n, f). length (fa_account f) + length (fa_owner f)) configs) + 2"
    using memberships_le [OF assms(1)] by (simp add: saturating_add_def)
  then have "saturating_mul (saturating_mul (div_ceil (length aggs) 64) 8) (saturating_add (memberships aggs) 2)
      \<le> div_ceil (length aggs) 64 * 8 *
        (sum_list (map (\<lambda>(n, f). length (fa_account f) + length (fa_owner f)) configs) + 2)"
    by (intro order_trans [OF saturating_mul_le] mult_le_mono saturating_mul_le)
  with le assms(1) show ?thesis
    by (simp add: within_budget_def BITS_PER_WORD_def list_all2_lengthD)
next
  assume "\<forall>(n, f) \<in> set configs. fa_account f = [] \<or> fa_cuckoo_accounts_filter f = None"
  with assms(1) have "no_mixed aggs"
    by (induction rule: list_all2_induct) (auto simp: no_mixed_def agg_rel_def)
  then show ?thesis ..
qed

lemma FilterAccounts_new_Inr:
  assumes new: "FilterAccounts_new X configs limits names = Some (Inr fa, names')"
    and ok: "\<forall>(n, f) \<in> set configs. config_ok f"
  obtains aggs where "list_all2 (agg_rel X) configs aggs" "strategy_build aggs = Some fa"
    "list_all agg_wf aggs" "length configs \<le> la_max limits"
proof -
  obtain aggs where st: "st_map (aggregate_from X limits) configs names = (Inr aggs, names')"
      "strategy_build aggs = Some fa" and lim: "length configs \<le> la_max limits"
    using new by (auto simp: FilterAccounts_new_def check_max_def bind_eq_Some_conv
        split: if_splits sum.splits prod.splits)
  have "list_all2 (agg_rel X) configs aggs"
    using st_map_list_all2 [OF _ st(1), of "agg_rel X"] aggregate_from_rel ok by fastforce
  moreover from this have "list_all agg_wf aggs"
    by (induction rule: list_all2_induct) (auto simp: agg_rel_def)
  ultimately show ?thesis using that st(2) lim by blast
qed

lemma strategy_build_total: "strategy_build aggs \<noteq> None"
  by (cases rule: try_init_spec [of aggs]) (simp_all add: strategy_build_def)

lemma state_adds_length: "FilterAccountsState_new X fs = Inr st \<Longrightarrow> length fs \<le> MAX_FILTERS"
  by (simp add: FilterAccountsState_new_def split: if_splits)

definition within_limits :: "externs \<Rightarrow> FilterLimitsAccounts \<Rightarrow> SubscribeRequestFilterAccounts \<Rightarrow> bool" where
  "within_limits X limits f \<longleftrightarrow>
     (fa_account f = [] \<and> fa_owner f = [] \<and> fa_cuckoo_accounts_filter f = None \<longrightarrow> la_any limits) \<and>
     length (fa_account f) \<le> la_account_max limits \<and> length (fa_owner f) \<le> la_owner_max limits \<and>
     (\<forall>v \<in> set (fa_account f). \<exists>pk. ex_pubkey X v = Some pk \<and> pk \<notin> set (la_account_reject limits)) \<and>
     (\<forall>v \<in> set (fa_owner f). \<exists>pk. ex_pubkey X v = Some pk \<and> pk \<notin> set (la_owner_reject limits)) \<and>
     length (fa_filters f) \<le> MAX_FILTERS \<and>
     (\<forall>p. fa_cuckoo_accounts_filter f = Some p \<longrightarrow> length (pc_data p) \<le> la_cuckoo_max_size limits)"

lemma decoded_allowed:
  assumes "decode_pubkeys_into_set X strs limit = Inr pks"
  shows "\<forall>v \<in> set strs. \<exists>pk. ex_pubkey X v = Some pk \<and> pk \<notin> set limit"
proof
  fix v assume v: "v \<in> set strs"
  note d = decode_pubkeys_Inr [OF assms]
  obtain pk where "ex_pubkey X v = Some pk" using v d(4) by blast
  moreover from this v have "pk \<in> set pks" unfolding d(1) by blast
  ultimately show "\<exists>pk. ex_pubkey X v = Some pk \<and> pk \<notin> set limit" using d(3) by blast
qed

lemma aggregate_from_limits:
  assumes "aggregate_from X limits (name, f) s = (Inr a, s')"
  shows "within_limits X limits f"
proof -
  have c: "\<not> (fa_account f = [] \<and> fa_owner f = [] \<and> fa_cuckoo_accounts_filter f = None) \<or> la_any limits"
    "length (fa_account f) \<le> la_account_max limits" "length (fa_owner f) \<le> la_owner_max limits"
    "\<And>p. fa_cuckoo_accounts_filter f = Some p \<Longrightarrow> length (pc_data p) \<le> la_cuckoo_max_size limits"
    using assms unfolding aggregate_from_def prod.case st_bind_Inr
    by (auto simp: check_max_def split: option.splits sum.splits if_splits)
  obtain accs owns st where d:
    "decode_pubkeys_into_set X (fa_account f) (la_account_reject limits) = Inr accs"
    "decode_pubkeys_into_set X (fa_owner f) (la_owner_reject limits) = Inr owns"
    "FilterAccountsState_new X (fa_filters f) = Inr st"
    using assms by (rule aggregate_from_Inr)
  show ?thesis
    using c decoded_allowed [OF d(1)] decoded_allowed [OF d(2)] state_adds_length [OF d(3)]
    unfolding within_limits_def by blast
qed

section \<open>Concrete requests\<close>

text \<open>A decoder that reads a string as its bytes, and the requests of the witnesses.\<close>

definition toy_X :: externs where
  "toy_X = \<lparr>ex_pubkey = (\<lambda>s. Some (map of_char s)), ex_signature = (\<lambda>_. None), ex_base58 = (\<lambda>_. None),
     ex_base64 = (\<lambda>_. None), ex_token_account = (\<lambda>_. True), ex_sip = (\<lambda>_ _ _. 0)\<rparr>"

definition toy_names :: FilterNames where
  "toy_names = FilterNames_new 0 32 10 60"

definition toy_filter :: "string list \<Rightarrow> SubscribeRequestFilterAccountsFilter list \<Rightarrow> SubscribeRequestFilterAccounts" where
  "toy_filter accounts fs =
     \<lparr>fa_account = accounts, fa_owner = [], fa_filters = fs, fa_nonempty_txn_signature = None,
      fa_cuckoo_accounts_filter = None\<rparr>"

definition toy_account :: "bytes \<Rightarrow> bytes \<Rightarrow> MessageAccountInfo" where
  "toy_account pk data =
     \<lparr>ai_pubkey = pk, ai_lamports = 5, ai_owner = [9], ai_executable = False, ai_rent_epoch = 0,
      ai_data = data, ai_write_version = 1, ai_txn_signature = None, ai_pre_encoded = None\<rparr>"

definition toy_agg :: "string \<Rightarrow> pubkey list option \<Rightarrow> CuckooFilter option \<Rightarrow> pubkey list option \<Rightarrow> FilterAccountAggregate" where
  "toy_agg n accounts cuckoo owners =
     (FilterAccountAggregate_new n)\<lparr>ag_accounts := accounts, ag_accounts_cuckoo := cuckoo, ag_owners := owners\<rparr>"

definition toy_cuckoo :: CuckooFilter where
  "toy_cuckoo = \<lparr>cf_buckets = [[0, 0, 0, 0]], cf_hasher = hasher_default\<rparr>"

lemma toy_new:
  "FilterAccounts_new toy_X [(''a'', toy_filter [''A''] [Some (Lamports (Some (CmpGt 3)))])]
     FilterLimitsAccounts_default toy_names =
   Some (Inr (LinearScan [(toy_agg ''a'' (Some [[65]]) None None)
       \<lparr>ag_account_state := Some (FilterAccountsState_default\<lparr>fst_lamports := [LGt 3]\<rparr>)\<rparr>]),
     toy_names\<lparr>fn_names := [''a'']\<rparr>)"
  by (simp add: FilterAccounts_new_def aggregate_from_def st_bind_def toy_filter_def check_any_def
      check_pubkey_max_def check_max_def FilterLimitsAccounts_default_def usize_MAX_def filter_name_def
      names_get_def toy_names_def FilterNames_new_def decode_pubkeys_into_set_def decode_pubkey_def
      check_pubkey_reject_def toy_X_def FilterAccountsState_new_def MAX_FILTERS_def state_add_def
      FilterAccountsState_default_def lamports_from_def state_is_empty_def opt_nonempty_def
      FilterAccountAggregate_new_def strategy_build_def try_init_def build_unindexed_def
      DIRECT_SCAN_LIMIT_def hset_insert_def toy_agg_def of_char_def)

lemma accepted_accounts_scan:
  assumes "FilterAccounts_new X configs limits names = Some (Inr fa, names')"
    and "\<forall>(n, f) \<in> set configs. config_ok f" "indexable configs" "length (ai_data acc) < 2 ^ 64"
  shows "strategy_get_filters X fa acc =
    Some (map fst (filter (\<lambda>(n, f). account_config_matches X acc f) configs))"
proof -
  obtain aggs where aggs: "list_all2 (agg_rel X) configs aggs" "strategy_build aggs = Some fa"
      "list_all agg_wf aggs"
    using assms(1,2) by (rule FilterAccounts_new_Inr)
  obtain s where s: "strategy_build aggs = Some s" "strategy_valid s" "strategy_aggregates s = aggs"
    using strategy_build_valid [OF aggs(3) indexable_budget [OF aggs(1) assms(3)]] by blast
  have "strategy_get_filters X fa acc = linear_get_filters X aggs acc"
    using strategy.scan_law [OF s(2)] s aggs(2) by simp
  with scan_of_configs [OF aggs(1) assms(4)] show ?thesis by simp
qed

section \<open>Properties\<close>





text \<open>C31. The administrator's limits hold: building the account filters returns on every request, and a
  request it accepts has no more filters than allowed, no unconstrained filter where they are
  forbidden, and in each filter no more keys, state conditions or cuckoo data than allowed, only
  readable public keys and none of the rejected ones.\<close>

theorem account_limits_enforced:
  "\<exists>r names'. FilterAccounts_new X configs limits names = Some (r, names') \<and>
     (case r of
        Inl _ \<Rightarrow> True
      | Inr fa \<Rightarrow> length configs \<le> la_max limits \<and> list_all (\<lambda>(n, f). within_limits X limits f) configs)"
proof (cases "length configs \<le> la_max limits")
  case False
  then show ?thesis by (simp add: FilterAccounts_new_def check_max_def)
next
  case True
  obtain r names' where st: "st_map (aggregate_from X limits) configs names = (r, names')"
    by (metis prod.exhaust)
  show ?thesis
  proof (cases r)
    case (Inl e)
    with True st show ?thesis by (simp add: FilterAccounts_new_def check_max_def)
  next
    case (Inr aggs)
    have "list_all2 (\<lambda>nf a. within_limits X limits (snd nf)) configs aggs"
      using st_map_list_all2 [OF _ st [unfolded Inr], of "\<lambda>nf a. within_limits X limits (snd nf)"]
        aggregate_from_limits by fastforce
    then have "list_all (\<lambda>(n, f). within_limits X limits f) configs"
      by (induction rule: list_all2_induct) auto
    moreover obtain s where "strategy_build aggs = Some s" using strategy_build_total by blast
    ultimately show ?thesis
      using True st Inr by (simp add: FilterAccounts_new_def check_max_def)
  qed
qed

text \<open>An offset near the end of the address space is accepted and panics the matcher: the sum of
  offset and length wraps, the bounds test passes, and slicing the data fails.\<close>

lemma account_memcmp_offset_panics:
  "\<exists>f fa names'.
     FilterAccounts_new toy_X [(''a'', toy_filter [] [f])] FilterLimitsAccounts_default toy_names =
       Some (Inr fa, names') \<and>
     strategy_get_filters toy_X fa (toy_account [65] []) = None"
proof (intro exI conjI)
  let ?f = "Some (Memcmp \<lparr>mc_offset = - 1, mc_data = Some (MBytes [7])\<rparr>)"
  let ?s = "FilterAccountsState_default\<lparr>fst_memcmp := [(- 1, [7])]\<rparr>"
  let ?fa = "LinearScan [(toy_agg ''a'' None None None)\<lparr>ag_account_state := Some ?s\<rparr>]"
  show "FilterAccounts_new toy_X [(''a'', toy_filter [] [?f])] FilterLimitsAccounts_default toy_names =
      Some (Inr ?fa, toy_names\<lparr>fn_names := [''a'']\<rparr>)"
    by (simp add: FilterAccounts_new_def aggregate_from_def st_bind_def toy_filter_def check_any_def
      check_pubkey_max_def check_max_def FilterLimitsAccounts_default_def usize_MAX_def filter_name_def
      names_get_def toy_names_def FilterNames_new_def decode_pubkeys_into_set_def
      FilterAccountsState_new_def MAX_FILTERS_def state_add_def memcmp_bytes_def MAX_DATA_SIZE_def
      FilterAccountsState_default_def state_is_empty_def opt_nonempty_def
      FilterAccountAggregate_new_def strategy_build_def try_init_def build_unindexed_def
      DIRECT_SCAN_LIMIT_def hset_insert_def toy_agg_def)
  show "strategy_get_filters toy_X ?fa (toy_account [65] []) = None"
    by (simp add: strategy_get_filters_def linear_get_filters_def match_filter_def toy_account_def
        match_txn_signature_def toy_agg_def FilterAccountAggregate_new_def match_account_def
        match_owner_def match_data_lamports_def state_is_match_def FilterAccountsState_default_def slice_def
        unat_gt_0)
qed

text \<open>The single-axis strategy loses explicit accounts when every filter either lists no accounts
  or carries a cuckoo filter: the strategy built without the index misses a filter that lists the updated account, while
  the linear scan finds it.\<close>

lemma single_axis_misses_listed_account:
  "\<exists>aggs acc. list_all agg_wf aggs \<and>
     strategy_get_filters toy_X (build_unindexed aggs) acc = Some [''b'', ''c'', ''d'', ''e''] \<and>
     linear_get_filters toy_X aggs acc = Some [''a'', ''b'', ''c'', ''d'', ''e'']"
proof (intro exI conjI)
  let ?a = "toy_agg ''a'' (Some [[1]]) (Some toy_cuckoo) (Some [[9]])"
  let ?b = "\<lambda>n. toy_agg n None None (Some [[9]])"
  let ?aggs = "[?a, ?b ''b'', ?b ''c'', ?b ''d'', ?b ''e'']"
  have c: "cf_contains (ex_sip toy_X) toy_cuckoo [1] = Some False"
    by (simp add: cf_contains_def cf_hash_def hash_one_def toy_X_def keys_from_seed_def index_def
        toy_cuckoo_def fingerprint_from_hash_def bucket_contains_def fp_offset_def)
  show "list_all agg_wf ?aggs"
    by (simp add: agg_wf_def toy_agg_def FilterAccountAggregate_new_def toy_cuckoo_def cuckoo_wf_def
        ENTRIES_PER_BUCKET_def)
  show "linear_get_filters toy_X ?aggs (toy_account [1] []) = Some [''a'', ''b'', ''c'', ''d'', ''e'']"
    by (simp add: linear_get_filters_def match_filter_def toy_account_def match_txn_signature_def
        toy_agg_def FilterAccountAggregate_new_def match_account_def match_owner_def match_data_lamports_def)
  have b: "build_unindexed ?aggs = SingleAxisMerge
      \<lparr>sm_aggregates = ?aggs, sm_unbounded_is_owner = False,
       sm_bounded_hits = [([9], [0, 1, 2, 3, 4])], sm_bounded_any = []\<rparr>"
    by (simp add: build_unindexed_def DIRECT_SCAN_LIMIT_def account_any_agg_def toy_agg_def
        FilterAccountAggregate_new_def)
  show "strategy_get_filters toy_X (build_unindexed ?aggs) (toy_account [1] []) =
      Some [''b'', ''c'', ''d'', ''e'']"
    unfolding b
    by (simp add: strategy_get_filters_def single_get_filters_def hits_of_def toy_account_def
        single_loop_eq match_filter_def match_txn_signature_def toy_agg_def
        FilterAccountAggregate_new_def match_account_def match_owner_def match_data_lamports_def c idx_def)
qed

end
