(* ===== verification/Filtered_Update.thy ===== *)
theory Filtered_Update
  imports Filter_Limits
begin

text \<open>
  Account-data slices (\<^verbatim>\<open>FilterAccountsDataSlice\<close> of \<^verbatim>\<open>plugin/filter/filter.rs\<close>) and the filtered
  updates the filters produce (\<^verbatim>\<open>plugin/filter/message.rs\<close>), with their conversion to the
  generated update type. Offsets are 64-bit; sums and differences wrap, as in the release build.
\<close>

section \<open>Data slices\<close>

type_synonym FilterAccountsDataSlice = "(usize \<times> usize) list"

definition range_from :: "SubscribeRequestAccountsDataSlice \<Rightarrow> usize \<times> usize" where
  "range_from s = (ds_offset s, ds_offset s + ds_length s)"

fun check_slices :: "(usize \<times> usize) list \<Rightarrow> (usize \<times> usize) list \<Rightarrow> unit FilterResult" where
  "check_slices before [] = Inr ()"
| "check_slices before (a # after) =
     (if list_ex (\<lambda>b. fst b < fst a) after then Inl CreateDataSliceOutOfOrder
      else if list_ex (\<lambda>b. fst a < snd b) before then Inl CreateDataSliceOverlap
      else check_slices (before @ [a]) after)"

definition FilterAccountsDataSlice_new ::
  "SubscribeRequestAccountsDataSlice list \<Rightarrow> nat \<Rightarrow> FilterAccountsDataSlice FilterResult" where
  "FilterAccountsDataSlice_new slices limits =
     (case check_max (length slices) limits of
        Inl e \<Rightarrow> Inl e
      | Inr _ \<Rightarrow>
          (let rs = map range_from slices in
           case check_slices [] rs of Inl e \<Rightarrow> Inl e | Inr _ \<Rightarrow> Inr rs))"

definition isize_MAX :: nat where "isize_MAX = 2 ^ 63 - 1"

text \<open>\<open>for slice in slices { if source.len() >= slice.end { out.extend(&source[start..end]) } }\<close>\<close>

fun copy_slices :: "bytes \<Rightarrow> FilterAccountsDataSlice \<Rightarrow> bytes run" where
  "copy_slices source [] = Some []"
| "copy_slices source ((start, stop) # rs) =
     (if unat stop \<le> length source
      then do {
        part \<leftarrow> slice source (unat start) (unat stop);
        rest \<leftarrow> copy_slices source rs;
        Some (part @ rest)
      }
      else copy_slices source rs)"

text \<open>\<open>Vec::with_capacity\<close> panics on more than \<open>isize::MAX\<close> bytes.\<close>

definition get_slice :: "FilterAccountsDataSlice \<Rightarrow> bytes \<Rightarrow> bytes run" where
  "get_slice ds source =
     (if ds = [] then Some source
      else let capacity = sum_list (map (\<lambda>(start, stop). stop - start)
                            (filter (\<lambda>(start, stop). unat stop < length source) ds))
           in if isize_MAX < unat capacity then None else copy_slices source ds)"

fun slices_len :: "bytes \<Rightarrow> FilterAccountsDataSlice \<Rightarrow> nat run" where
  "slices_len source [] = Some 0"
| "slices_len source ((start, stop) # rs) =
     (if unat stop \<le> length source
      then do {
        part \<leftarrow> slice source (unat start) (unat stop);
        n \<leftarrow> slices_len source rs;
        Some (length part + n)
      }
      else slices_len source rs)"

definition get_slice_len :: "FilterAccountsDataSlice \<Rightarrow> bytes \<Rightarrow> nat run" where
  "get_slice_len ds source = (if ds = [] then Some (length source) else slices_len source ds)"

section \<open>Filtered updates\<close>

record FilteredUpdateAccount =
  fua_account :: MessageAccount
  fua_data_slice :: FilterAccountsDataSlice

record FilteredUpdateTransaction =
  fut_transaction :: MessageTransaction
  fut_slot :: u64

record FilteredUpdateBlock =
  fub_meta :: MessageBlockMeta
  fub_transactions :: "MessageTransaction list"
  fub_updated_account_count :: u64
  fub_accounts :: "MessageAccount list"
  fub_accounts_data_slice :: FilterAccountsDataSlice
  fub_entries :: "MessageEntry list"

datatype FilteredUpdateOneof =
    FAccount FilteredUpdateAccount
  | FSlot MessageSlot
  | FTransaction FilteredUpdateTransaction
  | FTransactionStatus MessageTransaction
  | FBlock FilteredUpdateBlock
  | FPing
  | FPong i32
  | FBlockMeta MessageBlockMeta
  | FEntry MessageEntry

definition oneof_account :: "MessageAccount \<Rightarrow> FilterAccountsDataSlice \<Rightarrow> FilteredUpdateOneof" where
  "oneof_account m ds = FAccount \<lparr>fua_account = m, fua_data_slice = ds\<rparr>"

definition oneof_transaction :: "MessageTransaction \<Rightarrow> FilteredUpdateOneof" where
  "oneof_transaction m = FTransaction \<lparr>fut_transaction = m, fut_slot = mt_slot m\<rparr>"

record FilteredUpdate =
  fu_filters :: "FilterName list"
  fu_message :: FilteredUpdateOneof
  fu_created_at :: Timestamp

definition FilteredUpdate_new ::
  "FilterName list \<Rightarrow> FilteredUpdateOneof \<Rightarrow> Timestamp \<Rightarrow> FilteredUpdate" where
  "FilteredUpdate_new fs m t = \<lparr>fu_filters = fs, fu_message = m, fu_created_at = t\<rparr>"

definition FilteredUpdate_new_empty :: "Timestamp \<Rightarrow> FilteredUpdateOneof \<Rightarrow> FilteredUpdate" where
  "FilteredUpdate_new_empty now m = FilteredUpdate_new [] m now"

text \<open>The macros \<open>filtered_updates_once_owned!\<close> and \<open>filtered_updates_once_ref!\<close>.\<close>

definition filtered_updates_once ::
  "FilterName list \<Rightarrow> FilteredUpdateOneof \<Rightarrow> Timestamp \<Rightarrow> FilteredUpdate list" where
  "filtered_updates_once fs m t = (if fs = [] then [] else [FilteredUpdate_new fs m t])"

datatype FilteredUpdateDeshredOneof =
    DDeshredTransaction MessageDeshredTransaction
  | DPing
  | DPong i32
  | DSlot MessageSlot

record FilteredUpdateDeshred =
  fdu_filters :: "FilterName list"
  fdu_message :: FilteredUpdateDeshredOneof
  fdu_created_at :: Timestamp

definition FilteredUpdateDeshred_new ::
  "FilterName list \<Rightarrow> FilteredUpdateDeshredOneof \<Rightarrow> Timestamp \<Rightarrow> FilteredUpdateDeshred" where
  "FilteredUpdateDeshred_new fs m t = \<lparr>fdu_filters = fs, fdu_message = m, fdu_created_at = t\<rparr>"

section \<open>Conversion to the generated type\<close>

definition as_subscribe_update_account ::
  "MessageAccount \<Rightarrow> FilterAccountsDataSlice \<Rightarrow> SubscribeUpdateAccountInfo run" where
  "as_subscribe_update_account m ds =
     (let acc = ac_account m in
      do {
        data \<leftarrow> get_slice ds (ai_data acc);
        Some \<lparr>uai_pubkey = ai_pubkey acc, uai_lamports = ai_lamports acc, uai_owner = ai_owner acc,
          uai_executable = ai_executable acc, uai_rent_epoch = ai_rent_epoch acc, uai_data = data,
          uai_write_version = ai_write_version acc, uai_txn_signature = ai_txn_signature acc\<rparr>
      })"

definition as_subscribe_update_transaction :: "MessageTransaction \<Rightarrow> SubscribeUpdateTransactionInfo" where
  "as_subscribe_update_transaction m =
     (let tx = mt_transaction m in
      \<lparr>uti_signature = ti_signature tx, uti_is_vote = ti_is_vote tx,
       uti_transaction = Some (ti_transaction tx), uti_meta = Some (ti_meta tx), uti_index = ti_index tx\<rparr>)"

definition as_subscribe_update_entry :: "MessageEntry \<Rightarrow> SubscribeUpdateEntry" where
  "as_subscribe_update_entry m =
     \<lparr>ue_slot = en_slot m, ue_index = en_index m, ue_num_hashes = en_num_hashes m, ue_hash = en_hash m,
      ue_executed_transaction_count = en_executed_transaction_count m,
      ue_starting_transaction_index = en_starting_transaction_index m\<rparr>"

fun map_run :: "('a \<Rightarrow> 'b run) \<Rightarrow> 'a list \<Rightarrow> 'b list run" where
  "map_run f [] = Some []"
| "map_run f (x # xs) = do { y \<leftarrow> f x; ys \<leftarrow> map_run f xs; Some (y # ys) }"

definition as_update_oneof :: "FilteredUpdateOneof \<Rightarrow> UpdateOneof run" where
  "as_update_oneof m =
     (case m of
        FAccount a \<Rightarrow> do {
          info \<leftarrow> as_subscribe_update_account (fua_account a) (fua_data_slice a);
          Some (UAccount \<lparr>ua_account = Some info, ua_slot = ac_slot (fua_account a),
                          ua_is_startup = ac_is_startup (fua_account a)\<rparr>)
        }
      | FSlot s \<Rightarrow> Some (USlot \<lparr>us_slot = sl_slot s, us_parent = sl_parent s,
                               us_status = SlotStatus_as_i32 (sl_status s), us_dead_error = sl_dead_error s\<rparr>)
      | FTransaction t \<Rightarrow> Some (UTransaction
          \<lparr>ut_transaction = Some (as_subscribe_update_transaction (fut_transaction t)), ut_slot = fut_slot t\<rparr>)
      | FTransactionStatus t \<Rightarrow> Some (UTransactionStatus
          \<lparr>uts_slot = mt_slot t, uts_signature = ti_signature (mt_transaction t),
           uts_is_vote = ti_is_vote (mt_transaction t), uts_index = ti_index (mt_transaction t),
           uts_err = ts_err (ti_meta (mt_transaction t))\<rparr>)
      | FBlock b \<Rightarrow>
          (let meta = bm_block_meta (fub_meta b) in
           do {
             accounts \<leftarrow> map_run (\<lambda>acc. as_subscribe_update_account acc (fub_accounts_data_slice b))
                          (fub_accounts b);
             Some (UBlock
               \<lparr>ub_slot = um_slot meta, ub_blockhash = um_blockhash meta, ub_rewards = um_rewards meta,
                ub_block_time = um_block_time meta, ub_block_height = um_block_height meta,
                ub_parent_slot = um_parent_slot meta, ub_parent_blockhash = um_parent_blockhash meta,
                ub_executed_transaction_count = um_executed_transaction_count meta,
                ub_transactions = map as_subscribe_update_transaction (fub_transactions b),
                ub_updated_account_count = fub_updated_account_count b, ub_accounts = accounts,
                ub_entries_count = um_entries_count meta,
                ub_entries = map as_subscribe_update_entry (fub_entries b)\<rparr>)
           })
      | FPing \<Rightarrow> Some UPing
      | FPong n \<Rightarrow> Some (UPong n)
      | FBlockMeta bm \<Rightarrow> Some (UBlockMeta (bm_block_meta bm))
      | FEntry e \<Rightarrow> Some (UEntry (as_subscribe_update_entry e)))"

definition as_subscribe_update :: "FilteredUpdate \<Rightarrow> SubscribeUpdate run" where
  "as_subscribe_update u =
     do {
       m \<leftarrow> as_update_oneof (fu_message u);
       Some \<lparr>su_filters = fu_filters u, su_update_oneof = Some m, su_created_at = Some (fu_created_at u)\<rparr>
     }"

section \<open>Lemmas\<close>

lemma check_slices_Inr:
  "check_slices before rs = Inr u \<Longrightarrow>
     sorted_wrt (\<lambda>a b. fst a \<le> fst b \<and> snd a \<le> fst b) rs \<and>
     (\<forall>a \<in> set rs. \<forall>b \<in> set before. snd b \<le> fst a)"
proof (induction rs arbitrary: before)
  case (Cons a rs)
  then show ?case by (fastforce simp: list_ex_iff not_less split: if_splits)
qed simp

text \<open>Ranges that do not wrap, in order and disjoint.\<close>

definition slices_ok :: "FilterAccountsDataSlice \<Rightarrow> bool" where
  "slices_ok ds \<longleftrightarrow> sorted_wrt (\<lambda>a b. snd a \<le> fst b) ds \<and> list_all (\<lambda>(a, b). a \<le> b) ds"

lemma data_slice_new_ok:
  assumes "FilterAccountsDataSlice_new slices limits = Inr ds"
    and "\<forall>s \<in> set slices. unat (ds_offset s) + unat (ds_length s) < 2 ^ 64"
  shows "slices_ok ds" "ds = map range_from slices" "length slices \<le> limits"
proof -
  have ds: "check_slices [] ds = Inr ()" "ds = map range_from slices" "length slices \<le> limits"
    using assms(1)
    by (auto simp: FilterAccountsDataSlice_new_def Let_def check_max_def split: sum.splits if_splits)
  show "ds = map range_from slices" "length slices \<le> limits" by (fact ds(2), fact ds(3))
  have "sorted_wrt (\<lambda>a b. snd a \<le> fst b) ds"
    using check_slices_Inr [OF ds(1)] by (auto elim: sorted_wrt_mono_rel [rotated])
  moreover have "a \<le> b" if "(a, b) \<in> set ds" for a b
    using that assms(2) ds(2)
    by (auto simp: range_from_def word_le_nat_alt unat_word_ariths)
  ultimately show "slices_ok ds" by (auto simp: slices_ok_def list_all_iff)
qed

definition fitting :: "bytes \<Rightarrow> FilterAccountsDataSlice \<Rightarrow> FilterAccountsDataSlice" where
  "fitting source ds = filter (\<lambda>(a, b). unat b \<le> length source) ds"

lemma copy_slices_ok:
  assumes "list_all (\<lambda>(a, b). a \<le> b) ds"
  shows "copy_slices source ds =
    Some (concat (map (\<lambda>(a, b). take (unat b - unat a) (drop (unat a) source)) (fitting source ds)))"
  using assms
  by (induction source ds rule: copy_slices.induct) (auto simp: slice_def fitting_def word_le_nat_alt)

lemma slices_len_copy: "slices_len source ds = map_option length (copy_slices source ds)"
proof (induction source ds rule: slices_len.induct)
  case (2 source a b rs)
  show ?case
  proof (cases "slice source (unat a) (unat b)")
    case None
    with 2 show ?thesis by simp
  next
    case (Some part)
    with 2 show ?thesis by (cases "copy_slices source rs") simp_all
  qed
qed simp

lemma unat_sum_le: "unat (sum_list ws :: usize) \<le> sum_list (map unat ws)"
proof (induction ws)
  case (Cons w ws)
  have "unat (w + sum_list ws) \<le> unat w + unat (sum_list ws)" by (simp add: unat_word_ariths)
  with Cons show ?case by simp
qed simp

lemma disjoint_sum_le:
  assumes "slices_ok ds" "\<forall>(a, b) \<in> set ds. lo \<le> unat a \<and> unat b \<le> hi" "lo \<le> hi"
  shows "sum_list (map (\<lambda>(a, b). unat (b - a)) ds) \<le> hi - lo"
  using assms
proof (induction ds arbitrary: lo)
  case (Cons r ds)
  obtain a b where r: "r = (a, b)" by (cases r)
  have ab: "a \<le> b" "lo \<le> unat a" "unat b \<le> hi" using Cons.prems r by (auto simp: slices_ok_def)
  have "\<forall>(c, d) \<in> set ds. unat b \<le> unat c \<and> unat d \<le> hi"
    using Cons.prems r by (fastforce simp: slices_ok_def word_le_nat_alt)
  with Cons.IH [of "unat b"] Cons.prems(1) ab(3)
  have "sum_list (map (\<lambda>(a, b). unat (b - a)) ds) \<le> hi - unat b" by (simp add: slices_ok_def)
  moreover have "unat (b - a) = unat b - unat a" using ab(1) by (rule unat_sub)
  ultimately show ?case using ab r by (simp add: word_le_nat_alt)
qed simp

lemma get_slice_ok:
  assumes "slices_ok ds" "length source < 2 ^ 63"
  shows "get_slice ds source =
    Some (if ds = [] then source
          else concat (map (\<lambda>(a, b). take (unat b - unat a) (drop (unat a) source)) (fitting source ds)))"
proof (cases "ds = []")
  case False
  let ?small = "filter (\<lambda>(a, b). unat b < length source) ds"
  have "slices_ok ?small"
    using assms(1) by (auto simp: slices_ok_def list_all_iff intro: sorted_wrt_filter)
  then have "sum_list (map (\<lambda>(a, b). unat (b - a)) ?small) \<le> length source - 0"
    by (intro disjoint_sum_le) auto
  moreover have "unat (sum_list (map (\<lambda>(a, b). b - a) ?small)) \<le>
      sum_list (map (\<lambda>(a, b). unat (b - a)) ?small)"
    using unat_sum_le [of "map (\<lambda>(a, b). b - a) ?small"] by (simp add: comp_def split_def)
  ultimately have "unat (sum_list (map (\<lambda>(a, b). b - a) ?small)) \<le> isize_MAX"
    using assms(2) by (simp add: isize_MAX_def)
  with False assms(1) show ?thesis
    by (simp add: get_slice_def Let_def copy_slices_ok slices_ok_def)
qed (simp add: get_slice_def)

lemma get_slice_len_ok:
  assumes "slices_ok ds" "length source < 2 ^ 63"
  shows "get_slice_len ds source = map_option length (get_slice ds source)"
  using get_slice_ok [OF assms] assms(1)
  by (auto simp: get_slice_len_def slices_len_copy copy_slices_ok slices_ok_def)

end
