(* ===== verification/Event_Filters.thy ===== *)
theory Event_Filters
  imports Filtered_Update
begin

text \<open>
  The filters of \<^verbatim>\<open>plugin/filter/filter.rs\<close> on slots, transactions, deshredded transactions, entries,
  blocks and block metadata. Each component has its constructor from the request (limits, names,
  decoding) and its matcher. Transaction matching fills two caches of the message; the model threads the
  message through and returns it. A hash map built by a constructor keeps the insertion order here;
  no property depends on it.
\<close>

section \<open>Hybrid sets\<close>

record HybridSet =
  hs_vec :: "pubkey list"
  hs_set :: "pubkey hset"

definition new_with_set :: "pubkey hset \<Rightarrow> HybridSet" where
  "new_with_set s = \<lparr>hs_vec = s, hs_set = s\<rparr>"

definition hs_is_empty :: "HybridSet \<Rightarrow> bool" where
  "hs_is_empty h \<longleftrightarrow> hs_vec h = []"

definition overlaps :: "HybridSet \<Rightarrow> nat \<Rightarrow> (pubkey \<Rightarrow> bool) \<Rightarrow> pubkey list \<Rightarrow> bool" where
  "overlaps h other_len contains_other other =
     (if length (hs_vec h) \<le> other_len then list_ex contains_other (hs_vec h)
      else list_ex (\<lambda>k. k \<in> set (hs_set h)) other)"

definition hmap_of :: "('k \<times> 'v) list \<Rightarrow> ('k, 'v) hmap" where
  "hmap_of xs = foldl (\<lambda>m (k, v). hmap_insert k v m) [] xs"

section \<open>Slots\<close>

record FilterSlotsInner =
  fsi_filter_by_commitment :: bool
  fsi_interslot_updates :: bool

definition FilterSlotsInner_new :: "SubscribeRequestFilterSlots \<Rightarrow> FilterSlotsInner" where
  "FilterSlotsInner_new f =
     \<lparr>fsi_filter_by_commitment = (case fs_filter_by_commitment f of None \<Rightarrow> False | Some b \<Rightarrow> b),
      fsi_interslot_updates = (case fs_interslot_updates f of None \<Rightarrow> False | Some b \<Rightarrow> b)\<rparr>"

type_synonym FilterSlots = "(FilterName, FilterSlotsInner) hmap"

definition slot_filter_from ::
  "string \<times> SubscribeRequestFilterSlots \<Rightarrow> (FilterNames, FilterError, FilterName \<times> FilterSlotsInner) sres" where
  "slot_filter_from nf =
     (case nf of (name, f) \<Rightarrow> st_bind (filter_name name) (\<lambda>n. st_return (n, FilterSlotsInner_new f)))"

definition FilterSlots_new ::
  "(string, SubscribeRequestFilterSlots) hmap \<Rightarrow> nat \<Rightarrow> (FilterNames, FilterError, FilterSlots) sres" where
  "FilterSlots_new configs mx =
     st_bind (st_lift (check_max (length configs) mx)) (\<lambda>_.
     st_bind (st_map slot_filter_from configs) (\<lambda>fs. st_return (hmap_of fs)))"

definition slot_filter_passes :: "MessageSlot \<Rightarrow> CommitmentLevel option \<Rightarrow> FilterSlotsInner \<Rightarrow> bool" where
  "slot_filter_passes m commitment inner \<longleftrightarrow>
     (\<not> fsi_filter_by_commitment inner \<or>
      (case commitment of None \<Rightarrow> False | Some c \<Rightarrow> commitment_eq_status c (sl_status m))) \<and>
     (fsi_interslot_updates inner \<or> sl_status m \<in> {SProcessed, SConfirmed, SFinalized})"

definition FilterSlots_get_updates ::
  "FilterSlots \<Rightarrow> MessageSlot \<Rightarrow> CommitmentLevel option \<Rightarrow> FilteredUpdate list" where
  "FilterSlots_get_updates fs m commitment =
     filtered_updates_once
       (map fst (filter (\<lambda>(name, inner). slot_filter_passes m commitment inner) fs))
       (FSlot m) (sl_created_at m)"

section \<open>Transactions\<close>

datatype FilterTransactionsType = TxTransaction | TxTransactionStatus

datatype TokenAccountsMode = TokAll | TokBalanceChanged

definition mode_from_proto :: "i32 \<Rightarrow> TokenAccountsMode FilterResult" where
  "mode_from_proto v =
     (if v = 0 then Inr TokAll else if v = 1 then Inr TokBalanceChanged else Inl (InvalidTokenAccountsMode v))"

record FilterTransactionsInner =
  fti_vote :: "bool option"
  fti_failed :: "bool option"
  fti_signature :: "signature option"
  fti_account_include :: HybridSet
  fti_account_exclude :: HybridSet
  fti_account_required :: "pubkey list"
  fti_account_cuckoo :: "CuckooFilter option"
  fti_token_accounts :: "TokenAccountsMode option"

record FilterTransactions =
  ftx_filter_type :: FilterTransactionsType
  ftx_filters :: "(FilterName \<times> FilterTransactionsInner) list"

text \<open>\<open>option.map(f).transpose()?\<close>\<close>

definition transpose_result :: "('a \<Rightarrow> 'b FilterResult) \<Rightarrow> 'a option \<Rightarrow> 'b option FilterResult" where
  "transpose_result f v =
     (case v of None \<Rightarrow> Inr None | Some x \<Rightarrow> (case f x of Inl e \<Rightarrow> Inl e | Inr y \<Rightarrow> Inr (Some y)))"

definition cuckoo_from :: "ProtoCuckooFilter option \<Rightarrow> nat \<Rightarrow> CuckooFilter option FilterResult" where
  "cuckoo_from p max_size =
     transpose_result (\<lambda>p. case check_max (length (pc_data p)) max_size of
                             Inl e \<Rightarrow> Inl e | Inr _ \<Rightarrow> Inr (filter_from_proto p)) p"

definition signature_from :: "externs \<Rightarrow> string \<Rightarrow> signature FilterResult" where
  "signature_from X s = (case ex_signature X s of None \<Rightarrow> Inl InvalidSignature | Some sig \<Rightarrow> Inr sig)"

definition tx_filter_from ::
  "externs \<Rightarrow> FilterLimitsTransactions \<Rightarrow> string \<times> SubscribeRequestFilterTransactions
   \<Rightarrow> (FilterNames, FilterError, FilterName \<times> FilterTransactionsInner) sres" where
  "tx_filter_from X limits nf =
     (case nf of (name, f) \<Rightarrow>
        st_bind (st_lift (check_any
          (ft_vote f = None \<and> ft_failed f = None \<and> ft_account_include f = [] \<and>
           ft_cuckoo_account_include f = None \<and> ft_account_exclude f = [] \<and> ft_account_required f = [] \<and>
           ft_token_accounts f = None) (lt_any limits))) (\<lambda>_.
        st_bind (st_lift (check_pubkey_max (length (ft_account_include f)) (lt_account_include_max limits))) (\<lambda>_.
        st_bind (st_lift (check_pubkey_max (length (ft_account_exclude f)) (lt_account_exclude_max limits))) (\<lambda>_.
        st_bind (st_lift (check_pubkey_max (length (ft_account_required f)) (lt_account_required_max limits))) (\<lambda>_.
        st_bind (st_lift (cuckoo_from (ft_cuckoo_account_include f) (lt_cuckoo_max_size limits))) (\<lambda>cuckoo.
        st_bind (filter_name name) (\<lambda>n.
        st_bind (st_lift (transpose_result (signature_from X) (ft_signature f))) (\<lambda>sig.
        st_bind (st_lift (decode_pubkeys_into_set X (ft_account_include f) (lt_account_include_reject limits))) (\<lambda>inc.
        st_bind (st_lift (decode_pubkeys_into_set X (ft_account_exclude f) [])) (\<lambda>exc.
        st_bind (st_lift (decode_pubkeys_into_set X (ft_account_required f) [])) (\<lambda>req.
        st_bind (st_lift (transpose_result mode_from_proto (ft_token_accounts f))) (\<lambda>mode.
        st_return (n, \<lparr>fti_vote = ft_vote f, fti_failed = ft_failed f, fti_signature = sig,
          fti_account_include = new_with_set inc, fti_account_exclude = new_with_set exc,
          fti_account_required = req, fti_account_cuckoo = cuckoo, fti_token_accounts = mode\<rparr>)))))))))))))"

definition FilterTransactions_new ::
  "externs \<Rightarrow> (string, SubscribeRequestFilterTransactions) hmap \<Rightarrow> FilterLimitsTransactions
   \<Rightarrow> FilterTransactionsType \<Rightarrow> (FilterNames, FilterError, FilterTransactions) sres" where
  "FilterTransactions_new X configs limits ty =
     st_bind (st_lift (check_max (length configs) (lt_max limits))) (\<lambda>_.
     st_bind (st_map (tx_filter_from X limits) configs) (\<lambda>fs.
     st_return \<lparr>ftx_filter_type = ty, ftx_filters = hmap_of fs\<rparr>))"

subsection \<open>Token balances\<close>

definition parse_token_balance_owner :: "externs \<Rightarrow> TokenBalance \<Rightarrow> pubkey option" where
  "parse_token_balance_owner X b = ex_pubkey X (tb_owner b)"

definition token_balance_amount :: "TokenBalance \<Rightarrow> string" where
  "token_balance_amount b = (case tb_ui_token_amount b of None \<Rightarrow> '''' | Some a \<Rightarrow> ua_amount a)"

definition owners_in_any_balance :: "externs \<Rightarrow> TransactionStatusMeta \<Rightarrow> pubkey hset" where
  "owners_in_any_balance X meta =
     hset_of [] (List.map_filter (parse_token_balance_owner X)
       (ts_pre_token_balances meta @ ts_post_token_balances meta))"

fun index_pre_token_balances ::
  "externs \<Rightarrow> (u32, pubkey \<times> string) hmap \<Rightarrow> TokenBalance list \<Rightarrow> (u32, pubkey \<times> string) hmap" where
  "index_pre_token_balances X m [] = m"
| "index_pre_token_balances X m (b # bs) =
     index_pre_token_balances X
       (case parse_token_balance_owner X b of
          None \<Rightarrow> m
        | Some pk \<Rightarrow> hmap_insert (tb_account_index b) (pk, token_balance_amount b) m) bs"

fun post_changes ::
  "externs \<Rightarrow> (u32, pubkey \<times> string) hmap \<Rightarrow> pubkey hset \<times> u32 hset \<Rightarrow> TokenBalance list
   \<Rightarrow> pubkey hset \<times> u32 hset" where
  "post_changes X pre st [] = st"
| "post_changes X pre (changed, seen) (b # bs) =
     (case parse_token_balance_owner X b of
        None \<Rightarrow> post_changes X pre (changed, seen) bs
      | Some pk \<Rightarrow>
          (let differs = (case map_of pre (tb_account_index b) of
                            Some (_, pre_amount) \<Rightarrow> pre_amount \<noteq> token_balance_amount b
                          | None \<Rightarrow> True)
           in post_changes X pre
                (if differs then hset_insert pk changed else changed,
                 hset_insert (tb_account_index b) seen) bs))"

definition owners_with_changed_balance :: "externs \<Rightarrow> TransactionStatusMeta \<Rightarrow> pubkey hset" where
  "owners_with_changed_balance X meta =
     (let pre = index_pre_token_balances X [] (ts_pre_token_balances meta) in
      case post_changes X pre ([], []) (ts_post_token_balances meta) of
        (changed, seen) \<Rightarrow>
          hset_of changed (map (\<lambda>(i, pk, _). pk) (filter (\<lambda>(i, _). i \<notin> set seen) pre)))"

subsection \<open>Matching\<close>

text \<open>\<open>get_or_init\<close> on the cache of the configured mode.\<close>

definition tx_token_owners ::
  "externs \<Rightarrow> TokenAccountsMode option \<Rightarrow> MessageTransactionInfo
   \<Rightarrow> pubkey hset option \<times> MessageTransactionInfo" where
  "tx_token_owners X mode tx =
     (case mode of
        None \<Rightarrow> (None, tx)
      | Some TokAll \<Rightarrow>
          (case ti_token_owners_all tx of
             Some s \<Rightarrow> (Some s, tx)
           | None \<Rightarrow> let s = owners_in_any_balance X (ti_meta tx)
                     in (Some s, tx\<lparr>ti_token_owners_all := Some s\<rparr>))
      | Some TokBalanceChanged \<Rightarrow>
          (case ti_token_owners_changed tx of
             Some s \<Rightarrow> (Some s, tx)
           | None \<Rightarrow> let s = owners_with_changed_balance X (ti_meta tx)
                     in (Some s, tx\<lparr>ti_token_owners_changed := Some s\<rparr>)))"

definition tx_match ::
  "externs \<Rightarrow> FilterTransactionsInner \<Rightarrow> MessageTransactionInfo \<Rightarrow> (bool \<times> MessageTransactionInfo) run" where
  "tx_match X inner tx =
     (if (case fti_vote inner of None \<Rightarrow> False | Some v \<Rightarrow> v \<noteq> ti_is_vote tx) then Some (False, tx)
      else if (case fti_failed inner of None \<Rightarrow> False | Some v \<Rightarrow> v \<noteq> (ts_err (ti_meta tx) \<noteq> None))
      then Some (False, tx)
      else if (case fti_signature inner of
                 None \<Rightarrow> False
               | Some sig \<Rightarrow> Some sig \<noteq> (case tr_signatures (ti_transaction tx) of [] \<Rightarrow> None | s # _ \<Rightarrow> Some s))
      then Some (False, tx)
      else case tx_token_owners X (fti_token_accounts inner) tx of (owners, tx') \<Rightarrow>
        (let owner_list = (case owners of None \<Rightarrow> [] | Some s \<Rightarrow> s);
             in_effective_set = (\<lambda>pk. pk \<in> set (ti_account_keys tx') \<or> pk \<in> set owner_list);
             effective_keys = ti_account_keys tx' @ owner_list;
             effective_len = length (ti_account_keys tx') + length owner_list
         in if \<not> list_all in_effective_set (fti_account_required inner) then Some (False, tx')
            else do {
              included \<leftarrow>
                (if hs_is_empty (fti_account_include inner) \<and> fti_account_cuckoo inner = None then Some True
                 else if \<not> hs_is_empty (fti_account_include inner) \<and>
                         overlaps (fti_account_include inner) effective_len in_effective_set effective_keys
                 then Some True
                 else (case fti_account_cuckoo inner of
                         None \<Rightarrow> Some False
                       | Some c \<Rightarrow> any_run (cf_contains (ex_sip X) c) effective_keys));
              Some (included \<and>
                    \<not> (\<not> hs_is_empty (fti_account_exclude inner) \<and>
                       overlaps (fti_account_exclude inner) effective_len in_effective_set effective_keys),
                    tx')
            }))"

fun tx_filters ::
  "externs \<Rightarrow> (FilterName \<times> FilterTransactionsInner) list \<Rightarrow> MessageTransactionInfo
   \<Rightarrow> (FilterName list \<times> MessageTransactionInfo) run" where
  "tx_filters X [] tx = Some ([], tx)"
| "tx_filters X ((name, inner) # fs) tx =
     do {
       (b, tx1) \<leftarrow> tx_match X inner tx;
       (ns, tx2) \<leftarrow> tx_filters X fs tx1;
       Some (if b then name # ns else ns, tx2)
     }"

definition FilterTransactions_get_updates ::
  "externs \<Rightarrow> FilterTransactions \<Rightarrow> MessageTransaction \<Rightarrow> (FilteredUpdate list \<times> MessageTransaction) run" where
  "FilterTransactions_get_updates X ft m =
     do {
       (ns, tx) \<leftarrow> tx_filters X (ftx_filters ft) (mt_transaction m);
       let m' = m\<lparr>mt_transaction := tx\<rparr>;
       Some (filtered_updates_once ns
               (case ftx_filter_type ft of
                  TxTransaction \<Rightarrow> oneof_transaction m' | TxTransactionStatus \<Rightarrow> FTransactionStatus m')
               (mt_created_at m), m')
     }"

section \<open>Deshredded transactions\<close>

record FilterDeshredTransactionsInner =
  fdi_vote :: "bool option"
  fdi_account_include :: "pubkey hset"
  fdi_account_exclude :: "pubkey hset"
  fdi_account_required :: "pubkey hset"

type_synonym FilterDeshredTransactions = "(FilterName, FilterDeshredTransactionsInner) hmap"

definition deshred_filter_from ::
  "externs \<Rightarrow> FilterLimitsDeshredTransactions \<Rightarrow> string \<times> SubscribeRequestFilterDeshredTransactions
   \<Rightarrow> (FilterNames, FilterError, FilterName \<times> FilterDeshredTransactionsInner) sres" where
  "deshred_filter_from X limits nf =
     (case nf of (name, f) \<Rightarrow>
        st_bind (st_lift (check_any
          (fd_vote f = None \<and> fd_account_include f = [] \<and> fd_account_exclude f = [] \<and> fd_account_required f = [])
          (ld_any limits))) (\<lambda>_.
        st_bind (st_lift (check_pubkey_max (length (fd_account_include f)) (ld_account_include_max limits))) (\<lambda>_.
        st_bind (st_lift (check_pubkey_max (length (fd_account_exclude f)) (ld_account_exclude_max limits))) (\<lambda>_.
        st_bind (st_lift (check_pubkey_max (length (fd_account_required f)) (ld_account_required_max limits))) (\<lambda>_.
        st_bind (filter_name name) (\<lambda>n.
        st_bind (st_lift (decode_pubkeys_into_set X (fd_account_include f) (ld_account_include_reject limits))) (\<lambda>inc.
        st_bind (st_lift (decode_pubkeys_into_set X (fd_account_exclude f) [])) (\<lambda>exc.
        st_bind (st_lift (decode_pubkeys_into_set X (fd_account_required f) [])) (\<lambda>req.
        st_return (n, \<lparr>fdi_vote = fd_vote f, fdi_account_include = inc, fdi_account_exclude = exc,
          fdi_account_required = req\<rparr>))))))))))"

definition FilterDeshredTransactions_new ::
  "externs \<Rightarrow> (string, SubscribeRequestFilterDeshredTransactions) hmap \<Rightarrow> FilterLimitsDeshredTransactions
   \<Rightarrow> (FilterNames, FilterError, FilterDeshredTransactions) sres" where
  "FilterDeshredTransactions_new X configs limits =
     st_bind (st_lift (check_max (length configs) (ld_max limits))) (\<lambda>_.
     st_bind (st_map (deshred_filter_from X limits) configs) (\<lambda>fs. st_return (hmap_of fs)))"

definition deshred_match :: "FilterDeshredTransactionsInner \<Rightarrow> MessageDeshredTransactionInfo \<Rightarrow> bool" where
  "deshred_match inner tx =
     (if (case fdi_vote inner of None \<Rightarrow> False | Some v \<Rightarrow> v \<noteq> dti_is_vote tx) then False
      else if fdi_account_include inner \<noteq> [] \<and>
              \<not> list_ex (\<lambda>k. k \<in> set (fdi_account_include inner)) (all_account_keys tx) then False
      else if fdi_account_exclude inner \<noteq> [] \<and>
              list_ex (\<lambda>k. k \<in> set (fdi_account_exclude inner)) (all_account_keys tx) then False
      else if fdi_account_required inner \<noteq> [] \<and>
              \<not> list_all (\<lambda>k. k \<in> set (hset_of [] (all_account_keys tx))) (fdi_account_required inner) then False
      else True)"

definition FilterDeshredTransactions_get_updates ::
  "FilterDeshredTransactions \<Rightarrow> MessageDeshredTransaction \<Rightarrow> FilteredUpdateDeshred list" where
  "FilterDeshredTransactions_get_updates fs m =
     (let ns = map fst (filter (\<lambda>(name, inner). deshred_match inner (md_transaction m)) fs)
      in if ns = [] then [] else [FilteredUpdateDeshred_new ns (DDeshredTransaction m) (md_created_at m)])"

section \<open>Entries and block metadata\<close>

text \<open>Both filters are the list of their names.\<close>

definition FilterNamesOnly_new ::
  "(string, unit) hmap \<Rightarrow> nat \<Rightarrow> (FilterNames, FilterError, FilterName list) sres" where
  "FilterNamesOnly_new configs mx =
     st_bind (st_lift (check_max (length configs) mx)) (\<lambda>_. st_map filter_name (map fst configs))"

definition FilterEntries_get_updates :: "FilterName list \<Rightarrow> MessageEntry \<Rightarrow> FilteredUpdate list" where
  "FilterEntries_get_updates fs m = filtered_updates_once fs (FEntry m) (en_created_at m)"

definition FilterBlocksMeta_get_updates :: "FilterName list \<Rightarrow> MessageBlockMeta \<Rightarrow> FilteredUpdate list" where
  "FilterBlocksMeta_get_updates fs m = filtered_updates_once fs (FBlockMeta m) (bm_created_at m)"

section \<open>Blocks\<close>

record FilterBlocksInner =
  fbi_account_include :: "pubkey hset"
  fbi_account_cuckoo :: "CuckooFilter option"
  fbi_include_transactions :: "bool option"
  fbi_include_accounts :: "bool option"
  fbi_include_entries :: "bool option"

type_synonym FilterBlocks = "(FilterName, FilterBlocksInner) hmap"

definition blocks_filter_from ::
  "externs \<Rightarrow> FilterLimitsBlocks \<Rightarrow> string \<times> SubscribeRequestFilterBlocks
   \<Rightarrow> (FilterNames, FilterError, FilterName \<times> FilterBlocksInner) sres" where
  "blocks_filter_from X limits nf =
     (case nf of (name, f) \<Rightarrow>
        st_bind (st_lift (check_any (fb_account_include f = []) (lb_account_include_any limits))) (\<lambda>_.
        st_bind (st_lift (check_pubkey_max (length (fb_account_include f)) (lb_account_include_max limits))) (\<lambda>_.
        st_bind (st_lift (if \<not> (fb_include_transactions f = Some False \<or> lb_include_transactions limits)
                          then Inl (CreateBlocksNotAllowed ''transactions'') else Inr ())) (\<lambda>_.
        st_bind (st_lift (if \<not> (fb_include_accounts f \<in> {None, Some False} \<or> lb_include_accounts limits)
                          then Inl (CreateBlocksNotAllowed ''accounts'') else Inr ())) (\<lambda>_.
        st_bind (st_lift (if \<not> (fb_include_entries f \<in> {None, Some False} \<or> lb_include_accounts limits)
                          then Inl (CreateBlocksNotAllowed ''entries'') else Inr ())) (\<lambda>_.
        st_bind (st_lift (cuckoo_from (fb_cuckoo_account_include f) (lb_cuckoo_max_size limits))) (\<lambda>cuckoo.
        st_bind (filter_name name) (\<lambda>n.
        st_bind (st_lift (decode_pubkeys_into_set X (fb_account_include f) (lb_account_include_reject limits))) (\<lambda>inc.
        st_return (n, \<lparr>fbi_account_include = inc, fbi_account_cuckoo = cuckoo,
          fbi_include_transactions = fb_include_transactions f,
          fbi_include_accounts = fb_include_accounts f,
          fbi_include_entries = fb_include_entries f\<rparr>))))))))))"

definition FilterBlocks_new ::
  "externs \<Rightarrow> (string, SubscribeRequestFilterBlocks) hmap \<Rightarrow> FilterLimitsBlocks
   \<Rightarrow> (FilterNames, FilterError, FilterBlocks) sres" where
  "FilterBlocks_new X configs limits =
     st_bind (st_lift (check_max (length configs) (lb_max limits))) (\<lambda>_.
     st_bind (st_map (blocks_filter_from X limits) configs) (\<lambda>fs. st_return (hmap_of fs)))"

definition matches_account :: "externs \<Rightarrow> FilterBlocksInner \<Rightarrow> pubkey \<Rightarrow> bool run" where
  "matches_account X inner pk =
     (if fbi_account_include inner = [] \<and> fbi_account_cuckoo inner = None then Some True
      else if pk \<in> set (fbi_account_include inner) then Some True
      else (case fbi_account_cuckoo inner of None \<Rightarrow> Some False | Some c \<Rightarrow> cf_contains (ex_sip X) c pk))"

definition matches_any_in_set :: "externs \<Rightarrow> FilterBlocksInner \<Rightarrow> pubkey hset \<Rightarrow> bool run" where
  "matches_any_in_set X inner keys =
     (if fbi_account_include inner = [] \<and> fbi_account_cuckoo inner = None then Some True
      else if (if length (fbi_account_include inner) \<le> length keys
               then list_ex (\<lambda>pk. pk \<in> set keys) (fbi_account_include inner)
               else list_ex (\<lambda>pk. pk \<in> set (fbi_account_include inner)) keys)
      then Some True
      else (case fbi_account_cuckoo inner of
              None \<Rightarrow> Some False | Some c \<Rightarrow> any_run (cf_contains (ex_sip X) c) keys))"

definition keep_if :: "('a \<Rightarrow> bool run) \<Rightarrow> 'a \<Rightarrow> 'a option run" where
  "keep_if P x = do { b \<leftarrow> P x; Some (if b then Some x else None) }"

definition block_update ::
  "externs \<Rightarrow> MessageBlock \<Rightarrow> FilterAccountsDataSlice \<Rightarrow> FilterName \<times> FilterBlocksInner \<Rightarrow> FilteredUpdate run" where
  "block_update X m ds nf =
     (case nf of (name, inner) \<Rightarrow>
        do {
          transactions \<leftarrow>
            (if fbi_include_transactions inner \<in> {None, Some True}
             then filter_map_run (keep_if (\<lambda>tx. matches_any_in_set X inner (ti_account_keys (mt_transaction tx))))
                    (mb_transactions m)
             else Some []);
          accounts \<leftarrow>
            (if fbi_include_accounts inner = Some True
             then filter_map_run (keep_if (\<lambda>acc. matches_account X inner (ai_pubkey (ac_account acc))))
                    (mb_accounts m)
             else Some []);
          let entries = (if fbi_include_entries inner = Some True then mb_entries m else []);
          Some (FilteredUpdate_new [name]
            (FBlock \<lparr>fub_meta = mb_meta m, fub_transactions = transactions,
              fub_updated_account_count = mb_updated_account_count m, fub_accounts = accounts,
              fub_accounts_data_slice = ds, fub_entries = entries\<rparr>)
            (mb_created_at m))
        })"

definition FilterBlocks_get_updates ::
  "externs \<Rightarrow> FilterBlocks \<Rightarrow> MessageBlock \<Rightarrow> FilterAccountsDataSlice \<Rightarrow> FilteredUpdate list run" where
  "FilterBlocks_get_updates X fs m ds = map_run (block_update X m ds) fs"

end
