(* ===== verification/Event_Claims.thy ===== *)
theory Event_Claims
  imports Event_Filters
begin

text \<open>
  What the transaction, block, deshred and slot subscriptions promise, stated on the request, and what
  the data slices do to account data.
\<close>

section \<open>Specifications\<close>

text \<open>The keys a transaction filter sees: the account keys and, with token-account expansion, the owners
  of token balances.\<close>

definition effective_set ::
  "externs \<Rightarrow> MessageTransactionInfo \<Rightarrow> SubscribeRequestFilterTransactions \<Rightarrow> pubkey set" where
  "effective_set X tx f =
     set (ti_account_keys tx) \<union>
     (case ft_token_accounts f of
        None \<Rightarrow> {}
      | Some v \<Rightarrow> if v = 0 then set (owners_in_any_balance X (ti_meta tx))
                  else set (owners_with_changed_balance X (ti_meta tx)))"

definition names_key :: "externs \<Rightarrow> pubkey set \<Rightarrow> string \<Rightarrow> bool" where
  "names_key X E v \<longleftrightarrow> (\<exists>pk \<in> E. ex_pubkey X v = Some pk)"

definition tx_config_matches ::
  "externs \<Rightarrow> MessageTransactionInfo \<Rightarrow> SubscribeRequestFilterTransactions \<Rightarrow> bool" where
  "tx_config_matches X tx f \<longleftrightarrow>
     (\<forall>v. ft_vote f = Some v \<longrightarrow> v = ti_is_vote tx) \<and>
     (\<forall>v. ft_failed f = Some v \<longrightarrow> v = (ts_err (ti_meta tx) \<noteq> None)) \<and>
     (\<forall>s. ft_signature f = Some s \<longrightarrow>
        (\<exists>sig rest. ex_signature X s = Some sig \<and> tr_signatures (ti_transaction tx) = sig # rest)) \<and>
     (\<forall>v \<in> set (ft_account_required f). names_key X (effective_set X tx f) v) \<and>
     (ft_account_include f = [] \<and> ft_cuckoo_account_include f = None \<or>
      (\<exists>v \<in> set (ft_account_include f). names_key X (effective_set X tx f) v) \<or>
      (\<exists>p. ft_cuckoo_account_include f = Some p \<and>
         (\<exists>pk \<in> effective_set X tx f. cf_contains (ex_sip X) (filter_from_proto p) pk = Some True))) \<and>
     \<not> (\<exists>v \<in> set (ft_account_exclude f). names_key X (effective_set X tx f) v)"

text \<open>The caches of a message hold what they are meant to hold.\<close>

definition caches_ok :: "externs \<Rightarrow> MessageTransactionInfo \<Rightarrow> bool" where
  "caches_ok X tx \<longleftrightarrow>
     ti_token_owners_all tx \<in> {None, Some (owners_in_any_balance X (ti_meta tx))} \<and>
     ti_token_owners_changed tx \<in> {None, Some (owners_with_changed_balance X (ti_meta tx))}"

definition same_tx :: "MessageTransactionInfo \<Rightarrow> MessageTransactionInfo \<Rightarrow> bool" where
  "same_tx a b \<longleftrightarrow>
     a\<lparr>ti_token_owners_all := None, ti_token_owners_changed := None\<rparr> =
     b\<lparr>ti_token_owners_all := None, ti_token_owners_changed := None\<rparr>"

section \<open>Hash maps of filters\<close>

lemma hmap_insert_new: "k \<notin> fst ` set m \<Longrightarrow> hmap_insert k v m = m @ [(k, v)]"
  by (induction m) auto

lemma hmap_of_distinct:
  assumes "distinct (map fst xs)"
  shows "hmap_of xs = xs"
proof -
  have "foldl (\<lambda>m (k, v). hmap_insert k v m) ys xs = ys @ xs" if "distinct (map fst (ys @ xs))" for ys
    using that
  proof (induction xs arbitrary: ys)
    case (Cons x xs)
    obtain k v where x: "x = (k, v)" by (cases x)
    have "k \<notin> fst ` set ys" using Cons.prems x by auto
    with Cons.IH [of "ys @ [(k, v)]"] Cons.prems x show ?case by (simp add: hmap_insert_new)
  qed simp
  from this [of "[]"] assms show ?thesis by (simp add: hmap_of_def)
qed

section \<open>Token balances\<close>

lemma set_map_filter: "set (List.map_filter f xs) = {y. \<exists>x \<in> set xs. f x = Some y}"
  by (induction xs) (auto simp: List.map_filter_def split: option.splits)

lemma owners_in_any_balance_set:
  "set (owners_in_any_balance X meta) =
     {pk. \<exists>b \<in> set (ts_pre_token_balances meta) \<union> set (ts_post_token_balances meta).
        ex_pubkey X (tb_owner b) = Some pk}"
  by (auto simp: owners_in_any_balance_def set_map_filter parse_token_balance_owner_def)

text \<open>The last readable balance of an account index.\<close>

definition last_balance :: "externs \<Rightarrow> TokenBalance list \<Rightarrow> u32 \<Rightarrow> (pubkey \<times> string) option" where
  "last_balance X bs i =
     (case filter (\<lambda>b. tb_account_index b = i \<and> ex_pubkey X (tb_owner b) \<noteq> None) (rev bs) of
        [] \<Rightarrow> None
      | b # _ \<Rightarrow> Some (the (ex_pubkey X (tb_owner b)), token_balance_amount b))"

lemma index_pre_last:
  "map_of (index_pre_token_balances X m bs) i =
     (case last_balance X bs i of None \<Rightarrow> map_of m i | Some r \<Rightarrow> Some r)"
proof (induction bs arbitrary: m)
  case Nil
  then show ?case by (simp add: last_balance_def)
next
  case (Cons b bs)
  have "last_balance X (b # bs) i =
      (case last_balance X bs i of
         Some r \<Rightarrow> Some r
       | None \<Rightarrow> if tb_account_index b = i \<and> ex_pubkey X (tb_owner b) \<noteq> None
                then Some (the (ex_pubkey X (tb_owner b)), token_balance_amount b) else None)"
    by (auto simp: last_balance_def split: list.splits)
  with Cons show ?case
    by (auto simp: parse_token_balance_owner_def split: option.splits)
qed

lemma post_changes_sets:
  assumes "post_changes X pre (changed, seen) bs = (c, s)"
  shows "set c = set changed \<union> {pk. \<exists>b \<in> set bs. ex_pubkey X (tb_owner b) = Some pk \<and>
      map_option snd (map_of pre (tb_account_index b)) \<noteq> Some (token_balance_amount b)} \<and>
    set s = set seen \<union> {tb_account_index b | b. b \<in> set bs \<and> ex_pubkey X (tb_owner b) \<noteq> None}"
  using assms
proof (induction bs arbitrary: changed seen)
  case (Cons b bs)
  show ?case
  proof (cases "ex_pubkey X (tb_owner b)")
    case None
    with Cons.prems have "post_changes X pre (changed, seen) bs = (c, s)"
      by (simp add: parse_token_balance_owner_def)
    from Cons.IH [OF this] None show ?thesis by auto
  next
    case (Some pk)
    let ?d = "map_option snd (map_of pre (tb_account_index b)) \<noteq> Some (token_balance_amount b)"
    have d: "(case map_of pre (tb_account_index b) of
         Some (_, pre_amount) \<Rightarrow> pre_amount \<noteq> token_balance_amount b | None \<Rightarrow> True) = ?d"
      by (auto split: option.splits)
    have "post_changes X pre (if ?d then hset_insert pk changed else changed,
        hset_insert (tb_account_index b) seen) bs = (c, s)"
      using Cons.prems Some d by (simp add: parse_token_balance_owner_def Let_def)
    from Cons.IH [OF this] Some show ?thesis by auto
  qed
qed simp

lemma index_pre_distinct: "distinct (map fst m) \<Longrightarrow> distinct (map fst (index_pre_token_balances X m bs))"
  by (induction bs arbitrary: m) (auto split: option.splits)

lemma owners_changed_set:
  "set (owners_with_changed_balance X meta) =
     {pk. \<exists>b \<in> set (ts_post_token_balances meta). ex_pubkey X (tb_owner b) = Some pk \<and>
        map_option snd (last_balance X (ts_pre_token_balances meta) (tb_account_index b))
          \<noteq> Some (token_balance_amount b)} \<union>
     {pk. \<exists>i amount. last_balance X (ts_pre_token_balances meta) i = Some (pk, amount) \<and>
        (\<forall>b \<in> set (ts_post_token_balances meta). tb_account_index b = i \<longrightarrow> ex_pubkey X (tb_owner b) = None)}"
proof -
  let ?pre = "index_pre_token_balances X [] (ts_pre_token_balances meta)"
  obtain c s where cs: "post_changes X ?pre ([], []) (ts_post_token_balances meta) = (c, s)" by fastforce
  have look: "map_of ?pre i = last_balance X (ts_pre_token_balances meta) i" for i
    by (simp add: index_pre_last split: option.splits)
  have dist: "distinct (map fst ?pre)" by (simp add: index_pre_distinct)
  have mem: "(i, r) \<in> set ?pre \<longleftrightarrow> last_balance X (ts_pre_token_balances meta) i = Some r" for i r
    using look [of i] map_of_eq_Some_iff [OF dist] by metis
  have closed: "pk \<in> set (map (\<lambda>(i, pk, _). pk) (filter (\<lambda>(i, _). i \<notin> set s) ?pre)) \<longleftrightarrow>
      (\<exists>i amount. last_balance X (ts_pre_token_balances meta) i = Some (pk, amount) \<and> i \<notin> set s)" for pk
    by (auto simp: mem [symmetric]) force
  have "set (owners_with_changed_balance X meta) =
      set c \<union> set (map (\<lambda>(i, pk, _). pk) (filter (\<lambda>(i, _). i \<notin> set s) ?pre))"
    by (simp add: owners_with_changed_balance_def Let_def cs)
  also have "\<dots> = set c \<union> {pk. \<exists>i amount. last_balance X (ts_pre_token_balances meta) i = Some (pk, amount)
      \<and> i \<notin> set s}"
    using closed by blast
  finally show ?thesis
    using post_changes_sets [OF cs] by (auto simp: look)
qed

text \<open>The owners the mode \<open>BALANCE_CHANGED\<close> stands for.\<close>

definition changed_owner :: "externs \<Rightarrow> TransactionStatusMeta \<Rightarrow> pubkey \<Rightarrow> bool" where
  "changed_owner X meta pk \<longleftrightarrow>
     list_ex (\<lambda>b. ex_pubkey X (tb_owner b) = Some pk \<and>
        map_option snd (last_balance X (ts_pre_token_balances meta) (tb_account_index b))
          \<noteq> Some (token_balance_amount b)) (ts_post_token_balances meta) \<or>
     (\<exists>i amount. last_balance X (ts_pre_token_balances meta) i = Some (pk, amount) \<and>
        list_all (\<lambda>b. tb_account_index b = i \<longrightarrow> ex_pubkey X (tb_owner b) = None) (ts_post_token_balances meta))"

section \<open>Matching a transaction\<close>

lemma overlaps_iff:
  assumes "\<And>k. contains k \<longleftrightarrow> k \<in> set other"
  shows "overlaps (new_with_set s) n contains other \<longleftrightarrow> set s \<inter> set other \<noteq> {}"
  using assms by (auto simp: overlaps_def new_with_set_def list_ex_iff)

lemma hs_is_empty_new [simp]: "hs_is_empty (new_with_set s) \<longleftrightarrow> s = []"
  by (simp add: hs_is_empty_def new_with_set_def)

definition owners_of :: "externs \<Rightarrow> TokenAccountsMode option \<Rightarrow> TransactionStatusMeta \<Rightarrow> pubkey hset" where
  "owners_of X mode meta =
     (case mode of
        None \<Rightarrow> []
      | Some TokAll \<Rightarrow> owners_in_any_balance X meta
      | Some TokBalanceChanged \<Rightarrow> owners_with_changed_balance X meta)"

lemma tx_token_owners_spec:
  assumes "caches_ok X tx"
  shows "\<exists>o' tx'. tx_token_owners X mode tx = (o', tx') \<and> caches_ok X tx' \<and> same_tx tx tx' \<and>
    (case o' of None \<Rightarrow> [] | Some s \<Rightarrow> s) = owners_of X mode (ti_meta tx)"
  using assms
  by (auto simp: tx_token_owners_def caches_ok_def same_tx_def owners_of_def Let_def
      split: option.splits TokenAccountsMode.splits)

lemma same_tx_fields:
  assumes "same_tx a b"
  shows "ti_account_keys b = ti_account_keys a" "ti_meta b = ti_meta a" "ti_is_vote b = ti_is_vote a"
    "ti_transaction b = ti_transaction a" "ti_signature b = ti_signature a" "ti_index b = ti_index a"
    "ti_pre_encoded b = ti_pre_encoded a"
  using assms unfolding same_tx_def by (cases a; cases b; simp)+

lemma same_tx_trans: "same_tx a b \<Longrightarrow> same_tx b c \<Longrightarrow> same_tx a c"
  by (simp add: same_tx_def)

definition tx_passes :: "externs \<Rightarrow> FilterTransactionsInner \<Rightarrow> MessageTransactionInfo \<Rightarrow> bool" where
  "tx_passes X inner tx \<longleftrightarrow>
     (let E = set (ti_account_keys tx) \<union> set (owners_of X (fti_token_accounts inner) (ti_meta tx)) in
      (\<forall>v. fti_vote inner = Some v \<longrightarrow> v = ti_is_vote tx) \<and>
      (\<forall>v. fti_failed inner = Some v \<longrightarrow> v = (ts_err (ti_meta tx) \<noteq> None)) \<and>
      (\<forall>sig. fti_signature inner = Some sig \<longrightarrow> (\<exists>rest. tr_signatures (ti_transaction tx) = sig # rest)) \<and>
      set (fti_account_required inner) \<subseteq> E \<and>
      (hs_is_empty (fti_account_include inner) \<and> fti_account_cuckoo inner = None \<or>
       set (hs_vec (fti_account_include inner)) \<inter> E \<noteq> {} \<or>
       (\<exists>c. fti_account_cuckoo inner = Some c \<and> (\<exists>pk \<in> E. cf_contains (ex_sip X) c pk = Some True))) \<and>
      set (hs_vec (fti_account_exclude inner)) \<inter> E = {})"

definition inner_wf :: "FilterTransactionsInner \<Rightarrow> bool" where
  "inner_wf inner \<longleftrightarrow>
     (\<exists>s. fti_account_include inner = new_with_set s) \<and> (\<exists>s. fti_account_exclude inner = new_with_set s) \<and>
     (\<forall>c. fti_account_cuckoo inner = Some c \<longrightarrow> cuckoo_wf c)"

lemma cuckoo_any_run:
  assumes "cuckoo_wf c"
  shows "any_run (cf_contains sip c) keys = Some (\<exists>pk \<in> set keys. cf_contains sip c pk = Some True)"
proof -
  have "any_run (cf_contains sip c) keys = Some (\<exists>pk \<in> set keys. item_key sip c pk \<in># content sip c)"
    by (rule any_run_Some) (rule cf_contains_spec [OF assms])
  then show ?thesis by (simp add: cf_contains_spec [OF assms])
qed

lemma tx_match_spec:
  assumes wf: "inner_wf inner" and caches: "caches_ok X tx"
  shows "\<exists>tx'. tx_match X inner tx = Some (tx_passes X inner tx, tx') \<and> caches_ok X tx' \<and> same_tx tx tx'"
proof (cases "(\<forall>v. fti_vote inner = Some v \<longrightarrow> v = ti_is_vote tx) \<and>
      (\<forall>v. fti_failed inner = Some v \<longrightarrow> v = (ts_err (ti_meta tx) \<noteq> None)) \<and>
      (\<forall>sig. fti_signature inner = Some sig \<longrightarrow> (\<exists>rest. tr_signatures (ti_transaction tx) = sig # rest))")
  case False
  then have "\<not> tx_passes X inner tx" by (auto simp: tx_passes_def Let_def)
  moreover have "tx_match X inner tx = Some (False, tx)"
    using False by (auto simp: tx_match_def split: option.splits list.splits)
  ultimately show ?thesis using caches by (simp add: same_tx_def)
next
  case True
  obtain o' tx' where own: "tx_token_owners X (fti_token_accounts inner) tx = (o', tx')"
    "caches_ok X tx'" "same_tx tx tx'"
    "(case o' of None \<Rightarrow> [] | Some s \<Rightarrow> s) = owners_of X (fti_token_accounts inner) (ti_meta tx)"
    using tx_token_owners_spec [OF caches] by blast
  obtain inc exc where sets: "fti_account_include inner = new_with_set inc"
      "fti_account_exclude inner = new_with_set exc"
    using wf by (auto simp: inner_wf_def)
  let ?O = "owners_of X (fti_token_accounts inner) (ti_meta tx)"
  let ?K = "ti_account_keys tx @ ?O"
  let ?in = "\<lambda>pk. pk \<in> set (ti_account_keys tx) \<or> pk \<in> set ?O"
  have ov: "overlaps (new_with_set s) n ?in ?K \<longleftrightarrow> set s \<inter> set ?K \<noteq> {}" for s n
    by (rule overlaps_iff) simp
  have guards: "\<not> (case fti_vote inner of None \<Rightarrow> False | Some v \<Rightarrow> v \<noteq> ti_is_vote tx)"
    "\<not> (case fti_failed inner of None \<Rightarrow> False | Some v \<Rightarrow> v \<noteq> (ts_err (ti_meta tx) \<noteq> None))"
    "\<not> (case fti_signature inner of
          None \<Rightarrow> False
        | Some sig \<Rightarrow> Some sig \<noteq> (case tr_signatures (ti_transaction tx) of [] \<Rightarrow> None | s # _ \<Rightarrow> Some s))"
    using True by (auto split: option.splits)
  have inc: "(if inc = [] \<and> fti_account_cuckoo inner = None then Some True
      else if inc \<noteq> [] \<and> set inc \<inter> set ?K \<noteq> {} then Some True
      else (case fti_account_cuckoo inner of
              None \<Rightarrow> Some False | Some c \<Rightarrow> any_run (cf_contains (ex_sip X) c) ?K)) =
      Some (inc = [] \<and> fti_account_cuckoo inner = None \<or> set inc \<inter> set ?K \<noteq> {} \<or>
        (\<exists>c. fti_account_cuckoo inner = Some c \<and> (\<exists>pk \<in> set ?K. cf_contains (ex_sip X) c pk = Some True)))"
  proof (cases "fti_account_cuckoo inner")
    case (Some c)
    with wf have "cuckoo_wf c" by (simp add: inner_wf_def)
    with Some show ?thesis by (auto simp: cuckoo_any_run)
  qed auto
  have passes: "tx_passes X inner tx \<longleftrightarrow> list_all ?in (fti_account_required inner) \<and>
      (inc = [] \<and> fti_account_cuckoo inner = None \<or> set inc \<inter> set ?K \<noteq> {} \<or>
        (\<exists>c. fti_account_cuckoo inner = Some c \<and> (\<exists>pk \<in> set ?K. cf_contains (ex_sip X) c pk = Some True))) \<and>
      \<not> (exc \<noteq> [] \<and> set exc \<inter> set ?K \<noteq> {})"
    using True unfolding tx_passes_def Let_def sets hs_is_empty_new
    by (auto simp: new_with_set_def list_all_iff)
  have "tx_match X inner tx = Some (tx_passes X inner tx, tx')"
    unfolding tx_match_def passes
    by (simp only: guards own(1) own(4) prod.case Let_def if_False same_tx_fields [OF own(3)] sets
        hs_is_empty_new ov inc) simp
  with own(2,3) show ?thesis by blast
qed

lemma tx_filters_spec:
  assumes "list_all (\<lambda>(n, inner). inner_wf inner) fs" "caches_ok X tx"
  shows "\<exists>tx'. tx_filters X fs tx = Some (map fst (filter (\<lambda>(n, inner). tx_passes X inner tx) fs), tx') \<and>
    caches_ok X tx' \<and> same_tx tx tx'"
  using assms
proof (induction fs arbitrary: tx)
  case Nil
  then show ?case by (simp add: same_tx_def)
next
  case (Cons nf fs)
  obtain n inner where nf: "nf = (n, inner)" by (cases nf)
  obtain tx1 where tx1: "tx_match X inner tx = Some (tx_passes X inner tx, tx1)" "caches_ok X tx1"
      "same_tx tx tx1"
    using tx_match_spec [of inner X tx] Cons.prems nf by auto
  obtain tx2 where tx2: "tx_filters X fs tx1 =
      Some (map fst (filter (\<lambda>(n, inner). tx_passes X inner tx1) fs), tx2)" "caches_ok X tx2" "same_tx tx1 tx2"
    using Cons.IH [of tx1] Cons.prems(1) tx1(2) by auto
  have "tx_passes X i tx1 = tx_passes X i tx" for i
    by (simp add: tx_passes_def same_tx_fields [OF tx1(3)])
  with tx1 tx2 nf show ?case by (auto intro: same_tx_trans)
qed

lemma transpose_result_Inr:
  "transpose_result f v = Inr r \<longleftrightarrow>
     (v = None \<and> r = None) \<or> (\<exists>x y. v = Some x \<and> f x = Inr y \<and> r = Some y)"
  by (auto simp: transpose_result_def split: option.splits sum.splits)

lemma cuckoo_from_Inr:
  "cuckoo_from p mx = Inr c \<Longrightarrow> c = map_option filter_from_proto p \<and>
     (\<forall>q. p = Some q \<longrightarrow> length (pc_data q) \<le> mx)"
  by (auto simp: cuckoo_from_def transpose_result_Inr check_max_def split: sum.splits if_splits)

definition tx_rel ::
  "externs \<Rightarrow> string \<times> SubscribeRequestFilterTransactions \<Rightarrow> FilterName \<times> FilterTransactionsInner \<Rightarrow> bool" where
  "tx_rel X nf ni \<longleftrightarrow> fst ni = fst nf \<and> inner_wf (snd ni) \<and>
     (\<forall>tx. tx_passes X (snd ni) tx = tx_config_matches X tx (snd nf))"

lemma names_key_decoded:
  assumes "decode_pubkeys_into_set X strs limit = Inr pks"
  shows "(\<exists>v \<in> set strs. names_key X E v) \<longleftrightarrow> set pks \<inter> E \<noteq> {}"
    "(\<forall>v \<in> set strs. names_key X E v) \<longleftrightarrow> set pks \<subseteq> E"
proof -
  note d = decode_pubkeys_Inr [OF assms]
  show "(\<exists>v \<in> set strs. names_key X E v) \<longleftrightarrow> set pks \<inter> E \<noteq> {}"
    unfolding d(1) names_key_def by auto
  show "(\<forall>v \<in> set strs. names_key X E v) \<longleftrightarrow> set pks \<subseteq> E"
    unfolding d(1) names_key_def using d(4) by fastforce
qed

lemma tx_filter_from_rel:
  assumes from_: "tx_filter_from X limits nf s = (Inr ni, s')"
    and ok: "\<forall>p. ft_cuckoo_account_include (snd nf) = Some p \<longrightarrow> length (pc_data p) < 2 ^ 63"
  shows "tx_rel X nf ni"
proof -
  obtain name f where nf: "nf = (name, f)" by (cases nf)
  from from_ obtain s1 sig inc exc req mode cuckoo n where
    n: "filter_name name s = (Inr n, s1)"
    and c: "cuckoo_from (ft_cuckoo_account_include f) (lt_cuckoo_max_size limits) = Inr cuckoo"
    and sig: "transpose_result (signature_from X) (ft_signature f) = Inr sig"
    and inc: "decode_pubkeys_into_set X (ft_account_include f) (lt_account_include_reject limits) = Inr inc"
    and exc: "decode_pubkeys_into_set X (ft_account_exclude f) [] = Inr exc"
    and req: "decode_pubkeys_into_set X (ft_account_required f) [] = Inr req"
    and mode: "transpose_result mode_from_proto (ft_token_accounts f) = Inr mode"
    and ni: "ni = (n, \<lparr>fti_vote = ft_vote f, fti_failed = ft_failed f, fti_signature = sig,
          fti_account_include = new_with_set inc, fti_account_exclude = new_with_set exc,
          fti_account_required = req, fti_account_cuckoo = cuckoo, fti_token_accounts = mode\<rparr>)"
    unfolding nf tx_filter_from_def prod.case st_bind_Inr by auto
  have cuckoo: "cuckoo = map_option filter_from_proto (ft_cuckoo_account_include f)"
    using cuckoo_from_Inr [OF c] by simp
  have wf: "inner_wf (snd ni)"
    using ni cuckoo ok nf by (auto simp: inner_wf_def intro: filter_from_proto_wf)
  have owners: "set (owners_of X mode (ti_meta tx)) \<union> set (ti_account_keys tx) = effective_set X tx f" for tx
    using mode
    by (auto simp: effective_set_def owners_of_def transpose_result_Inr mode_from_proto_def split: if_splits)
  have sigs: "(\<forall>g. sig = Some g \<longrightarrow> (\<exists>rest. tr_signatures (ti_transaction tx) = g # rest)) \<longleftrightarrow>
      (\<forall>s. ft_signature f = Some s \<longrightarrow>
        (\<exists>g rest. ex_signature X s = Some g \<and> tr_signatures (ti_transaction tx) = g # rest))" for tx
    using sig by (auto simp: transpose_result_Inr signature_from_def split: option.splits)
  have "tx_passes X (snd ni) tx = tx_config_matches X tx f" for tx
    unfolding tx_passes_def tx_config_matches_def Let_def ni snd_conv
      FilterTransactionsInner.select_convs Un_commute [of "set (ti_account_keys tx)"] owners sigs
      names_key_decoded(1) [OF inc] names_key_decoded(1) [OF exc] names_key_decoded(2) [OF req]
    using decode_pubkeys_Inr(5) [OF inc] cuckoo
    by (cases "ft_cuckoo_account_include f") (simp_all add: new_with_set_def hs_is_empty_def)
  with wf ni nf filter_name_Inr [OF n] show ?thesis by (simp add: tx_rel_def)
qed

lemma FilterTransactions_new_Inr:
  assumes new: "FilterTransactions_new X configs limits ty names = (Inr ft, names')"
    and ok: "\<forall>(n, f) \<in> set configs. \<forall>p. ft_cuckoo_account_include f = Some p \<longrightarrow> length (pc_data p) < 2 ^ 63"
    and dist: "distinct (map fst configs)"
  shows "list_all2 (tx_rel X) configs (ftx_filters ft) \<and> ftx_filter_type ft = ty"
proof -
  obtain fs where fs: "st_map (tx_filter_from X limits) configs names = (Inr fs, names')"
      "ft = \<lparr>ftx_filter_type = ty, ftx_filters = hmap_of fs\<rparr>"
    using new unfolding FilterTransactions_new_def st_bind_Inr by auto
  have rel: "list_all2 (tx_rel X) configs fs"
    using st_map_list_all2 [OF _ fs(1), of "tx_rel X"] tx_filter_from_rel ok by fastforce
  then have "map fst fs = map fst configs"
    by (induction rule: list_all2_induct) (auto simp: tx_rel_def)
  with dist fs(2) rel show ?thesis by (simp add: hmap_of_distinct)
qed

section \<open>Blocks\<close>

definition block_wants :: "externs \<Rightarrow> SubscribeRequestFilterBlocks \<Rightarrow> pubkey set \<Rightarrow> bool" where
  "block_wants X f K \<longleftrightarrow>
     fb_account_include f = [] \<and> fb_cuckoo_account_include f = None \<or>
     (\<exists>v \<in> set (fb_account_include f). names_key X K v) \<or>
     (\<exists>p. fb_cuckoo_account_include f = Some p \<and>
        (\<exists>pk \<in> K. cf_contains (ex_sip X) (filter_from_proto p) pk = Some True))"

text \<open>The update a block filter of the request asks for.\<close>

definition block_config_update ::
  "externs \<Rightarrow> MessageBlock \<Rightarrow> FilterAccountsDataSlice \<Rightarrow> string \<times> SubscribeRequestFilterBlocks \<Rightarrow> FilteredUpdate" where
  "block_config_update X m ds nf =
     (case nf of (name, f) \<Rightarrow>
        FilteredUpdate_new [name]
          (FBlock
            \<lparr>fub_meta = mb_meta m,
             fub_transactions =
               (if fb_include_transactions f = Some False then []
                else filter (\<lambda>tx. block_wants X f (set (ti_account_keys (mt_transaction tx)))) (mb_transactions m)),
             fub_updated_account_count = mb_updated_account_count m,
             fub_accounts =
               (if fb_include_accounts f = Some True
                then filter (\<lambda>acc. block_wants X f {ai_pubkey (ac_account acc)}) (mb_accounts m) else []),
             fub_accounts_data_slice = ds,
             fub_entries = (if fb_include_entries f = Some True then mb_entries m else [])\<rparr>)
          (mb_created_at m))"

definition block_rel ::
  "externs \<Rightarrow> string \<times> SubscribeRequestFilterBlocks \<Rightarrow> FilterName \<times> FilterBlocksInner \<Rightarrow> bool" where
  "block_rel X nf ni \<longleftrightarrow> fst ni = fst nf \<and>
     (\<forall>m ds. block_update X m ds ni = Some (block_config_update X m ds nf))"

lemma filter_map_run_keep:
  "(\<And>x. x \<in> set xs \<Longrightarrow> P x = Some (Q x)) \<Longrightarrow> filter_map_run (keep_if P) xs = Some (filter Q xs)"
  by (induction xs) (auto simp: keep_if_def)

lemma blocks_filter_from_rel:
  assumes from_: "blocks_filter_from X limits nf s = (Inr ni, s')"
    and ok: "\<forall>p. fb_cuckoo_account_include (snd nf) = Some p \<longrightarrow> length (pc_data p) < 2 ^ 63"
  shows "block_rel X nf ni"
proof -
  obtain name f where nf: "nf = (name, f)" by (cases nf)
  from from_ obtain n s1 cuckoo inc where
    n: "filter_name name s = (Inr n, s1)"
    and c: "cuckoo_from (fb_cuckoo_account_include f) (lb_cuckoo_max_size limits) = Inr cuckoo"
    and inc: "decode_pubkeys_into_set X (fb_account_include f) (lb_account_include_reject limits) = Inr inc"
    and ni: "ni = (n, \<lparr>fbi_account_include = inc, fbi_account_cuckoo = cuckoo,
          fbi_include_transactions = fb_include_transactions f,
          fbi_include_accounts = fb_include_accounts f,
          fbi_include_entries = fb_include_entries f\<rparr>)"
    unfolding nf blocks_filter_from_def prod.case st_bind_Inr by auto
  have cuckoo: "cuckoo = map_option filter_from_proto (fb_cuckoo_account_include f)"
    using cuckoo_from_Inr [OF c] by simp
  have empty: "inc = [] \<longleftrightarrow> fb_account_include f = []" using decode_pubkeys_Inr(5) [OF inc] .
  have wants: "block_wants X f K \<longleftrightarrow> inc = [] \<and> cuckoo = None \<or> set inc \<inter> K \<noteq> {} \<or>
      (\<exists>c. cuckoo = Some c \<and> (\<exists>pk \<in> K. cf_contains (ex_sip X) c pk = Some True))" for K
    unfolding block_wants_def names_key_decoded(1) [OF inc] using empty cuckoo
    by (cases "fb_cuckoo_account_include f") simp_all
  have cwf: "cuckoo_wf c" if "cuckoo = Some c" for c
    using that cuckoo ok nf by (auto intro: filter_from_proto_wf)
  have any: "matches_any_in_set X (snd ni) keys = Some (block_wants X f (set keys))" for keys
  proof (cases cuckoo)
    case None
    with ni show ?thesis by (auto simp: matches_any_in_set_def wants list_ex_iff)
  next
    case (Some c)
    with ni cwf show ?thesis
      by (auto simp: matches_any_in_set_def wants list_ex_iff cuckoo_any_run)
  qed
  have one: "matches_account X (snd ni) pk = Some (block_wants X f {pk})" for pk
  proof (cases cuckoo)
    case None
    with ni show ?thesis by (auto simp: matches_account_def wants)
  next
    case (Some c)
    with ni cf_contains_spec [OF cwf [OF Some]] show ?thesis
      by (auto simp: matches_account_def wants)
  qed
  have tri: "b \<in> {None, Some True} \<longleftrightarrow> b \<noteq> Some False" for b :: "bool option" by (cases b) auto
  have "block_update X m ds ni = Some (block_config_update X m ds nf)" for m ds
  proof -
    let ?i = "snd ni"
    have fields: "fbi_include_transactions ?i = fb_include_transactions f"
      "fbi_include_accounts ?i = fb_include_accounts f" "fbi_include_entries ?i = fb_include_entries f"
      using ni by simp_all
    have txs: "filter_map_run (keep_if (\<lambda>tx. matches_any_in_set X ?i (ti_account_keys (mt_transaction tx))))
        (mb_transactions m) =
        Some (filter (\<lambda>tx. block_wants X f (set (ti_account_keys (mt_transaction tx)))) (mb_transactions m))"
      by (rule filter_map_run_keep) (rule any)
    have accs: "filter_map_run (keep_if (\<lambda>acc. matches_account X ?i (ai_pubkey (ac_account acc)))) (mb_accounts m) =
        Some (filter (\<lambda>acc. block_wants X f {ai_pubkey (ac_account acc)}) (mb_accounts m))"
      by (rule filter_map_run_keep) (rule one)
    have "block_update X m ds (name, ?i) = Some (block_config_update X m ds (name, f))"
      unfolding block_update_def block_config_update_def prod.case fields tri txs accs Let_def
      by (simp only: if_not_P not_not split: if_split) simp
    moreover have "ni = (name, ?i)" using ni filter_name_Inr [OF n] by simp
    ultimately show ?thesis using nf by simp
  qed
  with ni nf filter_name_Inr [OF n] show ?thesis by (simp add: block_rel_def)
qed

lemma map_run_list_all2:
  "list_all2 R xs ys \<Longrightarrow> (\<And>x y. R x y \<Longrightarrow> f y = Some (g x)) \<Longrightarrow> map_run f ys = Some (map g xs)"
  by (induction rule: list_all2_induct) auto

section \<open>Deshredded transactions\<close>

definition deshred_config_matches ::
  "externs \<Rightarrow> MessageDeshredTransactionInfo \<Rightarrow> SubscribeRequestFilterDeshredTransactions \<Rightarrow> bool" where
  "deshred_config_matches X tx f \<longleftrightarrow>
     (let K = set (all_account_keys tx) in
      (case fd_vote f of None \<Rightarrow> True | Some v \<Rightarrow> v = dti_is_vote tx) \<and>
      (fd_account_include f = [] \<or> list_ex (names_key X K) (fd_account_include f)) \<and>
      \<not> list_ex (names_key X K) (fd_account_exclude f) \<and>
      list_all (names_key X K) (fd_account_required f))"

lemma deshred_filter_from_rel:
  assumes "deshred_filter_from X limits (name, f) s = (Inr ni, s')"
  shows "fst ni = name \<and> (\<forall>tx. deshred_match (snd ni) tx = deshred_config_matches X tx f)"
proof -
  from assms obtain n s1 inc exc req where
    n: "filter_name name s = (Inr n, s1)"
    and inc: "decode_pubkeys_into_set X (fd_account_include f) (ld_account_include_reject limits) = Inr inc"
    and exc: "decode_pubkeys_into_set X (fd_account_exclude f) [] = Inr exc"
    and req: "decode_pubkeys_into_set X (fd_account_required f) [] = Inr req"
    and ni: "ni = (n, \<lparr>fdi_vote = fd_vote f, fdi_account_include = inc, fdi_account_exclude = exc,
          fdi_account_required = req\<rparr>)"
    unfolding deshred_filter_from_def prod.case st_bind_Inr by auto
  have "deshred_match (snd ni) tx = deshred_config_matches X tx f" for tx
    unfolding deshred_config_matches_def Let_def list_ex_iff list_all_iff
      names_key_decoded(1) [OF inc] names_key_decoded(1) [OF exc] names_key_decoded(2) [OF req]
    using ni decode_pubkeys_Inr(5) [OF inc] decode_pubkeys_Inr(5) [OF exc] decode_pubkeys_Inr(5) [OF req]
    by (auto simp: deshred_match_def list_ex_iff list_all_iff split: option.splits)
  with ni filter_name_Inr [OF n] show ?thesis by simp
qed

section \<open>Concrete requests\<close>

definition toy_ext :: externs where
  "toy_ext = \<lparr>ex_pubkey = (\<lambda>s. if s = [] then None else Some (map of_char s)), ex_signature = (\<lambda>_. None),
     ex_base58 = (\<lambda>_. None), ex_base64 = (\<lambda>_. None), ex_token_account = (\<lambda>_. True), ex_sip = (\<lambda>_ _ _. 0)\<rparr>"

definition toy_name_table :: FilterNames where
  "toy_name_table = FilterNames_new 0 32 10 60"

definition toy_stamp :: Timestamp where
  "toy_stamp = \<lparr>stamp_seconds = 0, stamp_nanos = 0\<rparr>"

definition toy_meta :: "TokenBalance list \<Rightarrow> TokenBalance list \<Rightarrow> TransactionStatusMeta" where
  "toy_meta pre post =
     \<lparr>ts_err = None, ts_fee = 0, ts_pre_balances = [], ts_post_balances = [], ts_inner_instructions = [],
      ts_inner_instructions_none = True, ts_log_messages = [], ts_log_messages_none = True,
      ts_pre_token_balances = pre, ts_post_token_balances = post, ts_rewards = [],
      ts_loaded_writable_addresses = [], ts_loaded_readonly_addresses = [], ts_return_data = None,
      ts_return_data_none = True, ts_compute_units_consumed = None, ts_cost_units = None\<rparr>"

definition toy_tx :: "pubkey list \<Rightarrow> TransactionStatusMeta \<Rightarrow> MessageTransaction" where
  "toy_tx keys meta =
     \<lparr>mt_transaction =
        \<lparr>ti_signature = replicate 64 1, ti_is_vote = False,
         ti_transaction = \<lparr>tr_signatures = [replicate 64 1], tr_message = None\<rparr>, ti_meta = meta, ti_index = 0,
         ti_account_keys = keys, ti_pre_encoded = None, ti_token_owners_all = None,
         ti_token_owners_changed = None\<rparr>,
      mt_slot = 7, mt_created_at = toy_stamp\<rparr>"

definition toy_tx_filter :: "string list \<Rightarrow> string list \<Rightarrow> SubscribeRequestFilterTransactions" where
  "toy_tx_filter inc exc =
     \<lparr>ft_vote = Some False, ft_failed = None, ft_signature = None, ft_account_include = inc,
      ft_account_exclude = exc, ft_account_required = [], ft_cuckoo_account_include = None,
      ft_token_accounts = None\<rparr>"

definition toy_inner :: "pubkey list \<Rightarrow> pubkey list \<Rightarrow> FilterTransactionsInner" where
  "toy_inner inc exc =
     \<lparr>fti_vote = Some False, fti_failed = None, fti_signature = None, fti_account_include = new_with_set inc,
      fti_account_exclude = new_with_set exc, fti_account_required = [], fti_account_cuckoo = None,
      fti_token_accounts = None\<rparr>"

definition toy_block_filter :: "bool option \<Rightarrow> SubscribeRequestFilterBlocks" where
  "toy_block_filter entries =
     \<lparr>fb_account_include = [''A''], fb_include_transactions = None, fb_include_accounts = None,
      fb_include_entries = entries, fb_cuckoo_account_include = None\<rparr>"

definition toy_block_inner :: "bool option \<Rightarrow> FilterBlocksInner" where
  "toy_block_inner entries =
     \<lparr>fbi_account_include = [[65]], fbi_account_cuckoo = None, fbi_include_transactions = None,
      fbi_include_accounts = None, fbi_include_entries = entries\<rparr>"

lemmas toy_names_simps =
  filter_name_def names_get_def toy_name_table_def FilterNames_new_def hset_insert_def

lemmas toy_decode_simps =
  decode_pubkeys_into_set_def decode_pubkey_def check_pubkey_reject_def toy_ext_def of_char_def

lemmas toy_check_simps =
  check_any_def check_pubkey_max_def check_max_def usize_MAX_def

lemma toy_tx_new:
  "FilterTransactions_new toy_ext [(''t'', toy_tx_filter [''A''] [''B''])] FilterLimitsTransactions_default
     TxTransaction toy_name_table =
   (Inr \<lparr>ftx_filter_type = TxTransaction, ftx_filters = [(''t'', toy_inner [[65]] [[66]])]\<rparr>,
    toy_name_table\<lparr>fn_names := [''t'']\<rparr>)"
  by (simp add: FilterTransactions_new_def tx_filter_from_def st_bind_def toy_tx_filter_def toy_check_simps
      FilterLimitsTransactions_default_def cuckoo_from_def transpose_result_def toy_names_simps
      toy_decode_simps hmap_of_def toy_inner_def)

definition strict_blocks :: FilterLimitsBlocks where
  "strict_blocks = FilterLimitsBlocks_default\<lparr>lb_include_entries := False\<rparr>"

lemma toy_blocks_new:
  "FilterBlocks_new toy_ext [(''b'', toy_block_filter (Some True))] strict_blocks toy_name_table =
   (Inr [(''b'', toy_block_inner (Some True))], toy_name_table\<lparr>fn_names := [''b'']\<rparr>)"
  by (simp add: FilterBlocks_new_def blocks_filter_from_def st_bind_def toy_block_filter_def toy_check_simps
      strict_blocks_def FilterLimitsBlocks_default_def cuckoo_from_def transpose_result_def toy_names_simps
      toy_decode_simps hmap_of_def toy_block_inner_def)

definition toy_block :: "MessageTransaction list \<Rightarrow> MessageEntry list \<Rightarrow> MessageBlock" where
  "toy_block txs ens =
     MessageBlock_new toy_stamp
       \<lparr>bm_block_meta = \<lparr>um_slot = 7, um_blockhash = ''h'', um_rewards = None, um_block_time = None,
           um_block_height = None, um_parent_slot = 6, um_parent_blockhash = ''p'',
           um_executed_transaction_count = 0, um_entries_count = 0\<rparr>, bm_created_at = toy_stamp\<rparr>
       txs [] ens"

definition toy_range :: "u64 \<Rightarrow> u64 \<Rightarrow> SubscribeRequestAccountsDataSlice" where
  "toy_range a n = \<lparr>ds_offset = a, ds_length = n\<rparr>"

lemma accepted_transactions_updates:
  assumes "FilterTransactions_new X configs limits ty names = (Inr ft, names')"
    and "distinct (map fst configs)"
    and "\<forall>(n, f) \<in> set configs. \<forall>p. ft_cuckoo_account_include f = Some p \<longrightarrow> length (pc_data p) < 2 ^ 63"
    and "caches_ok X (mt_transaction m)"
  shows "\<exists>ns m'. FilterTransactions_get_updates X ft m =
      Some (filtered_updates_once ns
        (if ty = TxTransaction then oneof_transaction m' else FTransactionStatus m') (mt_created_at m), m') \<and>
    set ns = {n. \<exists>f. (n, f) \<in> set configs \<and> tx_config_matches X (mt_transaction m) f} \<and> distinct ns \<and>
    m' = m\<lparr>mt_transaction := mt_transaction m'\<rparr> \<and> same_tx (mt_transaction m) (mt_transaction m') \<and>
    caches_ok X (mt_transaction m')"
proof -
  let ?tx = "mt_transaction m"
  have rel: "list_all2 (tx_rel X) configs (ftx_filters ft)" and ty: "ftx_filter_type ft = ty"
    using FilterTransactions_new_Inr [OF assms(1,3,2)] by auto
  have wf: "list_all (\<lambda>(n, inner). inner_wf inner) (ftx_filters ft)"
    using rel by (induction rule: list_all2_induct) (auto simp: tx_rel_def)
  let ?ns = "map fst (filter (\<lambda>(n, inner). tx_passes X inner ?tx) (ftx_filters ft))"
  have ns: "?ns = map fst (filter (\<lambda>(n, f). tx_config_matches X ?tx f) configs)"
    using rel by (induction rule: list_all2_induct) (auto simp: tx_rel_def)
  obtain tx' where tx': "tx_filters X (ftx_filters ft) ?tx = Some (?ns, tx')"
      "caches_ok X tx'" "same_tx ?tx tx'"
    using tx_filters_spec [OF wf assms(4)] by blast
  let ?m = "m\<lparr>mt_transaction := tx'\<rparr>"
  have "FilterTransactions_get_updates X ft m =
      Some (filtered_updates_once ?ns
        (if ty = TxTransaction then oneof_transaction ?m else FTransactionStatus ?m) (mt_created_at m), ?m)"
    using tx'(1) ty by (cases ty) (simp_all add: FilterTransactions_get_updates_def Let_def)
  moreover have "set ?ns = {n. \<exists>f. (n, f) \<in> set configs \<and> tx_config_matches X ?tx f}"
    unfolding ns by force
  moreover have "distinct ?ns" unfolding ns using assms(2) by (rule distinct_map_filter)
  ultimately show ?thesis using tx'(2,3) by (intro exI [of _ ?ns] exI [of _ ?m]) simp
qed

lemma accepted_blocks_updates:
  assumes "FilterBlocks_new X configs limits names = (Inr fb, names')"
    and "distinct (map fst configs)"
    and "\<forall>(n, f) \<in> set configs. \<forall>p. fb_cuckoo_account_include f = Some p \<longrightarrow> length (pc_data p) < 2 ^ 63"
  shows "FilterBlocks_get_updates X fb m ds = Some (map (block_config_update X m ds) configs)"
proof -
  obtain fs where fs: "st_map (blocks_filter_from X limits) configs names = (Inr fs, names')"
      "fb = hmap_of fs"
    using assms(1) unfolding FilterBlocks_new_def st_bind_Inr by auto
  have rel: "list_all2 (block_rel X) configs fs"
    using st_map_list_all2 [OF _ fs(1), of "block_rel X"] blocks_filter_from_rel assms(3) by fastforce
  then have "map fst fs = map fst configs"
    by (induction rule: list_all2_induct) (auto simp: block_rel_def)
  with assms(2) fs(2) have "fb = fs" by (simp add: hmap_of_distinct)
  then show ?thesis
    unfolding FilterBlocks_get_updates_def using rel by (auto intro: map_run_list_all2 simp: block_rel_def)
qed

section \<open>Properties\<close>



text \<open>Token-balance expansion: the owners of the mode \<open>BALANCE_CHANGED\<close> are those with a
  readable balance after the transaction whose amount differs from the last one before it under the
  same account index (or had none), and the owners of balances that disappeared. In particular a
  balance whose amount is missing on both sides counts as unchanged.\<close>

lemma token_owners_changed_exact:
  "set (owners_with_changed_balance X meta) = {pk. changed_owner X meta pk}"
  unfolding owners_changed_set changed_owner_def list_ex_iff list_all_iff by blast

text \<open>C28. A block subscription delivers what it asked for: when the request was accepted, every block
  yields one update per filter, with the block's metadata, the transactions touching an included key
  unless transactions are switched off, the accounts included only when switched on, and the entries
  only when switched on; matching does not panic.\<close>

theorem block_subscription_exact:
  assumes "FilterBlocks_new X configs limits names = (Inr fb, names')"
    and "distinct (map fst configs)"
    and "\<forall>(n, f) \<in> set configs. \<forall>p. fb_cuckoo_account_include f = Some p \<longrightarrow> length (pc_data p) < 2 ^ 63"
  shows "FilterBlocks_get_updates X fb m ds = Some (map (block_config_update X m ds) configs)"
  using assms by (rule accepted_blocks_updates)

theorem block_subscription_exact_witness:
  "FilterBlocks_get_updates toy_ext [(''b'', toy_block_inner (Some True))]
     (toy_block [toy_tx [[65]] (toy_meta [] [])] []) [] =
   Some [block_config_update toy_ext (toy_block [toy_tx [[65]] (toy_meta [] [])] []) []
           (''b'', toy_block_filter (Some True))]"
  using block_subscription_exact [OF toy_blocks_new] by (simp add: toy_block_filter_def)

text \<open>The limit on entries in block subscriptions is not enforced: with entries forbidden (and
  accounts allowed) a request for entries is accepted, and blocks are delivered with their entries.\<close>

lemma block_entries_limit_ignored:
  "\<exists>fb names'. FilterBlocks_new toy_ext [(''b'', toy_block_filter (Some True))] strict_blocks toy_name_table =
       (Inr fb, names') \<and> \<not> lb_include_entries strict_blocks \<and>
     (\<forall>ens. \<exists>us b. FilterBlocks_get_updates toy_ext fb (toy_block [] ens) [] = Some us \<and>
        map fu_message us = [FBlock b] \<and> fub_entries b = ens)"
proof (intro exI conjI)
  show "FilterBlocks_new toy_ext [(''b'', toy_block_filter (Some True))] strict_blocks toy_name_table =
      (Inr [(''b'', toy_block_inner (Some True))], toy_name_table\<lparr>fn_names := [''b'']\<rparr>)"
    by (rule toy_blocks_new)
  show "\<not> lb_include_entries strict_blocks" by (simp add: strict_blocks_def)
  show "\<forall>ens. \<exists>us b. FilterBlocks_get_updates toy_ext [(''b'', toy_block_inner (Some True))] (toy_block [] ens) [] =
      Some us \<and> map fu_message us = [FBlock b] \<and> fub_entries b = ens"
    by (simp add: FilterBlocks_get_updates_def block_update_def toy_block_inner_def toy_block_def
        MessageBlock_new_def Let_def FilteredUpdate_new_def)
qed

text \<open>A deshred subscription delivers what it asked for: when the request was accepted, a transaction
  is reported under exactly the filters of the request it satisfies, over its static and loaded keys.\<close>

lemma deshred_subscription_exact:
  assumes "FilterDeshredTransactions_new X configs limits names = (Inr fd, names')" "distinct (map fst configs)"
  shows "FilterDeshredTransactions_get_updates fd m =
    (let ns = map fst (filter (\<lambda>(n, f). deshred_config_matches X (md_transaction m) f) configs)
     in if ns = [] then [] else [FilteredUpdateDeshred_new ns (DDeshredTransaction m) (md_created_at m)])"
proof -
  let ?R = "\<lambda>nf ni. fst ni = fst nf \<and> (\<forall>tx. deshred_match (snd ni) tx = deshred_config_matches X tx (snd nf))"
  obtain fs where fs: "st_map (deshred_filter_from X limits) configs names = (Inr fs, names')"
      "fd = hmap_of fs"
    using assms(1) unfolding FilterDeshredTransactions_new_def st_bind_Inr by auto
  have rel: "list_all2 ?R configs fs"
    using st_map_list_all2 [OF _ fs(1), of ?R] deshred_filter_from_rel by (metis prod.collapse)
  then have "map fst fs = map fst configs" by (induction rule: list_all2_induct) auto
  with assms(2) fs(2) have "fd = fs" by (simp add: hmap_of_distinct)
  moreover have "map fst (filter (\<lambda>(n, inner). deshred_match inner (md_transaction m)) fs) =
      map fst (filter (\<lambda>(n, f). deshred_config_matches X (md_transaction m) f) configs)"
    using rel by (induction rule: list_all2_induct) auto
  ultimately show ?thesis by (simp add: FilterDeshredTransactions_get_updates_def Let_def)
qed

definition toy_deshred :: MessageDeshredTransaction where
  "toy_deshred =
     \<lparr>md_transaction =
        \<lparr>dti_signature = replicate 64 1, dti_is_vote = False,
         dti_transaction = \<lparr>tr_signatures = [], tr_message = None\<rparr>, dti_static_account_keys = [[65]],
         dti_loaded_writable_addresses = [[66]], dti_loaded_readonly_addresses = [],
         dti_completed_data_set_starting_shred_index = 0,
         dti_completed_data_set_ending_shred_index_exclusive = 0\<rparr>,
      md_slot = 7, md_created_at = toy_stamp\<rparr>"

definition toy_deshred_filter :: SubscribeRequestFilterDeshredTransactions where
  "toy_deshred_filter =
     \<lparr>fd_vote = None, fd_account_include = [''B''], fd_account_exclude = [], fd_account_required = [''A'']\<rparr>"

definition toy_deshred_inner :: FilterDeshredTransactionsInner where
  "toy_deshred_inner =
     \<lparr>fdi_vote = None, fdi_account_include = [[66]], fdi_account_exclude = [], fdi_account_required = [[65]]\<rparr>"

lemma toy_deshred_new:
  "FilterDeshredTransactions_new toy_ext [(''d'', toy_deshred_filter)] FilterLimitsDeshredTransactions_default
     toy_name_table = (Inr [(''d'', toy_deshred_inner)], toy_name_table\<lparr>fn_names := [''d'']\<rparr>)"
  by (simp add: FilterDeshredTransactions_new_def deshred_filter_from_def st_bind_def toy_deshred_filter_def
      toy_check_simps FilterLimitsDeshredTransactions_default_def toy_names_simps toy_decode_simps
      hmap_of_def toy_deshred_inner_def)

lemma deshred_subscription_exact_witness:
  "FilterDeshredTransactions_get_updates [(''d'', toy_deshred_inner)] toy_deshred =
     [FilteredUpdateDeshred_new [''d''] (DDeshredTransaction toy_deshred) toy_stamp]"
  using deshred_subscription_exact [OF toy_deshred_new, of toy_deshred]
  by (simp add: deshred_config_matches_def toy_deshred_filter_def toy_deshred_def all_account_keys_def
      names_key_def toy_ext_def of_char_def)

text \<open>Data slices: when a request with ranges that end below \<open>2^64\<close> is accepted, the ranges are in
  order and disjoint, cutting account data does not panic and gives the concatenation of the ranges that
  lie within the data (all of it when no range was asked for), and the length computed for the encoding
  is the length of that.\<close>

lemma data_slices_exact:
  assumes "FilterAccountsDataSlice_new slices limits = Inr ds"
    and "\<forall>s \<in> set slices. unat (ds_offset s) + unat (ds_length s) < 2 ^ 64" "length source < 2 ^ 63"
  shows "get_slice ds source =
      Some (if slices = [] then source
            else concat (map (\<lambda>s. take (unat (ds_length s)) (drop (unat (ds_offset s)) source))
              (filter (\<lambda>s. unat (ds_offset s) + unat (ds_length s) \<le> length source) slices))) \<and>
    get_slice_len ds source = map_option length (get_slice ds source) \<and>
    sorted_wrt (\<lambda>a b. unat (ds_offset a) + unat (ds_length a) \<le> unat (ds_offset b)) slices"
proof -
  have ok: "slices_ok ds" and ds: "ds = map range_from slices"
    using data_slice_new_ok [OF assms(1,2)] by auto
  have stop: "unat (snd (range_from s)) = unat (ds_offset s) + unat (ds_length s)"
    "unat (fst (range_from s)) = unat (ds_offset s)" if "s \<in> set slices" for s
    using that assms(2) by (auto simp: range_from_def unat_word_ariths)
  have "sorted_wrt (\<lambda>a b. snd (range_from a) \<le> fst (range_from b)) slices"
    using ok by (simp add: slices_ok_def ds sorted_wrt_map)
  then have sorted: "sorted_wrt (\<lambda>a b. unat (ds_offset a) + unat (ds_length a) \<le> unat (ds_offset b)) slices"
    by (rule sorted_wrt_mono_rel [rotated]) (auto simp: word_le_nat_alt stop)
  have "fitting source ds =
      map range_from (filter (\<lambda>s. unat (ds_offset s) + unat (ds_length s) \<le> length source) slices)"
    unfolding fitting_def ds filter_map comp_def
    by (intro arg_cong [where f = "map range_from"] filter_cong) (auto simp: stop split_def)
  moreover have "(\<lambda>(a, b). take (unat b - unat a) (drop (unat a) source)) (range_from s) =
      take (unat (ds_length s)) (drop (unat (ds_offset s)) source)" if "s \<in> set slices" for s
    using stop [OF that] by (simp add: split_def)
  ultimately have "get_slice ds source = Some (if slices = [] then source
      else concat (map (\<lambda>s. take (unat (ds_length s)) (drop (unat (ds_offset s)) source))
        (filter (\<lambda>s. unat (ds_offset s) + unat (ds_length s) \<le> length source) slices)))"
    using get_slice_ok [OF ok assms(3)] ds
    by (auto simp: comp_def intro!: arg_cong [where f = concat] map_cong)
  with sorted get_slice_len_ok [OF ok assms(3)] show ?thesis by simp
qed

lemma data_slices_exact_witness:
  "get_slice [(1, 3), (4, 5)] [10, 11, 12, 13, 14, 15] = Some [11, 12, 14]"
  using data_slices_exact [of "[toy_range 1 2, toy_range 4 1]" 2 "[(1, 3), (4, 5)]" "[10, 11, 12, 13, 14, 15]"]
  by (simp add: FilterAccountsDataSlice_new_def toy_range_def range_from_def check_max_def Let_def)

text \<open>A data slice whose end wraps around \<open>2^64\<close> is accepted, and cutting account data with it, as
  well as computing its length, panics.\<close>

lemma data_slice_wrap_panics:
  "\<exists>ds. FilterAccountsDataSlice_new [toy_range 0xFFFFFFFFFFFFFFFF 2] usize_MAX = Inr ds \<and>
     get_slice ds [7, 7] = None \<and> get_slice_len ds [7, 7] = None"
  by (simp add: FilterAccountsDataSlice_new_def toy_range_def range_from_def check_max_def usize_MAX_def
      Let_def get_slice_def get_slice_len_def slice_def isize_MAX_def)

end
