(* ===== verification/Subscribe_Filter.thy ===== *)
theory Subscribe_Filter
  imports Account_Claims Event_Claims
begin

text \<open>
  The filter of one subscription (\<open>Filter\<close> and \<open>DeshredFilter\<close> of
  \<^verbatim>\<open>plugin/filter/filter.rs\<close>): built from the request in the order of the source, dispatching each
  message to the filters of its kind, and the counts reported for it.
\<close>

section \<open>The subscribe filter\<close>

record Filter =
  f_accounts :: FilterAccounts
  f_slots :: FilterSlots
  f_transactions :: FilterTransactions
  f_transactions_status :: FilterTransactions
  f_entries :: "FilterName list"
  f_blocks :: FilterBlocks
  f_blocks_meta :: "FilterName list"
  f_commitment :: CommitmentLevel
  f_accounts_data_slice :: FilterAccountsDataSlice
  f_ping :: "i32 option"

definition Filter_default :: Filter where
  "Filter_default =
     \<lparr>f_accounts = Empty, f_slots = [],
      f_transactions = \<lparr>ftx_filter_type = TxTransaction, ftx_filters = []\<rparr>,
      f_transactions_status = \<lparr>ftx_filter_type = TxTransactionStatus, ftx_filters = []\<rparr>,
      f_entries = [], f_blocks = [], f_blocks_meta = [], f_commitment = Processed,
      f_accounts_data_slice = [], f_ping = None\<rparr>"

definition Filter_new ::
  "externs \<Rightarrow> SubscribeRequest \<Rightarrow> FilterLimits \<Rightarrow> FilterNames \<Rightarrow> (Filter FilterResult \<times> FilterNames) run" where
  "Filter_new X config limits names =
     do {
       (ra, names1) \<leftarrow> FilterAccounts_new X (sr_accounts config) (fl_accounts limits) names;
       Some (case ra of
         Inl e \<Rightarrow> (Inl e, names1)
       | Inr accounts \<Rightarrow>
           (st_bind (FilterSlots_new (sr_slots config) (fl_slots_max limits)) (\<lambda>slots.
            st_bind (FilterTransactions_new X (sr_transactions config) (fl_transactions limits) TxTransaction) (\<lambda>txs.
            st_bind (FilterTransactions_new X (sr_transactions_status config) (fl_transactions_status limits)
                       TxTransactionStatus) (\<lambda>sts.
            st_bind (FilterNamesOnly_new (sr_entry config) (fl_entries_max limits)) (\<lambda>entries.
            st_bind (FilterBlocks_new X (sr_blocks config) (fl_blocks limits)) (\<lambda>blocks.
            st_bind (FilterNamesOnly_new (sr_blocks_meta config) (fl_blocks_meta_max limits)) (\<lambda>metas.
            st_bind (st_lift (decode_commitment (sr_commitment config))) (\<lambda>commitment.
            st_bind (st_lift (FilterAccountsDataSlice_new (sr_accounts_data_slice config)
                       (la_data_slice_max (fl_accounts limits)))) (\<lambda>slice.
            st_return
              \<lparr>f_accounts = accounts, f_slots = slots, f_transactions = txs, f_transactions_status = sts,
               f_entries = entries, f_blocks = blocks, f_blocks_meta = metas, f_commitment = commitment,
               f_accounts_data_slice = slice, f_ping = sr_ping config\<rparr>))))))))) names1)
     }"

definition FilterAccounts_get_updates ::
  "externs \<Rightarrow> FilterAccounts \<Rightarrow> MessageAccount \<Rightarrow> FilterAccountsDataSlice \<Rightarrow> FilteredUpdate list run" where
  "FilterAccounts_get_updates X fa m ds =
     do {
       ns \<leftarrow> strategy_get_filters X fa (ac_account m);
       Some (filtered_updates_once ns (oneof_account m ds) (ac_created_at m))
     }"

text \<open>The updates and the message, whose caches matching may have filled.\<close>

definition Filter_get_updates ::
  "externs \<Rightarrow> Filter \<Rightarrow> Message \<Rightarrow> CommitmentLevel option \<Rightarrow> (FilteredUpdate list \<times> Message) run" where
  "Filter_get_updates X F msg commitment =
     (case msg of
        MAccount m \<Rightarrow> do {
          us \<leftarrow> FilterAccounts_get_updates X (f_accounts F) m (f_accounts_data_slice F);
          Some (us, msg)
        }
      | MSlot m \<Rightarrow> Some (FilterSlots_get_updates (f_slots F) m commitment, msg)
      | MTransaction m \<Rightarrow> do {
          (us, m1) \<leftarrow> FilterTransactions_get_updates X (f_transactions F) m;
          (vs, m2) \<leftarrow> FilterTransactions_get_updates X (f_transactions_status F) m1;
          Some (us @ vs, MTransaction m2)
        }
      | MDeshredTransaction _ \<Rightarrow> Some ([], msg)
      | MEntry m \<Rightarrow> Some (FilterEntries_get_updates (f_entries F) m, msg)
      | MBlock m \<Rightarrow> do {
          us \<leftarrow> FilterBlocks_get_updates X (f_blocks F) m (f_accounts_data_slice F);
          Some (us, msg)
        }
      | MBlockMeta m \<Rightarrow> Some (FilterBlocksMeta_get_updates (f_blocks_meta F) m, msg))"

definition Filter_get_pong_msg :: "Timestamp \<Rightarrow> Filter \<Rightarrow> FilteredUpdate option" where
  "Filter_get_pong_msg now F = map_option (\<lambda>n. FilteredUpdate_new_empty now (FPong n)) (f_ping F)"

definition Filter_get_metrics :: "Filter \<Rightarrow> (string \<times> nat) list" where
  "Filter_get_metrics F =
     (let a = length (strategy_aggregates (f_accounts F)); s = length (f_slots F);
          t = length (ftx_filters (f_transactions F)); ts = length (ftx_filters (f_transactions_status F));
          e = length (f_entries F); b = length (f_blocks F); bm = length (f_blocks_meta F)
      in [(''accounts'', a), (''slots'', s), (''transactions'', t), (''transactions_status'', ts),
          (''entries'', e), (''blocks'', b), (''blocks_meta'', bm), (''all'', a + s + t + ts + e + b + bm)])"

section \<open>Statistics\<close>

record AccountFilterStats =
  afs_accounts_len :: nat
  afs_owners_len :: nat

record TxnFilterStats =
  tfs_accounts_include_len :: nat
  tfs_accounts_exclude_len :: nat
  tfs_accounts_required_len :: nat
  tfs_token_accounts_enabled :: bool

record BlocksFilterStats =
  bfs_include_len :: nat
  bfs_exclude_len :: nat

record FilterStats =
  fss_accounts :: "AccountFilterStats list"
  fss_transactions :: "TxnFilterStats list"
  fss_transaction_status :: "TxnFilterStats list"
  fss_blocks :: "BlocksFilterStats list"

definition txn_stats :: "FilterTransactionsInner \<Rightarrow> TxnFilterStats" where
  "txn_stats inner =
     \<lparr>tfs_accounts_include_len = length (hs_vec (fti_account_include inner)),
      tfs_accounts_exclude_len = length (hs_vec (fti_account_exclude inner)),
      tfs_accounts_required_len = length (fti_account_required inner),
      tfs_token_accounts_enabled = (fti_token_accounts inner \<noteq> None)\<rparr>"

definition blocks_stats :: "FilterBlocksInner \<Rightarrow> BlocksFilterStats" where
  "blocks_stats inner =
     \<lparr>bfs_include_len =
        length (fbi_account_include inner) + of_bool (fbi_account_cuckoo inner \<noteq> None) +
        of_bool (fbi_include_transactions inner \<in> {None, Some True}) +
        of_bool (fbi_include_accounts inner = Some True) + of_bool (fbi_include_entries inner = Some True),
      bfs_exclude_len =
        of_bool (fbi_include_transactions inner = Some False) +
        of_bool (fbi_include_accounts inner = Some False) + of_bool (fbi_include_entries inner = Some False)\<rparr>"

definition get_filter_stats :: "Filter \<Rightarrow> FilterStats" where
  "get_filter_stats F =
     \<lparr>fss_accounts =
        map (\<lambda>a. \<lparr>afs_accounts_len = (case ag_accounts a of None \<Rightarrow> 0 | Some s \<Rightarrow> length s),
                  afs_owners_len = (case ag_owners a of None \<Rightarrow> 0 | Some s \<Rightarrow> length s)\<rparr>)
          (strategy_aggregates (f_accounts F)),
      fss_transactions = map (\<lambda>(_, inner). txn_stats inner) (ftx_filters (f_transactions F)),
      fss_transaction_status = map (\<lambda>(_, inner). txn_stats inner) (ftx_filters (f_transactions_status F)),
      fss_blocks = map (\<lambda>(_, inner). blocks_stats inner) (f_blocks F)\<rparr>"

section \<open>The deshred filter\<close>

record DeshredFilter =
  df_deshred_transactions :: FilterDeshredTransactions
  df_slots :: FilterSlots
  df_ping :: "i32 option"

definition DeshredFilter_new ::
  "externs \<Rightarrow> SubscribeDeshredRequest \<Rightarrow> FilterLimits \<Rightarrow> (FilterNames, FilterError, DeshredFilter) sres" where
  "DeshredFilter_new X config limits =
     st_bind (FilterDeshredTransactions_new X (sd_deshred_transactions config) (fl_deshred_transactions limits)) (\<lambda>d.
     st_bind (FilterSlots_new (sd_slots config) (fl_slots_max limits)) (\<lambda>s.
     st_return \<lparr>df_deshred_transactions = d, df_slots = s, df_ping = sd_ping config\<rparr>))"

definition get_slot_updates :: "DeshredFilter \<Rightarrow> MessageSlot \<Rightarrow> CommitmentLevel option \<Rightarrow> FilteredUpdateDeshred list" where
  "get_slot_updates D m commitment =
     (let ns = map fst (filter (\<lambda>(name, inner). slot_filter_passes m commitment inner) (df_slots D))
      in if ns = [] then [] else [FilteredUpdateDeshred_new ns (DSlot m) (sl_created_at m)])"

definition DeshredFilter_get_updates ::
  "DeshredFilter \<Rightarrow> Message \<Rightarrow> CommitmentLevel option \<Rightarrow> FilteredUpdateDeshred list" where
  "DeshredFilter_get_updates D msg commitment =
     (case msg of
        MDeshredTransaction m \<Rightarrow> FilterDeshredTransactions_get_updates (df_deshred_transactions D) m
      | MSlot m \<Rightarrow> get_slot_updates D m commitment
      | _ \<Rightarrow> [])"

definition DeshredFilter_get_pong_msg :: "Timestamp \<Rightarrow> DeshredFilter \<Rightarrow> FilteredUpdateDeshred option" where
  "DeshredFilter_get_pong_msg now D = map_option (\<lambda>n. FilteredUpdateDeshred_new [] (DPong n) now) (df_ping D)"

definition DeshredFilter_get_metrics :: "DeshredFilter \<Rightarrow> (string \<times> nat) list" where
  "DeshredFilter_get_metrics D =
     [(''deshred_transactions'', length (df_deshred_transactions D)), (''slots'', length (df_slots D)),
      (''all'', length (df_deshred_transactions D) + length (df_slots D))]"

section \<open>Lemmas\<close>

definition request_ok :: "SubscribeRequest \<Rightarrow> bool" where
  "request_ok r \<longleftrightarrow>
     distinct (map fst (sr_accounts r)) \<and> distinct (map fst (sr_slots r)) \<and>
     distinct (map fst (sr_transactions r)) \<and> distinct (map fst (sr_transactions_status r)) \<and>
     distinct (map fst (sr_blocks r)) \<and>
     list_all (\<lambda>(n, f). config_ok f) (sr_accounts r) \<and> indexable (sr_accounts r) \<and>
     list_all (\<lambda>(n, f). case ft_cuckoo_account_include f of None \<Rightarrow> True | Some p \<Rightarrow> length (pc_data p) < 2 ^ 63)
       (sr_transactions r @ sr_transactions_status r) \<and>
     list_all (\<lambda>(n, f). case fb_cuckoo_account_include f of None \<Rightarrow> True | Some p \<Rightarrow> length (pc_data p) < 2 ^ 63)
       (sr_blocks r)"

lemma Filter_new_Inr:
  assumes "Filter_new X config limits names = Some (Inr F, names')"
  obtains n1 n2 n3 n4 n5 n6 where
    "FilterAccounts_new X (sr_accounts config) (fl_accounts limits) names = Some (Inr (f_accounts F), n1)"
    "FilterSlots_new (sr_slots config) (fl_slots_max limits) n1 = (Inr (f_slots F), n2)"
    "FilterTransactions_new X (sr_transactions config) (fl_transactions limits) TxTransaction n2 =
       (Inr (f_transactions F), n3)"
    "FilterTransactions_new X (sr_transactions_status config) (fl_transactions_status limits)
       TxTransactionStatus n3 = (Inr (f_transactions_status F), n4)"
    "FilterNamesOnly_new (sr_entry config) (fl_entries_max limits) n4 = (Inr (f_entries F), n5)"
    "FilterBlocks_new X (sr_blocks config) (fl_blocks limits) n5 = (Inr (f_blocks F), n6)"
    "FilterNamesOnly_new (sr_blocks_meta config) (fl_blocks_meta_max limits) n6 = (Inr (f_blocks_meta F), names')"
    "decode_commitment (sr_commitment config) = Inr (f_commitment F)"
    "FilterAccountsDataSlice_new (sr_accounts_data_slice config) (la_data_slice_max (fl_accounts limits)) =
       Inr (f_accounts_data_slice F)"
    "f_ping F = sr_ping config"
proof -
  obtain ra n1 where ra: "FilterAccounts_new X (sr_accounts config) (fl_accounts limits) names = Some (ra, n1)"
    using assms by (cases "FilterAccounts_new X (sr_accounts config) (fl_accounts limits) names")
      (auto simp: Filter_new_def)
  show ?thesis
  proof (cases ra)
    case (Inl e)
    with assms ra show ?thesis by (simp add: Filter_new_def)
  next
    case (Inr accounts)
    show ?thesis
      using assms ra Inr that
      unfolding Filter_new_def by (auto simp: st_bind_Inr)
  qed
qed

lemma st_map_fst:
  assumes "st_map g xs s = (Inr ys, s')" "\<And>x s y s'. g x s = (Inr y, s') \<Longrightarrow> fst y = fst x"
  shows "map fst ys = map fst xs"
proof -
  have "list_all2 (\<lambda>x y. fst y = fst x) xs ys"
    by (rule st_map_list_all2 [OF _ assms(1)]) (rule assms(2))
  then show ?thesis by (induction rule: list_all2_induct) auto
qed

lemma slots_new_keys:
  assumes "FilterSlots_new configs mx s = (Inr fs, s')" "distinct (map fst configs)"
  shows "map fst fs = map fst configs" "length configs \<le> mx"
proof -
  obtain ys where ys: "st_map slot_filter_from configs s = (Inr ys, s')" "fs = hmap_of ys" "length configs \<le> mx"
    using assms(1) unfolding FilterSlots_new_def st_bind_Inr by auto
  have "map fst ys = map fst configs"
  proof (rule st_map_fst [OF ys(1)])
    fix x s y s'
    assume "slot_filter_from x s = (Inr y, s')"
    then show "fst y = fst x" by (cases x) (auto simp: slot_filter_from_def st_bind_Inr filter_name_Inr)
  qed
  with ys assms(2) show "map fst fs = map fst configs" "length configs \<le> mx"
    by (simp_all add: hmap_of_distinct)
qed

lemma names_only_keys:
  assumes "FilterNamesOnly_new configs mx s = (Inr fs, s')"
  shows "fs = map fst configs" "length configs \<le> mx"
proof -
  have st: "st_map filter_name (map fst configs) s = (Inr fs, s')" and le: "length configs \<le> mx"
    using assms unfolding FilterNamesOnly_new_def st_bind_Inr by auto
  have "list_all2 (=) (map fst configs) fs"
    by (rule st_map_list_all2 [OF _ st]) (auto dest: filter_name_Inr)
  then show "fs = map fst configs" "length configs \<le> mx" using le by (simp_all add: list.rel_eq)
qed

lemma blocks_new_keys:
  assumes "FilterBlocks_new X configs limits s = (Inr fb, s')" "distinct (map fst configs)"
  shows "map fst fb = map fst configs"
proof -
  obtain ys where ys: "st_map (blocks_filter_from X limits) configs s = (Inr ys, s')" "fb = hmap_of ys"
    using assms(1) unfolding FilterBlocks_new_def st_bind_Inr by auto
  have "map fst ys = map fst configs"
  proof (rule st_map_fst [OF ys(1)])
    fix x s y s' assume "blocks_filter_from X limits x s = (Inr y, s')"
    then show "fst y = fst x"
      by (cases x) (auto simp: blocks_filter_from_def st_bind_Inr filter_name_Inr simp del: check_Inr)
  qed
  with ys(2) assms(2) show ?thesis by (simp add: hmap_of_distinct)
qed

lemma txs_new_keys:
  assumes "FilterTransactions_new X configs limits ty s = (Inr ft, s')" "distinct (map fst configs)"
  shows "map fst (ftx_filters ft) = map fst configs"
proof -
  obtain ys where ys: "st_map (tx_filter_from X limits) configs s = (Inr ys, s')"
      "ftx_filters ft = hmap_of ys"
    using assms(1) unfolding FilterTransactions_new_def st_bind_Inr by auto
  have "map fst ys = map fst configs"
  proof (rule st_map_fst [OF ys(1)])
    fix x s y s' assume "tx_filter_from X limits x s = (Inr y, s')"
    then show "fst y = fst x"
      by (cases x) (auto simp: tx_filter_from_def st_bind_Inr filter_name_Inr simp del: check_Inr)
  qed
  with ys(2) assms(2) show ?thesis by (simp add: hmap_of_distinct)
qed


definition slot_config_passes :: "MessageSlot \<Rightarrow> CommitmentLevel option \<Rightarrow> SubscribeRequestFilterSlots \<Rightarrow> bool" where
  "slot_config_passes m commitment f \<longleftrightarrow>
     (fs_filter_by_commitment f = Some True \<longrightarrow>
        (\<exists>c. commitment = Some c \<and> commitment_eq_status c (sl_status m))) \<and>
     (fs_interslot_updates f = Some True \<or> sl_status m \<in> {SProcessed, SConfirmed, SFinalized})"

text \<open>The names of the filters of a request a message belongs to.\<close>

definition subscribed :: "externs \<Rightarrow> SubscribeRequest \<Rightarrow> CommitmentLevel option \<Rightarrow> Message \<Rightarrow> string set" where
  "subscribed X r commitment msg =
     (case msg of
        MAccount m \<Rightarrow> {n. \<exists>f. (n, f) \<in> set (sr_accounts r) \<and> account_config_matches X (ac_account m) f}
      | MSlot m \<Rightarrow> {n. \<exists>f. (n, f) \<in> set (sr_slots r) \<and> slot_config_passes m commitment f}
      | MTransaction m \<Rightarrow>
          {n. \<exists>f. (n, f) \<in> set (sr_transactions r @ sr_transactions_status r) \<and>
                tx_config_matches X (mt_transaction m) f}
      | MDeshredTransaction m \<Rightarrow> {}
      | MEntry m \<Rightarrow> fst ` set (sr_entry r)
      | MBlock m \<Rightarrow> fst ` set (sr_blocks r)
      | MBlockMeta m \<Rightarrow> fst ` set (sr_blocks_meta r))"

definition message_ok :: "externs \<Rightarrow> Message \<Rightarrow> bool" where
  "message_ok X msg =
     (case msg of
        MAccount m \<Rightarrow> length (ai_data (ac_account m)) < 2 ^ 64
      | MTransaction m \<Rightarrow> caches_ok X (mt_transaction m)
      | _ \<Rightarrow> True)"

text \<open>Updates each naming at least one filter, which together name the filters of a set.\<close>

definition names_exactly :: "FilteredUpdate list \<Rightarrow> string set \<Rightarrow> bool" where
  "names_exactly us S \<longleftrightarrow> list_all (\<lambda>u. fu_filters u \<noteq> []) us \<and> (\<Union>u \<in> set us. set (fu_filters u)) = S"

lemma names_exactly_once [simp]: "names_exactly (filtered_updates_once ns m t) (set ns)"
  by (auto simp: names_exactly_def filtered_updates_once_def FilteredUpdate_new_def)

lemma names_exactly_append:
  "names_exactly us S \<Longrightarrow> names_exactly vs T \<Longrightarrow> names_exactly (us @ vs) (S \<union> T)"
  by (auto simp: names_exactly_def)

lemma names_exactly_blocks: "names_exactly (map (block_config_update X m ds) bs) (fst ` set bs)"
  by (force simp: names_exactly_def block_config_update_def FilteredUpdate_new_def list_all_iff)

lemma slot_filter_from_rel:
  assumes "slot_filter_from nf s = (Inr ni, s')"
  shows "fst ni = fst nf \<and> slot_filter_passes m c (snd ni) = slot_config_passes m c (snd nf)"
proof -
  obtain name f where nf: "nf = (name, f)" by (cases nf)
  with assms have ni: "ni = (name, FilterSlotsInner_new f)"
    by (auto simp: slot_filter_from_def st_bind_Inr filter_name_Inr)
  have "slot_filter_passes m c (FilterSlotsInner_new f) = slot_config_passes m c f"
    by (cases "fs_filter_by_commitment f"; cases "fs_interslot_updates f"; cases c)
      (simp_all add: slot_filter_passes_def slot_config_passes_def FilterSlotsInner_new_def)
  with nf ni show ?thesis by simp
qed

lemma slots_updates_named:
  assumes "FilterSlots_new configs mx s = (Inr fs, s')" "distinct (map fst configs)"
  shows "names_exactly (FilterSlots_get_updates fs m c)
    {n. \<exists>f. (n, f) \<in> set configs \<and> slot_config_passes m c f}"
proof -
  obtain ys where ys: "st_map slot_filter_from configs s = (Inr ys, s')" "fs = hmap_of ys"
    using assms(1) unfolding FilterSlots_new_def st_bind_Inr by auto
  have rel: "list_all2 (\<lambda>nf ni. fst ni = fst nf \<and>
      slot_filter_passes m c (snd ni) = slot_config_passes m c (snd nf)) configs ys"
    by (rule st_map_list_all2 [OF _ ys(1)]) (rule slot_filter_from_rel)
  then have "map fst ys = map fst configs" by (induction rule: list_all2_induct) auto
  with assms(2) ys(2) have fs: "fs = ys" by (simp add: hmap_of_distinct)
  have "map fst (filter (\<lambda>(n, inner). slot_filter_passes m c inner) ys) =
      map fst (filter (\<lambda>(n, f). slot_config_passes m c f) configs)"
    using rel by (induction rule: list_all2_induct) auto
  moreover have "set (map fst (filter (\<lambda>(n, f). slot_config_passes m c f) configs)) =
      {n. \<exists>f. (n, f) \<in> set configs \<and> slot_config_passes m c f}" by force
  ultimately show ?thesis
    unfolding FilterSlots_get_updates_def fs using names_exactly_once by metis
qed

lemma txs_updates_named:
  assumes "FilterTransactions_new X configs limits ty s = (Inr ft, s')" "distinct (map fst configs)"
    "\<forall>(n, f) \<in> set configs. \<forall>p. ft_cuckoo_account_include f = Some p \<longrightarrow> length (pc_data p) < 2 ^ 63"
    "caches_ok X (mt_transaction m)"
  obtains us m' where "FilterTransactions_get_updates X ft m = Some (us, m')"
    "names_exactly us {n. \<exists>f. (n, f) \<in> set configs \<and> tx_config_matches X (mt_transaction m) f}"
    "same_tx (mt_transaction m) (mt_transaction m')" "caches_ok X (mt_transaction m')"
    "m' = m\<lparr>mt_transaction := mt_transaction m'\<rparr>"
proof -
  obtain ns m' where *: "FilterTransactions_get_updates X ft m =
      Some (filtered_updates_once ns
        (if ty = TxTransaction then oneof_transaction m' else FTransactionStatus m') (mt_created_at m), m')"
    "set ns = {n. \<exists>f. (n, f) \<in> set configs \<and> tx_config_matches X (mt_transaction m) f}"
    "m' = m\<lparr>mt_transaction := mt_transaction m'\<rparr>" "same_tx (mt_transaction m) (mt_transaction m')"
    "caches_ok X (mt_transaction m')"
    using accepted_transactions_updates [OF assms] by blast
  show ?thesis
    by (rule that [OF *(1) _ *(4,5,3)]) (simp flip: *(2))
qed

lemma tx_config_matches_same:
  "same_tx a b \<Longrightarrow> tx_config_matches X b f = tx_config_matches X a f"
  by (simp add: tx_config_matches_def effective_set_def same_tx_fields split: option.split)

lemma account_updates_named:
  assumes "FilterAccounts_new X configs limits s = Some (Inr fa, s')"
    and "\<forall>(n, f) \<in> set configs. config_ok f" "indexable configs" "length (ai_data (ac_account m)) < 2 ^ 64"
  obtains us where "FilterAccounts_get_updates X fa m ds = Some us"
    "names_exactly us {n. \<exists>f. (n, f) \<in> set configs \<and> account_config_matches X (ac_account m) f}"
proof -
  let ?ns = "map fst (filter (\<lambda>(n, f). account_config_matches X (ac_account m) f) configs)"
  have "FilterAccounts_get_updates X fa m ds =
      Some (filtered_updates_once ?ns (oneof_account m ds) (ac_created_at m))"
    using accepted_accounts_scan [OF assms] by (simp add: FilterAccounts_get_updates_def)
  moreover have "set ?ns = {n. \<exists>f. (n, f) \<in> set configs \<and> account_config_matches X (ac_account m) f}" by force
  ultimately show ?thesis using that names_exactly_once by metis
qed

lemma request_ok_parts:
  assumes "request_ok r"
  shows "distinct (map fst (sr_slots r))" "distinct (map fst (sr_transactions r))"
    "distinct (map fst (sr_transactions_status r))" "distinct (map fst (sr_blocks r))"
    "\<forall>(n, f) \<in> set (sr_accounts r). config_ok f" "indexable (sr_accounts r)"
    "\<forall>(n, f) \<in> set (sr_transactions r). \<forall>p. ft_cuckoo_account_include f = Some p \<longrightarrow> length (pc_data p) < 2 ^ 63"
    "\<forall>(n, f) \<in> set (sr_transactions_status r). \<forall>p. ft_cuckoo_account_include f = Some p \<longrightarrow> length (pc_data p) < 2 ^ 63"
    "\<forall>(n, f) \<in> set (sr_blocks r). \<forall>p. fb_cuckoo_account_include f = Some p \<longrightarrow> length (pc_data p) < 2 ^ 63"
  using assms unfolding request_ok_def list_all_iff by (fastforce split: option.splits)+

lemma Filter_new_parts:
  assumes "Filter_new X r limits names = Some (Inr F, names')"
  shows "\<exists>s'. FilterAccounts_new X (sr_accounts r) (fl_accounts limits) names = Some (Inr (f_accounts F), s')"
    "\<exists>s s'. FilterSlots_new (sr_slots r) (fl_slots_max limits) s = (Inr (f_slots F), s')"
    "\<exists>s s'. FilterTransactions_new X (sr_transactions r) (fl_transactions limits) TxTransaction s =
       (Inr (f_transactions F), s')"
    "\<exists>s s'. FilterTransactions_new X (sr_transactions_status r) (fl_transactions_status limits)
       TxTransactionStatus s = (Inr (f_transactions_status F), s')"
    "\<exists>s s'. FilterBlocks_new X (sr_blocks r) (fl_blocks limits) s = (Inr (f_blocks F), s')"
    "f_entries F = map fst (sr_entry r)" "f_blocks_meta F = map fst (sr_blocks_meta r)"
proof -
  obtain n1 n2 n3 n4 n5 n6 where new:
    "FilterAccounts_new X (sr_accounts r) (fl_accounts limits) names = Some (Inr (f_accounts F), n1)"
    "FilterSlots_new (sr_slots r) (fl_slots_max limits) n1 = (Inr (f_slots F), n2)"
    "FilterTransactions_new X (sr_transactions r) (fl_transactions limits) TxTransaction n2 =
       (Inr (f_transactions F), n3)"
    "FilterTransactions_new X (sr_transactions_status r) (fl_transactions_status limits)
       TxTransactionStatus n3 = (Inr (f_transactions_status F), n4)"
    "FilterNamesOnly_new (sr_entry r) (fl_entries_max limits) n4 = (Inr (f_entries F), n5)"
    "FilterBlocks_new X (sr_blocks r) (fl_blocks limits) n5 = (Inr (f_blocks F), n6)"
    "FilterNamesOnly_new (sr_blocks_meta r) (fl_blocks_meta_max limits) n6 = (Inr (f_blocks_meta F), names')"
    using assms by (rule Filter_new_Inr)
  show "\<exists>s'. FilterAccounts_new X (sr_accounts r) (fl_accounts limits) names = Some (Inr (f_accounts F), s')"
    using new(1) by (rule exI)
  show "\<exists>s s'. FilterSlots_new (sr_slots r) (fl_slots_max limits) s = (Inr (f_slots F), s')"
    using new(2) by (intro exI)
  show "\<exists>s s'. FilterTransactions_new X (sr_transactions r) (fl_transactions limits) TxTransaction s =
       (Inr (f_transactions F), s')"
    using new(3) by (intro exI)
  show "\<exists>s s'. FilterTransactions_new X (sr_transactions_status r) (fl_transactions_status limits)
       TxTransactionStatus s = (Inr (f_transactions_status F), s')"
    using new(4) by (intro exI)
  show "\<exists>s s'. FilterBlocks_new X (sr_blocks r) (fl_blocks limits) s = (Inr (f_blocks F), s')"
    using new(6) by (intro exI)
  show "f_entries F = map fst (sr_entry r)" by (rule names_only_keys(1) [OF new(5)])
  show "f_blocks_meta F = map fst (sr_blocks_meta r)" by (rule names_only_keys(1) [OF new(7)])
qed

lemma dispatch_transaction:
  assumes new: "Filter_new X r limits names = Some (Inr F, names')" and ok: "request_ok r"
    and m: "caches_ok X (mt_transaction m)"
  obtains us msg' where "Filter_get_updates X F (MTransaction m) commitment = Some (us, msg')"
    "names_exactly us (subscribed X r commitment (MTransaction m))"
proof -
  note ok = request_ok_parts [OF ok]
  obtain s1 s1' s2 s2' where n:
    "FilterTransactions_new X (sr_transactions r) (fl_transactions limits) TxTransaction s1 = (Inr (f_transactions F), s1')"
    "FilterTransactions_new X (sr_transactions_status r) (fl_transactions_status limits)
       TxTransactionStatus s2 = (Inr (f_transactions_status F), s2')"
    using Filter_new_parts(3,4) [OF new] by (elim exE) (rule that)
  obtain us m1 where us: "FilterTransactions_get_updates X (f_transactions F) m = Some (us, m1)"
    "names_exactly us {n. \<exists>f. (n, f) \<in> set (sr_transactions r) \<and> tx_config_matches X (mt_transaction m) f}"
    "same_tx (mt_transaction m) (mt_transaction m1)" "caches_ok X (mt_transaction m1)"
    by (rule txs_updates_named [OF n(1) ok(2,7) m])
  obtain vs m2 where vs: "FilterTransactions_get_updates X (f_transactions_status F) m1 = Some (vs, m2)"
    "names_exactly vs {n. \<exists>f. (n, f) \<in> set (sr_transactions_status r) \<and> tx_config_matches X (mt_transaction m1) f}"
    by (rule txs_updates_named [OF n(2) ok(3,8) us(4)])
  have "subscribed X r commitment (MTransaction m) =
      {n. \<exists>f. (n, f) \<in> set (sr_transactions r) \<and> tx_config_matches X (mt_transaction m) f} \<union>
      {n. \<exists>f. (n, f) \<in> set (sr_transactions_status r) \<and> tx_config_matches X (mt_transaction m1) f}"
    using tx_config_matches_same [OF us(3)] by (auto simp: subscribed_def)
  then show ?thesis
    using that us(1) vs(1) names_exactly_append [OF us(2) vs(2)] by (simp add: Filter_get_updates_def)
qed

lemma dispatch_account:
  assumes new: "Filter_new X r limits names = Some (Inr F, names')" and ok: "request_ok r"
    and m: "length (ai_data (ac_account m)) < 2 ^ 64"
  obtains us where "Filter_get_updates X F (MAccount m) commitment = Some (us, MAccount m)"
    "names_exactly us (subscribed X r commitment (MAccount m))"
proof -
  note ok = request_ok_parts [OF ok]
  obtain s' where n: "FilterAccounts_new X (sr_accounts r) (fl_accounts limits) names = Some (Inr (f_accounts F), s')"
    using Filter_new_parts(1) [OF new] by (rule exE)
  obtain us where "FilterAccounts_get_updates X (f_accounts F) m (f_accounts_data_slice F) = Some us"
    "names_exactly us {n. \<exists>f. (n, f) \<in> set (sr_accounts r) \<and> account_config_matches X (ac_account m) f}"
    by (rule account_updates_named [OF n ok(5,6) m])
  then show ?thesis using that by (simp add: Filter_get_updates_def subscribed_def)
qed

text \<open>A request whose every kind of filter is used, and the filter built from it.\<close>

definition toy_request :: SubscribeRequest where
  "toy_request =
     \<lparr>sr_accounts = [(''a'', toy_filter [''A''] [Some (Lamports (Some (CmpGt 3)))])],
      sr_slots = [(''s'', \<lparr>fs_filter_by_commitment = Some True, fs_interslot_updates = None\<rparr>)],
      sr_transactions = [(''t'', toy_tx_filter [''A''] [''B''])], sr_transactions_status = [],
      sr_blocks = [(''b'', toy_block_filter (Some True))], sr_blocks_meta = [(''m'', ())],
      sr_entry = [(''e'', ())], sr_commitment = None, sr_accounts_data_slice = [], sr_ping = Some 1,
      sr_from_slot = None\<rparr>"


lemma toy_filter_new:
  "Filter_new toy_ext toy_request FilterLimits_default toy_name_table =
   Some (Inr \<lparr>f_accounts = LinearScan [(toy_agg ''a'' (Some [[65]]) None None)
               \<lparr>ag_account_state := Some (FilterAccountsState_default\<lparr>fst_lamports := [LGt 3]\<rparr>)\<rparr>],
      f_slots = [(''s'', \<lparr>fsi_filter_by_commitment = True, fsi_interslot_updates = False\<rparr>)],
      f_transactions = \<lparr>ftx_filter_type = TxTransaction, ftx_filters = [(''t'', toy_inner [[65]] [[66]])]\<rparr>,
      f_transactions_status = \<lparr>ftx_filter_type = TxTransactionStatus, ftx_filters = []\<rparr>,
      f_entries = [''e''], f_blocks = [(''b'', toy_block_inner (Some True))], f_blocks_meta = [''m''],
      f_commitment = Processed, f_accounts_data_slice = [], f_ping = Some 1\<rparr>,
     toy_name_table\<lparr>fn_names := [''a'', ''s'', ''t'', ''e'', ''b'', ''m'']\<rparr>)"
  by (simp add: Filter_new_def toy_request_def FilterLimits_default_def FilterAccounts_new_def aggregate_from_def
      st_bind_def toy_filter_def FilterLimitsAccounts_default_def FilterAccountsState_new_def MAX_FILTERS_def
      state_add_def FilterAccountsState_default_def lamports_from_def state_is_empty_def opt_nonempty_def
      FilterAccountAggregate_new_def strategy_build_def try_init_def build_unindexed_def DIRECT_SCAN_LIMIT_def
      toy_agg_def FilterSlots_new_def slot_filter_from_def FilterSlotsInner_new_def FilterNamesOnly_new_def
      FilterTransactions_new_def tx_filter_from_def toy_tx_filter_def FilterLimitsTransactions_default_def
      FilterBlocks_new_def blocks_filter_from_def toy_block_filter_def FilterLimitsBlocks_default_def
      cuckoo_from_def transpose_result_def hmap_of_def toy_inner_def toy_block_inner_def decode_commitment_def Let_def
      CommitmentLevelProto_as_i32_def CommitmentLevelProto_try_from_def commitment_of_proto_def
      FilterAccountsDataSlice_new_def toy_check_simps toy_names_simps toy_decode_simps)

lemma toy_request_ok: "request_ok toy_request"
  by (simp add: request_ok_def toy_request_def config_ok_def toy_filter_def toy_tx_filter_def toy_block_filter_def
      indexable_def filter_offset_ok_def)

section \<open>Properties\<close>



text \<open>The metrics of an accepted subscription count the request: each kind's figure is the number of
  filters requested of that kind, and \<open>all\<close> is their sum.\<close>

lemma subscription_metrics_count_request:
  assumes "Filter_new X r limits names = Some (Inr F, names')" "request_ok r"
  shows "Filter_get_metrics F =
    (let a = length (sr_accounts r); s = length (sr_slots r); t = length (sr_transactions r);
         ts = length (sr_transactions_status r); e = length (sr_entry r); b = length (sr_blocks r);
         bm = length (sr_blocks_meta r)
     in [(''accounts'', a), (''slots'', s), (''transactions'', t), (''transactions_status'', ts),
         (''entries'', e), (''blocks'', b), (''blocks_meta'', bm), (''all'', a + s + t + ts + e + b + bm)])"
proof -
  note new = Filter_new_parts [OF assms(1)] and ok = request_ok_parts [OF assms(2)]
  obtain s' where n: "FilterAccounts_new X (sr_accounts r) (fl_accounts limits) names = Some (Inr (f_accounts F), s')"
    using new(1) by (rule exE)
  obtain aggs where aggs: "list_all2 (agg_rel X) (sr_accounts r) aggs" "strategy_build aggs = Some (f_accounts F)"
      "list_all agg_wf aggs"
    using n ok(5) by (rule FilterAccounts_new_Inr)
  have "strategy_aggregates (f_accounts F) = aggs"
    using strategy_build_valid [OF aggs(3) indexable_budget [OF aggs(1) ok(6)]] aggs(2) by auto
  then have a: "length (strategy_aggregates (f_accounts F)) = length (sr_accounts r)"
    using list_all2_lengthD [OF aggs(1)] by simp
  have keys: "map fst (f_slots F) = map fst (sr_slots r)"
    using new(2) by (elim exE) (rule slots_new_keys(1) [OF _ ok(1)])
  have keys1: "map fst (ftx_filters (f_transactions F)) = map fst (sr_transactions r)"
    using new(3) by (elim exE) (rule txs_new_keys [OF _ ok(2)])
  have keys2: "map fst (ftx_filters (f_transactions_status F)) = map fst (sr_transactions_status r)"
    using new(4) by (elim exE) (rule txs_new_keys [OF _ ok(3)])
  have keys3: "map fst (f_blocks F) = map fst (sr_blocks r)"
    using new(5) by (elim exE) (rule blocks_new_keys [OF _ ok(4)])
  show ?thesis
    unfolding Filter_get_metrics_def a map_eq_imp_length_eq [OF keys] map_eq_imp_length_eq [OF keys1]
      map_eq_imp_length_eq [OF keys2] map_eq_imp_length_eq [OF keys3] new(6,7) length_map ..
qed

lemma subscription_metrics_count_request_witness:
  "\<exists>F names'. Filter_new toy_ext toy_request FilterLimits_default toy_name_table = Some (Inr F, names') \<and>
     Filter_get_metrics F =
       [(''accounts'', 1), (''slots'', 1), (''transactions'', 1), (''transactions_status'', 0),
        (''entries'', 1), (''blocks'', 1), (''blocks_meta'', 1), (''all'', 6)]"
  using subscription_metrics_count_request [OF toy_filter_new toy_request_ok] toy_filter_new
  by (simp add: toy_request_def)

end
