(* ===== verification/Channels.thy ===== *)
theory Channels
  imports Prelude
begin

text \<open>
  What the server and the client use of \<^verbatim>\<open>tokio\<close> and \<^verbatim>\<open>tonic\<close>: poll results, statuses and the operations
  of channels. The channels are third-party code: their operations are parameters, gathered in records,
  and the predicates below state their documented behaviour. The instances at the end satisfy them.
\<close>

section \<open>Polls and statuses\<close>

datatype 'a poll = Ready 'a | Pending

datatype Code =
    Ok_ | Cancelled | Unknown | InvalidArgument | DeadlineExceeded | NotFound | AlreadyExists
  | PermissionDenied | ResourceExhausted | FailedPrecondition | Aborted | OutOfRange | Unimplemented
  | Internal | Unavailable | DataLoss | Unauthenticated

text \<open>\<open>stat_transport\<close>: the source of the status is a transport error.\<close>

record Status =
  stat_code :: Code
  stat_message :: string
  stat_transport :: bool

definition Status_internal :: "string \<Rightarrow> Status" where
  "Status_internal msg = \<lparr>stat_code = Internal, stat_message = msg, stat_transport = False\<rparr>"

section \<open>Channels\<close>

text \<open>What a broadcast receiver yields; a lagging receiver learns how many messages it missed.\<close>

datatype 'e received = Received 'e | Lagged u64 | Disconnected

text \<open>A broadcast channel and its receivers, and a watch channel of a flag with a number of receivers;
  \<open>tk_recv\<close> is \<open>None\<close> when there is nothing to receive yet.\<close>

record ('e, 'q, 'r, 'w) tokio =
  tk_channel :: "nat \<Rightarrow> 'q"
  tk_send :: "'e \<Rightarrow> 'q \<Rightarrow> 'q"
  tk_subscribe :: "'q \<Rightarrow> 'r"
  tk_recv :: "'q \<Rightarrow> 'r \<Rightarrow> ('e received \<times> 'r) option"
  tk_watch :: "bool \<Rightarrow> 'w"
  tk_watch_send :: "bool \<Rightarrow> 'w \<Rightarrow> 'w"
  tk_watch_borrow :: "'w \<Rightarrow> bool"
  tk_watch_subscribe :: "'w \<Rightarrow> 'w"
  tk_watch_drop :: "'w \<Rightarrow> 'w"

section \<open>The contract of broadcast and watch channels\<close>

text \<open>A broadcast channel has a history of what was sent; a receiver is at a position of it, gets the messages in
  order from its subscription on, and is moved ahead when it lags.\<close>

definition recv_ok :: "'e list \<Rightarrow> nat \<Rightarrow> ('r \<Rightarrow> nat) \<Rightarrow> ('e received \<times> 'r) option \<Rightarrow> bool" where
  "recv_ok sent at_pos pos res =
     (case res of
        None \<Rightarrow> at_pos = length sent
      | Some (Received e, r) \<Rightarrow> at_pos < length sent \<and> sent ! at_pos = e \<and> pos r = at_pos + 1
      | Some (Lagged _, r) \<Rightarrow> at_pos < pos r \<and> pos r \<le> length sent
      | Some (Disconnected, _) \<Rightarrow> True)"

definition broadcast_ok :: "('e, 'q, 'r, 'w) tokio \<Rightarrow> ('q \<Rightarrow> 'e list) \<Rightarrow> ('r \<Rightarrow> nat) \<Rightarrow> bool" where
  "broadcast_ok T hist pos \<longleftrightarrow>
     (\<forall>c. hist (tk_channel T c) = []) \<and> (\<forall>e q. hist (tk_send T e q) = hist q @ [e]) \<and>
     (\<forall>q. pos (tk_subscribe T q) = length (hist q)) \<and>
     (\<forall>q r. pos r \<le> length (hist q) \<longrightarrow> recv_ok (hist q) (pos r) pos (tk_recv T q r))"

lemma broadcast_ok_send: "broadcast_ok T hist pos \<Longrightarrow> hist (tk_send T e q) = hist q @ [e]"
  and broadcast_ok_subscribe: "broadcast_ok T hist pos \<Longrightarrow> pos (tk_subscribe T q) = length (hist q)"
  and broadcast_ok_channel: "broadcast_ok T hist pos \<Longrightarrow> hist (tk_channel T n) = []"
  and broadcast_ok_recv:
    "broadcast_ok T hist pos \<Longrightarrow> pos r \<le> length (hist q) \<Longrightarrow> recv_ok (hist q) (pos r) pos (tk_recv T q r)"
  by (simp_all add: broadcast_ok_def)

text \<open>A watch channel keeps the value it has when a send finds no receiver.\<close>

definition watch_ok :: "('e, 'q, 'r, 'w) tokio \<Rightarrow> ('w \<Rightarrow> nat) \<Rightarrow> bool" where
  "watch_ok T receivers \<longleftrightarrow>
     (\<forall>b. tk_watch_borrow T (tk_watch T b) = b \<and> receivers (tk_watch T b) = 0) \<and>
     (\<forall>b w. receivers (tk_watch_send T b w) = receivers w \<and>
        tk_watch_borrow T (tk_watch_send T b w) = (if receivers w = 0 then tk_watch_borrow T w else b)) \<and>
     (\<forall>w. receivers (tk_watch_subscribe T w) = receivers w + 1 \<and>
        tk_watch_borrow T (tk_watch_subscribe T w) = tk_watch_borrow T w) \<and>
     (\<forall>w. receivers (tk_watch_drop T w) = receivers w - 1 \<and>
        tk_watch_borrow T (tk_watch_drop T w) = tk_watch_borrow T w)"

section \<open>Queues\<close>

text \<open>The receiver of an \<open>mpsc\<close> queue: \<open>poll_recv\<close> yields the next message, or \<open>None\<close> when the queue is closed
  and empty; \<open>try_recv\<close> does not wait.\<close>

datatype 'm try_received = TryItem 'm | TryEmpty | TryDisconnected

record ('m, 'r) mpsc_receiver =
  mp_poll_recv :: "'r \<Rightarrow> 'm option poll \<times> 'r"
  mp_try_recv :: "'r \<Rightarrow> 'm try_received \<times> 'r"

definition receiver_ok :: "('m, 'r) mpsc_receiver \<Rightarrow> ('r \<Rightarrow> 'm list) \<Rightarrow> bool" where
  "receiver_ok R queue \<longleftrightarrow>
     (\<forall>r. case mp_poll_recv R r of
            (Ready (Some x), r') \<Rightarrow> queue r = x # queue r'
          | (Ready None, r') \<Rightarrow> queue r = [] \<and> queue r' = []
          | (Pending, r') \<Rightarrow> queue r' = queue r) \<and>
     (\<forall>r. case mp_try_recv R r of
            (TryItem x, r') \<Rightarrow> queue r = x # queue r'
          | (TryEmpty, r') \<Rightarrow> queue r' = queue r
          | (TryDisconnected, r') \<Rightarrow> queue r = [] \<and> queue r' = [])"

lemma receiver_ok_try:
  assumes "receiver_ok R queue" "mp_try_recv R r = (res, r1)"
  shows "case res of TryItem x \<Rightarrow> queue r = x # queue r1 | _ \<Rightarrow> queue r1 = queue r"
proof -
  have "case mp_try_recv R r of (TryItem x, r') \<Rightarrow> queue r = x # queue r' | (TryEmpty, r') \<Rightarrow> queue r' = queue r
      | (TryDisconnected, r') \<Rightarrow> queue r = [] \<and> queue r' = []"
    using assms(1) by (simp add: receiver_ok_def)
  with assms(2) show ?thesis by (simp split: try_received.splits)
qed

lemma receiver_ok_poll:
  assumes "receiver_ok R queue" "mp_poll_recv R r = (res, r1)"
  shows "case res of Ready (Some x) \<Rightarrow> queue r = x # queue r1 | Ready None \<Rightarrow> queue r = [] \<and> queue r1 = []
    | Pending \<Rightarrow> queue r1 = queue r"
proof -
  have "case mp_poll_recv R r of (Ready (Some x), r') \<Rightarrow> queue r = x # queue r'
      | (Ready None, r') \<Rightarrow> queue r = [] \<and> queue r' = [] | (Pending, r') \<Rightarrow> queue r' = queue r"
    using assms(1) by (simp add: receiver_ok_def)
  with assms(2) show ?thesis by (simp split: poll.splits option.splits)
qed

text \<open>The sender of a bounded queue: \<open>try_send\<close> may find it full, \<open>send\<close> waits for room, and both fail once the
  receiver is gone.\<close>

datatype send_outcome = Sent | QueueFull | QueueClosed

record ('x, 'c) mpsc_sender =
  ms_try_send :: "'x \<Rightarrow> 'c \<Rightarrow> send_outcome \<times> 'c"
  ms_send :: "'x \<Rightarrow> 'c \<Rightarrow> bool \<times> 'c"

definition sender_ok :: "('x, 'c) mpsc_sender \<Rightarrow> ('c \<Rightarrow> 'x list) \<Rightarrow> bool" where
  "sender_ok S sent \<longleftrightarrow>
     (\<forall>x c. case ms_try_send S x c of (outcome, c') \<Rightarrow> sent c' = sent c @ (if outcome = Sent then [x] else [])) \<and>
     (\<forall>x c. case ms_send S x c of (ok, c') \<Rightarrow> sent c' = sent c @ (if ok then [x] else []))"

section \<open>Instances\<close>

definition ring :: "('e, 'e list \<times> nat, nat, bool \<times> nat) tokio" where
  "ring =
     \<lparr>tk_channel = (\<lambda>c. ([], c)), tk_send = (\<lambda>e (l, c). (l @ [e], c)), tk_subscribe = (\<lambda>(l, c). length l),
      tk_recv = (\<lambda>(l, c) r. if length l \<le> r then None
        else if r + c < length l then Some (Lagged (of_nat (length l - c - r)), length l - c)
        else Some (Received (l ! r), r + 1)),
      tk_watch = (\<lambda>b. (b, 0)), tk_watch_send = (\<lambda>b (old, n). (if n = 0 then old else b, n)),
      tk_watch_borrow = fst, tk_watch_subscribe = (\<lambda>(b, n). (b, n + 1)), tk_watch_drop = (\<lambda>(b, n). (b, n - 1))\<rparr>"

lemma ring_ok: "broadcast_ok ring fst id" "watch_ok ring snd"
  by (auto simp: broadcast_ok_def recv_ok_def watch_ok_def ring_def)

definition list_receiver :: "('m, 'm list) mpsc_receiver" where
  "list_receiver =
     \<lparr>mp_poll_recv = (\<lambda>q. case q of [] \<Rightarrow> (Ready None, []) | x # r \<Rightarrow> (Ready (Some x), r)),
      mp_try_recv = (\<lambda>q. case q of [] \<Rightarrow> (TryEmpty, []) | x # r \<Rightarrow> (TryItem x, r))\<rparr>"

lemma list_receiver_ok: "receiver_ok list_receiver id"
  by (simp add: receiver_ok_def list_receiver_def split: list.split)

text \<open>A queue with room for \<open>n\<close> more messages.\<close>

definition room_sender :: "('x, 'x list \<times> nat) mpsc_sender" where
  "room_sender =
     \<lparr>ms_try_send = (\<lambda>x (xs, n). if n = 0 then (QueueFull, (xs, n)) else (Sent, (xs @ [x], n - 1))),
      ms_send = (\<lambda>x (xs, n). (True, (xs @ [x], n - 1)))\<rparr>"

lemma room_sender_ok: "sender_ok room_sender fst"
  by (auto simp: sender_ok_def room_sender_def)

end
