(* ===== verification/Client_Dedup.thy ===== *)
theory Client_Dedup
  imports Messages Channels
begin

text \<open>
  Deduplication in the client library (\<^verbatim>\<open>yellowstone-grpc-client/src/dedup.rs\<close>): the keys of
  updates, the per-slot state, the quarantine of replayed messages and the stream wrapper. Hash maps
  keyed by slot are partial functions, hash sets are sets. The wrapper is generic in the message and in
  the inner stream, as in the source: \<open>extract\<close> is the method of the trait \<open>Dedupable\<close>,
  \<open>poll_inner\<close> and \<open>count_of\<close> are the inner stream's \<open>poll_next\<close> and its
  reconnect counter.
\<close>

section \<open>Keys\<close>

datatype DedupKey =
    KSlot i32
  | KAccount bytes "bytes option"
  | KTransaction u64
  | KTransactionStatus u64
  | KEntry u64
  | KBlockMeta string
  | KBlock u64
  | KDeshredTransaction bytes

definition CREATED_BANK_STATUS :: i32 where
  "CREATED_BANK_STATUS = SlotStatusProto_as_i32 SlotCreatedBank"

definition DEFAULT_SLOT_RETENTION :: nat where "DEFAULT_SLOT_RETENTION = 250"

definition extract_key :: "SubscribeUpdate \<Rightarrow> (u64 \<times> DedupKey) option" where
  "extract_key u =
     do {
       oneof \<leftarrow> su_update_oneof u;
       (case oneof of
          USlot m \<Rightarrow> Some (us_slot m, KSlot (us_status m))
        | UAccount m \<Rightarrow> do {
            info \<leftarrow> ua_account m;
            pubkey \<leftarrow> try_array 32 (uai_pubkey info);
            let sig = Option.bind (uai_txn_signature info) (try_array 64);
            Some (ua_slot m, KAccount pubkey sig)
          }
        | UTransaction m \<Rightarrow> do {
            info \<leftarrow> ut_transaction m;
            Some (ut_slot m, KTransaction (uti_index info))
          }
        | UTransactionStatus m \<Rightarrow> Some (uts_slot m, KTransactionStatus (uts_index m))
        | UEntry m \<Rightarrow> Some (ue_slot m, KEntry (ue_index m))
        | UBlockMeta m \<Rightarrow> Some (um_slot m, KBlockMeta (um_blockhash m))
        | UBlock m \<Rightarrow> Some (ub_slot m, KBlock (ub_slot m))
        | UPing \<Rightarrow> None
        | UPong _ \<Rightarrow> None)
     }"

text \<open>The wire types of the deshred stream.\<close>

record SubscribeUpdateDeshredTransactionInfo =
  udi_signature :: bytes
  udi_is_vote :: bool
  udi_transaction :: "Transaction option"
  udi_loaded_writable_addresses :: "bytes list"
  udi_loaded_readonly_addresses :: "bytes list"
  udi_starting_shred_index :: u32
  udi_ending_shred_index_exclusive :: u32

record SubscribeUpdateDeshredTransaction =
  ud_transaction :: "SubscribeUpdateDeshredTransactionInfo option"
  ud_slot :: u64

datatype DeshredUpdateOneof =
    DUTransaction SubscribeUpdateDeshredTransaction
  | DUPing
  | DUPong i32
  | DUSlot SubscribeUpdateSlot

record SubscribeUpdateDeshred =
  sud_filters :: "string list"
  sud_update_oneof :: "DeshredUpdateOneof option"
  sud_created_at :: "Timestamp option"

definition extract_key_deshred :: "SubscribeUpdateDeshred \<Rightarrow> (u64 \<times> DedupKey) option" where
  "extract_key_deshred u =
     do {
       oneof \<leftarrow> sud_update_oneof u;
       (case oneof of
          DUTransaction m \<Rightarrow> do {
            info \<leftarrow> ud_transaction m;
            sig \<leftarrow> try_array 64 (udi_signature info);
            Some (ud_slot m, KDeshredTransaction sig)
          }
        | DUSlot m \<Rightarrow> Some (us_slot m, KSlot (us_status m))
        | DUPing \<Rightarrow> None
        | DUPong _ \<Rightarrow> None)
     }"

section \<open>State\<close>

datatype Observation =
    New
  | Duplicate
  | Replay
  | ReplayComplete bool
  | PartialReplayComplete "DedupKey set"

record SealedSlot =
  ss_blockhash :: "string option"
  ss_statuses :: "i32 set"

record SlotState =
  sst_keys :: "DedupKey set"
  sst_replaying :: bool
  sst_statuses :: "i32 set"

definition SlotState_default :: SlotState where
  "SlotState_default = \<lparr>sst_keys = {}, sst_replaying = False, sst_statuses = {}\<rparr>"

record DedupState =
  dd_inflight :: "u64 \<rightharpoonup> SlotState"
  dd_sealed :: "u64 \<rightharpoonup> SealedSlot"
  dd_slot_order :: "u64 list"
  dd_slot_retention :: nat

definition with_slot_retention :: "nat \<Rightarrow> DedupState" where
  "with_slot_retention n =
     \<lparr>dd_inflight = Map.empty, dd_sealed = Map.empty, dd_slot_order = [], dd_slot_retention = n\<rparr>"

definition DedupState_default :: DedupState where
  "DedupState_default = with_slot_retention DEFAULT_SLOT_RETENTION"

text \<open>The state with the slot's entry created if missing, and that entry.\<close>

definition slot_mut :: "DedupState \<Rightarrow> u64 \<Rightarrow> SlotState \<times> DedupState" where
  "slot_mut d slot =
     (let order = (if dd_inflight d slot = None \<and> dd_sealed d slot = None
                   then dd_slot_order d @ [slot] else dd_slot_order d);
          st = (case dd_inflight d slot of None \<Rightarrow> SlotState_default | Some st \<Rightarrow> st)
      in (st, d\<lparr>dd_inflight := (dd_inflight d)(slot \<mapsto> st), dd_slot_order := order\<rparr>))"

definition forget :: "u64 \<Rightarrow> DedupState \<Rightarrow> DedupState" where
  "forget slot d = d\<lparr>dd_inflight := (dd_inflight d)(slot := None), dd_sealed := (dd_sealed d)(slot := None)\<rparr>"

fun prune_loop :: "u64 list \<Rightarrow> DedupState \<Rightarrow> DedupState" where
  "prune_loop [] d = d\<lparr>dd_slot_order := []\<rparr>"
| "prune_loop (slot # rest) d =
     (if length (slot # rest) > dd_slot_retention d then prune_loop rest (forget slot d)
      else d\<lparr>dd_slot_order := slot # rest\<rparr>)"

definition dd_prune :: "DedupState \<Rightarrow> DedupState" where
  "dd_prune d = prune_loop (dd_slot_order d) d"

definition dd_prepare_for_replay :: "DedupState \<Rightarrow> DedupState" where
  "dd_prepare_for_replay d =
     d\<lparr>dd_inflight := (\<lambda>slot. map_option (\<lambda>st. st\<lparr>sst_replaying := True\<rparr>) (dd_inflight d slot))\<rparr>"

definition clear_slot :: "u64 \<Rightarrow> DedupState \<Rightarrow> DedupState" where
  "clear_slot slot d = (forget slot d)\<lparr>dd_slot_order := filter (\<lambda>s. s \<noteq> slot) (dd_slot_order d)\<rparr>"

definition replaying_at :: "DedupState \<Rightarrow> u64 \<Rightarrow> bool" where
  "replaying_at d slot = (case dd_inflight d slot of None \<Rightarrow> False | Some st \<Rightarrow> sst_replaying st)"

definition observe_status :: "DedupState \<Rightarrow> u64 \<Rightarrow> i32 \<Rightarrow> Observation \<times> DedupState" where
  "observe_status d0 slot status =
     (let d = (if status = CREATED_BANK_STATUS \<and> \<not> replaying_at d0 slot then clear_slot slot d0 else d0)
      in case dd_sealed d slot of
           Some s \<Rightarrow>
             (if status \<in> ss_statuses s then (Duplicate, d)
              else (New, d\<lparr>dd_sealed := (dd_sealed d)(slot \<mapsto> s\<lparr>ss_statuses := insert status (ss_statuses s)\<rparr>)\<rparr>))
         | None \<Rightarrow>
             (case slot_mut d slot of (st, d1) \<Rightarrow>
                if status \<in> sst_statuses st then (Duplicate, d1)
                else (New, dd_prune (d1\<lparr>dd_inflight :=
                       (dd_inflight d1)(slot \<mapsto> st\<lparr>sst_statuses := insert status (sst_statuses st)\<rparr>)\<rparr>))))"

definition observe_block_meta :: "DedupState \<Rightarrow> u64 \<Rightarrow> string \<Rightarrow> Observation \<times> DedupState" where
  "observe_block_meta d slot blockhash =
     (case dd_sealed d slot of
        Some s \<Rightarrow>
          (ReplayComplete (ss_blockhash s = Some blockhash),
           d\<lparr>dd_sealed := (dd_sealed d)(slot \<mapsto> s\<lparr>ss_blockhash := Some blockhash\<rparr>)\<rparr>)
      | None \<Rightarrow>
          (let st = (case dd_inflight d slot of None \<Rightarrow> SlotState_default | Some st \<Rightarrow> st);
               d1 = dd_prune
                 (d\<lparr>dd_inflight := (dd_inflight d)(slot := None),
                    dd_sealed := (dd_sealed d)(slot \<mapsto>
                      \<lparr>ss_blockhash = Some blockhash, ss_statuses = sst_statuses st\<rparr>)\<rparr>)
           in (if sst_replaying st then PartialReplayComplete (sst_keys st) else New, d1)))"

definition observe_payload :: "DedupState \<Rightarrow> u64 \<Rightarrow> DedupKey \<Rightarrow> Observation \<times> DedupState" where
  "observe_payload d slot payload =
     (if dd_sealed d slot \<noteq> None \<or> replaying_at d slot then (Replay, d)
      else case slot_mut d slot of (st, d1) \<Rightarrow>
        if payload \<in> sst_keys st then (Duplicate, d1)
        else (New, dd_prune (d1\<lparr>dd_inflight :=
               (dd_inflight d1)(slot \<mapsto> st\<lparr>sst_keys := insert payload (sst_keys st)\<rparr>)\<rparr>)))"

definition observe :: "DedupState \<Rightarrow> u64 \<Rightarrow> DedupKey \<Rightarrow> Observation \<times> DedupState" where
  "observe d slot key =
     (case key of
        KSlot status \<Rightarrow> observe_status d slot status
      | KBlockMeta blockhash \<Rightarrow> observe_block_meta d slot blockhash
      | payload \<Rightarrow> observe_payload d slot payload)"

section \<open>The replay buffer\<close>

record 'm ReplayBuffer =
  rb_quarantine :: "u64 \<rightharpoonup> 'm list"
  rb_flush_queue :: "'m list"

definition ReplayBuffer_new :: "'m ReplayBuffer" where
  "ReplayBuffer_new = \<lparr>rb_quarantine = Map.empty, rb_flush_queue = []\<rparr>"

definition buffered :: "'m ReplayBuffer \<Rightarrow> u64 \<Rightarrow> 'm list" where
  "buffered r slot = (case rb_quarantine r slot of None \<Rightarrow> [] | Some ms \<Rightarrow> ms)"

definition rb_hold :: "u64 \<Rightarrow> 'm \<Rightarrow> 'm ReplayBuffer \<Rightarrow> 'm ReplayBuffer" where
  "rb_hold slot m r = r\<lparr>rb_quarantine := (rb_quarantine r)(slot \<mapsto> buffered r slot @ [m])\<rparr>"

definition rb_prepare_for_replay :: "'m ReplayBuffer \<Rightarrow> 'm ReplayBuffer" where
  "rb_prepare_for_replay r = r\<lparr>rb_quarantine := Map.empty\<rparr>"

definition rb_prune :: "DedupState \<Rightarrow> 'm ReplayBuffer \<Rightarrow> 'm ReplayBuffer" where
  "rb_prune d r =
     r\<lparr>rb_quarantine := (\<lambda>slot. if dd_inflight d slot \<noteq> None \<or> dd_sealed d slot \<noteq> None
                              then rb_quarantine r slot else None)\<rparr>"

definition rb_flush :: "u64 \<Rightarrow> 'm \<Rightarrow> 'm ReplayBuffer \<Rightarrow> 'm ReplayBuffer" where
  "rb_flush slot blockmeta r =
     r\<lparr>rb_quarantine := (rb_quarantine r)(slot := None),
       rb_flush_queue := rb_flush_queue r @ buffered r slot @ [blockmeta]\<rparr>"

definition rb_discard :: "u64 \<Rightarrow> 'm ReplayBuffer \<Rightarrow> 'm ReplayBuffer" where
  "rb_discard slot r = r\<lparr>rb_quarantine := (rb_quarantine r)(slot := None)\<rparr>"

definition drain_next :: "'m ReplayBuffer \<Rightarrow> 'm option \<times> 'm ReplayBuffer" where
  "drain_next r =
     (case rb_flush_queue r of [] \<Rightarrow> (None, r) | m # ms \<Rightarrow> (Some m, r\<lparr>rb_flush_queue := ms\<rparr>))"

text \<open>\<open>filter(|msg| msg.extract_key().is_none_or(|(_, key)| keys.insert(key)))\<close>\<close>

fun unseen :: "('m \<Rightarrow> (u64 \<times> DedupKey) option) \<Rightarrow> DedupKey set \<Rightarrow> 'm list \<Rightarrow> 'm list" where
  "unseen extract keys [] = []"
| "unseen extract keys (m # ms) =
     (case extract m of
        None \<Rightarrow> m # unseen extract keys ms
      | Some (_, key) \<Rightarrow>
          if key \<in> keys then unseen extract keys ms else m # unseen extract (insert key keys) ms)"

definition rb_reconcile ::
  "('m \<Rightarrow> (u64 \<times> DedupKey) option) \<Rightarrow> u64 \<Rightarrow> DedupKey set \<Rightarrow> 'm \<Rightarrow> 'm ReplayBuffer \<Rightarrow> 'm ReplayBuffer" where
  "rb_reconcile extract slot keys blockmeta r =
     r\<lparr>rb_quarantine := (rb_quarantine r)(slot := None),
       rb_flush_queue := rb_flush_queue r @ unseen extract keys (buffered r slot) @ [blockmeta]\<rparr>"

section \<open>The stream\<close>

record ('s, 'm) DedupStream =
  ds_state :: DedupState
  ds_inner :: 's
  ds_replay :: "'m ReplayBuffer"
  ds_last_reconnect_count :: u32

definition DedupStream_new :: "'s \<Rightarrow> DedupState \<Rightarrow> ('s, 'm) DedupStream" where
  "DedupStream_new inner d =
     \<lparr>ds_state = d, ds_inner = inner, ds_replay = ReplayBuffer_new, ds_last_reconnect_count = 0\<rparr>"

text \<open>What \<open>poll_next\<close> does with an item of the inner stream: the message it returns with, or
  \<open>None\<close> to go round the loop.\<close>

definition on_item ::
  "('m \<Rightarrow> (u64 \<times> DedupKey) option) \<Rightarrow> u32 \<Rightarrow> 'm \<Rightarrow> ('s, 'm) DedupStream \<Rightarrow> 'm option \<times> ('s, 'm) DedupStream" where
  "on_item extract cnt msg this0 =
     (let this = (if cnt \<noteq> ds_last_reconnect_count this0
                  then this0\<lparr>ds_replay := rb_prepare_for_replay (ds_replay this0),
                             ds_state := dd_prepare_for_replay (ds_state this0),
                             ds_last_reconnect_count := cnt\<rparr>
                  else this0)
      in case extract msg of
           None \<Rightarrow> (Some msg, this)
         | Some (slot, key) \<Rightarrow>
             (case observe (ds_state this) slot key of (obs, d) \<Rightarrow>
                let replay = rb_prune d (ds_replay this);
                    upd = (\<lambda>r. this\<lparr>ds_state := d, ds_replay := r\<rparr>)
                in case obs of
                     New \<Rightarrow> (Some msg, upd replay)
                   | Duplicate \<Rightarrow> (None, upd replay)
                   | Replay \<Rightarrow> (None, upd (rb_hold slot msg replay))
                   | ReplayComplete True \<Rightarrow> (None, upd (rb_discard slot replay))
                   | ReplayComplete False \<Rightarrow> (None, upd (rb_flush slot msg replay))
                   | PartialReplayComplete keys \<Rightarrow>
                       (None, upd (rb_reconcile extract slot keys msg replay))))"

text \<open>\<open>None\<close> stands for a call that does not return: a loop over an inner stream of endless
  duplicates, or an inner \<open>poll_next\<close> that does not return.\<close>

partial_function (option) poll_next ::
  "('m \<Rightarrow> (u64 \<times> DedupKey) option) \<Rightarrow> ('s \<Rightarrow> (('e + 'm) option poll \<times> 's) option) \<Rightarrow> ('s \<Rightarrow> u32)
   \<Rightarrow> ('s, 'm) DedupStream \<Rightarrow> (('e + 'm) option poll \<times> ('s, 'm) DedupStream) option" where
  "poll_next extract poll_inner count_of this =
     (case drain_next (ds_replay this) of
        (Some msg, r) \<Rightarrow> Some (Ready (Some (Inr msg)), this\<lparr>ds_replay := r\<rparr>)
      | (None, _) \<Rightarrow> do {
          (res, inner) \<leftarrow> poll_inner (ds_inner this);
          (case res of
             Ready (Some (Inr msg)) \<Rightarrow>
               (case on_item extract (count_of inner) msg (this\<lparr>ds_inner := inner\<rparr>) of
                  (Some m, this1) \<Rightarrow> Some (Ready (Some (Inr m)), this1)
                | (None, this1) \<Rightarrow> poll_next extract poll_inner count_of this1)
           | other \<Rightarrow> Some (other, this\<lparr>ds_inner := inner\<rparr>))
        })"

end
