(* ===== verification/Client_Reconnect.thy ===== *)
theory Client_Reconnect
  imports Client_Dedup
begin

text \<open>
  Reconnection in the client library (\<^verbatim>\<open>yellowstone-grpc-client/src/reconnect.rs\<close> and the parts of
  \<^verbatim>\<open>lib.rs\<close> that use it): back-off and retries, one attempt to connect, the reconnecting stream, and the
  sink through which the user changes the subscription. The transport, the channels and the clock are
  third-party code: their operations are parameters that act on a world of any type. A duration is a
  number of nanoseconds; its scaling by a floating-point factor, \<open>Duration::mul_f64\<close>, is a parameter.
\<close>

section \<open>Errors\<close>

datatype GeyserGrpcClientError = TonicStatus Status | TransportError string

definition is_recoverable_status_code :: "Code \<Rightarrow> bool" where
  "is_recoverable_status_code c =
     (c \<in> {Cancelled, Unknown, DeadlineExceeded, ResourceExhausted, Aborted, Internal, Unavailable, DataLoss,
            OutOfRange})"

definition is_recoverable_client_error :: "GeyserGrpcClientError \<Rightarrow> bool" where
  "is_recoverable_client_error err =
     (case err of
        TonicStatus status \<Rightarrow> stat_transport status \<or> is_recoverable_status_code (stat_code status)
      | TransportError _ \<Rightarrow> True)"

section \<open>Back-off\<close>

record 'f Backoff =
  bo_initial_interval :: nat
  bo_multiplier :: 'f
  bo_max_retries :: u32

definition Backoff_default :: "'f \<Rightarrow> 'f Backoff" where
  "Backoff_default two = \<lparr>bo_initial_interval = 10000000, bo_multiplier = two, bo_max_retries = 3\<rparr>"

datatype 'e ErrorCategory = Retryable 'e | Unrecoverable 'e

definition is_retryable :: "'e ErrorCategory \<Rightarrow> bool" where
  "is_retryable e = (case e of Retryable _ \<Rightarrow> True | Unrecoverable _ \<Rightarrow> False)"

definition into_inner :: "'e ErrorCategory \<Rightarrow> 'e" where
  "into_inner e = (case e of Retryable x \<Rightarrow> x | Unrecoverable x \<Rightarrow> x)"

record 'f BackoffInstance =
  bi_current_interval :: nat
  bi_attempts :: u32
  bi_multiplier :: 'f
  bi_max_retries :: u32

definition BackoffInstance_new :: "'f Backoff \<Rightarrow> 'f BackoffInstance" where
  "BackoffInstance_new config =
     \<lparr>bi_current_interval = bo_initial_interval config, bi_attempts = 0, bi_multiplier = bo_multiplier config,
      bi_max_retries = bo_max_retries config\<rparr>"

definition exhausted :: "'f BackoffInstance \<Rightarrow> bool" where
  "exhausted b \<longleftrightarrow> bi_attempts b \<ge> bi_max_retries b"

text \<open>\<open>mul_f64\<close> panics when the product is not a duration.\<close>

definition advance :: "(nat \<Rightarrow> 'f \<Rightarrow> nat run) \<Rightarrow> 'f BackoffInstance \<Rightarrow> 'f BackoffInstance run" where
  "advance mul_f64 b =
     do {
       d \<leftarrow> mul_f64 (bi_current_interval b) (bi_multiplier b);
       Some (b\<lparr>bi_attempts := bi_attempts b + 1, bi_current_interval := d\<rparr>)
     }"

definition backoff_next ::
  "(nat \<Rightarrow> 'f \<Rightarrow> nat run) \<Rightarrow> 'f BackoffInstance \<Rightarrow> (nat option \<times> 'f BackoffInstance) run" where
  "backoff_next mul_f64 b =
     (if exhausted b then Some (None, b)
      else do { b1 \<leftarrow> advance mul_f64 b; Some (Some (bi_current_interval b), b1) })"

lemma backoff_next_attempts:
  assumes "backoff_next mul_f64 b = Some (Some d, b1)"
  shows "unat (bi_attempts b1) = Suc (unat (bi_attempts b))" "unat (bi_attempts b) < unat (bi_max_retries b)"
    "bi_max_retries b1 = bi_max_retries b" "bi_multiplier b1 = bi_multiplier b" "d = bi_current_interval b"
    "mul_f64 (bi_current_interval b) (bi_multiplier b) = Some (bi_current_interval b1)"
proof -
  have lt: "bi_attempts b < bi_max_retries b"
    and b1: "b1 = b\<lparr>bi_attempts := bi_attempts b + 1, bi_current_interval := bi_current_interval b1\<rparr>"
    and d: "d = bi_current_interval b" "mul_f64 (bi_current_interval b) (bi_multiplier b) = Some (bi_current_interval b1)"
    using assms by (auto simp: backoff_next_def exhausted_def advance_def split: if_splits Option.bind_splits)
  show "unat (bi_attempts b) < unat (bi_max_retries b)" using lt by (simp add: word_less_nat_alt)
  moreover have "unat (bi_max_retries b) < 2 ^ LENGTH(32)" by (rule unsigned_less)
  ultimately have "unat (bi_attempts b) + 1 < 2 ^ 32" by simp
  then have "unat (bi_attempts b + 1) = unat (bi_attempts b) + 1"
    by (simp add: unat_word_ariths(1))
  then show "unat (bi_attempts b1) = Suc (unat (bi_attempts b))" by (subst b1) simp
  show "bi_max_retries b1 = bi_max_retries b" "bi_multiplier b1 = bi_multiplier b" by (subst b1, simp)+
  show "d = bi_current_interval b" "mul_f64 (bi_current_interval b) (bi_multiplier b) = Some (bi_current_interval b1)"
    by (fact d)+
qed

lemma backoff_next_decreases:
  "backoff_next mul_f64 b = Some (Some d, b1) \<Longrightarrow>
     unat (bi_max_retries b1) - unat (bi_attempts b1) < unat (bi_max_retries b) - unat (bi_attempts b)"
  using backoff_next_attempts(1-3) [of mul_f64 b d b1] by simp

text \<open>The operation and the sleep act on the world; \<open>None\<close> is a panic of the scaling.\<close>

function retry_loop ::
  "(nat \<Rightarrow> 'f \<Rightarrow> nat run) \<Rightarrow> (nat \<Rightarrow> 'w \<Rightarrow> 'w) \<Rightarrow> ('w \<Rightarrow> ('e ErrorCategory + 't) \<times> 'w)
   \<Rightarrow> 'f BackoffInstance \<Rightarrow> 'w \<Rightarrow> (('e + 't) \<times> 'w) run" where
  "retry_loop mul_f64 sleep operation b w =
     (case operation w of
        (Inr v, w1) \<Rightarrow> Some (Inr v, w1)
      | (Inl e, w1) \<Rightarrow>
          if \<not> is_retryable e then Some (Inl (into_inner e), w1)
          else (case backoff_next mul_f64 b of
                  None \<Rightarrow> None
                | Some (None, b1) \<Rightarrow> Some (Inl (into_inner e), w1)
                | Some (Some d, b1) \<Rightarrow> retry_loop mul_f64 sleep operation b1 (sleep d w1)))"
  by pat_completeness auto
termination
  by (relation "measure (\<lambda>(mul, sl, f, b, w). unat (bi_max_retries b) - unat (bi_attempts b))")
    (auto dest: backoff_next_decreases)

declare retry_loop.simps [simp del]

definition retry ::
  "(nat \<Rightarrow> 'f \<Rightarrow> nat run) \<Rightarrow> (nat \<Rightarrow> 'w \<Rightarrow> 'w) \<Rightarrow> ('w \<Rightarrow> ('e ErrorCategory + 't) \<times> 'w)
   \<Rightarrow> 'f Backoff \<Rightarrow> 'w \<Rightarrow> (('e + 't) \<times> 'w) run" where
  "retry mul_f64 sleep operation config w = retry_loop mul_f64 sleep operation (BackoffInstance_new config) w"

section \<open>Connecting\<close>

record TonicGeyserClientOptions =
  to_x_request_snapshot :: bool
  to_send_compressed :: "nat option"
  to_accept_compressed :: "nat option"
  to_max_decoding_message_size :: "u64 option"
  to_max_encoding_message_size :: "u64 option"

definition TonicGeyserClientOptions_default :: TonicGeyserClientOptions where
  "TonicGeyserClientOptions_default =
     \<lparr>to_x_request_snapshot = False, to_send_compressed = None, to_accept_compressed = None,
      to_max_decoding_message_size = Some 50000000, to_max_encoding_message_size = Some 50000000\<rparr>"

text \<open>
  What an attempt hands to the generated client: the options, the token, the requests already in the
  request channel and the slot of the metadata entry \<open>x-min-context-slot\<close>.
\<close>

record SubscribeCall =
  sc_options :: TonicGeyserClientOptions
  sc_x_token :: "string option"
  sc_requests :: "SubscribeRequest list"
  sc_min_context_slot :: "u64 option"

text \<open>Opening a channel to the endpoint, calling \<open>subscribe\<close> on it with the request channel
  \<open>ch\<close>, making a fresh request channel, and storing its sender in the sink.\<close>

record ('c, 's, 'w) transport =
  tp_connect :: "'w \<Rightarrow> (string + 'c) \<times> 'w"
  tp_subscribe :: "'c \<Rightarrow> nat \<Rightarrow> SubscribeCall \<Rightarrow> 'w \<Rightarrow> (Status + 's) \<times> 'w"
  tp_fresh_channel :: "'w \<Rightarrow> nat \<times> 'w"
  tp_set_sink :: "nat \<Rightarrow> 'w \<Rightarrow> 'w"
  tp_sleep :: "nat \<Rightarrow> 'w \<Rightarrow> 'w"

definition connect_attempt ::
  "('c, 's, 'w) transport \<Rightarrow> TonicGeyserClientOptions \<Rightarrow> string option \<Rightarrow> SubscribeRequest \<Rightarrow> u64 option
   \<Rightarrow> 'w \<Rightarrow> (GeyserGrpcClientError ErrorCategory + 's) \<times> 'w" where
  "connect_attempt T options x_token base_request from_slot w =
     (let request = base_request\<lparr>sr_from_slot := from_slot\<rparr> in
      case tp_connect T w of
        (Inl e, w1) \<Rightarrow> (Inl (Retryable (TransportError e)), w1)
      | (Inr channel, w1) \<Rightarrow>
          (case tp_fresh_channel T w1 of (ch, w2) \<Rightarrow>
             (case tp_subscribe T channel ch
                     \<lparr>sc_options = options, sc_x_token = x_token, sc_requests = [request],
                      sc_min_context_slot = from_slot\<rparr> w2 of
                (Inl status, w3) \<Rightarrow>
                  (let e = TonicStatus status in
                   (Inl (if is_recoverable_client_error e then Retryable e else Unrecoverable e), w3))
              | (Inr stream, w3) \<Rightarrow> (Inr stream, tp_set_sink T ch w3))))"

definition tonic_connect ::
  "(nat \<Rightarrow> 'f \<Rightarrow> nat run) \<Rightarrow> ('c, 's, 'w) transport \<Rightarrow> 'f Backoff \<Rightarrow> TonicGeyserClientOptions \<Rightarrow> string option
   \<Rightarrow> SubscribeRequest \<Rightarrow> u64 option \<Rightarrow> 'w \<Rightarrow> ((GeyserGrpcClientError + 's) \<times> 'w) run" where
  "tonic_connect mul_f64 T backoff options x_token request from_slot =
     retry mul_f64 (tp_sleep T) (connect_attempt T options x_token request from_slot) backoff"

section \<open>The reconnecting stream\<close>

definition CHECKPOINT_SLOT_BUFFER :: u64 where "CHECKPOINT_SLOT_BUFFER = 2"

definition AUTORECONNECT_FILTER_KEY :: string where "AUTORECONNECT_FILTER_KEY = ''__autoreconnect''"

definition saturating_sub :: "u64 \<Rightarrow> u64 \<Rightarrow> u64" where
  "saturating_sub a b = (if a < b then 0 else a - b)"

definition extract_slot :: "SubscribeUpdate \<Rightarrow> u64 option" where
  "extract_slot msg =
     do {
       oneof \<leftarrow> su_update_oneof msg;
       (case oneof of
          UAccount m \<Rightarrow> Some (ua_slot m)
        | USlot m \<Rightarrow> Some (us_slot m)
        | UTransaction m \<Rightarrow> Some (ut_slot m)
        | UBlock m \<Rightarrow> Some (ub_slot m)
        | UBlockMeta m \<Rightarrow> Some (um_slot m)
        | UEntry m \<Rightarrow> Some (ue_slot m)
        | UTransactionStatus m \<Rightarrow> Some (uts_slot m)
        | UPing \<Rightarrow> None
        | UPong _ \<Rightarrow> None)
     }"

record ('s, 'fut, 'f) AutoReconnect =
  ar_last_checkpoint :: "u64 option"
  ar_stop :: bool
  ar_backoff :: "'f Backoff"
  ar_inner_stream :: "'s option"
  ar_pending_connecting_task :: "'fut option"
  ar_reconnect_count :: u32
  ar_resume_from_checkpoint :: bool

definition AutoReconnect_new :: "'s \<Rightarrow> 'f Backoff \<Rightarrow> ('s, 'fut, 'f) AutoReconnect" where
  "AutoReconnect_new stream backoff =
     \<lparr>ar_last_checkpoint = None, ar_stop = False, ar_backoff = backoff, ar_inner_stream = Some stream,
      ar_pending_connecting_task = None, ar_reconnect_count = 0, ar_resume_from_checkpoint = True\<rparr>"

definition without_checkpoint :: "('s, 'fut, 'f) AutoReconnect \<Rightarrow> ('s, 'fut, 'f) AutoReconnect" where
  "without_checkpoint me = me\<lparr>ar_resume_from_checkpoint := False\<rparr>"

text \<open>The inner stream's \<open>poll_next\<close>, the shared request, the future the connector returns for a
  request and a slot, its \<open>poll\<close>, and the display of an error.\<close>

record ('s, 'fut, 'w) connection_env =
  ce_poll_stream :: "'s \<Rightarrow> 'w \<Rightarrow> (Status + SubscribeUpdate) option poll \<times> 's \<times> 'w"
  ce_request :: "'w \<Rightarrow> SubscribeRequest"
  ce_connect :: "SubscribeRequest \<Rightarrow> u64 option \<Rightarrow> 'fut"
  ce_poll_connect :: "'fut \<Rightarrow> 'w \<Rightarrow> (GeyserGrpcClientError + 's) poll \<times> 'fut \<times> 'w"
  ce_show :: "GeyserGrpcClientError \<Rightarrow> string"

definition make_connection_future ::
  "('s, 'fut, 'w) connection_env \<Rightarrow> ('s, 'fut, 'f) AutoReconnect \<Rightarrow> 'w \<Rightarrow> 'fut" where
  "make_connection_future E me w =
     ce_connect E (ce_request E w) (if ar_resume_from_checkpoint me then ar_last_checkpoint me else None)"

datatype 'r flow = Return 'r | Continue | Fall

text \<open>What the loop does with an item: the message as it is forwarded, or \<open>None\<close> when only the
  internal filter matched.\<close>

definition checkpoint_after :: "SubscribeUpdate \<Rightarrow> u64 option \<Rightarrow> u64 option" where
  "checkpoint_after msg old =
     (case su_update_oneof msg of
        Some (UBlockMeta _) \<Rightarrow>
          (case extract_slot msg of
             Some slot \<Rightarrow> Some (saturating_sub slot CHECKPOINT_SLOT_BUFFER)
           | None \<Rightarrow> old)
      | _ \<Rightarrow> old)"

definition forward :: "SubscribeUpdate \<Rightarrow> SubscribeUpdate option" where
  "forward msg =
     (if su_filters msg \<noteq> [] \<and> list_all (\<lambda>f. f = AUTORECONNECT_FILTER_KEY) (su_filters msg) then None
      else Some (msg\<lparr>su_filters := filter (\<lambda>f. f \<noteq> AUTORECONNECT_FILTER_KEY) (su_filters msg)\<rparr>))"

definition poll_stream_part ::
  "('s, 'fut, 'w) connection_env \<Rightarrow> ('s, 'fut, 'f) AutoReconnect \<Rightarrow> 's \<Rightarrow> 'w
   \<Rightarrow> (Status + SubscribeUpdate) option poll flow \<times> ('s, 'fut, 'f) AutoReconnect \<times> 'w" where
  "poll_stream_part E me0 stream0 w0 =
     (case ce_poll_stream E stream0 w0 of (res, stream, w) \<Rightarrow>
        let me = me0\<lparr>ar_inner_stream := None\<rparr> in
        case res of
          Ready (Some (Inr msg)) \<Rightarrow>
            (let me1 = me\<lparr>ar_last_checkpoint := checkpoint_after msg (ar_last_checkpoint me),
                         ar_inner_stream := Some stream\<rparr>
             in case forward msg of
                  None \<Rightarrow> (Continue, me1, w)
                | Some m \<Rightarrow> (Return (Ready (Some (Inr m))), me1, w))
        | Ready (Some (Inl status)) \<Rightarrow>
            (if is_recoverable_status_code (stat_code status)
             then let me1 = (if stat_code status = OutOfRange then me\<lparr>ar_last_checkpoint := None\<rparr> else me)
                  in if bo_max_retries (ar_backoff me) = 0
                     then (Return (Ready (Some (Inl status))), me1\<lparr>ar_stop := True\<rparr>, w)
                     else (Fall, me1\<lparr>ar_pending_connecting_task := Some (make_connection_future E me1 w)\<rparr>, w)
             else (Return (Ready (Some (Inl status))), me\<lparr>ar_stop := True\<rparr>, w))
        | Ready None \<Rightarrow> (Return (Ready None), me\<lparr>ar_stop := True\<rparr>, w)
        | Pending \<Rightarrow> (Return Pending, me\<lparr>ar_inner_stream := Some stream\<rparr>, w))"

text \<open>Polling the pending connection and the assertion that ends the body of the loop; \<open>None\<close> is
  a failing assertion, the inner \<open>None\<close> the next round of the loop.\<close>

definition poll_connect_part ::
  "('s, 'fut, 'w) connection_env \<Rightarrow> ('s, 'fut, 'f) AutoReconnect \<Rightarrow> 'w
   \<Rightarrow> ((Status + SubscribeUpdate) option poll option \<times> ('s, 'fut, 'f) AutoReconnect \<times> 'w) run" where
  "poll_connect_part E me0 w0 =
     (let check = (\<lambda>me w. if ar_inner_stream me \<noteq> None \<or> ar_pending_connecting_task me \<noteq> None \<or> ar_stop me
                         then Some (None, me, w) else None)
      in case ar_pending_connecting_task me0 of
           None \<Rightarrow> check me0 w0
         | Some fut0 \<Rightarrow>
             (case ce_poll_connect E fut0 w0 of (res, fut, w) \<Rightarrow>
                let me = me0\<lparr>ar_pending_connecting_task := None\<rparr> in
                case res of
                  Ready (Inr stream) \<Rightarrow>
                    check (me\<lparr>ar_reconnect_count := ar_reconnect_count me + 1, ar_inner_stream := Some stream\<rparr>) w
                | Ready (Inl error) \<Rightarrow>
                    Some (Some (Ready (Some (Inl (Status_internal (''reconnect failed: '' @ ce_show E error))))),
                          me\<lparr>ar_stop := True\<rparr>, w)
                | Pending \<Rightarrow> Some (Some Pending, me\<lparr>ar_pending_connecting_task := Some fut\<rparr>, w)))"

definition ar_iteration ::
  "('s, 'fut, 'w) connection_env \<Rightarrow> ('s, 'fut, 'f) AutoReconnect \<Rightarrow> 'w
   \<Rightarrow> ((Status + SubscribeUpdate) option poll option \<times> ('s, 'fut, 'f) AutoReconnect \<times> 'w) run" where
  "ar_iteration E me w =
     (case ar_inner_stream me of
        Some stream \<Rightarrow>
          (case poll_stream_part E me stream w of (flow, me1, w1) \<Rightarrow>
             (case flow of
                Return r \<Rightarrow> Some (Some r, me1, w1)
              | Continue \<Rightarrow> Some (None, me1, w1)
              | Fall \<Rightarrow> poll_connect_part E me1 w1))
      | None \<Rightarrow> poll_connect_part E me w)"

text \<open>\<open>None\<close>: the call panics or loops forever.\<close>

partial_function (option) ar_poll_next ::
  "('s, 'fut, 'w) connection_env \<Rightarrow> ('s, 'fut, 'f) AutoReconnect \<Rightarrow> 'w
   \<Rightarrow> ((Status + SubscribeUpdate) option poll \<times> ('s, 'fut, 'f) AutoReconnect \<times> 'w) option" where
  "ar_poll_next E me w =
     (if ar_stop me then Some (Ready None, me, w)
      else do {
        (r, me1, w1) \<leftarrow> ar_iteration E me w;
        (case r of Some x \<Rightarrow> Some (x, me1, w1) | None \<Rightarrow> ar_poll_next E me1 w1)
      })"

section \<open>Changing the subscription\<close>

definition inject_autoreconnect_filter :: "SubscribeRequest \<Rightarrow> SubscribeRequest" where
  "inject_autoreconnect_filter req =
     (if sr_blocks_meta req = []
      then req\<lparr>sr_blocks_meta := hmap_insert AUTORECONNECT_FILTER_KEY () (sr_blocks_meta req),
               sr_slots := hmap_insert AUTORECONNECT_FILTER_KEY
                 \<lparr>fs_filter_by_commitment = None, fs_interslot_updates = None\<rparr> (sr_slots req)\<rparr>
      else req)"

text \<open>The sink: the sender of the active request channel, whose \<open>start_send_unpin\<close> is a parameter,
  and the request shared with the stream.\<close>

record 'c SubscribeRequestSink =
  rs_inner :: 'c
  rs_shared :: SubscribeRequest

definition start_send ::
  "(SubscribeRequest \<Rightarrow> 'c \<Rightarrow> 'err + 'c) \<Rightarrow> SubscribeRequest \<Rightarrow> 'c SubscribeRequestSink
   \<Rightarrow> ('err + unit) \<times> 'c SubscribeRequestSink" where
  "start_send start_send_unpin item0 sink =
     (let item = (if AUTORECONNECT_FILTER_KEY \<in> fst ` set (sr_blocks_meta (rs_shared sink))
                  then inject_autoreconnect_filter item0 else item0)
      in case start_send_unpin item (rs_inner sink) of
           Inl e \<Rightarrow> (Inl e, sink)
         | Inr c \<Rightarrow> (Inr (), \<lparr>rs_inner = c, rs_shared = item\<rparr>))"

datatype ReconnectionPolicy = SkipMissedData | RecoverMissedData nat

record 'f ReconnectConfig =
  rc_backoff :: "'f Backoff"
  rc_policy :: ReconnectionPolicy

definition ReconnectConfig_default :: "'f \<Rightarrow> 'f ReconnectConfig" where
  "ReconnectConfig_default two =
     \<lparr>rc_backoff = Backoff_default two, rc_policy = RecoverMissedData DEFAULT_SLOT_RETENTION\<rparr>"

definition with_backoff :: "'f Backoff \<Rightarrow> 'f ReconnectConfig \<Rightarrow> 'f ReconnectConfig" where
  "with_backoff b c = c\<lparr>rc_backoff := b\<rparr>"

definition config_with_slot_retention :: "nat \<Rightarrow> 'f ReconnectConfig \<Rightarrow> 'f ReconnectConfig" where
  "config_with_slot_retention n c = c\<lparr>rc_policy := RecoverMissedData n\<rparr>"

text \<open>The first request of a subscription, and the stream the user gets.\<close>

definition first_request :: "'f ReconnectConfig option \<Rightarrow> SubscribeRequest option \<Rightarrow> SubscribeRequest" where
  "first_request config request =
     (let req = (case request of None \<Rightarrow> SubscribeRequest_default | Some r \<Rightarrow> r)
      in case config of
           Some c \<Rightarrow> (case rc_policy c of RecoverMissedData _ \<Rightarrow> inject_autoreconnect_filter req | _ \<Rightarrow> req)
         | None \<Rightarrow> req)"

datatype ('s, 'ar) InnerStream =
    NoReconnect 's
  | ReplayStream "('ar, SubscribeUpdate) DedupStream"
  | NoReplay 'ar

definition subscribe_stream ::
  "'f ReconnectConfig option \<Rightarrow> 's \<Rightarrow> ('s, ('s, 'fut, 'f) AutoReconnect) InnerStream" where
  "subscribe_stream config stream =
     (case config of
        None \<Rightarrow> NoReconnect stream
      | Some c \<Rightarrow>
          (let ar = AutoReconnect_new stream (rc_backoff c) in
           case rc_policy c of
             SkipMissedData \<Rightarrow> NoReplay (without_checkpoint ar)
           | RecoverMissedData n \<Rightarrow> ReplayStream (DedupStream_new ar (with_slot_retention n))))"

end
