(* ===== verification/Dedup_Claims.thy ===== *)
theory Dedup_Claims
  imports Client_Dedup
begin

text \<open>
  What the deduplicating stream promises. The interface \<open>queue_stream\<close> describes inner streams
  that hand out a finite queue of messages, each with the reconnect count the stream then reports;
  \<open>deliver\<close> is the sequence of messages the wrapper emits for a queue, which
  \<open>poll_next\<close> yields one per call. An invariant on the state of each slot shows that the
  sequence holds every key exactly once, for any stream that satisfies the interface.
\<close>

section \<open>Polling\<close>

fun polls :: "nat \<Rightarrow> ('t \<Rightarrow> ('r \<times> 't) option) \<Rightarrow> 't \<Rightarrow> ('r list \<times> 't) option" where
  "polls 0 p t = Some ([], t)"
| "polls (Suc n) p t =
     do {
       (r, t1) \<leftarrow> p t;
       (rs, t2) \<leftarrow> polls n p t1;
       Some (r # rs, t2)
     }"

definition flushed :: "('s, 'm) DedupStream \<Rightarrow> ('s, 'm) DedupStream" where
  "flushed t = t\<lparr>ds_replay := (ds_replay t)\<lparr>rb_flush_queue := []\<rparr>\<rparr>"

fun deliver ::
  "('m \<Rightarrow> (u64 \<times> DedupKey) option) \<Rightarrow> (u32 \<times> 'm) list \<Rightarrow> ('s, 'm) DedupStream \<Rightarrow> 'm list" where
  "deliver extract [] t = rb_flush_queue (ds_replay t)"
| "deliver extract ((c, m) # evs) t =
     (case on_item extract c m (flushed t) of (out, t1) \<Rightarrow>
        rb_flush_queue (ds_replay t) @ (case out of None \<Rightarrow> [] | Some x \<Rightarrow> [x]) @ deliver extract evs t1)"

lemma on_item_inner:
  "on_item extract c m (t\<lparr>ds_inner := x\<rparr>) =
     (case on_item extract c m t of (out, t1) \<Rightarrow> (out, t1\<lparr>ds_inner := x\<rparr>))"
  by (simp add: on_item_def Let_def split: option.split prod.split Observation.split bool.split)

lemma deliver_inner: "deliver extract evs (t\<lparr>ds_inner := x\<rparr>) = deliver extract evs t"
proof (induction evs arbitrary: t)
  case (Cons ev evs)
  obtain c m where ev: "ev = (c, m)" by (cases ev)
  have "flushed (t\<lparr>ds_inner := x\<rparr>) = (flushed t)\<lparr>ds_inner := x\<rparr>" by (simp add: flushed_def)
  with ev show ?case by (simp add: on_item_inner Cons.IH split: prod.split)
qed simp

lemma polls_step:
  "p t = Some (r, t1) \<Longrightarrow> polls n p t1 = Some (rs, t2) \<Longrightarrow> polls (Suc n) p t = Some (r # rs, t2)"
  "p t = p t1 \<Longrightarrow> polls (Suc n) p t = polls (Suc n) p t1"
  by simp_all

lemma polls_add: "polls (n + k) p t =
  do { (r, t1) \<leftarrow> polls n p t; (rs, t2) \<leftarrow> polls k p t1; Some (r @ rs, t2) }"
  by (induction n arbitrary: t) (auto split: prod.splits Option.bind_splits)

lemma polls_flush:
  "polls (length (rb_flush_queue (ds_replay t))) (poll_next extract poll_inner count_of) t =
     Some (map (\<lambda>m. Ready (Some (Inr m))) (rb_flush_queue (ds_replay t)), flushed t)"
proof (induction "rb_flush_queue (ds_replay t)" arbitrary: t)
  case Nil
  then show ?case by (simp add: flushed_def)
next
  case (Cons m ms)
  let ?p = "poll_next extract poll_inner count_of" and ?t1 = "t\<lparr>ds_replay := (ds_replay t)\<lparr>rb_flush_queue := ms\<rparr>\<rparr>"
  have "?p t = Some (Ready (Some (Inr m)), ?t1)"
    by (subst poll_next.simps) (simp add: drain_next_def flip: Cons.hyps(2))
  moreover have "polls (length ms) ?p ?t1 = Some (map (\<lambda>m. Ready (Some (Inr m))) ms, flushed t)"
    using Cons.hyps(1) [of ?t1] by (simp add: flushed_def)
  ultimately show ?case by (simp flip: Cons.hyps(2))
qed

text \<open>
  The inner streams the theorems are about: in a state that is \<open>good\<close> the stream hands out the
  messages of a finite \<open>queue\<close>, each with its reconnect count, and then ends in a state that
  is \<open>final\<close>.
\<close>

locale queue_stream =
  fixes poll_inner :: "'s \<Rightarrow> (('e + 'm) option poll \<times> 's) option"
    and count_of :: "'s \<Rightarrow> u32"
    and queue :: "'s \<Rightarrow> (u32 \<times> 'm) list"
    and good :: "'s \<Rightarrow> bool"
    and final :: "'s \<Rightarrow> bool"
  assumes poll_empty: "good s \<Longrightarrow> queue s = [] \<Longrightarrow> \<exists>s'. poll_inner s = Some (Ready None, s') \<and> final s'"
    and poll_item: "good s \<Longrightarrow> queue s = (c, m) # rest \<Longrightarrow>
      \<exists>s'. poll_inner s = Some (Ready (Some (Inr m)), s') \<and> good s' \<and> queue s' = rest \<and> count_of s' = c"
begin

lemma polls_end:
  assumes "good (ds_inner t)" "queue (ds_inner t) = []"
  shows "\<exists>t'. polls (Suc (length (rb_flush_queue (ds_replay t)))) (poll_next extract poll_inner count_of) t =
    Some (map (\<lambda>m. Ready (Some (Inr m))) (rb_flush_queue (ds_replay t)) @ [Ready None], t') \<and> final (ds_inner t')"
proof -
  let ?q = "rb_flush_queue (ds_replay t)"
  obtain s' where s': "poll_inner (ds_inner t) = Some (Ready None, s')" "final s'" using poll_empty assms by blast
  from s'(1) have poll: "poll_next extract poll_inner count_of (flushed t) = Some (Ready None, (flushed t)\<lparr>ds_inner := s'\<rparr>)"
    by (subst poll_next.simps) (simp add: drain_next_def flushed_def)
  have "polls (length ?q + 1) (poll_next extract poll_inner count_of) t =
      Some (map (\<lambda>m. Ready (Some (Inr m))) ?q @ [Ready None], (flushed t)\<lparr>ds_inner := s'\<rparr>)"
    unfolding polls_add polls_flush by (simp add: poll)
  with s'(2) show ?thesis by (intro exI [of _ "(flushed t)\<lparr>ds_inner := s'\<rparr>"] conjI) (simp_all add: flushed_def del: polls.simps)
qed

lemma polls_deliver:
  assumes "good (ds_inner t)"
  shows "\<exists>t'. polls (Suc (length (deliver extract (queue (ds_inner t)) t))) (poll_next extract poll_inner count_of) t =
    Some (map (\<lambda>m. Ready (Some (Inr m))) (deliver extract (queue (ds_inner t)) t) @ [Ready None], t') \<and>
    final (ds_inner t')"
  using assms
proof (induction "queue (ds_inner t)" arbitrary: t)
  case Nil
  with polls_end [of t "extract"] show ?case by (simp flip: Nil.hyps del: polls.simps)
next
  case (Cons ev evs)
  let ?p = "poll_next extract poll_inner count_of" and ?q = "rb_flush_queue (ds_replay t)"
  obtain c m where ev: "ev = (c, m)" by (cases ev)
  obtain s' where s': "poll_inner (ds_inner t) = Some (Ready (Some (Inr m)), s')" "good s'" "queue s' = evs" "count_of s' = c"
    using poll_item Cons.prems Cons.hyps(2) ev by metis
  obtain out t1 where item: "on_item extract c m (flushed t) = (out, t1)" by fastforce
  let ?t2 = "t1\<lparr>ds_inner := s'\<rparr>" and ?o = "case out of None \<Rightarrow> [] | Some x \<Rightarrow> [x]"
  have poll: "?p (flushed t) = (case out of Some x \<Rightarrow> Some (Ready (Some (Inr x)), ?t2) | None \<Rightarrow> ?p ?t2)"
    using s' item
    by (subst poll_next.simps) (simp add: drain_next_def flushed_def on_item_inner split: option.split)
  obtain t' where t': "polls (Suc (length (deliver extract evs t1))) ?p ?t2 =
      Some (map (\<lambda>m. Ready (Some (Inr m))) (deliver extract evs t1) @ [Ready None], t')" and fin: "final (ds_inner t')"
    using Cons.hyps(1) [of ?t2] s'(2,3) by (auto simp: deliver_inner)
  have "polls (Suc (length (?o @ deliver extract evs t1))) ?p (flushed t) =
      Some (map (\<lambda>m. Ready (Some (Inr m))) (?o @ deliver extract evs t1) @ [Ready None], t')"
  proof (cases out)
    case None
    then have "polls (Suc (length (deliver extract evs t1))) ?p (flushed t) =
        polls (Suc (length (deliver extract evs t1))) ?p ?t2"
      using poll by (intro polls_step(2)) simp
    with None t' show ?thesis by (simp del: polls.simps)
  next
    case (Some x)
    then show ?thesis using polls_step(1) [OF _ t'] poll by (simp del: polls.simps)
  qed
  then have "polls (length ?q + Suc (length (?o @ deliver extract evs t1))) ?p t =
      Some (map (\<lambda>m. Ready (Some (Inr m))) (?q @ ?o @ deliver extract evs t1) @ [Ready None], t')"
    unfolding polls_add polls_flush by (simp del: polls.simps)
  then show ?case using ev item fin by (auto simp: ac_simps simp flip: Cons.hyps(2) simp del: polls.simps)
qed

end

section \<open>What the server sends\<close>

definition payload :: "DedupKey \<Rightarrow> bool" where
  "payload k = (case k of KSlot _ \<Rightarrow> False | KBlockMeta _ \<Rightarrow> False | _ \<Rightarrow> True)"

text \<open>
  Messages without slot restarts in which a slot has one block hash, and every connection that sends a
  slot's block meta has sent the slot's whole content \<open>full\<close> before it. \<open>cur\<close> is what the
  current connection has sent.
\<close>

fun well_fed ::
  "('m \<Rightarrow> (u64 \<times> DedupKey) option) \<Rightarrow> (u64 \<Rightarrow> DedupKey set) \<Rightarrow> (u64 \<Rightarrow> string) \<Rightarrow> u32
   \<Rightarrow> (u64 \<Rightarrow> DedupKey set) \<Rightarrow> (u32 \<times> 'm) list \<Rightarrow> bool" where
  "well_fed extract full hash cnt cur [] = True"
| "well_fed extract full hash cnt cur ((c, m) # evs) =
     (let now = (if c = cnt then cur else (\<lambda>_. {})) in
      case extract m of
        None \<Rightarrow> well_fed extract full hash c now evs
      | Some (s, k) \<Rightarrow>
          k \<noteq> KSlot CREATED_BANK_STATUS \<and>
          (case k of KBlockMeta h \<Rightarrow> h = hash s \<and> full s \<subseteq> now s | _ \<Rightarrow> True) \<and>
          well_fed extract full hash c (if payload k then now(s := insert k (now s)) else now) evs)"

lemma map_filter_append: "List.map_filter f (xs @ ys) = List.map_filter f xs @ List.map_filter f ys"
  by (simp add: List.map_filter_def)

section \<open>The invariant\<close>

definition held_keys :: "('m \<Rightarrow> (u64 \<times> DedupKey) option) \<Rightarrow> 'm list option \<Rightarrow> DedupKey set" where
  "held_keys extract q = (case q of None \<Rightarrow> {} | Some ms \<Rightarrow> {k. \<exists>m \<in> set ms. \<exists>s. extract m = Some (s, k)})"

text \<open>For one slot: its content and hash, what the connection has sent (\<open>C\<close>), what was delivered
  (\<open>D\<close>), its state and its quarantine.\<close>

definition slot_ok ::
  "('m \<Rightarrow> (u64 \<times> DedupKey) option) \<Rightarrow> u64 \<Rightarrow> DedupKey set \<Rightarrow> string \<Rightarrow> DedupKey set \<Rightarrow> DedupKey set
   \<Rightarrow> SlotState option \<Rightarrow> SealedSlot option \<Rightarrow> 'm list option \<Rightarrow> bool" where
  "slot_ok extract s full h C D ifl sea q \<longleftrightarrow>
     (\<forall>ms. q = Some ms \<longrightarrow> (\<forall>m \<in> set ms. \<exists>k. extract m = Some (s, k) \<and> payload k)) \<and>
     (case sea of
        Some ss \<Rightarrow>
          ifl = None \<and> {x. KSlot x \<in> D} = ss_statuses ss \<and> ss_blockhash ss = Some h \<and>
          {x. KBlockMeta x \<in> D} = {h} \<and> full \<subseteq> D
      | None \<Rightarrow>
          (case ifl of
             Some st \<Rightarrow>
               D = sst_keys st \<union> KSlot ` sst_statuses st \<and> Ball (sst_keys st) payload \<and>
               C \<subseteq> sst_keys st \<union> held_keys extract q \<and> (\<not> sst_replaying st \<longrightarrow> q = None)
           | None \<Rightarrow> D = {} \<and> C = {} \<and> q = None))"

definition dedup_inv ::
  "('m \<Rightarrow> (u64 \<times> DedupKey) option) \<Rightarrow> (u64 \<Rightarrow> DedupKey set) \<Rightarrow> (u64 \<Rightarrow> string) \<Rightarrow> (u64 \<Rightarrow> DedupKey set)
   \<Rightarrow> (u64 \<times> DedupKey) set \<Rightarrow> u64 set \<Rightarrow> ('s, 'm) DedupStream \<Rightarrow> bool" where
  "dedup_inv extract full hash cur K S t \<longleftrightarrow>
     (let d = ds_state t; r = ds_replay t in
      (\<forall>s. slot_ok extract s (full s) (hash s) (cur s) {k. (s, k) \<in> K}
             (dd_inflight d s) (dd_sealed d s) (rb_quarantine r s)) \<and>
      distinct (dd_slot_order d) \<and> set (dd_slot_order d) \<subseteq> S \<and>
      (\<forall>s \<in> set (dd_slot_order d). dd_inflight d s \<noteq> None \<or> dd_sealed d s \<noteq> None) \<and>
      finite S \<and> card S \<le> dd_slot_retention d)"

lemma prune_noop: "length (dd_slot_order d) \<le> dd_slot_retention d \<Longrightarrow> dd_prune d = d"
  by (cases "dd_slot_order d") (auto simp: dd_prune_def)

lemma slot_ok_reconnect:
  "slot_ok extract s full h C D ifl sea q \<Longrightarrow>
     slot_ok extract s full h {} D (map_option (\<lambda>st. st\<lparr>sst_replaying := True\<rparr>) ifl) sea None"
  by (auto simp: slot_ok_def split: option.splits)

lemma unseen_keys:
  assumes "\<forall>m \<in> set ms. \<exists>k. extract m = Some (s, k)"
  shows "distinct (List.map_filter extract (unseen extract ks ms)) \<and>
    set (List.map_filter extract (unseen extract ks ms)) = Pair s ` (held_keys extract (Some ms) - ks)"
  using assms
proof (induction ms arbitrary: ks)
  case Nil
  then show ?case by (simp add: held_keys_def map_filter_simps)
next
  case (Cons m ms)
  obtain k where k: "extract m = Some (s, k)" using Cons.prems by auto
  have held: "held_keys extract (Some (m # ms)) = insert k (held_keys extract (Some ms))"
    using k by (auto simp: held_keys_def)
  show ?case
  proof (cases "k \<in> ks")
    case True
    then have "held_keys extract (Some (m # ms)) - ks = held_keys extract (Some ms) - ks" unfolding held by blast
    with True k Cons.IH [of ks] Cons.prems show ?thesis by simp
  next
    case False
    then have "held_keys extract (Some (m # ms)) - ks = insert k (held_keys extract (Some ms) - insert k ks)"
      unfolding held by blast
    with False k Cons.IH [of "insert k ks"] Cons.prems show ?thesis by (auto simp: map_filter_simps)
  qed
qed

lemma unseen_subset: "set (unseen extract ks ms) \<subseteq> set ms"
proof (induction ms arbitrary: ks)
  case (Cons m ms)
  show ?case
  proof (cases "extract m")
    case None
    with Cons.IH [of ks] show ?thesis by auto
  next
    case (Some p)
    obtain s k where "p = (s, k)" by (cases p)
    with Some Cons.IH [of ks] Cons.IH [of "insert k ks"] show ?thesis by auto
  qed
qed simp

subsection \<open>One slot\<close>

lemma slot_ok_hold:
  assumes "slot_ok extract s full h C D i x q" "extract m = Some (s, k)" "payload k"
    "x \<noteq> None \<or> (\<exists>st. i = Some st \<and> sst_replaying st)"
  shows "slot_ok extract s full h (insert k C) D i x (Some ((case q of None \<Rightarrow> [] | Some ms \<Rightarrow> ms) @ [m]))"
  using assms by (auto simp: slot_ok_def held_keys_def split: option.splits)

lemma slot_ok_payload:
  assumes "slot_ok extract s full h C D i None q" "payload k" "\<forall>st. i = Some st \<longrightarrow> \<not> sst_replaying st"
    "st = (case i of None \<Rightarrow> SlotState_default | Some st \<Rightarrow> st)"
  shows "slot_ok extract s full h (insert k C) (insert k D) (Some (st\<lparr>sst_keys := insert k (sst_keys st)\<rparr>)) None q"
    "k \<in> D \<longleftrightarrow> k \<in> sst_keys st"
  using assms by (auto simp: slot_ok_def SlotState_default_def payload_def split: option.splits)

lemma slot_ok_status:
  assumes "slot_ok extract s full h C D i None q" "st = (case i of None \<Rightarrow> SlotState_default | Some st \<Rightarrow> st)"
  shows "slot_ok extract s full h C (insert (KSlot x) D) (Some (st\<lparr>sst_statuses := insert x (sst_statuses st)\<rparr>)) None q"
    "KSlot x \<in> D \<longleftrightarrow> x \<in> sst_statuses st"
  using assms by (auto simp: slot_ok_def SlotState_default_def payload_def split: option.splits)

lemma slot_ok_status_sealed:
  assumes "slot_ok extract s full h C D i (Some ss) q"
  shows "slot_ok extract s full h C (insert (KSlot x) D) i (Some (ss\<lparr>ss_statuses := insert x (ss_statuses ss)\<rparr>)) q"
    "KSlot x \<in> D \<longleftrightarrow> x \<in> ss_statuses ss"
  using assms by (auto simp: slot_ok_def)

lemma slot_ok_meta_again:
  assumes "slot_ok extract s full h C D i (Some ss) q"
  shows "slot_ok extract s full h C D i (Some (ss\<lparr>ss_blockhash := Some h\<rparr>)) None"
    "ss_blockhash ss = Some h" "KBlockMeta h \<in> D"
  using assms by (auto simp: slot_ok_def)

lemma slot_ok_meta:
  assumes "slot_ok extract s full h C D i None q" "full \<subseteq> C"
    "st = (case i of None \<Rightarrow> SlotState_default | Some st \<Rightarrow> st)"
  shows "slot_ok extract s full h C (insert (KBlockMeta h) (D \<union> (held_keys extract q - sst_keys st))) None
      (Some \<lparr>ss_blockhash = Some h, ss_statuses = sst_statuses st\<rparr>) None"
    "KBlockMeta h \<notin> D" "D \<inter> (held_keys extract q - sst_keys st) = {}" "KBlockMeta h \<notin> held_keys extract q"
    "\<not> sst_replaying st \<Longrightarrow> q = None"
  using assms
  by (auto simp: slot_ok_def held_keys_def SlotState_default_def payload_def split: option.splits)

subsection \<open>The whole state\<close>

lemma dedup_inv_slot:
  "dedup_inv extract full hash cur K S t \<Longrightarrow>
     slot_ok extract s (full s) (hash s) (cur s) {k. (s, k) \<in> K}
       (dd_inflight (ds_state t) s) (dd_sealed (ds_state t) s) (rb_quarantine (ds_replay t) s)"
  by (simp add: dedup_inv_def Let_def)

lemma dedup_inv_parts:
  assumes "dedup_inv extract full hash cur K S t"
  shows "distinct (dd_slot_order (ds_state t))" "set (dd_slot_order (ds_state t)) \<subseteq> S"
    "finite S" "card S \<le> dd_slot_retention (ds_state t)"
  using assms by (simp_all only: dedup_inv_def Let_def)

lemma untracked_not_ordered:
  assumes "dedup_inv extract full hash cur K S t" "dd_inflight (ds_state t) s = None" "dd_sealed (ds_state t) s = None"
  shows "s \<notin> set (dd_slot_order (ds_state t))"
proof
  assume "s \<in> set (dd_slot_order (ds_state t))"
  with assms(1) have "dd_inflight (ds_state t) s \<noteq> None \<or> dd_sealed (ds_state t) s \<noteq> None"
    unfolding dedup_inv_def Let_def by blast
  with assms(2,3) show False by simp
qed

lemma dedup_inv_update:
  assumes inv: "dedup_inv extract full hash cur K S t"
    and upd: "dd_inflight d' = (dd_inflight (ds_state t))(s := i)" "dd_sealed d' = (dd_sealed (ds_state t))(s := x)"
      "rb_quarantine r' = (rb_quarantine (ds_replay t))(s := q)" "dd_slot_retention d' = dd_slot_retention (ds_state t)"
    and order: "dd_slot_order d' = dd_slot_order (ds_state t) \<or>
      dd_inflight (ds_state t) s = None \<and> dd_sealed (ds_state t) s = None \<and>
      dd_slot_order d' = dd_slot_order (ds_state t) @ [s]"
    and s: "s \<in> S" "i \<noteq> None \<or> x \<noteq> None"
    and ok: "slot_ok extract s (full s) (hash s) C ({k. (s, k) \<in> K} \<union> A) i x q"
  shows "dedup_inv extract full hash (cur(s := C)) (K \<union> Pair s ` A) S (t\<lparr>ds_state := d', ds_replay := r'\<rparr>)"
proof -
  have slots: "slot_ok extract s' (full s') (hash s') ((cur(s := C)) s') {k. (s', k) \<in> K \<union> Pair s ` A}
      (dd_inflight d' s') (dd_sealed d' s') (rb_quarantine r' s')" for s'
  proof (cases "s' = s")
    case True
    moreover have "{k. (s, k) \<in> K \<union> Pair s ` A} = {k. (s, k) \<in> K} \<union> A" by auto
    ultimately show ?thesis using ok upd by simp
  next
    case False
    moreover from this have "{k. (s', k) \<in> K \<union> Pair s ` A} = {k. (s', k) \<in> K}" by auto
    ultimately show ?thesis using dedup_inv_slot [OF inv, of s'] upd by simp
  qed
  have old: "distinct (dd_slot_order (ds_state t))" "set (dd_slot_order (ds_state t)) \<subseteq> S"
    "\<forall>s \<in> set (dd_slot_order (ds_state t)). dd_inflight (ds_state t) s \<noteq> None \<or> dd_sealed (ds_state t) s \<noteq> None"
    "finite S" "card S \<le> dd_slot_retention d'"
    using inv upd(4) by (simp_all add: dedup_inv_def Let_def)
  have "distinct (dd_slot_order d')" "set (dd_slot_order d') \<subseteq> S"
    "\<forall>s \<in> set (dd_slot_order d'). dd_inflight d' s \<noteq> None \<or> dd_sealed d' s \<noteq> None"
    using order old s upd untracked_not_ordered [OF inv, of s] by auto
  with slots old show ?thesis by (simp add: dedup_inv_def Let_def)
qed

lemma order_fits:
  assumes "dedup_inv extract full hash cur K S t"
    and "order = dd_slot_order (ds_state t) \<or>
      dd_inflight (ds_state t) s = None \<and> dd_sealed (ds_state t) s = None \<and> s \<in> S \<and>
      order = dd_slot_order (ds_state t) @ [s]"
  shows "length order \<le> dd_slot_retention (ds_state t)"
proof -
  note parts = dedup_inv_parts [OF assms(1)]
  have "distinct order \<and> set order \<subseteq> S"
    using assms(2) parts(1,2) untracked_not_ordered [OF assms(1), of s] by auto
  then have "length order \<le> card S" using parts(3) by (metis card_mono distinct_card)
  then show ?thesis using parts(4) by simp
qed

lemma rb_prune_noop:
  assumes "dedup_inv extract full hash cur K S t"
    and "\<And>s. dd_inflight (ds_state t) s \<noteq> None \<or> dd_sealed (ds_state t) s \<noteq> None \<Longrightarrow>
      dd_inflight d' s \<noteq> None \<or> dd_sealed d' s \<noteq> None"
  shows "rb_prune d' (ds_replay t) = ds_replay t"
proof -
  have "rb_quarantine (ds_replay t) s = None" if "dd_inflight d' s = None" "dd_sealed d' s = None" for s
    using dedup_inv_slot [OF assms(1), of s] assms(2) [of s] that
    by (auto simp: slot_ok_def split: option.splits)
  then have "(\<lambda>slot. if dd_inflight d' slot \<noteq> None \<or> dd_sealed d' slot \<noteq> None
      then rb_quarantine (ds_replay t) slot else None) = rb_quarantine (ds_replay t)" by fastforce
  then show ?thesis by (simp add: rb_prune_def)
qed


subsection \<open>One message\<close>

text \<open>What a message of slot \<open>s\<close> with key \<open>k\<close> adds: the delivered keys \<open>A\<close> of the
  slot, each new and once, and a state that satisfies the invariant.\<close>

definition step_result ::
  "('m \<Rightarrow> (u64 \<times> DedupKey) option) \<Rightarrow> (u64 \<Rightarrow> DedupKey set) \<Rightarrow> (u64 \<Rightarrow> string) \<Rightarrow> (u64 \<Rightarrow> DedupKey set)
   \<Rightarrow> (u64 \<times> DedupKey) set \<Rightarrow> u64 set \<Rightarrow> u64 \<Rightarrow> DedupKey \<Rightarrow> 'm option \<times> ('s, 'm) DedupStream \<Rightarrow> bool" where
  "step_result extract full hash cur K S s k res \<longleftrightarrow>
     (\<exists>A. let outs = (case fst res of None \<Rightarrow> [] | Some x \<Rightarrow> [x]) @ rb_flush_queue (ds_replay (snd res)) in
        dedup_inv extract full hash (if payload k then cur(s := insert k (cur s)) else cur)
          (K \<union> Pair s ` A) S (snd res) \<and>
        distinct (List.map_filter extract outs) \<and> set (List.map_filter extract outs) = Pair s ` A \<and>
        A \<inter> {k. (s, k) \<in> K} = {} \<and> (\<forall>x \<in> set outs. extract x \<noteq> None) \<and>
        (payload k \<or> k \<in> A \<or> (s, k) \<in> K))"

lemma step_quiet:
  assumes "dedup_inv extract full hash (if payload k then cur(s := insert k (cur s)) else cur) K S t'"
    "rb_flush_queue (ds_replay t') = []" "payload k \<or> (s, k) \<in> K"
  shows "step_result extract full hash cur K S s k (None, t')"
  using assms by (auto simp: step_result_def map_filter_simps intro!: exI [of _ "{}"])

lemma step_emit:
  assumes "dedup_inv extract full hash (if payload k then cur(s := insert k (cur s)) else cur) (K \<union> Pair s ` {k}) S t'"
    "rb_flush_queue (ds_replay t') = []" "(s, k) \<notin> K" "extract m = Some (s, k)"
  shows "step_result extract full hash cur K S s k (Some m, t')"
  using assms by (auto simp: step_result_def map_filter_simps intro!: exI [of _ "{k}"])

definition entry_of :: "DedupState \<Rightarrow> u64 \<Rightarrow> SlotState" where
  "entry_of d s = (case dd_inflight d s of None \<Rightarrow> SlotState_default | Some st \<Rightarrow> st)"

definition order_with :: "DedupState \<Rightarrow> u64 \<Rightarrow> u64 list" where
  "order_with d s =
     (if dd_inflight d s = None \<and> dd_sealed d s = None then dd_slot_order d @ [s] else dd_slot_order d)"

lemma slot_mut_entry: "slot_mut d s =
  (entry_of d s, d\<lparr>dd_inflight := (dd_inflight d)(s \<mapsto> entry_of d s), dd_slot_order := order_with d s\<rparr>)"
  by (simp add: slot_mut_def entry_of_def order_with_def Let_def)

lemma slot_mut_same:
  "dd_inflight d s = Some st \<Longrightarrow> d\<lparr>dd_inflight := (dd_inflight d)(s \<mapsto> st), dd_slot_order := order_with d s\<rparr> = d"
  by (simp add: order_with_def fun_upd_idem)

lemma order_with_fits:
  assumes "dedup_inv extract full hash cur K S t" "s \<in> S"
  shows "length (order_with (ds_state t) s) \<le> dd_slot_retention (ds_state t)"
  by (rule order_fits [OF assms(1), where s = s]) (simp add: order_with_def assms(2))

lemma observe_status_unsealed:
  assumes "dd_sealed d s = None" "x \<noteq> CREATED_BANK_STATUS" "length (order_with d s) \<le> dd_slot_retention d"
  shows "observe_status d s x =
    (if x \<in> sst_statuses (entry_of d s) then (Duplicate, d)
     else (New, d\<lparr>dd_inflight := (dd_inflight d)(s \<mapsto> (entry_of d s)\<lparr>sst_statuses := insert x (sst_statuses (entry_of d s))\<rparr>),
                  dd_slot_order := order_with d s\<rparr>))"
proof (cases "x \<in> sst_statuses (entry_of d s)")
  case True
  then obtain st where "dd_inflight d s = Some st"
    by (cases "dd_inflight d s") (auto simp: entry_of_def SlotState_default_def)
  with True assms show ?thesis by (simp add: observe_status_def slot_mut_entry slot_mut_same entry_of_def)
next
  case False
  with assms show ?thesis by (simp add: observe_status_def slot_mut_entry prune_noop)
qed

lemma observe_payload_open:
  assumes "dd_sealed d s = None" "\<not> replaying_at d s" "length (order_with d s) \<le> dd_slot_retention d"
  shows "observe_payload d s k =
    (if k \<in> sst_keys (entry_of d s) then (Duplicate, d)
     else (New, d\<lparr>dd_inflight := (dd_inflight d)(s \<mapsto> (entry_of d s)\<lparr>sst_keys := insert k (sst_keys (entry_of d s))\<rparr>),
                  dd_slot_order := order_with d s\<rparr>))"
proof (cases "k \<in> sst_keys (entry_of d s)")
  case True
  then obtain st where "dd_inflight d s = Some st"
    by (cases "dd_inflight d s") (auto simp: entry_of_def SlotState_default_def)
  with True assms show ?thesis by (simp add: observe_payload_def slot_mut_entry slot_mut_same entry_of_def)
next
  case False
  with assms show ?thesis by (simp add: observe_payload_def slot_mut_entry prune_noop)
qed

lemma observe_block_meta_unsealed:
  assumes "dd_sealed d s = None" "length (dd_slot_order d) \<le> dd_slot_retention d"
  shows "observe_block_meta d s h =
    (if sst_replaying (entry_of d s) then PartialReplayComplete (sst_keys (entry_of d s)) else New,
     d\<lparr>dd_inflight := (dd_inflight d)(s := None),
       dd_sealed := (dd_sealed d)(s \<mapsto> \<lparr>ss_blockhash = Some h, ss_statuses = sst_statuses (entry_of d s)\<rparr>)\<rparr>)"
  using assms by (simp add: observe_block_meta_def entry_of_def prune_noop Let_def)

lemma same_state [simp]: "t\<lparr>ds_state := ds_state t, ds_replay := ds_replay t\<rparr> = t"
  by simp

lemma status_step:
  assumes inv: "dedup_inv extract full hash cur K S t" and s: "s \<in> S"
    and m: "extract m = Some (s, KSlot x)" and x: "x \<noteq> CREATED_BANK_STATUS"
    and fq: "rb_flush_queue (ds_replay t) = []"
  shows "step_result extract full hash cur K S s (KSlot x) (on_item extract (ds_last_reconnect_count t) m t)"
proof -
  let ?d = "ds_state t" and ?r = "ds_replay t"
  note ok = dedup_inv_slot [OF inv, of s]
  have np: "\<not> payload (KSlot x)" by (simp add: payload_def)
  have dup: "step_result extract full hash cur K S s (KSlot x) (None, t\<lparr>ds_state := ?d, ds_replay := rb_prune ?d ?r\<rparr>)"
    if "(s, KSlot x) \<in> K"
    using rb_prune_noop [OF inv, of ?d] by (auto intro!: step_quiet simp: that inv np fq)
  have new: "step_result extract full hash cur K S s (KSlot x) (Some m, t\<lparr>ds_state := d', ds_replay := rb_prune d' ?r\<rparr>)"
    if "dedup_inv extract full hash (cur(s := cur s)) (K \<union> Pair s ` {KSlot x}) S (t\<lparr>ds_state := d', ds_replay := ?r\<rparr>)"
      "rb_prune d' ?r = ?r" "(s, KSlot x) \<notin> K" for d'
    using that by (intro step_emit) (simp_all add: np fq m)
  show ?thesis
  proof (cases "dd_sealed ?d s")
    case (Some ss)
    let ?ss = "ss\<lparr>ss_statuses := insert x (ss_statuses ss)\<rparr>"
    note seal = slot_ok_status_sealed [OF ok [unfolded Some], of x]
    have "dedup_inv extract full hash (cur(s := cur s)) (K \<union> Pair s ` {KSlot x}) S
        (t\<lparr>ds_state := ?d\<lparr>dd_sealed := (dd_sealed ?d)(s \<mapsto> ?ss)\<rparr>, ds_replay := ?r\<rparr>)"
      by (rule dedup_inv_update [OF inv, where i = "dd_inflight ?d s" and x = "Some ?ss" and q = "rb_quarantine ?r s"])
        (use seal s in simp_all)
    moreover have "rb_prune (?d\<lparr>dd_sealed := (dd_sealed ?d)(s \<mapsto> ?ss)\<rparr>) ?r = ?r"
      by (rule rb_prune_noop [OF inv]) auto
    ultimately show ?thesis
      using dup new seal(2) Some x by (simp add: on_item_def m observe_def observe_status_def Let_def)
  next
    case None
    let ?st = "entry_of ?d s"
    let ?d' = "?d\<lparr>dd_inflight := (dd_inflight ?d)(s \<mapsto> ?st\<lparr>sst_statuses := insert x (sst_statuses ?st)\<rparr>),
      dd_slot_order := order_with ?d s\<rparr>"
    note st = slot_ok_status [OF ok [unfolded None] entry_of_def, of x]
    have "dedup_inv extract full hash (cur(s := cur s)) (K \<union> Pair s ` {KSlot x}) S (t\<lparr>ds_state := ?d', ds_replay := ?r\<rparr>)"
      by (rule dedup_inv_update [OF inv, where x = None and q = "rb_quarantine ?r s"])
        (use st s None in \<open>simp_all add: order_with_def fun_upd_idem\<close>)
    moreover have "rb_prune ?d' ?r = ?r"
      by (rule rb_prune_noop [OF inv]) auto
    ultimately show ?thesis
      using dup new st(2)
      by (simp add: on_item_def m observe_def observe_status_unsealed [OF None x order_with_fits [OF inv s]])
  qed
qed


lemma observe_payload_key: "payload k \<Longrightarrow> observe d s k = observe_payload d s k"
  by (cases k) (simp_all add: observe_def payload_def)

lemma payload_step:
  assumes inv: "dedup_inv extract full hash cur K S t" and s: "s \<in> S"
    and m: "extract m = Some (s, k)" and k: "payload k"
    and fq: "rb_flush_queue (ds_replay t) = []"
  shows "step_result extract full hash cur K S s k (on_item extract (ds_last_reconnect_count t) m t)"
proof -
  let ?d = "ds_state t" and ?r = "ds_replay t"
  note ok = dedup_inv_slot [OF inv, of s]
  have idle: "rb_prune ?d ?r = ?r" by (rule rb_prune_noop [OF inv])
  show ?thesis
  proof (cases "dd_sealed ?d s \<noteq> None \<or> replaying_at ?d s")
    case True
    then have tr: "dd_sealed ?d s \<noteq> None \<or> (\<exists>st. dd_inflight ?d s = Some st \<and> sst_replaying st)"
      by (auto simp: replaying_at_def split: option.splits)
    have "dedup_inv extract full hash (cur(s := insert k (cur s))) (K \<union> Pair s ` {}) S
        (t\<lparr>ds_state := ?d, ds_replay := rb_hold s m ?r\<rparr>)"
      by (rule dedup_inv_update [OF inv, where i = "dd_inflight ?d s" and x = "dd_sealed ?d s"])
        (use slot_ok_hold [OF ok m k tr] tr s in \<open>auto simp: rb_hold_def buffered_def\<close>)
    then have "step_result extract full hash cur K S s k (None, t\<lparr>ds_state := ?d, ds_replay := rb_hold s m ?r\<rparr>)"
      by (intro step_quiet) (simp_all add: k fq rb_hold_def)
    with True show ?thesis
      by (simp add: on_item_def m observe_payload_key [OF k] observe_payload_def idle)
  next
    case False
    then have open_slot: "dd_sealed ?d s = None" "\<not> replaying_at ?d s" by auto
    let ?st = "entry_of ?d s"
    let ?d' = "?d\<lparr>dd_inflight := (dd_inflight ?d)(s \<mapsto> ?st\<lparr>sst_keys := insert k (sst_keys ?st)\<rparr>),
      dd_slot_order := order_with ?d s\<rparr>"
    have idle': "rb_prune ?d' ?r = ?r" by (rule rb_prune_noop [OF inv]) auto
    have "\<forall>st. dd_inflight ?d s = Some st \<longrightarrow> \<not> sst_replaying st"
      using open_slot(2) by (auto simp: replaying_at_def)
    note st = slot_ok_payload [OF ok [unfolded open_slot(1)] k this entry_of_def]
    have upd: "dedup_inv extract full hash (cur(s := insert k (cur s))) (K \<union> Pair s ` {k}) S
        (t\<lparr>ds_state := ?d', ds_replay := ?r\<rparr>)"
      by (rule dedup_inv_update [OF inv, where x = None and q = "rb_quarantine ?r s"])
        (use st s open_slot in \<open>simp_all add: order_with_def fun_upd_idem\<close>)
    have dup: "step_result extract full hash cur K S s k (None, t)" if mem: "k \<in> sst_keys ?st"
    proof -
      obtain st where i: "dd_inflight ?d s = Some st"
        using mem by (cases "dd_inflight ?d s") (auto simp: entry_of_def SlotState_default_def)
      have "(s, k) \<in> K" using st(2) mem by simp
      moreover have "sst_keys ?st = insert k (sst_keys ?st)" using mem by auto
      ultimately have "dedup_inv extract full hash (cur(s := insert k (cur s))) K S t"
        using upd i slot_mut_same [OF i] by (simp add: entry_of_def insert_absorb)
      then show ?thesis by (intro step_quiet) (simp_all add: k fq)
    qed
    have new: "step_result extract full hash cur K S s k (Some m, t\<lparr>ds_state := ?d', ds_replay := ?r\<rparr>)"
      if "k \<notin> sst_keys ?st"
      using upd st(2) that by (intro step_emit) (simp_all add: k fq m)
    show ?thesis
      using dup new
      by (simp add: on_item_def m observe_payload_key [OF k] idle idle'
          observe_payload_open [OF open_slot order_with_fits [OF inv s]])
  qed
qed

lemma meta_step:
  assumes inv: "dedup_inv extract full hash cur K S t" and s: "s \<in> S"
    and m: "extract m = Some (s, KBlockMeta (hash s))" and full: "full s \<subseteq> cur s"
    and fq: "rb_flush_queue (ds_replay t) = []"
  shows "step_result extract full hash cur K S s (KBlockMeta (hash s)) (on_item extract (ds_last_reconnect_count t) m t)"
proof -
  let ?d = "ds_state t" and ?r = "ds_replay t" and ?k = "KBlockMeta (hash s)"
  note ok = dedup_inv_slot [OF inv, of s]
  have np: "\<not> payload ?k" by (simp add: payload_def)
  show ?thesis
  proof (cases "dd_sealed ?d s")
    case (Some ss)
    note again = slot_ok_meta_again [OF ok [unfolded Some]]
    let ?d' = "?d\<lparr>dd_sealed := (dd_sealed ?d)(s \<mapsto> ss\<lparr>ss_blockhash := Some (hash s)\<rparr>)\<rparr>"
    have "dedup_inv extract full hash (cur(s := cur s)) (K \<union> Pair s ` {}) S
        (t\<lparr>ds_state := ?d', ds_replay := rb_discard s ?r\<rparr>)"
      by (rule dedup_inv_update [OF inv, where i = "dd_inflight ?d s"])
        (use again s in \<open>auto simp: rb_discard_def\<close>)
    then have "step_result extract full hash cur K S s ?k (None, t\<lparr>ds_state := ?d', ds_replay := rb_discard s ?r\<rparr>)"
      using again(3) by (intro step_quiet) (simp_all add: np fq rb_discard_def)
    moreover have "rb_prune ?d' ?r = ?r" by (rule rb_prune_noop [OF inv]) auto
    ultimately show ?thesis
      using Some again(2) by (simp add: on_item_def m observe_def observe_block_meta_def)
  next
    case None
    let ?st = "entry_of ?d s"
    let ?d' = "?d\<lparr>dd_inflight := (dd_inflight ?d)(s := None),
       dd_sealed := (dd_sealed ?d)(s \<mapsto> \<lparr>ss_blockhash = Some (hash s), ss_statuses = sst_statuses ?st\<rparr>)\<rparr>"
    let ?A = "insert ?k (held_keys extract (rb_quarantine ?r s) - sst_keys ?st)"
    note meta = slot_ok_meta [OF ok [unfolded None] full entry_of_def]
    have idle: "rb_prune ?d' ?r = ?r" by (rule rb_prune_noop [OF inv]) auto
    have obs: "observe ?d s ?k = (if sst_replaying ?st then PartialReplayComplete (sst_keys ?st) else New, ?d')"
      using observe_block_meta_unsealed [OF None order_fits [OF inv]] by (simp add: observe_def)
    have upd: "dedup_inv extract full hash cur (K \<union> Pair s ` ?A) S (t\<lparr>ds_state := ?d', ds_replay := r'\<rparr>)"
      if "rb_quarantine r' = (rb_quarantine ?r)(s := None)" for r'
    proof -
      have "dedup_inv extract full hash (cur(s := cur s)) (K \<union> Pair s ` ?A) S (t\<lparr>ds_state := ?d', ds_replay := r'\<rparr>)"
        by (rule dedup_inv_update [OF inv]) (use meta s that in \<open>simp_all add: ac_simps\<close>)
      then show ?thesis by simp
    qed
    show ?thesis
    proof (cases "sst_replaying ?st")
      case True
      let ?r' = "rb_reconcile extract s (sst_keys ?st) m ?r"
      have held: "held_keys extract (rb_quarantine ?r s) = held_keys extract (Some (buffered ?r s))"
        by (auto simp: held_keys_def buffered_def split: option.splits)
      have ms: "\<forall>x \<in> set (buffered ?r s). \<exists>k. extract x = Some (s, k)"
        using ok by (cases "rb_quarantine ?r s") (auto simp: slot_ok_def buffered_def)
      note keys = unseen_keys [OF ms, of "sst_keys ?st"]
      have outs: "rb_flush_queue ?r' = unseen extract (sst_keys ?st) (buffered ?r s) @ [m]"
        by (simp add: rb_reconcile_def fq)
      let ?U = "unseen extract (sst_keys ?st) (buffered ?r s)"
      have mf: "List.map_filter extract (?U @ [m]) = List.map_filter extract ?U @ [(s, ?k)]"
        by (simp add: map_filter_append map_filter_simps m)
      have "dedup_inv extract full hash cur (K \<union> Pair s ` ?A) S (t\<lparr>ds_state := ?d', ds_replay := ?r'\<rparr>)"
        by (rule upd) (simp add: rb_reconcile_def)
      moreover have "distinct (List.map_filter extract (?U @ [m]))"
        unfolding mf using keys meta(4) held by auto
      moreover have "set (List.map_filter extract (?U @ [m])) = Pair s ` ?A"
        unfolding mf using keys held by auto
      moreover have "?A \<inter> {k. (s, k) \<in> K} = {}" using meta(2,3) by blast
      moreover have "\<forall>x \<in> set (?U @ [m]). extract x \<noteq> None"
        using ms unseen_subset [of "extract" "sst_keys ?st" "buffered ?r s"] m by fastforce
      ultimately have "step_result extract full hash cur K S s ?k (None, t\<lparr>ds_state := ?d', ds_replay := ?r'\<rparr>)"
        unfolding step_result_def Let_def by (intro exI [of _ ?A]) (simp add: np outs)
      with True show ?thesis by (simp add: on_item_def m obs idle)
    next
      case False
      then have q: "rb_quarantine ?r s = None" using meta(5) by simp
      have "step_result extract full hash cur K S s ?k (Some m, t\<lparr>ds_state := ?d', ds_replay := ?r\<rparr>)"
        using upd [of ?r] q meta(2) by (intro step_emit) (simp_all add: np fq m fun_upd_idem held_keys_def)
      with False show ?thesis by (simp add: on_item_def m obs idle)
    qed
  qed
qed


subsection \<open>A sequence of messages\<close>

lemma dedup_inv_reconnect:
  assumes "dedup_inv extract full hash cur K S t"
  shows "dedup_inv extract full hash (\<lambda>_. {}) K S
    (t\<lparr>ds_replay := rb_prepare_for_replay (ds_replay t), ds_state := dd_prepare_for_replay (ds_state t),
       ds_last_reconnect_count := c\<rparr>)"
proof -
  have "slot_ok extract s (full s) (hash s) {} {k. (s, k) \<in> K}
      (map_option (\<lambda>st. st\<lparr>sst_replaying := True\<rparr>) (dd_inflight (ds_state t) s)) (dd_sealed (ds_state t) s) None" for s
    by (rule slot_ok_reconnect [OF dedup_inv_slot [OF assms]])
  then show ?thesis
    using assms unfolding dedup_inv_def Let_def
    by (simp add: rb_prepare_for_replay_def dd_prepare_for_replay_def)
qed

definition tuned :: "u32 \<Rightarrow> ('s, 'm) DedupStream \<Rightarrow> ('s, 'm) DedupStream" where
  "tuned c t =
     (if c \<noteq> ds_last_reconnect_count t
      then t\<lparr>ds_replay := rb_prepare_for_replay (ds_replay t), ds_state := dd_prepare_for_replay (ds_state t),
             ds_last_reconnect_count := c\<rparr>
      else t)"

lemma on_item_tuned: "on_item extract c m t = on_item extract (ds_last_reconnect_count (tuned c t)) m (tuned c t)"
  by (simp add: on_item_def tuned_def)

lemma tuned_simps [simp]:
  "ds_last_reconnect_count (tuned c t) = c" "rb_flush_queue (ds_replay (tuned c t)) = rb_flush_queue (ds_replay t)"
  by (simp_all add: tuned_def rb_prepare_for_replay_def)

lemma flushed_simps [simp]:
  "ds_last_reconnect_count (flushed t) = ds_last_reconnect_count t" "rb_flush_queue (ds_replay (flushed t)) = []"
  by (simp_all add: flushed_def)

lemma dedup_inv_flushed [simp]: "dedup_inv extract full hash cur K S (flushed t) = dedup_inv extract full hash cur K S t"
  by (simp add: dedup_inv_def flushed_def)

lemma dedup_inv_tuned:
  "dedup_inv extract full hash cur K S t \<Longrightarrow>
     dedup_inv extract full hash (if c = ds_last_reconnect_count t then cur else (\<lambda>_. {})) K S (tuned c t)"
  using dedup_inv_reconnect [of "extract" full hash cur K S t c] by (simp add: tuned_def)

lemma on_item_count: "ds_last_reconnect_count (snd (on_item extract c m t)) = c"
  by (simp add: on_item_def Let_def split: option.split prod.split Observation.split bool.split)

text \<open>Delivering the keyed message at the head.\<close>

lemma keyed_step:
  assumes inv: "dedup_inv extract full hash cur K S t" and fed: "well_fed extract full hash (ds_last_reconnect_count t) cur ((c, m) # evs)"
    and m: "extract m = Some (s, k)" and s: "s \<in> S"
  obtains now where "step_result extract full hash now K S s k (on_item extract c m (flushed t))"
    "well_fed extract full hash c (if payload k then now(s := insert k (now s)) else now) evs"
    "case k of KBlockMeta h \<Rightarrow> full s \<subseteq> now s | _ \<Rightarrow> True"
proof -
  let ?now = "if c = ds_last_reconnect_count t then cur else (\<lambda>_. {})" and ?t = "tuned c (flushed t)"
  have inv': "dedup_inv extract full hash ?now K S ?t"
    using dedup_inv_tuned [of "extract" full hash cur K S "flushed t" c] inv by simp
  have fq: "rb_flush_queue (ds_replay ?t) = []" by simp
  have fed': "k \<noteq> KSlot CREATED_BANK_STATUS" "case k of KBlockMeta h \<Rightarrow> h = hash s \<and> full s \<subseteq> ?now s | _ \<Rightarrow> True"
    "well_fed extract full hash c (if payload k then ?now(s := insert k (?now s)) else ?now) evs"
    using fed m by (simp_all add: Let_def)
  have "step_result extract full hash ?now K S s k (on_item extract (ds_last_reconnect_count ?t) m ?t)"
  proof (cases "payload k")
    case True
    then show ?thesis by (rule payload_step [OF inv' s m _ fq])
  next
    case False
    then consider x where "k = KSlot x" | h where "k = KBlockMeta h" by (cases k) (simp_all add: payload_def)
    then show ?thesis
    proof cases
      case 1
      then show ?thesis using status_step [OF inv' s _ _ fq] m fed'(1) by simp
    next
      case 2
      then show ?thesis using meta_step [OF inv' s _ _ fq] m fed'(2) by simp
    qed
  qed
  moreover have "case k of KBlockMeta h \<Rightarrow> full s \<subseteq> ?now s | _ \<Rightarrow> True"
    using fed'(2) by (cases k) simp_all
  ultimately show ?thesis using that [of ?now] fed'(3) on_item_tuned [of "extract" c m "flushed t"] by simp
qed


abbreviation keys_of :: "('m \<Rightarrow> (u64 \<times> DedupKey) option) \<Rightarrow> 'm list \<Rightarrow> (u64 \<times> DedupKey) list" where
  "keys_of extract ms \<equiv> List.map_filter extract ms"

lemma unkeyed_step:
  assumes "dedup_inv extract full hash cur K S t" "extract m = None"
    "well_fed extract full hash (ds_last_reconnect_count t) cur ((c, m) # evs)"
  obtains now where "on_item extract c m (flushed t) = (Some m, tuned c (flushed t))"
    "dedup_inv extract full hash now K S (tuned c (flushed t))" "well_fed extract full hash c now evs"
proof -
  let ?now = "if c = ds_last_reconnect_count t then cur else (\<lambda>_. {})"
  have "dedup_inv extract full hash ?now K S (tuned c (flushed t))"
    using dedup_inv_tuned [of "extract" full hash cur K S "flushed t" c] assms(1) by simp
  moreover have "on_item extract c m (flushed t) = (Some m, tuned c (flushed t))"
    using assms(2) by (simp add: on_item_def tuned_def)
  ultimately show ?thesis using that [of ?now] assms(2,3) by (simp add: Let_def)
qed

text \<open>The messages \<open>R\<close> deliver those of \<open>ms\<close> when \<open>K\<close> was delivered before.\<close>

definition delivery ::
  "('m \<Rightarrow> (u64 \<times> DedupKey) option) \<Rightarrow> (u64 \<times> DedupKey) set \<Rightarrow> 'm list \<Rightarrow> 'm list \<Rightarrow> bool" where
  "delivery extract K ms R \<longleftrightarrow>
     distinct (keys_of extract R) \<and> set (keys_of extract R) \<inter> K = {} \<and>
     (\<forall>(s, k) \<in> set (keys_of extract ms). payload k \<or> (s, k) \<in> K \<union> set (keys_of extract R)) \<and>
     filter (\<lambda>m. extract m = None) R = filter (\<lambda>m. extract m = None) ms"

lemma delivery_unkeyed: "extract m = None \<Longrightarrow> delivery extract K ms R \<Longrightarrow> delivery extract K (m # ms) (m # R)"
  by (simp add: delivery_def map_filter_simps)

lemma delivery_keyed:
  assumes "extract m = Some (s, k)" "delivery extract (K \<union> set (keys_of extract ns)) ms R"
    and "distinct (keys_of extract ns)" "set (keys_of extract ns) \<inter> K = {}" "\<forall>x \<in> set ns. extract x \<noteq> None"
    and "payload k \<or> (s, k) \<in> K \<union> set (keys_of extract ns)"
  shows "delivery extract K (m # ms) (ns @ R)"
proof -
  have "filter (\<lambda>m. extract m = None) ns = []" using assms(5) by (auto simp: filter_empty_conv)
  moreover have "keys_of extract (m # ms) = (s, k) # keys_of extract ms" using assms(1) by (simp add: map_filter_simps)
  ultimately show ?thesis
    using assms(1,2,3,4,6) unfolding delivery_def map_filter_append by (simp add: Int_Un_distrib) blast
qed

lemma deliver_exact:
  fixes t :: "('s, 'm) DedupStream"
  assumes "dedup_inv extract full hash cur K S t" "well_fed extract full hash (ds_last_reconnect_count t) cur evs"
    "fst ` set (keys_of extract (map snd evs)) \<subseteq> S"
  shows "\<exists>R (t' :: ('s, 'm) DedupStream) cur'. deliver extract evs t = rb_flush_queue (ds_replay t) @ R \<and>
    delivery extract K (map snd evs) R \<and> dedup_inv extract full hash cur' (K \<union> set (keys_of extract R)) S t'"
  using assms
proof (induction evs arbitrary: t cur K)
  case Nil
  then show ?case by (intro exI [of _ "[]"] exI [of _ t] exI [of _ cur]) (simp add: map_filter_simps delivery_def)
next
  case (Cons ev evs)
  obtain c m where ev: "ev = (c, m)" by (cases ev)
  note fed = Cons.prems(2) [unfolded ev]
  show ?case
  proof (cases "extract m")
    case None
    obtain now where now: "on_item extract c m (flushed t) = (Some m, tuned c (flushed t))"
      "dedup_inv extract full hash now K S (tuned c (flushed t))" "well_fed extract full hash c now evs"
      by (rule unkeyed_step [OF Cons.prems(1) None fed])
    have "fst ` set (keys_of extract (map snd evs)) \<subseteq> S" using Cons.prems(3) ev None by (simp add: map_filter_simps)
    with Cons.IH [OF now(2)] now(3) obtain R and t' :: "('s, 'm) DedupStream" and cur' where R:
      "deliver extract evs (tuned c (flushed t)) = R" "delivery extract K (map snd evs) R"
      "dedup_inv extract full hash cur' (K \<union> set (keys_of extract R)) S t'" by auto
    have "keys_of extract (m # R) = keys_of extract R" using None by (simp add: map_filter_simps)
    with R now(1) ev delivery_unkeyed [OF None R(2)] show ?thesis
      by (intro exI [of _ "m # R"] exI [of _ t'] exI [of _ cur']) simp
  next
    case (Some p)
    obtain s k where m: "extract m = Some (s, k)" using Some by (cases p) simp
    have S: "s \<in> S" "fst ` set (keys_of extract (map snd evs)) \<subseteq> S"
      using Cons.prems(3) ev m by (simp_all add: map_filter_simps)
    obtain out t1 where item: "on_item extract c m (flushed t) = (out, t1)" by fastforce
    obtain now where now: "step_result extract full hash now K S s k (out, t1)"
      "well_fed extract full hash c (if payload k then now(s := insert k (now s)) else now) evs"
      using keyed_step [OF Cons.prems(1) fed m S(1)] unfolding item by blast
    let ?o = "(case out of None \<Rightarrow> [] | Some x \<Rightarrow> [x]) @ rb_flush_queue (ds_replay t1)"
    from now(1) obtain A where A:
      "dedup_inv extract full hash (if payload k then now(s := insert k (now s)) else now) (K \<union> Pair s ` A) S t1"
      "distinct (keys_of extract ?o)" "set (keys_of extract ?o) = Pair s ` A" "A \<inter> {k. (s, k) \<in> K} = {}"
      "\<forall>x \<in> set ?o. extract x \<noteq> None" "payload k \<or> k \<in> A \<or> (s, k) \<in> K"
      unfolding step_result_def Let_def fst_conv snd_conv by (elim exE conjE) (rule that; assumption)
    have inv1: "dedup_inv extract full hash (if payload k then now(s := insert k (now s)) else now)
        (K \<union> set (keys_of extract ?o)) S t1"
      using A(1) by (simp only: A(3))
    have fed1: "well_fed extract full hash (ds_last_reconnect_count t1)
        (if payload k then now(s := insert k (now s)) else now) evs"
      using on_item_count [of "extract" c m "flushed t"] item now(2) by simp
    from Cons.IH [OF inv1 fed1 S(2)] obtain R and t' :: "('s, 'm) DedupStream" and cur' where R:
      "deliver extract evs t1 = rb_flush_queue (ds_replay t1) @ R"
      "delivery extract (K \<union> set (keys_of extract ?o)) (map snd evs) R"
      "dedup_inv extract full hash cur' (K \<union> set (keys_of extract ?o) \<union> set (keys_of extract R)) S t'"
      by blast
    have "delivery extract K (m # map snd evs) (?o @ R)"
      by (rule delivery_keyed [OF m R(2) A(2) _ A(5)]) (use A(3,4,6) in auto)
    with R item ev show ?thesis
      by (intro exI [of _ "?o @ R"] exI [of _ t'] exI [of _ cur']) (simp add: map_filter_append Un_assoc)
  qed
qed

lemma meta_delivered_full:
  assumes "dedup_inv extract full hash cur K S t" "(s, KBlockMeta h) \<in> K"
  shows "full s \<subseteq> {k. (s, k) \<in> K}"
proof -
  note ok = dedup_inv_slot [OF assms(1), of s]
  have D: "KBlockMeta h \<in> {k. (s, k) \<in> K}" using assms(2) by simp
  have np: "\<not> payload (KBlockMeta h)" by (simp add: payload_def)
  show ?thesis
  proof (cases "dd_sealed (ds_state t) s")
    case None
    have False
    proof (cases "dd_inflight (ds_state t) s")
      case None
      with ok \<open>dd_sealed (ds_state t) s = None\<close> D show False by (simp add: slot_ok_def)
    next
      case (Some st)
      with ok \<open>dd_sealed (ds_state t) s = None\<close>
      have "{k. (s, k) \<in> K} = sst_keys st \<union> KSlot ` sst_statuses st" "Ball (sst_keys st) payload"
        by (simp_all add: slot_ok_def)
      with D np show False by auto
    qed
    then show ?thesis ..
  next
    case (Some ss)
    with ok show ?thesis by (simp add: slot_ok_def)
  qed
qed

definition messages_of :: "'m ReplayBuffer \<Rightarrow> 'm set" where
  "messages_of r = set (rb_flush_queue r) \<union> \<Union> (set ` ran (rb_quarantine r))"

lemma buffered_sub: "set (buffered r s) \<subseteq> \<Union> (set ` ran (rb_quarantine r))"
  by (cases "rb_quarantine r s") (auto simp: buffered_def ran_def)

lemma ran_upd_sub: "ran (m(s := None)) \<subseteq> ran m" "ran (m(s \<mapsto> x)) \<subseteq> insert x (ran m)"
  by (auto simp: ran_def)

lemma messages_of_drop:
  "messages_of (rb_prepare_for_replay r) \<subseteq> messages_of r" "messages_of (rb_prune d r) \<subseteq> messages_of r"
  "messages_of (rb_discard s r) \<subseteq> messages_of r"
  using ran_upd_sub(1) [of "rb_quarantine r" s]
  by (auto simp: messages_of_def rb_prepare_for_replay_def rb_prune_def rb_discard_def ran_def split: if_splits)

lemma messages_of_add:
  "messages_of (rb_hold s m r) \<subseteq> insert m (messages_of r)" "messages_of (rb_flush s m r) \<subseteq> insert m (messages_of r)"
  "messages_of (rb_reconcile extract s ks m r) \<subseteq> insert m (messages_of r)"
  using unseen_subset [of "extract" ks "buffered r s"] buffered_sub [of r s]
    ran_upd_sub [of "rb_quarantine r" s]
  by (fastforce simp: messages_of_def rb_hold_def rb_flush_def rb_reconcile_def)+

lemma on_item_received:
  assumes "on_item extract c m t = (out, t1)"
  shows "set_option out \<subseteq> {m}" "messages_of (ds_replay t1) \<subseteq> insert m (messages_of (ds_replay t))"
proof -
  let ?t = "tuned c t"
  have t: "messages_of (ds_replay ?t) \<subseteq> messages_of (ds_replay t)"
    by (simp add: tuned_def messages_of_drop)
  have "set_option out \<subseteq> {m} \<and> messages_of (ds_replay t1) \<subseteq> insert m (messages_of (ds_replay ?t))"
  proof (cases "extract m")
    case None
    then show ?thesis using assms by (auto simp: on_item_def tuned_def)
  next
    case (Some p)
    obtain s k where p: "p = (s, k)" by (cases p)
    obtain obs d where obs: "observe (ds_state ?t) s k = (obs, d)" by fastforce
    let ?r = "rb_prune d (ds_replay ?t)"
    note ops = messages_of_drop(2) [of d "ds_replay ?t"] messages_of_drop(3) [of s ?r]
      messages_of_add(1) [of s m ?r] messages_of_add(2) [of s m ?r]
    have item: "on_item extract c m t = (case obs of
        New \<Rightarrow> (Some m, ?t\<lparr>ds_state := d, ds_replay := ?r\<rparr>)
      | Duplicate \<Rightarrow> (None, ?t\<lparr>ds_state := d, ds_replay := ?r\<rparr>)
      | Replay \<Rightarrow> (None, ?t\<lparr>ds_state := d, ds_replay := rb_hold s m ?r\<rparr>)
      | ReplayComplete True \<Rightarrow> (None, ?t\<lparr>ds_state := d, ds_replay := rb_discard s ?r\<rparr>)
      | ReplayComplete False \<Rightarrow> (None, ?t\<lparr>ds_state := d, ds_replay := rb_flush s m ?r\<rparr>)
      | PartialReplayComplete keys \<Rightarrow> (None, ?t\<lparr>ds_state := d, ds_replay := rb_reconcile extract s keys m ?r\<rparr>))"
      unfolding on_item_tuned [of "extract" c m t] by (simp add: on_item_def Some p obs Let_def)
    show ?thesis
    proof (cases obs)
      case (PartialReplayComplete ks)
      with assms item messages_of_add(3) [of "extract" s ks m ?r] ops(1) show ?thesis by auto
    qed (use assms item ops in \<open>auto split: bool.splits\<close>)
  qed
  with t show "set_option out \<subseteq> {m}" "messages_of (ds_replay t1) \<subseteq> insert m (messages_of (ds_replay t))" by auto
qed

lemma deliver_received: "set (deliver extract evs t) \<subseteq> set (map snd evs) \<union> messages_of (ds_replay t)"
proof (induction evs arbitrary: t)
  case Nil
  then show ?case by (simp add: messages_of_def)
next
  case (Cons ev evs)
  obtain c m where ev: "ev = (c, m)" by (cases ev)
  obtain out t1 where item: "on_item extract c m (flushed t) = (out, t1)" by fastforce
  have "messages_of (ds_replay (flushed t)) \<subseteq> messages_of (ds_replay t)"
    "set (rb_flush_queue (ds_replay t)) \<subseteq> messages_of (ds_replay t)"
    by (auto simp: messages_of_def flushed_def buffered_def)
  with on_item_received [OF item] Cons.IH [of t1] ev item show ?case by (auto split: option.splits)
qed


lemma dedup_inv_new:
  assumes "finite S" "card S \<le> n"
  shows "dedup_inv extract full hash (\<lambda>_. {}) {} S (DedupStream_new inner (with_slot_retention n))"
  using assms
  by (simp add: dedup_inv_def slot_ok_def DedupStream_new_def with_slot_retention_def ReplayBuffer_new_def)

section \<open>The retention window\<close>

text \<open>The reachable states of the deduplication state.\<close>

inductive dedup_reach :: "nat \<Rightarrow> DedupState \<Rightarrow> bool" for n where
  start: "dedup_reach n (with_slot_retention n)"
| seen: "dedup_reach n d \<Longrightarrow> dedup_reach n (snd (observe d slot key))"
| reconnect: "dedup_reach n d \<Longrightarrow> dedup_reach n (dd_prepare_for_replay d)"

definition window_inv :: "nat \<Rightarrow> DedupState \<Rightarrow> bool" where
  "window_inv n d \<longleftrightarrow>
     dom (dd_inflight d) \<subseteq> set (dd_slot_order d) \<and> distinct (dd_slot_order d) \<and>
     set (dd_slot_order d) \<subseteq> dom (dd_inflight d) \<union> dom (dd_sealed d) \<and> dd_slot_retention d = n"

lemma prune_loop_inv:
  assumes "window_inv n (d\<lparr>dd_slot_order := order\<rparr>)"
  shows "window_inv n (prune_loop order d) \<and> length (dd_slot_order (prune_loop order d)) \<le> n"
  using assms
proof (induction order d rule: prune_loop.induct)
  case (2 slot rest d)
  show ?case
  proof (cases "length (slot # rest) > dd_slot_retention d")
    case True
    have "window_inv n ((forget slot d)\<lparr>dd_slot_order := rest\<rparr>)"
      using "2.prems" by (auto simp: window_inv_def forget_def)
    with 2 True show ?thesis by simp
  next
    case False
    with "2.prems" show ?thesis by (simp add: window_inv_def)
  qed
qed (simp add: window_inv_def)

lemma prune_inv: "window_inv n d \<Longrightarrow> window_inv n (dd_prune d) \<and> length (dd_slot_order (dd_prune d)) \<le> n"
  using prune_loop_inv [of n "dd_slot_order d" d] by (simp add: dd_prune_def)

lemma slot_mut_inv:
  assumes "window_inv n d" "dd_sealed d slot = None"
  shows "window_inv n (d\<lparr>dd_slot_order := order_with d slot, dd_inflight := (dd_inflight d)(slot \<mapsto> st)\<rparr>)"
  using assms by (fastforce simp: window_inv_def order_with_def)

lemma clear_slot_inv:
  "window_inv n d \<and> length (dd_slot_order d) \<le> n \<Longrightarrow>
     window_inv n (clear_slot slot d) \<and> length (dd_slot_order (clear_slot slot d)) \<le> n"
  by (auto simp: window_inv_def clear_slot_def forget_def intro: le_trans [OF length_filter_le])

lemma observe_status_inv:
  assumes "window_inv n d0" "length (dd_slot_order d0) \<le> n"
  shows "window_inv n (snd (observe_status d0 slot x)) \<and> length (dd_slot_order (snd (observe_status d0 slot x))) \<le> n"
proof -
  define d where "d = (if x = CREATED_BANK_STATUS \<and> \<not> replaying_at d0 slot then clear_slot slot d0 else d0)"
  have d: "window_inv n d \<and> length (dd_slot_order d) \<le> n"
    using clear_slot_inv [of n d0 slot] assms by (simp add: d_def)
  show ?thesis
  proof (cases "dd_sealed d slot")
    case (Some s)
    have "window_inv n (d\<lparr>dd_sealed := (dd_sealed d)(slot \<mapsto> s')\<rparr>)" for s'
      using d by (auto simp: window_inv_def)
    with Some d show ?thesis by (simp add: observe_status_def flip: d_def)
  next
    case None
    let ?st = "entry_of d slot"
    have new: "window_inv n (d\<lparr>dd_slot_order := order_with d slot, dd_inflight := (dd_inflight d)(slot \<mapsto> st)\<rparr>)" for st
      using slot_mut_inv [OF conjunct1 [OF d] None] .
    show ?thesis
    proof (cases "x \<in> sst_statuses ?st")
      case True
      then obtain st where "dd_inflight d slot = Some st"
        by (cases "dd_inflight d slot") (auto simp: entry_of_def SlotState_default_def)
      with True None d show ?thesis
        by (simp add: observe_status_def slot_mut_entry slot_mut_same entry_of_def flip: d_def)
    next
      case False
      with None prune_inv [OF new] show ?thesis by (simp add: observe_status_def slot_mut_entry flip: d_def)
    qed
  qed
qed

lemma observe_payload_inv:
  assumes "window_inv n d" "length (dd_slot_order d) \<le> n"
  shows "window_inv n (snd (observe_payload d slot k)) \<and> length (dd_slot_order (snd (observe_payload d slot k))) \<le> n"
proof (cases "dd_sealed d slot \<noteq> None \<or> replaying_at d slot")
  case True
  with assms show ?thesis by (simp add: observe_payload_def)
next
  case False
  let ?st = "entry_of d slot"
  have None: "dd_sealed d slot = None" using False by simp
  have new: "window_inv n (d\<lparr>dd_slot_order := order_with d slot, dd_inflight := (dd_inflight d)(slot \<mapsto> st)\<rparr>)" for st
    by (rule slot_mut_inv [OF assms(1) None])
  show ?thesis
  proof (cases "k \<in> sst_keys ?st")
    case True
    then obtain st where "dd_inflight d slot = Some st"
      by (cases "dd_inflight d slot") (auto simp: entry_of_def SlotState_default_def)
    with True False assms show ?thesis
      by (simp add: observe_payload_def slot_mut_entry slot_mut_same entry_of_def)
  next
    case notin: False
    with False prune_inv [OF new] show ?thesis by (simp add: observe_payload_def slot_mut_entry)
  qed
qed

lemma observe_block_meta_inv:
  assumes "window_inv n d" "length (dd_slot_order d) \<le> n"
  shows "window_inv n (snd (observe_block_meta d slot h)) \<and>
    length (dd_slot_order (snd (observe_block_meta d slot h))) \<le> n"
proof (cases "dd_sealed d slot")
  case None
  have "window_inv n (d\<lparr>dd_inflight := (dd_inflight d)(slot := None), dd_sealed := (dd_sealed d)(slot \<mapsto> s)\<rparr>)" for s
    using assms(1) by (auto simp: window_inv_def)
  then show ?thesis using None prune_inv by (simp add: observe_block_meta_def Let_def)
next
  case (Some s)
  with assms show ?thesis by (auto simp: observe_block_meta_def window_inv_def)
qed

lemma dedup_reach_window: "dedup_reach n d \<Longrightarrow> window_inv n d \<and> length (dd_slot_order d) \<le> n"
proof (induction rule: dedup_reach.induct)
  case start
  then show ?case by (simp add: window_inv_def with_slot_retention_def)
next
  case (seen d slot key)
  then show ?case
    using observe_status_inv observe_payload_inv observe_block_meta_inv
    by (cases key) (simp_all add: observe_def)
next
  case (reconnect d)
  then show ?case by (simp add: window_inv_def dd_prepare_for_replay_def) (auto simp: dom_def)
qed


section \<open>Exactly-once delivery\<close>

definition exactly_once ::
  "('m \<Rightarrow> (u64 \<times> DedupKey) option) \<Rightarrow> (u64 \<Rightarrow> DedupKey set) \<Rightarrow> 'm list \<Rightarrow> 'm list \<Rightarrow> bool" where
  "exactly_once extract full ms outs \<longleftrightarrow>
     set outs \<subseteq> set ms \<and> distinct (keys_of extract outs) \<and>
     (\<forall>(s, k) \<in> set (keys_of extract ms). payload k \<or> (s, k) \<in> set (keys_of extract outs)) \<and>
     (\<forall>s h. (s, KBlockMeta h) \<in> set (keys_of extract ms) \<longrightarrow> Pair s ` full s \<subseteq> set (keys_of extract outs)) \<and>
     filter (\<lambda>m. extract m = None) outs = filter (\<lambda>m. extract m = None) ms"

lemma deliver_exactly_once:
  assumes "well_fed extract full hash 0 (\<lambda>_. {}) evs"
    and "card (fst ` set (keys_of extract (map snd evs))) \<le> n"
  shows "exactly_once extract full (map snd evs) (deliver extract evs (DedupStream_new s (with_slot_retention n)))"
proof -
  let ?t = "DedupStream_new s (with_slot_retention n) :: ('b, 'a) DedupStream"
  let ?S = "fst ` set (keys_of extract (map snd evs))"
  have inv: "dedup_inv extract full hash (\<lambda>_. {}) {} ?S ?t" by (rule dedup_inv_new) (use assms(2) in simp_all)
  have empty: "ds_last_reconnect_count ?t = 0" "rb_flush_queue (ds_replay ?t) = []" "messages_of (ds_replay ?t) = {}"
    by (simp_all add: DedupStream_new_def ReplayBuffer_new_def messages_of_def)
  obtain R and t1 :: "('b, 'a) DedupStream" and cur' where R: "deliver extract evs ?t = R"
    "delivery extract {} (map snd evs) R" "dedup_inv extract full hash cur' (set (keys_of extract R)) ?S t1"
    using deliver_exact [OF inv _ order_refl] assms(1) empty by auto
  have "set R \<subseteq> set (map snd evs)" using deliver_received [of "extract" evs ?t] R(1) empty(3) by simp
  moreover have "Pair s ` full s \<subseteq> set (keys_of extract R)"
    if "(s, KBlockMeta h) \<in> set (keys_of extract (map snd evs))" for s h
  proof -
    have "(s, KBlockMeta h) \<in> set (keys_of extract R)"
      using R(2) that unfolding delivery_def by (fastforce simp: payload_def)
    then show ?thesis using meta_delivered_full [OF R(3)] by blast
  qed
  ultimately show ?thesis using R(1,2) unfolding delivery_def exactly_once_def by simp
qed

context queue_stream
begin

lemma stream_exactly_once:
  assumes "good s" "well_fed extract full hash 0 (\<lambda>_. {}) (queue s)"
    and "card (fst ` set (keys_of extract (map snd (queue s)))) \<le> n"
  shows "\<exists>outs t'. polls (Suc (length outs)) (poll_next extract poll_inner count_of)
      (DedupStream_new s (with_slot_retention n)) = Some (map (\<lambda>m. Ready (Some (Inr m))) outs @ [Ready None], t') \<and>
    final (ds_inner t') \<and> exactly_once extract full (map snd (queue s)) outs"
proof -
  let ?t = "DedupStream_new s (with_slot_retention n)"
  have inner: "ds_inner ?t = s" by (simp add: DedupStream_new_def)
  have "\<exists>t'. polls (Suc (length (deliver extract (queue s) ?t))) (poll_next extract poll_inner count_of) ?t =
      Some (map (\<lambda>m. Ready (Some (Inr m))) (deliver extract (queue s) ?t) @ [Ready None], t') \<and>
      final (ds_inner t')"
    using polls_deliver [of ?t "extract"] assms(1) unfolding inner by blast
  with deliver_exactly_once [OF assms(2,3), of s] show ?thesis by blast
qed

end

text \<open>A queue of messages with their counts is such a stream.\<close>

definition poll_feed :: "(u32 \<times> 'm) list \<times> u32 \<Rightarrow> ((unit + 'm) option poll \<times> (u32 \<times> 'm) list \<times> u32) option" where
  "poll_feed s =
     (case fst s of [] \<Rightarrow> Some (Ready None, s) | (c, m) # rest \<Rightarrow> Some (Ready (Some (Inr m)), (rest, c)))"

interpretation feed: queue_stream poll_feed snd fst "\<lambda>_. True" "\<lambda>s. fst s = []"
  by unfold_locales (auto simp: poll_feed_def split: list.splits)

section \<open>Concrete streams\<close>

text \<open>Messages that are their own keys.\<close>

type_synonym toy_msg = "(u64 \<times> DedupKey) option"

definition toy_feed :: "(u32 \<times> toy_msg) list" where
  "toy_feed =
     [(0, Some (10, KEntry 0)), (0, None), (1, Some (10, KEntry 0)), (1, Some (10, KEntry 1)),
      (1, Some (10, KBlockMeta ''h'')), (2, Some (10, KEntry 0)), (2, Some (10, KEntry 1)),
      (2, Some (10, KBlockMeta ''h''))]"

definition toy_full :: "u64 \<Rightarrow> DedupKey set" where
  "toy_full s = (if s = 10 then {KEntry 0, KEntry 1} else {})"

fun metas_only :: "u64 list \<Rightarrow> DedupState \<Rightarrow> DedupState" where
  "metas_only [] d = d"
| "metas_only (s # ss) d = metas_only ss (snd (observe d s (KBlockMeta ''h'')))"

lemma metas_only_leak:
  assumes "distinct ss" "set ss \<inter> dom (dd_sealed d) = {}" "dd_slot_order d = []" "dd_inflight d = Map.empty"
  shows "dom (dd_sealed (metas_only ss d)) = set ss \<union> dom (dd_sealed d) \<and> dd_slot_order (metas_only ss d) = []"
  using assms
proof (induction ss arbitrary: d)
  case (Cons s ss)
  let ?d = "d\<lparr>dd_inflight := Map.empty(s := None),
    dd_sealed := (dd_sealed d)(s \<mapsto> \<lparr>ss_blockhash = Some ''h'', ss_statuses = {}\<rparr>)\<rparr>"
  have "dd_sealed d s = None" using Cons.prems(2) by auto
  then have "snd (observe d s (KBlockMeta ''h'')) = ?d"
    using observe_block_meta_unsealed [of d s "''h''"] Cons.prems(3,4)
    by (simp add: observe_def entry_of_def SlotState_default_def)
  moreover have "dom (dd_sealed (metas_only ss ?d)) = set ss \<union> dom (dd_sealed ?d) \<and> dd_slot_order (metas_only ss ?d) = []"
    by (rule Cons.IH) (use Cons.prems in \<open>auto simp: disjoint_iff domIff split: if_splits\<close>)
  ultimately show ?case by simp
qed simp

section \<open>Properties\<close>

text \<open>C14. Exactly-once delivery across reconnects: when every connection that sends a slot's block meta has
  sent the slot's whole content before it, a slot has one block hash, no bank is created twice and the
  slots fit the retention window, polling the stream to its end terminates and yields received messages
  only, no key twice, every slot status and block meta received, for every slot whose block meta
  arrived all of its content, and every message without a key, in order.\<close>

theorem dedup_stream_exactly_once:
  assumes "well_fed extract full hash 0 (\<lambda>_. {}) evs"
    and "card (fst ` set (keys_of extract (map snd evs))) \<le> n"
  shows "\<exists>outs t'. polls (Suc (length outs)) (poll_next extract poll_feed snd)
      (DedupStream_new (evs, 0) (with_slot_retention n)) = Some (map (\<lambda>m. Ready (Some (Inr m))) outs @ [Ready None], t') \<and>
    exactly_once extract full (map snd evs) outs"
  using feed.stream_exactly_once [where s = "(evs, 0)", OF TrueI] assms unfolding fst_conv by blast

theorem dedup_stream_exactly_once_witness:
  "\<exists>outs t'. polls (Suc (length outs)) (poll_next id poll_feed snd) (DedupStream_new (toy_feed, 0) (with_slot_retention 250)) =
      Some (map (\<lambda>m. Ready (Some (Inr m))) outs @ [Ready None], t') \<and>
    distinct (keys_of id outs) \<and>
    set (keys_of id outs) = {(10, KEntry 0), (10, KEntry 1), (10, KBlockMeta ''h'')}"
proof -
  have fed: "well_fed id toy_full (\<lambda>_. ''h'') 0 (\<lambda>_. {}) toy_feed"
    by (simp add: toy_feed_def toy_full_def payload_def CREATED_BANK_STATUS_def Let_def)
  have keys: "keys_of id (map snd toy_feed) =
      [(10, KEntry 0), (10, KEntry 0), (10, KEntry 1), (10, KBlockMeta ''h''), (10, KEntry 0), (10, KEntry 1),
       (10, KBlockMeta ''h'')]"
    by (simp add: toy_feed_def map_filter_simps)
  have fits: "card (fst ` set (keys_of id (map snd toy_feed))) \<le> 250" unfolding keys by simp
  obtain outs t' where outs: "polls (Suc (length outs)) (poll_next id poll_feed snd)
      (DedupStream_new (toy_feed, 0) (with_slot_retention 250)) =
        Some (map (\<lambda>m. Ready (Some (Inr m))) outs @ [Ready None], t')"
    "exactly_once id toy_full (map snd toy_feed) outs"
    using dedup_stream_exactly_once [OF fed fits] by blast
  have sub: "set outs \<subseteq> set (map snd toy_feed)" and dist: "distinct (keys_of id outs)"
    and cover: "\<forall>(s, k) \<in> set (keys_of id (map snd toy_feed)). payload k \<or> (s, k) \<in> set (keys_of id outs)"
    and full: "\<forall>s h. (s, KBlockMeta h) \<in> set (keys_of id (map snd toy_feed)) \<longrightarrow>
      Pair s ` toy_full s \<subseteq> set (keys_of id outs)"
    using outs(2) unfolding exactly_once_def by blast+
  have "set (keys_of id outs) \<subseteq> set (keys_of id (map snd toy_feed))"
    using sub by (force simp: List.map_filter_def)
  moreover have "(10, KBlockMeta ''h'') \<in> set (keys_of id outs)"
    using cover unfolding keys by (simp add: payload_def)
  moreover have "Pair 10 ` toy_full 10 \<subseteq> set (keys_of id outs)"
    using full unfolding keys by simp
  ultimately have "set (keys_of id outs) = {(10, KEntry 0), (10, KEntry 1), (10, KBlockMeta ''h'')}"
    unfolding keys by (auto simp: toy_full_def)
  with outs(1) dist show ?thesis by (intro exI conjI)
qed

text \<open>The slots being received never exceed the retention window, whatever is observed and whenever
  the connection is re-established: every inflight slot is in the slot order, which holds no slot twice
  and at most as many as the window.\<close>

lemma dedup_inflight_bounded:
  assumes "dedup_reach n d"
  shows "card (dom (dd_inflight d)) \<le> n \<and> length (dd_slot_order d) \<le> n \<and> distinct (dd_slot_order d) \<and>
    dom (dd_inflight d) \<subseteq> set (dd_slot_order d)"
proof -
  have inv: "window_inv n d" "length (dd_slot_order d) \<le> n" using dedup_reach_window [OF assms] by auto
  then have "card (dom (dd_inflight d)) \<le> card (set (dd_slot_order d))"
    by (intro card_mono) (simp_all add: window_inv_def)
  with inv show ?thesis by (simp add: window_inv_def distinct_card)
qed

lemma dedup_inflight_bounded_witness:
  "card (dom (dd_inflight (snd (observe (with_slot_retention 3) 7 (KEntry 0))))) \<le> 3"
  using dedup_inflight_bounded [OF dedup_reach.seen [OF dedup_reach.start]] by blast

text \<open>The window does not bound the sealed slots: a subscription that delivers only block metas
  seals each slot without entering it into the slot order, so after any number of slots all of them are
  still held, whatever the retention.\<close>

lemma dedup_sealed_unbounded:
  assumes "k \<le> 2 ^ 64"
  shows "dedup_reach n (metas_only (map word_of_nat [0..<k]) (with_slot_retention n)) \<and>
    card (dom (dd_sealed (metas_only (map word_of_nat [0..<k]) (with_slot_retention n)))) = k"
proof -
  have reach: "dedup_reach n d \<Longrightarrow> dedup_reach n (metas_only ss d)" for ss d
    by (induction ss arbitrary: d) (simp_all add: dedup_reach.seen)
  have "unat (word_of_nat i :: u64) = i" if "i < k" for i
    using that assms by (simp add: unsigned_of_nat take_bit_nat_eq_self_iff)
  then have "inj_on (word_of_nat :: nat \<Rightarrow> u64) {0..<k}"
    by (intro inj_on_inverseI [where g = unat]) simp
  then have d: "distinct (map (word_of_nat :: nat \<Rightarrow> u64) [0..<k])" by (simp add: distinct_map)
  have "card (dom (dd_sealed (metas_only (map word_of_nat [0..<k]) (with_slot_retention n)))) = k"
    using metas_only_leak [OF d, of "with_slot_retention n"] distinct_card [OF d]
    by (simp add: with_slot_retention_def)
  with reach [OF dedup_reach.start] show ?thesis by blast
qed

lemma dedup_sealed_unbounded_witness:
  "dedup_reach 3 (metas_only (map word_of_nat [0..<1000]) (with_slot_retention 3)) \<and>
   card (dom (dd_sealed (metas_only (map word_of_nat [0..<1000]) (with_slot_retention 3)))) = 1000"
  by (rule dedup_sealed_unbounded) simp

end
