(* ===== verification/Reconnect_Claims.thy ===== *)
theory Reconnect_Claims
  imports Client_Reconnect Dedup_Claims
begin

text \<open>
  What reconnection promises: retries stop within their budget, the loop's assertion holds in every
  reachable state, and over a network that replays whole slots the user of the deduplicating,
  reconnecting stream sees every key once, with each reconnect asking for the right slot.
\<close>

section \<open>Retries\<close>

text \<open>An operation and a sleep that record the results and the intervals.\<close>

type_synonym ('w, 'e, 't) trace = "'w \<times> ('e ErrorCategory + 't) list \<times> nat list"

definition traced_op ::
  "('w \<Rightarrow> ('e ErrorCategory + 't) \<times> 'w) \<Rightarrow> ('w, 'e, 't) trace \<Rightarrow> ('e ErrorCategory + 't) \<times> ('w, 'e, 't) trace" where
  "traced_op f s = (case s of (w, rs, ds) \<Rightarrow> (case f w of (r, w1) \<Rightarrow> (r, (w1, rs @ [r], ds))))"

definition traced_sleep :: "(nat \<Rightarrow> 'w \<Rightarrow> 'w) \<Rightarrow> nat \<Rightarrow> ('w, 'e, 't) trace \<Rightarrow> ('w, 'e, 't) trace" where
  "traced_sleep sl d s = (case s of (w, rs, ds) \<Rightarrow> (sl d w, rs, ds @ [d]))"

text \<open>The results and intervals of a run that starts with interval \<open>d\<close> and \<open>n\<close> retries left.\<close>

definition retry_run ::
  "(nat \<Rightarrow> nat) \<Rightarrow> nat \<Rightarrow> nat \<Rightarrow> 'e + 't \<Rightarrow> ('e ErrorCategory + 't) list \<Rightarrow> nat list \<Rightarrow> bool" where
  "retry_run scale d n r rs ds \<longleftrightarrow>
     rs \<noteq> [] \<and> length rs \<le> Suc n \<and> ds = map (\<lambda>i. (scale ^^ i) d) [0..<length rs - 1] \<and>
     list_all (\<lambda>x. \<exists>e. x = Inl (Retryable e)) (butlast rs) \<and>
     (case last rs of
        Inr v \<Rightarrow> r = Inr v
      | Inl (Unrecoverable e) \<Rightarrow> r = Inl e
      | Inl (Retryable e) \<Rightarrow> r = Inl e \<and> length rs = Suc n)"

lemma retry_run_stop:
  "x = Inr v \<and> r = Inr v \<or> x = Inl (Unrecoverable e) \<and> r = Inl e \<or> x = Inl (Retryable e) \<and> r = Inl e \<and> n = 0 \<Longrightarrow>
     retry_run scale d n r [x] []"
  by (auto simp: retry_run_def)

lemma retry_run_step:
  assumes "retry_run scale (scale d) n r rs ds"
  shows "retry_run scale d (Suc n) r (Inl (Retryable e) # rs) (d # ds)"
proof -
  obtain k where k: "length rs = Suc k" using assms by (cases rs) (auto simp: retry_run_def)
  have "map (\<lambda>i. (scale ^^ i) d) [0..<Suc k] = d # map (\<lambda>i. (scale ^^ i) (scale d)) [0..<k]"
    by (simp add: upt_conv_Cons map_Suc_upt [symmetric] funpow_swap1 del: upt_Suc)
  with assms k show ?thesis by (auto simp: retry_run_def split: sum.splits ErrorCategory.splits)
qed

lemma retry_loop_run:
  assumes "\<And>d. mul_f64 d (bi_multiplier b) = Some (scale d)"
  shows "\<exists>r w' rs ds. retry_loop mul_f64 (traced_sleep sl) (traced_op f) b (w, rs0, ds0) =
      Some (r, (w', rs0 @ rs, ds0 @ ds)) \<and>
    retry_run scale (bi_current_interval b) (unat (bi_max_retries b) - unat (bi_attempts b)) r rs ds"
  using assms
proof (induction "unat (bi_max_retries b) - unat (bi_attempts b)" arbitrary: b w rs0 ds0 rule: less_induct)
  case less
  obtain x w1 where op: "f w = (x, w1)" by fastforce
  have traced: "traced_op f (w, rs0, ds0) = (x, (w1, rs0 @ [x], ds0))" by (simp add: traced_op_def op)
  consider v where "x = Inr v" | e where "x = Inl (Unrecoverable e)" | e where "x = Inl (Retryable e)"
    by (metis ErrorCategory.exhaust obj_sumE)
  then show ?case
  proof cases
    case 1
    then show ?thesis
      by (subst retry_loop.simps) (auto simp: traced intro!: retry_run_stop exI [of _ "[x]"] exI [of _ "[]"])
  next
    case 2
    then show ?thesis
      by (subst retry_loop.simps)
        (auto simp: traced is_retryable_def into_inner_def intro!: retry_run_stop exI [of _ "[x]"] exI [of _ "[]"])
  next
    case 3
    show ?thesis
    proof (cases "exhausted b")
      case True
      then have "unat (bi_max_retries b) - unat (bi_attempts b) = 0"
        by (simp add: exhausted_def word_le_nat_alt)
      with 3 True show ?thesis
        by (subst retry_loop.simps)
          (auto simp: traced is_retryable_def into_inner_def backoff_next_def
            intro!: retry_run_stop exI [of _ "[x]"] exI [of _ "[]"])
    next
      case False
      obtain b1 where b1: "backoff_next mul_f64 b = Some (Some (bi_current_interval b), b1)"
        using False less.prems by (simp add: backoff_next_def advance_def)
      note at1 = backoff_next_attempts [OF b1]
      let ?d = "bi_current_interval b"
      have scale: "bi_current_interval b1 = scale ?d" using at1(6) less.prems by simp
      obtain r w' rs ds where IH: "retry_loop mul_f64 (traced_sleep sl) (traced_op f) b1 (sl ?d w1, rs0 @ [x], ds0 @ [?d]) =
          Some (r, (w', (rs0 @ [x]) @ rs, (ds0 @ [?d]) @ ds))"
        "retry_run scale (bi_current_interval b1) (unat (bi_max_retries b1) - unat (bi_attempts b1)) r rs ds"
        using less.hyps [OF backoff_next_decreases [OF b1]] less.prems at1(4) by metis
      have "retry_run scale ?d (unat (bi_max_retries b) - unat (bi_attempts b)) r (x # rs) (?d # ds)"
        using retry_run_step [OF IH(2) [unfolded scale]] at1(1-3) 3 by (simp add: Suc_diff_Suc)
      moreover have "retry_loop mul_f64 (traced_sleep sl) (traced_op f) b (w, rs0, ds0) =
          Some (r, (w', rs0 @ x # rs, ds0 @ ?d # ds))"
        using 3 b1 IH(1) by (subst retry_loop.simps) (simp add: traced is_retryable_def traced_sleep_def)
      ultimately show ?thesis by (intro exI conjI)
    qed
  qed
qed

section \<open>The loop's assertion\<close>

definition ar_inv :: "('s, 'fut, 'f) AutoReconnect \<Rightarrow> bool" where
  "ar_inv me \<longleftrightarrow> ar_stop me \<or> (ar_inner_stream me = None) \<noteq> (ar_pending_connecting_task me = None)"

lemma poll_connect_part_inv:
  assumes "\<not> ar_stop me" "ar_inner_stream me = None" "ar_pending_connecting_task me \<noteq> None"
  shows "\<exists>r me1 w1. poll_connect_part E me w = Some (r, me1, w1) \<and> ar_inv me1"
  using assms
  by (auto simp: poll_connect_part_def Let_def ar_inv_def split: option.split prod.split poll.split sum.split)

lemma ar_iteration_inv:
  assumes "ar_inv me" "\<not> ar_stop me"
  shows "\<exists>r me1 w1. ar_iteration E me w = Some (r, me1, w1) \<and> ar_inv me1"
proof (cases "ar_inner_stream me")
  case None
  with assms poll_connect_part_inv [of me E w] show ?thesis by (simp add: ar_inv_def ar_iteration_def)
next
  case (Some stream)
  with assms have pend: "ar_pending_connecting_task me = None" by (simp add: ar_inv_def)
  obtain flow me1 w1 where part: "poll_stream_part E me stream w = (flow, me1, w1)" by (metis prod_cases3)
  have "flow = Fall \<Longrightarrow> \<not> ar_stop me1 \<and> ar_inner_stream me1 = None \<and> ar_pending_connecting_task me1 \<noteq> None"
    and "flow \<noteq> Fall \<Longrightarrow> ar_inv me1"
    using part assms(2) pend
    by (auto simp: poll_stream_part_def Let_def ar_inv_def split: prod.splits poll.splits option.splits sum.splits if_splits)
  with Some part poll_connect_part_inv [of me1 E w1] show ?thesis
    by (cases flow) (auto simp: ar_iteration_def)
qed

text \<open>The states the stream can be in, between iterations of its loop and between polls; a poll of a
  stopped stream changes nothing.\<close>

inductive ar_reach :: "('s, 'fut, 'w) connection_env \<Rightarrow> ('s, 'fut, 'f) AutoReconnect \<Rightarrow> bool" for E where
  ar_start: "ar_reach E (AutoReconnect_new stream backoff)"
| ar_start_live: "ar_reach E (without_checkpoint (AutoReconnect_new stream backoff))"
| ar_step: "ar_reach E me \<Longrightarrow> \<not> ar_stop me \<Longrightarrow> ar_iteration E me w = Some (r, me1, w1) \<Longrightarrow> ar_reach E me1"

lemma ar_reach_inv: "ar_reach E me \<Longrightarrow> ar_inv me"
proof (induction rule: ar_reach.induct)
  case (ar_step me w r me1 w1)
  with ar_iteration_inv [of me E w] show ?case by auto
qed (simp_all add: ar_inv_def AutoReconnect_new_def without_checkpoint_def)


section \<open>A network that drops connections\<close>

text \<open>
  A connection is the updates it delivers and how it ends, by itself or with a status. The world holds
  the connections the server will accept, in order, and the slots asked for so far.
\<close>

type_synonym conn = "SubscribeUpdate list \<times> Status option"

record net =
  net_script :: "conn list"
  net_asked :: "u64 option list"

definition poll_conn :: "conn \<Rightarrow> net \<Rightarrow> (Status + SubscribeUpdate) option poll \<times> conn \<times> net" where
  "poll_conn c w =
     (case c of
        (m # ms, e) \<Rightarrow> (Ready (Some (Inr m)), (ms, e), w)
      | ([], None) \<Rightarrow> (Ready None, c, w)
      | ([], Some st) \<Rightarrow> (Ready (Some (Inl st)), c, w))"

definition poll_accept :: "u64 option \<Rightarrow> net \<Rightarrow> (GeyserGrpcClientError + conn) poll \<times> u64 option \<times> net" where
  "poll_accept from w =
     (case net_script w of
        [] \<Rightarrow> (Ready (Inl (TransportError ''down'')), from, w)
      | c # cs \<Rightarrow> (Ready (Inr c), from, \<lparr>net_script = cs, net_asked = net_asked w @ [from]\<rparr>))"

definition scripted :: "SubscribeRequest \<Rightarrow> (conn, u64 option, net) connection_env" where
  "scripted req =
     \<lparr>ce_poll_stream = poll_conn, ce_request = (\<lambda>_. req), ce_connect = (\<lambda>_ from. from),
      ce_poll_connect = poll_accept, ce_show = (\<lambda>_. [])\<rparr>"

text \<open>Every connection but the last ends with a recoverable status; the last ends by itself.\<close>

fun script_ok :: "Status option \<Rightarrow> conn list \<Rightarrow> bool" where
  "script_ok None cs \<longleftrightarrow> cs = []"
| "script_ok (Some st) [] \<longleftrightarrow> False"
| "script_ok (Some st) (c # cs) \<longleftrightarrow> is_recoverable_status_code (stat_code st) \<and> script_ok (snd c) cs"

text \<open>What the user asked for: an update that names a filter of the user, or none at all, without the
  internal filter.\<close>

definition user_filters :: "SubscribeUpdate \<Rightarrow> string list" where
  "user_filters m = filter (\<lambda>f. f \<noteq> ''__autoreconnect'') (su_filters m)"

definition for_user :: "SubscribeUpdate \<Rightarrow> bool" where
  "for_user m \<longleftrightarrow> su_filters m = [] \<or> user_filters m \<noteq> []"

definition user_view :: "SubscribeUpdate list \<Rightarrow> SubscribeUpdate list" where
  "user_view ms = map (\<lambda>m. m\<lparr>su_filters := user_filters m\<rparr>) (filter for_user ms)"

text \<open>The messages the reconnecting stream hands out, with their reconnect counts.\<close>

fun feed_of :: "u32 \<Rightarrow> SubscribeUpdate list \<Rightarrow> conn list \<Rightarrow> (u32 \<times> SubscribeUpdate) list" where
  "feed_of n ms [] = map (Pair n) (user_view ms)"
| "feed_of n ms (c # cs) = map (Pair n) (user_view ms) @ feed_of (n + 1) (fst c) cs"

text \<open>The slot to resume from: two behind the last block meta of the connection, or the previous one.\<close>

definition meta_slots :: "SubscribeUpdate list \<Rightarrow> u64 list" where
  "meta_slots ms = List.map_filter (\<lambda>m. case su_update_oneof m of Some (UBlockMeta b) \<Rightarrow> Some (um_slot b) | _ \<Rightarrow> None) ms"

definition behind_last_meta :: "u64 option \<Rightarrow> SubscribeUpdate list \<Rightarrow> u64 option" where
  "behind_last_meta ck ms = (if meta_slots ms = [] then ck else let s = last (meta_slots ms) in Some (if s < 2 then 0 else s - 2))"

text \<open>The slots it asks for: behind the last block meta, or none after an out-of-range status.\<close>

fun asked_of :: "u64 option \<Rightarrow> SubscribeUpdate list \<Rightarrow> Status option \<Rightarrow> conn list \<Rightarrow> u64 option list" where
  "asked_of ck ms e [] = []"
| "asked_of ck ms e (c # cs) =
     (let ck1 = behind_last_meta ck ms;
          ck2 = (case e of Some st \<Rightarrow> if stat_code st = OutOfRange then None else ck1 | None \<Rightarrow> ck1)
      in ck2 # asked_of ck2 (fst c) (snd c) cs)"

type_synonym 'f client = "(conn, u64 option, 'f) AutoReconnect \<times> net"

definition running :: "'f client \<Rightarrow> SubscribeUpdate list \<Rightarrow> Status option \<Rightarrow> bool" where
  "running s ms e \<longleftrightarrow>
     \<not> ar_stop (fst s) \<and> ar_inner_stream (fst s) = Some (ms, e) \<and> ar_pending_connecting_task (fst s) = None \<and>
     ar_resume_from_checkpoint (fst s) \<and> bo_max_retries (ar_backoff (fst s)) \<noteq> 0 \<and>
     script_ok e (net_script (snd s))"

definition client_poll ::
  "SubscribeRequest \<Rightarrow> 'f client \<Rightarrow> ((Status + SubscribeUpdate) option poll \<times> 'f client) option" where
  "client_poll req s = ar_poll_next (scripted req) (fst s) (snd s)"

definition client_count :: "'f client \<Rightarrow> u32" where "client_count s = ar_reconnect_count (fst s)"

definition client_queue :: "'f client \<Rightarrow> (u32 \<times> SubscribeUpdate) list" where
  "client_queue s =
     (case ar_inner_stream (fst s) of
        Some (ms, e) \<Rightarrow> feed_of (ar_reconnect_count (fst s)) ms (net_script (snd s))
      | None \<Rightarrow> [])"

definition client_good :: "u64 option list \<Rightarrow> 'f client \<Rightarrow> bool" where
  "client_good L s \<longleftrightarrow>
     (\<exists>ms e. running s ms e \<and>
        net_asked (snd s) @ asked_of (ar_last_checkpoint (fst s)) ms e (net_script (snd s)) = L)"

definition client_final :: "u64 option list \<Rightarrow> 'f client \<Rightarrow> bool" where
  "client_final L s \<longleftrightarrow> ar_stop (fst s) \<and> net_asked (snd s) = L"

text \<open>One iteration on each kind of state.\<close>

definition after_message ::
  "SubscribeUpdate \<Rightarrow> conn \<Rightarrow> (conn, u64 option, 'f) AutoReconnect \<Rightarrow> (conn, u64 option, 'f) AutoReconnect" where
  "after_message m c me =
     me\<lparr>ar_last_checkpoint := checkpoint_after m (ar_last_checkpoint me), ar_inner_stream := Some c\<rparr>"

definition resume_slot :: "Status \<Rightarrow> (conn, u64 option, 'f) AutoReconnect \<Rightarrow> u64 option" where
  "resume_slot st me = (if stat_code st = OutOfRange then None else ar_last_checkpoint me)"

definition after_reconnect ::
  "Status \<Rightarrow> conn \<Rightarrow> (conn, u64 option, 'f) AutoReconnect \<Rightarrow> (conn, u64 option, 'f) AutoReconnect" where
  "after_reconnect st c me =
     me\<lparr>ar_last_checkpoint := resume_slot st me, ar_pending_connecting_task := None,
        ar_reconnect_count := ar_reconnect_count me + 1, ar_inner_stream := Some c\<rparr>"

lemma iteration_message:
  assumes "running (me, w) (m # ms) e"
  shows "ar_iteration (scripted req) me w =
      Some (map_option (\<lambda>x. Ready (Some (Inr x))) (forward m), after_message m (ms, e) me, w)"
    "running (after_message m (ms, e) me, w) ms e"
  using assms
  by (auto simp: after_message_def running_def ar_iteration_def poll_stream_part_def scripted_def poll_conn_def Let_def
      split: option.split)

lemma iteration_end:
  assumes "running (me, w) [] None"
  shows "ar_iteration (scripted req) me w = Some (Some (Ready None), me\<lparr>ar_inner_stream := None, ar_stop := True\<rparr>, w)"
  using assms by (simp add: running_def ar_iteration_def poll_stream_part_def scripted_def poll_conn_def Let_def)

lemma iteration_reconnect:
  assumes "running (me, w) [] (Some st)" "net_script w = c # cs"
  shows "ar_iteration (scripted req) me w =
      Some (None, after_reconnect st c me, \<lparr>net_script = cs, net_asked = net_asked w @ [resume_slot st me]\<rparr>)"
    "running (after_reconnect st c me, \<lparr>net_script = cs, net_asked = net_asked w @ [resume_slot st me]\<rparr>) (fst c) (snd c)"
  using assms
  by (auto simp: after_reconnect_def resume_slot_def running_def ar_iteration_def poll_stream_part_def
      poll_connect_part_def scripted_def poll_conn_def poll_accept_def make_connection_future_def Let_def)

lemma client_poll_step:
  assumes "running (me, w) ms e" "ar_iteration (scripted req) me w = Some (r, me1, w1)"
  shows "client_poll req (me, w) = (case r of Some x \<Rightarrow> Some (x, me1, w1) | None \<Rightarrow> client_poll req (me1, w1))"
  using assms unfolding client_poll_def by (subst ar_poll_next.simps) (simp add: running_def split: option.split)

text \<open>What polling the stream in a given state gives.\<close>

definition poll_result :: "u64 option list \<Rightarrow> (u32 \<times> SubscribeUpdate) list
    \<Rightarrow> ((Status + SubscribeUpdate) option poll \<times> 'f client) option \<Rightarrow> bool" where
  "poll_result L q res =
     (case q of
        [] \<Rightarrow> (\<exists>s'. res = Some (Ready None, s') \<and> client_final L s')
      | (c, m) # rest \<Rightarrow> (\<exists>s'. res = Some (Ready (Some (Inr m)), s') \<and> client_good L s' \<and>
                             client_queue s' = rest \<and> client_count s' = c))"

lemma feed_of_Cons:
  "feed_of n (m # ms) cs = (case forward m of None \<Rightarrow> feed_of n ms cs | Some x \<Rightarrow> (n, x) # feed_of n ms cs)"
proof -
  have "forward m = (if for_user m then Some (m\<lparr>su_filters := user_filters m\<rparr>) else None)"
    by (auto simp: forward_def for_user_def user_filters_def AUTORECONNECT_FILTER_KEY_def list_all_iff filter_empty_conv)
  then show ?thesis by (cases cs) (simp_all add: user_view_def)
qed

lemma checkpoint_meta:
  "checkpoint_after m ck =
     (case su_update_oneof m of
        Some (UBlockMeta b) \<Rightarrow> Some (if um_slot b < 2 then 0 else um_slot b - 2)
      | _ \<Rightarrow> ck)"
  by (cases "su_update_oneof m")
    (auto simp: checkpoint_after_def extract_slot_def saturating_sub_def CHECKPOINT_SLOT_BUFFER_def
      split: UpdateOneof.splits)

lemma behind_last_meta_simps [simp]:
  "user_view [] = []" "behind_last_meta ck [] = ck"
  "behind_last_meta ck (m # ms) = behind_last_meta (checkpoint_after m ck) ms"
  by (auto simp: user_view_def behind_last_meta_def meta_slots_def map_filter_simps checkpoint_meta Let_def
      split: option.splits UpdateOneof.splits)

lemma asked_of_Cons: "asked_of ck (m # ms) e cs = asked_of (checkpoint_after m ck) ms e cs"
  by (cases cs) simp_all

definition work :: "net \<Rightarrow> SubscribeUpdate list \<Rightarrow> nat" where
  "work w ms = length ms + sum_list (map (\<lambda>c. Suc (length (fst c))) (net_script w))"

lemma client_poll_spec:
  assumes "running (me, w) ms e" "net_asked w @ asked_of (ar_last_checkpoint me) ms e (net_script w) = L"
  shows "poll_result L (feed_of (ar_reconnect_count me) ms (net_script w)) (client_poll req (me, w))"
  using assms
proof (induction "work w ms" arbitrary: me w ms e rule: less_induct)
  case less
  show ?case
  proof (cases ms)
    case (Cons m ms')
    let ?me = "after_message m (ms', e) me"
    note it = iteration_message [OF less.prems(1) [unfolded Cons]]
    have asked: "net_asked w @ asked_of (ar_last_checkpoint ?me) ms' e (net_script w) = L"
      using less.prems(2) Cons by (simp add: asked_of_Cons after_message_def)
    have cnt: "ar_reconnect_count ?me = ar_reconnect_count me" by (simp add: after_message_def)
    show ?thesis
    proof (cases "forward m")
      case None
      have "poll_result L (feed_of (ar_reconnect_count ?me) ms' (net_script w)) (client_poll req (?me, w))"
        by (rule less.hyps [OF _ it(2) asked]) (simp add: work_def Cons)
      with client_poll_step [OF less.prems(1) it(1)] None Cons cnt show ?thesis by (simp add: feed_of_Cons)
    next
      case (Some x)
      have "client_good L (?me, w)" using it(2) asked by (auto simp: client_good_def)
      with client_poll_step [OF less.prems(1) it(1)] Some Cons show ?thesis
        by (simp add: feed_of_Cons poll_result_def client_queue_def client_count_def after_message_def)
    qed
  next
    case Nil
    show ?thesis
    proof (cases e)
      case None
      with less.prems(1) have "net_script w = []" by (simp add: running_def)
      with client_poll_step [OF less.prems(1) iteration_end [OF less.prems(1) [unfolded Nil None]]] less.prems Nil None
      show ?thesis by (simp add: poll_result_def client_final_def map_filter_simps)
    next
      case (Some st)
      with less.prems(1) obtain c cs where c: "net_script w = c # cs"
        by (cases "net_script w") (auto simp: running_def)
      let ?me = "after_reconnect st c me" and ?w = "\<lparr>net_script = cs, net_asked = net_asked w @ [resume_slot st me]\<rparr>"
      note it = iteration_reconnect [OF less.prems(1) [unfolded Nil Some] c]
      have asked: "net_asked ?w @ asked_of (ar_last_checkpoint ?me) (fst c) (snd c) (net_script ?w) = L"
        using less.prems(2) c Nil Some by (simp add: after_reconnect_def resume_slot_def Let_def)
      have "poll_result L (feed_of (ar_reconnect_count ?me) (fst c) (net_script ?w)) (client_poll req (?me, ?w))"
        by (rule less.hyps [OF _ it(2) asked]) (simp add: work_def c Nil)
      with client_poll_step [OF less.prems(1) it(1)] c Nil show ?thesis
        by (simp add: map_filter_simps after_reconnect_def)
    qed
  qed
qed

lemma client_good_poll:
  assumes "client_good L s"
  shows "poll_result L (client_queue s) (client_poll req s)"
proof -
  obtain ms e where r: "running s ms e"
    "net_asked (snd s) @ asked_of (ar_last_checkpoint (fst s)) ms e (net_script (snd s)) = L"
    using assms by (auto simp: client_good_def)
  then have "client_queue s = feed_of (ar_reconnect_count (fst s)) ms (net_script (snd s))"
    by (simp add: client_queue_def running_def)
  with client_poll_spec [of "fst s" "snd s" ms e L req] r show ?thesis by simp
qed

text \<open>The reconnecting stream over the scripted network is a queue of messages for deduplication.\<close>

interpretation client: queue_stream "client_poll req" client_count client_queue "client_good L" "client_final L"
  for req L
proof unfold_locales
  fix s :: "'f client"
  assume "client_good L s" "client_queue s = []"
  with client_good_poll [of L s req] show "\<exists>s'. client_poll req s = Some (Ready None, s') \<and> client_final L s'"
    by (simp add: poll_result_def)
next
  fix s :: "'f client" and c m rest
  assume "client_good L s" "client_queue s = (c, m) # rest"
  with client_good_poll [of L s req]
  show "\<exists>s'. client_poll req s = Some (Ready (Some (Inr m)), s') \<and> client_good L s' \<and> client_queue s' = rest \<and>
      client_count s' = c"
    by (simp add: poll_result_def)
qed

section \<open>Concrete clients\<close>

definition toy_backoff :: "unit Backoff" where
  "toy_backoff = \<lparr>bo_initial_interval = 10, bo_multiplier = (), bo_max_retries = 2\<rparr>"

definition toy_update :: "string list \<Rightarrow> UpdateOneof \<Rightarrow> SubscribeUpdate" where
  "toy_update fs u = \<lparr>su_filters = fs, su_update_oneof = Some u, su_created_at = None\<rparr>"

definition toy_entry :: "u64 \<Rightarrow> SubscribeUpdate" where
  "toy_entry i = toy_update [''u''] (UEntry \<lparr>ue_slot = 10, ue_index = i, ue_num_hashes = 0, ue_hash = [],
     ue_executed_transaction_count = 0, ue_starting_transaction_index = 0\<rparr>)"

definition toy_block_meta :: "string list \<Rightarrow> SubscribeUpdate" where
  "toy_block_meta fs = toy_update fs (UBlockMeta \<lparr>um_slot = 10, um_blockhash = ''h'', um_rewards = None,
     um_block_time = None, um_block_height = None, um_parent_slot = 9, um_parent_blockhash = '''',
     um_executed_transaction_count = 0, um_entries_count = 2\<rparr>)"

definition toy_lost :: Status where
  "toy_lost = \<lparr>stat_code = Unavailable, stat_message = '''', stat_transport = True\<rparr>"

text \<open>The first connection drops after one entry, the second delivers the slot and drops, the third
  replays it.\<close>

definition toy_replay :: "SubscribeUpdate list" where
  "toy_replay = [toy_entry 0, toy_entry 1, toy_block_meta [''u'']]"

definition toy_net :: net where
  "toy_net = \<lparr>net_script = [(toy_replay, Some toy_lost), (toy_replay, None)], net_asked = []\<rparr>"

definition toy_slot :: "u64 \<Rightarrow> DedupKey set" where
  "toy_slot s = (if s = 10 then {KEntry 0, KEntry 1} else {})"

lemmas toy_client_simps =
  toy_net_def toy_replay_def toy_entry_def toy_block_meta_def toy_update_def toy_lost_def

section \<open>Properties\<close>

text \<open>Retrying ends within its budget: when the interval can be scaled, \<open>retry\<close> returns after at
  most \<open>max_retries + 1\<close> calls of the operation; every call but the last failed with a retryable
  error; between calls it sleeps the initial interval scaled once more each time; the result is that of
  the last call, which succeeded, failed for good, or was the last the budget allows.\<close>

lemma retry_ends_within_budget:
  assumes "\<And>d. mul_f64 d (bo_multiplier config) = Some (scale d)"
  shows "\<exists>r w' rs ds. retry mul_f64 (traced_sleep sl) (traced_op f) config (w, [], []) = Some (r, (w', rs, ds)) \<and>
    retry_run scale (bo_initial_interval config) (unat (bo_max_retries config)) r rs ds"
  using retry_loop_run [of mul_f64 "BackoffInstance_new config" scale sl f w "[]" "[]"] assms
  by (simp add: retry_def BackoffInstance_new_def)

lemma retry_ends_within_budget_witness:
  "\<exists>r w' rs ds. retry (\<lambda>d _. Some (2 * d)) (traced_sleep (\<lambda>_ w. w))
       (traced_op (\<lambda>w. (Inl (Retryable w) :: nat ErrorCategory + unit, Suc w))) toy_backoff (0, [], []) =
      Some (r, (w', rs, ds)) \<and>
    retry_run (\<lambda>d. 2 * d) 10 2 r rs ds"
  using retry_ends_within_budget [of "\<lambda>d _. Some (2 * d)" toy_backoff "\<lambda>d. 2 * d" "\<lambda>_ w. w"
      "\<lambda>w. (Inl (Retryable w) :: nat ErrorCategory + unit, Suc w)" 0]
  by (simp add: toy_backoff_def)

text \<open>C29. The assertion of the reconnecting stream never fails: in every reachable state, for any
  behaviour of the connections and the connector, the stream is stopped or holds exactly one of a live
  connection and a pending one, and the next iteration of its loop does not panic.\<close>

theorem autoreconnect_assertion_holds:
  assumes "ar_reach E me"
  shows "ar_inv me \<and> (\<not> ar_stop me \<longrightarrow> (\<forall>w. ar_iteration E me w \<noteq> None))"
  using ar_reach_inv [OF assms] ar_iteration_inv [of me E] by fastforce

theorem autoreconnect_assertion_holds_witness:
  "ar_inv (AutoReconnect_new ([], None) toy_backoff :: (conn, u64 option, unit) AutoReconnect) \<and>
   ar_iteration (scripted SubscribeRequest_default)
     (AutoReconnect_new ([], None) toy_backoff :: (conn, u64 option, unit) AutoReconnect) toy_net \<noteq> None"
  using autoreconnect_assertion_holds [OF ar_start [of "scripted SubscribeRequest_default" "([], None)" toy_backoff]]
  by (simp add: AutoReconnect_new_def)

text \<open>C2. The client end to end: over a network that drops connections with recoverable statuses, replays
  whole slots and finally ends, polling the deduplicating, reconnecting stream terminates without error
  and delivers, of the updates that match a filter of the user, every key exactly once; and each
  reconnect asked for the slot two behind the last block meta seen, or for the live head when none was
  seen or the server reported the slot out of range.\<close>

theorem client_exactly_once:
  fixes backoff :: "'f Backoff"
  assumes "bo_max_retries backoff \<noteq> 0" "script_ok e cs"
    and "well_fed extract_key full hash 0 (\<lambda>_. {}) (feed_of 0 ms cs)"
    and "card (fst ` set (keys_of extract_key (map snd (feed_of 0 ms cs)))) \<le> n"
  shows "\<exists>outs t'. polls (Suc (length outs)) (poll_next extract_key (client_poll req) client_count)
      (DedupStream_new (AutoReconnect_new (ms, e) backoff, \<lparr>net_script = cs, net_asked = []\<rparr>) (with_slot_retention n)) =
        Some (map (\<lambda>m. Ready (Some (Inr m))) outs @ [Ready None], t') \<and>
    net_asked (snd (ds_inner t')) = asked_of None ms e cs \<and>
    exactly_once extract_key full (map snd (feed_of 0 ms cs)) outs"
proof -
  let ?s = "(AutoReconnect_new (ms, e) backoff, \<lparr>net_script = cs, net_asked = []\<rparr>) :: 'f client"
  have good: "client_good (asked_of None ms e cs) ?s"
    using assms(1,2) by (simp add: client_good_def running_def AutoReconnect_new_def)
  have queue: "client_queue ?s = feed_of 0 ms cs" by (simp add: client_queue_def AutoReconnect_new_def)
  show ?thesis
    using client.stream_exactly_once [OF good, unfolded queue, OF assms(3,4), of req]
    unfolding client_final_def by blast
qed

theorem client_exactly_once_witness:
  "\<exists>outs t'. polls (Suc (length outs)) (poll_next extract_key (client_poll SubscribeRequest_default) client_count)
      (DedupStream_new (AutoReconnect_new ([toy_entry 0], Some toy_lost) toy_backoff, toy_net) (with_slot_retention 250)) =
        Some (map (\<lambda>m. Ready (Some (Inr m))) outs @ [Ready None], t') \<and>
    net_asked (snd (ds_inner t')) = [None, Some 8] \<and>
    exactly_once extract_key toy_slot (toy_entry 0 # toy_replay @ toy_replay) outs"
proof -
  let ?cs = "[(toy_replay, Some toy_lost), (toy_replay, None)]"
  have feed: "feed_of 0 [toy_entry 0] ?cs = (0, toy_entry 0) # map (Pair 1) toy_replay @ map (Pair 2) toy_replay"
    by (simp add: toy_client_simps user_view_def for_user_def user_filters_def)
  have msgs: "map snd (feed_of 0 [toy_entry 0] ?cs) = toy_entry 0 # toy_replay @ toy_replay"
    unfolding feed by (simp add: comp_def)
  have asked: "asked_of None [toy_entry 0] (Some toy_lost) ?cs = [None, Some 8]"
    by (simp add: toy_client_simps checkpoint_meta)
  have fed: "well_fed extract_key toy_slot (\<lambda>_. ''h'') 0 (\<lambda>_. {}) (feed_of 0 [toy_entry 0] ?cs)"
    unfolding feed
    by (simp add: toy_client_simps extract_key_def toy_slot_def payload_def CREATED_BANK_STATUS_def Let_def)
  have fits: "card (fst ` set (keys_of extract_key (map snd (feed_of 0 [toy_entry 0] ?cs)))) \<le> 250"
    unfolding msgs by (simp add: toy_client_simps extract_key_def map_filter_simps)
  have ok: "bo_max_retries toy_backoff \<noteq> 0" "script_ok (Some toy_lost) ?cs"
    by (simp_all add: toy_backoff_def toy_lost_def is_recoverable_status_code_def)
  show ?thesis
    using client_exactly_once [OF ok fed fits, of SubscribeRequest_default]
    unfolding asked msgs toy_net_def .
qed

text \<open>The internal subscription is lost by an update that names its own block metas: after such an
  update the sink no longer adds the internal filters to a later update without block metas, and that
  update is what reconnects use, so the stream gets no block meta to checkpoint on.\<close>

lemma sink_drops_internal_filters:
  assumes "sr_blocks_meta first \<noteq> []" "AUTORECONNECT_FILTER_KEY \<notin> fst ` set (sr_blocks_meta first)"
    and "sr_blocks_meta second = []"
    and "AUTORECONNECT_FILTER_KEY \<in> fst ` set (sr_blocks_meta (rs_shared sink))"
  shows "let send = (\<lambda>r ch. Inr (ch @ [r]) :: unit + SubscribeRequest list);
             sink1 = snd (start_send send first sink); sink2 = snd (start_send send second sink1)
         in rs_shared sink2 = second \<and> rs_inner sink2 = rs_inner sink @ [first, second] \<and>
            sr_blocks_meta (rs_shared sink2) = []"
  using assms by (simp add: start_send_def inject_autoreconnect_filter_def Let_def)

lemma sink_drops_internal_filters_witness:
  "let send = (\<lambda>r ch. Inr (ch @ [r]) :: unit + SubscribeRequest list);
       first = SubscribeRequest_default\<lparr>sr_blocks_meta := [(''mine'', ())]\<rparr>;
       sink = \<lparr>rs_inner = [], rs_shared = first_request (Some (ReconnectConfig_default ())) None\<rparr>;
       sink1 = snd (start_send send first sink); sink2 = snd (start_send send SubscribeRequest_default sink1)
   in rs_shared sink2 = SubscribeRequest_default \<and> rs_inner sink2 = [first, SubscribeRequest_default] \<and>
      sr_blocks_meta (rs_shared sink2) = []"
  using sink_drops_internal_filters [of "SubscribeRequest_default\<lparr>sr_blocks_meta := [(''mine'', ())]\<rparr>"
      SubscribeRequest_default "\<lparr>rs_inner = [], rs_shared = first_request (Some (ReconnectConfig_default ())) None\<rparr>"]
  by (simp add: Let_def SubscribeRequest_default_def AUTORECONNECT_FILTER_KEY_def first_request_def
      ReconnectConfig_default_def inject_autoreconnect_filter_def)

end
