(* ===== verification/Block_Reconstruction.thy ===== *)
theory Block_Reconstruction
  imports Messages
begin

text \<open>
  Block reconstruction (\<^verbatim>\<open>yellowstone-grpc-geyser/src/block_reconstruction.rs\<close>): the buffer of a slot
  being processed, the frozen block made of it, and the storage that replays blocks. The block state
  machine is a third-party crate: its operations are a parameter that acts on a state of any type.
  The B-tree of replayable blocks is an association list sorted by slot; hash maps keyed by slot are
  partial functions. Metrics and logging are left out.
\<close>

section \<open>The slot being processed\<close>

record ProcessingSlot =
  ps_original_messages :: "Message list"
  ps_account_write_version_map :: "pubkey \<rightharpoonup> u64"
  ps_blockmeta :: "MessageBlockMeta option"
  ps_transactions :: "MessageTransaction list"
  ps_accounts :: "MessageAccount list"
  ps_entries :: "MessageEntry list"
  ps_is_sealed :: bool

definition ProcessingSlot_default :: ProcessingSlot where
  "ProcessingSlot_default =
     \<lparr>ps_original_messages = [], ps_account_write_version_map = Map.empty, ps_blockmeta = None,
      ps_transactions = [], ps_accounts = [], ps_entries = [], ps_is_sealed = False\<rparr>"

definition add_event :: "Message \<Rightarrow> ProcessingSlot \<Rightarrow> ProcessingSlot" where
  "add_event event p =
     (case event of
        MAccount a \<Rightarrow>
          (let v = ai_write_version (ac_account a);
               pk = ai_pubkey (ac_account a);
               new = (case ps_account_write_version_map p pk of
                        Some old \<Rightarrow> if old < v then v else old
                      | None \<Rightarrow> v)
           in p\<lparr>ps_account_write_version_map := (ps_account_write_version_map p)(pk \<mapsto> new),
                ps_accounts := ps_accounts p @ [a],
                ps_original_messages := ps_original_messages p @ [event]\<rparr>)
      | MTransaction t \<Rightarrow>
          p\<lparr>ps_transactions := ps_transactions p @ [t],
            ps_original_messages := ps_original_messages p @ [event]\<rparr>
      | MEntry e \<Rightarrow>
          p\<lparr>ps_entries := ps_entries p @ [e],
            ps_original_messages := ps_original_messages p @ [event]\<rparr>
      | _ \<Rightarrow> p)"

datatype TrySealError = NotSealable | AlreadySealed

definition ps_try_seal :: "ProcessingSlot \<Rightarrow> (TrySealError + unit) \<times> ProcessingSlot" where
  "ps_try_seal p =
     (if ps_is_sealed p then (Inl AlreadySealed, p)
      else case ps_blockmeta p of
             None \<Rightarrow> (Inl NotSealable, p)
           | Some m \<Rightarrow>
               if length (ps_transactions p) < unat (um_executed_transaction_count (bm_block_meta m))
               then (Inl NotSealable, p)
               else if length (ps_entries p) < unat (um_entries_count (bm_block_meta m))
               then (Inl NotSealable, p)
               else (Inr (), p\<lparr>ps_is_sealed := True\<rparr>))"

record FrozenBlock =
  fz_original_messages :: "Message list"
  fz_block_meta :: MessageBlockMeta
  fz_pre_computed_message_block :: MessageBlock

text \<open>\<open>expect("should be sealable")\<close> panics without a block meta.\<close>

definition is_latest :: "(pubkey \<rightharpoonup> u64) \<Rightarrow> MessageAccount \<Rightarrow> bool" where
  "is_latest versions a = (versions (ai_pubkey (ac_account a)) = Some (ai_write_version (ac_account a)))"

definition seal :: "Timestamp \<Rightarrow> ProcessingSlot \<Rightarrow> FrozenBlock run" where
  "seal now p =
     do {
       block_meta \<leftarrow> ps_blockmeta p;
       let account_info_vec = filter (is_latest (ps_account_write_version_map p)) (ps_accounts p);
       let dedup_messages =
         filter (\<lambda>m. case m of MAccount a \<Rightarrow> is_latest (ps_account_write_version_map p) a | _ \<Rightarrow> True)
           (ps_original_messages p);
       Some \<lparr>fz_original_messages = dedup_messages, fz_block_meta = block_meta,
         fz_pre_computed_message_block =
           MessageBlock_new now block_meta (ps_transactions p) account_info_vec (ps_entries p)\<rparr>
     }"

section \<open>The block state machine\<close>

record SlotCommitmentStatusUpdate =
  cu_parent_slot :: "u64 option"
  cu_slot :: u64
  cu_commitment :: CommitmentLevel

datatype SlotLifecycle = LFirstShredReceived | LCompleted | LCreatedBank | LDead

record SlotLifecycleUpdate =
  lu_slot :: u64
  lu_parent_slot :: "u64 option"
  lu_stage :: SlotLifecycle

record BlockSummary =
  bs_slot :: u64
  bs_parent_slot :: u64
  bs_blockhash :: bytes
  bs_entry_count :: u64
  bs_executed_transaction_count :: u64

datatype BlockReplayEvent = Lifecycle SlotLifecycleUpdate | Summary BlockSummary

datatype BlockStateMachineOutput =
    OFrozenBlock u64
  | OSlotStatus SlotCommitmentStatusUpdate
  | OForksDetected u64
  | ODeadSlotDetected u64
  | OBankCreated u64
  | OBankReset u64

text \<open>\<open>process_replay_event\<close> fails on an untracked slot; \<open>hash_from_str\<close> is
  \<open>Hash::from_str\<close>.\<close>

record 'b block_machine =
  km_process_replay_event :: "BlockReplayEvent \<Rightarrow> 'b \<Rightarrow> (unit + unit) \<times> 'b"
  km_process_consensus_event :: "SlotCommitmentStatusUpdate \<Rightarrow> 'b \<Rightarrow> 'b"
  km_is_slot_tracked :: "u64 \<Rightarrow> 'b \<Rightarrow> bool"
  km_pop_next :: "'b \<Rightarrow> BlockStateMachineOutput option \<times> 'b"
  km_gc :: "'b \<Rightarrow> 'b"
  km_drain_dlq :: "'b \<Rightarrow> 'b"
  km_hash_from_str :: "string \<Rightarrow> bytes option"

section \<open>The storage\<close>

record SlotProgression =
  sp_commitment :: "SlotCommitmentStatusUpdate list"
  sp_max_commitment :: CommitmentLevel

type_synonym 'v btree = "(u64 \<times> 'v) list"

fun bt_insert :: "u64 \<Rightarrow> 'v \<Rightarrow> 'v btree \<Rightarrow> 'v btree" where
  "bt_insert k v [] = [(k, v)]"
| "bt_insert k v ((k', v') # m) =
     (if k < k' then (k, v) # (k', v') # m
      else if k = k' then (k, v) # m
      else (k', v') # bt_insert k v m)"

definition bt_remove :: "u64 \<Rightarrow> 'v btree \<Rightarrow> 'v btree" where
  "bt_remove k m = filter (\<lambda>(k', v). k' \<noteq> k) m"

record 'b BlockMachineStorage =
  st_processing_slots :: "u64 \<rightharpoonup> ProcessingSlot"
  st_replayed_slot :: "FrozenBlock btree"
  st_slot_commitment_progression_map :: "u64 \<rightharpoonup> SlotProgression"
  st_replayed_capacity :: nat
  st_ready_queue :: "(SlotCommitmentStatusUpdate \<times> FrozenBlock) list"
  st_state :: 'b
  st_min_slot :: "u64 option"
  st_num_buffered_finalized_slot :: nat

definition MINIMUM_FINALIZED_SLOT_TO_BUFFER :: nat where "MINIMUM_FINALIZED_SLOT_TO_BUFFER = 10"

definition BlockMachineStorage_new :: "'b \<Rightarrow> nat \<Rightarrow> 'b BlockMachineStorage" where
  "BlockMachineStorage_new machine capacity =
     \<lparr>st_processing_slots = Map.empty, st_replayed_slot = [], st_slot_commitment_progression_map = Map.empty,
      st_replayed_capacity = capacity, st_ready_queue = [], st_state = machine, st_min_slot = None,
      st_num_buffered_finalized_slot = 0\<rparr>"

definition refresh_min_slot :: "'b BlockMachineStorage \<Rightarrow> 'b BlockMachineStorage" where
  "refresh_min_slot s =
     s\<lparr>st_min_slot := (case st_replayed_slot s of [] \<Rightarrow> None | (k, _) # _ \<Rightarrow> Some k)\<rparr>"

definition prune_slot :: "u64 \<Rightarrow> bool \<Rightarrow> 'b BlockMachineStorage \<Rightarrow> 'b BlockMachineStorage" where
  "prune_slot slot refresh s =
     (let s1 = s\<lparr>st_processing_slots := (st_processing_slots s)(slot := None),
                st_replayed_slot := bt_remove slot (st_replayed_slot s),
                st_slot_commitment_progression_map := (st_slot_commitment_progression_map s)(slot := None),
                st_num_buffered_finalized_slot :=
                  (case st_slot_commitment_progression_map s slot of
                     Some p \<Rightarrow> if sp_max_commitment p = Finalized then st_num_buffered_finalized_slot s - 1
                              else st_num_buffered_finalized_slot s
                   | None \<Rightarrow> st_num_buffered_finalized_slot s)\<rparr>
      in if refresh then refresh_min_slot s1 else s1)"

definition slot_reset :: "u64 \<Rightarrow> 'b BlockMachineStorage \<Rightarrow> 'b BlockMachineStorage" where
  "slot_reset slot s =
     (let s1 = prune_slot slot True s
      in s1\<lparr>st_ready_queue :=
             filter (\<lambda>(_, block). um_slot (bm_block_meta (fz_block_meta block)) \<noteq> slot) (st_ready_queue s1)\<rparr>)"

definition on_message_slot ::
  "'b block_machine \<Rightarrow> MessageSlot \<Rightarrow> 'b BlockMachineStorage \<Rightarrow> (unit + unit) \<times> 'b BlockMachineStorage" where
  "on_message_slot B u s =
     (let lifecycle = (\<lambda>stage.
        case km_process_replay_event B
               (Lifecycle \<lparr>lu_slot = sl_slot u, lu_parent_slot = sl_parent u, lu_stage = stage\<rparr>) (st_state s) of
          (r, m) \<Rightarrow> (r, s\<lparr>st_state := m\<rparr>));
          consensus = (\<lambda>c.
            (Inr (), s\<lparr>st_state := km_process_consensus_event B
              \<lparr>cu_parent_slot = sl_parent u, cu_slot = sl_slot u, cu_commitment = c\<rparr> (st_state s)\<rparr>))
      in case sl_status u of
           SFirstShredReceived \<Rightarrow> lifecycle LFirstShredReceived
         | SCompleted \<Rightarrow> lifecycle LCompleted
         | SCreatedBank \<Rightarrow> lifecycle LCreatedBank
         | SDead \<Rightarrow> lifecycle LDead
         | SProcessed \<Rightarrow> if sl_dead_error u \<noteq> None then lifecycle LDead else consensus Processed
         | SConfirmed \<Rightarrow> if sl_dead_error u \<noteq> None then lifecycle LDead else consensus Confirmed
         | SFinalized \<Rightarrow> if sl_dead_error u \<noteq> None then lifecycle LDead else consensus Finalized)"

text \<open>\<open>expect("blockhash format")\<close> panics on a malformed block hash.\<close>

definition st_try_seal :: "'b block_machine \<Rightarrow> u64 \<Rightarrow> 'b BlockMachineStorage \<Rightarrow> 'b BlockMachineStorage run" where
  "st_try_seal B slot s =
     (case st_processing_slots s slot of
        None \<Rightarrow> Some s
      | Some p \<Rightarrow>
          (case ps_try_seal p of (outcome, p1) \<Rightarrow>
             let s1 = s\<lparr>st_processing_slots := (st_processing_slots s)(slot \<mapsto> p1)\<rparr> in
             case outcome of
               Inl _ \<Rightarrow> Some s1
             | Inr _ \<Rightarrow> do {
                 m \<leftarrow> ps_blockmeta p1;
                 h \<leftarrow> km_hash_from_str B (um_blockhash (bm_block_meta m));
                 let summary = Summary
                   \<lparr>bs_slot = um_slot (bm_block_meta m), bs_parent_slot = um_parent_slot (bm_block_meta m),
                    bs_blockhash = h, bs_entry_count = um_entries_count (bm_block_meta m),
                    bs_executed_transaction_count = um_executed_transaction_count (bm_block_meta m)\<rparr>;
                 Some (s1\<lparr>st_state := snd (km_process_replay_event B summary (st_state s1))\<rparr>)
               }))"

definition handle_block_meta ::
  "'b block_machine \<Rightarrow> MessageBlockMeta \<Rightarrow> 'b BlockMachineStorage \<Rightarrow> 'b BlockMachineStorage run" where
  "handle_block_meta B m s =
     (let slot = um_slot (bm_block_meta m) in
      case st_processing_slots s slot of
        None \<Rightarrow> Some s
      | Some p \<Rightarrow>
          st_try_seal B slot
            (s\<lparr>st_processing_slots := (st_processing_slots s)(slot \<mapsto> p\<lparr>ps_blockmeta := Some m\<rparr>)\<rparr>))"

definition handle_block_data ::
  "'b block_machine \<Rightarrow> Message \<Rightarrow> 'b BlockMachineStorage \<Rightarrow> 'b BlockMachineStorage run" where
  "handle_block_data B m s =
     (let slot = get_slot m in
      if \<not> km_is_slot_tracked B slot (st_state s) then Some s
      else if map_of (st_replayed_slot s) slot \<noteq> None then Some s
      else let p = (case st_processing_slots s slot of None \<Rightarrow> ProcessingSlot_default | Some p \<Rightarrow> p) in
           st_try_seal B slot
             (s\<lparr>st_processing_slots := (st_processing_slots s)(slot \<mapsto> add_event m p)\<rparr>))"

text \<open>The loop of \<open>gc\<close>, which drops the oldest block while there are too many; the capacity is a
  number of blocks, so a list longer than it has a first element.\<close>

function gc_loop :: "'b BlockMachineStorage \<Rightarrow> 'b BlockMachineStorage" where
  "gc_loop s =
     (if length (st_replayed_slot s) > st_replayed_capacity s \<and>
         st_num_buffered_finalized_slot s > MINIMUM_FINALIZED_SLOT_TO_BUFFER
      then case st_replayed_slot s of
             [] \<Rightarrow> s
           | (oldest, _) # _ \<Rightarrow> gc_loop (prune_slot oldest False s)
      else s)"
  by pat_completeness auto
termination
proof (relation "measure (\<lambda>s. length (st_replayed_slot s))", goal_cases)
  case (2 s kv rest oldest block)
  then have "st_replayed_slot (prune_slot oldest False s) = bt_remove oldest rest"
    by (auto simp: prune_slot_def bt_remove_def Let_def)
  with 2 show ?case by (simp add: bt_remove_def le_imp_less_Suc)
qed simp

declare gc_loop.simps [simp del]

definition st_gc :: "'b block_machine \<Rightarrow> 'b BlockMachineStorage \<Rightarrow> 'b BlockMachineStorage" where
  "st_gc B s =
     (let s1 = refresh_min_slot (gc_loop s) in s1\<lparr>st_state := km_gc B (st_state s1)\<rparr>)"

text \<open>The entry of the progression map and the number of finalized slots after a status.\<close>

definition progress ::
  "SlotCommitmentStatusUpdate \<Rightarrow> SlotProgression option \<Rightarrow> nat \<Rightarrow> SlotProgression \<times> nat" where
  "progress u old n =
     (case old of
        Some p \<Rightarrow>
          (let seen = list_ex (\<lambda>s. cu_commitment s = cu_commitment u) (sp_commitment p);
               p1 = (if seen then p else p\<lparr>sp_commitment := sp_commitment p @ [u]\<rparr>);
               n1 = (if \<not> seen \<and> cu_commitment u = Finalized then n + 1 else n);
               p2 = (if cu_commitment u > sp_max_commitment p1
                     then p1\<lparr>sp_max_commitment := cu_commitment u\<rparr> else p1)
           in (p2, n1))
      | None \<Rightarrow>
          (\<lparr>sp_commitment = [u], sp_max_commitment = cu_commitment u\<rparr>,
           if cu_commitment u = Finalized then n + 1 else n))"

definition on_slot_status ::
  "'b block_machine \<Rightarrow> SlotCommitmentStatusUpdate \<Rightarrow> 'b BlockMachineStorage \<Rightarrow> 'b BlockMachineStorage" where
  "on_slot_status B u s =
     (let slot = cu_slot u;
          (p, n) = progress u (st_slot_commitment_progression_map s slot) (st_num_buffered_finalized_slot s);
          s1 = s\<lparr>st_slot_commitment_progression_map := (st_slot_commitment_progression_map s)(slot \<mapsto> p),
                 st_num_buffered_finalized_slot := n\<rparr>;
          s2 = (case map_of (st_replayed_slot s1) slot of
                  Some block \<Rightarrow> s1\<lparr>st_ready_queue := st_ready_queue s1 @ [(u, block)]\<rparr>
                | None \<Rightarrow> s1)
      in if cu_commitment u = Finalized then st_gc B s2 else s2)"

definition on_frozen_block :: "Timestamp \<Rightarrow> u64 \<Rightarrow> 'b BlockMachineStorage \<Rightarrow> 'b BlockMachineStorage run" where
  "on_frozen_block now slot s =
     (case st_processing_slots s slot of
        None \<Rightarrow> Some s
      | Some p \<Rightarrow> do {
          block \<leftarrow> seal now p;
          Some (s\<lparr>st_processing_slots := (st_processing_slots s)(slot := None),
                  st_min_slot := Some (case st_min_slot s of None \<Rightarrow> slot | Some m \<Rightarrow> min m slot),
                  st_replayed_slot := bt_insert slot block (st_replayed_slot s)\<rparr>)
        })"

definition on_blockmachine_output ::
  "'b block_machine \<Rightarrow> Timestamp \<Rightarrow> BlockStateMachineOutput \<Rightarrow> 'b BlockMachineStorage \<Rightarrow> 'b BlockMachineStorage run" where
  "on_blockmachine_output B now output s =
     (case output of
        OFrozenBlock slot \<Rightarrow> on_frozen_block now slot s
      | OSlotStatus u \<Rightarrow> Some (on_slot_status B u s)
      | OForksDetected slot \<Rightarrow> Some (prune_slot slot True s)
      | ODeadSlotDetected slot \<Rightarrow> Some (prune_slot slot True s)
      | OBankCreated _ \<Rightarrow> Some s
      | OBankReset slot \<Rightarrow> Some (slot_reset slot s))"

text \<open>\<open>None\<close>: the machine never runs out of outputs, or handling one panics.\<close>

partial_function (option) drain_outputs ::
  "'b block_machine \<Rightarrow> Timestamp \<Rightarrow> 'b BlockMachineStorage \<Rightarrow> 'b BlockMachineStorage option" where
  "drain_outputs B now s =
     (case km_pop_next B (st_state s) of
        (None, m) \<Rightarrow> Some (s\<lparr>st_state := km_drain_dlq B m\<rparr>)
      | (Some output, m) \<Rightarrow> do {
          s1 \<leftarrow> on_blockmachine_output B now output (s\<lparr>st_state := m\<rparr>);
          drain_outputs B now s1
        })"

declare drain_outputs.simps [code]

definition handle_message :: "'b block_machine \<Rightarrow> Message \<Rightarrow> 'b BlockMachineStorage \<Rightarrow> 'b BlockMachineStorage run" where
  "handle_message B m s =
     (case m of
        MSlot u \<Rightarrow> Some (snd (on_message_slot B u s))
      | MAccount _ \<Rightarrow> handle_block_data B m s
      | MTransaction _ \<Rightarrow> handle_block_data B m s
      | MEntry _ \<Rightarrow> handle_block_data B m s
      | MBlockMeta meta \<Rightarrow> handle_block_meta B meta s
      | _ \<Rightarrow> Some s)"

definition add :: "'b block_machine \<Rightarrow> Timestamp \<Rightarrow> Message \<Rightarrow> 'b BlockMachineStorage \<Rightarrow> 'b BlockMachineStorage option" where
  "add B now m s = do { s1 \<leftarrow> handle_message B m s; drain_outputs B now s1 }"

definition pop_ready_block ::
  "'b BlockMachineStorage \<Rightarrow> (SlotCommitmentStatusUpdate \<times> FrozenBlock) option \<times> 'b BlockMachineStorage" where
  "pop_ready_block s =
     (case st_ready_queue s of
        [] \<Rightarrow> (None, s)
      | x # rest \<Rightarrow> (Some x, s\<lparr>st_ready_queue := rest\<rparr>))"

definition min_replayable_slot :: "'b BlockMachineStorage \<Rightarrow> u64 option" where
  "min_replayable_slot s = st_min_slot s"

text \<open>Iterating to the end: each call of \<open>next\<close> skips the blocks without a progression or below the
  commitment.\<close>

fun replay_iter ::
  "'b BlockMachineStorage \<Rightarrow> CommitmentLevel \<Rightarrow> FrozenBlock btree \<Rightarrow> (FrozenBlock \<times> SlotCommitmentStatusUpdate list) list" where
  "replay_iter s min_commitment [] = []"
| "replay_iter s min_commitment ((slot, block) # rest) =
     (case st_slot_commitment_progression_map s slot of
        None \<Rightarrow> replay_iter s min_commitment rest
      | Some p \<Rightarrow>
          if sp_max_commitment p < min_commitment then replay_iter s min_commitment rest
          else (block, sp_commitment p) # replay_iter s min_commitment rest)"

definition replay_from_slot ::
  "'b BlockMachineStorage \<Rightarrow> u64 \<Rightarrow> CommitmentLevel \<Rightarrow> (FrozenBlock \<times> SlotCommitmentStatusUpdate list) list" where
  "replay_from_slot s slot min_commitment =
     replay_iter s min_commitment (filter (\<lambda>(k, _). slot \<le> k) (st_replayed_slot s))"

end
