(* ===== verification/Server_Pipeline.thy ===== *)
theory Server_Pipeline
  imports Block_Reconstruction Channels
begin

text \<open>
  The message pipeline of the server: batches of queued messages
  (\<^verbatim>\<open>yellowstone-grpc-geyser/src/stream.rs\<close>), the loop that broadcasts what the validator
  reports and the loop that reconstructs blocks, fans them out by commitment level and answers replay
  requests (\<^verbatim>\<open>yellowstone-grpc-geyser/src/grpc.rs\<close>). The channels are those of \<^verbatim>\<open>Channels\<close>; a send into an
  unbounded queue is recorded in a list. Metrics and logging are left out.
\<close>

section \<open>Batches\<close>

text \<open>The trait \<open>Buffer\<close>: \<open>accumulate\<close> gives the item back when there is no room.\<close>

record ('b, 'm) Buffer =
  bf_ready :: "'b \<Rightarrow> bool"
  bf_accumulate :: "'m \<Rightarrow> 'b \<Rightarrow> 'm + 'b"

record 'a Vec =
  vec_items :: "'a list"
  vec_capacity :: nat

definition Vec_ready :: "'a Vec \<Rightarrow> bool" where
  "Vec_ready v \<longleftrightarrow> length (vec_items v) < vec_capacity v"

definition Vec_accumulate :: "'a \<Rightarrow> 'a Vec \<Rightarrow> 'a + 'a Vec" where
  "Vec_accumulate item v =
     (if length (vec_items v) < vec_capacity v then Inr (v\<lparr>vec_items := vec_items v @ [item]\<rparr>) else Inl item)"

definition Vec_buffer :: "('a Vec, 'a) Buffer" where
  "Vec_buffer = \<lparr>bf_ready = Vec_ready, bf_accumulate = Vec_accumulate\<rparr>"

text \<open>The loop that drains the queue into the buffer; \<open>None\<close>: \<open>unreachable!\<close> is reached, or the buffer never
  fills up.\<close>

partial_function (option) batch_drain ::
  "('b, 'm) Buffer \<Rightarrow> ('m, 'r) mpsc_receiver \<Rightarrow> 'b \<Rightarrow> 'r \<Rightarrow> nat \<Rightarrow> (nat \<times> 'b \<times> 'r) option" where
  "batch_drain B R buffer rx i =
     (if bf_ready B buffer
      then (case mp_try_recv R rx of
              (TryItem item, rx1) \<Rightarrow>
                (case bf_accumulate B item buffer of
                   Inl _ \<Rightarrow> None
                 | Inr buffer1 \<Rightarrow> batch_drain B R buffer1 rx1 (i + 1))
            | (_, rx1) \<Rightarrow> Some (i, buffer, rx1))
      else Some (i, buffer, rx))"

declare batch_drain.simps [code]

definition poll_recv_batch_with_buffer ::
  "('b, 'm) Buffer \<Rightarrow> ('m, 'r) mpsc_receiver \<Rightarrow> 'b \<Rightarrow> 'r \<Rightarrow> (nat option poll \<times> 'b \<times> 'r) option" where
  "poll_recv_batch_with_buffer B R buffer rx =
     (if \<not> bf_ready B buffer then Some (Ready (Some 0), buffer, rx)
      else case mp_poll_recv R rx of
             (Ready (Some item), rx1) \<Rightarrow>
               (case bf_accumulate B item buffer of
                  Inl _ \<Rightarrow> None
                | Inr buffer1 \<Rightarrow> do {
                    (i, buffer2, rx2) \<leftarrow> batch_drain B R buffer1 rx1 1;
                    Some (Ready (Some i), buffer2, rx2)
                  })
           | (Ready None, rx1) \<Rightarrow> Some (Ready None, buffer, rx1)
           | (Pending, rx1) \<Rightarrow> Some (Pending, buffer, rx1))"

section \<open>The channels of the subscribers\<close>

record 'q SubscriberChannels =
  sc_processed :: 'q
  sc_confirmed :: 'q
  sc_finalized :: 'q

definition SubscriberChannels_new ::
  "(Message list, 'q, 'r, 'w) tokio \<Rightarrow> nat \<Rightarrow> nat \<Rightarrow> nat \<Rightarrow> 'q SubscriberChannels" where
  "SubscriberChannels_new T processed confirmed finalized =
     \<lparr>sc_processed = tk_channel T processed, sc_confirmed = tk_channel T confirmed,
      sc_finalized = tk_channel T finalized\<rparr>"

definition sender :: "CommitmentLevel \<Rightarrow> 'q SubscriberChannels \<Rightarrow> 'q" where
  "sender c ch = (case c of Processed \<Rightarrow> sc_processed ch | Confirmed \<Rightarrow> sc_confirmed ch | Finalized \<Rightarrow> sc_finalized ch)"

definition channels_send ::
  "(Message list, 'q, 'r, 'w) tokio \<Rightarrow> CommitmentLevel \<Rightarrow> Message list \<Rightarrow> 'q SubscriberChannels \<Rightarrow> 'q SubscriberChannels" where
  "channels_send T c messages ch =
     (let q = tk_send T messages (sender c ch) in
      case c of
        Processed \<Rightarrow> ch\<lparr>sc_processed := q\<rparr>
      | Confirmed \<Rightarrow> ch\<lparr>sc_confirmed := q\<rparr>
      | Finalized \<Rightarrow> ch\<lparr>sc_finalized := q\<rparr>)"

definition channels_subscribe ::
  "(Message list, 'q, 'r, 'w) tokio \<Rightarrow> CommitmentLevel \<Rightarrow> 'q SubscriberChannels \<Rightarrow> 'r" where
  "channels_subscribe T c ch = tk_subscribe T (sender c ch)"

section \<open>The geyser loop\<close>

datatype BlockReconstructionMessage = RSingle Message | RBatch "Message list"

record PartitionedBuffer =
  pb_message_batch :: "Message Vec"
  pb_blockmeta_batch :: "Message option"

definition Partitioned_ready :: "PartitionedBuffer \<Rightarrow> bool" where
  "Partitioned_ready b \<longleftrightarrow>
     length (vec_items (pb_message_batch b)) < vec_capacity (pb_message_batch b) \<and> pb_blockmeta_batch b = None"

text \<open>\<open>Vec::push\<close> grows a full vector; \<open>accumulate\<close> only pushes when there is room.\<close>

definition Partitioned_accumulate :: "Message \<Rightarrow> PartitionedBuffer \<Rightarrow> Message + PartitionedBuffer" where
  "Partitioned_accumulate item b =
     (let v = pb_message_batch b in
      if length (vec_items v) = vec_capacity v then Inl item
      else case item of
             MBlockMeta _ \<Rightarrow> Inr (b\<lparr>pb_blockmeta_batch := Some item\<rparr>)
           | _ \<Rightarrow> Inr (b\<lparr>pb_message_batch := v\<lparr>vec_items := vec_items v @ [item]\<rparr>\<rparr>))"

definition Partitioned_buffer :: "(PartitionedBuffer, Message) Buffer" where
  "Partitioned_buffer = \<lparr>bf_ready = Partitioned_ready, bf_accumulate = Partitioned_accumulate\<rparr>"

definition MESSAGE_BATCH_SIZE :: nat where "MESSAGE_BATCH_SIZE = 1024"

text \<open>\<open>alloc n\<close> is the capacity that \<open>Vec::with_capacity(n)\<close> gets.\<close>

definition PartitionedBuffer_new :: "(nat \<Rightarrow> nat) \<Rightarrow> PartitionedBuffer" where
  "PartitionedBuffer_new alloc =
     \<lparr>pb_message_batch = \<lparr>vec_items = [], vec_capacity = alloc MESSAGE_BATCH_SIZE\<rparr>, pb_blockmeta_batch = None\<rparr>"

record ('q, 'r) GeyserLoop =
  gl_messages_rx :: 'r
  gl_buffer :: PartitionedBuffer
  gl_broadcast :: "'q SubscriberChannels"
  gl_block_reconstruction_tx :: "BlockReconstructionMessage list"

text \<open>The body of the loop after a batch has been received.\<close>

definition geyser_forward ::
  "(Message list, 'q, 's, 'w) tokio \<Rightarrow> (nat \<Rightarrow> nat) \<Rightarrow> ('q, 'r) GeyserLoop \<Rightarrow> ('q, 'r) GeyserLoop" where
  "geyser_forward T alloc g =
     (let batch = vec_items (pb_message_batch (gl_buffer g));
          g1 = (if batch = [] then g
                else g\<lparr>gl_broadcast := channels_send T Processed batch (gl_broadcast g),
                       gl_buffer := (gl_buffer g)\<lparr>pb_message_batch :=
                         \<lparr>vec_items = [], vec_capacity = alloc MESSAGE_BATCH_SIZE\<rparr>\<rparr>,
                       gl_block_reconstruction_tx := gl_block_reconstruction_tx g @ [RBatch batch]\<rparr>)
      in case pb_blockmeta_batch (gl_buffer g1) of
           None \<Rightarrow> g1
         | Some blockmeta \<Rightarrow>
             g1\<lparr>gl_buffer := (gl_buffer g1)\<lparr>pb_blockmeta_batch := None\<rparr>,
                gl_block_reconstruction_tx := gl_block_reconstruction_tx g1 @ [RSingle blockmeta]\<rparr>)"

text \<open>One poll of the loop; the flag says that the loop goes on.\<close>

definition geyser_poll ::
  "(Message list, 'q, 's, 'w) tokio \<Rightarrow> (nat \<Rightarrow> nat) \<Rightarrow> (Message, 'r) mpsc_receiver \<Rightarrow> ('q, 'r) GeyserLoop
   \<Rightarrow> (bool \<times> ('q, 'r) GeyserLoop) option" where
  "geyser_poll T alloc R g =
     (case poll_recv_batch_with_buffer Partitioned_buffer R (gl_buffer g) (gl_messages_rx g) of
        None \<Rightarrow> None
      | Some (res, buffer, rx) \<Rightarrow>
          (let g1 = g\<lparr>gl_buffer := buffer, gl_messages_rx := rx\<rparr> in
           case res of
             Pending \<Rightarrow> Some (True, g1)
           | Ready None \<Rightarrow> Some (False, g1)
           | Ready (Some _) \<Rightarrow> Some (True, geyser_forward T alloc g1)))"

section \<open>The block reconstruction loop\<close>

record ('b, 'q) ReconstructionLoop =
  rl_block_machine :: "'b BlockMachineStorage"
  rl_broadcast :: "'q SubscriberChannels"
  rl_first_available_slot :: "u64 option"

definition reconstruction_messages :: "BlockReconstructionMessage \<Rightarrow> Message list" where
  "reconstruction_messages m = (case m of RSingle x \<Rightarrow> [x] | RBatch xs \<Rightarrow> xs)"

fun feed_machine ::
  "'b block_machine \<Rightarrow> Timestamp \<Rightarrow> Message list \<Rightarrow> 'b BlockMachineStorage \<Rightarrow> 'b BlockMachineStorage option" where
  "feed_machine B now [] s = Some s"
| "feed_machine B now (m # ms) s = do { s1 \<leftarrow> add B now m s; feed_machine B now ms s1 }"

definition status_of_commitment :: "CommitmentLevel \<Rightarrow> SlotStatus" where
  "status_of_commitment c = (case c of Processed \<Rightarrow> SProcessed | Confirmed \<Rightarrow> SConfirmed | Finalized \<Rightarrow> SFinalized)"

text \<open>The synthetic slot message of a commitment update.\<close>

definition slot_message :: "Timestamp \<Rightarrow> SlotCommitmentStatusUpdate \<Rightarrow> Message" where
  "slot_message now u =
     MSlot \<lparr>sl_slot = cu_slot u, sl_parent = cu_parent_slot u, sl_status = status_of_commitment (cu_commitment u),
       sl_dead_error = None, sl_created_at = now\<rparr>"

definition ALL_COMMITMENT_LEVELS :: "CommitmentLevel list" where
  "ALL_COMMITMENT_LEVELS = [Processed, Confirmed, Finalized]"

definition fan_out ::
  "(Message list, 'q, 's, 'w) tokio \<Rightarrow> Timestamp \<Rightarrow> SlotCommitmentStatusUpdate \<times> FrozenBlock
   \<Rightarrow> 'q SubscriberChannels \<Rightarrow> 'q SubscriberChannels" where
  "fan_out T now ready ch =
     (case ready of (u, block) \<Rightarrow>
        let c = cu_commitment u;
            ch1 = (if c \<noteq> Processed then channels_send T c (fz_original_messages block) ch else ch);
            ch2 = channels_send T c
                    [MBlock (fz_pre_computed_message_block block), MBlockMeta (fz_block_meta block)] ch1
        in fold (\<lambda>level. channels_send T level [slot_message now u]) ALL_COMMITMENT_LEVELS ch2)"

text \<open>The loop over \<open>pop_ready_block\<close>.\<close>

function pop_loop ::
  "(Message list, 'q, 's, 'w) tokio \<Rightarrow> Timestamp \<Rightarrow> 'b BlockMachineStorage \<Rightarrow> 'q SubscriberChannels
   \<Rightarrow> 'b BlockMachineStorage \<times> 'q SubscriberChannels" where
  "pop_loop T now s ch =
     (case pop_ready_block s of
        (None, s1) \<Rightarrow> (s1, ch)
      | (Some ready, s1) \<Rightarrow> pop_loop T now s1 (fan_out T now ready ch))"
  by pat_completeness auto
termination
  by (relation "measure (\<lambda>(T, now, s, ch). length (st_ready_queue s))")
    (auto simp: pop_ready_block_def split: list.splits)

declare pop_loop.simps [simp del]

text \<open>One round with the messages of a received batch.\<close>

definition reconstruction_round ::
  "(Message list, 'q, 's, 'w) tokio \<Rightarrow> 'b block_machine \<Rightarrow> Timestamp \<Rightarrow> BlockReconstructionMessage list
   \<Rightarrow> ('b, 'q) ReconstructionLoop \<Rightarrow> ('b, 'q) ReconstructionLoop option" where
  "reconstruction_round T B now batch l =
     do {
       s1 \<leftarrow> feed_machine B now (concat (map reconstruction_messages batch)) (rl_block_machine l);
       let (s2, ch) = pop_loop T now s1 (rl_broadcast l);
       Some (l\<lparr>rl_block_machine := s2, rl_broadcast := ch,
               rl_first_available_slot :=
                 (case (min_replayable_slot s2, rl_first_available_slot l) of
                    (Some m, Some _) \<Rightarrow> Some m
                  | (_, old) \<Rightarrow> old)\<rparr>)
     }"

section \<open>Replay requests\<close>

datatype ReplayResponseMessageType = ReplaySingle Message | ReplayBatch "Message list"

text \<open>The iterator over a response message: the message and an index.\<close>

definition response_next :: "ReplayResponseMessageType \<Rightarrow> nat \<Rightarrow> Message option \<times> nat" where
  "response_next m i =
     (case m of
        ReplaySingle msg \<Rightarrow> if i = 0 then (Some msg, i + 1) else (None, i)
      | ReplayBatch batch \<Rightarrow> if i < length batch then (Some (batch ! i), i + 1) else (None, i))"

function response_items :: "ReplayResponseMessageType \<Rightarrow> nat \<Rightarrow> Message list" where
  "response_items m i =
     (case response_next m i of
        (None, _) \<Rightarrow> []
      | (Some msg, j) \<Rightarrow> msg # response_items m j)"
  by pat_completeness auto
termination
  by (relation "measure (\<lambda>(m, i). (case m of ReplaySingle _ \<Rightarrow> 1 | ReplayBatch b \<Rightarrow> length b) - i)")
    (auto simp: response_next_def split: ReplayResponseMessageType.splits if_splits)

declare response_items.simps [simp del]

datatype ReplayedResponse = ReplayMessages "ReplayResponseMessageType list" | ReplayLagged slot

definition replay_of_block ::
  "Timestamp \<Rightarrow> FrozenBlock \<times> SlotCommitmentStatusUpdate list \<Rightarrow> ReplayResponseMessageType list" where
  "replay_of_block now item =
     (case item of (block, statuses) \<Rightarrow>
        [ReplayBatch (fz_original_messages block), ReplaySingle (MBlock (fz_pre_computed_message_block block)),
         ReplaySingle (MBlockMeta (fz_block_meta block))] @
        map (\<lambda>u. ReplaySingle (slot_message now u)) statuses)"

text \<open>The answer to a replay request; \<open>None\<close>: the answer channel is dropped without an answer.\<close>

definition on_replay_request ::
  "Timestamp \<Rightarrow> CommitmentLevel \<Rightarrow> slot \<Rightarrow> 'b BlockMachineStorage \<Rightarrow> ReplayedResponse option" where
  "on_replay_request now commitment replay_slot s =
     (let answer =
        (let messages = concat (map (replay_of_block now) (replay_from_slot s replay_slot commitment)) in
         if messages = [] then None else Some (ReplayMessages messages))
      in case min_replayable_slot s of
           Some m \<Rightarrow> if replay_slot < m then Some (ReplayLagged m) else answer
         | None \<Rightarrow> answer)"

definition subscribe_first_available_slot :: "('b, 'q) ReconstructionLoop \<Rightarrow> u64 option" where
  "subscribe_first_available_slot l = rl_first_available_slot l"

end
