(* ===== verification/Server_Session.thy ===== *)
theory Server_Session
  imports Subscribe_Filter Server_Pipeline
begin

text \<open>
  The sessions of the server (\<^verbatim>\<open>yellowstone-grpc-geyser/src/grpc.rs\<close>): the load-aware channel to the client
  (\<^verbatim>\<open>yellowstone-grpc-geyser/src/util/stream.rs\<close>), the task that reads the requests of a client, the
  client loop with its snapshot phase, filter changes, replay and live updates, the deshred loop and the
  counting of subscriptions. A task that panics yields \<open>None\<close>. What a spawned task sends after the loop ended is
  the session's farewell.
\<close>

section \<open>The load-aware channel\<close>

record 'c LoadAwareSender =
  la_queue_size :: u64
  la_inner :: 'c

definition load_aware_channel :: "'c \<Rightarrow> 'c LoadAwareSender" where
  "load_aware_channel inner = \<lparr>la_queue_size = 0, la_inner = inner\<rparr>"

definition add_load :: "u64 \<Rightarrow> u64" where "add_load n = n + 1"

definition decr_load :: "u64 \<Rightarrow> u64" where "decr_load n = n - 1"

definition la_try_send ::
  "('x, 'c) mpsc_sender \<Rightarrow> 'x \<Rightarrow> 'c LoadAwareSender \<Rightarrow> send_outcome \<times> 'c LoadAwareSender" where
  "la_try_send S item la =
     (case ms_try_send S item (la_inner la) of
        (Sent, c) \<Rightarrow> (Sent, la\<lparr>la_inner := c, la_queue_size := add_load (la_queue_size la)\<rparr>)
      | (outcome, c) \<Rightarrow> (outcome, la\<lparr>la_inner := c\<rparr>))"

definition la_send :: "('x, 'c) mpsc_sender \<Rightarrow> 'x \<Rightarrow> 'c LoadAwareSender \<Rightarrow> bool \<times> 'c LoadAwareSender" where
  "la_send S item la =
     (case ms_send S item (la_inner la) of
        (True, c) \<Rightarrow> (True, la\<lparr>la_inner := c, la_queue_size := add_load (la_queue_size la)\<rparr>)
      | (False, c) \<Rightarrow> (False, la\<lparr>la_inner := c\<rparr>))"

text \<open>The receiving end decrements the shared size when it yields an item.\<close>

definition la_poll_recv ::
  "('x, 'r) mpsc_receiver \<Rightarrow> 'r \<Rightarrow> u64 \<Rightarrow> 'x option poll \<times> 'r \<times> u64" where
  "la_poll_recv R rx n =
     (case mp_poll_recv R rx of
        (Ready (Some item), rx1) \<Rightarrow> (Ready (Some item), rx1, decr_load n)
      | (res, rx1) \<Rightarrow> (res, rx1, n))"

section \<open>Counting subscriptions\<close>

record SubscriptionTracker =
  tr_counters :: "string \<rightharpoonup> nat"
  tr_subscription_limit :: nat
  tr_limit_enforce :: bool

definition SubscriptionTracker_new :: "nat \<Rightarrow> bool \<Rightarrow> SubscriptionTracker" where
  "SubscriptionTracker_new limit enforce =
     \<lparr>tr_counters = Map.empty, tr_subscription_limit = limit, tr_limit_enforce = enforce\<rparr>"

text \<open>The permit is its key; \<open>saturating_add\<close> on \<open>usize\<close>.\<close>

definition usize_saturating_add :: "nat \<Rightarrow> nat \<Rightarrow> nat" where
  "usize_saturating_add a b = min (a + b) (2 ^ 64 - 1)"

definition try_insert :: "string \<Rightarrow> SubscriptionTracker \<Rightarrow> string option \<times> SubscriptionTracker" where
  "try_insert key t =
     (let count = (case tr_counters t key of None \<Rightarrow> 0 | Some n \<Rightarrow> n);
          t1 = t\<lparr>tr_counters := (tr_counters t)(key \<mapsto> count)\<rparr>
      in if tr_subscription_limit t \<le> count \<and> tr_limit_enforce t then (None, t1)
         else (Some key, t1\<lparr>tr_counters := (tr_counters t1)(key \<mapsto> usize_saturating_add count 1)\<rparr>))"

definition drop_permit :: "string \<Rightarrow> SubscriptionTracker \<Rightarrow> SubscriptionTracker" where
  "drop_permit key t =
     (case tr_counters t key of
        None \<Rightarrow> t
      | Some n \<Rightarrow>
          (let count = n - 1 in
           if count = 0 then t\<lparr>tr_counters := (tr_counters t)(key := None)\<rparr>
           else t\<lparr>tr_counters := (tr_counters t)(key \<mapsto> count)\<rparr>))"

section \<open>The task that reads requests\<close>

text \<open>What arrives on the request stream, and what goes to the client loop: a filter, or \<open>None\<close> for the end.\<close>

datatype incoming = IncomingRequest SubscribeRequest | IncomingHalfClosed | IncomingError

type_synonym client_message = "(u64 option \<times> Filter) option"

record 'c IncomingTask =
  in_filter_names :: FilterNames
  in_stream :: "'c LoadAwareSender"
  in_client_tx :: "client_message list"
  in_running :: bool

definition invalid_argument :: "string \<Rightarrow> Status" where
  "invalid_argument msg = \<lparr>stat_code = InvalidArgument, stat_message = msg, stat_transport = False\<rparr>"

text \<open>One message of the request stream. \<open>loop_alive\<close>: the client loop still holds its receiver;
  \<open>show\<close> prints a filter error. After a half close the task waits to be cancelled.\<close>

definition incoming_step ::
  "externs \<Rightarrow> (Status + FilteredUpdate, 'c) mpsc_sender \<Rightarrow> (FilterError \<Rightarrow> string) \<Rightarrow> FilterLimits \<Rightarrow> nat
   \<Rightarrow> (FilterName \<Rightarrow> bool) \<Rightarrow> Timestamp \<Rightarrow> bool \<Rightarrow> incoming \<Rightarrow> 'c IncomingTask \<Rightarrow> 'c IncomingTask option" where
  "incoming_step X S show limits instant uniq now loop_alive message t =
     (case message of
        IncomingRequest request \<Rightarrow> do {
          (result, names) \<leftarrow> Filter_new X request limits (try_clean instant uniq (in_filter_names t));
          let t1 = t\<lparr>in_filter_names := names\<rparr>;
          let refuse = (\<lambda>error.
            (case la_send S (Inl (invalid_argument (''failed to create filter: '' @ error))) (in_stream t1) of
               (True, la) \<Rightarrow> t1\<lparr>in_stream := la\<rparr>
             | (False, la) \<Rightarrow> t1\<lparr>in_stream := la, in_client_tx := in_client_tx t1 @ [None]\<rparr>));
          Some (case result of
            Inl e \<Rightarrow> refuse (show e)
          | Inr F \<Rightarrow>
              (case Filter_get_pong_msg now F of
                 Some msg \<Rightarrow>
                   (case la_send S (Inr msg) (in_stream t1) of
                      (True, la) \<Rightarrow> t1\<lparr>in_stream := la\<rparr>
                    | (False, la) \<Rightarrow>
                        t1\<lparr>in_stream := la, in_client_tx := in_client_tx t1 @ [None], in_running := False\<rparr>)
               | None \<Rightarrow>
                   if loop_alive then t1\<lparr>in_client_tx := in_client_tx t1 @ [Some (sr_from_slot request, F)]\<rparr>
                   else refuse ''channel closed''))
        }
      | IncomingHalfClosed \<Rightarrow> Some (t\<lparr>in_running := False\<rparr>)
      | IncomingError \<Rightarrow> Some (t\<lparr>in_client_tx := in_client_tx t @ [None], in_running := False\<rparr>))"

text \<open>A tick of the ping task: a failed send cancels the session.\<close>

definition ping_tick ::
  "(Status + FilteredUpdate, 'c) mpsc_sender \<Rightarrow> Timestamp \<Rightarrow> 'c LoadAwareSender \<Rightarrow> bool \<times> 'c LoadAwareSender" where
  "ping_tick S now la =
     (case la_send S (Inr (FilteredUpdate_new_empty now FPing)) la of (ok, la1) \<Rightarrow> (\<not> ok, la1))"

section \<open>The client loop\<close>

datatype session_phase = AwaitFilter | SnapshotData | Live | Ended

text \<open>\<open>ss_client_rx\<close> receives from the request task, \<open>ss_snapshot_rx\<close> the accounts of the startup.\<close>

record ('c, 'r, 'f, 's) ClientSession =
  ss_phase :: session_phase
  ss_filter :: Filter
  ss_commitment :: CommitmentLevel
  ss_messages_rx :: "'r option"
  ss_stream :: "'c LoadAwareSender"
  ss_client_rx :: 'f
  ss_snapshot_rx :: 's
  ss_disconnect_reason :: string
  ss_farewell :: "Status option"

definition ClientSession_new :: "'c LoadAwareSender \<Rightarrow> 'f \<Rightarrow> 's \<Rightarrow> ('c, 'r, 'f, 's) ClientSession" where
  "ClientSession_new stream client_rx snapshot_rx =
     \<lparr>ss_phase = AwaitFilter, ss_filter = Filter_default, ss_commitment = Processed, ss_messages_rx = None,
      ss_stream = stream, ss_client_rx = client_rx, ss_snapshot_rx = snapshot_rx,
      ss_disconnect_reason = ''unknown'', ss_farewell = None\<rparr>"

definition unavailable :: Status where
  "unavailable = \<lparr>stat_code = Unavailable, stat_message = ''server is shutting down try again later'',
     stat_transport = False\<rparr>"

definition out_of_range :: "string \<Rightarrow> Status" where
  "out_of_range msg = \<lparr>stat_code = OutOfRange, stat_message = msg, stat_transport = False\<rparr>"

definition end_session :: "string \<Rightarrow> Status option \<Rightarrow> ('c, 'r, 'f, 's) ClientSession \<Rightarrow> ('c, 'r, 'f, 's) ClientSession" where
  "end_session reason farewell s = s\<lparr>ss_phase := Ended, ss_disconnect_reason := reason, ss_farewell := farewell\<rparr>"

text \<open>Entering the live loop: the commitment of the filter, and a fresh receiver.\<close>

definition go_live ::
  "(Message list, 'q, 'r, 'w) tokio \<Rightarrow> 'q SubscriberChannels \<Rightarrow> ('c, 'r, 'f, 's) ClientSession \<Rightarrow> ('c, 'r, 'f, 's) ClientSession" where
  "go_live T ch s =
     (let c = f_commitment (ss_filter s) in
      s\<lparr>ss_phase := Live, ss_commitment := c, ss_messages_rx := Some (channels_subscribe T c ch)\<rparr>)"

definition client_loop_start ::
  "(Message list, 'q, 'r, 'w) tokio \<Rightarrow> 'q SubscriberChannels \<Rightarrow> bool \<Rightarrow> ('c, 'r, 'f, 's) ClientSession
   \<Rightarrow> ('c, 'r, 'f, 's) ClientSession" where
  "client_loop_start T ch snapshot s = (if snapshot then s\<lparr>ss_phase := AwaitFilter\<rparr> else go_live T ch s)"

text \<open>The drain to the latest filter: \<open>None\<close> inside when the channel turns out to be disconnected; the outer
  \<open>None\<close> is a drain that never ends.\<close>

partial_function (option) forward_to_latest ::
  "('m, 'f) mpsc_receiver \<Rightarrow> 'f \<Rightarrow> 'm option \<Rightarrow> ('m option \<times> 'f) option" where
  "forward_to_latest R rx message =
     (case mp_try_recv R rx of
        (TryItem m, rx1) \<Rightarrow> forward_to_latest R rx1 (Some m)
      | (TryEmpty, rx1) \<Rightarrow> Some (message, rx1)
      | (TryDisconnected, rx1) \<Rightarrow> Some (None, rx1))"

declare forward_to_latest.simps [code]

text \<open>Sending the updates of replayed messages, waiting for room; the flag says that the client is still there.\<close>

fun send_updates :: "(Status + FilteredUpdate, 'c) mpsc_sender \<Rightarrow> FilteredUpdate list \<Rightarrow> 'c LoadAwareSender
  \<Rightarrow> bool \<times> 'c LoadAwareSender" where
  "send_updates S [] la = (True, la)"
| "send_updates S (u # us) la =
     (case la_send S (Inr u) la of
        (True, la1) \<Rightarrow> send_updates S us la1
      | (False, la1) \<Rightarrow> (False, la1))"

fun send_messages :: "externs \<Rightarrow> (Status + FilteredUpdate, 'c) mpsc_sender \<Rightarrow> Filter \<Rightarrow> CommitmentLevel option
  \<Rightarrow> Message list \<Rightarrow> 'c LoadAwareSender \<Rightarrow> (bool \<times> 'c LoadAwareSender) option" where
  "send_messages X S F commitment [] la = Some (True, la)"
| "send_messages X S F commitment (m # ms) la =
     do {
       (us, _) \<leftarrow> Filter_get_updates X F m commitment;
       (case send_updates S us la of
          (True, la1) \<Rightarrow> send_messages X S F commitment ms la1
        | (False, la1) \<Rightarrow> Some (False, la1))
     }"

text \<open>Sending live updates, which never wait.\<close>

fun try_send_updates :: "(Status + FilteredUpdate, 'c) mpsc_sender \<Rightarrow> FilteredUpdate list \<Rightarrow> 'c LoadAwareSender
  \<Rightarrow> send_outcome \<times> 'c LoadAwareSender" where
  "try_send_updates S [] la = (Sent, la)"
| "try_send_updates S (u # us) la =
     (case la_try_send S (Inr u) la of
        (Sent, la1) \<Rightarrow> try_send_updates S us la1
      | (outcome, la1) \<Rightarrow> (outcome, la1))"

fun try_send_messages :: "externs \<Rightarrow> (Status + FilteredUpdate, 'c) mpsc_sender \<Rightarrow> Filter \<Rightarrow> CommitmentLevel option
  \<Rightarrow> Message list \<Rightarrow> 'c LoadAwareSender \<Rightarrow> (send_outcome \<times> 'c LoadAwareSender) option" where
  "try_send_messages X S F commitment [] la = Some (Sent, la)"
| "try_send_messages X S F commitment (m # ms) la =
     do {
       (us, _) \<leftarrow> Filter_get_updates X F m commitment;
       (case try_send_updates S us la of
          (Sent, la1) \<Rightarrow> try_send_messages X S F commitment ms la1
        | (outcome, la1) \<Rightarrow> Some (outcome, la1))
     }"

text \<open>What the replay service does with a request of the session.\<close>

datatype replay_service = ReplayUnsupported | ReplaySendFailed | ReplayDropped | ReplayAnswer ReplayedResponse

definition replay_service_of :: "ReplayedResponse option \<Rightarrow> replay_service" where
  "replay_service_of answer = (case answer of None \<Rightarrow> ReplayDropped | Some r \<Rightarrow> ReplayAnswer r)"

definition lagged_message :: "(u64 \<Rightarrow> string) \<Rightarrow> u64 \<Rightarrow> u64 \<Rightarrow> string" where
  "lagged_message show_slot from_slot slot =
     ''broadcast from '' @ show_slot from_slot @ '' is not available, last available: '' @ show_slot slot"

definition on_replay ::
  "externs \<Rightarrow> (Status + FilteredUpdate, 'c) mpsc_sender \<Rightarrow> (u64 \<Rightarrow> string) \<Rightarrow> replay_service \<Rightarrow> u64
   \<Rightarrow> ('c, 'r, 'f, 's) ClientSession \<Rightarrow> ('c, 'r, 'f, 's) ClientSession option" where
  "on_replay X S show_slot service from_slot s =
     (case service of
        ReplayUnsupported \<Rightarrow> Some (end_session ''from_slot_unsupported'' (Some (Status_internal ''from_slot is not supported'')) s)
      | ReplaySendFailed \<Rightarrow> Some (end_session ''replay_error'' (Some (Status_internal ''failed to send from_slot request'')) s)
      | ReplayDropped \<Rightarrow> Some (end_session ''replay_error'' (Some (Status_internal ''failed to get replay response'')) s)
      | ReplayAnswer (ReplayLagged slot) \<Rightarrow>
          Some (end_session ''slot_unavailable'' (Some (out_of_range (lagged_message show_slot from_slot slot))) s)
      | ReplayAnswer (ReplayMessages batch) \<Rightarrow> do {
          (ok, la) \<leftarrow> send_messages X S (ss_filter s) (Some (ss_commitment s))
                        (concat (map (\<lambda>m. response_items m 0) batch)) (ss_stream s);
          let s1 = s\<lparr>ss_stream := la\<rparr>;
          Some (if ok then s1 else end_session ''client_closed'' None s1)
        })"

text \<open>\<open>service\<close> answers a request for a commitment and a slot.\<close>

definition on_filter ::
  "externs \<Rightarrow> (Message list, 'q, 'r, 'w) tokio \<Rightarrow> (Status + FilteredUpdate, 'c) mpsc_sender \<Rightarrow> (u64 \<Rightarrow> string)
   \<Rightarrow> (CommitmentLevel \<Rightarrow> u64 \<Rightarrow> replay_service) \<Rightarrow> 'q SubscriberChannels \<Rightarrow> u64 option \<Rightarrow> Filter
   \<Rightarrow> ('c, 'r, 'f, 's) ClientSession \<Rightarrow> ('c, 'r, 'f, 's) ClientSession option" where
  "on_filter X T S show_slot service ch from_slot F s =
     (let s1 = s\<lparr>ss_filter := F\<rparr>;
          c = f_commitment F;
          s2 = (if c \<noteq> ss_commitment s1
                then s1\<lparr>ss_commitment := c, ss_messages_rx := Some (channels_subscribe T c ch)\<rparr> else s1)
      in case from_slot of
           None \<Rightarrow> Some s2
         | Some slot \<Rightarrow> on_replay X S show_slot (service (ss_commitment s2) slot) slot s2)"

definition on_broadcast ::
  "externs \<Rightarrow> (Status + FilteredUpdate, 'c) mpsc_sender \<Rightarrow> Message list received
   \<Rightarrow> ('c, 'r, 'f, 's) ClientSession \<Rightarrow> ('c, 'r, 'f, 's) ClientSession option" where
  "on_broadcast X S message s =
     (case message of
        Disconnected \<Rightarrow> Some (end_session ''broadcast_closed'' None s)
      | Lagged _ \<Rightarrow>
          Some (end_session ''client_broadcast_lag'' (Some (Status_internal ''lagged to receive geyser messages'')) s)
      | Received messages \<Rightarrow> do {
          (outcome, la) \<leftarrow> try_send_messages X S (ss_filter s) (Some (ss_commitment s)) messages (ss_stream s);
          let s1 = s\<lparr>ss_stream := la\<rparr>;
          Some (case outcome of
            Sent \<Rightarrow> s1
          | QueueFull \<Rightarrow> end_session ''client_channel_full'' (Some (Status_internal ''lagged to send an update'')) s1
          | QueueClosed \<Rightarrow> end_session ''client_closed'' None s1)
        })"

text \<open>The branches of \<open>select!\<close>: a branch that is not ready leaves the session as it is.\<close>

datatype branch = CancelBranch | FilterBranch | MessageBranch

definition live_step ::
  "externs \<Rightarrow> (Message list, 'q, 'r, 'w) tokio \<Rightarrow> (Status + FilteredUpdate, 'c) mpsc_sender
   \<Rightarrow> (client_message, 'f) mpsc_receiver \<Rightarrow> (u64 \<Rightarrow> string) \<Rightarrow> (CommitmentLevel \<Rightarrow> u64 \<Rightarrow> replay_service)
   \<Rightarrow> 'q SubscriberChannels \<Rightarrow> branch \<Rightarrow> ('c, 'r, 'f, 's) ClientSession \<Rightarrow> ('c, 'r, 'f, 's) ClientSession option" where
  "live_step X T S R show_slot service ch b s =
     (case b of
        CancelBranch \<Rightarrow>
          (case la_try_send S (Inl unavailable) (ss_stream s) of
             (_, la) \<Rightarrow> Some (end_session ''server_shutdown'' None (s\<lparr>ss_stream := la\<rparr>)))
      | FilterBranch \<Rightarrow>
          (case mp_poll_recv R (ss_client_rx s) of
             (Pending, rx) \<Rightarrow> Some (s\<lparr>ss_client_rx := rx\<rparr>)
           | (Ready message, rx) \<Rightarrow> do {
               (latest, rx1) \<leftarrow> forward_to_latest R rx message;
               let s1 = s\<lparr>ss_client_rx := rx1\<rparr>;
               (case latest of
                  Some (Some (from_slot, F)) \<Rightarrow> on_filter X T S show_slot service ch from_slot F s1
                | _ \<Rightarrow> Some (end_session ''client_disconnect'' None s1))
             })
      | MessageBranch \<Rightarrow>
          (case ss_messages_rx s of
             None \<Rightarrow> Some s
           | Some rx \<Rightarrow>
               (case tk_recv T (sender (ss_commitment s) ch) rx of
                  None \<Rightarrow> Some s
                | Some (message, rx1) \<Rightarrow> on_broadcast X S message (s\<lparr>ss_messages_rx := Some rx1\<rparr>))))"

section \<open>The snapshot phase\<close>

text \<open>Waiting for the first filter that is not a ping.\<close>

definition snapshot_filter_step ::
  "(Status + FilteredUpdate, 'c) mpsc_sender \<Rightarrow> (client_message, 'f) mpsc_receiver \<Rightarrow> Timestamp \<Rightarrow> bool
   \<Rightarrow> ('c, 'r, 'f, 's) ClientSession \<Rightarrow> ('c, 'r, 'f, 's) ClientSession" where
  "snapshot_filter_step S R now cancelled s =
     (if cancelled then
        (case la_try_send S (Inl (Status_internal ''server is shutting down try again later'')) (ss_stream s) of
           (_, la) \<Rightarrow> end_session ''server_shutdown'' None (s\<lparr>ss_stream := la\<rparr>))
      else
        case mp_poll_recv R (ss_client_rx s) of
          (Pending, rx) \<Rightarrow> s\<lparr>ss_client_rx := rx\<rparr>
        | (Ready (Some (Some (_, F))), rx) \<Rightarrow>
            (case Filter_get_pong_msg now F of
               Some msg \<Rightarrow>
                 (case la_send S (Inr msg) (ss_stream s) of
                    (True, la) \<Rightarrow> s\<lparr>ss_client_rx := rx, ss_stream := la\<rparr>
                  | (False, la) \<Rightarrow> end_session ''client_closed'' None (s\<lparr>ss_client_rx := rx, ss_stream := la\<rparr>))
             | None \<Rightarrow> s\<lparr>ss_client_rx := rx, ss_filter := F, ss_phase := SnapshotData\<rparr>)
        | (Ready _, rx) \<Rightarrow> end_session ''client_closed'' None (s\<lparr>ss_client_rx := rx\<rparr>))"

text \<open>Sending the startup accounts; when their channel is disconnected the startup is over and the session goes
  live.\<close>

definition snapshot_data_step ::
  "externs \<Rightarrow> (Message list, 'q, 'r, 'w) tokio \<Rightarrow> (Status + FilteredUpdate, 'c) mpsc_sender
   \<Rightarrow> (Message, 's) mpsc_receiver \<Rightarrow> 'q SubscriberChannels \<Rightarrow> bool
   \<Rightarrow> ('c, 'r, 'f, 's) ClientSession \<Rightarrow> ('c, 'r, 'f, 's) ClientSession option" where
  "snapshot_data_step X T S M ch cancelled s =
     (if cancelled then
        (case la_try_send S (Inl (Status_internal ''server is shutting down try again later'')) (ss_stream s) of
           (_, la) \<Rightarrow> Some (end_session ''server_shutdown'' None (s\<lparr>ss_stream := la\<rparr>)))
      else
        case mp_try_recv M (ss_snapshot_rx s) of
          (TryEmpty, rx) \<Rightarrow> Some (s\<lparr>ss_snapshot_rx := rx\<rparr>)
        | (TryDisconnected, rx) \<Rightarrow> Some (go_live T ch (s\<lparr>ss_snapshot_rx := rx\<rparr>))
        | (TryItem m, rx) \<Rightarrow> do {
            (us, _) \<leftarrow> Filter_get_updates X (ss_filter s) m None;
            (case send_updates S us (ss_stream s) of
               (True, la) \<Rightarrow> Some (s\<lparr>ss_snapshot_rx := rx, ss_stream := la\<rparr>)
             | (False, la) \<Rightarrow> Some (end_session ''client_closed'' None (s\<lparr>ss_snapshot_rx := rx, ss_stream := la\<rparr>)))
          })"

text \<open>One step of a session in any phase.\<close>

definition session_step ::
  "externs \<Rightarrow> (Message list, 'q, 'r, 'w) tokio \<Rightarrow> (Status + FilteredUpdate, 'c) mpsc_sender
   \<Rightarrow> (client_message, 'f) mpsc_receiver \<Rightarrow> (Message, 's) mpsc_receiver \<Rightarrow> (u64 \<Rightarrow> string)
   \<Rightarrow> (CommitmentLevel \<Rightarrow> u64 \<Rightarrow> replay_service) \<Rightarrow> Timestamp \<Rightarrow> 'q SubscriberChannels \<Rightarrow> branch
   \<Rightarrow> ('c, 'r, 'f, 's) ClientSession \<Rightarrow> ('c, 'r, 'f, 's) ClientSession option" where
  "session_step X T S R M show_slot service now ch b s =
     (case ss_phase s of
        AwaitFilter \<Rightarrow> Some (snapshot_filter_step S R now (b = CancelBranch) s)
      | SnapshotData \<Rightarrow> snapshot_data_step X T S M ch (b = CancelBranch) s
      | Live \<Rightarrow> live_step X T S R show_slot service ch b s
      | Ended \<Rightarrow> Some s)"

section \<open>The deshred loop\<close>

record ('c, 'r, 'f) DeshredClientSession =
  ds_filter :: DeshredFilter
  ds_messages_rx :: 'r
  ds_stream :: "'c LoadAwareSender"
  ds_client_rx :: 'f
  ds_ended :: bool
  ds_disconnect_reason :: string
  ds_farewell :: "Status option"

definition end_deshred :: "string \<Rightarrow> Status option \<Rightarrow> ('c, 'r, 'f) DeshredClientSession \<Rightarrow> ('c, 'r, 'f) DeshredClientSession" where
  "end_deshred reason farewell s = s\<lparr>ds_ended := True, ds_disconnect_reason := reason, ds_farewell := farewell\<rparr>"

fun try_send_deshred :: "(Status + FilteredUpdateDeshred, 'c) mpsc_sender \<Rightarrow> FilteredUpdateDeshred list
  \<Rightarrow> 'c LoadAwareSender \<Rightarrow> send_outcome \<times> 'c LoadAwareSender" where
  "try_send_deshred S [] la = (Sent, la)"
| "try_send_deshred S (u # us) la =
     (case la_try_send S (Inr u) la of
        (Sent, la1) \<Rightarrow> try_send_deshred S us la1
      | (outcome, la1) \<Rightarrow> (outcome, la1))"

definition deshred_step ::
  "(Message, 'q, 'r, 'w) tokio \<Rightarrow> (Status + FilteredUpdateDeshred, 'c) mpsc_sender
   \<Rightarrow> (DeshredFilter option, 'f) mpsc_receiver \<Rightarrow> 'q \<Rightarrow> branch
   \<Rightarrow> ('c, 'r, 'f) DeshredClientSession \<Rightarrow> ('c, 'r, 'f) DeshredClientSession option" where
  "deshred_step T S R q b s =
     (case b of
        CancelBranch \<Rightarrow>
          (case la_try_send S (Inl unavailable) (ds_stream s) of
             (_, la) \<Rightarrow> Some (end_deshred ''server_shutdown'' None (s\<lparr>ds_stream := la\<rparr>)))
      | FilterBranch \<Rightarrow>
          (case mp_poll_recv R (ds_client_rx s) of
             (Pending, rx) \<Rightarrow> Some (s\<lparr>ds_client_rx := rx\<rparr>)
           | (Ready message, rx) \<Rightarrow> do {
               (latest, rx1) \<leftarrow> forward_to_latest R rx message;
               let s1 = s\<lparr>ds_client_rx := rx1\<rparr>;
               Some (case latest of
                  Some (Some F) \<Rightarrow> s1\<lparr>ds_filter := F\<rparr>
                | _ \<Rightarrow> end_deshred ''client_disconnect'' None s1)
             })
      | MessageBranch \<Rightarrow>
          (case tk_recv T q (ds_messages_rx s) of
             None \<Rightarrow> Some s
           | Some (message, rx) \<Rightarrow>
               (let s1 = s\<lparr>ds_messages_rx := rx\<rparr> in
                Some (case message of
                  Disconnected \<Rightarrow> end_deshred ''broadcast_closed'' None s1
                | Lagged _ \<Rightarrow>
                    end_deshred ''client_broadcast_lag''
                      (Some (Status_internal ''lagged to receive deshred messages'')) s1
                | Received m \<Rightarrow>
                    (case try_send_deshred S (DeshredFilter_get_updates (ds_filter s1) m None) (ds_stream s1) of
                       (outcome, la) \<Rightarrow>
                         (let s2 = s1\<lparr>ds_stream := la\<rparr> in
                          case outcome of
                            Sent \<Rightarrow> s2
                          | QueueFull \<Rightarrow>
                              end_deshred ''client_channel_full'' (Some (Status_internal ''lagged to send an update'')) s2
                          | QueueClosed \<Rightarrow> end_deshred ''client_closed'' None s2))))))"

end
