(* ===== verification/Block_Claims.thy ===== *)
theory Block_Claims
  imports Block_Reconstruction
begin

text \<open>
  What block reconstruction promises: an invariant of the storage that every message preserves, what a
  frozen block holds, what a replay yields, and that garbage collection keeps the blocks within their
  capacity.
\<close>

section \<open>The sorted map\<close>

abbreviation sorted_map :: "'v btree \<Rightarrow> bool" where
  "sorted_map m \<equiv> sorted_wrt (<) (map fst m)"

lemma bt_insert_keys: "fst ` set (bt_insert k v m) = insert k (fst ` set m)"
  by (induction k v m rule: bt_insert.induct) auto

lemma bt_insert_sorted: "sorted_map m \<Longrightarrow> sorted_map (bt_insert k v m)"
proof (induction k v m rule: bt_insert.induct)
  case (2 k v k' v' m)
  have keys: "set (map fst (bt_insert k v m)) = insert k (set (map fst m))" using bt_insert_keys by simp
  from 2 show ?case by (auto simp: keys simp del: set_map)
qed simp

lemma bt_insert_set: "set (bt_insert k v m) \<subseteq> insert (k, v) (set m)"
  by (induction k v m rule: bt_insert.induct) auto

lemma bt_remove_sorted: "sorted_map m \<Longrightarrow> sorted_map (bt_remove k m)"
  unfolding bt_remove_def by (induction m) auto

lemma sorted_map_distinct: "sorted_map m \<Longrightarrow> distinct (map fst m)"
  by (simp add: strict_sorted_iff)

lemma bt_insert_first:
  assumes "sorted_map m"
  shows "fst (hd (bt_insert k v m)) = (case m of [] \<Rightarrow> k | (k', _) # _ \<Rightarrow> min k' k)"
  using assms by (cases m) (auto simp: min_def not_less)

section \<open>The invariant\<close>

definition first_slot :: "'v btree \<Rightarrow> u64 option" where
  "first_slot m = (case m of [] \<Rightarrow> None | (k, _) # _ \<Rightarrow> Some k)"

definition progression_ok :: "u64 \<Rightarrow> SlotProgression \<Rightarrow> bool" where
  "progression_ok slot p \<longleftrightarrow>
     distinct (map cu_commitment (sp_commitment p)) \<and> sp_max_commitment p \<in> cu_commitment ` set (sp_commitment p) \<and>
     (\<forall>u \<in> set (sp_commitment p). cu_slot u = slot \<and> cu_commitment u \<le> sp_max_commitment p)"

definition finalized_slots :: "(u64 \<rightharpoonup> SlotProgression) \<Rightarrow> u64 set" where
  "finalized_slots prog = {k. \<exists>p. prog k = Some p \<and> sp_max_commitment p = Finalized}"

abbreviation block_slot :: "FrozenBlock \<Rightarrow> u64" where
  "block_slot b \<equiv> um_slot (bm_block_meta (fz_block_meta b))"

definition core_inv :: "'b BlockMachineStorage \<Rightarrow> bool" where
  "core_inv s \<longleftrightarrow>
     sorted_map (st_replayed_slot s) \<and>
     finite (dom (st_slot_commitment_progression_map s)) \<and>
     st_num_buffered_finalized_slot s = card (finalized_slots (st_slot_commitment_progression_map s)) \<and>
     (\<forall>k p. st_slot_commitment_progression_map s k = Some p \<longrightarrow> progression_ok k p) \<and>
     (\<forall>k p m. st_processing_slots s k = Some p \<longrightarrow> ps_blockmeta p = Some m \<longrightarrow> um_slot (bm_block_meta m) = k) \<and>
     (\<forall>(k, b) \<in> set (st_replayed_slot s). block_slot b = k) \<and>
     (\<forall>(u, b) \<in> set (st_ready_queue s). block_slot b = cu_slot u)"

definition storage_inv :: "'b BlockMachineStorage \<Rightarrow> bool" where
  "storage_inv s \<longleftrightarrow> core_inv s \<and> st_min_slot s = first_slot (st_replayed_slot s)"

lemma finite_finalized: "finite (dom prog) \<Longrightarrow> finite (finalized_slots prog)"
  by (rule finite_subset [of _ "dom prog"]) (auto simp: finalized_slots_def)

lemma refresh_inv: "core_inv s \<Longrightarrow> storage_inv (refresh_min_slot s)"
  by (simp add: storage_inv_def core_inv_def refresh_min_slot_def first_slot_def)

lemma finalized_remove:
  assumes "finite (dom prog)"
  shows "card (finalized_slots (prog(k := None))) =
    (case prog k of Some p \<Rightarrow> if sp_max_commitment p = Finalized then card (finalized_slots prog) - 1
                             else card (finalized_slots prog)
     | None \<Rightarrow> card (finalized_slots prog))"
proof -
  have "finalized_slots (prog(k := None)) = finalized_slots prog - {k}" by (auto simp: finalized_slots_def)
  moreover have "k \<in> finalized_slots prog \<longleftrightarrow> (\<exists>p. prog k = Some p \<and> sp_max_commitment p = Finalized)"
    by (simp add: finalized_slots_def)
  ultimately show ?thesis by (cases "prog k") (auto simp: card_Diff_singleton_if)
qed

lemma prune_core:
  assumes "core_inv s"
  shows "core_inv (prune_slot k False s)"
proof -
  have fin: "finite (dom (st_slot_commitment_progression_map s))" using assms by (simp add: core_inv_def)
  show ?thesis
    using assms finalized_remove [OF fin, of k] bt_remove_sorted [of "st_replayed_slot s" k]
    by (auto simp: core_inv_def prune_slot_def Let_def bt_remove_def split: option.splits if_splits)
qed

lemma prune_slot_inv: "core_inv s \<Longrightarrow> storage_inv (prune_slot k True s)"
  using refresh_inv [OF prune_core, of s k] by (simp add: prune_slot_def Let_def)

lemma slot_reset_inv: "core_inv s \<Longrightarrow> storage_inv (slot_reset k s)"
  using prune_slot_inv [of s k] by (auto simp: slot_reset_def storage_inv_def core_inv_def Let_def)

lemma gc_loop_core: "core_inv s \<Longrightarrow> core_inv (gc_loop s)"
proof (induction s rule: gc_loop.induct)
  case (1 s)
  show ?case
  proof (cases "st_replayed_slot s")
    case (Cons kv rest)
    obtain k b where "kv = (k, b)" by (cases kv)
    with 1 Cons prune_core [of s k] show ?thesis by (subst gc_loop.simps) auto
  qed (use 1 in \<open>subst gc_loop.simps, simp\<close>)
qed

lemma gc_inv: "core_inv s \<Longrightarrow> storage_inv (st_gc B s)"
  using refresh_inv [OF gc_loop_core, of s] by (simp add: st_gc_def Let_def storage_inv_def core_inv_def)


text \<open>The machine's state is not part of the invariant.\<close>

lemma inv_state [simp]: "storage_inv (s\<lparr>st_state := m\<rparr>) = storage_inv s"
  by (simp add: storage_inv_def core_inv_def)

lemma inv_core: "storage_inv s \<Longrightarrow> core_inv s"
  by (simp add: storage_inv_def)

lemma inv_processing:
  assumes "storage_inv s" and "\<And>m. ps_blockmeta p = Some m \<Longrightarrow> um_slot (bm_block_meta m) = k"
  shows "storage_inv (s\<lparr>st_processing_slots := (st_processing_slots s)(k \<mapsto> p)\<rparr>)"
  using assms by (auto simp: storage_inv_def core_inv_def)

lemma processing_meta:
  "storage_inv s \<Longrightarrow> st_processing_slots s k = Some p \<Longrightarrow> ps_blockmeta p = Some m \<Longrightarrow> um_slot (bm_block_meta m) = k"
  by (auto simp: storage_inv_def core_inv_def)

lemma finalized_update:
  assumes "finite (dom prog)"
  shows "card (finalized_slots (prog(k \<mapsto> p))) =
    (if sp_max_commitment p = Finalized \<and> k \<notin> finalized_slots prog then card (finalized_slots prog) + 1
     else if sp_max_commitment p \<noteq> Finalized \<and> k \<in> finalized_slots prog then card (finalized_slots prog) - 1
     else card (finalized_slots prog))"
proof -
  have "finalized_slots (prog(k \<mapsto> p)) =
    (if sp_max_commitment p = Finalized then insert k (finalized_slots prog) else finalized_slots prog - {k})"
    by (auto simp: finalized_slots_def)
  then show ?thesis
    using finite_finalized [OF assms] by (auto simp: card_Diff_singleton_if insert_absorb)
qed

lemma finalized_top [simp]: "c \<le> Finalized" "Finalized \<le> c \<longleftrightarrow> c = Finalized" "\<not> Finalized < c"
  by (cases c; simp add: less_eq_CommitmentLevel_def less_CommitmentLevel_def rank_commitment_def)+

text \<open>A status that repeats a known commitment leaves the progression as it is; a new one is appended
  and the maximum follows.\<close>

lemma progress_known:
  assumes "progression_ok (cu_slot u) q" and "cu_commitment u \<in> cu_commitment ` set (sp_commitment q)"
  shows "progress u (Some q) n = (q, n)"
  using assms by (fastforce simp: progress_def Let_def list_ex_iff progression_ok_def not_less)

lemma progress_new:
  assumes "cu_commitment u \<notin> cu_commitment ` set (sp_commitment q)"
  shows "progress u (Some q) n =
    (\<lparr>sp_commitment = sp_commitment q @ [u], sp_max_commitment = max (sp_max_commitment q) (cu_commitment u)\<rparr>,
     if cu_commitment u = Finalized then n + 1 else n)"
proof -
  have "\<not> list_ex (\<lambda>s. cu_commitment s = cu_commitment u) (sp_commitment q)"
    using assms by (auto simp: list_ex_iff image_iff)
  then show ?thesis by (cases q) (auto simp: progress_def Let_def max_def not_less)
qed

lemma progress_ok:
  assumes "\<And>q. old = Some q \<Longrightarrow> progression_ok (cu_slot u) q"
  shows "progression_ok (cu_slot u) (fst (progress u old n))"
proof (cases old)
  case None
  then show ?thesis by (simp add: progress_def progression_ok_def)
next
  case (Some q)
  with assms have ok: "progression_ok (cu_slot u) q" by simp
  show ?thesis
  proof (cases "cu_commitment u \<in> cu_commitment ` set (sp_commitment q)")
    case True
    then show ?thesis using Some ok progress_known by simp
  next
    case False
    then show ?thesis using Some ok
      by (auto simp: progress_new progression_ok_def max_def image_iff intro: order_trans)
  qed
qed

lemma progress_count:
  assumes "\<And>q. old = Some q \<Longrightarrow> progression_ok (cu_slot u) q"
  shows "snd (progress u old n) =
      (if sp_max_commitment (fst (progress u old n)) = Finalized \<and>
          (\<forall>q. old = Some q \<longrightarrow> sp_max_commitment q \<noteq> Finalized) then n + 1 else n) \<and>
    (\<forall>q. old = Some q \<longrightarrow> sp_max_commitment q = Finalized \<longrightarrow>
      sp_max_commitment (fst (progress u old n)) = Finalized)"
proof (cases old)
  case None
  then show ?thesis by (simp add: progress_def)
next
  case (Some q)
  with assms have ok: "progression_ok (cu_slot u) q" by simp
  show ?thesis
  proof (cases "cu_commitment u \<in> cu_commitment ` set (sp_commitment q)")
    case True
    then show ?thesis using Some ok progress_known by simp
  next
    case False
    then have "sp_max_commitment q = Finalized \<Longrightarrow> cu_commitment u \<noteq> Finalized"
      using ok by (metis progression_ok_def)
    then show ?thesis using Some False by (auto simp: progress_new max_def split: if_splits)
  qed
qed

lemma status_core:
  assumes inv: "storage_inv s" and pn: "progress u (st_slot_commitment_progression_map s (cu_slot u))
    (st_num_buffered_finalized_slot s) = (p, n)"
  shows "storage_inv (s\<lparr>st_slot_commitment_progression_map := (st_slot_commitment_progression_map s)(cu_slot u \<mapsto> p),
    st_num_buffered_finalized_slot := n\<rparr>)"
proof -
  let ?prog = "st_slot_commitment_progression_map s"
  have ok: "progression_ok (cu_slot u) q" if "?prog (cu_slot u) = Some q" for q
    using inv that by (auto simp: storage_inv_def core_inv_def)
  have fin: "finite (dom ?prog)" and num: "st_num_buffered_finalized_slot s = card (finalized_slots ?prog)"
    using inv by (simp_all add: storage_inv_def core_inv_def)
  have k: "cu_slot u \<in> finalized_slots ?prog \<longleftrightarrow>
    \<not> (\<forall>q. ?prog (cu_slot u) = Some q \<longrightarrow> sp_max_commitment q \<noteq> Finalized)"
    by (auto simp: finalized_slots_def)
  have "n = card (finalized_slots (?prog(cu_slot u \<mapsto> p)))"
    using progress_count [OF ok, of "?prog (cu_slot u)" "st_num_buffered_finalized_slot s", unfolded pn fst_conv snd_conv]
    unfolding finalized_update [OF fin] num k by auto
  moreover have "progression_ok (cu_slot u) p" using progress_ok [OF ok, of "?prog (cu_slot u)" "st_num_buffered_finalized_slot s"] pn by simp
  ultimately show ?thesis using inv by (auto simp: storage_inv_def core_inv_def)
qed

lemma map_of_block: "storage_inv s \<Longrightarrow> map_of (st_replayed_slot s) k = Some b \<Longrightarrow> block_slot b = k"
  by (auto simp: storage_inv_def core_inv_def dest!: map_of_SomeD)

lemma ready_inv:
  "storage_inv s \<Longrightarrow> block_slot b = cu_slot u \<Longrightarrow> storage_inv (s\<lparr>st_ready_queue := st_ready_queue s @ [(u, b)]\<rparr>)"
  by (auto simp: storage_inv_def core_inv_def)

lemma on_slot_status_inv:
  assumes "storage_inv s"
  shows "storage_inv (on_slot_status B u s)"
proof -
  obtain p n where pn: "progress u (st_slot_commitment_progression_map s (cu_slot u))
    (st_num_buffered_finalized_slot s) = (p, n)" by force
  note s1 = status_core [OF assms pn]
  show ?thesis
    using s1 ready_inv [OF s1] map_of_block [OF s1] gc_inv [OF inv_core [OF s1]] gc_inv [OF inv_core [OF ready_inv [OF s1]]]
    by (auto simp: on_slot_status_def Let_def pn split: option.splits)
qed


lemma on_frozen_block_inv:
  assumes inv: "storage_inv s" and run: "on_frozen_block now slot s = Some s'"
  shows "storage_inv s'"
proof (cases "st_processing_slots s slot")
  case None
  with assms show ?thesis by (simp add: on_frozen_block_def)
next
  case (Some p)
  from run Some obtain b where b: "seal now p = Some b"
    and s': "s' = s\<lparr>st_processing_slots := (st_processing_slots s)(slot := None),
      st_min_slot := Some (case st_min_slot s of None \<Rightarrow> slot | Some m \<Rightarrow> min m slot),
      st_replayed_slot := bt_insert slot b (st_replayed_slot s)\<rparr>"
    by (auto simp: on_frozen_block_def split: bind_splits)
  have "block_slot b = slot" using b processing_meta [OF inv Some] by (auto simp: seal_def split: bind_splits)
  moreover have srt: "sorted_map (st_replayed_slot s)" using inv by (simp add: storage_inv_def core_inv_def)
  ultimately have "core_inv s'"
    using inv bt_insert_sorted [OF srt, of slot b] bt_insert_set [of slot b "st_replayed_slot s"]
    by (fastforce simp: storage_inv_def core_inv_def s')
  moreover have "first_slot (bt_insert slot b (st_replayed_slot s)) =
    Some (case first_slot (st_replayed_slot s) of None \<Rightarrow> slot | Some m \<Rightarrow> min m slot)"
    by (cases "st_replayed_slot s") (auto simp: first_slot_def min_def not_less)
  ultimately show ?thesis using inv by (simp add: storage_inv_def s')
qed

lemma output_inv:
  assumes "storage_inv s" and "on_blockmachine_output B now out s = Some s'"
  shows "storage_inv s'"
  using assms on_frozen_block_inv on_slot_status_inv prune_slot_inv slot_reset_inv inv_core
  by (cases out) (fastforce simp: on_blockmachine_output_def)+

lemma drain_inv:
  assumes "drain_outputs B now s = Some s'" and "storage_inv s"
  shows "storage_inv s'"
  using assms
proof (induction rule: drain_outputs.raw_induct [rotated, consumes 1, case_names step])
  case (step drain B now s s')
  show ?case
  proof (cases "km_pop_next B (st_state s)")
    case (Pair out m)
    with step output_inv [of "s\<lparr>st_state := m\<rparr>" B now] show ?thesis
      by (auto split: option.splits bind_splits)
  qed
qed

lemma st_try_seal_inv: "st_try_seal B slot s = Some s' \<Longrightarrow> storage_inv s \<Longrightarrow> storage_inv s'"
  using inv_processing [of s _ slot] processing_meta [of s slot]
  by (fastforce simp: st_try_seal_def ps_try_seal_def Let_def split: option.splits if_splits bind_splits)

lemma add_event_meta [simp]: "ps_blockmeta (add_event m p) = ps_blockmeta p"
  by (simp add: add_event_def Let_def split: Message.splits)

lemma handle_message_inv:
  assumes "handle_message B m s = Some s'" and inv: "storage_inv s"
  shows "storage_inv s'"
proof -
  have data: "storage_inv s'" if run: "handle_block_data B m s = Some s'"
  proof -
    define p where "p = (case st_processing_slots s (get_slot m) of None \<Rightarrow> ProcessingSlot_default | Some p \<Rightarrow> p)"
    have "ps_blockmeta p = Some x \<Longrightarrow> um_slot (bm_block_meta x) = get_slot m" for x
      using processing_meta [OF inv] by (auto simp: p_def ProcessingSlot_default_def split: option.splits)
    then have "storage_inv (s\<lparr>st_processing_slots := (st_processing_slots s)(get_slot m \<mapsto> add_event m p)\<rparr>)"
      by (intro inv_processing [OF inv]) simp
    with run inv st_try_seal_inv show ?thesis
      by (auto simp: handle_block_data_def Let_def p_def [symmetric] split: if_splits)
  qed
  have meta: "storage_inv s'" if run: "handle_block_meta B x s = Some s'" for x
    using run inv st_try_seal_inv inv_processing [OF inv, of "p\<lparr>ps_blockmeta := Some x\<rparr>" "um_slot (bm_block_meta x)" for p]
    by (fastforce simp: handle_block_meta_def Let_def split: option.splits)
  have slot: "storage_inv (snd (on_message_slot B u s))" for u
    using inv by (auto simp: on_message_slot_def Let_def split: SlotStatus.splits prod.splits)
  show ?thesis
    using assms data meta slot by (auto simp: handle_message_def split: Message.splits)
qed

lemma add_inv: "add B now m s = Some s' \<Longrightarrow> storage_inv s \<Longrightarrow> storage_inv s'"
  using handle_message_inv drain_inv by (fastforce simp: add_def split: bind_splits)


lemma pop_inv: "storage_inv s \<Longrightarrow> storage_inv (snd (pop_ready_block s))"
  by (cases "st_ready_queue s") (auto simp: pop_ready_block_def storage_inv_def core_inv_def)

lemma new_inv: "storage_inv (BlockMachineStorage_new machine capacity)"
  by (simp add: storage_inv_def core_inv_def BlockMachineStorage_new_def first_slot_def finalized_slots_def)

text \<open>The states of a storage that is fed messages and drained of ready blocks in any order.\<close>

inductive storage_reach :: "'b block_machine \<Rightarrow> 'b BlockMachineStorage \<Rightarrow> bool" for B where
  reach_new: "storage_reach B (BlockMachineStorage_new machine capacity)"
| reach_add: "storage_reach B s \<Longrightarrow> add B now m s = Some s' \<Longrightarrow> storage_reach B s'"
| reach_pop: "storage_reach B s \<Longrightarrow> storage_reach B (snd (pop_ready_block s))"

lemma reach_inv: "storage_reach B s \<Longrightarrow> storage_inv s"
  by (induction rule: storage_reach.induct) (auto simp: new_inv pop_inv intro: add_inv)

lemma first_slot_Min: "sorted_map m \<Longrightarrow> first_slot m = (if m = [] then None else Some (Min (fst ` set m)))"
  by (cases m) (auto simp: first_slot_def intro!: Min_eqI [symmetric])

lemma reach_min_slot:
  "storage_reach B s \<Longrightarrow>
    min_replayable_slot s = (if st_replayed_slot s = [] then None else Some (Min (fst ` set (st_replayed_slot s))))"
  using reach_inv [of B s] by (auto simp: storage_inv_def core_inv_def min_replayable_slot_def first_slot_Min)

section \<open>What a frozen block holds\<close>

definition block_data :: "Message \<Rightarrow> bool" where
  "block_data m = (case m of MAccount _ \<Rightarrow> True | MTransaction _ \<Rightarrow> True | MEntry _ \<Rightarrow> True | _ \<Rightarrow> False)"

lemma block_data_simps [simp]:
  "block_data (MAccount a)" "block_data (MTransaction t)" "block_data (MEntry e)" "\<not> block_data (MSlot x)"
  "\<not> block_data (MDeshredTransaction d)" "\<not> block_data (MBlockMeta y)" "\<not> block_data (MBlock z)"
  by (simp_all add: block_data_def)

definition accounts_of :: "Message list \<Rightarrow> MessageAccount list" where
  "accounts_of ms = List.map_filter (\<lambda>m. case m of MAccount a \<Rightarrow> Some a | _ \<Rightarrow> None) ms"

definition transactions_of :: "Message list \<Rightarrow> MessageTransaction list" where
  "transactions_of ms = List.map_filter (\<lambda>m. case m of MTransaction t \<Rightarrow> Some t | _ \<Rightarrow> None) ms"

definition entries_of :: "Message list \<Rightarrow> MessageEntry list" where
  "entries_of ms = List.map_filter (\<lambda>m. case m of MEntry e \<Rightarrow> Some e | _ \<Rightarrow> None) ms"

lemmas messages_of_defs = accounts_of_def transactions_of_def entries_of_def

lemma messages_of_snoc [simp]:
  "accounts_of (ms @ [m]) = accounts_of ms @ (case m of MAccount a \<Rightarrow> [a] | _ \<Rightarrow> [])"
  "transactions_of (ms @ [m]) = transactions_of ms @ (case m of MTransaction t \<Rightarrow> [t] | _ \<Rightarrow> [])"
  "entries_of (ms @ [m]) = entries_of ms @ (case m of MEntry e \<Rightarrow> [e] | _ \<Rightarrow> [])"
  by (cases m; simp add: messages_of_defs List.map_filter_def)+

abbreviation pubkey_of :: "MessageAccount \<Rightarrow> pubkey" where
  "pubkey_of a \<equiv> ai_pubkey (ac_account a)"

abbreviation version_of :: "MessageAccount \<Rightarrow> u64" where
  "version_of a \<equiv> ai_write_version (ac_account a)"

text \<open>No later write of the same account is among the accounts.\<close>

definition last_write :: "MessageAccount list \<Rightarrow> MessageAccount \<Rightarrow> bool" where
  "last_write as a \<longleftrightarrow> (\<forall>b \<in> set as. pubkey_of b = pubkey_of a \<longrightarrow> version_of b \<le> version_of a)"

definition slot_of_events :: "Message list \<Rightarrow> ProcessingSlot" where
  "slot_of_events ms = fold add_event ms ProcessingSlot_default"

definition versions_ok :: "(pubkey \<rightharpoonup> u64) \<Rightarrow> MessageAccount list \<Rightarrow> bool" where
  "versions_ok versions as \<longleftrightarrow>
     (\<forall>a \<in> set as. \<exists>v. versions (pubkey_of a) = Some v) \<and>
     (\<forall>k v. versions k = Some v \<longrightarrow>
        (\<exists>a \<in> set as. pubkey_of a = k \<and> version_of a = v) \<and>
        (\<forall>a \<in> set as. pubkey_of a = k \<longrightarrow> version_of a \<le> v))"

lemma versions_step:
  assumes "versions_ok versions as"
  shows "versions_ok (versions(pubkey_of a \<mapsto>
      (case versions (pubkey_of a) of Some old \<Rightarrow> if old < version_of a then version_of a else old
       | None \<Rightarrow> version_of a))) (as @ [a])"
  using assms
  by (cases "versions (pubkey_of a)") (fastforce simp: versions_ok_def not_less)+

lemma events_fields:
  "ps_original_messages (slot_of_events ms) = filter block_data ms \<and>
   ps_accounts (slot_of_events ms) = accounts_of ms \<and>
   ps_transactions (slot_of_events ms) = transactions_of ms \<and>
   ps_entries (slot_of_events ms) = entries_of ms \<and>
   ps_blockmeta (slot_of_events ms) = None \<and> \<not> ps_is_sealed (slot_of_events ms) \<and>
   versions_ok (ps_account_write_version_map (slot_of_events ms)) (accounts_of ms)"
proof (induction ms rule: rev_induct)
  case Nil
  show ?case
    by (simp add: slot_of_events_def ProcessingSlot_default_def messages_of_defs map_filter_simps versions_ok_def)
next
  case (snoc m ms)
  have step: "slot_of_events (ms @ [m]) = add_event m (slot_of_events ms)" for m by (simp add: slot_of_events_def)
  show ?case
    using snoc versions_step [unfolded fun_upd_def]
    by (cases m) (simp_all add: step add_event_def Let_def fun_upd_def)
qed

lemma latest_is_last:
  assumes "versions_ok versions as" and "a \<in> set as"
  shows "is_latest versions a \<longleftrightarrow> last_write as a"
proof -
  obtain v where v: "versions (pubkey_of a) = Some v" using assms by (auto simp: versions_ok_def)
  with assms show ?thesis by (fastforce simp: versions_ok_def is_latest_def last_write_def)
qed

lemma account_in: "MAccount a \<in> set ms \<Longrightarrow> a \<in> set (accounts_of ms)"
  by (induction ms) (auto simp: accounts_of_def List.map_filter_def)


text \<open>C17. Feeding the messages of a slot to its buffer in any order and sealing it with a block meta never
  panics. The block keeps that meta and, in arrival order, every transaction and entry and exactly those
  account updates for which the slot has no later write of the same account; the message list of the
  block is filtered the same way, and everything that is not block data is ignored.\<close>

theorem frozen_block_exact:
  "seal now (slot_of_events ms\<lparr>ps_blockmeta := Some meta\<rparr>) = Some
     \<lparr>fz_original_messages =
        filter (\<lambda>m. case m of MAccount a \<Rightarrow> last_write (accounts_of ms) a | _ \<Rightarrow> block_data m) ms,
      fz_block_meta = meta,
      fz_pre_computed_message_block =
        MessageBlock_new now meta (transactions_of ms) (filter (last_write (accounts_of ms)) (accounts_of ms))
          (entries_of ms)\<rparr>"
proof -
  note f = events_fields [of ms]
  let ?versions = "ps_account_write_version_map (slot_of_events ms)"
  have ok: "versions_ok ?versions (accounts_of ms)" using f by simp
  have accs: "filter (is_latest ?versions) (accounts_of ms) = filter (last_write (accounts_of ms)) (accounts_of ms)"
    using latest_is_last [OF ok] by (intro filter_cong) auto
  have msgs: "filter (\<lambda>m. case m of MAccount a \<Rightarrow> is_latest ?versions a | _ \<Rightarrow> True) (filter block_data ms) =
    filter (\<lambda>m. case m of MAccount a \<Rightarrow> last_write (accounts_of ms) a | _ \<Rightarrow> block_data m) ms"
    unfolding filter_filter using latest_is_last [OF ok account_in]
    by (intro filter_cong) (auto simp: block_data_def split: Message.splits)
  have same: "ps_account_write_version_map (slot_of_events ms\<lparr>ps_blockmeta := Some meta\<rparr>) = ?versions" by simp
  show ?thesis unfolding seal_def same using f by (simp add: accs msgs [unfolded filter_filter])
qed

section \<open>Replay\<close>

text \<open>C34. In every reachable storage the replayable blocks are kept in ascending order of their slots, each
  under its own slot; \<open>min_replayable_slot\<close> is the smallest of them; the ready queue pairs a status only
  with the block of its slot; the number of buffered finalized slots is the number of slots whose
  progression reached \<open>Finalized\<close>; and a progression holds each commitment at most once, all of its own
  slot, with the recorded maximum among them.\<close>

theorem storage_invariant:
  assumes "storage_reach B s"
  shows "sorted_wrt (<) (map fst (st_replayed_slot s)) \<and>
    (\<forall>(k, b) \<in> set (st_replayed_slot s). block_slot b = k) \<and>
    min_replayable_slot s = (if st_replayed_slot s = [] then None else Some (Min (fst ` set (st_replayed_slot s)))) \<and>
    (\<forall>(u, b) \<in> set (st_ready_queue s). block_slot b = cu_slot u) \<and>
    st_num_buffered_finalized_slot s =
      card {k. \<exists>p. st_slot_commitment_progression_map s k = Some p \<and> sp_max_commitment p = Finalized} \<and>
    (\<forall>k p. st_slot_commitment_progression_map s k = Some p \<longrightarrow>
       distinct (map cu_commitment (sp_commitment p)) \<and> (\<forall>u \<in> set (sp_commitment p). cu_slot u = k) \<and>
       sp_max_commitment p = Max (cu_commitment ` set (sp_commitment p)))"
proof -
  have inv: "core_inv s" using reach_inv [OF assms] by (simp add: storage_inv_def)
  have "sp_max_commitment p = Max (cu_commitment ` set (sp_commitment p))" if "progression_ok k p" for k p
    using that by (intro Max_eqI [symmetric]) (auto simp: progression_ok_def)
  moreover have "progression_ok k p" if "st_slot_commitment_progression_map s k = Some p" for k p
    using inv that by (simp add: core_inv_def)
  ultimately have "\<forall>k p. st_slot_commitment_progression_map s k = Some p \<longrightarrow>
       distinct (map cu_commitment (sp_commitment p)) \<and> (\<forall>u \<in> set (sp_commitment p). cu_slot u = k) \<and>
       sp_max_commitment p = Max (cu_commitment ` set (sp_commitment p))"
    unfolding progression_ok_def by blast
  with reach_min_slot [OF assms] inv show ?thesis by (simp add: core_inv_def finalized_slots_def)
qed

lemma replay_iter_filter:
  "replay_iter s c m =
     map (\<lambda>(k, b). (b, sp_commitment (the (st_slot_commitment_progression_map s k))))
       (filter (\<lambda>(k, _). \<exists>p. st_slot_commitment_progression_map s k = Some p \<and> c \<le> sp_max_commitment p) m)"
  by (induction s c m rule: replay_iter.induct) (auto simp: not_less split: option.splits)

text \<open>Replaying a reachable storage from a slot at a commitment yields the blocks in strictly ascending
  slots. It yields a block, with the statuses the slot went through, exactly when the block is stored, its
  slot is not below the requested one and one of those statuses is at least the commitment.\<close>

lemma replay_exact:
  assumes "storage_reach B s"
  shows "sorted_wrt (<) (map (\<lambda>(b, us). block_slot b) (replay_from_slot s slot c)) \<and>
    (\<forall>b us. (b, us) \<in> set (replay_from_slot s slot c) \<longleftrightarrow>
       map_of (st_replayed_slot s) (block_slot b) = Some b \<and> slot \<le> block_slot b \<and>
       (\<exists>p. st_slot_commitment_progression_map s (block_slot b) = Some p \<and> sp_commitment p = us) \<and>
       (\<exists>u \<in> set us. c \<le> cu_commitment u))"
proof -
  let ?prog = "st_slot_commitment_progression_map s"
  have inv: "core_inv s" using reach_inv [OF assms] by (simp add: storage_inv_def)
  then have srt: "sorted_map (st_replayed_slot s)"
    and filed: "\<And>k b. (k, b) \<in> set (st_replayed_slot s) \<Longrightarrow> block_slot b = k"
    and prog: "\<And>k p. ?prog k = Some p \<Longrightarrow> progression_ok k p"
    by (auto simp: core_inv_def)
  have reached: "c \<le> sp_max_commitment p \<longleftrightarrow> (\<exists>u \<in> set (sp_commitment p). c \<le> cu_commitment u)"
    if "?prog k = Some p" for k p
    using prog [OF that] by (auto simp: progression_ok_def intro: order_trans)
  have stored: "(k, b) \<in> set (st_replayed_slot s) \<longleftrightarrow> map_of (st_replayed_slot s) (block_slot b) = Some b \<and> block_slot b = k" for k b
    using filed map_of_eq_Some_iff [OF sorted_map_distinct [OF srt]] by metis
  define m where "m = filter (\<lambda>(k, _). \<exists>p. ?prog k = Some p \<and> c \<le> sp_max_commitment p)
    (filter (\<lambda>(k, _). slot \<le> k) (st_replayed_slot s))"
  have run: "replay_from_slot s slot c = map (\<lambda>(k, b). (b, sp_commitment (the (?prog k)))) m"
    by (simp add: replay_from_slot_def replay_iter_filter m_def)
  have "map (\<lambda>(b, us). block_slot b) (replay_from_slot s slot c) = map fst m"
    unfolding run by (auto simp: m_def filed)
  moreover have "sorted_map m" using srt unfolding m_def by (simp add: sorted_wrt_map sorted_wrt_filter)
  ultimately have "sorted_wrt (<) (map (\<lambda>(b, us). block_slot b) (replay_from_slot s slot c))" by simp
  moreover have "(b, us) \<in> set (replay_from_slot s slot c) \<longleftrightarrow>
     map_of (st_replayed_slot s) (block_slot b) = Some b \<and> slot \<le> block_slot b \<and>
     (\<exists>p. ?prog (block_slot b) = Some p \<and> sp_commitment p = us) \<and> (\<exists>u \<in> set us. c \<le> cu_commitment u)" for b us
    unfolding run m_def using reached stored by (fastforce simp: image_iff)
  ultimately show ?thesis by blast
qed


section \<open>Garbage collection\<close>

definition overfull :: "'b BlockMachineStorage \<Rightarrow> bool" where
  "overfull s \<longleftrightarrow>
     st_replayed_capacity s < length (st_replayed_slot s) \<and> MINIMUM_FINALIZED_SLOT_TO_BUFFER < st_num_buffered_finalized_slot s"

lemma prune_first:
  assumes "sorted_map (st_replayed_slot s)" and "st_replayed_slot s = (k, b) # rest"
  shows "st_replayed_slot (prune_slot k False s) = rest"
    and "st_replayed_capacity (prune_slot k False s) = st_replayed_capacity s"
    and "st_num_buffered_finalized_slot s \<le> st_num_buffered_finalized_slot (prune_slot k False s) + 1"
    and "st_slot_commitment_progression_map (prune_slot k False s) = (st_slot_commitment_progression_map s)(k := None)"
proof -
  have "bt_remove k rest = rest" using assms by (auto simp: bt_remove_def filter_id_conv)
  then show "st_replayed_slot (prune_slot k False s) = rest"
    using assms by (simp add: prune_slot_def Let_def) (simp add: bt_remove_def)
qed (auto simp: prune_slot_def Let_def split: option.splits)

text \<open>What the loop did when it dropped \<open>n\<close> blocks.\<close>

definition dropped :: "nat \<Rightarrow> 'b BlockMachineStorage \<Rightarrow> 'b BlockMachineStorage \<Rightarrow> bool" where
  "dropped n s t \<longleftrightarrow>
     st_replayed_slot t = drop n (st_replayed_slot s) \<and> st_replayed_capacity t = st_replayed_capacity s \<and>
     (if n = 0 then t = s
      else st_replayed_capacity s \<le> length (st_replayed_slot t) \<and>
        MINIMUM_FINALIZED_SLOT_TO_BUFFER \<le> st_num_buffered_finalized_slot t) \<and>
     (\<forall>k. st_slot_commitment_progression_map t k =
       (if k \<in> fst ` set (take n (st_replayed_slot s)) then None else st_slot_commitment_progression_map s k))"

lemma gc_loop_drop:
  assumes "sorted_map (st_replayed_slot s)"
  shows "\<not> overfull (gc_loop s) \<and> (\<exists>n. dropped n s (gc_loop s))"
  using assms
proof (induction s rule: gc_loop.induct)
  case (1 s)
  show ?case
  proof (cases "overfull s")
    case False
    then have "gc_loop s = s" by (subst gc_loop.simps) (auto simp: overfull_def split: list.splits)
    then show ?thesis using False by (auto simp: dropped_def intro!: exI [of _ 0])
  next
    case True
    then obtain k b rest where kb: "st_replayed_slot s = (k, b) # rest"
      by (cases "st_replayed_slot s") (auto simp: overfull_def)
    let ?t = "prune_slot k False s"
    have loop: "gc_loop s = gc_loop ?t" using True kb by (subst gc_loop.simps) (simp add: overfull_def)
    note first = prune_first [OF "1.prems" kb]
    have "sorted_map (st_replayed_slot ?t)" using "1.prems" kb first(1) by simp
    moreover have "st_replayed_capacity s < length (st_replayed_slot s) \<and>
        MINIMUM_FINALIZED_SLOT_TO_BUFFER < st_num_buffered_finalized_slot s"
      using True by (simp add: overfull_def)
    ultimately obtain n where n: "dropped n ?t (gc_loop ?t)" and ended: "\<not> overfull (gc_loop ?t)"
      using "1.IH" [OF _ kb refl] by blast
    have "dropped (Suc n) s (gc_loop ?t)"
      using n True first kb by (cases n) (auto simp: dropped_def overfull_def)
    then show ?thesis using ended loop by auto
  qed
qed

lemma finalized_status_gc:
  assumes "cu_commitment u = Finalized"
  shows "\<exists>s2. on_slot_status B u s = st_gc B s2 \<and> st_replayed_slot s2 = st_replayed_slot s \<and>
    st_replayed_capacity s2 = st_replayed_capacity s"
proof -
  obtain p n where "progress u (st_slot_commitment_progression_map s (cu_slot u))
    (st_num_buffered_finalized_slot s) = (p, n)" by force
  with assms show ?thesis
    by (cases "map_of (st_replayed_slot s) (cu_slot u)")
      (simp_all add: on_slot_status_def Let_def, (rule exI, rule conjI, rule refl, simp)+)
qed

text \<open>A slot that becomes finalized triggers garbage collection: the oldest blocks are dropped, with their
  progressions, until the replay buffer is within its capacity or at most ten finalized slots are
  buffered; it never goes below the capacity or below ten finalized slots.\<close>

lemma gc_bounds:
  assumes "storage_reach B s" and "cu_commitment u = Finalized"
  shows "let t = on_slot_status B u s in
    (length (st_replayed_slot t) \<le> st_replayed_capacity s \<or> st_num_buffered_finalized_slot t \<le> 10) \<and>
    (\<exists>n. st_replayed_slot t = drop n (st_replayed_slot s) \<and>
       (\<forall>k \<in> fst ` set (take n (st_replayed_slot s)). st_slot_commitment_progression_map t k = None) \<and>
       (0 < n \<longrightarrow> st_replayed_capacity s \<le> length (st_replayed_slot t) \<and> 10 \<le> st_num_buffered_finalized_slot t))"
proof -
  obtain s2 where run: "on_slot_status B u s = st_gc B s2"
    and blocks: "st_replayed_slot s2 = st_replayed_slot s" and cap: "st_replayed_capacity s2 = st_replayed_capacity s"
    using finalized_status_gc [OF assms(2)] by blast
  have "sorted_map (st_replayed_slot s2)"
    using reach_inv [OF assms(1)] blocks by (simp add: storage_inv_def core_inv_def)
  then obtain n where "\<not> overfull (gc_loop s2)" and "dropped n s2 (gc_loop s2)" using gc_loop_drop by blast
  then show ?thesis
    unfolding run Let_def
    by (auto simp: st_gc_def refresh_min_slot_def Let_def dropped_def overfull_def blocks cap
        MINIMUM_FINALIZED_SLOT_TO_BUFFER_def not_less intro!: exI [of _ n])
qed


section \<open>Witnesses\<close>

text \<open>A machine that tracks every slot, freezes a slot at its summary and forwards commitments.\<close>

definition echo_machine :: "BlockStateMachineOutput list block_machine" where
  "echo_machine =
     \<lparr>km_process_replay_event = (\<lambda>e q. (Inr (), case e of Summary b \<Rightarrow> q @ [OFrozenBlock (bs_slot b)] | _ \<Rightarrow> q)),
      km_process_consensus_event = (\<lambda>u q. q @ [OSlotStatus u]),
      km_is_slot_tracked = (\<lambda>_ _. True),
      km_pop_next = (\<lambda>q. case q of [] \<Rightarrow> (None, []) | x # r \<Rightarrow> (Some x, r)),
      km_gc = id, km_drain_dlq = id, km_hash_from_str = (\<lambda>_. Some [])\<rparr>"

definition noon :: Timestamp where "noon = \<lparr>stamp_seconds = 43200, stamp_nanos = 0\<rparr>"

definition toy_entry :: "u64 \<Rightarrow> Message" where
  "toy_entry slot = MEntry \<lparr>en_slot = slot, en_index = 0, en_num_hashes = 1, en_hash = [],
     en_executed_transaction_count = 0, en_starting_transaction_index = 0, en_created_at = noon\<rparr>"

definition toy_meta :: "u64 \<Rightarrow> MessageBlockMeta" where
  "toy_meta slot = \<lparr>bm_block_meta = \<lparr>um_slot = slot, um_blockhash = [], um_rewards = None, um_block_time = None,
     um_block_height = None, um_parent_slot = 0, um_parent_blockhash = [], um_executed_transaction_count = 0,
     um_entries_count = 1\<rparr>, bm_created_at = noon\<rparr>"


definition toy_status :: "u64 \<Rightarrow> SlotStatus \<Rightarrow> Message" where
  "toy_status slot c = MSlot \<lparr>sl_slot = slot, sl_parent = None, sl_status = c, sl_dead_error = None, sl_created_at = noon\<rparr>"

fun feed_storage :: "'b block_machine \<Rightarrow> Message list \<Rightarrow> 'b BlockMachineStorage \<Rightarrow> 'b BlockMachineStorage option" where
  "feed_storage B [] s = Some s"
| "feed_storage B (m # ms) s = do { s1 \<leftarrow> add B noon m s; feed_storage B ms s1 }"

lemma reach_feed: "storage_reach B s \<Longrightarrow> feed_storage B ms s = Some s' \<Longrightarrow> storage_reach B s'"
  by (induction B ms s rule: feed_storage.induct) (auto split: bind_splits intro: reach_add)

definition toy_messages :: "Message list" where
  "toy_messages =
     [toy_entry 9, MBlockMeta (toy_meta 9), toy_status 9 SProcessed,
      toy_entry 7, MBlockMeta (toy_meta 7), toy_status 7 SProcessed, toy_status 7 SConfirmed]"

definition toy_storage :: "BlockStateMachineOutput list BlockMachineStorage" where
  "toy_storage = the (feed_storage echo_machine toy_messages (BlockMachineStorage_new [] 1))"

lemma toy_run: "feed_storage echo_machine toy_messages (BlockMachineStorage_new [] 1) \<noteq> None"
  by code_simp

lemma toy_storage_reach: "storage_reach echo_machine toy_storage"
  using toy_run reach_feed [OF reach_new] by (auto simp: toy_storage_def)

lemma toy_blocks: "map fst (st_replayed_slot toy_storage) = [7, 9]"
  by code_simp


theorem storage_invariant_witness: "min_replayable_slot toy_storage = Some 7"
proof -
  have "fst ` set (st_replayed_slot toy_storage) = {7, 9}" and "st_replayed_slot toy_storage \<noteq> []"
    using arg_cong [OF toy_blocks, of set] toy_blocks by auto
  then show ?thesis using storage_invariant [OF toy_storage_reach] by simp
qed

lemma toy_replay: "map (\<lambda>(b, us). (block_slot b, map cu_commitment us)) (replay_from_slot toy_storage 3 Confirmed) =
    [(7, [Processed, Confirmed])]"
  by code_simp

lemma gc_bounds_witness:
  "let t = on_slot_status echo_machine \<lparr>cu_parent_slot = None, cu_slot = 7, cu_commitment = Finalized\<rparr> toy_storage in
    length (st_replayed_slot t) \<le> st_replayed_capacity toy_storage \<or> st_num_buffered_finalized_slot t \<le> 10"
  using gc_bounds [OF toy_storage_reach, of "\<lparr>cu_parent_slot = None, cu_slot = 7, cu_commitment = Finalized\<rparr>"]
  by (simp add: Let_def)

end
