(* ===== verification/Pipeline_Claims.thy ===== *)
theory Pipeline_Claims
  imports Server_Pipeline Block_Claims
begin

text \<open>
  What the pipeline promises: batching loses, duplicates and reorders nothing and never reaches
  \<open>unreachable!\<close>; the geyser loop broadcasts and forwards every message; block reconstruction publishes the
  content of a block before its summary and its summary before its status; replay answers exactly.
\<close>

section \<open>The contract of a buffer\<close>

text \<open>A ready buffer takes the item at its end, and cannot take items forever.\<close>

locale batch_buffer =
  fixes B :: "('b, 'm) Buffer" and contents :: "'b \<Rightarrow> 'm list" and room :: "'b \<Rightarrow> nat"
  assumes accepts: "bf_ready B b \<Longrightarrow>
    \<exists>b'. bf_accumulate B x b = Inr b' \<and> contents b' = contents b @ [x] \<and> room b' < room b"
begin

lemma drain:
  assumes "receiver_ok R queue"
  shows "\<exists>n b' r'. batch_drain B R b r i = Some (i + n, b', r') \<and> contents b' @ queue r' = contents b @ queue r \<and>
    length (contents b') = length (contents b) + n"
proof (induction b arbitrary: r i rule: measure_induct_rule [of room])
  case (less b)
  show ?case
  proof (cases "bf_ready B b")
    case False
    then show ?thesis by (intro exI [of _ 0]) (simp add: batch_drain.simps)
  next
    case True
    obtain res r1 where recv: "mp_try_recv R r = (res, r1)" by fastforce
    have q: "case res of TryItem x \<Rightarrow> queue r = x # queue r1 | _ \<Rightarrow> queue r1 = queue r"
      using assms recv by (rule receiver_ok_try)
    show ?thesis
    proof (cases "\<exists>x. res = TryItem x")
      case False
      with True recv q show ?thesis
        by (intro exI [of _ 0]) (auto simp: batch_drain.simps split: try_received.splits)
    next
      case item: True
      then obtain x where Some: "res = TryItem x" by blast
      obtain b1 where b1: "bf_accumulate B x b = Inr b1" "contents b1 = contents b @ [x]" "room b1 < room b"
        using accepts [OF True] by blast
      obtain n b' r' where n: "batch_drain B R b1 r1 (i + 1) = Some (i + 1 + n, b', r')"
        "contents b' @ queue r' = contents b1 @ queue r1" "length (contents b') = length (contents b1) + n"
        using less.IH [OF b1(3)] by blast
      have "batch_drain B R b r i = batch_drain B R b1 r1 (i + 1)"
        using True recv Some b1 by (subst batch_drain.simps) simp
      with n b1 q Some show ?thesis by (intro exI [of _ "n + 1"]) auto
    qed
  qed
qed

lemma poll_moves:
  assumes "receiver_ok R queue"
  shows "\<exists>res b' r'. poll_recv_batch_with_buffer B R b r = Some (res, b', r') \<and>
    contents b' @ queue r' = contents b @ queue r \<and>
    (case res of
       Ready (Some n) \<Rightarrow> length (contents b') = length (contents b) + n \<and> (n = 0 \<longleftrightarrow> \<not> bf_ready B b)
     | Ready None \<Rightarrow> b' = b \<and> queue r = []
     | Pending \<Rightarrow> b' = b)"
proof (cases "bf_ready B b")
  case False
  then show ?thesis by (simp add: poll_recv_batch_with_buffer_def)
next
  case True
  obtain res r1 where recv: "mp_poll_recv R r = (res, r1)" by fastforce
  have q: "case res of Ready (Some x) \<Rightarrow> queue r = x # queue r1 | Ready None \<Rightarrow> queue r = [] \<and> queue r1 = []
      | Pending \<Rightarrow> queue r1 = queue r"
    using assms recv by (rule receiver_ok_poll)
  show ?thesis
  proof (cases res)
    case Pending
    with True recv q show ?thesis by (simp add: poll_recv_batch_with_buffer_def)
  next
    case (Ready item)
    show ?thesis
    proof (cases item)
      case None
      with Ready True recv q show ?thesis by (simp add: poll_recv_batch_with_buffer_def)
    next
      case (Some x)
      obtain b1 where b1: "bf_accumulate B x b = Inr b1" "contents b1 = contents b @ [x]"
        using accepts [OF True] by blast
      obtain n b' r' where n: "batch_drain B R b1 r1 1 = Some (1 + n, b', r')"
        "contents b' @ queue r' = contents b1 @ queue r1" "length (contents b') = length (contents b1) + n"
        using drain [OF assms] by blast
      with True recv Ready Some b1 q show ?thesis by (simp add: poll_recv_batch_with_buffer_def)
    qed
  qed
qed

end

text \<open>A buffer that keeps an invariant while it takes items.\<close>

locale invariant_buffer = batch_buffer B contents room
  for B :: "('b, 'm) Buffer" and contents room +
  fixes wf :: "'b \<Rightarrow> bool"
  assumes keeps: "wf b \<Longrightarrow> bf_ready B b \<Longrightarrow> bf_accumulate B x b = Inr b' \<Longrightarrow> wf b'"
begin

lemma drain_keeps: "batch_drain B R b r i = Some (n, b', r') \<Longrightarrow> wf b \<Longrightarrow> wf b'"
proof (induction b arbitrary: r i n b' r' rule: measure_induct_rule [of room])
  case (less b)
  show ?case
  proof (cases "bf_ready B b")
    case False
    with less.prems show ?thesis by (simp add: batch_drain.simps)
  next
    case True
    show ?thesis
    proof (cases "mp_try_recv R r")
      case (Pair res r1)
      show ?thesis
      proof (cases "\<exists>x. res = TryItem x")
        case False
        with True Pair less.prems show ?thesis by (auto simp: batch_drain.simps split: try_received.splits)
      next
        case item: True
        then obtain x where Some: "res = TryItem x" by blast
        obtain b1 where b1: "bf_accumulate B x b = Inr b1" "room b1 < room b" using accepts [OF True] by blast
        have "batch_drain B R b1 r1 (i + 1) = Some (n, b', r')"
          using less.prems(1) True Pair Some b1 by (subst (asm) batch_drain.simps) simp
        with less.IH [OF b1(2)] keeps [OF less.prems(2) True b1(1)] show ?thesis by blast
      qed
    qed
  qed
qed

lemma poll_keeps: "poll_recv_batch_with_buffer B R b r = Some (res, b', r') \<Longrightarrow> wf b \<Longrightarrow> wf b'"
  by (auto simp: poll_recv_batch_with_buffer_def split: if_splits prod.splits poll.splits option.splits sum.splits bind_splits
      dest: drain_keeps keeps)

end

definition Partitioned_contents :: "PartitionedBuffer \<Rightarrow> Message list" where
  "Partitioned_contents b = vec_items (pb_message_batch b) @ (case pb_blockmeta_batch b of None \<Rightarrow> [] | Some m \<Rightarrow> [m])"

definition is_blockmeta :: "Message \<Rightarrow> bool" where
  "is_blockmeta m \<longleftrightarrow> (case m of MBlockMeta _ \<Rightarrow> True | _ \<Rightarrow> False)"

text \<open>A buffer of capacity \<open>n\<close>: block metas are kept apart.\<close>

definition Partitioned_wf :: "nat \<Rightarrow> PartitionedBuffer \<Rightarrow> bool" where
  "Partitioned_wf n b \<longleftrightarrow> vec_capacity (pb_message_batch b) = n \<and> length (vec_items (pb_message_batch b)) \<le> n \<and>
     (\<forall>m \<in> set (vec_items (pb_message_batch b)). \<not> is_blockmeta m) \<and>
     (\<forall>m. pb_blockmeta_batch b = Some m \<longrightarrow> is_blockmeta m)"

interpretation vec: batch_buffer Vec_buffer vec_items "\<lambda>v. vec_capacity v - length (vec_items v)"
  by unfold_locales (auto simp: Vec_buffer_def Vec_ready_def Vec_accumulate_def)

interpretation partitioned: invariant_buffer Partitioned_buffer Partitioned_contents
  "\<lambda>b. if Partitioned_ready b then vec_capacity (pb_message_batch b) - length (vec_items (pb_message_batch b)) else 0"
  "Partitioned_wf n" for n
  by unfold_locales
    (auto simp: Partitioned_buffer_def Partitioned_ready_def Partitioned_accumulate_def Partitioned_contents_def Let_def
      Partitioned_wf_def is_blockmeta_def split: Message.splits if_splits)

section \<open>Channels by commitment level\<close>

lemma sender_send [simp]:
  "sender c (channels_send T c' ms ch) = (if c' = c then tk_send T ms (sender c ch) else sender c ch)"
  by (cases c; cases c') (simp_all add: sender_def channels_send_def Let_def)

lemma hist_send:
  assumes "broadcast_ok T hist pos"
  shows "hist (sender c (channels_send T c' ms ch)) = hist (sender c ch) @ (if c' = c then [ms] else [])"
  by (simp add: broadcast_ok_send [OF assms])

section \<open>The geyser loop\<close>

definition forwarded :: "('q, 'r) GeyserLoop \<Rightarrow> Message list" where
  "forwarded g = concat (map reconstruction_messages (gl_block_reconstruction_tx g))"

definition geyser_start :: "(nat \<Rightarrow> nat) \<Rightarrow> 'r \<Rightarrow> 'q SubscriberChannels \<Rightarrow> ('q, 'r) GeyserLoop" where
  "geyser_start alloc rx ch =
     \<lparr>gl_messages_rx = rx, gl_buffer = PartitionedBuffer_new alloc, gl_broadcast = ch, gl_block_reconstruction_tx = []\<rparr>"

inductive geyser_run ::
  "(Message list, 'q, 's, 'w) tokio \<Rightarrow> (nat \<Rightarrow> nat) \<Rightarrow> (Message, 'r) mpsc_receiver \<Rightarrow> ('q, 'r) GeyserLoop
   \<Rightarrow> ('q, 'r) GeyserLoop \<Rightarrow> bool" for T alloc R g0 where
  geyser_begin: "geyser_run T alloc R g0 g0"
| geyser_turn: "geyser_run T alloc R g0 g \<Longrightarrow> geyser_poll T alloc R g = Some (True, g') \<Longrightarrow> geyser_run T alloc R g0 g'"

lemma forwarded_snoc: "forwarded (g\<lparr>gl_block_reconstruction_tx := ms @ [m]\<rparr>) = concat (map reconstruction_messages ms) @ reconstruction_messages m"
  by (simp add: forwarded_def)

text \<open>What holds between two polls: the buffer is empty, and the channels hold what was forwarded.\<close>

definition geyser_inv ::
  "('q \<Rightarrow> Message list list) \<Rightarrow> ('r \<Rightarrow> Message list) \<Rightarrow> nat \<Rightarrow> Message list \<Rightarrow> 'q SubscriberChannels
   \<Rightarrow> ('q, 'r) GeyserLoop \<Rightarrow> bool" where
  "geyser_inv hist queue n msgs ch g \<longleftrightarrow>
     Partitioned_wf n (gl_buffer g) \<and> Partitioned_contents (gl_buffer g) = [] \<and>
     forwarded g @ queue (gl_messages_rx g) = msgs \<and>
     (\<exists>batches. hist (sender Processed (gl_broadcast g)) = hist (sender Processed ch) @ batches \<and>
        concat batches = filter (\<lambda>m. \<not> is_blockmeta m) (forwarded g) \<and>
        (\<forall>b \<in> set batches. b \<noteq> [] \<and> length b \<le> n)) \<and>
     (\<forall>c. c \<noteq> Processed \<longrightarrow> sender c (gl_broadcast g) = sender c ch)"

lemma forward_inv:
  assumes inv: "geyser_inv hist queue n msgs ch g" and wf: "Partitioned_wf n b"
    and moved: "Partitioned_contents b @ queue rx = queue (gl_messages_rx g)"
    and ok: "broadcast_ok T hist pos" and n: "n = alloc MESSAGE_BATCH_SIZE"
  shows "geyser_inv hist queue n msgs ch (geyser_forward T alloc (g\<lparr>gl_buffer := b, gl_messages_rx := rx\<rparr>))"
proof -
  let ?items = "vec_items (pb_message_batch b)" and ?meta = "pb_blockmeta_batch b"
  let ?g = "geyser_forward T alloc (g\<lparr>gl_buffer := b, gl_messages_rx := rx\<rparr>)"
  obtain batches where old: "forwarded g @ queue (gl_messages_rx g) = msgs"
      "hist (sender Processed (gl_broadcast g)) = hist (sender Processed ch) @ batches"
      "concat batches = filter (\<lambda>m. \<not> is_blockmeta m) (forwarded g)" "\<forall>b \<in> set batches. b \<noteq> [] \<and> length b \<le> n"
      "\<And>c. c \<noteq> Processed \<Longrightarrow> sender c (gl_broadcast g) = sender c ch"
    using inv by (auto simp: geyser_inv_def)
  have plain: "filter (\<lambda>m. \<not> is_blockmeta m) ?items = ?items" "length ?items \<le> n"
    and meta: "\<And>m. ?meta = Some m \<Longrightarrow> is_blockmeta m"
    using wf by (auto simp: Partitioned_wf_def filter_id_conv)
  have fwd: "forwarded ?g = forwarded g @ Partitioned_contents b" and rx: "gl_messages_rx ?g = rx"
    by (auto simp: geyser_forward_def Let_def forwarded_def Partitioned_contents_def reconstruction_messages_def
        split: option.splits)
  have empty: "Partitioned_contents (gl_buffer ?g) = []" "Partitioned_wf n (gl_buffer ?g)"
    using wf n by (auto simp: geyser_forward_def Let_def Partitioned_contents_def Partitioned_wf_def split: option.splits)
  let ?new = "batches @ (if ?items = [] then [] else [?items])"
  have "hist (sender Processed (gl_broadcast ?g)) = hist (sender Processed ch) @ ?new"
    using old(2) by (simp add: geyser_forward_def Let_def broadcast_ok_send [OF ok] split: option.split)
  moreover have "concat ?new = filter (\<lambda>m. \<not> is_blockmeta m) (forwarded ?g)"
    using old(3) plain meta unfolding fwd by (simp add: Partitioned_contents_def split: option.split)
  moreover have "\<forall>x \<in> set ?new. x \<noteq> [] \<and> length x \<le> n"
    using old(4) plain(2) by simp
  ultimately have "\<exists>new. hist (sender Processed (gl_broadcast ?g)) = hist (sender Processed ch) @ new \<and>
      concat new = filter (\<lambda>m. \<not> is_blockmeta m) (forwarded ?g) \<and> (\<forall>x \<in> set new. x \<noteq> [] \<and> length x \<le> n)"
    by blast
  moreover have "sender c (gl_broadcast ?g) = sender c ch" if "c \<noteq> Processed" for c
    using that old(5) [OF that] by (simp add: geyser_forward_def Let_def split: option.split)
  moreover have "forwarded ?g @ queue (gl_messages_rx ?g) = msgs" using old(1) moved unfolding rx fwd by simp
  ultimately show ?thesis using empty unfolding geyser_inv_def by blast
qed

lemma geyser_poll_inv:
  assumes inv: "geyser_inv hist queue n msgs ch g" and "receiver_ok R queue" and ok: "broadcast_ok T hist pos"
    and n: "n = alloc MESSAGE_BATCH_SIZE"
  obtains flag g' where "geyser_poll T alloc R g = Some (flag, g')" "geyser_inv hist queue n msgs ch g'"
    "\<not> flag \<Longrightarrow> forwarded g' = msgs"
proof -
  obtain res b rx where poll:
      "poll_recv_batch_with_buffer Partitioned_buffer R (gl_buffer g) (gl_messages_rx g) = Some (res, b, rx)"
      "Partitioned_contents b @ queue rx = Partitioned_contents (gl_buffer g) @ queue (gl_messages_rx g)"
      "case res of
         Ready (Some n) \<Rightarrow> length (Partitioned_contents b) = length (Partitioned_contents (gl_buffer g)) + n \<and>
           (n = 0 \<longleftrightarrow> \<not> bf_ready Partitioned_buffer (gl_buffer g))
       | Ready None \<Rightarrow> b = gl_buffer g \<and> queue (gl_messages_rx g) = []
       | Pending \<Rightarrow> b = gl_buffer g"
    using partitioned.poll_moves [OF assms(2), of "gl_buffer g" "gl_messages_rx g"] by blast
  have wf: "Partitioned_wf n b" using partitioned.poll_keeps [OF poll(1)] inv by (simp add: geyser_inv_def)
  have moved: "Partitioned_contents b @ queue rx = queue (gl_messages_rx g)"
    using poll(2) inv by (simp add: geyser_inv_def)
  let ?g1 = "g\<lparr>gl_buffer := b, gl_messages_rx := rx\<rparr>"
  show ?thesis
  proof (cases "\<exists>k. res = Ready (Some k)")
    case True
    with poll(1) have "geyser_poll T alloc R g = Some (True, geyser_forward T alloc ?g1)"
      by (auto simp: geyser_poll_def)
    with forward_inv [where alloc = alloc, OF inv wf moved ok n] that show ?thesis by blast
  next
    case False
    then have "b = gl_buffer g" and fin: "res \<noteq> Pending \<Longrightarrow> queue (gl_messages_rx g) = []"
      using poll(3) by (auto split: poll.splits option.splits)
    then have "geyser_inv hist queue n msgs ch ?g1" using inv moved by (simp add: geyser_inv_def forwarded_def)
    moreover have "geyser_poll T alloc R g = Some (res = Pending, ?g1)"
      using poll(1) False by (cases res) (auto simp: geyser_poll_def split: option.splits)
    moreover have "forwarded ?g1 = msgs" if "res \<noteq> Pending"
      using fin [OF that] inv by (simp add: geyser_inv_def forwarded_def)
    ultimately show ?thesis using that by blast
  qed
qed

lemma geyser_poll_progress:
  assumes inv: "geyser_inv hist queue n msgs ch g" and ok: "receiver_ok R queue" and "geyser_poll T alloc R g = Some (True, g')"
    and "0 < n" "fst (mp_poll_recv R (gl_messages_rx g)) \<noteq> Pending"
  shows "length (queue (gl_messages_rx g')) < length (queue (gl_messages_rx g))"
proof -
  obtain res b rx where poll:
      "poll_recv_batch_with_buffer Partitioned_buffer R (gl_buffer g) (gl_messages_rx g) = Some (res, b, rx)"
      "Partitioned_contents b @ queue rx = Partitioned_contents (gl_buffer g) @ queue (gl_messages_rx g)"
      "case res of
         Ready (Some n) \<Rightarrow> length (Partitioned_contents b) = length (Partitioned_contents (gl_buffer g)) + n \<and>
           (n = 0 \<longleftrightarrow> \<not> bf_ready Partitioned_buffer (gl_buffer g))
       | Ready None \<Rightarrow> b = gl_buffer g \<and> queue (gl_messages_rx g) = []
       | Pending \<Rightarrow> b = gl_buffer g"
    using partitioned.poll_moves [OF ok, of "gl_buffer g" "gl_messages_rx g"] by blast
  have ready: "bf_ready Partitioned_buffer (gl_buffer g)" and empty: "Partitioned_contents (gl_buffer g) = []"
    using inv assms(4)
    by (auto simp: geyser_inv_def Partitioned_buffer_def Partitioned_ready_def Partitioned_contents_def Partitioned_wf_def
        split: option.splits)
  have "res \<noteq> Pending"
    using poll(1) ready assms(5)
    by (auto simp: poll_recv_batch_with_buffer_def split: prod.splits poll.splits option.splits sum.splits bind_splits)
  then obtain k where k: "res = Ready (Some k)"
    using assms(3) poll(1) by (cases res) (auto simp: geyser_poll_def Let_def split: option.splits)
  then have "gl_messages_rx g' = rx"
    using assms(3) poll(1) by (auto simp: geyser_poll_def geyser_forward_def Let_def split: option.splits)
  moreover have "Partitioned_contents b \<noteq> []" using poll(3) k ready empty by auto
  ultimately show ?thesis using arg_cong [OF poll(2), of length] empty by (cases "Partitioned_contents b") auto
qed

lemma geyser_run_inv:
  assumes "geyser_run T alloc R (geyser_start alloc rx ch) g" "receiver_ok R queue" "broadcast_ok T hist pos"
  shows "geyser_inv hist queue (alloc MESSAGE_BATCH_SIZE) (queue rx) ch g"
  using assms(1)
proof induction
  case geyser_begin
  show ?case
    by (simp add: geyser_inv_def geyser_start_def PartitionedBuffer_new_def Partitioned_wf_def Partitioned_contents_def
        forwarded_def)
next
  case (geyser_turn g g')
  show ?case
  proof (rule geyser_poll_inv [OF geyser_turn.IH assms(2,3), of alloc])
    fix flag g1 assume "geyser_poll T alloc R g = Some (flag, g1)"
      and "geyser_inv hist queue (alloc MESSAGE_BATCH_SIZE) (queue rx) ch g1"
    with geyser_turn.hyps(2) show ?case by simp
  qed simp
qed

section \<open>Fan-out\<close>

text \<open>What a ready block adds to the channel of a commitment level.\<close>

definition published :: "Timestamp \<Rightarrow> CommitmentLevel \<Rightarrow> SlotCommitmentStatusUpdate \<times> FrozenBlock \<Rightarrow> Message list list" where
  "published now c ready =
     (case ready of (u, b) \<Rightarrow>
        (if cu_commitment u = c
         then (if c = Processed then [] else [fz_original_messages b]) @
              [[MBlock (fz_pre_computed_message_block b), MBlockMeta (fz_block_meta b)]]
         else []) @
        [[slot_message now u]])"

lemma fan_out_hist:
  assumes "broadcast_ok T hist pos"
  shows "hist (sender c (fan_out T now ready ch)) = hist (sender c ch) @ published now c ready"
  by (cases ready; cases c)
    (auto simp: fan_out_def published_def ALL_COMMITMENT_LEVELS_def Let_def broadcast_ok_send [OF assms])

lemma pop_loop_hist:
  assumes ok: "broadcast_ok T hist pos"
  shows "pop_loop T now s ch = (s', ch') \<Longrightarrow>
    s' = s\<lparr>st_ready_queue := []\<rparr> \<and>
    hist (sender c ch') = hist (sender c ch) @ concat (map (published now c) (st_ready_queue s))"
proof (induction "st_ready_queue s" arbitrary: s ch)
  case Nil
  then show ?case by (subst (asm) pop_loop.simps) (simp add: pop_ready_block_def)
next
  case (Cons ready rest)
  let ?s = "s\<lparr>st_ready_queue := rest\<rparr>"
  have "pop_loop T now ?s (fan_out T now ready ch) = (s', ch')"
    using Cons.prems Cons.hyps(2) [symmetric] by (subst (asm) pop_loop.simps) (simp add: pop_ready_block_def)
  from Cons.hyps(1) [OF _ this] Cons.hyps(2) [symmetric] show ?case by (simp add: fan_out_hist [OF ok])
qed

text \<open>The pops of the loop are steps of the storage.\<close>

lemma pops_reach: "storage_reach B s \<Longrightarrow> storage_reach B (s\<lparr>st_ready_queue := []\<rparr>)"
proof (induction "st_ready_queue s" arbitrary: s)
  case Nil
  then show ?case by (metis (full_types) BlockMachineStorage.surjective BlockMachineStorage.update_convs(5))
next
  case (Cons ready rest)
  from reach_pop [OF Cons.prems] have "storage_reach B (s\<lparr>st_ready_queue := rest\<rparr>)"
    using Cons.hyps(2) [symmetric] by (simp add: pop_ready_block_def)
  from Cons.hyps(1) [OF _ this] show ?case by simp
qed

lemma feed_reach: "feed_machine B now ms s = Some s' \<Longrightarrow> storage_reach B s \<Longrightarrow> storage_reach B s'"
  by (induction B now ms s rule: feed_machine.induct) (auto split: bind_splits intro: reach_add)

definition loop_start :: "'b \<Rightarrow> nat \<Rightarrow> 'q SubscriberChannels \<Rightarrow> ('b, 'q) ReconstructionLoop" where
  "loop_start machine capacity ch =
     \<lparr>rl_block_machine = BlockMachineStorage_new machine capacity, rl_broadcast = ch,
      rl_first_available_slot = (if capacity = 0 then None else Some (- 1))\<rparr>"

text \<open>The states of the loop, with the ready blocks it has fanned out.\<close>

inductive loop_run ::
  "(Message list, 'q, 's, 'w) tokio \<Rightarrow> 'b block_machine \<Rightarrow> ('b, 'q) ReconstructionLoop \<Rightarrow> ('b, 'q) ReconstructionLoop \<Rightarrow> bool"
  for T B l0 where
  loop_begin: "loop_run T B l0 l0"
| loop_turn: "loop_run T B l0 l \<Longrightarrow> reconstruction_round T B now batch l = Some l' \<Longrightarrow> loop_run T B l0 l'"

text \<open>What a round publishes, level by level.\<close>

lemma round_publishes:
  assumes "reconstruction_round T B now batch l = Some l'" "broadcast_ok T hist pos"
    and reach: "storage_reach B (rl_block_machine l)"
  obtains ready where
    "\<And>c. hist (sender c (rl_broadcast l')) = hist (sender c (rl_broadcast l)) @ concat (map (published now c) ready)"
    "\<And>u b. (u, b) \<in> set ready \<Longrightarrow> block_slot b = cu_slot u" "storage_reach B (rl_block_machine l')"
    "st_ready_queue (rl_block_machine l') = []"
    "rl_first_available_slot l' = (case (min_replayable_slot (rl_block_machine l'), rl_first_available_slot l) of
       (Some m, Some _) \<Rightarrow> Some m | (_, old) \<Rightarrow> old)"
proof -
  obtain s1 s2 ch where fed: "feed_machine B now (concat (map reconstruction_messages batch)) (rl_block_machine l) = Some s1"
    and pops: "pop_loop T now s1 (rl_broadcast l) = (s2, ch)"
    and l': "l' = l\<lparr>rl_block_machine := s2, rl_broadcast := ch,
      rl_first_available_slot := (case (min_replayable_slot s2, rl_first_available_slot l) of
         (Some m, Some _) \<Rightarrow> Some m | (_, old) \<Rightarrow> old)\<rparr>"
    using assms(1) by (auto simp: reconstruction_round_def split: bind_splits prod.splits)
  have s1: "storage_reach B s1" by (rule feed_reach [OF fed reach])
  have s2: "s2 = s1\<lparr>st_ready_queue := []\<rparr>" using pop_loop_hist [OF assms(2) pops] by blast
  show ?thesis
  proof (rule that)
    show "hist (sender c (rl_broadcast l')) = hist (sender c (rl_broadcast l)) @ concat (map (published now c) (st_ready_queue s1))" for c
      using pop_loop_hist [OF assms(2) pops] by (simp add: l')
    show "block_slot b = cu_slot u" if "(u, b) \<in> set (st_ready_queue s1)" for u b
      using reach_inv [OF s1] that by (auto simp: storage_inv_def core_inv_def)
    show "storage_reach B (rl_block_machine l')" using pops_reach [OF s1] by (simp add: l' s2)
  qed (simp_all add: l' s2)
qed

lemma start_reach: "storage_reach B (rl_block_machine (loop_start machine capacity ch))"
  by (simp add: loop_start_def reach_new)

section \<open>Replay responses\<close>

lemma response_items_from:
  "response_items m i = drop i (case m of ReplaySingle x \<Rightarrow> [x] | ReplayBatch xs \<Rightarrow> xs)"
proof (induction m i rule: response_items.induct)
  case (1 m i)
  then show ?case
    by (subst response_items.simps)
      (auto simp: response_next_def Cons_nth_drop_Suc split: ReplayResponseMessageType.splits)
qed

definition block_messages :: "Timestamp \<Rightarrow> FrozenBlock \<times> SlotCommitmentStatusUpdate list \<Rightarrow> Message list" where
  "block_messages now item =
     (case item of (b, us) \<Rightarrow>
        fz_original_messages b @ [MBlock (fz_pre_computed_message_block b), MBlockMeta (fz_block_meta b)] @
        map (slot_message now) us)"

definition response_messages :: "ReplayResponseMessageType list \<Rightarrow> Message list" where
  "response_messages ms = concat (map (\<lambda>m. response_items m 0) ms)"

lemma response_messages_append [simp]: "response_messages (xs @ ys) = response_messages xs @ response_messages ys"
  by (simp add: response_messages_def)

lemma response_of_block: "response_messages (replay_of_block now item) = block_messages now item"
  by (cases item)
    (simp add: response_messages_def replay_of_block_def block_messages_def response_items_from comp_def)

lemma response_of_blocks:
  "response_messages (concat (map (replay_of_block now) items)) = concat (map (block_messages now) items)"
  by (induction items) (simp_all add: response_of_block, simp add: response_messages_def)

lemma replay_of_block_not_Nil [simp]: "replay_of_block now item \<noteq> []"
  by (cases item) (simp add: replay_of_block_def)

lemma replay_of_blocks_Nil [simp]: "concat (map (replay_of_block now) items) = [] \<longleftrightarrow> items = []"
  by (cases items) auto

text \<open>The slot is below the smallest one that can be replayed.\<close>

definition below_stored :: "slot \<Rightarrow> 'b BlockMachineStorage \<Rightarrow> bool" where
  "below_stored slot s \<longleftrightarrow> st_replayed_slot s \<noteq> [] \<and> slot < Min (fst ` set (st_replayed_slot s))"

text \<open>The answer to a replay request: when the slot is below the smallest replayable one, that slot; otherwise,
  in ascending slots, for exactly the stored blocks from that slot on that reached the commitment, the
  messages, the block, the block meta and every status of the slot; without such a block, no answer.\<close>

lemma replay_request_exact:
  assumes "storage_reach B s"
  shows "\<exists>items. sorted_wrt (<) (map (\<lambda>(b, us). block_slot b) items) \<and>
    (\<forall>b us. (b, us) \<in> set items \<longleftrightarrow>
       map_of (st_replayed_slot s) (block_slot b) = Some b \<and> slot \<le> block_slot b \<and>
       (\<exists>p. st_slot_commitment_progression_map s (block_slot b) = Some p \<and> sp_commitment p = us) \<and>
       (\<exists>u \<in> set us. c \<le> cu_commitment u)) \<and>
    (case on_replay_request now c slot s of
       Some (ReplayLagged m) \<Rightarrow> below_stored slot s \<and> m = Min (fst ` set (st_replayed_slot s))
     | Some (ReplayMessages ms) \<Rightarrow> \<not> below_stored slot s \<and> items \<noteq> [] \<and>
         response_messages ms = concat (map (block_messages now) items)
     | None \<Rightarrow> \<not> below_stored slot s \<and> items = [])"
proof (intro exI conjI)
  note exact = replay_exact [OF assms, of slot c]
  let ?items = "replay_from_slot s slot c"
  show "sorted_wrt (<) (map (\<lambda>(b, us). block_slot b) ?items)" using exact by blast
  show "\<forall>b us. (b, us) \<in> set ?items \<longleftrightarrow>
       map_of (st_replayed_slot s) (block_slot b) = Some b \<and> slot \<le> block_slot b \<and>
       (\<exists>p. st_slot_commitment_progression_map s (block_slot b) = Some p \<and> sp_commitment p = us) \<and>
       (\<exists>u \<in> set us. c \<le> cu_commitment u)" using exact by blast
  show "case on_replay_request now c slot s of
       Some (ReplayLagged m) \<Rightarrow> below_stored slot s \<and> m = Min (fst ` set (st_replayed_slot s))
     | Some (ReplayMessages ms) \<Rightarrow> \<not> below_stored slot s \<and> ?items \<noteq> [] \<and>
         response_messages ms = concat (map (block_messages now) ?items)
     | None \<Rightarrow> \<not> below_stored slot s \<and> ?items = []"
  proof (cases "st_replayed_slot s = []")
    case True
    then show ?thesis
      using reach_min_slot [OF assms] by (simp add: on_replay_request_def replay_from_slot_def below_stored_def)
  next
    case False
    then have "min_replayable_slot s = Some (Min (fst ` set (st_replayed_slot s)))"
      using reach_min_slot [OF assms] by simp
    then show ?thesis
      using False
      by (simp add: on_replay_request_def Let_def response_of_blocks below_stored_def
          del: concat_eq_Nil_conv Min_less_iff Min_le_iff Min_gr_iff Min_ge_iff)
  qed
qed

section \<open>Properties\<close>

text \<open>C13. The geyser loop, however its polls interleave with the producers: a poll never panics; what was forwarded
  to block reconstruction together with what is still queued is the queue it started from, in order; the
  processed channel got exactly the forwarded messages that are not block metas, in the same order, in
  non-empty batches within the capacity of the buffer, and the other channels got nothing; a poll that
  does not wait consumes a message or ends the loop, and when the loop ends everything was forwarded.\<close>

theorem geyser_loop_exact:
  assumes "receiver_ok R queue" "broadcast_ok T hist pos"
    and "geyser_run T alloc R (geyser_start alloc rx ch) g" "\<And>c. hist (sender c ch) = []" "0 < alloc MESSAGE_BATCH_SIZE"
  shows "concat (map reconstruction_messages (gl_block_reconstruction_tx g)) @ queue (gl_messages_rx g) = queue rx \<and>
    concat (hist (sender Processed (gl_broadcast g))) =
      filter (\<lambda>m. \<not> is_blockmeta m) (concat (map reconstruction_messages (gl_block_reconstruction_tx g))) \<and>
    (\<forall>b \<in> set (hist (sender Processed (gl_broadcast g))). b \<noteq> [] \<and> length b \<le> alloc MESSAGE_BATCH_SIZE) \<and>
    (\<forall>c. c \<noteq> Processed \<longrightarrow> hist (sender c (gl_broadcast g)) = []) \<and>
    (\<exists>goes_on g'. geyser_poll T alloc R g = Some (goes_on, g') \<and>
       (\<not> goes_on \<longrightarrow> queue (gl_messages_rx g) = []) \<and>
       (goes_on \<longrightarrow> fst (mp_poll_recv R (gl_messages_rx g)) \<noteq> Pending \<longrightarrow>
          length (queue (gl_messages_rx g')) < length (queue (gl_messages_rx g))))"
proof -
  let ?n = "alloc MESSAGE_BATCH_SIZE"
  have inv: "geyser_inv hist queue ?n (queue rx) ch g" by (rule geyser_run_inv [OF assms(3,1,2)])
  obtain flag g' where turn: "geyser_poll T alloc R g = Some (flag, g')" "geyser_inv hist queue ?n (queue rx) ch g'"
      "\<not> flag \<Longrightarrow> forwarded g' = queue rx"
    using geyser_poll_inv [where alloc = alloc, OF inv assms(1,2) refl] by blast
  have same: "forwarded g' = forwarded g" if "\<not> flag"
    using turn(1) that by (auto simp: geyser_poll_def forwarded_def Let_def split: option.splits poll.splits)
  have "queue (gl_messages_rx g) = []" if "\<not> flag"
    using turn(3) [OF that] same [OF that] inv by (simp add: geyser_inv_def)
  moreover have "hist (sender c (gl_broadcast g)) = []" if "c \<noteq> Processed" for c
    using inv that assms(4) by (simp add: geyser_inv_def)
  ultimately show ?thesis
    using inv turn(1) assms(4) geyser_poll_progress [OF inv assms(1) _ assms(5)]
    unfolding geyser_inv_def forwarded_def by auto
qed


section \<open>Witnesses\<close>

definition toy_channels :: "(Message list list \<times> nat) SubscriberChannels" where
  "toy_channels = SubscriberChannels_new ring 4 4 4"

lemma toy_channels_empty: "fst (sender c toy_channels) = []"
  by (cases c) (simp_all add: toy_channels_def SubscriberChannels_new_def sender_def ring_def)

definition toy_queue :: "Message list" where
  "toy_queue = [toy_entry 9, toy_status 9 SDead, MBlockMeta (toy_meta 9), toy_entry 7]"

definition toy_geyser :: "(Message list list \<times> nat, Message list) GeyserLoop" where
  "toy_geyser = snd (the (geyser_poll ring id list_receiver (geyser_start id toy_queue toy_channels)))"

lemma toy_geyser_turn: "geyser_poll ring id list_receiver (geyser_start id toy_queue toy_channels) = Some (True, toy_geyser)"
  by code_simp

lemma toy_forwarded: "concat (map reconstruction_messages (gl_block_reconstruction_tx toy_geyser)) =
    [toy_entry 9, toy_status 9 SDead, MBlockMeta (toy_meta 9)]"
  by code_simp

theorem geyser_loop_exact_witness:
  "concat (fst (sender Processed (gl_broadcast toy_geyser))) = [toy_entry 9, toy_status 9 SDead] \<and>
    gl_messages_rx toy_geyser = [toy_entry 7]"
proof -
  have "geyser_run ring id list_receiver (geyser_start id toy_queue toy_channels) toy_geyser"
    using toy_geyser_turn by (rule geyser_turn [OF geyser_begin])
  from geyser_loop_exact [OF list_receiver_ok ring_ok(1) this toy_channels_empty] show ?thesis
    by (simp add: toy_forwarded MESSAGE_BATCH_SIZE_def toy_queue_def is_blockmeta_def toy_entry_def toy_status_def)
qed

definition toy_loop :: "(BlockStateMachineOutput list, Message list list \<times> nat) ReconstructionLoop" where
  "toy_loop = the (reconstruction_round ring echo_machine noon [RBatch toy_messages] (loop_start [] 1 toy_channels))"

lemma toy_round: "reconstruction_round ring echo_machine noon [RBatch toy_messages] (loop_start [] 1 toy_channels) \<noteq> None"
  by code_simp

lemma toy_loop_slots: "map fst (st_replayed_slot (rl_block_machine toy_loop)) = [7, 9]"
  by code_simp


lemma toy_answer: "case on_replay_request noon Confirmed 7 toy_storage of Some (ReplayMessages _) \<Rightarrow> True | _ \<Rightarrow> False"
  by code_simp

end
