(* ===== verification/Session_Claims.thy ===== *)
theory Session_Claims
  imports Server_Session Pipeline_Claims "HOL-Library.Sublist"
begin

text \<open>
  What a session promises its client: live updates are those of the broadcast messages, each once and in
  order, until the session ends for a reason the client is told; a filter change with a slot to resume from
  is answered with exactly what the server stores; the limit on subscriptions counts the sessions that are
  open.
\<close>

section \<open>Sending\<close>

abbreviation stream_sent :: "('c \<Rightarrow> 'x list) \<Rightarrow> 'c LoadAwareSender \<Rightarrow> 'x list" where
  "stream_sent sent la \<equiv> sent (la_inner la)"

lemma la_try_send_sent:
  assumes "sender_ok S sent" "la_try_send S x la = (outcome, la')"
  shows "stream_sent sent la' = stream_sent sent la @ (if outcome = Sent then [x] else [])"
proof -
  have "case ms_try_send S x (la_inner la) of (outcome, c') \<Rightarrow> sent c' = sent (la_inner la) @ (if outcome = Sent then [x] else [])"
    using assms(1) by (simp add: sender_ok_def)
  then show ?thesis using assms(2) by (auto simp: la_try_send_def split: prod.splits send_outcome.splits)
qed

lemma la_send_sent:
  assumes "sender_ok S sent" "la_send S x la = (ok, la')"
  shows "stream_sent sent la' = stream_sent sent la @ (if ok then [x] else [])"
proof -
  have "case ms_send S x (la_inner la) of (ok, c') \<Rightarrow> sent c' = sent (la_inner la) @ (if ok then [x] else [])"
    using assms(1) by (simp add: sender_ok_def)
  then show ?thesis using assms(2) by (auto simp: la_send_def split: prod.splits bool.splits)
qed

text \<open>The updates a filter makes of a message and of messages, when it does not panic.\<close>

definition updates_of :: "externs \<Rightarrow> Filter \<Rightarrow> CommitmentLevel option \<Rightarrow> Message \<Rightarrow> FilteredUpdate list" where
  "updates_of X F c m = (case Filter_get_updates X F m c of None \<Rightarrow> [] | Some (us, _) \<Rightarrow> us)"

definition all_updates :: "externs \<Rightarrow> Filter \<Rightarrow> CommitmentLevel option \<Rightarrow> Message list \<Rightarrow> FilteredUpdate list" where
  "all_updates X F c ms = concat (map (updates_of X F c) ms)"

definition no_panic :: "externs \<Rightarrow> Filter \<Rightarrow> CommitmentLevel option \<Rightarrow> Message list \<Rightarrow> bool" where
  "no_panic X F c ms \<longleftrightarrow> (\<forall>m \<in> set ms. Filter_get_updates X F m c \<noteq> None)"

lemma all_updates_simps [simp]:
  "all_updates X F c [] = []" "all_updates X F c (m # ms) = updates_of X F c m @ all_updates X F c ms"
  "all_updates X F c (ms @ ns) = all_updates X F c ms @ all_updates X F c ns"
  by (simp_all add: all_updates_def)

lemma no_panic_simps [simp]:
  "no_panic X F c []" "no_panic X F c (m # ms) \<longleftrightarrow> Filter_get_updates X F m c \<noteq> None \<and> no_panic X F c ms"
  "no_panic X F c (ms @ ns) \<longleftrightarrow> no_panic X F c ms \<and> no_panic X F c ns"
  by (auto simp: no_panic_def)

lemma send_updates_sent:
  assumes ok: "sender_ok S sent"
  shows "send_updates S us la = (flag, la') \<Longrightarrow>
    \<exists>vs. prefix vs us \<and> (flag \<longrightarrow> vs = us) \<and> stream_sent sent la' = stream_sent sent la @ map Inr vs"
proof (induction us arbitrary: la)
  case (Cons u us)
  obtain sent_u la1 where la1: "la_send S (Inr u) la = (sent_u, la1)" by fastforce
  note log = la_send_sent [OF ok la1]
  show ?case
  proof (cases sent_u)
    case True
    with Cons.prems la1 have "send_updates S us la1 = (flag, la')" by simp
    from Cons.IH [OF this] obtain vs where "prefix vs us" "flag \<longrightarrow> vs = us"
        "stream_sent sent la' = stream_sent sent la1 @ map Inr vs" by blast
    with log True show ?thesis by (intro exI [of _ "u # vs"]) simp
  next
    case False
    with Cons.prems la1 log show ?thesis by (intro exI [of _ "[]"]) simp
  qed
qed simp

lemma try_send_updates_sent:
  assumes ok: "sender_ok S sent"
  shows "try_send_updates S us la = (outcome, la') \<Longrightarrow>
    \<exists>vs. prefix vs us \<and> (outcome = Sent \<longrightarrow> vs = us) \<and> stream_sent sent la' = stream_sent sent la @ map Inr vs"
proof (induction us arbitrary: la)
  case (Cons u us)
  obtain o1 la1 where la1: "la_try_send S (Inr u) la = (o1, la1)" by fastforce
  note log = la_try_send_sent [OF ok la1]
  show ?case
  proof (cases "o1 = Sent")
    case True
    with Cons.prems la1 have "try_send_updates S us la1 = (outcome, la')" by simp
    from Cons.IH [OF this] obtain vs where "prefix vs us" "outcome = Sent \<longrightarrow> vs = us"
        "stream_sent sent la' = stream_sent sent la1 @ map Inr vs" by blast
    with log True show ?thesis by (intro exI [of _ "u # vs"]) simp
  next
    case False
    with Cons.prems la1 log show ?thesis by (intro exI [of _ "[]"]) (auto split: send_outcome.splits)
  qed
qed simp

lemma prefix_step: "prefix vs us \<Longrightarrow> prefix vs (us @ ws)" by (auto simp: prefix_def)

lemma send_messages_sent:
  assumes ok: "sender_ok S sent"
  shows "no_panic X F c ms \<Longrightarrow> \<exists>flag la' vs. send_messages X S F c ms la = Some (flag, la') \<and>
    prefix vs (all_updates X F c ms) \<and> (flag \<longrightarrow> vs = all_updates X F c ms) \<and>
    stream_sent sent la' = stream_sent sent la @ map Inr vs"
proof (induction ms arbitrary: la)
  case (Cons m ms)
  obtain us m' where us: "Filter_get_updates X F m c = Some (us, m')" using Cons.prems by auto
  then have u: "updates_of X F c m = us" by (simp add: updates_of_def)
  obtain flag la1 where step: "send_updates S us la = (flag, la1)" by fastforce
  obtain vs where vs: "prefix vs us" "flag \<longrightarrow> vs = us" "stream_sent sent la1 = stream_sent sent la @ map Inr vs"
    using send_updates_sent [OF ok step] by blast
  show ?case
  proof (cases flag)
    case True
    obtain flag2 la2 ws where "send_messages X S F c ms la1 = Some (flag2, la2)" "prefix ws (all_updates X F c ms)"
      "flag2 \<longrightarrow> ws = all_updates X F c ms" "stream_sent sent la2 = stream_sent sent la1 @ map Inr ws"
      using Cons.IH [of la1] Cons.prems by auto
    with True vs us step u show ?thesis by (intro exI [of _ flag2] exI [of _ la2] exI [of _ "us @ ws"]) simp
  next
    case False
    with vs us step u show ?thesis by (intro exI [of _ False] exI [of _ la1] exI [of _ vs]) (simp add: prefix_step)
  qed
qed auto

lemma try_send_messages_sent:
  assumes ok: "sender_ok S sent"
  shows "no_panic X F c ms \<Longrightarrow> \<exists>outcome la' vs. try_send_messages X S F c ms la = Some (outcome, la') \<and>
    prefix vs (all_updates X F c ms) \<and> (outcome = Sent \<longrightarrow> vs = all_updates X F c ms) \<and>
    stream_sent sent la' = stream_sent sent la @ map Inr vs"
proof (induction ms arbitrary: la)
  case (Cons m ms)
  obtain us m' where us: "Filter_get_updates X F m c = Some (us, m')" using Cons.prems by auto
  then have u: "updates_of X F c m = us" by (simp add: updates_of_def)
  obtain o1 la1 where step: "try_send_updates S us la = (o1, la1)" by fastforce
  obtain vs where vs: "prefix vs us" "o1 = Sent \<longrightarrow> vs = us" "stream_sent sent la1 = stream_sent sent la @ map Inr vs"
    using try_send_updates_sent [OF ok step] by blast
  show ?case
  proof (cases "o1 = Sent")
    case True
    obtain o2 la2 ws where "try_send_messages X S F c ms la1 = Some (o2, la2)" "prefix ws (all_updates X F c ms)"
      "o2 = Sent \<longrightarrow> ws = all_updates X F c ms" "stream_sent sent la2 = stream_sent sent la1 @ map Inr ws"
      using Cons.IH [of la1] Cons.prems by auto
    with True vs us step u show ?thesis by (intro exI [of _ o2] exI [of _ la2] exI [of _ "us @ ws"]) simp
  next
    case False
    with vs us step u show ?thesis
      by (intro exI [of _ o1] exI [of _ la1] exI [of _ vs]) (auto simp: prefix_step split: send_outcome.splits)
  qed
qed auto

section \<open>Live updates\<close>

text \<open>The session receives, while anything is published.\<close>

inductive live_run ::
  "externs \<Rightarrow> (Message list, 'q, 'r, 'w) tokio \<Rightarrow> (Status + FilteredUpdate, 'c) mpsc_sender
   \<Rightarrow> 'q SubscriberChannels \<times> ('c, 'r, 'f, 's) ClientSession
   \<Rightarrow> 'q SubscriberChannels \<times> ('c, 'r, 'f, 's) ClientSession \<Rightarrow> bool" for X T S s0 where
  live_start: "live_run X T S s0 s0"
| live_publish: "live_run X T S s0 (ch, s) \<Longrightarrow> live_run X T S s0 (channels_send T c ms ch, s)"
| live_receive: "live_run X T S s0 (ch, s) \<Longrightarrow> ss_phase s = Live \<Longrightarrow>
    live_step X T S R show_slot service ch MessageBranch s = Some s' \<Longrightarrow> live_run X T S s0 (ch, s')"

text \<open>The reasons for which receiving ends a session, and what the client is told.\<close>

definition receive_end :: "string \<Rightarrow> Status option \<Rightarrow> bool" where
  "receive_end reason farewell \<longleftrightarrow>
     (reason, farewell) \<in>
       {(''broadcast_closed'', None),
        (''client_broadcast_lag'', Some (Status_internal ''lagged to receive geyser messages'')),
        (''client_channel_full'', Some (Status_internal ''lagged to send an update'')),
        (''client_closed'', None)}"

definition live_inv ::
  "externs \<Rightarrow> ('q \<Rightarrow> Message list list) \<Rightarrow> ('r \<Rightarrow> nat) \<Rightarrow> ('c \<Rightarrow> (Status + FilteredUpdate) list) \<Rightarrow> nat
   \<Rightarrow> ('c, 'r, 'f, 's) ClientSession \<Rightarrow> 'q SubscriberChannels \<Rightarrow> ('c, 'r, 'f, 's) ClientSession \<Rightarrow> bool" where
  "live_inv X hist pos sent p s0 ch s \<longleftrightarrow>
     (let H = hist (sender (ss_commitment s0) ch);
          upd = all_updates X (ss_filter s0) (Some (ss_commitment s0)) in
      case ss_phase s of
        Live \<Rightarrow>
          (\<exists>rx. ss_messages_rx s = Some rx \<and> p \<le> pos rx \<and> pos rx \<le> length H \<and>
             ss_filter s = ss_filter s0 \<and> ss_commitment s = ss_commitment s0 \<and>
             stream_sent sent (ss_stream s) =
               stream_sent sent (ss_stream s0) @ map Inr (upd (concat (drop p (take (pos rx) H)))))
      | Ended \<Rightarrow>
          receive_end (ss_disconnect_reason s) (ss_farewell s) \<and>
          (\<exists>us. prefix us (upd (concat (drop p H))) \<and>
             stream_sent sent (ss_stream s) = stream_sent sent (ss_stream s0) @ map Inr us)
      | _ \<Rightarrow> False)"

lemma drop_split: "p \<le> n \<Longrightarrow> drop p H = drop p (take n H) @ drop n H"
proof -
  assume "p \<le> n"
  have "drop p H = drop p (take n H @ drop n H)" by simp
  also have "\<dots> = drop p (take n H) @ drop n H" using \<open>p \<le> n\<close> by (cases "n \<le> length H") (simp_all only: drop_append, simp_all)
  finally show ?thesis .
qed

lemma drop_take_Suc: "p \<le> n \<Longrightarrow> n < length H \<Longrightarrow> drop p (take (Suc n) H) = drop p (take n H) @ [H ! n]"
  by (simp add: take_Suc_conv_app_nth)

lemma live_inv_publish:
  assumes "live_inv X hist pos sent p s0 ch s" "broadcast_ok T hist pos" "p \<le> length (hist (sender (ss_commitment s0) ch))"
  shows "live_inv X hist pos sent p s0 (channels_send T c ms ch) s"
proof -
  let ?H = "hist (sender (ss_commitment s0) ch)"
  obtain more where H: "hist (sender (ss_commitment s0) (channels_send T c ms ch)) = ?H @ more"
    using hist_send [OF assms(2)] by metis
  show ?thesis
  proof (cases "ss_phase s")
    case Live
    with assms(1) H show ?thesis by (auto simp: live_inv_def Let_def)
  next
    case Ended
    with assms(1,3) H show ?thesis by (auto simp: live_inv_def Let_def intro: prefix_step)
  qed (use assms(1) in \<open>simp_all add: live_inv_def Let_def\<close>)
qed

lemma live_inv_receive:
  assumes inv: "live_inv X hist pos sent p s0 ch s" and live: "ss_phase s = Live"
    and step: "live_step X T S R show_slot service ch MessageBranch s = Some s'"
    and ok: "broadcast_ok T hist pos" "sender_ok S sent"
    and calm: "no_panic X (ss_filter s0) (Some (ss_commitment s0)) (concat (hist (sender (ss_commitment s0) ch)))"
  shows "live_inv X hist pos sent p s0 ch s'"
proof -
  let ?H = "hist (sender (ss_commitment s0) ch)" and ?upd = "all_updates X (ss_filter s0) (Some (ss_commitment s0))"
  obtain rx where rx: "ss_messages_rx s = Some rx" "p \<le> pos rx" "pos rx \<le> length ?H"
      "ss_filter s = ss_filter s0" "ss_commitment s = ss_commitment s0"
      "stream_sent sent (ss_stream s) = stream_sent sent (ss_stream s0) @ map Inr (?upd (concat (drop p (take (pos rx) ?H))))"
    using inv live by (auto simp: live_inv_def Let_def)
  have recv: "recv_ok ?H (pos rx) pos (tk_recv T (sender (ss_commitment s0) ch) rx)"
    by (rule broadcast_ok_recv [OF ok(1) rx(3)])
  obtain message rx1 where got: "tk_recv T (sender (ss_commitment s0) ch) rx = None \<and> s' = s \<or>
      tk_recv T (sender (ss_commitment s0) ch) rx = Some (message, rx1) \<and>
      on_broadcast X S message (s\<lparr>ss_messages_rx := Some rx1\<rparr>) = Some s'"
    using step rx(1,5) by (auto simp: live_step_def split: option.splits)
  then consider (none) "s' = s" | (some) "tk_recv T (sender (ss_commitment s0) ch) rx = Some (message, rx1)"
      "on_broadcast X S message (s\<lparr>ss_messages_rx := Some rx1\<rparr>) = Some s'" by blast
  then show ?thesis
  proof cases
    case none
    with inv show ?thesis by simp
  next
    case some
    have ended: ?thesis if "s' = end_session reason farewell s2" "receive_end reason farewell"
        "stream_sent sent (ss_stream s2) = stream_sent sent (ss_stream s) @ map Inr us"
        "prefix us (?upd (concat (drop (pos rx) ?H)))" for reason farewell s2 us
    proof -
      have "prefix (?upd (concat (drop p (take (pos rx) ?H))) @ us) (?upd (concat (drop p ?H)))"
        using that(4) by (subst drop_split [OF rx(2)]) simp
      then show ?thesis using that(1-3) rx(6) by (auto simp: live_inv_def Let_def end_session_def)
    qed
    show ?thesis
    proof (cases message)
      case (Received batch)
      have at: "pos rx < length ?H" "?H ! pos rx = batch" "pos rx1 = pos rx + 1"
        using recv some(1) Received by (simp_all add: recv_ok_def)
      have "no_panic X (ss_filter s0) (Some (ss_commitment s0)) batch"
        using calm at(1,2) nth_mem [of "pos rx" ?H] by (auto simp: no_panic_def)
      then obtain outcome la vs where sending:
          "try_send_messages X S (ss_filter s0) (Some (ss_commitment s0)) batch (ss_stream s) = Some (outcome, la)"
          "prefix vs (?upd batch)" "outcome = Sent \<longrightarrow> vs = ?upd batch"
          "stream_sent sent la = stream_sent sent (ss_stream s) @ map Inr vs"
        using try_send_messages_sent [OF ok(2)] by blast
      have step: "drop (pos rx) ?H = batch # drop (pos rx + 1) ?H" using Cons_nth_drop_Suc [OF at(1)] at(2) by simp
      have s': "s' = (case outcome of
            Sent \<Rightarrow> s\<lparr>ss_messages_rx := Some rx1, ss_stream := la\<rparr>
          | QueueFull \<Rightarrow> end_session ''client_channel_full'' (Some (Status_internal ''lagged to send an update''))
              (s\<lparr>ss_messages_rx := Some rx1, ss_stream := la\<rparr>)
          | QueueClosed \<Rightarrow> end_session ''client_closed'' None (s\<lparr>ss_messages_rx := Some rx1, ss_stream := la\<rparr>))"
        using some(2) sending(1) Received rx(4,5) by (cases outcome) (simp_all add: on_broadcast_def)
      show ?thesis
      proof (cases "outcome = Sent")
        case True
        with s' have s2: "s' = s\<lparr>ss_messages_rx := Some rx1, ss_stream := la\<rparr>" by simp
        show ?thesis
          using rx(2,4-6) at live sending(3,4) True
          by (simp add: live_inv_def Let_def s2 drop_take_Suc)
      next
        case False
        have "prefix vs (?upd (concat (drop (pos rx) ?H)))" using sending(2) step by (simp add: prefix_step)
        note ended = ended [of _ _ "s\<lparr>ss_messages_rx := Some rx1, ss_stream := la\<rparr>", OF _ _ _ this]
        show ?thesis
        proof (cases outcome)
          case QueueFull
          then have "s' = end_session ''client_channel_full'' (Some (Status_internal ''lagged to send an update''))
              (s\<lparr>ss_messages_rx := Some rx1, ss_stream := la\<rparr>)" using s' by simp
          then show ?thesis by (rule ended) (simp_all add: sending(4) receive_end_def)
        next
          case QueueClosed
          then have "s' = end_session ''client_closed'' None (s\<lparr>ss_messages_rx := Some rx1, ss_stream := la\<rparr>)"
            using s' by simp
          then show ?thesis by (rule ended) (simp_all add: sending(4) receive_end_def)
        qed (use False in simp)
      qed
    next
      case (Lagged n)
      have "s' = end_session ''client_broadcast_lag'' (Some (Status_internal ''lagged to receive geyser messages''))
          (s\<lparr>ss_messages_rx := Some rx1\<rparr>)" using some(2) Lagged by (simp add: on_broadcast_def)
      then show ?thesis by (rule ended [of _ _ _ "[]"]) (simp_all add: receive_end_def)
    next
      case Disconnected
      have "s' = end_session ''broadcast_closed'' None (s\<lparr>ss_messages_rx := Some rx1\<rparr>)"
        using some(2) Disconnected by (simp add: on_broadcast_def)
      then show ?thesis by (rule ended [of _ _ _ "[]"]) (simp_all add: receive_end_def)
    qed
  qed
qed

lemma hist_grows:
  assumes "live_run X T S (ch, s) (ch', s')" "broadcast_ok T hist pos"
  shows "prefix (hist (sender c ch)) (hist (sender c ch'))"
  using assms(1) by (induction "(ch', s')" arbitrary: ch' s' rule: live_run.induct) (auto simp: broadcast_ok_send [OF assms(2)] prefix_step)

lemma live_run_inv:
  assumes "live_run X T S (ch, s) (ch', s')" and ok: "broadcast_ok T hist pos" "sender_ok S sent"
    and start: "ss_phase s = Live" "ss_messages_rx s = Some rx" "pos rx \<le> length (hist (sender (ss_commitment s) ch))"
    and calm: "no_panic X (ss_filter s) (Some (ss_commitment s)) (concat (hist (sender (ss_commitment s) ch')))"
  shows "live_inv X hist pos sent (pos rx) s ch' s' \<and> pos rx \<le> length (hist (sender (ss_commitment s) ch'))"
  using assms(1) calm
proof (induction "(ch', s')" arbitrary: ch' s' rule: live_run.induct)
  case live_start
  then show ?case using start by (simp add: live_inv_def Let_def)
next
  case (live_publish ch1 s1 c ms)
  have "no_panic X (ss_filter s) (Some (ss_commitment s)) (concat (hist (sender (ss_commitment s) ch1)))"
    using live_publish.prems by (simp add: broadcast_ok_send [OF ok(1)] split: if_splits)
  from live_publish.hyps(2) [OF this] show ?case
    using live_inv_publish [OF _ ok(1)] by (auto simp: broadcast_ok_send [OF ok(1)])
next
  case (live_receive ch1 s1 R show_slot service s2)
  from live_receive.hyps(2) [OF live_receive.prems] show ?case
    using live_inv_receive [OF _ live_receive.hyps(3,4) ok live_receive.prems] by blast
qed

section \<open>Resuming from a slot\<close>

lemma filter_with_slot:
  "on_filter X T S show_slot service ch (Some slot) F s =
     on_replay X S show_slot (service (f_commitment F) slot) slot
       (s\<lparr>ss_filter := F, ss_commitment := f_commitment F,
          ss_messages_rx := (if f_commitment F = ss_commitment s then ss_messages_rx s
                             else Some (channels_subscribe T (f_commitment F) ch))\<rparr>)"
  by (cases s) (auto simp: on_filter_def Let_def)

section \<open>Counting subscriptions\<close>

text \<open>A tracker with the permits that are alive, as a multiset of keys; fewer than \<open>2 ^ 64 - 1\<close> of them
  are alive at once.\<close>

inductive tracker_run :: "SubscriptionTracker \<Rightarrow> SubscriptionTracker \<times> string multiset \<Rightarrow> bool" for t0 where
  tracker_start: "tracker_run t0 (t0, {#})"
| tracker_insert: "tracker_run t0 (t, P) \<Longrightarrow> size P < 2 ^ 64 - 1 \<Longrightarrow> try_insert key t = (res, t') \<Longrightarrow>
    tracker_run t0 (t', case res of None \<Rightarrow> P | Some k \<Rightarrow> add_mset k P)"
| tracker_drop: "tracker_run t0 (t, P) \<Longrightarrow> key \<in># P \<Longrightarrow> tracker_run t0 (drop_permit key t, P - {#key#})"

definition alive :: "string multiset \<Rightarrow> string \<rightharpoonup> nat" where
  "alive P = (\<lambda>key. if key \<in># P then Some (count P key) else None)"

lemma alive_add: "alive (add_mset key P) = (alive P)(key \<mapsto> Suc (count P key))"
  by (auto simp: alive_def)

lemma alive_remove: "alive (P - {#key#}) = (alive P)(key := (if count P key \<le> 1 then None else Some (count P key - 1)))"
  by (rule ext) (auto simp: alive_def simp flip: count_greater_zero_iff)

lemma alive_get: "(case alive P key of None \<Rightarrow> 0 | Some n \<Rightarrow> n) = count P key"
  by (simp add: alive_def not_in_iff)

definition tracker_inv :: "nat \<Rightarrow> bool \<Rightarrow> SubscriptionTracker \<Rightarrow> string multiset \<Rightarrow> bool" where
  "tracker_inv limit enforce t P \<longleftrightarrow>
     tr_subscription_limit t = limit \<and> tr_limit_enforce t = enforce \<and> tr_counters t = alive P \<and>
     (enforce \<longrightarrow> (\<forall>key. count P key \<le> limit))"

lemma try_insert_inv:
  assumes "tracker_inv limit enforce t P" "0 < limit" "size P < 2 ^ 64 - 1"
  shows "try_insert key t =
    (if enforce \<and> limit \<le> count P key then (None, t)
     else (Some key, t\<lparr>tr_counters := alive (add_mset key P)\<rparr>))"
proof -
  have t: "tr_counters t = alive P" "tr_subscription_limit t = limit" "tr_limit_enforce t = enforce"
    using assms(1) by (simp_all add: tracker_inv_def)
  have sat: "usize_saturating_add (count P key) 1 = Suc (count P key)"
    using assms(3) count_le_size [of P key] by (simp add: usize_saturating_add_def)
  show ?thesis
  proof (cases "enforce \<and> limit \<le> count P key")
    case True
    then have "key \<in># P" using assms(2) by (metis count_greater_zero_iff less_le_trans)
    then have "(alive P)(key \<mapsto> count P key) = alive P" by (auto simp: alive_def)
    then have "t\<lparr>tr_counters := (alive P)(key \<mapsto> count P key)\<rparr> = t" using t(1) by simp
    with True show ?thesis by (simp add: try_insert_def t alive_get)
  next
    case False
    then show ?thesis by (auto simp: try_insert_def t alive_get sat alive_add Let_def simp del: One_nat_def)
  qed
qed

lemma tracker_run_inv:
  assumes "tracker_run (SubscriptionTracker_new limit enforce) (t, P)" "0 < limit"
  shows "tracker_inv limit enforce t P"
  using assms(1)
proof (induction "(t, P)" arbitrary: t P rule: tracker_run.induct)
  case tracker_start
  then show ?case by (simp add: tracker_inv_def SubscriptionTracker_new_def alive_def)
next
  case (tracker_insert t P key res t')
  then show ?case
    using try_insert_inv [OF tracker_insert.hyps(2) assms(2) tracker_insert.hyps(3), of key]
    by (auto simp: tracker_inv_def split: if_splits)
next
  case (tracker_drop t P key)
  then have "alive P key = Some (count P key)" by (simp add: alive_def)
  then show ?case
    using tracker_drop.hyps(2) by (auto simp: drop_permit_def tracker_inv_def alive_remove Let_def le_diff_conv
        intro: le_SucI)
qed

section \<open>Properties\<close>

text \<open>C4. Live updates, however the session and the publishers interleave: as long as the session lives, the client has
  been sent, after what it was sent before, exactly the updates that its filter makes of the messages
  published at its commitment level from the position of its receiver on, each once and in order. When
  receiving ends the session, it was sent a prefix of those, and the session ends because the channel was
  closed, because the client is gone, or, telling the client so, because it lagged behind the broadcast or
  behind its own queue.\<close>

theorem live_delivery_exact:
  assumes "broadcast_ok T hist pos" "sender_ok S sent" "live_run X T S (ch, s) (ch', s')"
    and "ss_phase s = Live" "ss_messages_rx s = Some rx" "pos rx \<le> length (hist (sender (ss_commitment s) ch))"
    and "no_panic X (ss_filter s) (Some (ss_commitment s)) (concat (hist (sender (ss_commitment s) ch')))"
  shows "let H = hist (sender (ss_commitment s) ch'); upd = all_updates X (ss_filter s) (Some (ss_commitment s));
             before = stream_sent sent (ss_stream s); now = stream_sent sent (ss_stream s') in
    prefix (hist (sender (ss_commitment s) ch)) H \<and>
    (ss_phase s' = Live \<and>
       (\<exists>rx'. ss_messages_rx s' = Some rx' \<and> pos rx \<le> pos rx' \<and> pos rx' \<le> length H \<and>
          now = before @ map Inr (upd (concat (drop (pos rx) (take (pos rx') H))))) \<or>
     ss_phase s' = Ended \<and>
       (\<exists>us. prefix us (upd (concat (drop (pos rx) H))) \<and> now = before @ map Inr us) \<and>
       (ss_disconnect_reason s', ss_farewell s') \<in>
         {(''broadcast_closed'', None), (''client_closed'', None),
          (''client_broadcast_lag'', Some (Status_internal ''lagged to receive geyser messages'')),
          (''client_channel_full'', Some (Status_internal ''lagged to send an update''))})"
proof -
  have grows: "prefix (hist (sender (ss_commitment s) ch)) (hist (sender (ss_commitment s) ch'))"
    by (rule hist_grows [OF assms(3,1)])
  have "live_inv X hist pos sent (pos rx) s ch' s'" using live_run_inv [OF assms(3,1,2,4-7)] by blast
  with grows show ?thesis
    by (cases "ss_phase s'") (auto simp: live_inv_def Let_def receive_end_def)
qed

text \<open>C8. Resuming: a filter that comes with a slot to resume from, against any state of the block storage. The session
  takes the filter and its commitment, and a fresh receiver when the commitment changes. A slot below the
  smallest one that can be replayed ends the session and names that slot. Otherwise the client is sent, in
  ascending slots, the updates of the messages, the block, the block meta and the statuses of exactly the
  stored blocks from that slot on that reached the commitment, unless it goes away. When there is no such
  block, the session ends with an internal error.\<close>

theorem resume_from_slot_exact:
  assumes "storage_reach B store" "sender_ok S sent"
    and "service = (\<lambda>c slot. replay_service_of (on_replay_request now c slot store))"
  shows "\<exists>items. sorted_wrt (<) (map (\<lambda>(b, us). block_slot b) items) \<and>
    (\<forall>b us. (b, us) \<in> set items \<longleftrightarrow>
       map_of (st_replayed_slot store) (block_slot b) = Some b \<and> slot \<le> block_slot b \<and>
       (\<exists>p. st_slot_commitment_progression_map store (block_slot b) = Some p \<and> sp_commitment p = us) \<and>
       (\<exists>u \<in> set us. f_commitment F \<le> cu_commitment u)) \<and>
    (let messages = concat (map (block_messages now) items); c = f_commitment F in
     no_panic X F (Some c) messages \<longrightarrow>
     (\<exists>s'. on_filter X T S show_slot service ch (Some slot) F s = Some s' \<and> ss_filter s' = F \<and> ss_commitment s' = c \<and>
        ss_messages_rx s' = (if c = ss_commitment s then ss_messages_rx s else Some (channels_subscribe T c ch)) \<and>
        (\<exists>us. stream_sent sent (ss_stream s') = stream_sent sent (ss_stream s) @ map Inr us \<and>
           (if below_stored slot store
            then us = [] \<and> ss_phase s' = Ended \<and> ss_disconnect_reason s' = ''slot_unavailable'' \<and>
              ss_farewell s' = Some (out_of_range (lagged_message show_slot slot (Min (fst ` set (st_replayed_slot store)))))
            else if items = []
            then us = [] \<and> ss_phase s' = Ended \<and> ss_disconnect_reason s' = ''replay_error'' \<and>
              ss_farewell s' = Some (Status_internal ''failed to get replay response'')
            else us = all_updates X F (Some c) messages \<and> ss_phase s' = ss_phase s \<or>
              prefix us (all_updates X F (Some c) messages) \<and> ss_phase s' = Ended \<and>
                ss_disconnect_reason s' = ''client_closed'' \<and> ss_farewell s' = None))))"
proof -
  let ?c = "f_commitment F" and ?answer = "on_replay_request now (f_commitment F) slot store"
  let ?lagged = "below_stored slot store"
  obtain items where items: "sorted_wrt (<) (map (\<lambda>(b, us). block_slot b) items)"
      "\<forall>b us. (b, us) \<in> set items \<longleftrightarrow>
         map_of (st_replayed_slot store) (block_slot b) = Some b \<and> slot \<le> block_slot b \<and>
         (\<exists>p. st_slot_commitment_progression_map store (block_slot b) = Some p \<and> sp_commitment p = us) \<and>
         (\<exists>u \<in> set us. ?c \<le> cu_commitment u)"
      "case ?answer of
         Some (ReplayLagged m) \<Rightarrow> ?lagged \<and> m = Min (fst ` set (st_replayed_slot store))
       | Some (ReplayMessages ms) \<Rightarrow> \<not> ?lagged \<and> items \<noteq> [] \<and>
           response_messages ms = concat (map (block_messages now) items)
       | None \<Rightarrow> \<not> ?lagged \<and> items = []"
    using replay_request_exact [OF assms(1), of slot ?c now] by blast
  let ?messages = "concat (map (block_messages now) items)"
  let ?s = "s\<lparr>ss_filter := F, ss_commitment := ?c,
    ss_messages_rx := (if ?c = ss_commitment s then ss_messages_rx s else Some (channels_subscribe T ?c ch))\<rparr>"
  have step: "on_filter X T S show_slot service ch (Some slot) F s =
      on_replay X S show_slot (replay_service_of ?answer) slot ?s"
    by (simp add: filter_with_slot assms(3))
  show ?thesis
  proof (intro exI [of _ items] conjI, goal_cases)
    case 3
    show ?case
      unfolding Let_def
    proof (rule impI)
      assume calm: "no_panic X F (Some ?c) ?messages"
      show "\<exists>s'. on_filter X T S show_slot service ch (Some slot) F s = Some s' \<and> ss_filter s' = F \<and> ss_commitment s' = ?c \<and>
        ss_messages_rx s' = (if ?c = ss_commitment s then ss_messages_rx s else Some (channels_subscribe T ?c ch)) \<and>
        (\<exists>us. stream_sent sent (ss_stream s') = stream_sent sent (ss_stream s) @ map Inr us \<and>
           (if ?lagged
            then us = [] \<and> ss_phase s' = Ended \<and> ss_disconnect_reason s' = ''slot_unavailable'' \<and>
              ss_farewell s' = Some (out_of_range (lagged_message show_slot slot (Min (fst ` set (st_replayed_slot store)))))
            else if items = []
            then us = [] \<and> ss_phase s' = Ended \<and> ss_disconnect_reason s' = ''replay_error'' \<and>
              ss_farewell s' = Some (Status_internal ''failed to get replay response'')
            else us = all_updates X F (Some ?c) ?messages \<and> ss_phase s' = ss_phase s \<or>
              prefix us (all_updates X F (Some ?c) ?messages) \<and> ss_phase s' = Ended \<and>
                ss_disconnect_reason s' = ''client_closed'' \<and> ss_farewell s' = None))"
      proof (cases ?answer)
        case None
        with items(3) show ?thesis
          unfolding step by (simp add: replay_service_of_def on_replay_def end_session_def)
      next
        case (Some r)
        show ?thesis
        proof (cases r)
          case (ReplayLagged m)
          with items(3) Some show ?thesis
            unfolding step by (simp add: replay_service_of_def on_replay_def end_session_def)
        next
          case (ReplayMessages ms)
          have rm: "response_messages ms = ?messages" using items(3) Some ReplayMessages by simp
          obtain flag la vs where "send_messages X S F (Some ?c) ?messages (ss_stream s) = Some (flag, la)"
            "prefix vs (all_updates X F (Some ?c) ?messages)" "flag \<longrightarrow> vs = all_updates X F (Some ?c) ?messages"
            "stream_sent sent la = stream_sent sent (ss_stream s) @ map Inr vs"
            using send_messages_sent [OF assms(2) calm] by blast
          with items(3) Some ReplayMessages rm [unfolded response_messages_def] show ?thesis
            unfolding step
            by (cases flag) (auto simp: replay_service_of_def on_replay_def end_session_def
                intro!: exI [of _ vs])
        qed
      qed
    qed
  qed (use items(1,2) in blast)+
qed

text \<open>The limit on subscriptions, whatever sessions are opened and closed under whatever keys: the counter of a key is
  the number of its sessions that are open, and a key without one has no counter; when the limit is enforced
  no key ever has more sessions than it; and a new session is refused exactly when the limit is enforced and
  reached.\<close>

lemma subscription_limit_exact:
  assumes "tracker_run (SubscriptionTracker_new limit enforce) (t, P)" "0 < limit"
  shows "tr_counters t key = (if key \<in># P then Some (count P key) else None) \<and>
    (enforce \<longrightarrow> count P key \<le> limit) \<and>
    (size P < 2 ^ 64 - 1 \<longrightarrow> (fst (try_insert key t) = None \<longleftrightarrow> enforce \<and> limit \<le> count P key))"
  using try_insert_inv [OF tracker_run_inv [OF assms] assms(2)] tracker_run_inv [OF assms]
  by (simp add: tracker_inv_def alive_def)

section \<open>Witnesses\<close>

definition toy_session :: "((Status + FilteredUpdate) list \<times> nat, nat, unit, unit) ClientSession" where
  "toy_session = go_live ring toy_channels
     (ClientSession_new \<lparr>la_queue_size = 0, la_inner = ([], 8)\<rparr> () ()
        \<lparr>ss_filter := Filter_default\<lparr>f_entries := [''e'']\<rparr>\<rparr>)"

definition toy_published :: "(Message list list \<times> nat) SubscriberChannels" where
  "toy_published = channels_send ring Processed [toy_entry 9, toy_status 9 SDead] toy_channels"

definition toy_received :: "((Status + FilteredUpdate) list \<times> nat, nat, unit, unit) ClientSession" where
  "toy_received = the (live_step toy_ext ring room_sender \<lparr>mp_poll_recv = Pair Pending, mp_try_recv = Pair TryEmpty\<rparr>
     (\<lambda>_. '''') (\<lambda>_ _. ReplayUnsupported) toy_published MessageBranch toy_session)"

lemma toy_step: "live_step toy_ext ring room_sender \<lparr>mp_poll_recv = Pair Pending, mp_try_recv = Pair TryEmpty\<rparr>
     (\<lambda>_. '''') (\<lambda>_ _. ReplayUnsupported) toy_published MessageBranch toy_session = Some toy_received"
  by code_simp

lemma toy_session_start: "ss_phase toy_session = Live" "ss_messages_rx toy_session = Some 0" "ss_commitment toy_session = Processed"
  by code_simp+

lemma toy_received_live: "ss_phase toy_received = Live" "ss_messages_rx toy_received = Some 1"
  by code_simp+

lemma toy_history: "fst (sender Processed toy_published) = [[toy_entry 9, toy_status 9 SDead]]"
  by code_simp

lemma toy_calm: "Filter_get_updates toy_ext (ss_filter toy_session) (toy_entry 9) (Some Processed) \<noteq> None"
    "Filter_get_updates toy_ext (ss_filter toy_session) (toy_status 9 SDead) (Some Processed) \<noteq> None"
  by code_simp+

lemma toy_updates: "map fu_filters (all_updates toy_ext (ss_filter toy_session) (Some Processed)
    [toy_entry 9, toy_status 9 SDead]) = [[''e'']]"
  by code_simp

lemma toy_unsent: "stream_sent fst (ss_stream toy_session) = []"
  by code_simp

theorem live_delivery_exact_witness:
  "\<exists>us. fst (la_inner (ss_stream toy_received)) = map Inr us \<and> map fu_filters us = [[''e'']]"
proof -
  have "live_run toy_ext ring room_sender (toy_channels, toy_session) (toy_published, toy_received)"
    unfolding toy_published_def
    by (rule live_receive [OF live_publish [OF live_start] toy_session_start(1) toy_step [unfolded toy_published_def]])
  from live_delivery_exact [OF ring_ok(1) room_sender_ok this toy_session_start(1,2)] show ?thesis
    using toy_updates
    by (simp add: toy_session_start(3) toy_history toy_calm toy_received_live Let_def toy_unsent flip: map_append)
qed

theorem resume_from_slot_exact_witness:
  "\<exists>s'. on_filter toy_ext ring room_sender (\<lambda>_. ''early'')
      (\<lambda>c slot. replay_service_of (on_replay_request noon c slot toy_storage)) toy_channels (Some 3)
      Filter_default toy_session = Some s' \<and>
    ss_farewell s' = Some (out_of_range ''broadcast from early is not available, last available: early'')"
proof -
  have slots: "fst ` set (st_replayed_slot toy_storage) = {7, 9}" "st_replayed_slot toy_storage \<noteq> []"
    using arg_cong [OF toy_blocks, of set] toy_blocks by auto
  then have early: "below_stored 3 toy_storage" by (simp add: below_stored_def)
  let ?service = "\<lambda>c slot. replay_service_of (on_replay_request noon c slot toy_storage)"
  have calm: "no_panic X Filter_default c ms" for X c ms
    by (auto simp: no_panic_def Filter_get_updates_def Filter_default_def FilterAccounts_get_updates_def
        FilterTransactions_get_updates_def FilterBlocks_get_updates_def strategy_get_filters_def split: Message.split)
  obtain s' where "on_filter toy_ext ring room_sender (\<lambda>_. ''early'') ?service toy_channels (Some 3) Filter_default toy_session = Some s'"
      "ss_farewell s' = Some (out_of_range (lagged_message (\<lambda>_. ''early'') 3 7))"
    using resume_from_slot_exact [OF toy_storage_reach room_sender_ok refl, where now = noon and X = toy_ext and T = ring and ch = toy_channels
        and show_slot = "\<lambda>_. ''early''" and slot = 3 and F = Filter_default and s = toy_session]
    by (auto simp: Let_def calm early slots(1))
  then show ?thesis by (simp add: lagged_message_def)
qed

lemma subscription_limit_exact_witness:
  "fst (try_insert ''k'' (snd (try_insert ''k'' (SubscriptionTracker_new 1 True)))) = None"
proof -
  have "tracker_run (SubscriptionTracker_new 1 True) (snd (try_insert ''k'' (SubscriptionTracker_new 1 True)), {#''k''#})"
    using tracker_insert [OF tracker_start [of "SubscriptionTracker_new 1 True"], of "''k''"]
    by (simp add: try_insert_def SubscriptionTracker_new_def)
  from subscription_limit_exact [OF this, of "''k''"] show ?thesis by simp
qed

end
