(* ===== verification/Update_Encoding.thy ===== *)
theory Update_Encoding
  imports Filtered_Update
begin

text \<open>
  The hand-written protobuf encoding of filtered updates (\<^verbatim>\<open>plugin/filter/message.rs\<close>,
  \<^verbatim>\<open>plugin/filter/encoder.rs\<close> and \<open>slice_encode_raw\<close> of \<^verbatim>\<open>plugin/filter/filter.rs\<close>), with the
  caches of encoded accounts and transactions. The crate \<open>prost\<close> and the encoders it generates are a
  parameter. Writing to a buffer is returning the bytes written; filling a \<open>OnceLock\<close> is returning
  the message with the cache filled. Buffer lengths are natural numbers, cast to \<open>u64\<close> where the code
  casts them.
\<close>

section \<open>What the code calls of prost\<close>

datatype WireType = Varint | SixtyFourBit | LengthDelimited | StartGroup | EndGroup | ThirtyTwoBit

text \<open>An encoder and the length it announces.\<close>

record 'a codec =
  enc :: "'a \<Rightarrow> bytes"
  enc_len :: "'a \<Rightarrow> nat"

text \<open>\<open>pr_message_encode tag n raw\<close> is \<open>message::encode\<close> of a message whose \<open>encoded_len\<close> is \<open>n\<close>
  and whose \<open>encode_raw\<close> writes \<open>raw\<close>.\<close>

record prost =
  pr_encode_key :: "u32 \<Rightarrow> WireType \<Rightarrow> bytes"
  pr_key_len :: "u32 \<Rightarrow> nat"
  pr_encode_varint :: "u64 \<Rightarrow> bytes"
  pr_encoded_len_varint :: "u64 \<Rightarrow> nat"
  pr_uint64 :: "u32 \<Rightarrow> u64 codec"
  pr_uint32 :: "u32 \<Rightarrow> u32 codec"
  pr_int32 :: "u32 \<Rightarrow> i32 codec"
  pr_bool :: "u32 \<Rightarrow> bool codec"
  pr_string :: "u32 \<Rightarrow> string codec"
  pr_message_encode :: "u32 \<Rightarrow> nat \<Rightarrow> bytes \<Rightarrow> bytes"
  pr_message_encoded_len :: "u32 \<Rightarrow> nat \<Rightarrow> nat"
  pr_transaction :: "Transaction codec"
  pr_meta :: "TransactionStatusMeta codec"
  pr_error :: "TransactionError codec"
  pr_rewards :: "Rewards codec"
  pr_unix_timestamp :: "i64 codec"
  pr_block_height :: "u64 codec"
  pr_block_meta :: "SubscribeUpdateBlockMeta codec"
  pr_pong :: "i32 codec"
  pr_timestamp :: "Timestamp codec"

abbreviation message_encode :: "prost \<Rightarrow> u32 \<Rightarrow> 'a codec \<Rightarrow> 'a \<Rightarrow> bytes" where
  "message_encode P tag c x \<equiv> pr_message_encode P tag (enc_len c x) (enc c x)"

abbreviation message_encoded_len :: "prost \<Rightarrow> u32 \<Rightarrow> 'a codec \<Rightarrow> 'a \<Rightarrow> nat" where
  "message_encoded_len P tag c x \<equiv> pr_message_encoded_len P tag (enc_len c x)"

text \<open>\<open>str::as_bytes\<close>: a string is the list of its UTF-8 bytes.\<close>

definition str_bytes :: "string \<Rightarrow> bytes" where "str_bytes s = map of_char s"

section \<open>Helpers\<close>

definition prost_field_encoded_len :: "prost \<Rightarrow> u32 \<Rightarrow> nat \<Rightarrow> nat" where
  "prost_field_encoded_len P tag len = pr_key_len P tag + pr_encoded_len_varint P (of_nat len) + len"

definition prost_bytes_encode_raw :: "prost \<Rightarrow> u32 \<Rightarrow> bytes \<Rightarrow> bytes" where
  "prost_bytes_encode_raw P tag value =
     pr_encode_key P tag LengthDelimited @ pr_encode_varint P (of_nat (length value)) @ value"

definition prost_bytes_encoded_len :: "prost \<Rightarrow> u32 \<Rightarrow> bytes \<Rightarrow> nat" where
  "prost_bytes_encoded_len P tag value = prost_field_encoded_len P tag (length value)"

definition prost_repeated_encoded_len_map :: "prost \<Rightarrow> u32 \<Rightarrow> nat list \<Rightarrow> nat" where
  "prost_repeated_encoded_len_map P tag lens =
     pr_key_len P tag * length lens + sum_list (map (\<lambda>len. pr_encoded_len_varint P (of_nat len) + len) lens)"

text \<open>\<open>if x != 0 { uint64::encode(tag, &x, buf) }\<close> and its like, with their lengths.\<close>

definition nonzero :: "('a :: zero) codec \<Rightarrow> 'a \<Rightarrow> bytes" where
  "nonzero c x = (if x \<noteq> 0 then enc c x else [])"

definition nonzero_len :: "('a :: zero) codec \<Rightarrow> 'a \<Rightarrow> nat" where
  "nonzero_len c x = (if x \<noteq> 0 then enc_len c x else 0)"

definition flag :: "bool codec \<Rightarrow> bool \<Rightarrow> bytes" where
  "flag c x = (if x then enc c x else [])"

definition flag_len :: "bool codec \<Rightarrow> bool \<Rightarrow> nat" where
  "flag_len c x = (if x then enc_len c x else 0)"

definition nonempty :: "'a list codec \<Rightarrow> 'a list \<Rightarrow> bytes" where
  "nonempty c x = (if x \<noteq> [] then enc c x else [])"

definition nonempty_len :: "'a list codec \<Rightarrow> 'a list \<Rightarrow> nat" where
  "nonempty_len c x = (if x \<noteq> [] then enc_len c x else 0)"

definition present :: "('a \<Rightarrow> bytes) \<Rightarrow> 'a option \<Rightarrow> bytes" where
  "present f x = (case x of None \<Rightarrow> [] | Some v \<Rightarrow> f v)"

definition present_len :: "('a \<Rightarrow> nat) \<Rightarrow> 'a option \<Rightarrow> nat" where
  "present_len f x = (case x of None \<Rightarrow> 0 | Some v \<Rightarrow> f v)"

section \<open>The encoders of transactions and accounts\<close>

definition TransactionEncoder_encode_raw :: "prost \<Rightarrow> MessageTransactionInfo \<Rightarrow> bytes" where
  "TransactionEncoder_encode_raw P tx =
     pr_encode_key P 1 LengthDelimited @ pr_encode_varint P (of_nat (length (ti_signature tx))) @ ti_signature tx @
     flag (pr_bool P 2) (ti_is_vote tx) @
     message_encode P 3 (pr_transaction P) (ti_transaction tx) @
     message_encode P 4 (pr_meta P) (ti_meta tx) @
     nonzero (pr_uint64 P 5) (ti_index tx)"

definition TransactionEncoder_encoded_len :: "prost \<Rightarrow> MessageTransactionInfo \<Rightarrow> nat" where
  "TransactionEncoder_encoded_len P tx =
     prost_field_encoded_len P 1 64 + flag_len (pr_bool P 2) (ti_is_vote tx) +
     message_encoded_len P 3 (pr_transaction P) (ti_transaction tx) +
     message_encoded_len P 4 (pr_meta P) (ti_meta tx) +
     nonzero_len (pr_uint64 P 5) (ti_index tx)"

text \<open>\<open>OnceLock::set\<close> leaves a filled cache as it is; the announced length only sizes the buffer.\<close>

definition TransactionEncoder_pre_encode :: "prost \<Rightarrow> MessageTransactionInfo \<Rightarrow> MessageTransactionInfo" where
  "TransactionEncoder_pre_encode P tx =
     (case ti_pre_encoded tx of
        None \<Rightarrow> tx\<lparr>ti_pre_encoded := Some (TransactionEncoder_encode_raw P tx)\<rparr>
      | Some _ \<Rightarrow> tx)"

definition AccountEncoder_pre_encode :: "prost \<Rightarrow> MessageAccountInfo \<Rightarrow> MessageAccountInfo" where
  "AccountEncoder_pre_encode P account =
     (let buf =
        prost_bytes_encode_raw P 1 (ai_pubkey account) @
        nonzero (pr_uint64 P 2) (ai_lamports account) @
        prost_bytes_encode_raw P 3 (ai_owner account) @
        flag (pr_bool P 4) (ai_executable account) @
        nonzero (pr_uint64 P 5) (ai_rent_epoch account) @
        (if ai_data account \<noteq> [] then prost_bytes_encode_raw P 6 (ai_data account) else []) @
        nonzero (pr_uint64 P 7) (ai_write_version account) @
        present (prost_bytes_encode_raw P 8) (ai_txn_signature account)
      in case ai_pre_encoded account of
           None \<Rightarrow> account\<lparr>ai_pre_encoded := Some buf\<rparr>
         | Some _ \<Rightarrow> account)"

definition AccountEncoder_encoded_len :: "prost \<Rightarrow> MessageAccountInfo \<Rightarrow> nat" where
  "AccountEncoder_encoded_len P account =
     prost_field_encoded_len P 1 32 + nonzero_len (pr_uint64 P 2) (ai_lamports account) +
     prost_field_encoded_len P 3 32 + flag_len (pr_bool P 4) (ai_executable account) +
     nonzero_len (pr_uint64 P 5) (ai_rent_epoch account) +
     (if ai_data account \<noteq> [] then prost_bytes_encoded_len P 6 (ai_data account) else 0) +
     nonzero_len (pr_uint64 P 7) (ai_write_version account) +
     present_len (\<lambda>_. prost_field_encoded_len P 8 64) (ai_txn_signature account)"

section \<open>Accounts\<close>

definition slice_encode_raw :: "prost \<Rightarrow> FilterAccountsDataSlice \<Rightarrow> u32 \<Rightarrow> bytes \<Rightarrow> bytes run" where
  "slice_encode_raw P ds tag source =
     do {
       n \<leftarrow> get_slice_len ds source;
       let len = (of_nat n :: u64);
       if 0 < len
       then do {
         body \<leftarrow> (if ds = [] then Some source else copy_slices source ds);
         Some (pr_encode_key P tag LengthDelimited @ pr_encode_varint P len @ body)
       }
       else Some []
     }"

definition account_return_encoded :: "prost \<Rightarrow> bytes \<Rightarrow> u32 \<Rightarrow> bytes" where
  "account_return_encoded P pre_encoded tag =
     pr_encode_key P tag LengthDelimited @ pr_encode_varint P (of_nat (length pre_encoded)) @ pre_encoded"

definition account_encoded_len :: "prost \<Rightarrow> MessageAccountInfo \<Rightarrow> FilterAccountsDataSlice \<Rightarrow> nat run" where
  "account_encoded_len P account ds =
     (case (if ds = [] then ai_pre_encoded account else None) of
        Some pre_encoded \<Rightarrow> Some (length pre_encoded)
      | None \<Rightarrow> do {
          data_len \<leftarrow> get_slice_len ds (ai_data account);
          Some (prost_field_encoded_len P 1 32 + nonzero_len (pr_uint64 P 2) (ai_lamports account) +
            prost_field_encoded_len P 3 32 + flag_len (pr_bool P 4) (ai_executable account) +
            nonzero_len (pr_uint64 P 5) (ai_rent_epoch account) +
            (if data_len \<noteq> 0 then prost_field_encoded_len P 6 data_len else 0) +
            nonzero_len (pr_uint64 P 7) (ai_write_version account) +
            present_len (\<lambda>_. prost_field_encoded_len P 8 64) (ai_txn_signature account))
        })"

definition account_encode_fallback ::
  "prost \<Rightarrow> u32 \<Rightarrow> MessageAccountInfo \<Rightarrow> FilterAccountsDataSlice \<Rightarrow> bytes run" where
  "account_encode_fallback P tag account ds =
     do {
       n \<leftarrow> account_encoded_len P account ds;
       data \<leftarrow> slice_encode_raw P ds 6 (ai_data account);
       Some (pr_encode_key P tag LengthDelimited @ pr_encode_varint P (of_nat n) @
         prost_bytes_encode_raw P 1 (ai_pubkey account) @
         nonzero (pr_uint64 P 2) (ai_lamports account) @
         prost_bytes_encode_raw P 3 (ai_owner account) @
         flag (pr_bool P 4) (ai_executable account) @
         nonzero (pr_uint64 P 5) (ai_rent_epoch account) @
         data @
         nonzero (pr_uint64 P 7) (ai_write_version account) @
         present (prost_bytes_encode_raw P 8) (ai_txn_signature account))
     }"

definition account_encode_raw ::
  "prost \<Rightarrow> u32 \<Rightarrow> MessageAccountInfo \<Rightarrow> FilterAccountsDataSlice \<Rightarrow> (bytes \<times> MessageAccountInfo) run" where
  "account_encode_raw P tag account ds =
     (let fallback = (\<lambda>account. map_option (\<lambda>bs. (bs, account)) (account_encode_fallback P tag account ds)) in
      if ds = [] then
        (case ai_pre_encoded account of
           Some pre_encoded \<Rightarrow> Some (account_return_encoded P pre_encoded tag, account)
         | None \<Rightarrow>
             (let account1 = AccountEncoder_pre_encode P account in
              case ai_pre_encoded account1 of
                Some pre_encoded \<Rightarrow> Some (account_return_encoded P pre_encoded tag, account1)
              | None \<Rightarrow> fallback account1))
      else fallback account)"

definition FilteredUpdateAccount_encode_raw ::
  "prost \<Rightarrow> FilteredUpdateAccount \<Rightarrow> (bytes \<times> FilteredUpdateAccount) run" where
  "FilteredUpdateAccount_encode_raw P u =
     (let m = fua_account u in
      do {
        (bs, a) \<leftarrow> account_encode_raw P 1 (ac_account m) (fua_data_slice u);
        Some (bs @ nonzero (pr_uint64 P 2) (ac_slot m) @ flag (pr_bool P 3) (ac_is_startup m),
          u\<lparr>fua_account := m\<lparr>ac_account := a\<rparr>\<rparr>)
      })"

definition FilteredUpdateAccount_encoded_len :: "prost \<Rightarrow> FilteredUpdateAccount \<Rightarrow> nat run" where
  "FilteredUpdateAccount_encoded_len P u =
     (let m = fua_account u in
      do {
        n \<leftarrow> account_encoded_len P (ac_account m) (fua_data_slice u);
        Some (prost_field_encoded_len P 1 n + nonzero_len (pr_uint64 P 2) (ac_slot m) +
          flag_len (pr_bool P 3) (ac_is_startup m))
      })"

section \<open>Slots\<close>

text \<open>\<open>SlotStatusProto::default()\<close> is the variant with number 0.\<close>

definition FilteredUpdateSlot_encode_raw :: "prost \<Rightarrow> MessageSlot \<Rightarrow> bytes" where
  "FilteredUpdateSlot_encode_raw P s =
     nonzero (pr_uint64 P 1) (sl_slot s) @
     present (enc (pr_uint64 P 2)) (sl_parent s) @
     nonzero (pr_int32 P 3) (SlotStatusProto_as_i32 (proto_of_status (sl_status s))) @
     present (enc (pr_string P 4)) (sl_dead_error s)"

definition FilteredUpdateSlot_encoded_len :: "prost \<Rightarrow> MessageSlot \<Rightarrow> nat" where
  "FilteredUpdateSlot_encoded_len P s =
     nonzero_len (pr_uint64 P 1) (sl_slot s) +
     present_len (enc_len (pr_uint64 P 2)) (sl_parent s) +
     nonzero_len (pr_int32 P 3) (SlotStatusProto_as_i32 (proto_of_status (sl_status s))) +
     present_len (enc_len (pr_string P 4)) (sl_dead_error s)"

section \<open>Transactions\<close>

definition transaction_return_encoded :: "prost \<Rightarrow> bytes \<Rightarrow> u32 \<Rightarrow> bytes" where
  "transaction_return_encoded P pre_encoded tag =
     pr_encode_key P tag LengthDelimited @ pr_encode_varint P (of_nat (length pre_encoded)) @ pre_encoded"

definition tx_encoded_len :: "prost \<Rightarrow> MessageTransactionInfo \<Rightarrow> nat" where
  "tx_encoded_len P tx =
     (case ti_pre_encoded tx of
        Some pre_encoded \<Rightarrow> length pre_encoded
      | None \<Rightarrow>
          prost_bytes_encoded_len P 1 (ti_signature tx) + flag_len (pr_bool P 2) (ti_is_vote tx) +
          message_encoded_len P 3 (pr_transaction P) (ti_transaction tx) +
          message_encoded_len P 4 (pr_meta P) (ti_meta tx) +
          nonzero_len (pr_uint64 P 5) (ti_index tx))"

definition tx_encode_raw :: "prost \<Rightarrow> u32 \<Rightarrow> MessageTransactionInfo \<Rightarrow> bytes \<times> MessageTransactionInfo" where
  "tx_encode_raw P tag tx =
     (case ti_pre_encoded tx of
        Some pre_encoded \<Rightarrow> (transaction_return_encoded P pre_encoded tag, tx)
      | None \<Rightarrow>
          (let tx1 = TransactionEncoder_pre_encode P tx in
           case ti_pre_encoded tx1 of
             Some pre_encoded \<Rightarrow> (transaction_return_encoded P pre_encoded tag, tx1)
           | None \<Rightarrow>
               (pr_encode_key P tag LengthDelimited @ pr_encode_varint P (of_nat (tx_encoded_len P tx1)) @
                prost_bytes_encode_raw P 1 (ti_signature tx1) @
                flag (pr_bool P 2) (ti_is_vote tx1) @
                message_encode P 3 (pr_transaction P) (ti_transaction tx1) @
                message_encode P 4 (pr_meta P) (ti_meta tx1) @
                nonzero (pr_uint64 P 5) (ti_index tx1), tx1)))"

definition FilteredUpdateTransaction_encode_raw ::
  "prost \<Rightarrow> FilteredUpdateTransaction \<Rightarrow> bytes \<times> FilteredUpdateTransaction" where
  "FilteredUpdateTransaction_encode_raw P u =
     (let m = fut_transaction u; (bs, tx) = tx_encode_raw P 1 (mt_transaction m)
      in (bs @ nonzero (pr_uint64 P 2) (fut_slot u), u\<lparr>fut_transaction := m\<lparr>mt_transaction := tx\<rparr>\<rparr>))"

definition FilteredUpdateTransaction_encoded_len :: "prost \<Rightarrow> FilteredUpdateTransaction \<Rightarrow> nat" where
  "FilteredUpdateTransaction_encoded_len P u =
     prost_field_encoded_len P 1 (tx_encoded_len P (mt_transaction (fut_transaction u))) +
     nonzero_len (pr_uint64 P 2) (fut_slot u)"

definition FilteredUpdateTransactionStatus_encode_raw :: "prost \<Rightarrow> MessageTransaction \<Rightarrow> bytes" where
  "FilteredUpdateTransactionStatus_encode_raw P m =
     (let tx = mt_transaction m in
      nonzero (pr_uint64 P 1) (mt_slot m) @
      prost_bytes_encode_raw P 2 (ti_signature tx) @
      flag (pr_bool P 3) (ti_is_vote tx) @
      nonzero (pr_uint64 P 4) (ti_index tx) @
      present (message_encode P 5 (pr_error P)) (ts_err (ti_meta tx)))"

definition FilteredUpdateTransactionStatus_encoded_len :: "prost \<Rightarrow> MessageTransaction \<Rightarrow> nat" where
  "FilteredUpdateTransactionStatus_encoded_len P m =
     (let tx = mt_transaction m in
      nonzero_len (pr_uint64 P 1) (mt_slot m) + prost_bytes_encoded_len P 2 (ti_signature tx) +
      flag_len (pr_bool P 3) (ti_is_vote tx) + nonzero_len (pr_uint64 P 4) (ti_index tx) +
      present_len (message_encoded_len P 5 (pr_error P)) (ts_err (ti_meta tx)))"

section \<open>Entries\<close>

definition entry_encode_raw :: "prost \<Rightarrow> MessageEntry \<Rightarrow> bytes" where
  "entry_encode_raw P e =
     nonzero (pr_uint64 P 1) (en_slot e) @
     nonzero (pr_uint64 P 2) (en_index e) @
     nonzero (pr_uint64 P 3) (en_num_hashes e) @
     prost_bytes_encode_raw P 4 (en_hash e) @
     nonzero (pr_uint64 P 5) (en_executed_transaction_count e) @
     nonzero (pr_uint64 P 6) (en_starting_transaction_index e)"

definition entry_encoded_len :: "prost \<Rightarrow> MessageEntry \<Rightarrow> nat" where
  "entry_encoded_len P e =
     nonzero_len (pr_uint64 P 1) (en_slot e) + nonzero_len (pr_uint64 P 2) (en_index e) +
     nonzero_len (pr_uint64 P 3) (en_num_hashes e) + prost_bytes_encoded_len P 4 (en_hash e) +
     nonzero_len (pr_uint64 P 5) (en_executed_transaction_count e) +
     nonzero_len (pr_uint64 P 6) (en_starting_transaction_index e)"

section \<open>Blocks\<close>

text \<open>A loop that encodes every element and keeps the caches it fills.\<close>

fun encode_each :: "('a \<Rightarrow> (bytes \<times> 'a) run) \<Rightarrow> 'a list \<Rightarrow> (bytes \<times> 'a list) run" where
  "encode_each f [] = Some ([], [])"
| "encode_each f (x # xs) =
     do {
       (bs, y) \<leftarrow> f x;
       (rest, ys) \<leftarrow> encode_each f xs;
       Some (bs @ rest, y # ys)
     }"

definition block_encode_transaction :: "prost \<Rightarrow> MessageTransaction \<Rightarrow> (bytes \<times> MessageTransaction) run" where
  "block_encode_transaction P m =
     (case tx_encode_raw P 6 (mt_transaction m) of (bs, tx) \<Rightarrow> Some (bs, m\<lparr>mt_transaction := tx\<rparr>))"

definition block_encode_account ::
  "prost \<Rightarrow> FilterAccountsDataSlice \<Rightarrow> MessageAccount \<Rightarrow> (bytes \<times> MessageAccount) run" where
  "block_encode_account P ds m =
     do {
       (bs, a) \<leftarrow> account_encode_raw P 11 (ac_account m) ds;
       Some (bs, m\<lparr>ac_account := a\<rparr>)
     }"

definition block_encode_entry :: "prost \<Rightarrow> MessageEntry \<Rightarrow> bytes" where
  "block_encode_entry P e =
     pr_encode_key P 13 LengthDelimited @ pr_encode_varint P (of_nat (entry_encoded_len P e)) @ entry_encode_raw P e"

definition FilteredUpdateBlock_encode_raw ::
  "prost \<Rightarrow> FilteredUpdateBlock \<Rightarrow> (bytes \<times> FilteredUpdateBlock) run" where
  "FilteredUpdateBlock_encode_raw P u =
     (let meta = bm_block_meta (fub_meta u) in
      do {
        (txs, txs1) \<leftarrow> encode_each (block_encode_transaction P) (fub_transactions u);
        (accs, accs1) \<leftarrow> encode_each (block_encode_account P (fub_accounts_data_slice u)) (fub_accounts u);
        Some
          (nonzero (pr_uint64 P 1) (um_slot meta) @
           nonempty (pr_string P 2) (um_blockhash meta) @
           present (message_encode P 3 (pr_rewards P)) (um_rewards meta) @
           present (message_encode P 4 (pr_unix_timestamp P)) (um_block_time meta) @
           present (message_encode P 5 (pr_block_height P)) (um_block_height meta) @
           txs @
           nonzero (pr_uint64 P 7) (um_parent_slot meta) @
           nonempty (pr_string P 8) (um_parent_blockhash meta) @
           nonzero (pr_uint64 P 9) (um_executed_transaction_count meta) @
           nonzero (pr_uint64 P 10) (fub_updated_account_count u) @
           accs @
           nonzero (pr_uint64 P 12) (um_entries_count meta) @
           concat (map (block_encode_entry P) (fub_entries u)),
           u\<lparr>fub_transactions := txs1, fub_accounts := accs1\<rparr>)
      })"

definition FilteredUpdateBlock_encoded_len :: "prost \<Rightarrow> FilteredUpdateBlock \<Rightarrow> nat run" where
  "FilteredUpdateBlock_encoded_len P u =
     (let meta = bm_block_meta (fub_meta u) in
      do {
        lens \<leftarrow> map_run (\<lambda>m. account_encoded_len P (ac_account m) (fub_accounts_data_slice u)) (fub_accounts u);
        Some
          (nonzero_len (pr_uint64 P 1) (um_slot meta) +
           nonempty_len (pr_string P 2) (um_blockhash meta) +
           present_len (message_encoded_len P 3 (pr_rewards P)) (um_rewards meta) +
           present_len (message_encoded_len P 4 (pr_unix_timestamp P)) (um_block_time meta) +
           present_len (message_encoded_len P 5 (pr_block_height P)) (um_block_height meta) +
           prost_repeated_encoded_len_map P 6
             (map (\<lambda>m. tx_encoded_len P (mt_transaction m)) (fub_transactions u)) +
           nonzero_len (pr_uint64 P 7) (um_parent_slot meta) +
           nonempty_len (pr_string P 8) (um_parent_blockhash meta) +
           nonzero_len (pr_uint64 P 9) (um_executed_transaction_count meta) +
           nonzero_len (pr_uint64 P 10) (fub_updated_account_count u) +
           prost_repeated_encoded_len_map P 11 lens +
           nonzero_len (pr_uint64 P 12) (um_entries_count meta) +
           prost_repeated_encoded_len_map P 13 (map (entry_encoded_len P) (fub_entries u)))
      })"

section \<open>Updates\<close>

definition FilteredUpdateOneof_encode_raw ::
  "prost \<Rightarrow> FilteredUpdateOneof \<Rightarrow> (bytes \<times> FilteredUpdateOneof) run" where
  "FilteredUpdateOneof_encode_raw P m =
     (case m of
        FAccount a \<Rightarrow> do {
          n \<leftarrow> FilteredUpdateAccount_encoded_len P a;
          (raw, a1) \<leftarrow> FilteredUpdateAccount_encode_raw P a;
          Some (pr_message_encode P 2 n raw, FAccount a1)
        }
      | FSlot s \<Rightarrow>
          Some (pr_message_encode P 3 (FilteredUpdateSlot_encoded_len P s) (FilteredUpdateSlot_encode_raw P s), m)
      | FTransaction t \<Rightarrow>
          (case FilteredUpdateTransaction_encode_raw P t of (raw, t1) \<Rightarrow>
             Some (pr_message_encode P 4 (FilteredUpdateTransaction_encoded_len P t) raw, FTransaction t1))
      | FTransactionStatus t \<Rightarrow>
          Some (pr_message_encode P 10 (FilteredUpdateTransactionStatus_encoded_len P t)
            (FilteredUpdateTransactionStatus_encode_raw P t), m)
      | FBlock b \<Rightarrow> do {
          n \<leftarrow> FilteredUpdateBlock_encoded_len P b;
          (raw, b1) \<leftarrow> FilteredUpdateBlock_encode_raw P b;
          Some (pr_message_encode P 5 n raw, FBlock b1)
        }
      | FPing \<Rightarrow> Some (pr_encode_key P 6 LengthDelimited @ pr_encode_varint P 0, m)
      | FPong i \<Rightarrow> Some (message_encode P 9 (pr_pong P) i, m)
      | FBlockMeta b \<Rightarrow> Some (message_encode P 7 (pr_block_meta P) (bm_block_meta b), m)
      | FEntry e \<Rightarrow> Some (pr_message_encode P 8 (entry_encoded_len P e) (entry_encode_raw P e), m))"

definition FilteredUpdateOneof_encoded_len :: "prost \<Rightarrow> FilteredUpdateOneof \<Rightarrow> nat run" where
  "FilteredUpdateOneof_encoded_len P m =
     (case m of
        FAccount a \<Rightarrow> map_option (pr_message_encoded_len P 2) (FilteredUpdateAccount_encoded_len P a)
      | FSlot s \<Rightarrow> Some (pr_message_encoded_len P 3 (FilteredUpdateSlot_encoded_len P s))
      | FTransaction t \<Rightarrow> Some (pr_message_encoded_len P 4 (FilteredUpdateTransaction_encoded_len P t))
      | FTransactionStatus t \<Rightarrow> Some (pr_message_encoded_len P 10 (FilteredUpdateTransactionStatus_encoded_len P t))
      | FBlock b \<Rightarrow> map_option (pr_message_encoded_len P 5) (FilteredUpdateBlock_encoded_len P b)
      | FPing \<Rightarrow> Some (pr_key_len P 6 + pr_encoded_len_varint P 0)
      | FPong i \<Rightarrow> Some (message_encoded_len P 9 (pr_pong P) i)
      | FBlockMeta b \<Rightarrow> Some (message_encoded_len P 7 (pr_block_meta P) (bm_block_meta b))
      | FEntry e \<Rightarrow> Some (pr_message_encoded_len P 8 (entry_encoded_len P e)))"

definition encode_filter_name :: "prost \<Rightarrow> FilterName \<Rightarrow> bytes" where
  "encode_filter_name P name =
     pr_encode_key P 1 LengthDelimited @ pr_encode_varint P (of_nat (length (str_bytes name))) @ str_bytes name"

definition FilteredUpdate_encode_raw :: "prost \<Rightarrow> FilteredUpdate \<Rightarrow> (bytes \<times> FilteredUpdate) run" where
  "FilteredUpdate_encode_raw P u =
     do {
       (raw, m) \<leftarrow> FilteredUpdateOneof_encode_raw P (fu_message u);
       Some (concat (map (encode_filter_name P) (fu_filters u)) @ raw @
         message_encode P 11 (pr_timestamp P) (fu_created_at u), u\<lparr>fu_message := m\<rparr>)
     }"

definition FilteredUpdate_encoded_len :: "prost \<Rightarrow> FilteredUpdate \<Rightarrow> nat run" where
  "FilteredUpdate_encoded_len P u =
     do {
       n \<leftarrow> FilteredUpdateOneof_encoded_len P (fu_message u);
       Some (prost_repeated_encoded_len_map P 1 (map (\<lambda>name. length (str_bytes name)) (fu_filters u)) + n +
         message_encoded_len P 11 (pr_timestamp P) (fu_created_at u))
     }"

section \<open>Deshred updates\<close>

definition deshred_tx_encoded_len :: "prost \<Rightarrow> MessageDeshredTransactionInfo \<Rightarrow> nat" where
  "deshred_tx_encoded_len P tx =
     prost_bytes_encoded_len P 1 (dti_signature tx) + flag_len (pr_bool P 2) (dti_is_vote tx) +
     message_encoded_len P 3 (pr_transaction P) (dti_transaction tx) +
     prost_repeated_encoded_len_map P 4 (map length (dti_loaded_writable_addresses tx)) +
     prost_repeated_encoded_len_map P 5 (map length (dti_loaded_readonly_addresses tx)) +
     nonzero_len (pr_uint32 P 6) (dti_completed_data_set_starting_shred_index tx) +
     nonzero_len (pr_uint32 P 7) (dti_completed_data_set_ending_shred_index_exclusive tx)"

definition deshred_tx_encode_raw :: "prost \<Rightarrow> u32 \<Rightarrow> MessageDeshredTransactionInfo \<Rightarrow> bytes" where
  "deshred_tx_encode_raw P tag tx =
     pr_encode_key P tag LengthDelimited @ pr_encode_varint P (of_nat (deshred_tx_encoded_len P tx)) @
     prost_bytes_encode_raw P 1 (dti_signature tx) @
     flag (pr_bool P 2) (dti_is_vote tx) @
     message_encode P 3 (pr_transaction P) (dti_transaction tx) @
     concat (map (prost_bytes_encode_raw P 4) (dti_loaded_writable_addresses tx)) @
     concat (map (prost_bytes_encode_raw P 5) (dti_loaded_readonly_addresses tx)) @
     nonzero (pr_uint32 P 6) (dti_completed_data_set_starting_shred_index tx) @
     nonzero (pr_uint32 P 7) (dti_completed_data_set_ending_shred_index_exclusive tx)"

definition FilteredUpdateDeshredTransaction_encode_raw :: "prost \<Rightarrow> MessageDeshredTransaction \<Rightarrow> bytes" where
  "FilteredUpdateDeshredTransaction_encode_raw P m =
     deshred_tx_encode_raw P 1 (md_transaction m) @ nonzero (pr_uint64 P 2) (md_slot m)"

definition FilteredUpdateDeshredTransaction_encoded_len :: "prost \<Rightarrow> MessageDeshredTransaction \<Rightarrow> nat" where
  "FilteredUpdateDeshredTransaction_encoded_len P m =
     prost_field_encoded_len P 1 (deshred_tx_encoded_len P (md_transaction m)) +
     nonzero_len (pr_uint64 P 2) (md_slot m)"

definition FilteredUpdateDeshredOneof_encode_raw :: "prost \<Rightarrow> FilteredUpdateDeshredOneof \<Rightarrow> bytes" where
  "FilteredUpdateDeshredOneof_encode_raw P m =
     (case m of
        DDeshredTransaction t \<Rightarrow>
          pr_message_encode P 2 (FilteredUpdateDeshredTransaction_encoded_len P t)
            (FilteredUpdateDeshredTransaction_encode_raw P t)
      | DPing \<Rightarrow> pr_encode_key P 3 LengthDelimited @ pr_encode_varint P 0
      | DPong i \<Rightarrow> message_encode P 4 (pr_pong P) i
      | DSlot s \<Rightarrow> pr_message_encode P 6 (FilteredUpdateSlot_encoded_len P s) (FilteredUpdateSlot_encode_raw P s))"

definition FilteredUpdateDeshredOneof_encoded_len :: "prost \<Rightarrow> FilteredUpdateDeshredOneof \<Rightarrow> nat" where
  "FilteredUpdateDeshredOneof_encoded_len P m =
     (case m of
        DDeshredTransaction t \<Rightarrow> pr_message_encoded_len P 2 (FilteredUpdateDeshredTransaction_encoded_len P t)
      | DPing \<Rightarrow> pr_key_len P 3 + pr_encoded_len_varint P 0
      | DPong i \<Rightarrow> message_encoded_len P 4 (pr_pong P) i
      | DSlot s \<Rightarrow> pr_message_encoded_len P 6 (FilteredUpdateSlot_encoded_len P s))"

definition FilteredUpdateDeshred_encode_raw :: "prost \<Rightarrow> FilteredUpdateDeshred \<Rightarrow> bytes" where
  "FilteredUpdateDeshred_encode_raw P u =
     concat (map (encode_filter_name P) (fdu_filters u)) @
     FilteredUpdateDeshredOneof_encode_raw P (fdu_message u) @
     message_encode P 5 (pr_timestamp P) (fdu_created_at u)"

definition FilteredUpdateDeshred_encoded_len :: "prost \<Rightarrow> FilteredUpdateDeshred \<Rightarrow> nat" where
  "FilteredUpdateDeshred_encoded_len P u =
     prost_repeated_encoded_len_map P 1 (map (\<lambda>name. length (str_bytes name)) (fdu_filters u)) +
     FilteredUpdateDeshredOneof_encoded_len P (fdu_message u) +
     message_encoded_len P 5 (pr_timestamp P) (fdu_created_at u)"

end
