(* ===== verification/Encoding_Claims.thy ===== *)
theory Encoding_Claims
  imports Update_Encoding
begin

text \<open>
  The hand-written encoding of updates is the protobuf encoding of the message the conversion builds,
  whatever the caches hold, and the lengths it announces are the lengths it writes. The schema of
  \<^verbatim>\<open>yellowstone-grpc-proto/proto/geyser.proto\<close> is written down as a reference encoder.
\<close>

section \<open>The contract of prost\<close>

definition codec_ok :: "'a codec \<Rightarrow> bool" where
  "codec_ok c \<longleftrightarrow> (\<forall>x. enc_len c x = length (enc c x))"

definition delimited :: "prost \<Rightarrow> u32 \<Rightarrow> bytes \<Rightarrow> bytes" where
  "delimited P tag v = pr_encode_key P tag LengthDelimited @ pr_encode_varint P (of_nat (length v)) @ v"

definition prost_ok :: "prost \<Rightarrow> bool" where
  "prost_ok P \<longleftrightarrow>
     (\<forall>t w. length (pr_encode_key P t w) = pr_key_len P t) \<and>
     (\<forall>x. length (pr_encode_varint P x) = pr_encoded_len_varint P x) \<and>
     (\<forall>t. codec_ok (pr_uint64 P t)) \<and> (\<forall>t. codec_ok (pr_uint32 P t)) \<and> (\<forall>t. codec_ok (pr_int32 P t)) \<and>
     (\<forall>t. codec_ok (pr_bool P t)) \<and> (\<forall>t. codec_ok (pr_string P t)) \<and>
     (\<forall>t s. enc (pr_string P t) s = delimited P t (str_bytes s)) \<and>
     (\<forall>t n raw. pr_message_encode P t n raw = pr_encode_key P t LengthDelimited @ pr_encode_varint P (of_nat n) @ raw) \<and>
     (\<forall>t n. pr_message_encoded_len P t n = pr_key_len P t + pr_encoded_len_varint P (of_nat n) + n) \<and>
     codec_ok (pr_transaction P) \<and> codec_ok (pr_meta P) \<and> codec_ok (pr_error P) \<and> codec_ok (pr_rewards P) \<and>
     codec_ok (pr_unix_timestamp P) \<and> codec_ok (pr_block_height P) \<and> codec_ok (pr_block_meta P) \<and>
     codec_ok (pr_pong P) \<and> codec_ok (pr_timestamp P)"

section \<open>The schema\<close>

definition proto_bytes :: "prost \<Rightarrow> u32 \<Rightarrow> bytes \<Rightarrow> bytes" where
  "proto_bytes P tag v = (if v = [] then [] else delimited P tag v)"

definition proto_AccountInfo :: "prost \<Rightarrow> SubscribeUpdateAccountInfo \<Rightarrow> bytes" where
  "proto_AccountInfo P a =
     proto_bytes P 1 (uai_pubkey a) @ nonzero (pr_uint64 P 2) (uai_lamports a) @ proto_bytes P 3 (uai_owner a) @
     flag (pr_bool P 4) (uai_executable a) @ nonzero (pr_uint64 P 5) (uai_rent_epoch a) @
     proto_bytes P 6 (uai_data a) @ nonzero (pr_uint64 P 7) (uai_write_version a) @
     present (delimited P 8) (uai_txn_signature a)"

definition proto_Account :: "prost \<Rightarrow> SubscribeUpdateAccount \<Rightarrow> bytes" where
  "proto_Account P a =
     present (delimited P 1 \<circ> proto_AccountInfo P) (ua_account a) @ nonzero (pr_uint64 P 2) (ua_slot a) @
     flag (pr_bool P 3) (ua_is_startup a)"

definition proto_Slot :: "prost \<Rightarrow> SubscribeUpdateSlot \<Rightarrow> bytes" where
  "proto_Slot P s =
     nonzero (pr_uint64 P 1) (us_slot s) @ present (enc (pr_uint64 P 2)) (us_parent s) @
     nonzero (pr_int32 P 3) (us_status s) @ present (enc (pr_string P 4)) (us_dead_error s)"

definition proto_TransactionInfo :: "prost \<Rightarrow> SubscribeUpdateTransactionInfo \<Rightarrow> bytes" where
  "proto_TransactionInfo P t =
     proto_bytes P 1 (uti_signature t) @ flag (pr_bool P 2) (uti_is_vote t) @
     present (delimited P 3 \<circ> enc (pr_transaction P)) (uti_transaction t) @
     present (delimited P 4 \<circ> enc (pr_meta P)) (uti_meta t) @ nonzero (pr_uint64 P 5) (uti_index t)"

definition proto_Transaction :: "prost \<Rightarrow> SubscribeUpdateTransaction \<Rightarrow> bytes" where
  "proto_Transaction P t =
     present (delimited P 1 \<circ> proto_TransactionInfo P) (ut_transaction t) @ nonzero (pr_uint64 P 2) (ut_slot t)"

definition proto_TransactionStatus :: "prost \<Rightarrow> SubscribeUpdateTransactionStatus \<Rightarrow> bytes" where
  "proto_TransactionStatus P t =
     nonzero (pr_uint64 P 1) (uts_slot t) @ proto_bytes P 2 (uts_signature t) @ flag (pr_bool P 3) (uts_is_vote t) @
     nonzero (pr_uint64 P 4) (uts_index t) @ present (delimited P 5 \<circ> enc (pr_error P)) (uts_err t)"

definition proto_Entry :: "prost \<Rightarrow> SubscribeUpdateEntry \<Rightarrow> bytes" where
  "proto_Entry P e =
     nonzero (pr_uint64 P 1) (ue_slot e) @ nonzero (pr_uint64 P 2) (ue_index e) @
     nonzero (pr_uint64 P 3) (ue_num_hashes e) @ proto_bytes P 4 (ue_hash e) @
     nonzero (pr_uint64 P 5) (ue_executed_transaction_count e) @
     nonzero (pr_uint64 P 6) (ue_starting_transaction_index e)"

definition proto_Block :: "prost \<Rightarrow> SubscribeUpdateBlock \<Rightarrow> bytes" where
  "proto_Block P b =
     nonzero (pr_uint64 P 1) (ub_slot b) @ nonempty (pr_string P 2) (ub_blockhash b) @
     present (delimited P 3 \<circ> enc (pr_rewards P)) (ub_rewards b) @
     present (delimited P 4 \<circ> enc (pr_unix_timestamp P)) (ub_block_time b) @
     present (delimited P 5 \<circ> enc (pr_block_height P)) (ub_block_height b) @
     concat (map (delimited P 6 \<circ> proto_TransactionInfo P) (ub_transactions b)) @
     nonzero (pr_uint64 P 7) (ub_parent_slot b) @ nonempty (pr_string P 8) (ub_parent_blockhash b) @
     nonzero (pr_uint64 P 9) (ub_executed_transaction_count b) @
     nonzero (pr_uint64 P 10) (ub_updated_account_count b) @
     concat (map (delimited P 11 \<circ> proto_AccountInfo P) (ub_accounts b)) @
     nonzero (pr_uint64 P 12) (ub_entries_count b) @
     concat (map (delimited P 13 \<circ> proto_Entry P) (ub_entries b))"

definition proto_UpdateOneof :: "prost \<Rightarrow> UpdateOneof \<Rightarrow> bytes" where
  "proto_UpdateOneof P m =
     (case m of
        UAccount a \<Rightarrow> delimited P 2 (proto_Account P a)
      | USlot s \<Rightarrow> delimited P 3 (proto_Slot P s)
      | UTransaction t \<Rightarrow> delimited P 4 (proto_Transaction P t)
      | UTransactionStatus t \<Rightarrow> delimited P 10 (proto_TransactionStatus P t)
      | UBlock b \<Rightarrow> delimited P 5 (proto_Block P b)
      | UPing \<Rightarrow> delimited P 6 []
      | UPong i \<Rightarrow> delimited P 9 (enc (pr_pong P) i)
      | UBlockMeta b \<Rightarrow> delimited P 7 (enc (pr_block_meta P) b)
      | UEntry e \<Rightarrow> delimited P 8 (proto_Entry P e))"

definition proto_SubscribeUpdate :: "prost \<Rightarrow> SubscribeUpdate \<Rightarrow> bytes" where
  "proto_SubscribeUpdate P u =
     concat (map (enc (pr_string P 1)) (su_filters u)) @ present (proto_UpdateOneof P) (su_update_oneof u) @
     present (delimited P 11 \<circ> enc (pr_timestamp P)) (su_created_at u)"

section \<open>Lengths\<close>

named_theorems encode_len

lemma prost_laws:
  assumes "prost_ok P"
  shows [encode_len]: "length (pr_encode_key P t w) = pr_key_len P t"
    and [encode_len]: "length (pr_encode_varint P x) = pr_encoded_len_varint P x"
    and [encode_len]: "enc_len (pr_uint64 P t) v = length (enc (pr_uint64 P t) v)"
    and [encode_len]: "enc_len (pr_uint32 P t) y = length (enc (pr_uint32 P t) y)"
    and [encode_len]: "enc_len (pr_int32 P t) i = length (enc (pr_int32 P t) i)"
    and [encode_len]: "enc_len (pr_bool P t) b = length (enc (pr_bool P t) b)"
    and [encode_len]: "enc_len (pr_string P t) s = length (enc (pr_string P t) s)"
    and [encode_len]: "pr_message_encoded_len P t n = pr_key_len P t + pr_encoded_len_varint P (of_nat n) + n"
    and [encode_len]: "enc_len (pr_transaction P) tx = length (enc (pr_transaction P) tx)"
    and [encode_len]: "enc_len (pr_meta P) meta = length (enc (pr_meta P) meta)"
    and [encode_len]: "enc_len (pr_error P) e = length (enc (pr_error P) e)"
    and [encode_len]: "enc_len (pr_rewards P) r = length (enc (pr_rewards P) r)"
    and [encode_len]: "enc_len (pr_unix_timestamp P) z = length (enc (pr_unix_timestamp P) z)"
    and [encode_len]: "enc_len (pr_block_height P) h = length (enc (pr_block_height P) h)"
    and [encode_len]: "enc_len (pr_block_meta P) m = length (enc (pr_block_meta P) m)"
    and [encode_len]: "enc_len (pr_pong P) k = length (enc (pr_pong P) k)"
    and [encode_len]: "enc_len (pr_timestamp P) u = length (enc (pr_timestamp P) u)"
    and message_raw: "pr_message_encode P t n raw = pr_encode_key P t LengthDelimited @ pr_encode_varint P (of_nat n) @ raw"
    and string_raw: "enc (pr_string P t) s = delimited P t (str_bytes s)"
  using assms by (simp_all add: prost_ok_def codec_ok_def)

lemma length_optional [encode_len]:
  "nonzero_len c x = (if x \<noteq> 0 then enc_len c x else 0)" "length (nonzero c x) = (if x \<noteq> 0 then length (enc c x) else 0)"
  "flag_len d b = (if b then enc_len d b else 0)" "length (flag d b) = (if b then length (enc d b) else 0)"
  "nonempty_len f s = (if s \<noteq> [] then enc_len f s else 0)" "length (nonempty f s) = (if s \<noteq> [] then length (enc f s) else 0)"
  by (simp_all add: nonzero_len_def nonzero_def flag_len_def flag_def nonempty_len_def nonempty_def)

lemma length_delimited [encode_len]:
  "prost_ok P \<Longrightarrow> length (delimited P t v) = pr_key_len P t + pr_encoded_len_varint P (of_nat (length v)) + length v"
  by (simp add: delimited_def encode_len)

section \<open>Account data\<close>

lemma sliced_length:
  assumes "slices_ok ds" "length source < 2 ^ 63" "get_slice ds source = Some data"
  shows "length data \<le> length source"
proof (cases "ds = []")
  case True
  then show ?thesis using assms(3) by (simp add: get_slice_def)
next
  case False
  let ?fit = "fitting source ds"
  have ok: "slices_ok ?fit"
    using assms(1) by (auto simp: slices_ok_def fitting_def list_all_iff intro: sorted_wrt_filter)
  have "data = concat (map (\<lambda>(a, b). take (unat b - unat a) (drop (unat a) source)) ?fit)"
    using get_slice_ok [OF assms(1,2)] False assms(3) by simp
  then have "length data \<le> sum_list (map (\<lambda>(a, b). unat b - unat a) ?fit)"
    by (auto simp: length_concat comp_def split_def intro!: sum_list_mono)
  also have "\<dots> = sum_list (map (\<lambda>(a, b). unat (b - a)) ?fit)"
    using ok by (intro arg_cong [where f = sum_list] map_cong) (auto simp: slices_ok_def list_all_iff unat_sub)
  also have "\<dots> \<le> length source - 0"
    using ok by (intro disjoint_sum_le) (auto simp: fitting_def)
  finally show ?thesis by simp
qed

lemma slice_encoded:
  assumes "slices_ok ds" "length source < 2 ^ 63" "get_slice ds source = Some data"
  shows "slice_encode_raw P ds tag source = Some (proto_bytes P tag data)"
proof -
  have len: "get_slice_len ds source = Some (length data)" using get_slice_len_ok assms by simp
  have small: "length data < 2 ^ 64" using sliced_length [OF assms] assms(2) by simp
  have body: "(if ds = [] then Some source else copy_slices source ds) = Some data"
    using assms(3) by (auto simp: get_slice_def Let_def split: if_splits)
  show ?thesis
  proof (cases "data = []")
    case True
    then show ?thesis by (simp add: slice_encode_raw_def len proto_bytes_def)
  next
    case False
    then have "(of_nat (length data) :: u64) \<noteq> 0" using small by (simp add: word_of_nat_eq_0_iff nat_dvd_not_less)
    then show ?thesis using False by (simp add: slice_encode_raw_def len body proto_bytes_def delimited_def Let_def word_gt_0)
  qed
qed

definition info_of :: "MessageAccountInfo \<Rightarrow> bytes \<Rightarrow> SubscribeUpdateAccountInfo" where
  "info_of acc data =
     \<lparr>uai_pubkey = ai_pubkey acc, uai_lamports = ai_lamports acc, uai_owner = ai_owner acc,
      uai_executable = ai_executable acc, uai_rent_epoch = ai_rent_epoch acc, uai_data = data,
      uai_write_version = ai_write_version acc, uai_txn_signature = ai_txn_signature acc\<rparr>"

lemma as_account_info: "as_subscribe_update_account m ds = map_option (info_of (ac_account m)) (get_slice ds (ai_data (ac_account m)))"
  by (cases "get_slice ds (ai_data (ac_account m))") (simp_all add: as_subscribe_update_account_def info_of_def Let_def)

text \<open>Keys and signatures have their length, and a filled cache holds the encoding of the account.\<close>

definition account_ok :: "prost \<Rightarrow> MessageAccountInfo \<Rightarrow> bool" where
  "account_ok P acc \<longleftrightarrow>
     length (ai_pubkey acc) = 32 \<and> length (ai_owner acc) = 32 \<and> length (ai_data acc) < 2 ^ 63 \<and>
     (case ai_txn_signature acc of None \<Rightarrow> True | Some s \<Rightarrow> length s = 64) \<and>
     (case ai_pre_encoded acc of None \<Rightarrow> True | Some bs \<Rightarrow> bs = proto_AccountInfo P (info_of acc (ai_data acc)))"

text \<open>The same account but for its cache.\<close>

definition same_account :: "MessageAccountInfo \<Rightarrow> MessageAccountInfo \<Rightarrow> bool" where
  "same_account acc acc' \<longleftrightarrow> acc\<lparr>ai_pre_encoded := None\<rparr> = acc'\<lparr>ai_pre_encoded := None\<rparr>"

lemma same_account_data:
  assumes "same_account acc acc'"
  shows "info_of acc' = info_of acc" "ai_data acc' = ai_data acc"
  using assms by (cases acc; cases acc'; auto simp: same_account_def info_of_def)+

lemma bytes_raw: "prost_bytes_encode_raw P t v = delimited P t v"
  by (simp add: prost_bytes_encode_raw_def delimited_def)

lemma proto_bytes_nonempty: "v \<noteq> [] \<Longrightarrow> proto_bytes P t v = delimited P t v"
  by (simp add: proto_bytes_def)

lemma pre_encode_account:
  assumes "account_ok P acc" "ai_pre_encoded acc = None"
  shows "AccountEncoder_pre_encode P acc =
    acc\<lparr>ai_pre_encoded := Some (proto_AccountInfo P (info_of acc (ai_data acc)))\<rparr>"
proof -
  have "ai_pubkey acc \<noteq> []" "ai_owner acc \<noteq> []" using assms(1) by (auto simp: account_ok_def)
  then show ?thesis
    using assms(2)
    by (simp add: AccountEncoder_pre_encode_def Let_def proto_AccountInfo_def info_of_def bytes_raw proto_bytes_def present_def split: option.splits)
qed

lemma account_fallback_len:
  assumes P: "prost_ok P" and "account_ok P acc" and "slices_ok ds" and "get_slice ds (ai_data acc) = Some data"
  shows "account_encoded_len P acc ds = Some (length (proto_AccountInfo P (info_of acc data)))"
proof -
  have len: "get_slice_len ds (ai_data acc) = Some (length data)"
    using assms by (simp add: account_ok_def get_slice_len_ok)
  have whole: "data = ai_data acc" if "ds = []" using that assms(4) by (simp add: get_slice_def)
  have ne: "ai_pubkey acc \<noteq> []" "ai_owner acc \<noteq> []" and sz: "length (ai_pubkey acc) = 32" "length (ai_owner acc) = 32"
    and sig: "\<And>s. ai_txn_signature acc = Some s \<Longrightarrow> length s = 64"
    using assms(2) by (auto simp: account_ok_def)
  have "prost_field_encoded_len P 1 32 + nonzero_len (pr_uint64 P 2) (ai_lamports acc) +
     prost_field_encoded_len P 3 32 + flag_len (pr_bool P 4) (ai_executable acc) +
     nonzero_len (pr_uint64 P 5) (ai_rent_epoch acc) +
     (if length data \<noteq> 0 then prost_field_encoded_len P 6 (length data) else 0) +
     nonzero_len (pr_uint64 P 7) (ai_write_version acc) +
     present_len (\<lambda>_. prost_field_encoded_len P 8 64) (ai_txn_signature acc) =
     length (proto_AccountInfo P (info_of acc data))"
    using ne sz sig
    by (cases "ai_txn_signature acc")
      (simp_all add: proto_AccountInfo_def info_of_def P encode_len
        prost_field_encoded_len_def proto_bytes_def present_def present_len_def)
  then have "(if ds = [] then ai_pre_encoded acc else None) = None \<Longrightarrow> ?thesis"
    by (simp add: account_encoded_len_def len)
  moreover have "?thesis" if "(if ds = [] then ai_pre_encoded acc else None) = Some bs" for bs
    using that assms(2) whole by (simp add: account_encoded_len_def account_ok_def split: if_splits)
  ultimately show ?thesis by blast
qed

lemma account_encoded:
  assumes P: "prost_ok P" and ok: "account_ok P acc" and ds: "slices_ok ds"
  shows "\<exists>data acc'. get_slice ds (ai_data acc) = Some data \<and>
    account_encoded_len P acc ds = Some (length (proto_AccountInfo P (info_of acc data))) \<and>
    account_encode_raw P tag acc ds = Some (delimited P tag (proto_AccountInfo P (info_of acc data)), acc') \<and>
    account_ok P acc' \<and> same_account acc acc'"
proof -
  have src: "length (ai_data acc) < 2 ^ 63" using ok by (simp add: account_ok_def)
  obtain data where data: "get_slice ds (ai_data acc) = Some data" using get_slice_ok [OF ds src] by simp
  note len = account_fallback_len [OF P ok ds data]
  show ?thesis
  proof (cases "ds = []")
    case True
    then have whole: "data = ai_data acc" using data by (simp add: get_slice_def)
    show ?thesis
    proof (cases "ai_pre_encoded acc")
      case (Some bs)
      then show ?thesis using True data len ok whole
        by (auto simp: account_encode_raw_def account_return_encoded_def delimited_def account_ok_def same_account_def Let_def)
    next
      case None
      note pre = pre_encode_account [OF ok None]
      have "account_ok P (AccountEncoder_pre_encode P acc)"
        using ok by (simp add: pre account_ok_def info_of_def)
      then show ?thesis using True None data len whole
        by (simp add: account_encode_raw_def account_return_encoded_def delimited_def pre same_account_def Let_def)
    qed
  next
    case False
    have ne: "ai_pubkey acc \<noteq> []" "ai_owner acc \<noteq> []" using ok by (auto simp: account_ok_def)
    have "account_encode_fallback P tag acc ds = Some (delimited P tag (proto_AccountInfo P (info_of acc data)))"
      using ne
      by (simp add: account_encode_fallback_def len slice_encoded [OF ds src data] bytes_raw proto_AccountInfo_def
          info_of_def proto_bytes_def present_def delimited_def split: option.splits)
    then show ?thesis using False data len ok by (auto simp: account_encode_raw_def Let_def same_account_def)
  qed
qed

section \<open>Transactions\<close>

definition tx_bytes :: "prost \<Rightarrow> MessageTransactionInfo \<Rightarrow> bytes" where
  "tx_bytes P tx = proto_TransactionInfo P
     \<lparr>uti_signature = ti_signature tx, uti_is_vote = ti_is_vote tx, uti_transaction = Some (ti_transaction tx),
      uti_meta = Some (ti_meta tx), uti_index = ti_index tx\<rparr>"

definition tx_ok :: "prost \<Rightarrow> MessageTransactionInfo \<Rightarrow> bool" where
  "tx_ok P tx \<longleftrightarrow> length (ti_signature tx) = 64 \<and>
     (case ti_pre_encoded tx of None \<Rightarrow> True | Some bs \<Rightarrow> bs = tx_bytes P tx)"

definition same_transaction :: "MessageTransactionInfo \<Rightarrow> MessageTransactionInfo \<Rightarrow> bool" where
  "same_transaction tx tx' \<longleftrightarrow> tx\<lparr>ti_pre_encoded := None\<rparr> = tx'\<lparr>ti_pre_encoded := None\<rparr>"

lemma as_transaction_bytes: "proto_TransactionInfo P (as_subscribe_update_transaction m) = tx_bytes P (mt_transaction m)"
  by (simp add: as_subscribe_update_transaction_def tx_bytes_def Let_def)

lemma message_delimited: "prost_ok P \<Longrightarrow> n = length raw \<Longrightarrow> pr_message_encode P t n raw = delimited P t raw"
  by (simp add: message_raw delimited_def)

lemma pre_encode_transaction:
  assumes "prost_ok P" "tx_ok P tx"
  shows "TransactionEncoder_encode_raw P tx = tx_bytes P tx"
  using assms
  by (auto simp: TransactionEncoder_encode_raw_def tx_bytes_def proto_TransactionInfo_def proto_bytes_def tx_ok_def
      present_def message_delimited encode_len delimited_def)

lemma tx_len:
  assumes P: "prost_ok P" and ok: "tx_ok P tx"
  shows "tx_encoded_len P tx = length (tx_bytes P tx)"
proof -
  have ne: "ti_signature tx \<noteq> []" using ok by (auto simp: tx_ok_def)
  show ?thesis
    using ok ne
    by (auto simp: tx_encoded_len_def tx_bytes_def proto_TransactionInfo_def proto_bytes_def tx_ok_def present_def
        prost_bytes_encoded_len_def prost_field_encoded_len_def P encode_len split: option.splits)
qed

lemma tx_encoded:
  assumes P: "prost_ok P" and ok: "tx_ok P tx"
  shows "\<exists>tx'. tx_encode_raw P tag tx = (delimited P tag (tx_bytes P tx), tx') \<and> tx_ok P tx' \<and> same_transaction tx tx'"
proof (cases "ti_pre_encoded tx")
  case None
  have "tx_ok P (TransactionEncoder_pre_encode P tx)"
    using ok None by (simp add: TransactionEncoder_pre_encode_def tx_ok_def pre_encode_transaction [OF P ok])
      (simp add: tx_bytes_def)
  then show ?thesis using None
    by (simp add: tx_encode_raw_def Let_def TransactionEncoder_pre_encode_def transaction_return_encoded_def
        pre_encode_transaction [OF P ok] delimited_def same_transaction_def)
next
  case (Some bs)
  then show ?thesis using ok
    by (simp add: tx_encode_raw_def transaction_return_encoded_def tx_ok_def delimited_def same_transaction_def)
qed

section \<open>Entries and slots\<close>

lemma entry_encoded:
  assumes P: "prost_ok P" and "length (en_hash e) = 32"
  shows "entry_encode_raw P e = proto_Entry P (as_subscribe_update_entry e)"
    and "entry_encoded_len P e = length (proto_Entry P (as_subscribe_update_entry e))"
proof -
  have ne: "en_hash e \<noteq> []" using assms(2) by auto
  then show "entry_encode_raw P e = proto_Entry P (as_subscribe_update_entry e)"
    by (simp add: entry_encode_raw_def proto_Entry_def as_subscribe_update_entry_def bytes_raw proto_bytes_def)
  show "entry_encoded_len P e = length (proto_Entry P (as_subscribe_update_entry e))"
    using ne by (simp add: entry_encoded_len_def proto_Entry_def as_subscribe_update_entry_def proto_bytes_def
        prost_bytes_encoded_len_def prost_field_encoded_len_def P encode_len)
qed

lemma slot_len: "prost_ok P \<Longrightarrow> FilteredUpdateSlot_encoded_len P s = length (FilteredUpdateSlot_encode_raw P s)"
  by (simp add: FilteredUpdateSlot_encoded_len_def FilteredUpdateSlot_encode_raw_def encode_len present_def
      present_len_def split: option.splits)

section \<open>Updates\<close>

definition same_tx_message :: "MessageTransaction \<Rightarrow> MessageTransaction \<Rightarrow> bool" where
  "same_tx_message m m' \<longleftrightarrow> (\<exists>tx. m' = m\<lparr>mt_transaction := tx\<rparr> \<and> same_transaction (mt_transaction m) tx)"

definition same_account_message :: "MessageAccount \<Rightarrow> MessageAccount \<Rightarrow> bool" where
  "same_account_message m m' \<longleftrightarrow> (\<exists>a. m' = m\<lparr>ac_account := a\<rparr> \<and> same_account (ac_account m) a)"

lemma same_tx_update:
  assumes "same_tx_message m m'"
  shows "as_subscribe_update_transaction m' = as_subscribe_update_transaction m"
proof -
  obtain tx where m': "m' = m\<lparr>mt_transaction := tx\<rparr>" and "same_transaction (mt_transaction m) tx"
    using assms by (auto simp: same_tx_message_def)
  then show ?thesis
    by (cases "mt_transaction m"; cases tx) (simp add: same_transaction_def as_subscribe_update_transaction_def Let_def)
qed

lemma same_account_update:
  "same_account_message m m' \<Longrightarrow> as_subscribe_update_account m' ds = as_subscribe_update_account m ds"
  using same_account_data by (auto simp: same_account_message_def as_account_info)

lemma encode_each_all:
  assumes "\<And>x. x \<in> set xs \<Longrightarrow> \<exists>y. f x = Some (g x, y) \<and> R x y"
  shows "\<exists>ys. encode_each f xs = Some (concat (map g xs), ys) \<and> list_all2 R xs ys"
  using assms
proof (induction xs)
  case (Cons x xs)
  then obtain ys where "encode_each f xs = Some (concat (map g xs), ys)" "list_all2 R xs ys" by auto
  moreover obtain y where "f x = Some (g x, y)" "R x y" using Cons.prems by auto
  ultimately show ?case by auto
qed simp

lemma length_delimited_each:
  assumes "prost_ok P"
  shows "length (concat (map (delimited P t \<circ> g) xs)) = prost_repeated_encoded_len_map P t (map (length \<circ> g) xs)"
  by (induction xs) (simp_all add: prost_repeated_encoded_len_map_def assms encode_len)

definition block_ok :: "prost \<Rightarrow> FilteredUpdateBlock \<Rightarrow> bool" where
  "block_ok P b \<longleftrightarrow> slices_ok (fub_accounts_data_slice b) \<and>
     list_all (\<lambda>m. tx_ok P (mt_transaction m)) (fub_transactions b) \<and>
     list_all (\<lambda>m. account_ok P (ac_account m)) (fub_accounts b) \<and>
     list_all (\<lambda>e. length (en_hash e) = 32) (fub_entries b)"

definition oneof_ok :: "prost \<Rightarrow> FilteredUpdateOneof \<Rightarrow> bool" where
  "oneof_ok P m =
     (case m of
        FAccount a \<Rightarrow> account_ok P (ac_account (fua_account a)) \<and> slices_ok (fua_data_slice a)
      | FTransaction t \<Rightarrow> tx_ok P (mt_transaction (fut_transaction t))
      | FTransactionStatus t \<Rightarrow> tx_ok P (mt_transaction t)
      | FBlock b \<Rightarrow> block_ok P b
      | FEntry e \<Rightarrow> length (en_hash e) = 32
      | _ \<Rightarrow> True)"

text \<open>What encoding a message has to give: the schema's bytes, their length and an equivalent message.\<close>

definition encodes :: "prost \<Rightarrow> FilteredUpdateOneof \<Rightarrow> bool" where
  "encodes P m \<longleftrightarrow> (\<exists>o1 m'. as_update_oneof m = Some o1 \<and>
     FilteredUpdateOneof_encode_raw P m = Some (proto_UpdateOneof P o1, m') \<and>
     FilteredUpdateOneof_encoded_len P m = Some (length (proto_UpdateOneof P o1)) \<and>
     oneof_ok P m' \<and> as_update_oneof m' = Some o1)"

lemma encodes_account:
  assumes P: "prost_ok P" and ok: "oneof_ok P (FAccount a)"
  shows "encodes P (FAccount a)"
proof -
  let ?acc = "ac_account (fua_account a)"
  have aok: "account_ok P ?acc" and ds: "slices_ok (fua_data_slice a)" using ok by (simp_all add: oneof_ok_def)
  obtain data acc' where
    data: "get_slice (fua_data_slice a) (ai_data ?acc) = Some data" and
    len: "account_encoded_len P ?acc (fua_data_slice a) = Some (length (proto_AccountInfo P (info_of ?acc data)))" and
    raw: "account_encode_raw P 1 ?acc (fua_data_slice a) =
      Some (delimited P 1 (proto_AccountInfo P (info_of ?acc data)), acc')" and
    ok': "account_ok P acc'" and same: "same_account ?acc acc'"
    using account_encoded [OF P aok ds] by blast
  let ?u = "\<lparr>ua_account = Some (info_of ?acc data), ua_slot = ac_slot (fua_account a), ua_is_startup = ac_is_startup (fua_account a)\<rparr>"
  have flen: "FilteredUpdateAccount_encoded_len P a = Some (length (proto_Account P ?u))"
    by (simp add: FilteredUpdateAccount_encoded_len_def len Let_def proto_Account_def present_def
        prost_field_encoded_len_def P encode_len)
  have fraw: "FilteredUpdateAccount_encode_raw P a = Some (proto_Account P ?u, a\<lparr>fua_account := (fua_account a)\<lparr>ac_account := acc'\<rparr>\<rparr>)"
    by (simp add: FilteredUpdateAccount_encode_raw_def raw Let_def proto_Account_def present_def)
  show ?thesis
    unfolding encodes_def
    using data ok' ds same_account_data [OF same]
    by (auto simp: as_update_oneof_def as_account_info FilteredUpdateOneof_encode_raw_def FilteredUpdateOneof_encoded_len_def
        flen fraw proto_UpdateOneof_def message_delimited [OF P] P encode_len oneof_ok_def)
qed

lemma encodes_transaction:
  assumes P: "prost_ok P" and ok: "oneof_ok P (FTransaction t)"
  shows "encodes P (FTransaction t)"
proof -
  let ?tx = "mt_transaction (fut_transaction t)"
  have tok: "tx_ok P ?tx" using ok by (simp add: oneof_ok_def)
  obtain tx' where raw: "tx_encode_raw P 1 ?tx = (delimited P 1 (tx_bytes P ?tx), tx')"
    and ok': "tx_ok P tx'" and same: "same_transaction ?tx tx'" using tx_encoded [OF P tok] by blast
  let ?u = "\<lparr>ut_transaction = Some (as_subscribe_update_transaction (fut_transaction t)), ut_slot = fut_slot t\<rparr>"
  have upd: "as_subscribe_update_transaction ((fut_transaction t)\<lparr>mt_transaction := tx'\<rparr>) =
      as_subscribe_update_transaction (fut_transaction t)"
    using same by (intro same_tx_update) (auto simp: same_tx_message_def)
  have flen: "FilteredUpdateTransaction_encoded_len P t = length (proto_Transaction P ?u)"
    by (simp add: FilteredUpdateTransaction_encoded_len_def tx_len [OF P tok] proto_Transaction_def present_def
        as_transaction_bytes prost_field_encoded_len_def P encode_len)
  have fraw: "FilteredUpdateTransaction_encode_raw P t =
      (proto_Transaction P ?u, t\<lparr>fut_transaction := (fut_transaction t)\<lparr>mt_transaction := tx'\<rparr>\<rparr>)"
    by (simp add: FilteredUpdateTransaction_encode_raw_def raw Let_def proto_Transaction_def present_def as_transaction_bytes)
  show ?thesis
    unfolding encodes_def using ok' upd
    by (auto simp: as_update_oneof_def FilteredUpdateOneof_encode_raw_def FilteredUpdateOneof_encoded_len_def
        flen fraw proto_UpdateOneof_def message_delimited [OF P] P encode_len oneof_ok_def)
qed

lemma encodes_status:
  assumes P: "prost_ok P" and ok: "oneof_ok P (FTransactionStatus m)"
  shows "encodes P (FTransactionStatus m)"
proof -
  let ?tx = "mt_transaction m"
  let ?u = "\<lparr>uts_slot = mt_slot m, uts_signature = ti_signature ?tx, uts_is_vote = ti_is_vote ?tx,
    uts_index = ti_index ?tx, uts_err = ts_err (ti_meta ?tx)\<rparr>"
  have ne: "ti_signature ?tx \<noteq> []" using ok by (auto simp: oneof_ok_def tx_ok_def)
  have raw: "FilteredUpdateTransactionStatus_encode_raw P m = proto_TransactionStatus P ?u"
    using ne by (simp add: FilteredUpdateTransactionStatus_encode_raw_def Let_def proto_TransactionStatus_def bytes_raw
        proto_bytes_def present_def message_delimited [OF P] P encode_len split: option.splits)
  have len: "FilteredUpdateTransactionStatus_encoded_len P m = length (proto_TransactionStatus P ?u)"
    using ne by (simp add: FilteredUpdateTransactionStatus_encoded_len_def Let_def proto_TransactionStatus_def
        prost_bytes_encoded_len_def prost_field_encoded_len_def proto_bytes_def present_def present_len_def P encode_len
        split: option.splits)
  show ?thesis
    unfolding encodes_def using ok
    by (simp add: as_update_oneof_def FilteredUpdateOneof_encode_raw_def FilteredUpdateOneof_encoded_len_def
        len raw proto_UpdateOneof_def message_delimited [OF P] P encode_len)
qed

lemma encodes_small:
  assumes P: "prost_ok P"
  shows "encodes P (FSlot s)" "encodes P FPing" "encodes P (FPong i)" "encodes P (FBlockMeta b)"
    "length (en_hash e) = 32 \<Longrightarrow> encodes P (FEntry e)"
proof -
  have "FilteredUpdateSlot_encode_raw P s = proto_Slot P \<lparr>us_slot = sl_slot s, us_parent = sl_parent s,
      us_status = SlotStatus_as_i32 (sl_status s), us_dead_error = sl_dead_error s\<rparr>"
    by (simp add: FilteredUpdateSlot_encode_raw_def proto_Slot_def SlotStatus_discriminants)
  then show "encodes P (FSlot s)"
    by (simp add: encodes_def as_update_oneof_def FilteredUpdateOneof_encode_raw_def FilteredUpdateOneof_encoded_len_def
        slot_len [OF P] proto_UpdateOneof_def message_delimited [OF P] P encode_len oneof_ok_def)
  show "encodes P FPing" "encodes P (FPong i)" "encodes P (FBlockMeta b)"
    by (simp_all add: encodes_def as_update_oneof_def FilteredUpdateOneof_encode_raw_def
        FilteredUpdateOneof_encoded_len_def proto_UpdateOneof_def message_delimited [OF P] P encode_len oneof_ok_def delimited_def)
  show "encodes P (FEntry e)" if "length (en_hash e) = 32"
    using that entry_encoded [OF P that]
    by (simp add: encodes_def as_update_oneof_def FilteredUpdateOneof_encode_raw_def FilteredUpdateOneof_encoded_len_def
        proto_UpdateOneof_def message_delimited [OF P] P encode_len oneof_ok_def)
qed

lemma map_run_all: "(\<And>x. x \<in> set xs \<Longrightarrow> f x = Some (g x)) \<Longrightarrow> map_run f xs = Some (map g xs)"
  by (induction xs) simp_all

lemma map_run_same: "list_all2 (\<lambda>x y. f y = f x) xs ys \<Longrightarrow> map_run f ys = map_run f xs"
  by (induction xs ys rule: list_all2_induct) simp_all

lemma block_transactions:
  assumes P: "prost_ok P" and ok: "list_all (\<lambda>m. tx_ok P (mt_transaction m)) txs"
  shows "\<exists>txs'. encode_each (block_encode_transaction P) txs =
      Some (concat (map (delimited P 6 \<circ> proto_TransactionInfo P) (map as_subscribe_update_transaction txs)), txs') \<and>
    list_all (\<lambda>m. tx_ok P (mt_transaction m)) txs' \<and>
    map as_subscribe_update_transaction txs' = map as_subscribe_update_transaction txs"
proof -
  have "\<exists>m'. block_encode_transaction P m = Some (delimited P 6 (tx_bytes P (mt_transaction m)), m') \<and>
      (tx_ok P (mt_transaction m') \<and> same_tx_message m m')" if "m \<in> set txs" for m
  proof -
    have "tx_ok P (mt_transaction m)" using ok that by (simp add: list_all_iff)
    then obtain tx' where "tx_encode_raw P 6 (mt_transaction m) = (delimited P 6 (tx_bytes P (mt_transaction m)), tx')"
      "tx_ok P tx'" "same_transaction (mt_transaction m) tx'" using tx_encoded [OF P] by blast
    then show ?thesis by (auto simp: block_encode_transaction_def same_tx_message_def)
  qed
  then obtain txs' where
    run: "encode_each (block_encode_transaction P) txs = Some (concat (map (\<lambda>m. delimited P 6 (tx_bytes P (mt_transaction m))) txs), txs')"
    and rel: "list_all2 (\<lambda>m m'. tx_ok P (mt_transaction m') \<and> same_tx_message m m') txs txs'"
    using encode_each_all [of txs "block_encode_transaction P" "\<lambda>m. delimited P 6 (tx_bytes P (mt_transaction m))"
        "\<lambda>m m'. tx_ok P (mt_transaction m') \<and> same_tx_message m m'"] by auto
  have "list_all (\<lambda>m. tx_ok P (mt_transaction m)) txs' \<and>
    map as_subscribe_update_transaction txs' = map as_subscribe_update_transaction txs"
    using rel by (induction rule: list_all2_induct) (auto simp: same_tx_update)
  with run show ?thesis by (auto simp: comp_def as_transaction_bytes)
qed

lemma block_accounts:
  assumes P: "prost_ok P" and ok: "list_all (\<lambda>m. account_ok P (ac_account m)) accs" and ds: "slices_ok ds"
  shows "\<exists>infos accs'. map_run (\<lambda>m. as_subscribe_update_account m ds) accs = Some infos \<and>
    map_run (\<lambda>m. account_encoded_len P (ac_account m) ds) accs = Some (map (length \<circ> proto_AccountInfo P) infos) \<and>
    encode_each (block_encode_account P ds) accs = Some (concat (map (delimited P 11 \<circ> proto_AccountInfo P) infos), accs') \<and>
    list_all (\<lambda>m. account_ok P (ac_account m)) accs' \<and>
    map_run (\<lambda>m. as_subscribe_update_account m ds) accs' = Some infos"
proof -
  define info where "info = (\<lambda>m. the (as_subscribe_update_account m ds))"
  have each: "\<exists>m'. as_subscribe_update_account m ds = Some (info m) \<and>
      account_encoded_len P (ac_account m) ds = Some (length (proto_AccountInfo P (info m))) \<and>
      block_encode_account P ds m = Some (delimited P 11 (proto_AccountInfo P (info m)), m') \<and>
      account_ok P (ac_account m') \<and> same_account_message m m'" if "m \<in> set accs" for m
  proof -
    have "account_ok P (ac_account m)" using ok that by (simp add: list_all_iff)
    from account_encoded [OF P this ds, of 11] show ?thesis
      by (auto simp: info_def as_account_info block_encode_account_def same_account_message_def)
  qed
  then obtain accs' where
    run: "encode_each (block_encode_account P ds) accs = Some (concat (map (\<lambda>m. delimited P 11 (proto_AccountInfo P (info m))) accs), accs')"
    and rel: "list_all2 (\<lambda>m m'. account_ok P (ac_account m') \<and> same_account_message m m') accs accs'"
    using encode_each_all [of accs "block_encode_account P ds" "\<lambda>m. delimited P 11 (proto_AccountInfo P (info m))"
        "\<lambda>m m'. account_ok P (ac_account m') \<and> same_account_message m m'"] by auto
  have "list_all (\<lambda>m. account_ok P (ac_account m)) accs'"
    and "list_all2 (\<lambda>m m'. as_subscribe_update_account m' ds = as_subscribe_update_account m ds) accs accs'"
    using rel by (induction rule: list_all2_induct) (auto simp: same_account_update)
  moreover have "map_run (\<lambda>m. as_subscribe_update_account m ds) accs = Some (map info accs)"
    using each by (intro map_run_all) blast
  moreover have "map_run (\<lambda>m. account_encoded_len P (ac_account m) ds) accs = Some (map (\<lambda>m. length (proto_AccountInfo P (info m))) accs)"
    using each by (intro map_run_all) blast
  ultimately show ?thesis using run map_run_same [of "\<lambda>m. as_subscribe_update_account m ds" accs accs'] by (auto simp: comp_def)
qed

lemma encodes_block:
  assumes P: "prost_ok P" and ok: "oneof_ok P (FBlock b)"
  shows "encodes P (FBlock b)"
proof -
  let ?meta = "bm_block_meta (fub_meta b)" and ?ds = "fub_accounts_data_slice b"
  let ?txs = "map as_subscribe_update_transaction (fub_transactions b)" and ?es = "map as_subscribe_update_entry (fub_entries b)"
  have ds: "slices_ok ?ds" and tok: "list_all (\<lambda>m. tx_ok P (mt_transaction m)) (fub_transactions b)"
    and aok: "list_all (\<lambda>m. account_ok P (ac_account m)) (fub_accounts b)"
    and hash: "\<And>e. e \<in> set (fub_entries b) \<Longrightarrow> length (en_hash e) = 32"
    using ok by (simp_all add: oneof_ok_def block_ok_def list_all_iff)
  obtain txs' where txs: "encode_each (block_encode_transaction P) (fub_transactions b) =
      Some (concat (map (delimited P 6 \<circ> proto_TransactionInfo P) ?txs), txs')"
    "list_all (\<lambda>m. tx_ok P (mt_transaction m)) txs'" "map as_subscribe_update_transaction txs' = ?txs"
    using block_transactions [OF P tok] by blast
  obtain infos accs' where accs: "map_run (\<lambda>m. as_subscribe_update_account m ?ds) (fub_accounts b) = Some infos"
    "map_run (\<lambda>m. account_encoded_len P (ac_account m) ?ds) (fub_accounts b) = Some (map (length \<circ> proto_AccountInfo P) infos)"
    "encode_each (block_encode_account P ?ds) (fub_accounts b) = Some (concat (map (delimited P 11 \<circ> proto_AccountInfo P) infos), accs')"
    "list_all (\<lambda>m. account_ok P (ac_account m)) accs'" "map_run (\<lambda>m. as_subscribe_update_account m ?ds) accs' = Some infos"
    using block_accounts [OF P aok ds] by blast
  have tlen: "map (\<lambda>m. tx_encoded_len P (mt_transaction m)) (fub_transactions b) = map (length \<circ> proto_TransactionInfo P) ?txs"
    using tok tx_len [OF P] by (auto simp: list_all_iff as_transaction_bytes)
  have elen: "map (entry_encoded_len P) (fub_entries b) = map (length \<circ> proto_Entry P) ?es"
    using entry_encoded(2) [OF P hash] by simp
  have eraw: "map (block_encode_entry P) (fub_entries b) = map (delimited P 13 \<circ> proto_Entry P) ?es"
    using entry_encoded [OF P hash] by (simp add: block_encode_entry_def delimited_def)
  define u where "u = \<lparr>ub_slot = um_slot ?meta, ub_blockhash = um_blockhash ?meta, ub_rewards = um_rewards ?meta,
    ub_block_time = um_block_time ?meta, ub_block_height = um_block_height ?meta, ub_parent_slot = um_parent_slot ?meta,
    ub_parent_blockhash = um_parent_blockhash ?meta, ub_executed_transaction_count = um_executed_transaction_count ?meta,
    ub_transactions = ?txs, ub_updated_account_count = fub_updated_account_count b, ub_accounts = infos,
    ub_entries_count = um_entries_count ?meta, ub_entries = ?es\<rparr>"
  have raw: "FilteredUpdateBlock_encode_raw P b = Some (proto_Block P u, b\<lparr>fub_transactions := txs', fub_accounts := accs'\<rparr>)"
    by (simp add: FilteredUpdateBlock_encode_raw_def Let_def txs(1) accs(3) eraw proto_Block_def u_def present_def
        message_delimited [OF P] P encode_len del: map_map split: option.splits)
  have len: "FilteredUpdateBlock_encoded_len P b = Some (length (proto_Block P u))"
    by (simp add: FilteredUpdateBlock_encoded_len_def Let_def tlen elen accs(2) proto_Block_def u_def present_def present_len_def
        length_delimited_each [OF P] P encode_len del: map_map length_concat split: option.splits)
  show ?thesis
    unfolding encodes_def using ok txs accs
    by (auto simp: as_update_oneof_def Let_def FilteredUpdateOneof_encode_raw_def FilteredUpdateOneof_encoded_len_def
        raw len proto_UpdateOneof_def message_delimited [OF P] P encode_len oneof_ok_def block_ok_def u_def)
qed

definition update_ok :: "prost \<Rightarrow> FilteredUpdate \<Rightarrow> bool" where
  "update_ok P u \<longleftrightarrow> oneof_ok P (fu_message u)"

lemma oneof_encodes: "prost_ok P \<Longrightarrow> oneof_ok P m \<Longrightarrow> encodes P m"
  using encodes_account encodes_transaction encodes_status encodes_block encodes_small
  by (cases m) (auto simp: oneof_ok_def)

lemma names_encoded:
  assumes P: "prost_ok P"
  shows "concat (map (encode_filter_name P) names) = concat (map (enc (pr_string P 1)) names)"
    and "prost_repeated_encoded_len_map P 1 (map (\<lambda>name. length (str_bytes name)) names) =
      length (concat (map (enc (pr_string P 1)) names))"
proof -
  have name: "enc (pr_string P 1) = delimited P 1 \<circ> str_bytes" by (rule ext) (simp add: string_raw [OF P])
  have "encode_filter_name P = enc (pr_string P 1)"
    by (rule ext) (simp add: encode_filter_name_def string_raw [OF P] delimited_def)
  then show "concat (map (encode_filter_name P) names) = concat (map (enc (pr_string P 1)) names)" by simp
  show "prost_repeated_encoded_len_map P 1 (map (\<lambda>name. length (str_bytes name)) names) =
      length (concat (map (enc (pr_string P 1)) names))"
    unfolding name length_delimited_each [OF P] by (simp add: comp_def)
qed

text \<open>C6. Encoding a filtered update never panics and writes exactly the protobuf encoding, by the schema, of
  the update it converts to; the announced length is the number of bytes written. This holds whether the
  caches of encoded accounts and transactions are empty or filled, and encoding leaves an update that
  converts to the same message and whose caches are again right.\<close>

theorem update_encoding_exact:
  assumes "prost_ok P" and "update_ok P u"
  shows "\<exists>su u'. as_subscribe_update u = Some su \<and>
    FilteredUpdate_encode_raw P u = Some (proto_SubscribeUpdate P su, u') \<and>
    FilteredUpdate_encoded_len P u = Some (length (proto_SubscribeUpdate P su)) \<and>
    update_ok P u' \<and> as_subscribe_update u' = Some su"
proof -
  obtain o1 m' where one: "as_update_oneof (fu_message u) = Some o1"
    "FilteredUpdateOneof_encode_raw P (fu_message u) = Some (proto_UpdateOneof P o1, m')"
    "FilteredUpdateOneof_encoded_len P (fu_message u) = Some (length (proto_UpdateOneof P o1))"
    "oneof_ok P m'" "as_update_oneof m' = Some o1"
    using oneof_encodes [OF assms(1)] assms(2) unfolding update_ok_def encodes_def by blast
  then show ?thesis
    by (simp add: as_subscribe_update_def FilteredUpdate_encode_raw_def FilteredUpdate_encoded_len_def update_ok_def
        proto_SubscribeUpdate_def present_def names_encoded [OF assms(1)] message_delimited [OF assms(1)]
        assms(1) encode_len)
qed

section \<open>Deshred updates\<close>

definition proto_DeshredTransactionInfo :: "prost \<Rightarrow> MessageDeshredTransactionInfo \<Rightarrow> bytes" where
  "proto_DeshredTransactionInfo P tx =
     proto_bytes P 1 (dti_signature tx) @ flag (pr_bool P 2) (dti_is_vote tx) @
     delimited P 3 (enc (pr_transaction P) (dti_transaction tx)) @
     concat (map (delimited P 4) (dti_loaded_writable_addresses tx)) @
     concat (map (delimited P 5) (dti_loaded_readonly_addresses tx)) @
     nonzero (pr_uint32 P 6) (dti_completed_data_set_starting_shred_index tx) @
     nonzero (pr_uint32 P 7) (dti_completed_data_set_ending_shred_index_exclusive tx)"

definition proto_DeshredOneof :: "prost \<Rightarrow> FilteredUpdateDeshredOneof \<Rightarrow> bytes" where
  "proto_DeshredOneof P m =
     (case m of
        DDeshredTransaction t \<Rightarrow>
          delimited P 2 (delimited P 1 (proto_DeshredTransactionInfo P (md_transaction t)) @ nonzero (pr_uint64 P 2) (md_slot t))
      | DPing \<Rightarrow> delimited P 3 []
      | DPong i \<Rightarrow> delimited P 4 (enc (pr_pong P) i)
      | DSlot s \<Rightarrow> delimited P 6 (proto_Slot P \<lparr>us_slot = sl_slot s, us_parent = sl_parent s,
          us_status = SlotStatus_as_i32 (sl_status s), us_dead_error = sl_dead_error s\<rparr>))"

definition proto_SubscribeUpdateDeshred :: "prost \<Rightarrow> FilteredUpdateDeshred \<Rightarrow> bytes" where
  "proto_SubscribeUpdateDeshred P u =
     concat (map (enc (pr_string P 1)) (fdu_filters u)) @ proto_DeshredOneof P (fdu_message u) @
     delimited P 5 (enc (pr_timestamp P) (fdu_created_at u))"

definition deshred_ok :: "FilteredUpdateDeshred \<Rightarrow> bool" where
  "deshred_ok u = (case fdu_message u of
     DDeshredTransaction t \<Rightarrow> length (dti_signature (md_transaction t)) = 64 | _ \<Rightarrow> True)"

lemma deshred_tx_encoded:
  assumes P: "prost_ok P" and "length (dti_signature tx) = 64"
  shows "deshred_tx_encoded_len P tx = length (proto_DeshredTransactionInfo P tx)"
    and "deshred_tx_encode_raw P tag tx = delimited P tag (proto_DeshredTransactionInfo P tx)"
proof -
  have ne: "dti_signature tx \<noteq> []" using assms(2) by auto
  have each: "prost_repeated_encoded_len_map P t (map length xs) = length (concat (map (delimited P t) xs))" for t xs
    using length_delimited_each [OF P, of t "\<lambda>x. x" xs] by (simp add: comp_def)
  show len: "deshred_tx_encoded_len P tx = length (proto_DeshredTransactionInfo P tx)"
    using ne by (simp add: deshred_tx_encoded_len_def proto_DeshredTransactionInfo_def proto_bytes_def each
        prost_bytes_encoded_len_def prost_field_encoded_len_def P encode_len del: length_concat)
  have raws: "prost_bytes_encode_raw P t = delimited P t" for t by (rule ext) (rule bytes_raw)
  show "deshred_tx_encode_raw P tag tx = delimited P tag (proto_DeshredTransactionInfo P tx)"
    unfolding deshred_tx_encode_raw_def len raws
    using ne by (simp add: delimited_def [of P tag] proto_DeshredTransactionInfo_def proto_bytes_def
        message_delimited [OF P] P encode_len)
qed

text \<open>Encoding a deshred update writes exactly its protobuf encoding by the schema, and the announced length
  is the number of bytes written.\<close>

lemma deshred_encoding_exact:
  assumes "prost_ok P" and "deshred_ok u"
  shows "FilteredUpdateDeshred_encode_raw P u = proto_SubscribeUpdateDeshred P u \<and>
    FilteredUpdateDeshred_encoded_len P u = length (proto_SubscribeUpdateDeshred P u)"
proof -
  note P = assms(1)
  have slot: "FilteredUpdateSlot_encode_raw P s = proto_Slot P \<lparr>us_slot = sl_slot s, us_parent = sl_parent s,
      us_status = SlotStatus_as_i32 (sl_status s), us_dead_error = sl_dead_error s\<rparr>" for s
    by (simp add: FilteredUpdateSlot_encode_raw_def proto_Slot_def SlotStatus_discriminants)
  have tx: "FilteredUpdateDeshredTransaction_encode_raw P t =
      delimited P 1 (proto_DeshredTransactionInfo P (md_transaction t)) @ nonzero (pr_uint64 P 2) (md_slot t)"
    "FilteredUpdateDeshredTransaction_encoded_len P t =
      length (delimited P 1 (proto_DeshredTransactionInfo P (md_transaction t)) @ nonzero (pr_uint64 P 2) (md_slot t))"
    if "fdu_message u = DDeshredTransaction t" for t
    using that assms(2) deshred_tx_encoded [OF P, of "md_transaction t"]
    by (simp_all add: deshred_ok_def FilteredUpdateDeshredTransaction_encode_raw_def
        FilteredUpdateDeshredTransaction_encoded_len_def prost_field_encoded_len_def P encode_len)
  have "FilteredUpdateDeshredOneof_encode_raw P (fdu_message u) = proto_DeshredOneof P (fdu_message u) \<and>
      FilteredUpdateDeshredOneof_encoded_len P (fdu_message u) = length (proto_DeshredOneof P (fdu_message u))"
    using tx slot
    by (cases "fdu_message u") (simp_all add: FilteredUpdateDeshredOneof_encode_raw_def proto_DeshredOneof_def
        FilteredUpdateDeshredOneof_encoded_len_def message_delimited [OF P] slot_len [OF P] P encode_len delimited_def)
  then show ?thesis
    by (simp add: FilteredUpdateDeshred_encode_raw_def FilteredUpdateDeshred_encoded_len_def
        proto_SubscribeUpdateDeshred_def names_encoded [OF P] message_delimited [OF P] P encode_len)
qed

section \<open>Witnesses\<close>

text \<open>The protobuf wire format: base-128 numbers, keys and length-delimited fields.\<close>

fun varint :: "nat \<Rightarrow> bytes" where
  "varint n = (if n < 128 then [of_nat n] else of_nat (128 + n mod 128) # varint (n div 128))"

definition wire_number :: "WireType \<Rightarrow> nat" where
  "wire_number w = (case w of Varint \<Rightarrow> 0 | SixtyFourBit \<Rightarrow> 1 | LengthDelimited \<Rightarrow> 2 | StartGroup \<Rightarrow> 3
     | EndGroup \<Rightarrow> 4 | ThirtyTwoBit \<Rightarrow> 5)"

definition wire_key :: "u32 \<Rightarrow> WireType \<Rightarrow> bytes" where
  "wire_key tag w = varint (8 * unat tag + wire_number w)"

declare varint.simps [simp del]

lemma length_varint_low:
  assumes "r < 8"
  shows "length (varint (8 * k + r)) = length (varint (8 * k))"
proof -
  have "(8 * k + r < 128) = (8 * k < 128)" using assms by (cases "k \<le> 15") auto
  moreover have "(8 * k + r) div 128 = (8 * k + r) div 8 div 16" "8 * k div 128 = 8 * k div 8 div 16"
    by (simp_all add: div_mult2_eq [symmetric])
  then have "(8 * k + r) div 128 = 8 * k div 128" using assms by simp
  ultimately show ?thesis by (simp add: varint.simps [of "8 * k + r"] varint.simps [of "8 * k"])
qed

lemma length_wire_key: "length (wire_key tag w) = length (varint (8 * unat tag))"
  unfolding wire_key_def by (rule length_varint_low) (cases w; simp add: wire_number_def)

definition codec_of :: "('a \<Rightarrow> bytes) \<Rightarrow> 'a codec" where
  "codec_of f = \<lparr>enc = f, enc_len = length \<circ> f\<rparr>"

lemma codec_of_ok [simp]: "codec_ok (codec_of f)"
  by (simp add: codec_ok_def codec_of_def)

text \<open>The nested validator messages are encoded as empty messages.\<close>

definition wire :: prost where
  "wire =
     \<lparr>pr_encode_key = wire_key, pr_key_len = (\<lambda>t. length (varint (8 * unat t))),
      pr_encode_varint = varint \<circ> unat, pr_encoded_len_varint = length \<circ> varint \<circ> unat,
      pr_uint64 = (\<lambda>t. codec_of (\<lambda>x. wire_key t Varint @ varint (unat x))),
      pr_uint32 = (\<lambda>t. codec_of (\<lambda>x. wire_key t Varint @ varint (unat x))),
      pr_int32 = (\<lambda>t. codec_of (\<lambda>x. wire_key t Varint @ varint (unat (scast x :: u64)))),
      pr_bool = (\<lambda>t. codec_of (\<lambda>b. wire_key t Varint @ [if b then 1 else 0])),
      pr_string = (\<lambda>t. codec_of (\<lambda>s. wire_key t LengthDelimited @ varint (unat (of_nat (length (str_bytes s)) :: u64)) @ str_bytes s)),
      pr_message_encode = (\<lambda>t n raw. wire_key t LengthDelimited @ varint (unat (of_nat n :: u64)) @ raw),
      pr_message_encoded_len = (\<lambda>t n. length (varint (8 * unat t)) + length (varint (unat (of_nat n :: u64))) + n),
      pr_transaction = codec_of (\<lambda>_. []), pr_meta = codec_of (\<lambda>_. []), pr_error = codec_of (\<lambda>_. []),
      pr_rewards = codec_of (\<lambda>_. []), pr_unix_timestamp = codec_of (\<lambda>_. []), pr_block_height = codec_of (\<lambda>_. []),
      pr_block_meta = codec_of (\<lambda>_. []), pr_pong = codec_of (\<lambda>_. []), pr_timestamp = codec_of (\<lambda>_. [])\<rparr>"

lemma wire_ok: "prost_ok wire"
  by (simp add: prost_ok_def wire_def length_wire_key delimited_def) (simp add: codec_of_def)

definition toy_account_info :: MessageAccountInfo where
  "toy_account_info = \<lparr>ai_pubkey = replicate 32 7, ai_lamports = 5, ai_owner = replicate 32 9, ai_executable = False,
     ai_rent_epoch = 0, ai_data = [1, 2, 3, 4], ai_write_version = 300, ai_txn_signature = None, ai_pre_encoded = None\<rparr>"

definition toy_account_update :: FilteredUpdate where
  "toy_account_update =
     \<lparr>fu_filters = [''a''],
      fu_message = FAccount \<lparr>fua_account = \<lparr>ac_account = toy_account_info, ac_slot = 42, ac_is_startup = False,
        ac_created_at = \<lparr>stamp_seconds = 1, stamp_nanos = 0\<rparr>\<rparr>, fua_data_slice = [(1, 3)]\<rparr>,
      fu_created_at = \<lparr>stamp_seconds = 1, stamp_nanos = 0\<rparr>\<rparr>"

theorem update_encoding_exact_witness:
  "\<exists>bs u'. FilteredUpdate_encode_raw wire toy_account_update = Some (bs, u') \<and>
     FilteredUpdate_encoded_len wire toy_account_update = Some (length bs)"
proof -
  have "update_ok wire toy_account_update"
    by (simp add: update_ok_def oneof_ok_def account_ok_def slices_ok_def toy_account_update_def toy_account_info_def)
  from update_encoding_exact [OF wire_ok this] show ?thesis by blast
qed

lemma deshred_encoding_exact_witness:
  "FilteredUpdateDeshred_encoded_len wire
     \<lparr>fdu_filters = [''a''], fdu_message = DPing, fdu_created_at = \<lparr>stamp_seconds = 1, stamp_nanos = 0\<rparr>\<rparr> = 7"
  using deshred_encoding_exact [OF wire_ok, of
      "\<lparr>fdu_filters = [''a''], fdu_message = DPing, fdu_created_at = \<lparr>stamp_seconds = 1, stamp_nanos = 0\<rparr>\<rparr>"]
  by (simp add: deshred_ok_def proto_SubscribeUpdateDeshred_def proto_DeshredOneof_def delimited_def wire_def codec_of_def
      wire_key_def wire_number_def varint.simps str_bytes_def)

end
