(* ===== verification/Contact_Info.thy ===== *)
theory Contact_Info
  imports Messages Channels
begin

text \<open>
  The gossip contact-info feed (\<^verbatim>\<open>G/contact_info.rs\<close>, with its messages from \<^verbatim>\<open>G/plugin/message.rs\<close> and
  their conversion from \<^verbatim>\<open>G/plugin/convert_to.rs\<close>; \<^verbatim>\<open>G\<close> is \<^verbatim>\<open>yellowstone-grpc-geyser/src\<close>). A single
  writer applies notifications to a table and broadcasts them; each subscriber is a session that waits
  for the startup replay to end, takes a snapshot and streams the changes after it. The channels of tokio
  and the formatting of socket addresses are parameters. A session advances from one point where other
  tasks can run to the next, so that sessions and the writer interleave as the tasks do. The ping task,
  logging and metrics are left out.
\<close>

section \<open>Messages\<close>

record 'a MessageContactInfo =
  ci_pubkey :: pubkey
  ci_wallclock :: u64
  ci_outset :: u64
  ci_shred_version :: u16
  ci_version_major :: u16
  ci_version_minor :: u16
  ci_version_patch :: u16
  ci_version_commit :: u32
  ci_version_feature_set :: u32
  ci_version_client_id :: u16
  ci_gossip :: "'a option"
  ci_tpu_quic :: "'a option"
  ci_tpu_forwards_quic :: "'a option"
  ci_tpu_vote_udp :: "'a option"
  ci_tpu_vote_quic :: "'a option"
  ci_tvu_udp :: "'a option"
  ci_tvu_quic :: "'a option"
  ci_serve_repair_udp :: "'a option"
  ci_serve_repair_quic :: "'a option"
  ci_rpc :: "'a option"
  ci_rpc_pubsub :: "'a option"
  ci_alpenglow :: "'a option"
  ci_created_at :: Timestamp

record MessageContactInfoRemoved =
  cr_pubkey :: pubkey
  cr_created_at :: Timestamp

datatype 'a ContactInfoMessage = CNode "'a MessageContactInfo" | CRemoved MessageContactInfoRemoved

text \<open>The validator's \<open>ReplicaContactInfoV0_0_1\<close>; \<open>Pubkey::try_from(..).expect(..)\<close> panics on a key that is
  not 32 bytes long.\<close>

record 'a ReplicaContactInfoV0_0_1 =
  rci_pubkey :: bytes
  rci_wallclock :: u64
  rci_outset :: u64
  rci_shred_version :: u16
  rci_version_major :: u16
  rci_version_minor :: u16
  rci_version_patch :: u16
  rci_version_commit :: u32
  rci_version_feature_set :: u32
  rci_version_client_id :: u16
  rci_gossip :: "'a option"
  rci_tpu_quic :: "'a option"
  rci_tpu_forwards_quic :: "'a option"
  rci_tpu_vote_udp :: "'a option"
  rci_tpu_vote_quic :: "'a option"
  rci_tvu_udp :: "'a option"
  rci_tvu_quic :: "'a option"
  rci_serve_repair_udp :: "'a option"
  rci_serve_repair_quic :: "'a option"
  rci_rpc :: "'a option"
  rci_rpc_pubsub :: "'a option"
  rci_alpenglow :: "'a option"

definition MessageContactInfo_from_geyser ::
  "Timestamp \<Rightarrow> 'a ReplicaContactInfoV0_0_1 \<Rightarrow> 'a MessageContactInfo run" where
  "MessageContactInfo_from_geyser now info =
     do {
       pk \<leftarrow> try_array 32 (rci_pubkey info);
       Some \<lparr>ci_pubkey = pk,
         ci_wallclock = rci_wallclock info, ci_outset = rci_outset info,
         ci_shred_version = rci_shred_version info, ci_version_major = rci_version_major info,
         ci_version_minor = rci_version_minor info, ci_version_patch = rci_version_patch info,
         ci_version_commit = rci_version_commit info,
         ci_version_feature_set = rci_version_feature_set info,
         ci_version_client_id = rci_version_client_id info, ci_gossip = rci_gossip info,
         ci_tpu_quic = rci_tpu_quic info, ci_tpu_forwards_quic = rci_tpu_forwards_quic info,
         ci_tpu_vote_udp = rci_tpu_vote_udp info, ci_tpu_vote_quic = rci_tpu_vote_quic info,
         ci_tvu_udp = rci_tvu_udp info, ci_tvu_quic = rci_tvu_quic info,
         ci_serve_repair_udp = rci_serve_repair_udp info,
         ci_serve_repair_quic = rci_serve_repair_quic info, ci_rpc = rci_rpc info,
         ci_rpc_pubsub = rci_rpc_pubsub info, ci_alpenglow = rci_alpenglow info,
         ci_created_at = now\<rparr>
     }"

definition MessageContactInfoRemoved_from_geyser :: "Timestamp \<Rightarrow> bytes \<Rightarrow> MessageContactInfoRemoved run" where
  "MessageContactInfoRemoved_from_geyser now key =
     do { pk \<leftarrow> try_array 32 key; Some \<lparr>cr_pubkey = pk, cr_created_at = now\<rparr> }"

section \<open>Conversion\<close>

text \<open>The generated types of the feed.\<close>

record SubscribeUpdateContactInfoNode =
  cn_pubkey :: bytes
  cn_wallclock :: u64
  cn_outset :: u64
  cn_shred_version :: u32
  cn_version_major :: u32
  cn_version_minor :: u32
  cn_version_patch :: u32
  cn_version_commit :: u32
  cn_version_feature_set :: u32
  cn_version_client_id :: u32
  cn_gossip :: "string option"
  cn_tpu_quic :: "string option"
  cn_tpu_forwards_quic :: "string option"
  cn_tpu_vote_udp :: "string option"
  cn_tpu_vote_quic :: "string option"
  cn_tvu_udp :: "string option"
  cn_tvu_quic :: "string option"
  cn_serve_repair_udp :: "string option"
  cn_serve_repair_quic :: "string option"
  cn_rpc :: "string option"
  cn_rpc_pubsub :: "string option"
  cn_alpenglow :: "string option"

datatype GossipUpdateOneof =
    GossipNode SubscribeUpdateContactInfoNode
  | GossipRemoved bytes
  | GossipPing
  | GossipSnapshot "SubscribeUpdateContactInfoNode list"

record SubscribeUpdateGossip =
  gu_update_oneof :: "GossipUpdateOneof option"
  gu_created_at :: "Timestamp option"
  gu_seq :: u64

definition create_contact_info_node :: "('a \<Rightarrow> string) \<Rightarrow> 'a MessageContactInfo \<Rightarrow> SubscribeUpdateContactInfoNode" where
  "create_contact_info_node show_addr node =
     \<lparr>cn_pubkey = ci_pubkey node, cn_wallclock = ci_wallclock node, cn_outset = ci_outset node,
      cn_shred_version = ucast (ci_shred_version node), cn_version_major = ucast (ci_version_major node),
      cn_version_minor = ucast (ci_version_minor node), cn_version_patch = ucast (ci_version_patch node),
      cn_version_commit = ci_version_commit node, cn_version_feature_set = ci_version_feature_set node,
      cn_version_client_id = ucast (ci_version_client_id node),
      cn_gossip = map_option show_addr (ci_gossip node), cn_tpu_quic = map_option show_addr (ci_tpu_quic node),
      cn_tpu_forwards_quic = map_option show_addr (ci_tpu_forwards_quic node),
      cn_tpu_vote_udp = map_option show_addr (ci_tpu_vote_udp node),
      cn_tpu_vote_quic = map_option show_addr (ci_tpu_vote_quic node),
      cn_tvu_udp = map_option show_addr (ci_tvu_udp node), cn_tvu_quic = map_option show_addr (ci_tvu_quic node),
      cn_serve_repair_udp = map_option show_addr (ci_serve_repair_udp node),
      cn_serve_repair_quic = map_option show_addr (ci_serve_repair_quic node),
      cn_rpc = map_option show_addr (ci_rpc node), cn_rpc_pubsub = map_option show_addr (ci_rpc_pubsub node),
      cn_alpenglow = map_option show_addr (ci_alpenglow node)\<rparr>"

definition create_gossip_update :: "('a \<Rightarrow> string) \<Rightarrow> u64 \<Rightarrow> 'a ContactInfoMessage \<Rightarrow> SubscribeUpdateGossip" where
  "create_gossip_update show_addr seq message =
     (let (update_oneof, created_at) =
        (case message of
           CNode node \<Rightarrow> (GossipNode (create_contact_info_node show_addr node), ci_created_at node)
         | CRemoved removed \<Rightarrow> (GossipRemoved (cr_pubkey removed), cr_created_at removed))
      in \<lparr>gu_update_oneof = Some update_oneof, gu_created_at = Some created_at, gu_seq = seq\<rparr>)"

definition create_gossip_snapshot ::
  "('a \<Rightarrow> string) \<Rightarrow> Timestamp \<Rightarrow> u64 \<Rightarrow> 'a MessageContactInfo list \<Rightarrow> SubscribeUpdateGossip" where
  "create_gossip_snapshot show_addr now seq nodes =
     \<lparr>gu_update_oneof = Some (GossipSnapshot (map (create_contact_info_node show_addr) nodes)),
      gu_created_at = Some now, gu_seq = seq\<rparr>"

section \<open>The table and its writer\<close>

record 'a ContactInfoNotification =
  cnn_message :: "'a ContactInfoMessage"
  cnn_is_startup :: bool

record 'a ContactInfoEvent =
  ce_seq :: u64
  ce_message :: "'a ContactInfoMessage"

record 'a ContactInfoTable =
  ct_nodes :: "(pubkey, 'a MessageContactInfo) hmap"
  ct_version :: u64

record ('a, 'q, 'w) ContactInfoState =
  cs_map :: "'a ContactInfoTable"
  cs_tx :: 'q
  cs_complete_tx :: 'w

definition ContactInfoState_new ::
  "('a ContactInfoEvent, 'q, 'r, 'w) tokio \<Rightarrow> nat \<Rightarrow> ('a, 'q, 'w) ContactInfoState" where
  "ContactInfoState_new T capacity =
     \<lparr>cs_map = \<lparr>ct_nodes = [], ct_version = 0\<rparr>, cs_tx = tk_channel T capacity, cs_complete_tx = tk_watch T False\<rparr>"

definition table_apply :: "'a ContactInfoMessage \<Rightarrow> (pubkey, 'a MessageContactInfo) hmap \<Rightarrow> (pubkey, 'a MessageContactInfo) hmap" where
  "table_apply message nodes =
     (case message of
        CNode n \<Rightarrow> hmap_insert (ci_pubkey n) n nodes
      | CRemoved r \<Rightarrow> filter (\<lambda>(k, _). k \<noteq> cr_pubkey r) nodes)"

text \<open>One round of \<open>contact_info_loop\<close>; the critical section makes it atomic.\<close>

definition on_notification ::
  "('a ContactInfoEvent, 'q, 'r, 'w) tokio \<Rightarrow> 'a ContactInfoNotification \<Rightarrow> ('a, 'q, 'w) ContactInfoState
   \<Rightarrow> ('a, 'q, 'w) ContactInfoState" where
  "on_notification T n s =
     (let s1 = (if \<not> cnn_is_startup n \<and> \<not> tk_watch_borrow T (cs_complete_tx s)
                then s\<lparr>cs_complete_tx := tk_watch_send T True (cs_complete_tx s)\<rparr> else s);
          seq = ct_version (cs_map s1) + 1
      in s1\<lparr>cs_map := \<lparr>ct_nodes = table_apply (cnn_message n) (ct_nodes (cs_map s1)), ct_version = seq\<rparr>,
            cs_tx := tk_send T \<lparr>ce_seq = seq, ce_message = cnn_message n\<rparr> (cs_tx s1)\<rparr>)"

section \<open>Subscribers\<close>

definition MAX_RESNAPSHOT_ATTEMPTS :: nat where "MAX_RESNAPSHOT_ATTEMPTS = 3"

datatype GossipStatus = Unavailable string | Internal string

datatype 'r phase =
    Starting
  | Waiting
  | Handoff
  | Subscribed 'r
  | Sending 'r u64 SubscribeUpdateGossip
  | Streaming 'r u64
  | Closed string

record 'r ContactInfoClientSession =
  se_phase :: "'r phase"
  se_resnapshot_attempts :: nat
  se_sent :: "(GossipStatus + SubscribeUpdateGossip) list"

definition session_start :: "'r ContactInfoClientSession" where
  "session_start = \<lparr>se_phase = Starting, se_resnapshot_attempts = 0, se_sent = []\<rparr>"

text \<open>\<open>sink.send(..)\<close> ends the session with a reason, whether the send succeeds or not.\<close>

definition say_goodbye :: "bool \<Rightarrow> GossipStatus \<Rightarrow> string \<Rightarrow> 'r ContactInfoClientSession \<Rightarrow> 'r ContactInfoClientSession" where
  "say_goodbye sink_ok status reason se =
     se\<lparr>se_phase := Closed reason, se_sent := se_sent se @ (if sink_ok then [Inl status] else [])\<rparr>"

definition on_received ::
  "('a \<Rightarrow> string) \<Rightarrow> bool \<Rightarrow> u64 \<Rightarrow> 'a ContactInfoEvent received \<Rightarrow> 'r \<Rightarrow> 'r ContactInfoClientSession
   \<Rightarrow> 'r ContactInfoClientSession" where
  "on_received show_addr sink_ok snapshot_seq message rx se =
     (case message of
        Disconnected \<Rightarrow> se\<lparr>se_phase := Closed ''broadcast_closed''\<rparr>
      | Lagged _ \<Rightarrow>
          (let attempts = se_resnapshot_attempts se + 1; se1 = se\<lparr>se_resnapshot_attempts := attempts\<rparr> in
           if MAX_RESNAPSHOT_ATTEMPTS < attempts
           then say_goodbye sink_ok (Internal ''lagged to receive contact info messages'') ''client_broadcast_lag'' se1
           else se1\<lparr>se_phase := Handoff\<rparr>)
      | Received event \<Rightarrow>
          if ce_seq event \<le> snapshot_seq then se\<lparr>se_phase := Streaming rx snapshot_seq\<rparr>
          else if \<not> sink_ok then se\<lparr>se_phase := Closed ''client_closed''\<rparr>
          else se\<lparr>se_phase := Streaming rx snapshot_seq, se_resnapshot_attempts := 0,
                  se_sent := se_sent se @ [Inr (create_gossip_update show_addr (ce_seq event) (ce_message event))]\<rparr>)"

text \<open>One step of \<open>contact_info_client_loop\<close>: \<open>cancelled\<close> says that the cancellation branch is taken,
  \<open>sink_ok\<close> that the sink accepts what is sent.\<close>

definition client_advance ::
  "('a ContactInfoEvent, 'q, 'r, 'w) tokio \<Rightarrow> ('a \<Rightarrow> string) \<Rightarrow> Timestamp \<Rightarrow> bool \<Rightarrow> bool
   \<Rightarrow> ('a, 'q, 'w) ContactInfoState \<Rightarrow> 'r ContactInfoClientSession
   \<Rightarrow> ('a, 'q, 'w) ContactInfoState \<times> 'r ContactInfoClientSession" where
  "client_advance T show_addr now cancelled sink_ok s se =
     (let shutdown = say_goodbye sink_ok (Unavailable ''server is shutting down try again later'') ''server_shutdown'' se;
          leave_wait = s\<lparr>cs_complete_tx := tk_watch_drop T (cs_complete_tx s)\<rparr>
      in case se_phase se of
           Starting \<Rightarrow> (s\<lparr>cs_complete_tx := tk_watch_subscribe T (cs_complete_tx s)\<rparr>, se\<lparr>se_phase := Waiting\<rparr>)
         | Waiting \<Rightarrow>
             if cancelled then (leave_wait, shutdown)
             else if tk_watch_borrow T (cs_complete_tx s) then (leave_wait, se\<lparr>se_phase := Handoff\<rparr>)
             else (s, se)
         | Handoff \<Rightarrow> (s, se\<lparr>se_phase := Subscribed (tk_subscribe T (cs_tx s))\<rparr>)
         | Subscribed rx \<Rightarrow>
             (s, se\<lparr>se_phase := Sending rx (ct_version (cs_map s))
               (create_gossip_snapshot show_addr now (ct_version (cs_map s)) (map snd (ct_nodes (cs_map s))))\<rparr>)
         | Sending rx v update \<Rightarrow>
             (s, if sink_ok then se\<lparr>se_phase := Streaming rx v, se_sent := se_sent se @ [Inr update]\<rparr>
                 else se\<lparr>se_phase := Closed ''client_closed''\<rparr>)
         | Streaming rx v \<Rightarrow>
             if cancelled then (s, shutdown)
             else (case tk_recv T (cs_tx s) rx of
                     None \<Rightarrow> (s, se)
                   | Some (message, rx1) \<Rightarrow> (s, on_received show_addr sink_ok v message rx1 se))
         | Closed _ \<Rightarrow> (s, se))"

text \<open>The writer and any number of sessions, interleaved.\<close>

inductive gossip_step ::
  "('a ContactInfoEvent, 'q, 'r, 'w) tokio \<Rightarrow> ('a \<Rightarrow> string)
   \<Rightarrow> ('a, 'q, 'w) ContactInfoState \<times> (nat \<Rightarrow> 'r ContactInfoClientSession)
   \<Rightarrow> ('a, 'q, 'w) ContactInfoState \<times> (nat \<Rightarrow> 'r ContactInfoClientSession) \<Rightarrow> bool" for T show_addr where
  writer: "gossip_step T show_addr (s, ses) (on_notification T n s, ses)"
| session: "client_advance T show_addr now cancelled sink_ok s (ses i) = (s', se) \<Longrightarrow>
    gossip_step T show_addr (s, ses) (s', ses(i := se))"

end
