(* ===== verification/Contact_Claims.thy ===== *)
theory Contact_Claims
  imports Contact_Info
begin

text \<open>
  What the contact-info feed promises to a subscriber: however the writer and the sessions interleave, and
  however often the receiver lags, what a session has sent reconstructs the table at a revision; and what
  the startup flag does when nobody waits for it.
\<close>

section \<open>What a subscriber knows\<close>

type_synonym view = "bytes \<rightharpoonup> SubscribeUpdateContactInfoNode"

definition apply_gossip :: "view \<Rightarrow> SubscribeUpdateGossip \<Rightarrow> view" where
  "apply_gossip known u =
     (case gu_update_oneof u of
        Some (GossipSnapshot ns) \<Rightarrow> map_of (map (\<lambda>n. (cn_pubkey n, n)) ns)
      | Some (GossipNode n) \<Rightarrow> known(cn_pubkey n \<mapsto> n)
      | Some (GossipRemoved pk) \<Rightarrow> known(pk := None)
      | _ \<Rightarrow> known)"

fun gossip_view :: "view \<Rightarrow> (GossipStatus + SubscribeUpdateGossip) list \<Rightarrow> view" where
  "gossip_view known [] = known"
| "gossip_view known (Inl _ # xs) = gossip_view known xs"
| "gossip_view known (Inr u # xs) = gossip_view (apply_gossip known u) xs"

definition table_view :: "('a \<Rightarrow> string) \<Rightarrow> (pubkey, 'a MessageContactInfo) hmap \<Rightarrow> view" where
  "table_view f nodes = map_option (create_contact_info_node f) \<circ> map_of nodes"

text \<open>The table after a sequence of events.\<close>

definition table_after :: "'a ContactInfoEvent list \<Rightarrow> (pubkey, 'a MessageContactInfo) hmap" where
  "table_after es = fold (table_apply \<circ> ce_message) es []"

lemma gossip_view_append: "gossip_view known (xs @ ys) = gossip_view (gossip_view known xs) ys"
  by (induction known xs rule: gossip_view.induct) simp_all

lemma table_after_snoc: "table_after (es @ [e]) = table_apply (ce_message e) (table_after es)"
  by (simp add: table_after_def)

definition keyed :: "(pubkey, 'a MessageContactInfo) hmap \<Rightarrow> bool" where
  "keyed nodes \<longleftrightarrow> (\<forall>(k, n) \<in> set nodes. ci_pubkey n = k)"

lemma set_hmap_insert: "set (hmap_insert k v m) \<subseteq> insert (k, v) (set m)"
  by (induction k v m rule: hmap_insert.induct) auto

lemma keyed_after: "keyed (table_after es)"
proof (induction es rule: rev_induct)
  case Nil
  show ?case by (simp add: keyed_def table_after_def)
next
  case (snoc e es)
  then show ?case
    using set_hmap_insert
    by (cases "ce_message e") (fastforce simp: table_after_snoc table_apply_def keyed_def)+
qed

lemma node_key: "cn_pubkey (create_contact_info_node f n) = ci_pubkey n"
  by (simp add: create_contact_info_node_def)

lemma snapshot_view:
  assumes "keyed nodes"
  shows "apply_gossip known (create_gossip_snapshot f now seq (map snd nodes)) = table_view f nodes"
proof -
  have "map_of (map (\<lambda>n. (cn_pubkey n, n)) (map (create_contact_info_node f) (map snd nodes))) = table_view f nodes"
    using assms by (induction nodes) (auto simp: table_view_def node_key keyed_def fun_eq_iff)
  then show ?thesis by (simp add: apply_gossip_def create_gossip_snapshot_def)
qed

lemma map_of_without: "map_of (filter (\<lambda>(k, _). k \<noteq> x) m) = (map_of m)(x := None)"
  by (induction m) (auto simp: fun_eq_iff)

lemma update_view:
  "apply_gossip (table_view f nodes) (create_gossip_update f seq m) = table_view f (table_apply m nodes)"
  by (cases m)
    (auto simp: apply_gossip_def create_gossip_update_def table_view_def table_apply_def node_key map_of_without fun_eq_iff)

section \<open>The invariant\<close>

definition writer_inv :: "('q \<Rightarrow> 'a ContactInfoEvent list) \<Rightarrow> ('a, 'q, 'w) ContactInfoState \<Rightarrow> bool" where
  "writer_inv hist s \<longleftrightarrow>
     ct_nodes (cs_map s) = table_after (hist (cs_tx s)) \<and>
     ct_version (cs_map s) = of_nat (length (hist (cs_tx s))) \<and>
     (\<forall>i < length (hist (cs_tx s)). ce_seq (hist (cs_tx s) ! i) = of_nat (Suc i))"

definition session_inv ::
  "('a \<Rightarrow> string) \<Rightarrow> ('r \<Rightarrow> nat) \<Rightarrow> 'a ContactInfoEvent list \<Rightarrow> 'r ContactInfoClientSession \<Rightarrow> bool" where
  "session_inv f pos es se =
     (case se_phase se of
        Subscribed r \<Rightarrow> pos r \<le> length es
      | Sending r v u \<Rightarrow> (\<exists>k \<le> length es. v = of_nat k \<and> pos r \<le> k \<and>
          (\<forall>known. apply_gossip known u = table_view f (table_after (take k es))))
      | Streaming r v \<Rightarrow> (\<exists>k \<le> length es. v = of_nat k \<and> pos r \<le> length es \<and>
          gossip_view Map.empty (se_sent se) = table_view f (table_after (take (max (pos r) k) es)))
      | _ \<Rightarrow> True)"

lemma session_inv_mono:
  assumes "session_inv f pos es se"
  shows "session_inv f pos (es @ [e]) se"
proof (cases "se_phase se")
  case (Sending r v u)
  then obtain k where "k \<le> length es" "v = of_nat k" "pos r \<le> k"
    "\<forall>known. apply_gossip known u = table_view f (table_after (take k es))"
    using assms by (auto simp: session_inv_def)
  then show ?thesis using Sending by (auto simp: session_inv_def intro!: exI [of _ k])
next
  case (Streaming r v)
  then obtain k where k: "k \<le> length es" "v = of_nat k" "pos r \<le> length es"
    "gossip_view Map.empty (se_sent se) = table_view f (table_after (take (max (pos r) k) es))"
    using assms by (auto simp: session_inv_def)
  then have "max (pos r) k - length es = 0" by simp
  then show ?thesis using Streaming k by (auto simp: session_inv_def intro!: exI [of _ k])
qed (use assms in \<open>auto simp: session_inv_def\<close>)

lemma received_inv:
  assumes st: "k \<le> length es" "pos r \<le> length es" "length es < 2 ^ 64"
    "gossip_view Map.empty (se_sent se) = table_view f (table_after (take (max (pos r) k) es))"
    and seqs: "\<And>i. i < length es \<Longrightarrow> ce_seq (es ! i) = of_nat (Suc i)"
    and recv: "recv_ok es (pos r) pos (Some (message, r1))"
  shows "session_inv f pos es (on_received f sink_ok (of_nat k) message r1 se)"
proof (cases message)
  case (Received e)
  then have e: "pos r < length es" "es ! pos r = e" "pos r1 = Suc (pos r)" using recv by (simp_all add: recv_ok_def)
  have "ce_seq e = of_nat (Suc (pos r))" using seqs e by auto
  moreover have "Suc (pos r) < 2 ^ 64" "k < 2 ^ 64" using e st by simp_all
  ultimately have le: "ce_seq e \<le> of_nat k \<longleftrightarrow> Suc (pos r) \<le> k"
    by (simp only: word_le_nat_alt unat_of_nat) simp
  show ?thesis
  proof (cases "Suc (pos r) \<le> k")
    case True
    then have "max (pos r) k = max (pos r1) k" using e by simp
    then show ?thesis using Received True le st e
      by (auto simp: on_received_def session_inv_def intro!: exI [of _ k])
  next
    case False
    then have "max (pos r1) k = Suc (pos r)" "max (pos r) k = pos r" using e by simp_all
    then have "take (max (pos r1) k) es = take (max (pos r) k) es @ [e]"
      using e by (simp add: take_Suc_conv_app_nth)
    then have "table_after (take (max (pos r1) k) es) = table_apply (ce_message e) (table_after (take (max (pos r) k) es))"
      by (simp add: table_after_snoc)
    then have "gossip_view Map.empty (se_sent se @ [Inr (create_gossip_update f (ce_seq e) (ce_message e))]) =
        table_view f (table_after (take (max (pos r1) k) es))"
      using st(4) by (simp add: gossip_view_append update_view)
    then show ?thesis using Received False le st e
      by (auto simp: on_received_def session_inv_def intro!: exI [of _ k])
  qed
qed (auto simp: on_received_def session_inv_def say_goodbye_def Let_def)

lemma advance_same:
  assumes "client_advance T f now cancelled sink_ok s se = (s', se')"
  shows "cs_map s' = cs_map s" "cs_tx s' = cs_tx s"
  using assms by (auto simp: client_advance_def Let_def split: phase.splits if_splits option.splits prod.splits)

lemma advance_inv:
  assumes T: "broadcast_ok T hist pos" and w: "writer_inv hist s" and small: "length (hist (cs_tx s)) < 2 ^ 64"
    and inv: "session_inv f pos (hist (cs_tx s)) se"
    and step: "client_advance T f now cancelled sink_ok s se = (s', se')"
  shows "session_inv f pos (hist (cs_tx s)) se'"
proof -
  let ?es = "hist (cs_tx s)"
  show "session_inv f pos ?es se'"
  proof (cases "se_phase se")
    case (Subscribed r)
    have "apply_gossip known (create_gossip_snapshot f now (ct_version (cs_map s)) (map snd (ct_nodes (cs_map s)))) =
        table_view f (table_after ?es)" for known
      using w snapshot_view [OF keyed_after] by (simp add: writer_inv_def)
    then show ?thesis using step Subscribed inv w
      by (auto simp: client_advance_def session_inv_def writer_inv_def intro!: exI [of _ "length ?es"])
  next
    case (Sending r v u)
    then obtain k where k: "k \<le> length ?es" "v = of_nat k" "pos r \<le> k"
      "\<And>known. apply_gossip known u = table_view f (table_after (take k ?es))"
      using inv by (auto simp: session_inv_def)
    then show ?thesis using step Sending
      by (auto simp: client_advance_def session_inv_def gossip_view_append max_absorb2 intro!: exI [of _ k])
  next
    case (Streaming r v)
    then obtain k where k: "k \<le> length ?es" "v = of_nat k" "pos r \<le> length ?es"
      "gossip_view Map.empty (se_sent se) = table_view f (table_after (take (max (pos r) k) ?es))"
      using inv by (auto simp: session_inv_def)
    have recv: "recv_ok ?es (pos r) pos (tk_recv T (cs_tx s) r)" using T k(3) by (simp add: broadcast_ok_def)
    have "session_inv f pos ?es (on_received f sink_ok v m r1 se)" if "tk_recv T (cs_tx s) r = Some (m, r1)" for m r1
      unfolding k(2) by (rule received_inv [where r = r and pos = pos, OF k(1,3) small k(4)]) (use w recv that in \<open>auto simp: writer_inv_def\<close>)
    then show ?thesis using step Streaming inv
      by (auto simp: client_advance_def session_inv_def say_goodbye_def Let_def split: if_splits option.splits)
  qed (use step T in \<open>auto simp: client_advance_def session_inv_def say_goodbye_def Let_def broadcast_ok_def split: if_splits\<close>)
qed

lemma notification_inv:
  assumes T: "broadcast_ok T hist pos" and w: "writer_inv hist s"
  shows "writer_inv hist (on_notification T n s)"
    and "hist (cs_tx (on_notification T n s)) =
      hist (cs_tx s) @ [\<lparr>ce_seq = ct_version (cs_map s) + 1, ce_message = cnn_message n\<rparr>]"
proof -
  have sent: "hist (tk_send T e q) = hist q @ [e]" for e q using T by (simp add: broadcast_ok_def)
  show "hist (cs_tx (on_notification T n s)) =
      hist (cs_tx s) @ [\<lparr>ce_seq = ct_version (cs_map s) + 1, ce_message = cnn_message n\<rparr>]"
    by (simp add: on_notification_def Let_def sent)
  then show "writer_inv hist (on_notification T n s)"
    using w by (auto simp: writer_inv_def table_after_snoc nth_append less_Suc_eq) (simp_all add: on_notification_def Let_def)
qed

abbreviation gossip_start ::
  "('a ContactInfoEvent, 'q, 'r, 'w) tokio \<Rightarrow> nat \<Rightarrow> ('a, 'q, 'w) ContactInfoState \<times> (nat \<Rightarrow> 'r ContactInfoClientSession)" where
  "gossip_start T capacity \<equiv> (ContactInfoState_new T capacity, \<lambda>_. session_start)"

lemma gossip_inv:
  assumes T: "broadcast_ok T hist pos" and "rtranclp (gossip_step T f) (gossip_start T capacity) sys"
  shows "writer_inv hist (fst sys) \<and>
    (length (hist (cs_tx (fst sys))) < 2 ^ 64 \<longrightarrow> (\<forall>i. session_inv f pos (hist (cs_tx (fst sys))) (snd sys i)))"
  using assms(2)
proof (induction rule: rtranclp_induct)
  case base
  have "hist (tk_channel T c) = []" for c using T by (simp add: broadcast_ok_def)
  then show ?case
    by (simp add: writer_inv_def ContactInfoState_new_def session_inv_def session_start_def table_after_def)
next
  case (step sys sys')
  from step.hyps(2) show ?case
  proof cases
    case (writer s ses n)
    then have w: "writer_inv hist s" using step.IH by simp
    show ?thesis
      using writer step.IH notification_inv [OF T w, of n] by (auto intro: session_inv_mono)
  next
    case (session now cancelled sink_ok s ses i s' se)
    then have w: "writer_inv hist s" using step.IH by simp
    show ?thesis
      using session step.IH w advance_same [OF session(3)] advance_inv [OF T w _ _ session(3)]
      by (simp add: writer_inv_def)
  qed
qed

text \<open>C11. However the writer and the sessions interleave and however often a receiver lags, what a streaming
  session has sent to its client reconstructs exactly the table after the first \<open>k\<close> notifications, where
  \<open>k\<close> covers the snapshot and everything received; a session with nothing left to receive has given its
  client the current table.\<close>

theorem contact_view_exact:
  assumes "broadcast_ok T hist pos" and "rtranclp (gossip_step T f) (gossip_start T capacity) (s, ses)"
    and "length (hist (cs_tx s)) < 2 ^ 64" and "se_phase (ses i) = Streaming r v"
  shows "\<exists>k \<le> length (hist (cs_tx s)). unat v \<le> k \<and> pos r \<le> k \<and>
      gossip_view Map.empty (se_sent (ses i)) = table_view f (table_after (take k (hist (cs_tx s)))) \<and>
      (tk_recv T (cs_tx s) r = None \<longrightarrow> gossip_view Map.empty (se_sent (ses i)) = table_view f (ct_nodes (cs_map s)))"
proof -
  let ?es = "hist (cs_tx s)"
  have w: "writer_inv hist s" and inv: "session_inv f pos ?es (ses i)" using gossip_inv [OF assms(1,2)] assms(3) by auto
  obtain k where k: "k \<le> length ?es" "v = of_nat k" "pos r \<le> length ?es"
    "gossip_view Map.empty (se_sent (ses i)) = table_view f (table_after (take (max (pos r) k) ?es))"
    using inv assms(4) by (auto simp: session_inv_def)
  have "recv_ok ?es (pos r) pos (tk_recv T (cs_tx s) r)" using assms(1) k(3) by (simp add: broadcast_ok_def)
  then have "tk_recv T (cs_tx s) r = None \<Longrightarrow> pos r = length ?es" by (simp add: recv_ok_def)
  moreover have "ct_nodes (cs_map s) = table_after ?es" using w by (simp add: writer_inv_def)
  moreover have "unat v \<le> k" using k assms(3) by (simp add: unat_of_nat)
  ultimately show ?thesis using k by (intro exI [of _ "max (pos r) k"]) auto
qed

text \<open>The flag that says that the startup replay is complete is lost when no session waits for it: after
  any notifications, live ones included, without a subscriber the flag is still unset, so the first session
  waits, and it keeps waiting until one more live notification arrives.\<close>

lemma contact_startup_flag_lost:
  assumes "watch_ok T receivers"
  shows "let s = fold (on_notification T) ns (ContactInfoState_new T capacity);
             (s1, se) = client_advance T f now False ok s session_start
         in se_phase se = Waiting \<and> client_advance T f now False ok s1 se = (s1, se) \<and>
            (\<forall>n. \<not> cnn_is_startup n \<longrightarrow>
               se_phase (snd (client_advance T f now False ok (on_notification T n s1) se)) = Handoff)"
proof -
  have laws: "tk_watch_borrow T (tk_watch T b) = b" "receivers (tk_watch T b) = 0"
    "receivers (tk_watch_send T b w) = receivers w"
    "tk_watch_borrow T (tk_watch_send T b w) = (if receivers w = 0 then tk_watch_borrow T w else b)"
    "receivers (tk_watch_subscribe T w) = receivers w + 1"
    "tk_watch_borrow T (tk_watch_subscribe T w) = tk_watch_borrow T w" for b w
    using assms by (simp_all add: watch_ok_def)
  have idle: "\<not> tk_watch_borrow T (cs_complete_tx (fold (on_notification T) ns s)) \<and>
      receivers (cs_complete_tx (fold (on_notification T) ns s)) = 0"
    if "\<not> tk_watch_borrow T (cs_complete_tx s)" "receivers (cs_complete_tx s) = 0" for s
    using that by (induction ns arbitrary: s) (simp_all add: on_notification_def Let_def laws)
  show ?thesis
    using idle [of "ContactInfoState_new T capacity"]
    by (simp add: Let_def client_advance_def session_start_def on_notification_def laws ContactInfoState_new_def)
qed

section \<open>Witnesses\<close>

text \<open>Channels that keep everything sent, where a receiver more than the capacity behind lags.\<close>

definition plain_addr :: "string \<Rightarrow> string" where "plain_addr a = a"

definition toy_node :: "string MessageContactInfo" where
  "toy_node = \<lparr>ci_pubkey = [7], ci_wallclock = 1, ci_outset = 0, ci_shred_version = 5, ci_version_major = 3,
     ci_version_minor = 0, ci_version_patch = 0, ci_version_commit = 0, ci_version_feature_set = 0,
     ci_version_client_id = 0, ci_gossip = Some ''10.0.0.1:8001'', ci_tpu_quic = None, ci_tpu_forwards_quic = None,
     ci_tpu_vote_udp = None, ci_tpu_vote_quic = None, ci_tvu_udp = None, ci_tvu_quic = None, ci_serve_repair_udp = None,
     ci_serve_repair_quic = None, ci_rpc = None, ci_rpc_pubsub = None, ci_alpenglow = None,
     ci_created_at = \<lparr>stamp_seconds = 1, stamp_nanos = 0\<rparr>\<rparr>"

text \<open>A run of one session: \<open>Some n\<close> is a notification, \<open>None\<close> a step of the session.\<close>

fun toy_gossip ::
  "string ContactInfoNotification option list
   \<Rightarrow> (string, string ContactInfoEvent list \<times> nat, bool \<times> nat) ContactInfoState \<times> (nat \<Rightarrow> nat ContactInfoClientSession)
   \<Rightarrow> (string, string ContactInfoEvent list \<times> nat, bool \<times> nat) ContactInfoState \<times> (nat \<Rightarrow> nat ContactInfoClientSession)" where
  "toy_gossip [] sys = sys"
| "toy_gossip (Some n # ms) sys = toy_gossip ms (on_notification ring n (fst sys), snd sys)"
| "toy_gossip (None # ms) sys =
     (case client_advance ring plain_addr \<lparr>stamp_seconds = 1, stamp_nanos = 0\<rparr> False True (fst sys) (snd sys 0) of
        (s', se) \<Rightarrow> toy_gossip ms (s', (snd sys)(0 := se)))"

lemma toy_gossip_steps: "rtranclp (gossip_step ring plain_addr) start sys \<Longrightarrow> rtranclp (gossip_step ring plain_addr) start (toy_gossip ms sys)"
proof (induction ms sys rule: toy_gossip.induct)
  case (2 n ms sys)
  then show ?case using gossip_step.writer [of ring plain_addr "fst sys" "snd sys" n] by (auto intro: rtranclp.rtrancl_into_rtrancl)
next
  case (3 ms sys)
  obtain s' se where adv: "client_advance ring plain_addr \<lparr>stamp_seconds = 1, stamp_nanos = 0\<rparr> False True (fst sys) (snd sys 0) = (s', se)"
    by force
  have "gossip_step ring plain_addr sys (s', (snd sys)(0 := se))"
    using gossip_step.session [of ring plain_addr _ _ _ "fst sys" "snd sys" 0, OF adv] by simp
  then show ?case using 3 adv by (auto intro: rtranclp.rtrancl_into_rtrancl)
qed simp

definition toy_feed :: "string ContactInfoNotification option list" where
  "toy_feed = [None, Some \<lparr>cnn_message = CNode toy_node, cnn_is_startup = False\<rparr>, None, None, None, None]"

theorem contact_view_exact_witness:
  "gossip_view Map.empty (se_sent (snd (toy_gossip toy_feed (gossip_start ring 4)) 0)) =
     table_view plain_addr (ct_nodes (cs_map (fst (toy_gossip toy_feed (gossip_start ring 4)))))"
proof -
  let ?sys = "toy_gossip toy_feed (gossip_start ring 4)"
  have reach: "rtranclp (gossip_step ring plain_addr) (gossip_start ring 4) (fst ?sys, snd ?sys)"
    using toy_gossip_steps [OF rtranclp.rtrancl_refl] by simp
  have "length (fst (cs_tx (fst ?sys))) < 2 ^ 64" "se_phase (snd ?sys 0) = Streaming 1 1"
    "tk_recv ring (cs_tx (fst ?sys)) 1 = None"
    by (simp_all add: toy_feed_def client_advance_def on_notification_def ContactInfoState_new_def session_start_def
        ring_def Let_def)
  then show ?thesis using contact_view_exact [OF ring_ok(1) reach] by blast
qed

lemma contact_startup_flag_lost_witness:
  "let s = fold (on_notification ring) [\<lparr>cnn_message = CNode toy_node, cnn_is_startup = False\<rparr>] (ContactInfoState_new ring 4);
       (s1, se) = client_advance ring plain_addr \<lparr>stamp_seconds = 1, stamp_nanos = 0\<rparr> False True s (session_start :: nat ContactInfoClientSession)
   in se_phase se = Waiting \<and> client_advance ring plain_addr \<lparr>stamp_seconds = 1, stamp_nanos = 0\<rparr> False True s1 se = (s1, se)"
  using contact_startup_flag_lost [OF ring_ok(2), of "[\<lparr>cnn_message = CNode toy_node, cnn_is_startup = False\<rparr>]" 4
      plain_addr "\<lparr>stamp_seconds = 1, stamp_nanos = 0\<rparr>" True]
  by (auto simp: Let_def split: prod.splits)

end
