(* ===== verification/Block_Meta_Storage.thy ===== *)
theory Block_Meta_Storage
  imports Messages Channels
begin

text \<open>
  The storage behind the unary methods (\<^verbatim>\<open>BlockMetaStorage\<close> in
  \<^verbatim>\<open>yellowstone-grpc-geyser/src/grpc.rs\<close>) and the methods it answers. A single task takes slot statuses
  and block metas from a queue, each under the write lock; a method reads under the read lock, so it sees
  the state between two messages. \<^verbatim>\<open>MAX_RECENT_BLOCKHASHES\<close> of \<^verbatim>\<open>solana-clock\<close> is the parameter
  \<open>max_recent\<close>.
\<close>

section \<open>The storage\<close>

record BlockhashStatus =
  bh_slot :: u64
  bh_processed :: bool
  bh_confirmed :: bool
  bh_finalized :: bool

definition BlockhashStatus_new :: "u64 \<Rightarrow> BlockhashStatus" where
  "BlockhashStatus_new slot = \<lparr>bh_slot = slot, bh_processed = False, bh_confirmed = False, bh_finalized = False\<rparr>"

record BlockMetaStorageInner =
  bs_blocks :: "(u64, MessageBlockMeta) hmap"
  bs_blockhashes :: "(string, BlockhashStatus) hmap"
  bs_processed :: "u64 option"
  bs_confirmed :: "u64 option"
  bs_finalized :: "u64 option"

definition BlockMetaStorageInner_default :: BlockMetaStorageInner where
  "BlockMetaStorageInner_default =
     \<lparr>bs_blocks = [], bs_blockhashes = [], bs_processed = None, bs_confirmed = None, bs_finalized = None\<rparr>"

definition KEEP_SLOTS :: u64 where "KEEP_SLOTS = 3"

definition checked_sub :: "u64 \<Rightarrow> u64 \<Rightarrow> u64 option" where
  "checked_sub a b = (if b \<le> a then Some (a - b) else None)"

text \<open>The slot status of a message moves the slot of its level.\<close>

definition note_status :: "SlotStatus \<Rightarrow> u64 \<Rightarrow> BlockMetaStorageInner \<Rightarrow> BlockMetaStorageInner" where
  "note_status status slot s =
     (case status of
        SProcessed \<Rightarrow> s\<lparr>bs_processed := Some slot\<rparr>
      | SConfirmed \<Rightarrow> s\<lparr>bs_confirmed := Some slot\<rparr>
      | SFinalized \<Rightarrow> s\<lparr>bs_finalized := Some slot\<rparr>
      | _ \<Rightarrow> s)"

definition mark_status :: "SlotStatus \<Rightarrow> BlockhashStatus \<Rightarrow> BlockhashStatus" where
  "mark_status status e =
     (case status of
        SProcessed \<Rightarrow> e\<lparr>bh_processed := True\<rparr>
      | SConfirmed \<Rightarrow> e\<lparr>bh_confirmed := True\<rparr>
      | SFinalized \<Rightarrow> e\<lparr>bh_finalized := True\<rparr>
      | _ \<Rightarrow> e)"

text \<open>The blockhash of a stored block gets an entry and the status.\<close>

definition note_blockhash :: "SlotStatus \<Rightarrow> u64 \<Rightarrow> BlockMetaStorageInner \<Rightarrow> BlockMetaStorageInner" where
  "note_blockhash status slot s =
     (case map_of (bs_blocks s) slot of
        None \<Rightarrow> s
      | Some block \<Rightarrow>
          (let h = um_blockhash (bm_block_meta block);
               e = (case map_of (bs_blockhashes s) h of None \<Rightarrow> BlockhashStatus_new slot | Some e \<Rightarrow> e)
           in s\<lparr>bs_blockhashes := hmap_insert h (mark_status status e) (bs_blockhashes s)\<rparr>))"

definition prune_blocks :: "u64 \<Rightarrow> u64 \<Rightarrow> BlockMetaStorageInner \<Rightarrow> BlockMetaStorageInner" where
  "prune_blocks max_recent slot s =
     (let s1 = (case checked_sub slot KEEP_SLOTS of
                  None \<Rightarrow> s
                | Some keep_slot \<Rightarrow> s\<lparr>bs_blocks := filter (\<lambda>(k, _). keep_slot \<le> k) (bs_blocks s)\<rparr>)
      in case checked_sub slot (max_recent + 32) of
           None \<Rightarrow> s1
         | Some keep_slot \<Rightarrow>
             s1\<lparr>bs_blockhashes := filter (\<lambda>(_, e). keep_slot \<le> bh_slot e) (bs_blockhashes s1)\<rparr>)"

text \<open>One message of the queue; any other kind is only logged.\<close>

definition storage_message :: "u64 \<Rightarrow> Message \<Rightarrow> BlockMetaStorageInner \<Rightarrow> BlockMetaStorageInner" where
  "storage_message max_recent message s =
     (case message of
        MSlot msg \<Rightarrow>
          (let s1 = note_blockhash (sl_status msg) (sl_slot msg) (note_status (sl_status msg) (sl_slot msg) s)
           in if sl_status msg = SFinalized then prune_blocks max_recent (sl_slot msg) s1 else s1)
      | MBlockMeta msg \<Rightarrow> s\<lparr>bs_blocks := hmap_insert (um_slot (bm_block_meta msg)) msg (bs_blocks s)\<rparr>
      | _ \<Rightarrow> s)"

section \<open>Reading the storage\<close>

definition Status_unknown :: "string \<Rightarrow> Status" where
  "Status_unknown msg = \<lparr>stat_code = Unknown, stat_message = msg, stat_transport = False\<rparr>"

definition parse_commitment :: "(i32 \<Rightarrow> string) \<Rightarrow> i32 option \<Rightarrow> Status + CommitmentLevel" where
  "parse_commitment show commitment =
     (let n = (case commitment of None \<Rightarrow> CommitmentLevelProto_as_i32 PProcessed | Some n \<Rightarrow> n)
      in case CommitmentLevelProto_try_from n of
           Some c \<Rightarrow> Inr (commitment_of_proto c)
         | None \<Rightarrow> Inl (Status_unknown (''failed to create CommitmentLevel from '' @ show n)))"

definition slot_at :: "CommitmentLevel \<Rightarrow> BlockMetaStorageInner \<Rightarrow> u64 option" where
  "slot_at c s = (case c of Processed \<Rightarrow> bs_processed s | Confirmed \<Rightarrow> bs_confirmed s | Finalized \<Rightarrow> bs_finalized s)"

definition get_block ::
  "(i32 \<Rightarrow> string) \<Rightarrow> (MessageBlockMeta \<Rightarrow> 'a option) \<Rightarrow> i32 option \<Rightarrow> BlockMetaStorageInner \<Rightarrow> Status + 'a" where
  "get_block show handler commitment s =
     (case parse_commitment show commitment of
        Inl e \<Rightarrow> Inl e
      | Inr c \<Rightarrow>
          (case Option.bind (slot_at c s) (map_of (bs_blocks s)) of
             Some block \<Rightarrow>
               (case handler block of
                  Some resp \<Rightarrow> Inr resp
                | None \<Rightarrow> Inl (Status_internal ''failed to build response''))
           | None \<Rightarrow> Inl (Status_internal ''block is not available yet'')))"

record IsBlockhashValidResponse =
  bv_valid :: bool
  bv_slot :: u64

definition has_status :: "CommitmentLevel \<Rightarrow> BlockhashStatus \<Rightarrow> bool" where
  "has_status c e = (case c of Processed \<Rightarrow> bh_processed e | Confirmed \<Rightarrow> bh_confirmed e | Finalized \<Rightarrow> bh_finalized e)"

definition is_blockhash_valid ::
  "(i32 \<Rightarrow> string) \<Rightarrow> u64 \<Rightarrow> string \<Rightarrow> i32 option \<Rightarrow> BlockMetaStorageInner \<Rightarrow> Status + IsBlockhashValidResponse" where
  "is_blockhash_valid show max_recent blockhash commitment s =
     (case parse_commitment show commitment of
        Inl e \<Rightarrow> Inl e
      | Inr c \<Rightarrow>
          if length (bs_blockhashes s) < unat max_recent + 32 then Inl (Status_internal ''startup'')
          else
            case slot_at c s of
              None \<Rightarrow> Inl (Status_internal ''startup'')
            | Some slot \<Rightarrow>
                Inr \<lparr>bv_valid =
                       (case map_of (bs_blockhashes s) blockhash of None \<Rightarrow> False | Some e \<Rightarrow> has_status c e),
                     bv_slot = slot\<rparr>)"

section \<open>The unary methods\<close>

text \<open>The storage is absent when the unary methods are disabled.\<close>

definition Status_unimplemented :: "string \<Rightarrow> Status" where
  "Status_unimplemented msg = \<lparr>stat_code = Unimplemented, stat_message = msg, stat_transport = False\<rparr>"

definition with_storage :: "(BlockMetaStorageInner \<Rightarrow> Status + 'a) \<Rightarrow> BlockMetaStorageInner option \<Rightarrow> Status + 'a" where
  "with_storage method blocks_meta =
     (case blocks_meta of
        Some s \<Rightarrow> method s
      | None \<Rightarrow> Inl (Status_unimplemented ''method disabled''))"

record GetLatestBlockhashResponse =
  lb_slot :: u64
  lb_blockhash :: string
  lb_last_valid_block_height :: u64

definition get_latest_blockhash ::
  "(i32 \<Rightarrow> string) \<Rightarrow> u64 \<Rightarrow> i32 option \<Rightarrow> BlockMetaStorageInner option \<Rightarrow> Status + GetLatestBlockhashResponse" where
  "get_latest_blockhash show max_recent commitment =
     with_storage (get_block show
       (\<lambda>block. map_option
          (\<lambda>height. \<lparr>lb_slot = um_slot (bm_block_meta block), lb_blockhash = um_blockhash (bm_block_meta block),
                     lb_last_valid_block_height = height + max_recent\<rparr>)
          (um_block_height (bm_block_meta block))) commitment)"

definition get_block_height :: "(i32 \<Rightarrow> string) \<Rightarrow> i32 option \<Rightarrow> BlockMetaStorageInner option \<Rightarrow> Status + u64" where
  "get_block_height show commitment =
     with_storage (get_block show (\<lambda>block. um_block_height (bm_block_meta block)) commitment)"

definition get_slot_method :: "(i32 \<Rightarrow> string) \<Rightarrow> i32 option \<Rightarrow> BlockMetaStorageInner option \<Rightarrow> Status + u64" where
  "get_slot_method show commitment =
     with_storage (get_block show (\<lambda>block. Some (um_slot (bm_block_meta block))) commitment)"

definition is_blockhash_valid_method ::
  "(i32 \<Rightarrow> string) \<Rightarrow> u64 \<Rightarrow> string \<Rightarrow> i32 option \<Rightarrow> BlockMetaStorageInner option \<Rightarrow> Status + IsBlockhashValidResponse" where
  "is_blockhash_valid_method show max_recent blockhash commitment =
     with_storage (is_blockhash_valid show max_recent blockhash commitment)"

end
