(* ===== verification/Block_Meta_Claims.thy ===== *)
theory Block_Meta_Claims
  imports Block_Meta_Storage
begin

text \<open>
  What the unary methods answer, as a function of the messages the storage was sent: the current block of a
  commitment level, the validity of a blockhash, and when the storage still counts as starting up.
\<close>

definition storage_after :: "u64 \<Rightarrow> Message list \<Rightarrow> BlockMetaStorageInner" where
  "storage_after max_recent ms = fold (storage_message max_recent) ms BlockMetaStorageInner_default"

lemma storage_after_simps [simp]:
  "storage_after K [] = BlockMetaStorageInner_default"
  "storage_after K (ms @ [m]) = storage_message K m (storage_after K ms)"
  by (simp_all add: storage_after_def)

section \<open>The reference: what the messages say\<close>

abbreviation blockhash_of :: "MessageBlockMeta \<Rightarrow> string" where
  "blockhash_of b \<equiv> um_blockhash (bm_block_meta b)"

abbreviation meta_slot :: "MessageBlockMeta \<Rightarrow> u64" where
  "meta_slot b \<equiv> um_slot (bm_block_meta b)"

text \<open>The last slot that reached a commitment level.\<close>

definition reaches :: "CommitmentLevel \<Rightarrow> Message \<Rightarrow> bool" where
  "reaches c m = (case m of MSlot x \<Rightarrow> commitment_eq_status c (sl_status x) | _ \<Rightarrow> False)"

definition last_slot :: "CommitmentLevel \<Rightarrow> Message list \<Rightarrow> u64 option" where
  "last_slot c ms = map_option get_slot (find (reaches c) (rev ms))"

text \<open>A finalized slot more than \<open>gap\<close> slots ahead makes a slot expire; a block meta is kept from its arrival
  until its slot expires or another block meta of the slot arrives.\<close>

definition expires :: "nat \<Rightarrow> u64 \<Rightarrow> Message \<Rightarrow> bool" where
  "expires gap slot m = (case m of MSlot x \<Rightarrow> sl_status x = SFinalized \<and> unat slot + gap < unat (sl_slot x) | _ \<Rightarrow> False)"

definition meta_of :: "u64 \<Rightarrow> Message \<Rightarrow> bool" where
  "meta_of slot m = (case m of MBlockMeta b \<Rightarrow> meta_slot b = slot | _ \<Rightarrow> False)"

definition kept :: "Message list \<Rightarrow> u64 \<Rightarrow> MessageBlockMeta option" where
  "kept ms slot =
     (case find (\<lambda>m. meta_of slot m \<or> expires 3 slot m) (rev ms) of Some (MBlockMeta b) \<Rightarrow> Some b | _ \<Rightarrow> None)"

definition current_block :: "CommitmentLevel \<Rightarrow> Message list \<Rightarrow> MessageBlockMeta option" where
  "current_block c ms = Option.bind (last_slot c ms) (kept ms)"

text \<open>A status that concerns a kept block marks the blockhash; the note stands until the slot expires.\<close>

definition marks :: "(SlotStatus \<Rightarrow> bool) \<Rightarrow> string \<Rightarrow> Message list \<Rightarrow> Message \<Rightarrow> bool" where
  "marks P h before m \<longleftrightarrow>
     (\<exists>x b. m = MSlot x \<and> P (sl_status x) \<and> kept before (sl_slot x) = Some b \<and> blockhash_of b = h)"

definition noted :: "nat \<Rightarrow> (SlotStatus \<Rightarrow> bool) \<Rightarrow> string \<Rightarrow> Message list \<Rightarrow> bool" where
  "noted gap P h ms \<longleftrightarrow>
     (\<exists>before m after. ms = before @ m # after \<and> marks P h before m \<and> (\<forall>n \<in> set after. \<not> expires gap (get_slot m) n))"

definition noted_hashes :: "nat \<Rightarrow> Message list \<Rightarrow> string set" where
  "noted_hashes gap ms = {h. noted gap (\<lambda>_. True) h ms}"

definition metas :: "Message list \<Rightarrow> MessageBlockMeta set" where
  "metas ms = {b. MBlockMeta b \<in> set ms}"

text \<open>A blockhash belongs to one slot.\<close>

definition hashes_of_one_slot :: "Message list \<Rightarrow> bool" where
  "hashes_of_one_slot ms \<longleftrightarrow> (\<forall>a \<in> metas ms. \<forall>b \<in> metas ms. blockhash_of a = blockhash_of b \<longrightarrow> meta_slot a = meta_slot b)"

section \<open>The storage computes the reference\<close>

lemma reference_Nil [simp]: "last_slot c [] = None" "kept [] slot = None" "metas [] = {}" "\<not> noted gap P h []"
  by (simp_all add: last_slot_def kept_def metas_def noted_def)

lemma last_slot_snoc: "last_slot c (ms @ [m]) = (if reaches c m then Some (get_slot m) else last_slot c ms)"
  by (simp add: last_slot_def)

lemma kept_snoc: "kept (ms @ [m]) slot =
    (case m of
       MBlockMeta b \<Rightarrow> if meta_slot b = slot then Some b else kept ms slot
     | _ \<Rightarrow> if expires 3 slot m then None else kept ms slot)"
  by (simp add: kept_def meta_of_def expires_def split: Message.splits)

lemma metas_snoc: "metas (ms @ [m]) = (case m of MBlockMeta b \<Rightarrow> insert b (metas ms) | _ \<Rightarrow> metas ms)"
  by (auto simp: metas_def split: Message.splits)

lemma kept_meta: "kept ms slot = Some b \<Longrightarrow> b \<in> metas ms \<and> meta_slot b = slot"
  by (induction ms rule: rev_induct) (auto simp: kept_snoc metas_snoc split: Message.splits if_splits)

lemma checked_sub_keep:
  "(case checked_sub f k of None \<Rightarrow> True | Some keep \<Rightarrow> keep \<le> slot) \<longleftrightarrow> \<not> unat slot + unat k < unat f"
  by (auto simp: checked_sub_def word_le_nat_alt unat_sub)

lemma map_of_filter_values: "distinct (map fst m) \<Longrightarrow>
    map_of (filter (\<lambda>(k, v). P k v) m) x = (case map_of m x of Some v \<Rightarrow> if P x v then Some v else None | None \<Rightarrow> None)"
  by (induction m) (auto split: option.splits simp: map_of_eq_None_iff)

lemma distinct_filter_keys: "distinct (map fst m) \<Longrightarrow> distinct (map fst (filter P m))"
  by (rule distinct_map_filter)

lemma slot_at_note_status: "slot_at c (note_status st slot s) =
    (if commitment_eq_status c st then Some slot else slot_at c s)"
  by (cases c; cases st) (simp_all add: slot_at_def note_status_def commitment_eq_status_def)

lemma note_status_other [simp]: "bs_blocks (note_status st slot s) = bs_blocks s"
    "bs_blockhashes (note_status st slot s) = bs_blockhashes s"
  by (cases st; simp add: note_status_def)+

lemma note_blockhash_other [simp]: "bs_blocks (note_blockhash st slot s) = bs_blocks s"
    "slot_at c (note_blockhash st slot s) = slot_at c s"
  by (auto simp: note_blockhash_def slot_at_def Let_def split: option.splits CommitmentLevel.splits)

lemma prune_blocks_slot_at [simp]: "slot_at c (prune_blocks K slot s) = slot_at c s"
  by (auto simp: prune_blocks_def slot_at_def Let_def split: option.splits CommitmentLevel.splits)

lemma storage_slot: "slot_at c (storage_after K ms) = last_slot c ms"
proof (induction ms rule: rev_induct)
  case Nil
  then show ?case by (cases c) (simp_all add: slot_at_def BlockMetaStorageInner_default_def)
next
  case (snoc m ms)
  have "slot_at c (s\<lparr>bs_blocks := x\<rparr>) = slot_at c s" for s x by (cases c) (simp_all add: slot_at_def)
  with snoc show ?case
    by (cases m) (simp_all add: storage_message_def last_slot_snoc reaches_def slot_at_note_status get_slot_def Let_def)
qed

text \<open>The block metas of a storage are the kept ones.\<close>

definition blocks_ok :: "BlockMetaStorageInner \<Rightarrow> Message list \<Rightarrow> bool" where
  "blocks_ok s ms \<longleftrightarrow> distinct (map fst (bs_blocks s)) \<and> (\<forall>slot. map_of (bs_blocks s) slot = kept ms slot)"

lemma prune_blocks_blocks:
  assumes "distinct (map fst (bs_blocks s))"
  shows "distinct (map fst (bs_blocks (prune_blocks K f s)))"
    and "map_of (bs_blocks (prune_blocks K f s)) slot =
      (if unat slot + 3 < unat f then None else map_of (bs_blocks s) slot)"
proof -
  have *: "bs_blocks (prune_blocks K f s) =
      (case checked_sub f KEEP_SLOTS of None \<Rightarrow> bs_blocks s | Some keep \<Rightarrow> filter (\<lambda>(k, _). keep \<le> k) (bs_blocks s))"
    by (simp add: prune_blocks_def Let_def split: option.splits)
  show "distinct (map fst (bs_blocks (prune_blocks K f s)))"
    using assms by (simp add: * distinct_filter_keys split: option.splits)
  show "map_of (bs_blocks (prune_blocks K f s)) slot =
      (if unat slot + 3 < unat f then None else map_of (bs_blocks s) slot)"
    using checked_sub_keep [where f = f and k = KEEP_SLOTS and slot = slot] map_of_filter_values [OF assms, of "\<lambda>k _. _ \<le> k"]
    by (auto simp: * KEEP_SLOTS_def split: option.splits if_splits)
qed

lemma storage_blocks: "blocks_ok (storage_after K ms) ms"
proof (induction ms rule: rev_induct)
  case Nil
  then show ?case by (simp add: blocks_ok_def BlockMetaStorageInner_default_def)
next
  case (snoc m ms)
  let ?s = "storage_after K ms"
  show ?case
  proof (cases m)
    case (MSlot x)
    let ?s1 = "note_blockhash (sl_status x) (sl_slot x) (note_status (sl_status x) (sl_slot x) ?s)"
    have d: "distinct (map fst (bs_blocks ?s1))" using snoc by (simp add: blocks_ok_def)
    show ?thesis
      using snoc MSlot prune_blocks_blocks [OF d]
      by (auto simp: blocks_ok_def storage_message_def kept_snoc expires_def Let_def)
  qed (use snoc in \<open>auto simp: blocks_ok_def storage_message_def kept_snoc expires_def\<close>)
qed

section \<open>Blockhashes\<close>

lemma noted_snoc: "noted gap P h (ms @ [m]) \<longleftrightarrow>
    marks P h ms m \<or> (\<exists>before m' after. ms = before @ m' # after \<and> marks P h before m' \<and>
      (\<forall>n \<in> set after. \<not> expires gap (get_slot m') n) \<and> \<not> expires gap (get_slot m') m)"
  (is "?l \<longleftrightarrow> ?r")
proof
  assume ?l
  then obtain before m' after where *: "ms @ [m] = before @ m' # after" "marks P h before m'"
      "\<forall>n \<in> set after. \<not> expires gap (get_slot m') n" by (auto simp: noted_def)
  show ?r
  proof (cases after rule: rev_cases)
    case Nil
    with * show ?thesis by simp
  next
    case (snoc a n)
    with * show ?thesis by auto
  qed
next
  assume ?r
  then show ?l
  proof
    assume "marks P h ms m"
    then show ?l unfolding noted_def by (intro exI [of _ ms] exI [of _ m] exI [of _ "[]"]) simp
  next
    assume "\<exists>before m' after. ms = before @ m' # after \<and> marks P h before m' \<and>
      (\<forall>n \<in> set after. \<not> expires gap (get_slot m') n) \<and> \<not> expires gap (get_slot m') m"
    then obtain before m' after where "ms = before @ m' # after" "marks P h before m'"
      "\<forall>n \<in> set after. \<not> expires gap (get_slot m') n" "\<not> expires gap (get_slot m') m" by blast
    then show ?l unfolding noted_def by (intro exI [of _ before] exI [of _ m'] exI [of _ "after @ [m]"]) auto
  qed
qed

text \<open>The block meta behind a mark; when blockhashes belong to one slot, the mark is of that slot.\<close>

lemma marks_meta: "marks P h before m \<Longrightarrow> \<exists>b \<in> metas before. blockhash_of b = h \<and> meta_slot b = get_slot m"
  using kept_meta by (force simp: marks_def get_slot_def)

lemma metas_append [simp]: "metas (ms @ ns) = metas ms \<union> metas ns"
  by (auto simp: metas_def)

lemma noted_snoc_slot:
  assumes "hashes_of_one_slot ms" "b \<in> metas ms" "blockhash_of b = h"
  shows "noted gap P h (ms @ [m]) \<longleftrightarrow> marks P h ms m \<or> noted gap P h ms \<and> \<not> expires gap (meta_slot b) m"
proof -
  have same: "get_slot m' = meta_slot b" if split: "ms = before @ m' # after" and mark: "marks P h before m'" for before m' after
  proof -
    obtain b' where b': "b' \<in> metas before" "blockhash_of b' = h" "meta_slot b' = get_slot m'" using marks_meta [OF mark] by blast
    then have "b' \<in> metas ms" by (simp add: split)
    with b' assms show ?thesis unfolding hashes_of_one_slot_def by metis
  qed
  show ?thesis
  proof
    assume "noted gap P h (ms @ [m])"
    from this [unfolded noted_snoc] show "marks P h ms m \<or> noted gap P h ms \<and> \<not> expires gap (meta_slot b) m"
      unfolding noted_def using same by metis
  next
    assume "marks P h ms m \<or> noted gap P h ms \<and> \<not> expires gap (meta_slot b) m"
    then show "noted gap P h (ms @ [m])" unfolding noted_snoc unfolding noted_def using same by metis
  qed
qed

lemma noted_meta: "noted gap P h ms \<Longrightarrow> \<exists>b \<in> metas ms. blockhash_of b = h"
  using marks_meta by (fastforce simp: noted_def)

text \<open>The entries of a storage.\<close>

definition entry_ok :: "nat \<Rightarrow> Message list \<Rightarrow> string \<Rightarrow> BlockhashStatus option \<Rightarrow> bool" where
  "entry_ok gap ms h entry =
     (case entry of
        None \<Rightarrow> \<not> noted gap (\<lambda>_. True) h ms
      | Some e \<Rightarrow> noted gap (\<lambda>_. True) h ms \<and> (\<exists>b \<in> metas ms. blockhash_of b = h \<and> meta_slot b = bh_slot e) \<and>
          (\<forall>c. has_status c e \<longleftrightarrow> noted gap (commitment_eq_status c) h ms))"

lemma has_status_mark: "has_status c (mark_status st e) \<longleftrightarrow> commitment_eq_status c st \<or> has_status c e"
  by (cases c; cases st) (simp_all add: has_status_def mark_status_def commitment_eq_status_def)

lemma mark_status_slot [simp]: "bh_slot (mark_status st e) = bh_slot e"
  by (cases st) (simp_all add: mark_status_def)

lemma has_status_new [simp]: "\<not> has_status c (BlockhashStatus_new slot)"
  by (cases c) (simp_all add: has_status_def BlockhashStatus_new_def)

lemma slot_new [simp]: "bh_slot (BlockhashStatus_new slot) = slot"
  by (simp add: BlockhashStatus_new_def)

lemma prune_blocks_hashes:
  assumes "distinct (map fst (bs_blockhashes s))" "unat K < 2 ^ 32"
  shows "distinct (map fst (bs_blockhashes (prune_blocks K f s)))"
    and "map_of (bs_blockhashes (prune_blocks K f s)) h =
      (case map_of (bs_blockhashes s) h of
         None \<Rightarrow> None | Some e \<Rightarrow> if unat (bh_slot e) + (unat K + 32) < unat f then None else Some e)"
proof -
  have *: "bs_blockhashes (prune_blocks K f s) =
      (case checked_sub f (K + 32) of
         None \<Rightarrow> bs_blockhashes s | Some keep \<Rightarrow> filter (\<lambda>(_, e). keep \<le> bh_slot e) (bs_blockhashes s))"
    by (simp add: prune_blocks_def Let_def split: option.splits)
  have K: "unat (K + 32) = unat K + 32" using assms(2) by (simp add: unat_add_lem [THEN iffD1])
  show "distinct (map fst (bs_blockhashes (prune_blocks K f s)))"
    using assms by (simp add: * distinct_filter_keys split: option.splits)
  show "map_of (bs_blockhashes (prune_blocks K f s)) h =
      (case map_of (bs_blockhashes s) h of
         None \<Rightarrow> None | Some e \<Rightarrow> if unat (bh_slot e) + (unat K + 32) < unat f then None else Some e)"
    using checked_sub_keep [where f = f and k = "K + 32"] map_of_filter_values [OF assms(1), of "\<lambda>_ e. _ \<le> bh_slot e"] K
    by (auto simp: * split: option.splits if_splits)
qed

lemma note_blockhash_map:
  "map_of (bs_blockhashes (note_blockhash st slot s)) h =
     (case map_of (bs_blocks s) slot of
        Some b \<Rightarrow> if blockhash_of b = h
          then Some (mark_status st (case map_of (bs_blockhashes s) h of None \<Rightarrow> BlockhashStatus_new slot | Some e \<Rightarrow> e))
          else map_of (bs_blockhashes s) h
      | None \<Rightarrow> map_of (bs_blockhashes s) h)"
  "distinct (map fst (bs_blockhashes s)) \<Longrightarrow> distinct (map fst (bs_blockhashes (note_blockhash st slot s)))"
  by (auto simp: note_blockhash_def Let_def split: option.splits)

lemma noted_True: "noted gap P h ms \<Longrightarrow> noted gap (\<lambda>_. True) h ms"
  unfolding noted_def marks_def by blast

lemma marks_slot: "marks P h ms (MSlot x) \<longleftrightarrow> P (sl_status x) \<and> (\<exists>b. kept ms (sl_slot x) = Some b \<and> blockhash_of b = h)"
  by (auto simp: marks_def)

lemma expires_slot: "expires gap slot (MSlot x) \<longleftrightarrow> sl_status x = SFinalized \<and> unat slot + gap < unat (sl_slot x)"
  by (simp add: expires_def)

lemma noted_snoc_other: "(\<And>x. m \<noteq> MSlot x) \<Longrightarrow> noted gap P h (ms @ [m]) \<longleftrightarrow> noted gap P h ms"
proof -
  assume "\<And>x. m \<noteq> MSlot x"
  then have "\<not> marks P h ms m" "\<And>slot. \<not> expires gap slot m"
    by (auto simp: marks_def expires_def split: Message.splits)
  then show ?thesis unfolding noted_snoc unfolding noted_def by simp
qed

lemma entry_ok_other:
  assumes "\<And>x. m \<noteq> MSlot x" "entry_ok gap ms h entry"
  shows "entry_ok gap (ms @ [m]) h entry"
  using assms(2) by (auto simp: entry_ok_def noted_snoc_other [OF assms(1)] split: option.splits)

lemma entry_ok_marked:
  assumes one: "hashes_of_one_slot ms" and old: "entry_ok gap ms h old"
    and b: "kept ms (sl_slot x) = Some b" "blockhash_of b = h"
  shows "let e = mark_status (sl_status x) (case old of None \<Rightarrow> BlockhashStatus_new (sl_slot x) | Some e \<Rightarrow> e) in
    bh_slot e = sl_slot x \<and> entry_ok gap (ms @ [MSlot x]) h (Some e)"
proof -
  have meta: "b \<in> metas ms" "meta_slot b = sl_slot x" using kept_meta [OF b(1)] by simp_all
  have snoc: "noted gap P h (ms @ [MSlot x]) \<longleftrightarrow> P (sl_status x) \<or> noted gap P h ms" for P
    using noted_snoc_slot [OF one meta(1) b(2)] meta(2) b by (auto simp: marks_slot expires_slot)
  have "bh_slot e = sl_slot x" if e: "old = Some e" for e
  proof -
    obtain b' where "b' \<in> metas ms" "blockhash_of b' = h" "meta_slot b' = bh_slot e"
      using old e by (auto simp: entry_ok_def)
    with one meta b(2) show ?thesis unfolding hashes_of_one_slot_def by metis
  qed
  moreover have "\<not> noted gap P h ms" if "old = None" for P
    using old that noted_True by (auto simp: entry_ok_def)
  ultimately show ?thesis
    using old meta b(2)
    by (cases old) (auto simp: entry_ok_def snoc has_status_mark metas_snoc Let_def)
qed

lemma entry_ok_unmarked:
  assumes one: "hashes_of_one_slot ms" and old: "entry_ok gap ms h old"
    and unmarked: "\<And>b. kept ms (sl_slot x) = Some b \<Longrightarrow> blockhash_of b \<noteq> h"
  shows "entry_ok gap (ms @ [MSlot x]) h
    (case old of None \<Rightarrow> None
     | Some e \<Rightarrow> if sl_status x = SFinalized \<and> unat (bh_slot e) + gap < unat (sl_slot x) then None else Some e)"
proof (cases old)
  case None
  then have "\<not> noted gap (\<lambda>_. True) h ms" using old by (simp add: entry_ok_def)
  moreover have "\<not> marks (\<lambda>_. True) h ms (MSlot x)" using unmarked by (auto simp: marks_slot)
  ultimately show ?thesis using None unfolding entry_ok_def noted_snoc by (auto simp: noted_def)
next
  case (Some e)
  then obtain b where b: "b \<in> metas ms" "blockhash_of b = h" "meta_slot b = bh_slot e" using old by (auto simp: entry_ok_def)
  have "noted gap P h (ms @ [MSlot x]) \<longleftrightarrow> noted gap P h ms \<and> \<not> expires gap (bh_slot e) (MSlot x)" for P
    using noted_snoc_slot [OF one b(1,2)] b(3) unmarked by (auto simp: marks_slot)
  with Some old b show ?thesis by (auto simp: entry_ok_def expires_slot metas_snoc)
qed

lemma storage_message_hashes:
  assumes "distinct (map fst (bs_blockhashes s))" "unat K < 2 ^ 32"
  shows "distinct (map fst (bs_blockhashes (storage_message K (MSlot x) s)))"
    and "map_of (bs_blockhashes (storage_message K (MSlot x) s)) h =
      (case map_of (bs_blockhashes (note_blockhash (sl_status x) (sl_slot x) (note_status (sl_status x) (sl_slot x) s))) h of
         None \<Rightarrow> None
       | Some e \<Rightarrow> if sl_status x = SFinalized \<and> unat (bh_slot e) + (unat K + 32) < unat (sl_slot x) then None else Some e)"
proof -
  have d: "distinct (map fst (bs_blockhashes (note_blockhash (sl_status x) (sl_slot x) (note_status (sl_status x) (sl_slot x) s))))"
    using assms(1) by (simp add: note_blockhash_map(2))
  note prune = prune_blocks_hashes [OF d assms(2)]
  show "distinct (map fst (bs_blockhashes (storage_message K (MSlot x) s)))"
    unfolding storage_message_def Let_def Message.case using d prune(1) by (split if_split) blast
  show "map_of (bs_blockhashes (storage_message K (MSlot x) s)) h =
      (case map_of (bs_blockhashes (note_blockhash (sl_status x) (sl_slot x) (note_status (sl_status x) (sl_slot x) s))) h of
         None \<Rightarrow> None
       | Some e \<Rightarrow> if sl_status x = SFinalized \<and> unat (bh_slot e) + (unat K + 32) < unat (sl_slot x) then None else Some e)"
  proof (cases "sl_status x = SFinalized")
    case True
    then show ?thesis using prune(2) [of "sl_slot x" h] unfolding storage_message_def Let_def Message.case by (simp split: option.split)
  next
    case False
    then show ?thesis by (simp add: storage_message_def Let_def split: option.split)
  qed
qed

definition hashes_ok :: "nat \<Rightarrow> BlockMetaStorageInner \<Rightarrow> Message list \<Rightarrow> bool" where
  "hashes_ok gap s ms \<longleftrightarrow> distinct (map fst (bs_blockhashes s)) \<and>
     (\<forall>h. entry_ok gap ms h (map_of (bs_blockhashes s) h))"

lemma storage_hashes:
  assumes "unat K < 2 ^ 32" "hashes_of_one_slot ms"
  shows "hashes_ok (unat K + 32) (storage_after K ms) ms"
  using assms(2)
proof (induction ms rule: rev_induct)
  case Nil
  then show ?case by (simp add: hashes_ok_def entry_ok_def BlockMetaStorageInner_default_def)
next
  case (snoc m ms)
  let ?s = "storage_after K ms" and ?gap = "unat K + 32"
  have one: "hashes_of_one_slot ms" using snoc.prems by (simp add: hashes_of_one_slot_def)
  have IH: "distinct (map fst (bs_blockhashes ?s))" "\<And>h. entry_ok ?gap ms h (map_of (bs_blockhashes ?s) h)"
    using snoc.IH [OF one] by (simp_all add: hashes_ok_def)
  show ?case
  proof (cases "\<exists>x. m = MSlot x")
    case False
    then have "bs_blockhashes (storage_message K m ?s) = bs_blockhashes ?s"
      by (cases m) (simp_all add: storage_message_def)
    with IH False entry_ok_other show ?thesis by (simp add: hashes_ok_def)
  next
    case True
    then obtain x where m: "m = MSlot x" by blast
    have blocks: "map_of (bs_blocks ?s) (sl_slot x) = kept ms (sl_slot x)" using storage_blocks by (simp add: blocks_ok_def)
    note step = storage_message_hashes [OF IH(1) assms(1)]
    have "entry_ok ?gap (ms @ [MSlot x]) h (map_of (bs_blockhashes (storage_message K (MSlot x) ?s)) h)" for h
    proof (cases "\<exists>b. kept ms (sl_slot x) = Some b \<and> blockhash_of b = h")
      case True
      then obtain b where b: "kept ms (sl_slot x) = Some b" "blockhash_of b = h" by blast
      show ?thesis
        using entry_ok_marked [OF one IH(2) b]
        unfolding step(2) by (simp add: note_blockhash_map blocks b Let_def)
    next
      case False
      then have "map_of (bs_blockhashes (note_blockhash (sl_status x) (sl_slot x) (note_status (sl_status x) (sl_slot x) ?s))) h =
          map_of (bs_blockhashes ?s) h"
        by (auto simp: note_blockhash_map blocks split: option.splits)
      then show ?thesis unfolding step(2) using entry_ok_unmarked [OF one IH(2), of x h] False by simp
    qed
    then show ?thesis using m step(1) by (simp add: hashes_ok_def)
  qed
qed

lemma noted_hashes_keys:
  assumes "hashes_ok gap s ms"
  shows "card (noted_hashes gap ms) = length (bs_blockhashes s)"
proof -
  have "h \<in> noted_hashes gap ms \<longleftrightarrow> h \<in> fst ` set (bs_blockhashes s)" for h
  proof -
    have "entry_ok gap ms h (map_of (bs_blockhashes s) h)" using assms by (simp add: hashes_ok_def)
    then show ?thesis
    proof (cases "map_of (bs_blockhashes s) h")
      case (Some e)
      then have "h \<in> fst ` set (bs_blockhashes s)" by (force dest: map_of_SomeD)
      with \<open>entry_ok gap ms h _\<close> Some show ?thesis by (simp add: noted_hashes_def entry_ok_def)
    qed (auto simp: noted_hashes_def entry_ok_def map_of_eq_None_iff)
  qed
  then have "noted_hashes gap ms = set (map fst (bs_blockhashes s))" by auto
  then show ?thesis using assms by (simp only: distinct_card hashes_ok_def length_map)
qed

lemma later_part:
  assumes "front @ m # rest = before @ y # after" "y \<notin> set (m # rest)"
  shows "\<exists>mid. front = before @ y # mid \<and> after = mid @ m # rest"
  using assms by (auto simp: append_eq_append_conv2 Cons_eq_append_conv append_eq_Cons_conv)

lemma kept_after: "kept (before @ MSlot x # mid) slot = Some b \<Longrightarrow> b \<in> metas mid \<or> \<not> expires 3 slot (MSlot x)"
proof (induction mid rule: rev_induct)
  case Nil
  then show ?case by (auto simp: kept_snoc split: if_splits)
next
  case (snoc m mid)
  have "kept ((before @ MSlot x # mid) @ [m]) slot = Some b" using snoc.prems by simp
  then have "kept (before @ MSlot x # mid) slot = Some b \<or> m = MBlockMeta b"
    unfolding kept_snoc by (auto split: Message.splits if_splits)
  with snoc.IH show ?case by (auto simp: metas_def)
qed

lemma finite_metas: "finite (metas ms)"
proof -
  have "metas ms = MBlockMeta -` set ms" by (auto simp: metas_def)
  then show ?thesis by (simp add: finite_vimageI inj_on_def)
qed

section \<open>Properties\<close>

text \<open>C32. The block methods, after any messages, for a commitment that decodes: the block is the latest block meta
  of the last slot that reached the commitment, unless a slot more than three ahead was finalized since that
  block meta arrived. Without such a block the methods say that it is not available yet; with it they answer
  with its slot, its height, and its blockhash with the height up to which it is valid.\<close>

theorem unary_block_exact:
  assumes "parse_commitment pr n = Inr c"
  shows "get_slot_method pr n (Some (storage_after K ms)) =
      (case current_block c ms of
         None \<Rightarrow> Inl (Status_internal ''block is not available yet'')
       | Some _ \<Rightarrow> Inr (the (last_slot c ms))) \<and>
    get_block_height pr n (Some (storage_after K ms)) =
      (case current_block c ms of
         None \<Rightarrow> Inl (Status_internal ''block is not available yet'')
       | Some b \<Rightarrow> (case um_block_height (bm_block_meta b) of
           None \<Rightarrow> Inl (Status_internal ''failed to build response'') | Some height \<Rightarrow> Inr height)) \<and>
    get_latest_blockhash pr K n (Some (storage_after K ms)) =
      (case current_block c ms of
         None \<Rightarrow> Inl (Status_internal ''block is not available yet'')
       | Some b \<Rightarrow> (case um_block_height (bm_block_meta b) of
           None \<Rightarrow> Inl (Status_internal ''failed to build response'')
         | Some height \<Rightarrow> Inr \<lparr>lb_slot = the (last_slot c ms), lb_blockhash = blockhash_of b,
             lb_last_valid_block_height = height + K\<rparr>))"
proof -
  have block: "Option.bind (slot_at c (storage_after K ms)) (map_of (bs_blocks (storage_after K ms))) = current_block c ms"
  proof -
    have "map_of (bs_blocks (storage_after K ms)) = kept ms" using storage_blocks by (auto simp: blocks_ok_def)
    then show ?thesis by (simp add: storage_slot current_block_def)
  qed
  have "meta_slot b = the (last_slot c ms)" if "current_block c ms = Some b" for b
    using that by (auto simp: current_block_def bind_eq_Some_conv dest: kept_meta)
  then show ?thesis
    using assms
    by (auto simp: get_slot_method_def get_block_height_def get_latest_blockhash_def with_storage_def get_block_def block
        split: option.split)
qed

text \<open>C33. Validity of a blockhash, after any messages in which a blockhash belongs to one slot: with fewer noted
  blockhashes than \<open>max_recent + 32\<close> the storage is starting up; otherwise the blockhash is valid at a
  commitment exactly when a status of that level arrived while the block was kept and no slot more than
  \<open>max_recent + 32\<close> ahead was finalized since, and the answer names the last slot of the level.\<close>

theorem blockhash_validity_exact:
  assumes "parse_commitment pr n = Inr c" "hashes_of_one_slot ms" "unat K < 2 ^ 32"
  shows "is_blockhash_valid_method pr K h n (Some (storage_after K ms)) =
    (if card (noted_hashes (unat K + 32) ms) < unat K + 32 then Inl (Status_internal ''startup'')
     else case last_slot c ms of
            None \<Rightarrow> Inl (Status_internal ''startup'')
          | Some slot \<Rightarrow> Inr \<lparr>bv_valid = noted (unat K + 32) (commitment_eq_status c) h ms, bv_slot = slot\<rparr>)"
proof -
  note ok = storage_hashes [OF assms(3,2)]
  have "entry_ok (unat K + 32) ms h (map_of (bs_blockhashes (storage_after K ms)) h)" using ok by (simp add: hashes_ok_def)
  then have "(case map_of (bs_blockhashes (storage_after K ms)) h of None \<Rightarrow> False | Some e \<Rightarrow> has_status c e) =
      noted (unat K + 32) (commitment_eq_status c) h ms"
    using noted_True by (auto simp: entry_ok_def split: option.splits)
  then show ?thesis
    using assms(1)
    by (simp add: is_blockhash_valid_method_def with_storage_def is_blockhash_valid_def storage_slot
        noted_hashes_keys [OF ok] split: option.split)
qed

text \<open>Starting up for ever: once a slot is finalized, and as long as fewer than \<open>max_recent + 32\<close> blockhashes
  belong to block metas from \<open>max_recent + 32\<close> slots before it on, the validity of a blockhash is
  refused as during startup. With 300 recent blockhashes this takes 34 skipped slots among the 332 before
  the finalized one and the 32 or so after it.\<close>

lemma skipped_slots_keep_startup:
  assumes "parse_commitment pr n = Inr c" "hashes_of_one_slot ms" "unat K < 2 ^ 32"
    and "ms = before @ MSlot x # after" "sl_status x = SFinalized"
    and "card (blockhash_of ` {b \<in> metas ms. unat (sl_slot x) \<le> unat (meta_slot b) + (unat K + 32)}) < unat K + 32"
    and "\<And>b. b \<in> metas after \<Longrightarrow> unat (sl_slot x) \<le> unat (meta_slot b) + (unat K + 32)"
  shows "is_blockhash_valid_method pr K h n (Some (storage_after K ms)) = Inl (Status_internal ''startup'')"
proof -
  let ?gap = "unat K + 32"
  let ?recent = "{b \<in> metas ms. unat (sl_slot x) \<le> unat (meta_slot b) + ?gap}"
  have "noted_hashes ?gap ms \<subseteq> blockhash_of ` ?recent"
  proof
    fix h assume "h \<in> noted_hashes ?gap ms"
    then obtain front m rest where split: "ms = front @ m # rest" "marks (\<lambda>_. True) h front m"
        "\<forall>n \<in> set rest. \<not> expires ?gap (get_slot m) n" by (auto simp: noted_hashes_def noted_def)
    obtain y b where y: "m = MSlot y" "kept front (sl_slot y) = Some b" "blockhash_of b = h"
      using split(2) by (auto simp: marks_def)
    then have b: "b \<in> metas front" "meta_slot b = sl_slot y" using kept_meta by blast+
    have "unat (sl_slot x) \<le> unat (sl_slot y) + ?gap"
    proof (cases "MSlot x \<in> set (m # rest)")
      case True
      then show ?thesis using assms(5) split(3) y(1) by (auto simp: expires_slot not_less get_slot_def)
    next
      case False
      then obtain mid where mid: "front = before @ MSlot x # mid" "after = mid @ m # rest"
        using split(1) assms(4) later_part by metis
      then have "b \<in> metas mid \<or> \<not> expires 3 (sl_slot y) (MSlot x)" using kept_after y(2) by blast
      then show ?thesis
      proof
        assume "b \<in> metas mid"
        then have "b \<in> metas after" by (simp add: mid(2))
        from assms(7) [OF this] b(2) show ?thesis by simp
      next
        assume "\<not> expires 3 (sl_slot y) (MSlot x)"
        with assms(5) show ?thesis by (simp add: expires_slot)
      qed
    qed
    then have "b \<in> ?recent" using b split(1) by simp
    then show "h \<in> blockhash_of ` ?recent" using y(3) by (intro image_eqI [of _ _ b]) simp_all
  qed
  moreover have "finite (metas ms)" by (rule finite_metas)
  ultimately have "card (noted_hashes ?gap ms) < ?gap"
    using assms(6) card_mono [of "blockhash_of ` ?recent" "noted_hashes ?gap ms"] by simp
  then show ?thesis
    using assms(1) noted_hashes_keys [OF storage_hashes [OF assms(3,2)]]
    by (simp add: is_blockhash_valid_method_def with_storage_def is_blockhash_valid_def)
qed

section \<open>Witnesses\<close>

definition toy_block :: "u64 \<Rightarrow> MessageBlockMeta" where
  "toy_block slot =
     \<lparr>bm_block_meta = \<lparr>um_slot = slot, um_blockhash = ''hash'', um_rewards = None, um_block_time = None,
        um_block_height = Some 5, um_parent_slot = slot - 1, um_parent_blockhash = [],
        um_executed_transaction_count = 0, um_entries_count = 0\<rparr>,
      bm_created_at = \<lparr>stamp_seconds = 0, stamp_nanos = 0\<rparr>\<rparr>"

definition toy_slot :: "SlotStatus \<Rightarrow> u64 \<Rightarrow> MessageSlot" where
  "toy_slot status slot =
     \<lparr>sl_slot = slot, sl_parent = None, sl_status = status, sl_dead_error = None,
      sl_created_at = \<lparr>stamp_seconds = 0, stamp_nanos = 0\<rparr>\<rparr>"

lemma toy_commitment: "parse_commitment pr (Some 2) = Inr Finalized"
  by (simp add: parse_commitment_def CommitmentLevelProto_try_from_def commitment_of_proto_def)

lemma toy_block_fields: "um_block_height (bm_block_meta (toy_block slot)) = Some 5"
    "blockhash_of (toy_block slot) = ''hash''" "meta_slot (toy_block slot) = slot"
  by (simp_all add: toy_block_def)

lemma toy_current: "current_block Finalized [MBlockMeta (toy_block 7), MSlot (toy_slot SFinalized 7)] = Some (toy_block 7)"
    "last_slot Finalized [MBlockMeta (toy_block 7), MSlot (toy_slot SFinalized 7)] = Some 7"
  by code_simp+

theorem unary_block_exact_witness:
  "get_latest_blockhash (\<lambda>_. []) 300 (Some 2)
      (Some (storage_after 300 [MBlockMeta (toy_block 7), MSlot (toy_slot SFinalized 7)])) =
    Inr \<lparr>lb_slot = 7, lb_blockhash = ''hash'', lb_last_valid_block_height = 305\<rparr>"
  using unary_block_exact [OF toy_commitment, where K = 300 and pr = "\<lambda>_. []" and ms = "[MBlockMeta (toy_block 7), MSlot (toy_slot SFinalized 7)]"]
  by (simp add: toy_current toy_block_fields)

lemma toy_one_slot: "hashes_of_one_slot [MBlockMeta (toy_block 7), MSlot (toy_slot SFinalized 7)]"
  by (simp add: hashes_of_one_slot_def metas_def)

theorem blockhash_validity_exact_witness:
  "is_blockhash_valid_method (\<lambda>_. []) 300 ''hash'' (Some 2)
      (Some (storage_after 300 [MBlockMeta (toy_block 7), MSlot (toy_slot SFinalized 7)])) =
    Inl (Status_internal ''startup'')"
proof -
  let ?ms = "[MBlockMeta (toy_block 7), MSlot (toy_slot SFinalized 7)]"
  have "noted_hashes 332 ?ms \<subseteq> {''hash''}"
    by (auto simp: noted_hashes_def metas_def toy_block_def dest!: noted_meta)
  then have "card (noted_hashes 332 ?ms) \<le> card {''hash''}" by (intro card_mono) simp_all
  then show ?thesis
    using blockhash_validity_exact [OF toy_commitment toy_one_slot, of 300 "\<lambda>_. []" "''hash''"] by simp
qed

lemma skipped_slots_keep_startup_witness:
  "is_blockhash_valid_method (\<lambda>_. []) 300 ''hash'' (Some 2)
      (Some (storage_after 300 [MBlockMeta (toy_block 7), MSlot (toy_slot SFinalized 7)])) =
    Inl (Status_internal ''startup'')"
proof -
  let ?ms = "[MBlockMeta (toy_block 7), MSlot (toy_slot SFinalized 7)]"
  have recent: "{b \<in> metas ?ms. unat (sl_slot (toy_slot SFinalized 7)) \<le> unat (meta_slot b) + (unat (300 :: u64) + 32)} = {toy_block 7}"
    by (auto simp: metas_def toy_slot_def toy_block_def)
  have "?ms = [MBlockMeta (toy_block 7)] @ MSlot (toy_slot SFinalized 7) # []" by simp
  from skipped_slots_keep_startup [OF toy_commitment toy_one_slot _ this, of 300 "\<lambda>_. []" "''hash''"] show ?thesis
    by (simp only: recent) (simp add: toy_slot_def)
qed

end
