(* ===== verification/Convert.thy ===== *)
theory Convert
  imports Messages
begin

text \<open>
  The conversions between the types of the validator and the protobuf types
  (\<^verbatim>\<open>yellowstone-grpc-geyser/src/plugin/convert_to.rs\<close> and \<^verbatim>\<open>convert_from.rs\<close>). Functions of the same
  name in both files get the prefix \<open>to_\<close> or \<open>from_\<close>. The structs of the Solana crates are records with the
  fields the conversions read and write; a transaction error, which only passes through the codec of
  \<^verbatim>\<open>wincode\<close>, is the type \<open>'e\<close>, and the codec is a parameter (serializing may panic).
\<close>

section \<open>Types of the validator\<close>

record SolHeader =
  sh_num_required_signatures :: u8
  sh_num_readonly_signed_accounts :: u8
  sh_num_readonly_unsigned_accounts :: u8

record SolInstruction =
  si_program_id_index :: u8
  si_accounts :: bytes
  si_data :: bytes

record SolLookup =
  sk_account_key :: pubkey
  sk_writable_indexes :: bytes
  sk_readonly_indexes :: bytes

record SolConfig =
  sf_priority_fee :: "u64 option"
  sf_compute_unit_limit :: "u32 option"
  sf_loaded_accounts_data_size_limit :: "u32 option"
  sf_heap_size :: "u32 option"

record LegacyMessage =
  lm_header :: SolHeader
  lm_account_keys :: "pubkey list"
  lm_recent_blockhash :: bytes
  lm_instructions :: "SolInstruction list"

record MessageV0 =
  v0_header :: SolHeader
  v0_account_keys :: "pubkey list"
  v0_recent_blockhash :: bytes
  v0_instructions :: "SolInstruction list"
  v0_address_table_lookups :: "SolLookup list"

record MessageV1 =
  v1_header :: SolHeader
  v1_config :: SolConfig
  v1_lifetime_specifier :: bytes
  v1_account_keys :: "pubkey list"
  v1_instructions :: "SolInstruction list"

datatype VersionedMessage = Legacy LegacyMessage | V0 MessageV0 | V1 MessageV1

record VersionedTransaction =
  vt_signatures :: "signature list"
  vt_message :: VersionedMessage

record SolInnerInstruction =
  sn_instruction :: SolInstruction
  sn_stack_height :: "u32 option"

record SolInnerInstructions =
  ss_index :: u8
  ss_instructions :: "SolInnerInstruction list"

record SolUiTokenAmount =
  su_ui_amount :: "u64 option"
  su_decimals :: u8
  su_amount :: string
  su_ui_amount_string :: string

record TransactionTokenBalance =
  st_account_index :: u8
  st_mint :: string
  st_ui_token_amount :: SolUiTokenAmount
  st_owner :: string
  st_program_id :: string

datatype RewardType = Fee | Rent | Staking | Voting | DeactivatedStake

record SolReward =
  sw_pubkey :: string
  sw_lamports :: i64
  sw_post_balance :: u64
  sw_reward_type :: "RewardType option"
  sw_commission :: "u8 option"
  sw_commission_bps :: "u16 option"

record LoadedAddresses =
  la_writable :: "pubkey list"
  la_readonly :: "pubkey list"

record TransactionReturnData =
  sd_program_id :: pubkey
  sd_data :: bytes

record 'e SolStatusMeta =
  sm_status :: "'e + unit"
  sm_fee :: u64
  sm_pre_balances :: "u64 list"
  sm_post_balances :: "u64 list"
  sm_inner_instructions :: "SolInnerInstructions list option"
  sm_log_messages :: "string list option"
  sm_pre_token_balances :: "TransactionTokenBalance list option"
  sm_post_token_balances :: "TransactionTokenBalance list option"
  sm_rewards :: "SolReward list option"
  sm_loaded_addresses :: LoadedAddresses
  sm_return_data :: "TransactionReturnData option"
  sm_compute_units_consumed :: "u64 option"
  sm_cost_units :: "u64 option"

section \<open>Decimal numbers\<close>

text \<open>\<open>to_string\<close> and \<open>parse\<close> of the unsigned integers: \<open>parse\<close> takes one leading \<open>+\<close> and fails on anything but
  digits, on no digits and on a number above the maximum.\<close>

fun decimal :: "nat \<Rightarrow> string" where
  "decimal n = (if n < 10 then [char_of (48 + n)] else decimal (n div 10) @ [char_of (48 + n mod 10)])"

declare decimal.simps [simp del]

fun parse_digits :: "nat \<Rightarrow> nat \<Rightarrow> string \<Rightarrow> nat option" where
  "parse_digits maximum acc [] = Some acc"
| "parse_digits maximum acc (c # cs) =
     (let d = (of_char c :: nat) in
      if 48 \<le> d \<and> d \<le> 57 \<and> acc * 10 + (d - 48) \<le> maximum then parse_digits maximum (acc * 10 + (d - 48)) cs else None)"

definition parse_unsigned :: "nat \<Rightarrow> string \<Rightarrow> nat option" where
  "parse_unsigned maximum s =
     (case s of
        [] \<Rightarrow> None
      | c # cs \<Rightarrow> if c = CHR ''+'' \<and> cs \<noteq> [] then parse_digits maximum 0 cs else parse_digits maximum 0 s)"

text \<open>\<open>u8::try_from\<close> of a \<open>u32\<close>\<close>

definition try_u8 :: "'e \<Rightarrow> u32 \<Rightarrow> 'e + u8" where
  "try_u8 e n = (if unat n < 256 then Inr (ucast n) else Inl e)"

section \<open>To protobuf\<close>

definition create_header :: "SolHeader \<Rightarrow> MessageHeader" where
  "create_header h =
     \<lparr>mh_num_required_signatures = ucast (sh_num_required_signatures h),
      mh_num_readonly_signed_accounts = ucast (sh_num_readonly_signed_accounts h),
      mh_num_readonly_unsigned_accounts = ucast (sh_num_readonly_unsigned_accounts h)\<rparr>"

definition create_pubkeys :: "pubkey list \<Rightarrow> bytes list" where
  "create_pubkeys pubkeys = map (\<lambda>key. key) pubkeys"

definition create_instruction :: "SolInstruction \<Rightarrow> CompiledInstruction" where
  "create_instruction ix =
     \<lparr>ci_program_id_index = ucast (si_program_id_index ix), ci_accounts = si_accounts ix, ci_data = si_data ix\<rparr>"

definition create_instructions :: "SolInstruction list \<Rightarrow> CompiledInstruction list" where
  "create_instructions ixs = map create_instruction ixs"

definition create_lookup :: "SolLookup \<Rightarrow> MessageAddressTableLookup" where
  "create_lookup l =
     \<lparr>al_account_key = sk_account_key l, al_writable_indexes = sk_writable_indexes l,
      al_readonly_indexes = sk_readonly_indexes l\<rparr>"

definition create_lookups :: "SolLookup list \<Rightarrow> MessageAddressTableLookup list" where
  "create_lookups lookups = map create_lookup lookups"

definition to_create_message :: "VersionedMessage \<Rightarrow> TxMessage" where
  "to_create_message message =
     (case message of
        Legacy m \<Rightarrow>
          \<lparr>tm_header = Some (create_header (lm_header m)), tm_account_keys = create_pubkeys (lm_account_keys m),
           tm_recent_blockhash = lm_recent_blockhash m, tm_instructions = create_instructions (lm_instructions m),
           tm_versioned = False, tm_address_table_lookups = [], tm_config = None\<rparr>
      | V0 m \<Rightarrow>
          \<lparr>tm_header = Some (create_header (v0_header m)), tm_account_keys = create_pubkeys (v0_account_keys m),
           tm_recent_blockhash = v0_recent_blockhash m, tm_instructions = create_instructions (v0_instructions m),
           tm_versioned = True, tm_address_table_lookups = create_lookups (v0_address_table_lookups m),
           tm_config = None\<rparr>
      | V1 m \<Rightarrow>
          \<lparr>tm_header = Some (create_header (v1_header m)), tm_account_keys = create_pubkeys (v1_account_keys m),
           tm_recent_blockhash = v1_lifetime_specifier m, tm_instructions = create_instructions (v1_instructions m),
           tm_versioned = True, tm_address_table_lookups = [],
           tm_config = Some
             \<lparr>tc_priority_fee = sf_priority_fee (v1_config m),
              tc_compute_unit_limit = sf_compute_unit_limit (v1_config m),
              tc_loaded_accounts_data_size_limit = sf_loaded_accounts_data_size_limit (v1_config m),
              tc_heap_size = sf_heap_size (v1_config m)\<rparr>\<rparr>)"

definition create_transaction :: "VersionedTransaction \<Rightarrow> Transaction" where
  "create_transaction tx =
     \<lparr>tr_signatures = map (\<lambda>signature. signature) (vt_signatures tx), tr_message = Some (to_create_message (vt_message tx))\<rparr>"

definition create_transaction_error :: "('e \<Rightarrow> bytes run) \<Rightarrow> 'e + unit \<Rightarrow> TransactionError option run" where
  "create_transaction_error ser status =
     (case status of
        Inr _ \<Rightarrow> Some None
      | Inl err \<Rightarrow> do { bs \<leftarrow> ser err; Some (Some \<lparr>te_err = bs\<rparr>) })"

definition create_inner_instruction :: "SolInnerInstruction \<Rightarrow> InnerInstruction" where
  "create_inner_instruction i =
     \<lparr>ii_program_id_index = ucast (si_program_id_index (sn_instruction i)), ii_accounts = si_accounts (sn_instruction i),
      ii_data = si_data (sn_instruction i), ii_stack_height = sn_stack_height i\<rparr>"

definition create_inner_instructions :: "SolInnerInstructions \<Rightarrow> InnerInstructions" where
  "create_inner_instructions is =
     \<lparr>is_index = ucast (ss_index is), is_instructions = map create_inner_instruction (ss_instructions is)\<rparr>"

definition to_create_token_balance :: "TransactionTokenBalance \<Rightarrow> TokenBalance" where
  "to_create_token_balance b =
     \<lparr>tb_account_index = ucast (st_account_index b), tb_mint = st_mint b,
      tb_ui_token_amount = Some
        \<lparr>ua_ui_amount = (case su_ui_amount (st_ui_token_amount b) of None \<Rightarrow> 0 | Some x \<Rightarrow> x),
         ua_decimals = ucast (su_decimals (st_ui_token_amount b)), ua_amount = su_amount (st_ui_token_amount b),
         ua_ui_amount_string = su_ui_amount_string (st_ui_token_amount b)\<rparr>,
      tb_owner = st_owner b, tb_program_id = st_program_id b\<rparr>"

text \<open>The discriminants of the protobuf enumeration.\<close>

definition create_reward_type :: "RewardType option \<Rightarrow> i32" where
  "create_reward_type t =
     (case t of
        None \<Rightarrow> 0
      | Some Fee \<Rightarrow> 1 | Some Rent \<Rightarrow> 2 | Some Staking \<Rightarrow> 3 | Some Voting \<Rightarrow> 4 | Some DeactivatedStake \<Rightarrow> 5)"

definition to_create_reward :: "SolReward \<Rightarrow> Reward" where
  "to_create_reward r =
     \<lparr>rw_pubkey = sw_pubkey r, rw_lamports = sw_lamports r, rw_post_balance = sw_post_balance r,
      rw_reward_type = create_reward_type (sw_reward_type r),
      rw_commission = (case sw_commission r of None \<Rightarrow> [] | Some c \<Rightarrow> decimal (unat c)),
      rw_commission_bps = (case sw_commission_bps r of None \<Rightarrow> [] | Some c \<Rightarrow> decimal (unat c))\<rparr>"

definition to_create_rewards :: "SolReward list \<Rightarrow> Reward list" where
  "to_create_rewards rewards = map to_create_reward rewards"

definition to_create_rewards_obj :: "SolReward list \<Rightarrow> u64 option \<Rightarrow> Rewards" where
  "to_create_rewards_obj rewards num_partitions =
     \<lparr>rs_rewards = to_create_rewards rewards, rs_num_partitions = num_partitions\<rparr>"

definition create_return_data :: "TransactionReturnData \<Rightarrow> ReturnData" where
  "create_return_data d = \<lparr>rd_program_id = sd_program_id d, rd_data = sd_data d\<rparr>"

text \<open>\<open>as_deref().map(f).unwrap_or_default()\<close> of a list\<close>

definition map_or_empty :: "('a \<Rightarrow> 'b) \<Rightarrow> 'a list option \<Rightarrow> 'b list" where
  "map_or_empty f xs = (case xs of None \<Rightarrow> [] | Some xs \<Rightarrow> map f xs)"

definition create_transaction_meta :: "('e \<Rightarrow> bytes run) \<Rightarrow> 'e SolStatusMeta \<Rightarrow> TransactionStatusMeta run" where
  "create_transaction_meta ser m =
     do {
       err \<leftarrow> create_transaction_error ser (sm_status m);
       Some
         \<lparr>ts_err = err, ts_fee = sm_fee m, ts_pre_balances = sm_pre_balances m, ts_post_balances = sm_post_balances m,
          ts_inner_instructions = map_or_empty create_inner_instructions (sm_inner_instructions m),
          ts_inner_instructions_none = (sm_inner_instructions m = None),
          ts_log_messages = map_or_empty (\<lambda>l. l) (sm_log_messages m),
          ts_log_messages_none = (sm_log_messages m = None),
          ts_pre_token_balances = map_or_empty to_create_token_balance (sm_pre_token_balances m),
          ts_post_token_balances = map_or_empty to_create_token_balance (sm_post_token_balances m),
          ts_rewards = map_or_empty to_create_reward (sm_rewards m),
          ts_loaded_writable_addresses = create_pubkeys (la_writable (sm_loaded_addresses m)),
          ts_loaded_readonly_addresses = create_pubkeys (la_readonly (sm_loaded_addresses m)),
          ts_return_data = map_option create_return_data (sm_return_data m),
          ts_return_data_none = (sm_return_data m = None),
          ts_compute_units_consumed = sm_compute_units_consumed m, ts_cost_units = sm_cost_units m\<rparr>
     }"

section \<open>From protobuf\<close>

text \<open>The operator \<open>?\<close>, and \<open>Option::ok_or\<close>.\<close>

definition and_then :: "'x + 'a \<Rightarrow> ('a \<Rightarrow> 'x + 'b) \<Rightarrow> 'x + 'b" where
  "and_then r f = (case r of Inl e \<Rightarrow> Inl e | Inr x \<Rightarrow> f x)"

definition ok_or :: "'x \<Rightarrow> 'a option \<Rightarrow> 'x + 'a" where
  "ok_or e x = (case x of None \<Rightarrow> Inl e | Some y \<Rightarrow> Inr y)"

type_synonym 'a CreateResult = "string + 'a"

definition create_pubkey :: "bytes \<Rightarrow> pubkey CreateResult" where
  "create_pubkey pk = ok_or ''failed to parse Pubkey'' (try_array 32 pk)"

definition create_pubkey_vec :: "bytes list \<Rightarrow> pubkey list CreateResult" where
  "create_pubkey_vec pubkeys = collect_result create_pubkey pubkeys"

definition create_message_instruction :: "CompiledInstruction \<Rightarrow> SolInstruction CreateResult" where
  "create_message_instruction ix =
     and_then (try_u8 ''failed to decode CompiledInstruction.program_id_index)'' (ci_program_id_index ix)) (\<lambda>index.
     Inr \<lparr>si_program_id_index = index, si_accounts = ci_accounts ix, si_data = ci_data ix\<rparr>)"

definition create_message_instructions :: "CompiledInstruction list \<Rightarrow> SolInstruction list CreateResult" where
  "create_message_instructions ixs = collect_result create_message_instruction ixs"

definition from_header :: "MessageHeader \<Rightarrow> SolHeader CreateResult" where
  "from_header h =
     and_then (try_u8 ''failed to parse num_required_signatures'' (mh_num_required_signatures h)) (\<lambda>a.
     and_then (try_u8 ''failed to parse num_readonly_signed_accounts'' (mh_num_readonly_signed_accounts h)) (\<lambda>b.
     and_then (try_u8 ''failed to parse num_readonly_unsigned_accounts'' (mh_num_readonly_unsigned_accounts h)) (\<lambda>c.
     Inr \<lparr>sh_num_required_signatures = a, sh_num_readonly_signed_accounts = b,
          sh_num_readonly_unsigned_accounts = c\<rparr>)))"

definition from_lookup :: "MessageAddressTableLookup \<Rightarrow> SolLookup CreateResult" where
  "from_lookup l =
     and_then (ok_or ''failed to parse Pubkey'' (try_array 32 (al_account_key l))) (\<lambda>key.
     Inr \<lparr>sk_account_key = key, sk_writable_indexes = al_writable_indexes l,
          sk_readonly_indexes = al_readonly_indexes l\<rparr>)"

definition from_create_message :: "TxMessage \<Rightarrow> VersionedMessage CreateResult" where
  "from_create_message m =
     and_then (ok_or ''failed to get MessageHeader'' (tm_header m)) (\<lambda>h.
     and_then (from_header h) (\<lambda>header.
     and_then (ok_or ''failed to parse hash'' (try_array 32 (tm_recent_blockhash m))) (\<lambda>recent_blockhash.
     case tm_config m of
       Some config \<Rightarrow>
         and_then (create_pubkey_vec (tm_account_keys m)) (\<lambda>keys.
         and_then (create_message_instructions (tm_instructions m)) (\<lambda>ixs.
         Inr (V1 \<lparr>v1_header = header,
                  v1_config =
                    \<lparr>sf_priority_fee = tc_priority_fee config, sf_compute_unit_limit = tc_compute_unit_limit config,
                     sf_loaded_accounts_data_size_limit = tc_loaded_accounts_data_size_limit config,
                     sf_heap_size = tc_heap_size config\<rparr>,
                  v1_lifetime_specifier = recent_blockhash, v1_account_keys = keys, v1_instructions = ixs\<rparr>)))
     | None \<Rightarrow>
         if tm_versioned m then
           and_then (collect_result from_lookup (tm_address_table_lookups m)) (\<lambda>lookups.
           and_then (create_pubkey_vec (tm_account_keys m)) (\<lambda>keys.
           and_then (create_message_instructions (tm_instructions m)) (\<lambda>ixs.
           Inr (V0 \<lparr>v0_header = header, v0_account_keys = keys, v0_recent_blockhash = recent_blockhash,
                    v0_instructions = ixs, v0_address_table_lookups = lookups\<rparr>))))
         else
           and_then (create_pubkey_vec (tm_account_keys m)) (\<lambda>keys.
           and_then (create_message_instructions (tm_instructions m)) (\<lambda>ixs.
           Inr (Legacy \<lparr>lm_header = header, lm_account_keys = keys, lm_recent_blockhash = recent_blockhash,
                        lm_instructions = ixs\<rparr>))))))"

definition create_tx_versioned :: "Transaction \<Rightarrow> VersionedTransaction CreateResult" where
  "create_tx_versioned tx =
     and_then (collect_result (\<lambda>s. ok_or ''failed to parse Signature'' (try_array 64 s)) (tr_signatures tx)) (\<lambda>signatures.
     and_then (ok_or ''failed to get message'' (tr_message tx)) (\<lambda>m.
     and_then (from_create_message m) (\<lambda>message.
     Inr \<lparr>vt_signatures = signatures, vt_message = message\<rparr>)))"

text \<open>\<open>de\<close> deserializes an error.\<close>

definition create_tx_error :: "(bytes \<Rightarrow> 'e option) \<Rightarrow> TransactionError option \<Rightarrow> 'e option CreateResult" where
  "create_tx_error de err =
     (case err of
        None \<Rightarrow> Inr None
      | Some e \<Rightarrow> and_then (ok_or ''failed to decode TransactionError'' (de (te_err e))) (\<lambda>e. Inr (Some e)))"

definition from_inner_instruction :: "InnerInstruction \<Rightarrow> SolInnerInstruction CreateResult" where
  "from_inner_instruction ix =
     and_then (try_u8 ''failed to decode CompiledInstruction.program_id_index)'' (ii_program_id_index ix)) (\<lambda>index.
     Inr \<lparr>sn_instruction = \<lparr>si_program_id_index = index, si_accounts = ii_accounts ix, si_data = ii_data ix\<rparr>,
          sn_stack_height = ii_stack_height ix\<rparr>)"

definition create_meta_inner_instruction :: "InnerInstructions \<Rightarrow> SolInnerInstructions CreateResult" where
  "create_meta_inner_instruction ix =
     and_then (collect_result from_inner_instruction (is_instructions ix)) (\<lambda>instructions.
     and_then (try_u8 ''failed to decode InnerInstructions.index'' (is_index ix)) (\<lambda>index.
     Inr \<lparr>ss_index = index, ss_instructions = instructions\<rparr>))"

definition create_meta_inner_instructions :: "InnerInstructions list \<Rightarrow> SolInnerInstructions list CreateResult" where
  "create_meta_inner_instructions ixs = collect_result create_meta_inner_instruction ixs"

definition from_reward_type :: "i32 \<Rightarrow> RewardType option CreateResult" where
  "from_reward_type t =
     (if t = 0 then Inr None else if t = 1 then Inr (Some Fee) else if t = 2 then Inr (Some Rent)
      else if t = 3 then Inr (Some Staking) else if t = 4 then Inr (Some Voting)
      else if t = 5 then Inr (Some DeactivatedStake) else Inl ''failed to parse reward_type'')"

definition parse_commission :: "string \<Rightarrow> nat \<Rightarrow> string \<Rightarrow> nat option CreateResult" where
  "parse_commission e maximum s =
     (if s = [] then Inr None
      else and_then (ok_or e (parse_unsigned maximum s)) (\<lambda>n. Inr (Some n)))"

definition from_create_reward :: "Reward \<Rightarrow> SolReward CreateResult" where
  "from_create_reward r =
     and_then (from_reward_type (rw_reward_type r)) (\<lambda>t.
     and_then (parse_commission ''failed to parse reward commission'' (2 ^ 8 - 1) (rw_commission r)) (\<lambda>commission.
     and_then (parse_commission ''failed to parse reward commission_bps'' (2 ^ 16 - 1) (rw_commission_bps r)) (\<lambda>bps.
     Inr \<lparr>sw_pubkey = rw_pubkey r, sw_lamports = rw_lamports r, sw_post_balance = rw_post_balance r,
          sw_reward_type = t, sw_commission = map_option of_nat commission,
          sw_commission_bps = map_option of_nat bps\<rparr>)))"

record RewardsAndNumPartitions =
  rp_rewards :: "SolReward list"
  rp_num_partitions :: "u64 option"

definition from_create_rewards_obj :: "Rewards \<Rightarrow> RewardsAndNumPartitions CreateResult" where
  "from_create_rewards_obj rewards =
     and_then (collect_result from_create_reward (rs_rewards rewards)) (\<lambda>rs.
     Inr \<lparr>rp_rewards = rs, rp_num_partitions = rs_num_partitions rewards\<rparr>)"

definition from_token_balance :: "TokenBalance \<Rightarrow> TransactionTokenBalance CreateResult" where
  "from_token_balance b =
     and_then (ok_or ''failed to get ui_token_amount'' (tb_ui_token_amount b)) (\<lambda>amount.
     and_then (try_u8 ''failed to parse account_index'' (tb_account_index b)) (\<lambda>index.
     and_then (try_u8 ''failed to parse decimals'' (ua_decimals amount)) (\<lambda>decimals.
     Inr \<lparr>st_account_index = index, st_mint = tb_mint b,
          st_ui_token_amount =
            \<lparr>su_ui_amount = Some (ua_ui_amount amount), su_decimals = decimals, su_amount = ua_amount amount,
             su_ui_amount_string = ua_ui_amount_string amount\<rparr>,
          st_owner = tb_owner b, st_program_id = tb_program_id b\<rparr>)))"

definition from_create_token_balances :: "TokenBalance list \<Rightarrow> TransactionTokenBalance list CreateResult" where
  "from_create_token_balances balances = collect_result from_token_balance balances"

definition create_loaded_addresses :: "bytes list \<Rightarrow> bytes list \<Rightarrow> LoadedAddresses CreateResult" where
  "create_loaded_addresses writable readonly =
     and_then (create_pubkey_vec writable) (\<lambda>w.
     and_then (create_pubkey_vec readonly) (\<lambda>r. Inr \<lparr>la_writable = w, la_readonly = r\<rparr>))"

definition from_return_data :: "ReturnData \<Rightarrow> TransactionReturnData CreateResult" where
  "from_return_data d =
     and_then (ok_or ''failed to parse program_id'' (try_array 32 (rd_program_id d))) (\<lambda>program_id.
     Inr \<lparr>sd_program_id = program_id, sd_data = rd_data d\<rparr>)"

definition create_tx_meta :: "(bytes \<Rightarrow> 'e option) \<Rightarrow> TransactionStatusMeta \<Rightarrow> 'e SolStatusMeta CreateResult" where
  "create_tx_meta de m =
     and_then (create_tx_error de (ts_err m)) (\<lambda>err.
     and_then (collect_result from_create_reward (ts_rewards m)) (\<lambda>rewards.
     and_then
       (if ts_inner_instructions_none m then Inr None
        else and_then (create_meta_inner_instructions (ts_inner_instructions m)) (\<lambda>ixs. Inr (Some ixs))) (\<lambda>inner.
     and_then (from_create_token_balances (ts_pre_token_balances m)) (\<lambda>pre.
     and_then (from_create_token_balances (ts_post_token_balances m)) (\<lambda>post.
     and_then (create_loaded_addresses (ts_loaded_writable_addresses m) (ts_loaded_readonly_addresses m)) (\<lambda>loaded.
     and_then
       (if ts_return_data_none m then Inr None
        else and_then (ok_or ''failed to get return_data'' (ts_return_data m)) (\<lambda>d.
             and_then (from_return_data d) (\<lambda>d. Inr (Some d)))) (\<lambda>return_data.
     Inr
       \<lparr>sm_status = (case err of Some e \<Rightarrow> Inl e | None \<Rightarrow> Inr ()), sm_fee = ts_fee m,
        sm_pre_balances = ts_pre_balances m, sm_post_balances = ts_post_balances m, sm_inner_instructions = inner,
        sm_log_messages = (if ts_log_messages_none m then None else Some (ts_log_messages m)),
        sm_pre_token_balances = Some pre, sm_post_token_balances = Some post, sm_rewards = Some rewards,
        sm_loaded_addresses = loaded, sm_return_data = return_data,
        sm_compute_units_consumed = ts_compute_units_consumed m, sm_cost_units = ts_cost_units m\<rparr>)))))))"

record 'e TransactionWithStatusMeta =
  tw_transaction :: VersionedTransaction
  tw_meta :: "'e SolStatusMeta"

definition create_tx_with_meta ::
  "(bytes \<Rightarrow> 'e option) \<Rightarrow> SubscribeUpdateTransactionInfo \<Rightarrow> 'e TransactionWithStatusMeta CreateResult" where
  "create_tx_with_meta de tx =
     and_then (ok_or ''failed to get transaction meta'' (uti_meta tx)) (\<lambda>m.
     and_then (ok_or ''failed to get transaction transaction'' (uti_transaction tx)) (\<lambda>t.
     and_then (create_tx_versioned t) (\<lambda>transaction.
     and_then (create_tx_meta de m) (\<lambda>meta. Inr \<lparr>tw_transaction = transaction, tw_meta = meta\<rparr>))))"

record 'e ConfirmedBlock =
  cb_previous_blockhash :: string
  cb_blockhash :: string
  cb_parent_slot :: u64
  cb_transactions :: "'e TransactionWithStatusMeta list"
  cb_rewards :: "SolReward list"
  cb_num_partitions :: "u64 option"
  cb_block_time :: "i64 option"
  cb_block_height :: "u64 option"

definition create_block :: "(bytes \<Rightarrow> 'e option) \<Rightarrow> SubscribeUpdateBlock \<Rightarrow> 'e ConfirmedBlock CreateResult" where
  "create_block de b =
     and_then (collect_result (create_tx_with_meta de) (ub_transactions b)) (\<lambda>transactions.
     and_then (ok_or ''failed to get rewards'' (ub_rewards b)) (\<lambda>block_rewards.
     and_then (collect_result from_create_reward (rs_rewards block_rewards)) (\<lambda>rewards.
     and_then (ok_or ''failed to get block_time'' (ub_block_time b)) (\<lambda>block_time.
     and_then (ok_or ''failed to get block_height'' (ub_block_height b)) (\<lambda>block_height.
     Inr \<lparr>cb_previous_blockhash = ub_parent_blockhash b, cb_blockhash = ub_blockhash b,
          cb_parent_slot = ub_parent_slot b, cb_transactions = transactions, cb_rewards = rewards,
          cb_num_partitions = rs_num_partitions block_rewards, cb_block_time = Some block_time,
          cb_block_height = Some block_height\<rparr>)))))"

record Account =
  sa_lamports :: u64
  sa_data :: bytes
  sa_owner :: pubkey
  sa_executable :: bool
  sa_rent_epoch :: u64

definition create_account :: "SubscribeUpdateAccountInfo \<Rightarrow> (pubkey \<times> Account) CreateResult" where
  "create_account a =
     and_then (create_pubkey (uai_pubkey a)) (\<lambda>pk.
     and_then (create_pubkey (uai_owner a)) (\<lambda>owner.
     Inr (pk, \<lparr>sa_lamports = uai_lamports a, sa_data = uai_data a, sa_owner = owner,
               sa_executable = uai_executable a, sa_rent_epoch = uai_rent_epoch a\<rparr>)))"

end
