(* ===== verification/Plugin_Entry.thy ===== *)
theory Plugin_Entry
  imports Convert Filter_Limits Contact_Info Server_Pipeline
begin

text \<open>
  The callbacks of the plugin (\<^verbatim>\<open>yellowstone-grpc-geyser/src/plugin/entry.rs\<close>) and the constructors of
  \<^verbatim>\<open>plugin/message.rs\<close> that convert what the validator hands over. A callback makes messages and sends them:
  to the geyser loop, to block reconstruction, directly to subscribers, to the deshred subscribers, to the
  storage of block metas, to the contact table or to the snapshot client. An unbounded queue is the list of
  what was sent; sending to it fails only when its loop is gone, and the callbacks ignore that.
\<close>

section \<open>Transactions and block metas\<close>

record 'e ReplicaTransactionInfoV3 =
  rt_signature :: signature
  rt_is_vote :: bool
  rt_transaction :: VersionedTransaction
  rt_transaction_status_meta :: "'e SolStatusMeta"
  rt_index :: usize

text \<open>The account keys a message carries itself.\<close>

definition static_account_keys :: "VersionedMessage \<Rightarrow> pubkey list" where
  "static_account_keys message =
     (case message of Legacy m \<Rightarrow> lm_account_keys m | V0 m \<Rightarrow> v0_account_keys m | V1 m \<Rightarrow> v1_account_keys m)"

definition MessageTransactionInfo_from_geyser ::
  "('e \<Rightarrow> bytes run) \<Rightarrow> 'e ReplicaTransactionInfoV3 \<Rightarrow> MessageTransactionInfo run" where
  "MessageTransactionInfo_from_geyser ser info =
     (let loaded = sm_loaded_addresses (rt_transaction_status_meta info);
          account_keys = hset_of [] (static_account_keys (vt_message (rt_transaction info)) @ la_writable loaded @ la_readonly loaded)
      in do {
        meta \<leftarrow> create_transaction_meta ser (rt_transaction_status_meta info);
        Some \<lparr>ti_signature = rt_signature info, ti_is_vote = rt_is_vote info,
              ti_transaction = create_transaction (rt_transaction info), ti_meta = meta, ti_index = rt_index info,
              ti_account_keys = account_keys, ti_pre_encoded = None, ti_token_owners_all = None,
              ti_token_owners_changed = None\<rparr>
      })"

definition MessageTransaction_from_geyser ::
  "('e \<Rightarrow> bytes run) \<Rightarrow> Timestamp \<Rightarrow> 'e ReplicaTransactionInfoV3 \<Rightarrow> slot \<Rightarrow> MessageTransaction run" where
  "MessageTransaction_from_geyser ser now info slot =
     do {
       tx \<leftarrow> MessageTransactionInfo_from_geyser ser info;
       Some \<lparr>mt_transaction = tx, mt_slot = slot, mt_created_at = now\<rparr>
     }"

record ReplicaDeshredTransactionInfo =
  rdt_signature :: signature
  rdt_is_vote :: bool
  rdt_transaction :: VersionedTransaction
  rdt_loaded_addresses :: "LoadedAddresses option"

record ReplicaDeshredTransactionInfoV2 = ReplicaDeshredTransactionInfo +
  rdt_starting_shred_index :: u32
  rdt_ending_shred_index_exclusive :: u32

datatype ReplicaDeshredTransactionInfoVersions =
    DeshredV1 ReplicaDeshredTransactionInfo
  | DeshredV2 ReplicaDeshredTransactionInfoV2

definition MessageDeshredTransactionInfo_from_geyser ::
  "ReplicaDeshredTransactionInfo \<Rightarrow> MessageDeshredTransactionInfo" where
  "MessageDeshredTransactionInfo_from_geyser info =
     \<lparr>dti_signature = rdt_signature info, dti_is_vote = rdt_is_vote info,
      dti_transaction = create_transaction (rdt_transaction info),
      dti_static_account_keys = hset_of [] (static_account_keys (vt_message (rdt_transaction info))),
      dti_loaded_writable_addresses = (case rdt_loaded_addresses info of None \<Rightarrow> [] | Some la \<Rightarrow> la_writable la),
      dti_loaded_readonly_addresses = (case rdt_loaded_addresses info of None \<Rightarrow> [] | Some la \<Rightarrow> la_readonly la),
      dti_completed_data_set_starting_shred_index = 0,
      dti_completed_data_set_ending_shred_index_exclusive = 0\<rparr>"

definition MessageDeshredTransactionInfo_from_geyser_v2 ::
  "ReplicaDeshredTransactionInfoV2 \<Rightarrow> MessageDeshredTransactionInfo" where
  "MessageDeshredTransactionInfo_from_geyser_v2 info =
     \<lparr>dti_signature = rdt_signature info, dti_is_vote = rdt_is_vote info,
      dti_transaction = create_transaction (rdt_transaction info),
      dti_static_account_keys = hset_of [] (static_account_keys (vt_message (rdt_transaction info))),
      dti_loaded_writable_addresses = (case rdt_loaded_addresses info of None \<Rightarrow> [] | Some la \<Rightarrow> la_writable la),
      dti_loaded_readonly_addresses = (case rdt_loaded_addresses info of None \<Rightarrow> [] | Some la \<Rightarrow> la_readonly la),
      dti_completed_data_set_starting_shred_index = rdt_starting_shred_index info,
      dti_completed_data_set_ending_shred_index_exclusive = rdt_ending_shred_index_exclusive info\<rparr>"

definition MessageDeshredTransaction_from_geyser_versioned ::
  "Timestamp \<Rightarrow> ReplicaDeshredTransactionInfoVersions \<Rightarrow> slot \<Rightarrow> MessageDeshredTransaction" where
  "MessageDeshredTransaction_from_geyser_versioned now transaction slot =
     \<lparr>md_transaction =
        (case transaction of
           DeshredV1 v1 \<Rightarrow> MessageDeshredTransactionInfo_from_geyser v1
         | DeshredV2 v2 \<Rightarrow> MessageDeshredTransactionInfo_from_geyser_v2 v2),
      md_slot = slot, md_created_at = now\<rparr>"

record ReplicaBlockInfoV4 =
  rbi_parent_slot :: slot
  rbi_parent_blockhash :: string
  rbi_slot :: slot
  rbi_blockhash :: string
  rbi_rewards :: RewardsAndNumPartitions
  rbi_block_time :: "i64 option"
  rbi_block_height :: "u64 option"
  rbi_executed_transaction_count :: u64
  rbi_entry_count :: u64

definition MessageBlockMeta_from_geyser :: "Timestamp \<Rightarrow> ReplicaBlockInfoV4 \<Rightarrow> MessageBlockMeta" where
  "MessageBlockMeta_from_geyser now info =
     \<lparr>bm_block_meta =
        \<lparr>um_slot = rbi_slot info, um_blockhash = rbi_blockhash info,
         um_rewards = Some (to_create_rewards_obj (rp_rewards (rbi_rewards info)) (rp_num_partitions (rbi_rewards info))),
         um_block_time = rbi_block_time info, um_block_height = rbi_block_height info,
         um_parent_slot = rbi_parent_slot info, um_parent_blockhash = rbi_parent_blockhash info,
         um_executed_transaction_count = rbi_executed_transaction_count info, um_entries_count = rbi_entry_count info\<rparr>,
      bm_created_at = now\<rparr>"

section \<open>The plugin\<close>

text \<open>\<open>pl_snapshot_channel\<close> is absent when no snapshot is configured and after the startup.\<close>

record ('a, 's, 'd, 'q) PluginInner =
  pl_snapshot_channel :: "'s option"
  pl_snapshot_channel_closed :: bool
  pl_filter_limits :: FilterLimits
  pl_grpc_channel :: "Message list"
  pl_deshred_channel :: 'd
  pl_contact_info_channel :: "'a ContactInfoNotification list"
  pl_block_reconstruction_channel :: "BlockReconstructionMessage list"
  pl_broadcast_channel :: "'q SubscriberChannels"
  pl_blocks_meta_tx :: "Message list option"

definition send_message :: "Message \<Rightarrow> ('a, 's, 'd, 'q) PluginInner \<Rightarrow> ('a, 's, 'd, 'q) PluginInner" where
  "send_message m p = p\<lparr>pl_grpc_channel := pl_grpc_channel p @ [m]\<rparr>"

definition send_deshred_message ::
  "(Message, 'd, 'r, 'w) tokio \<Rightarrow> Message \<Rightarrow> ('a, 's, 'd, 'q) PluginInner \<Rightarrow> ('a, 's, 'd, 'q) PluginInner" where
  "send_deshred_message D m p = p\<lparr>pl_deshred_channel := tk_send D m (pl_deshred_channel p)\<rparr>"

definition send_block_reconstruction_message ::
  "BlockReconstructionMessage \<Rightarrow> ('a, 's, 'd, 'q) PluginInner \<Rightarrow> ('a, 's, 'd, 'q) PluginInner" where
  "send_block_reconstruction_message m p =
     p\<lparr>pl_block_reconstruction_channel := pl_block_reconstruction_channel p @ [m]\<rparr>"

definition send_broadcast_message ::
  "(Message list, 'q, 'r, 'w) tokio \<Rightarrow> CommitmentLevel \<Rightarrow> Message list
   \<Rightarrow> ('a, 's, 'd, 'q) PluginInner \<Rightarrow> ('a, 's, 'd, 'q) PluginInner" where
  "send_broadcast_message T c ms p = p\<lparr>pl_broadcast_channel := channels_send T c ms (pl_broadcast_channel p)\<rparr>"

definition send_blocks_meta_message :: "Message \<Rightarrow> ('a, 's, 'd, 'q) PluginInner \<Rightarrow> ('a, 's, 'd, 'q) PluginInner" where
  "send_blocks_meta_message m p =
     (case pl_blocks_meta_tx p of None \<Rightarrow> p | Some ms \<Rightarrow> p\<lparr>pl_blocks_meta_tx := Some (ms @ [m])\<rparr>)"

definition send_contact_info_message ::
  "'a ContactInfoMessage \<Rightarrow> bool \<Rightarrow> ('a, 's, 'd, 'q) PluginInner \<Rightarrow> ('a, 's, 'd, 'q) PluginInner" where
  "send_contact_info_message m is_startup p =
     p\<lparr>pl_contact_info_channel := pl_contact_info_channel p @ [\<lparr>cnn_message = m, cnn_is_startup = is_startup\<rparr>]\<rparr>"

text \<open>The versions of the callback arguments; older ones panic.\<close>

datatype 'i versioned = Unsupported | Supported 'i

definition update_account ::
  "(Message, 's) mpsc_sender \<Rightarrow> Timestamp \<Rightarrow> ReplicaAccountInfoV3 versioned \<Rightarrow> slot \<Rightarrow> bool
   \<Rightarrow> ('a, 's, 'd, 'q) PluginInner \<Rightarrow> ('a, 's, 'd, 'q) PluginInner run" where
  "update_account S now account slot is_startup p =
     (case account of
        Unsupported \<Rightarrow> None
      | Supported info \<Rightarrow>
          if (case try_array 32 (ra_owner info) of
                None \<Rightarrow> False | Some own \<Rightarrow> own \<in> set (la_owner_reject (fl_accounts (pl_filter_limits p)))) then Some p
          else if is_startup then
            (case pl_snapshot_channel p of
               None \<Rightarrow> Some p
             | Some channel \<Rightarrow> do {
                 m \<leftarrow> MessageAccount_from_geyser now info slot is_startup;
                 Some (case ms_send S (MAccount m) channel of
                   (True, c) \<Rightarrow> p\<lparr>pl_snapshot_channel := Some c\<rparr>
                 | (False, c) \<Rightarrow> p\<lparr>pl_snapshot_channel := Some c, pl_snapshot_channel_closed := True\<rparr>)
               })
          else do {
            m \<leftarrow> MessageAccount_from_geyser now info slot is_startup;
            Some (send_message (MAccount m) p)
          })"

definition notify_end_of_startup :: "('a, 's, 'd, 'q) PluginInner \<Rightarrow> ('a, 's, 'd, 'q) PluginInner" where
  "notify_end_of_startup p = p\<lparr>pl_snapshot_channel := None\<rparr>"

definition update_slot_status ::
  "(Message list, 'q, 'r, 'w) tokio \<Rightarrow> (Message, 'd, 'r2, 'w2) tokio \<Rightarrow> Timestamp \<Rightarrow> slot \<Rightarrow> slot option
   \<Rightarrow> GeyserSlotStatus \<Rightarrow> ('a, 's, 'd, 'q) PluginInner \<Rightarrow> ('a, 's, 'd, 'q) PluginInner" where
  "update_slot_status T D now slot parent status p =
     (let message = MSlot (MessageSlot_from_geyser now slot parent status);
          p1 = (case status of
                  GProcessed \<Rightarrow> send_block_reconstruction_message (RSingle message) p
                | GConfirmed \<Rightarrow> send_block_reconstruction_message (RSingle message) p
                | GRooted \<Rightarrow> send_block_reconstruction_message (RSingle message) p
                | _ \<Rightarrow>
                    send_broadcast_message T Finalized [message]
                      (send_broadcast_message T Confirmed [message] (send_message message p)))
      in send_blocks_meta_message message (send_deshred_message D message p1))"

definition notify_transaction ::
  "('e \<Rightarrow> bytes run) \<Rightarrow> Timestamp \<Rightarrow> 'e ReplicaTransactionInfoV3 versioned \<Rightarrow> slot
   \<Rightarrow> ('a, 's, 'd, 'q) PluginInner \<Rightarrow> ('a, 's, 'd, 'q) PluginInner run" where
  "notify_transaction ser now transaction slot p =
     (case transaction of
        Unsupported \<Rightarrow> None
      | Supported info \<Rightarrow> do {
          m \<leftarrow> MessageTransaction_from_geyser ser now info slot;
          Some (send_message (MTransaction m) p)
        })"

definition notify_entry ::
  "Timestamp \<Rightarrow> ReplicaEntryInfoV2 versioned \<Rightarrow> ('a, 's, 'd, 'q) PluginInner \<Rightarrow> ('a, 's, 'd, 'q) PluginInner run" where
  "notify_entry now entry p =
     (case entry of
        Unsupported \<Rightarrow> None
      | Supported info \<Rightarrow> do { m \<leftarrow> MessageEntry_from_geyser now info; Some (send_message (MEntry m) p) })"

definition notify_block_metadata ::
  "Timestamp \<Rightarrow> ReplicaBlockInfoV4 versioned \<Rightarrow> ('a, 's, 'd, 'q) PluginInner \<Rightarrow> ('a, 's, 'd, 'q) PluginInner run" where
  "notify_block_metadata now blockinfo p =
     (case blockinfo of
        Unsupported \<Rightarrow> None
      | Supported info \<Rightarrow>
          (let message = MBlockMeta (MessageBlockMeta_from_geyser now info)
           in Some (send_blocks_meta_message message (send_message message p))))"

definition notify_deshred_transaction ::
  "(Message, 'd, 'r2, 'w2) tokio \<Rightarrow> Timestamp \<Rightarrow> ReplicaDeshredTransactionInfoVersions \<Rightarrow> slot
   \<Rightarrow> ('a, 's, 'd, 'q) PluginInner \<Rightarrow> ('a, 's, 'd, 'q) PluginInner" where
  "notify_deshred_transaction D now transaction slot p =
     send_deshred_message D (MDeshredTransaction (MessageDeshredTransaction_from_geyser_versioned now transaction slot)) p"

definition notify_contact_info ::
  "Timestamp \<Rightarrow> 'a ReplicaContactInfoV0_0_1 \<Rightarrow> bool \<Rightarrow> ('a, 's, 'd, 'q) PluginInner \<Rightarrow> ('a, 's, 'd, 'q) PluginInner run" where
  "notify_contact_info now info is_startup p =
     do { m \<leftarrow> MessageContactInfo_from_geyser now info; Some (send_contact_info_message (CNode m) is_startup p) }"

definition notify_contact_info_removed ::
  "Timestamp \<Rightarrow> bytes \<Rightarrow> ('a, 's, 'd, 'q) PluginInner \<Rightarrow> ('a, 's, 'd, 'q) PluginInner run" where
  "notify_contact_info_removed now pubkey p =
     do { m \<leftarrow> MessageContactInfoRemoved_from_geyser now pubkey; Some (send_contact_info_message (CRemoved m) False p) }"

text \<open>Any callback of the validator, at the time it is made.\<close>

datatype ('a, 'e) callback =
    UpdateAccount "ReplicaAccountInfoV3 versioned" slot bool
  | EndOfStartup
  | UpdateSlotStatus slot "slot option" GeyserSlotStatus
  | NotifyTransaction "'e ReplicaTransactionInfoV3 versioned" slot
  | NotifyEntry "ReplicaEntryInfoV2 versioned"
  | NotifyBlockMetadata "ReplicaBlockInfoV4 versioned"
  | NotifyDeshredTransaction ReplicaDeshredTransactionInfoVersions slot
  | NotifyContactInfo "'a ReplicaContactInfoV0_0_1" bool
  | NotifyContactInfoRemoved bytes

definition plugin_callback ::
  "(Message list, 'q, 'r, 'w) tokio \<Rightarrow> (Message, 'd, 'r2, 'w2) tokio \<Rightarrow> (Message, 's) mpsc_sender
   \<Rightarrow> ('e \<Rightarrow> bytes run) \<Rightarrow> Timestamp \<Rightarrow> ('a, 'e) callback
   \<Rightarrow> ('a, 's, 'd, 'q) PluginInner \<Rightarrow> ('a, 's, 'd, 'q) PluginInner run" where
  "plugin_callback T D S ser now cb p =
     (case cb of
        UpdateAccount info slot is_startup \<Rightarrow> update_account S now info slot is_startup p
      | EndOfStartup \<Rightarrow> Some (notify_end_of_startup p)
      | UpdateSlotStatus slot parent status \<Rightarrow> Some (update_slot_status T D now slot parent status p)
      | NotifyTransaction info slot \<Rightarrow> notify_transaction ser now info slot p
      | NotifyEntry info \<Rightarrow> notify_entry now info p
      | NotifyBlockMetadata info \<Rightarrow> notify_block_metadata now info p
      | NotifyDeshredTransaction info slot \<Rightarrow> Some (notify_deshred_transaction D now info slot p)
      | NotifyContactInfo info is_startup \<Rightarrow> notify_contact_info now info is_startup p
      | NotifyContactInfoRemoved pubkey \<Rightarrow> notify_contact_info_removed now pubkey p)"

end
