(* ===== verification/Convert_Claims.thy ===== *)
theory Convert_Claims
  imports Plugin_Entry Filtered_Update
begin

text \<open>
  The two directions of the conversion fit together: decoding what was encoded gives the transaction back and
  the status meta up to the options that protobuf cannot tell apart, and what decoding accepts is well formed.
\<close>

section \<open>Lemmas\<close>

lemma and_then_Inr [simp]: "and_then (Inr x) f = f x" and and_then_Inl [simp]: "and_then (Inl e) f = Inl e"
  by (simp_all add: and_then_def)

lemma and_then_eq_Inr: "and_then r f = Inr y \<longleftrightarrow> (\<exists>x. r = Inr x \<and> f x = Inr y)"
  by (cases r) simp_all

lemma ok_or_eq_Inr [simp]: "ok_or e x = Inr y \<longleftrightarrow> x = Some y" and ok_or_Some [simp]: "ok_or e (Some y) = Inr y"
  by (cases x) (simp_all add: ok_or_def)

lemma ucast_u8_u32 [simp]: "unat (ucast (n :: u8) :: u32) = unat n" "ucast (ucast n :: u32) = n"
  by (transfer; simp add: take_bit_take_bit min_def)+

lemma unat_u8 [simp]: "unat (n :: u8) < 256"
  using unsigned_less [where w = n and ?'b = 8] by simp

lemma try_u8_ucast [simp]: "try_u8 e (ucast (n :: u8) :: u32) = Inr n"
  by (simp add: try_u8_def)

lemma try_u8_eq_Inr: "try_u8 e n = Inr k \<Longrightarrow> unat n = unat k"
  by (auto simp: try_u8_def unsigned_ucast_eq take_bit_nat_eq_self split: if_splits)

lemma collect_result_map:
  "(\<And>x. x \<in> set xs \<Longrightarrow> f (g x) = Inr (h x)) \<Longrightarrow> collect_result f (map g xs) = Inr (map h xs)"
  by (induction xs) auto

lemma collect_result_back:
  "(\<And>x. x \<in> set xs \<Longrightarrow> f (g x) = Inr x) \<Longrightarrow> collect_result f (map g xs) = Inr xs"
  using collect_result_map [of xs f g "\<lambda>x. x"] by simp

lemma try_array_same [simp]: "length bs = n \<Longrightarrow> try_array n bs = Some bs"
  by (simp add: try_array_def)

lemma try_array_eq_Some: "try_array n bs = Some a \<longleftrightarrow> a = bs \<and> length bs = n"
  by (auto simp: try_array_def)

subsection \<open>Decimal numbers\<close>

lemma digit_of_char: "d < 10 \<Longrightarrow> (of_char (char_of (48 + d :: nat) :: char) :: nat) = 48 + d"
  by simp

lemma parse_digits_snoc:
  assumes "d < 10"
  shows "parse_digits maximum acc (cs @ [char_of (48 + d :: nat)]) =
    (case parse_digits maximum acc cs of
       None \<Rightarrow> None | Some n \<Rightarrow> if n * 10 + d \<le> maximum then Some (n * 10 + d) else None)"
  using assms by (induction maximum acc cs rule: parse_digits.induct) (auto simp: Let_def)

lemma parse_digits_decimal: "n \<le> maximum \<Longrightarrow> parse_digits maximum 0 (decimal n) = Some n"
proof (induction n rule: decimal.induct)
  case (1 n)
  show ?case
  proof (cases "n < 10")
    case True
    then show ?thesis using 1(2) by (simp add: decimal.simps [of n] Let_def)
  next
    case False
    then have "parse_digits maximum 0 (decimal (n div 10)) = Some (n div 10)" using 1 by simp
    then show ?thesis
      using False 1(2) parse_digits_snoc [of "n mod 10" maximum 0 "decimal (n div 10)"]
      by (simp add: decimal.simps [of n])
  qed
qed

lemma decimal_head: "\<exists>d cs. d < 10 \<and> decimal n = char_of (48 + d :: nat) # cs"
proof (induction n rule: decimal.induct)
  case (1 n)
  show ?case
  proof (cases "n < 10")
    case True
    then show ?thesis by (auto simp: decimal.simps [of n])
  next
    case False
    then obtain d cs where "d < 10" "decimal (n div 10) = char_of (48 + d :: nat) # cs" using 1 by blast
    with False show ?thesis by (auto simp: decimal.simps [of n])
  qed
qed

lemma decimal_nonempty [simp]: "decimal n \<noteq> []"
  using decimal_head [of n] by auto

lemma parse_unsigned_decimal:
  assumes "n \<le> maximum"
  shows "parse_unsigned maximum (decimal n) = Some n"
proof -
  obtain d cs where d: "d < 10" "decimal n = char_of (48 + d :: nat) # cs" using decimal_head by blast
  have "char_of (48 + d :: nat) \<noteq> CHR ''+''"
  proof
    assume "char_of (48 + d :: nat) = CHR ''+''"
    then have "(of_char (char_of (48 + d :: nat) :: char) :: nat) = of_char (CHR ''+'')" by (rule arg_cong)
    then show False using digit_of_char [OF d(1)] by simp
  qed
  with d parse_digits_decimal [OF assms] show "parse_unsigned maximum (decimal n) = Some n"
    by (auto simp: parse_unsigned_def)
qed

section \<open>Well-formed values\<close>

text \<open>The lengths that the validator's types fix.\<close>

definition keys_ok :: "pubkey list \<Rightarrow> bool" where
  "keys_ok keys \<longleftrightarrow> (\<forall>key \<in> set keys. length key = 32)"

definition message_shape :: "VersionedMessage \<Rightarrow> bool" where
  "message_shape message \<longleftrightarrow>
     (case message of
        Legacy m \<Rightarrow> keys_ok (lm_account_keys m) \<and> length (lm_recent_blockhash m) = 32
      | V0 m \<Rightarrow> keys_ok (v0_account_keys m) \<and> length (v0_recent_blockhash m) = 32 \<and>
          keys_ok (map sk_account_key (v0_address_table_lookups m))
      | V1 m \<Rightarrow> keys_ok (v1_account_keys m) \<and> length (v1_lifetime_specifier m) = 32)"

definition tx_shape :: "VersionedTransaction \<Rightarrow> bool" where
  "tx_shape tx \<longleftrightarrow> (\<forall>s \<in> set (vt_signatures tx). length s = 64) \<and> message_shape (vt_message tx)"

definition meta_shape :: "'e SolStatusMeta \<Rightarrow> bool" where
  "meta_shape m \<longleftrightarrow> keys_ok (la_writable (sm_loaded_addresses m)) \<and> keys_ok (la_readonly (sm_loaded_addresses m)) \<and>
     (case sm_return_data m of None \<Rightarrow> True | Some d \<Rightarrow> length (sd_program_id d) = 32)"

text \<open>What decoding makes of a status meta: protobuf has no absent list of balances or rewards and no absent amount.\<close>

definition plain_balance :: "TransactionTokenBalance \<Rightarrow> TransactionTokenBalance" where
  "plain_balance b = b\<lparr>st_ui_token_amount := (st_ui_token_amount b)
     \<lparr>su_ui_amount := Some (case su_ui_amount (st_ui_token_amount b) of None \<Rightarrow> 0 | Some x \<Rightarrow> x)\<rparr>\<rparr>"

definition plain_meta :: "'e SolStatusMeta \<Rightarrow> 'e SolStatusMeta" where
  "plain_meta m = m
     \<lparr>sm_pre_token_balances := Some (map_or_empty plain_balance (sm_pre_token_balances m)),
      sm_post_token_balances := Some (map_or_empty plain_balance (sm_post_token_balances m)),
      sm_rewards := Some (map_or_empty (\<lambda>r. r) (sm_rewards m))\<rparr>"

section \<open>Decoding what was encoded\<close>

lemma instructions_back [simp]: "create_message_instructions (create_instructions ixs) = Inr ixs"
  unfolding create_message_instructions_def create_instructions_def
  by (rule collect_result_back) (simp add: create_message_instruction_def create_instruction_def)

lemma keys_back [simp]: "keys_ok keys \<Longrightarrow> create_pubkey_vec (create_pubkeys keys) = Inr keys"
  unfolding create_pubkey_vec_def create_pubkeys_def
  by (rule collect_result_back) (simp add: create_pubkey_def keys_ok_def)

lemma header_back [simp]: "from_header (create_header h) = Inr h"
  by (simp add: from_header_def create_header_def)

lemma lookups_back: "keys_ok (map sk_account_key ls) \<Longrightarrow> collect_result from_lookup (create_lookups ls) = Inr ls"
  unfolding create_lookups_def
  by (rule collect_result_back) (simp add: from_lookup_def create_lookup_def keys_ok_def)

lemma message_back: "message_shape m \<Longrightarrow> from_create_message (to_create_message m) = Inr m"
  by (cases m)
    (simp_all add: from_create_message_def to_create_message_def message_shape_def lookups_back)

lemma transaction_back:
  assumes "tx_shape tx"
  shows "create_tx_versioned (create_transaction tx) = Inr tx"
proof -
  have "collect_result (\<lambda>s. ok_or ''failed to parse Signature'' (try_array 64 s)) (map (\<lambda>s. s) (vt_signatures tx)) =
      Inr (vt_signatures tx)"
    by (rule collect_result_back) (use assms in \<open>simp add: tx_shape_def\<close>)
  then show ?thesis
    using assms by (simp add: create_tx_versioned_def create_transaction_def message_back tx_shape_def)
qed

lemma reward_type_back [simp]: "from_reward_type (create_reward_type t) = Inr t"
  by (cases t) (auto simp: create_reward_type_def from_reward_type_def split: RewardType.splits)

lemma commission_back [simp]:
  "parse_commission e 255 (case c of None \<Rightarrow> [] | Some c \<Rightarrow> decimal (unat (c :: u8))) = Inr (map_option unat c)"
  "parse_commission e 65535 (case d of None \<Rightarrow> [] | Some d \<Rightarrow> decimal (unat (d :: u16))) = Inr (map_option unat d)"
proof -
  have "unat c \<le> 255" for c :: u8 using unat_u8 [of c] by linarith
  moreover have "unat d \<le> 65535" for d :: u16
    using unsigned_less [where w = d and 'a = nat] by simp
  ultimately show
    "parse_commission e 255 (case c of None \<Rightarrow> [] | Some c \<Rightarrow> decimal (unat (c :: u8))) = Inr (map_option unat c)"
    "parse_commission e 65535 (case d of None \<Rightarrow> [] | Some d \<Rightarrow> decimal (unat (d :: u16))) = Inr (map_option unat d)"
    using parse_unsigned_decimal by (auto simp: parse_commission_def split: option.split)
qed

lemma reward_back [simp]: "from_create_reward (to_create_reward r) = Inr r"
  by (simp add: from_create_reward_def to_create_reward_def option.map_comp comp_def option.map_ident)

lemma token_balance_back [simp]: "from_token_balance (to_create_token_balance b) = Inr (plain_balance b)"
  by (simp add: from_token_balance_def to_create_token_balance_def plain_balance_def)

lemma map_or_empty_back:
  "(\<And>x. f (g x) = Inr (h x)) \<Longrightarrow> collect_result f (map_or_empty g xs) = Inr (map_or_empty h xs)"
  by (cases xs) (simp_all add: map_or_empty_def collect_result_map)

lemma map_or_empty_simps [simp]: "map_or_empty f None = []" "map_or_empty (\<lambda>x. x) (Some xs) = xs"
  by (simp_all add: map_or_empty_def)

lemma inner_instructions_back: "create_meta_inner_instruction (create_inner_instructions is) = Inr is"
proof -
  have "collect_result from_inner_instruction (map create_inner_instruction (ss_instructions is)) = Inr (ss_instructions is)"
    by (rule collect_result_back) (simp add: from_inner_instruction_def create_inner_instruction_def)
  then show ?thesis by (simp add: create_meta_inner_instruction_def create_inner_instructions_def)
qed

definition codec_ok :: "('e \<Rightarrow> bytes run) \<Rightarrow> (bytes \<Rightarrow> 'e option) \<Rightarrow> bool" where
  "codec_ok ser de \<longleftrightarrow> (\<forall>e. \<exists>bs. ser e = Some bs \<and> de bs = Some e)"

lemma error_back:
  assumes "codec_ok ser de"
  obtains err where "create_transaction_error ser status = Some err"
    "create_tx_error de err = Inr (case status of Inl e \<Rightarrow> Some e | Inr _ \<Rightarrow> None)"
proof (cases status)
  case (Inl e)
  obtain bs where "ser e = Some bs" "de bs = Some e" using assms by (auto simp: codec_ok_def)
  then show ?thesis using that Inl by (simp add: create_transaction_error_def create_tx_error_def)
next
  case (Inr u)
  then have "status = Inr ()" by simp
  then show ?thesis by (intro that [of None]) (simp_all add: create_transaction_error_def create_tx_error_def)
qed

lemma return_data_back: "length (sd_program_id d) = 32 \<Longrightarrow> from_return_data (create_return_data d) = Inr d"
  by (simp add: from_return_data_def create_return_data_def)

lemma meta_back:
  assumes "codec_ok ser de" "meta_shape m"
  shows "\<exists>p. create_transaction_meta ser m = Some p \<and> create_tx_meta de p = Inr (plain_meta m)"
proof -
  obtain err where err: "create_transaction_error ser (sm_status m) = Some err"
    "create_tx_error de err = Inr (case sm_status m of Inl e \<Rightarrow> Some e | Inr _ \<Rightarrow> None)"
    using error_back [OF assms(1)] by blast
  have status: "(case (case sm_status m of Inl e \<Rightarrow> Some e | Inr _ \<Rightarrow> None) of Some e \<Rightarrow> Inl e | None \<Rightarrow> Inr ()) = sm_status m"
    by (cases "sm_status m") simp_all
  have balances: "from_create_token_balances (map_or_empty to_create_token_balance bs) = Inr (map_or_empty plain_balance bs)" for bs
    unfolding from_create_token_balances_def by (rule map_or_empty_back) simp
  have rewards: "collect_result from_create_reward (map_or_empty to_create_reward rs) = Inr (map_or_empty (\<lambda>r. r) rs)" for rs
    by (rule map_or_empty_back) simp
  have inner: "create_meta_inner_instructions (map_or_empty create_inner_instructions (Some xs)) = Inr xs" for xs
    unfolding create_meta_inner_instructions_def map_or_empty_def option.case
    by (rule collect_result_back) (rule inner_instructions_back)
  have loaded: "create_loaded_addresses (create_pubkeys (la_writable (sm_loaded_addresses m)))
      (create_pubkeys (la_readonly (sm_loaded_addresses m))) = Inr (sm_loaded_addresses m)"
    using assms(2) by (simp add: create_loaded_addresses_def meta_shape_def)
  show ?thesis
    using assms(2) inner
    by (cases "sm_inner_instructions m"; cases "sm_log_messages m"; cases "sm_return_data m")
      (simp_all add: create_transaction_meta_def err create_tx_meta_def balances rewards loaded status plain_meta_def
        meta_shape_def return_data_back)
qed

section \<open>What decoding accepts\<close>

lemma collect_result_all:
  assumes "collect_result f xs = Inr ys" "\<And>x y. f x = Inr y \<Longrightarrow> P y"
  shows "\<forall>y \<in> set ys. P y"
  using assms(1)
proof (induction xs arbitrary: ys)
  case (Cons x xs)
  then show ?case using assms(2) by (auto split: sum.splits)
qed simp

lemma decoded_keys: "create_pubkey_vec ks = Inr keys \<Longrightarrow> keys_ok keys"
  unfolding create_pubkey_vec_def keys_ok_def
  by (erule collect_result_all) (auto simp: create_pubkey_def try_array_eq_Some)

lemma decoded_lookups: "collect_result from_lookup ls = Inr lookups \<Longrightarrow> keys_ok (map sk_account_key lookups)"
proof -
  assume "collect_result from_lookup ls = Inr lookups"
  then have "\<forall>l \<in> set lookups. length (sk_account_key l) = 32"
    by (rule collect_result_all) (auto simp: from_lookup_def and_then_eq_Inr try_array_eq_Some)
  then show ?thesis by (auto simp: keys_ok_def)
qed

lemma decoded_message: "from_create_message m = Inr message \<Longrightarrow> message_shape message"
  by (auto simp: from_create_message_def and_then_eq_Inr message_shape_def try_array_eq_Some
      dest!: decoded_keys decoded_lookups split: option.splits if_splits)

lemma decoded_transaction: "create_tx_versioned t = Inr tx \<Longrightarrow> tx_shape tx"
proof -
  assume "create_tx_versioned t = Inr tx"
  then obtain m where "collect_result (\<lambda>s. ok_or ''failed to parse Signature'' (try_array 64 s)) (tr_signatures t) = Inr (vt_signatures tx)"
      "from_create_message m = Inr (vt_message tx)"
    by (auto simp: create_tx_versioned_def and_then_eq_Inr)
  moreover from this(1) have "\<forall>s \<in> set (vt_signatures tx). length s = 64"
    by (rule collect_result_all) (auto simp: try_array_eq_Some)
  ultimately show ?thesis using decoded_message by (simp add: tx_shape_def)
qed

lemma decoded_balances: "from_create_token_balances bs = Inr balances \<Longrightarrow> map plain_balance balances = balances"
proof -
  assume "from_create_token_balances bs = Inr balances"
  then have "\<forall>b \<in> set balances. plain_balance b = b"
    unfolding from_create_token_balances_def
    by (rule collect_result_all) (auto simp: from_token_balance_def and_then_eq_Inr plain_balance_def)
  then show ?thesis by (simp add: map_idI)
qed

lemma decoded_meta:
  assumes "create_tx_meta de p = Inr m"
  shows "meta_shape m" "plain_meta m = m"
proof -
  obtain pre post rewards where m: "sm_pre_token_balances m = Some pre" "sm_post_token_balances m = Some post"
      "sm_rewards m = Some rewards"
    and balances: "from_create_token_balances (ts_pre_token_balances p) = Inr pre"
      "from_create_token_balances (ts_post_token_balances p) = Inr post"
    and loaded: "create_loaded_addresses (ts_loaded_writable_addresses p) (ts_loaded_readonly_addresses p) = Inr (sm_loaded_addresses m)"
    and ret: "(if ts_return_data_none p then Inr None
        else and_then (ok_or ''failed to get return_data'' (ts_return_data p)) (\<lambda>d.
             and_then (from_return_data d) (\<lambda>d. Inr (Some d)))) = Inr (sm_return_data m)"
    using assms unfolding create_tx_meta_def and_then_eq_Inr by force
  show "meta_shape m"
    using loaded ret
    by (auto simp: meta_shape_def create_loaded_addresses_def from_return_data_def and_then_eq_Inr try_array_eq_Some
        dest!: decoded_keys sym [where t = "sm_loaded_addresses m"] split: if_splits option.splits)
  show "plain_meta m = m"
    using m balances by (cases m) (simp add: plain_meta_def map_or_empty_def decoded_balances)
qed

lemma keys_cover:
  assumes "keys_ok pks"
  shows "\<exists>r. insert_pubkeys acc (create_pubkeys pks) = Inr r \<and> set r = set acc \<union> set pks"
proof -
  have "\<not> (\<exists>e. insert_pubkeys acc (create_pubkeys pks) = Inl e)"
    using assms unfolding insert_pubkeys_Inl by (simp add: create_pubkeys_def keys_ok_def)
  then obtain r where "insert_pubkeys acc (create_pubkeys pks) = Inr r"
    by (cases "insert_pubkeys acc (create_pubkeys pks)") auto
  then show ?thesis using insert_pubkeys_Inr by (auto simp: create_pubkeys_def)
qed

lemma static_keys_of_created [simp]: "tm_account_keys (to_create_message m) = create_pubkeys (static_account_keys m)"
  by (simp add: to_create_message_def static_account_keys_def split: VersionedMessage.split)

lemma static_keys_ok: "message_shape m \<Longrightarrow> keys_ok (static_account_keys m)"
  by (auto simp: message_shape_def static_account_keys_def split: VersionedMessage.splits)

section \<open>Properties\<close>

text \<open>C18. From the validator to a client: a transaction of the validator always becomes a message, and what a client
  decodes from the update of that message is the transaction itself, with its status meta up to the options
  that protobuf cannot express (absent balances and rewards come back as empty lists, an absent token amount
  as zero). The account keys of the message are the keys of the transaction and its loaded addresses, and
  recomputing them from the encoded transaction gives the same set.\<close>

theorem transaction_roundtrip:
  assumes "codec_ok ser de" "tx_shape (rt_transaction info)" "meta_shape (rt_transaction_status_meta info)"
  shows "\<exists>t. MessageTransaction_from_geyser ser now info slot = Some t \<and>
    create_tx_with_meta de (as_subscribe_update_transaction t) =
      Inr \<lparr>tw_transaction = rt_transaction info, tw_meta = plain_meta (rt_transaction_status_meta info)\<rparr> \<and>
    set (ti_account_keys (mt_transaction t)) =
      set (static_account_keys (vt_message (rt_transaction info))) \<union>
      set (la_writable (sm_loaded_addresses (rt_transaction_status_meta info))) \<union>
      set (la_readonly (sm_loaded_addresses (rt_transaction_status_meta info))) \<and>
    (case fill_account_keys (mt_transaction t) of
       (tx, result) \<Rightarrow> result = Inr () \<and> set (ti_account_keys tx) = set (ti_account_keys (mt_transaction t)))"
proof -
  let ?m = "rt_transaction_status_meta info" and ?tx = "rt_transaction info"
  obtain p where p: "create_transaction_meta ser ?m = Some p" "create_tx_meta de p = Inr (plain_meta ?m)"
    using meta_back [OF assms(1,3)] by blast
  define t where "t = \<lparr>mt_transaction = \<lparr>ti_signature = rt_signature info, ti_is_vote = rt_is_vote info,
      ti_transaction = create_transaction ?tx, ti_meta = p, ti_index = rt_index info,
      ti_account_keys = hset_of [] (static_account_keys (vt_message ?tx) @ la_writable (sm_loaded_addresses ?m) @
        la_readonly (sm_loaded_addresses ?m)),
      ti_pre_encoded = None, ti_token_owners_all = None, ti_token_owners_changed = None\<rparr>,
    mt_slot = slot, mt_created_at = now\<rparr>"
  have made: "MessageTransaction_from_geyser ser now info slot = Some t"
    by (simp add: MessageTransaction_from_geyser_def MessageTransactionInfo_from_geyser_def p t_def Let_def)
  have loaded: "ts_loaded_writable_addresses p = create_pubkeys (la_writable (sm_loaded_addresses ?m))"
      "ts_loaded_readonly_addresses p = create_pubkeys (la_readonly (sm_loaded_addresses ?m))"
    using p(1) by (auto simp: create_transaction_meta_def split: Option.bind_splits)
  obtain k1 where k1: "insert_pubkeys [] (create_pubkeys (static_account_keys (vt_message ?tx))) = Inr k1"
      "set k1 = set (static_account_keys (vt_message ?tx))"
    using keys_cover [of _ "[]"] static_keys_ok assms(2) by (fastforce simp: tx_shape_def)
  obtain k2 where k2: "insert_pubkeys k1 (ts_loaded_writable_addresses p) = Inr k2"
      "set k2 = set k1 \<union> set (la_writable (sm_loaded_addresses ?m))"
    using keys_cover [of _ k1] assms(3) loaded by (fastforce simp: meta_shape_def)
  obtain k3 where k3: "insert_pubkeys k2 (ts_loaded_readonly_addresses p) = Inr k3"
      "set k3 = set k2 \<union> set (la_readonly (sm_loaded_addresses ?m))"
    using keys_cover [of _ k2] assms(3) loaded by (fastforce simp: meta_shape_def)
  have "fill_account_keys (mt_transaction t) = ((mt_transaction t)\<lparr>ti_account_keys := k3\<rparr>, Inr ())"
    using k1 k2 k3 by (simp add: fill_account_keys_def t_def create_transaction_def)
  moreover have "create_tx_with_meta de (as_subscribe_update_transaction t) =
      Inr \<lparr>tw_transaction = ?tx, tw_meta = plain_meta ?m\<rparr>"
    using transaction_back [OF assms(2)] p(2)
    by (simp add: create_tx_with_meta_def as_subscribe_update_transaction_def t_def)
  ultimately show ?thesis
    using made k1(2) k2(2) k3(2) by (auto simp: t_def)
qed

definition sample_info :: "nat ReplicaTransactionInfoV3" where
  "sample_info =
     \<lparr>rt_signature = replicate 64 7, rt_is_vote = False,
      rt_transaction =
        \<lparr>vt_signatures = [replicate 64 7],
         vt_message = V1
           \<lparr>v1_header = \<lparr>sh_num_required_signatures = 1, sh_num_readonly_signed_accounts = 0,
              sh_num_readonly_unsigned_accounts = 200\<rparr>,
            v1_config = \<lparr>sf_priority_fee = Some 5, sf_compute_unit_limit = None,
              sf_loaded_accounts_data_size_limit = None, sf_heap_size = Some 0\<rparr>,
            v1_lifetime_specifier = replicate 32 1, v1_account_keys = [replicate 32 2],
            v1_instructions = [\<lparr>si_program_id_index = 255, si_accounts = [0], si_data = []\<rparr>]\<rparr>\<rparr>,
      rt_transaction_status_meta =
        \<lparr>sm_status = Inl 9, sm_fee = 1, sm_pre_balances = [1], sm_post_balances = [0], sm_inner_instructions = None,
         sm_log_messages = None, sm_pre_token_balances = None, sm_post_token_balances = None, sm_rewards = None,
         sm_loaded_addresses = \<lparr>la_writable = [replicate 32 3], la_readonly = []\<rparr>, sm_return_data = None,
         sm_compute_units_consumed = None, sm_cost_units = None\<rparr>,
      rt_index = 0\<rparr>"

definition sample_ser :: "nat \<Rightarrow> bytes run" where
  "sample_ser e = Some (replicate e 0)"

lemma sample_shapes: "codec_ok sample_ser (\<lambda>bs. Some (length bs))" "tx_shape (rt_transaction sample_info)"
    "meta_shape (rt_transaction_status_meta sample_info)"
  by (simp_all add: codec_ok_def sample_ser_def sample_info_def tx_shape_def message_shape_def meta_shape_def keys_ok_def)

theorem transaction_roundtrip_witness:
  "\<exists>t. MessageTransaction_from_geyser sample_ser \<lparr>stamp_seconds = 0, stamp_nanos = 0\<rparr> sample_info 4 = Some t \<and>
     create_tx_with_meta (\<lambda>bs. Some (length bs)) (as_subscribe_update_transaction t) =
       Inr \<lparr>tw_transaction = rt_transaction sample_info,
            tw_meta = plain_meta (rt_transaction_status_meta sample_info)\<rparr>"
  using transaction_roundtrip [OF sample_shapes, of "\<lparr>stamp_seconds = 0, stamp_nanos = 0\<rparr>" 4] by blast

text \<open>C35. What decoding accepts has the lengths of the validator's types, whatever arrives: signatures of 64 bytes,
  keys and hashes of 32. Encoding it again and decoding that gives the same value.\<close>

theorem decoded_transaction_well_formed:
  assumes "create_tx_with_meta de u = Inr w" "codec_ok ser de"
  shows "tx_shape (tw_transaction w) \<and> meta_shape (tw_meta w) \<and>
    create_tx_versioned (create_transaction (tw_transaction w)) = Inr (tw_transaction w) \<and>
    (\<exists>p. create_transaction_meta ser (tw_meta w) = Some p \<and> create_tx_meta de p = Inr (tw_meta w))"
proof -
  have "tx_shape (tw_transaction w)" "meta_shape (tw_meta w)" "plain_meta (tw_meta w) = tw_meta w"
    using assms(1) by (auto simp: create_tx_with_meta_def and_then_eq_Inr intro: decoded_transaction decoded_meta)
  then show ?thesis using transaction_back meta_back [OF assms(2), of "tw_meta w"] by auto
qed

theorem decoded_transaction_well_formed_witness:
  "\<exists>u w. create_tx_with_meta (\<lambda>bs. Some (length bs)) u = Inr w \<and> tx_shape (tw_transaction w) \<and>
     create_tx_versioned (create_transaction (tw_transaction w)) = Inr (tw_transaction w)"
proof -
  obtain p where p: "create_transaction_meta sample_ser (rt_transaction_status_meta sample_info) = Some p"
      "create_tx_meta (\<lambda>bs. Some (length bs)) p = Inr (plain_meta (rt_transaction_status_meta sample_info))"
    using meta_back [OF sample_shapes(1,3)] by blast
  define u where "u = \<lparr>uti_signature = [], uti_is_vote = False,
    uti_transaction = Some (create_transaction (rt_transaction sample_info)), uti_meta = Some p, uti_index = 0\<rparr>"
  have u: "create_tx_with_meta (\<lambda>bs. Some (length bs)) u =
      Inr \<lparr>tw_transaction = rt_transaction sample_info, tw_meta = plain_meta (rt_transaction_status_meta sample_info)\<rparr>"
    by (simp add: create_tx_with_meta_def u_def transaction_back sample_shapes p)
  show ?thesis using decoded_transaction_well_formed [OF u sample_shapes(1)] u by blast
qed

end
