(* ===== verification/Server_System.thy ===== *)
theory Server_System
  imports Plugin_Entry Pipeline_Claims
begin

text \<open>
  The plugin callbacks, the geyser loop and the block reconstruction loop together: they share the queues
  between them and the channels of the subscribers, and run in any interleaving. A turn of a loop is one
  round of \<^verbatim>\<open>geyser_loop\<close> or \<^verbatim>\<open>block_reconstruction_loop\<close>
  (\<^verbatim>\<open>yellowstone-grpc-geyser/src/grpc.rs\<close>) on the shared queues.
\<close>

section \<open>Turns\<close>

record ('a, 's, 'd, 'q, 'b) Server =
  sv_plugin :: "('a, 's, 'd, 'q) PluginInner"
  sv_buffer :: PartitionedBuffer
  sv_buffered_messages :: "BlockReconstructionMessage Vec"
  sv_reconstruction :: "('b, 'q) ReconstructionLoop"

text \<open>\<open>R\<close> receives from the queue of the geyser loop.\<close>

definition geyser_turn ::
  "(Message list, 'q, 'r, 'w) tokio \<Rightarrow> (nat \<Rightarrow> nat) \<Rightarrow> (Message, Message list) mpsc_receiver
   \<Rightarrow> ('a, 's, 'd, 'q, 'b) Server \<Rightarrow> ('a, 's, 'd, 'q, 'b) Server option" where
  "geyser_turn T alloc R sv =
     (let p = sv_plugin sv in
      do {
        (_, g) \<leftarrow> geyser_poll T alloc R
                    \<lparr>gl_messages_rx = pl_grpc_channel p, gl_buffer = sv_buffer sv,
                     gl_broadcast = pl_broadcast_channel p, gl_block_reconstruction_tx = []\<rparr>;
        Some (sv\<lparr>sv_buffer := gl_buffer g,
                 sv_plugin := p\<lparr>pl_grpc_channel := gl_messages_rx g, pl_broadcast_channel := gl_broadcast g,
                   pl_block_reconstruction_channel :=
                     pl_block_reconstruction_channel p @ gl_block_reconstruction_tx g\<rparr>\<rparr>)
      })"

text \<open>\<open>Q\<close> receives from the queue of the reconstruction loop; the drained buffer keeps its capacity.\<close>

definition reconstruction_turn ::
  "(Message list, 'q, 'r, 'w) tokio \<Rightarrow> (BlockReconstructionMessage, BlockReconstructionMessage list) mpsc_receiver
   \<Rightarrow> 'b block_machine \<Rightarrow> Timestamp \<Rightarrow> ('a, 's, 'd, 'q, 'b) Server \<Rightarrow> ('a, 's, 'd, 'q, 'b) Server option" where
  "reconstruction_turn T Q B now sv =
     (let p = sv_plugin sv in
      do {
        (res, buffered, rx) \<leftarrow> poll_recv_batch_with_buffer Vec_buffer Q (sv_buffered_messages sv)
                                 (pl_block_reconstruction_channel p);
        (case res of
           Ready (Some _) \<Rightarrow> do {
             l \<leftarrow> reconstruction_round T B now (vec_items buffered)
                   ((sv_reconstruction sv)\<lparr>rl_broadcast := pl_broadcast_channel p\<rparr>);
             Some (sv\<lparr>sv_buffered_messages := buffered\<lparr>vec_items := []\<rparr>, sv_reconstruction := l,
                      sv_plugin := p\<lparr>pl_block_reconstruction_channel := rx,
                                     pl_broadcast_channel := rl_broadcast l\<rparr>\<rparr>)
           }
         | _ \<Rightarrow> Some (sv\<lparr>sv_buffered_messages := buffered, sv_plugin := p\<lparr>pl_block_reconstruction_channel := rx\<rparr>\<rparr>))
      })"

section \<open>Runs\<close>

text \<open>A run records the callbacks, and the messages that block reconstruction has taken from its queue.\<close>

inductive server_run ::
  "(Message list, 'q, 'r, 'w) tokio \<Rightarrow> (Message, 'd, 'r2, 'w2) tokio \<Rightarrow> (Message, 's) mpsc_sender \<Rightarrow> ('e \<Rightarrow> bytes run)
   \<Rightarrow> (nat \<Rightarrow> nat) \<Rightarrow> (Message, Message list) mpsc_receiver
   \<Rightarrow> (BlockReconstructionMessage, BlockReconstructionMessage list) mpsc_receiver \<Rightarrow> 'b block_machine
   \<Rightarrow> ('a, 's, 'd, 'q, 'b) Server
   \<Rightarrow> (Timestamp \<times> ('a, 'e) callback) list \<Rightarrow> BlockReconstructionMessage list \<Rightarrow> ('a, 's, 'd, 'q, 'b) Server \<Rightarrow> bool"
  for T D S ser alloc R Q B sv0 where
  server_start: "server_run T D S ser alloc R Q B sv0 [] [] sv0"
| server_callback: "server_run T D S ser alloc R Q B sv0 calls taken sv \<Longrightarrow>
    plugin_callback T D S ser now cb (sv_plugin sv) = Some p \<Longrightarrow>
    server_run T D S ser alloc R Q B sv0 (calls @ [(now, cb)]) taken (sv\<lparr>sv_plugin := p\<rparr>)"
| server_geyser: "server_run T D S ser alloc R Q B sv0 calls taken sv \<Longrightarrow> geyser_turn T alloc R sv = Some sv' \<Longrightarrow>
    server_run T D S ser alloc R Q B sv0 calls taken sv'"
| server_reconstruction: "server_run T D S ser alloc R Q B sv0 calls taken sv \<Longrightarrow>
    reconstruction_turn T Q B now sv = Some sv' \<Longrightarrow>
    pl_block_reconstruction_channel (sv_plugin sv) = front @ pl_block_reconstruction_channel (sv_plugin sv') \<Longrightarrow>
    server_run T D S ser alloc R Q B sv0 calls (taken @ front) sv'"

definition server_start_state ::
  "(nat \<Rightarrow> nat) \<Rightarrow> ('a, 's, 'd, 'q) PluginInner \<Rightarrow> 'b \<Rightarrow> nat \<Rightarrow> ('a, 's, 'd, 'q, 'b) Server" where
  "server_start_state alloc p machine capacity =
     \<lparr>sv_plugin = p, sv_buffer = PartitionedBuffer_new alloc,
      sv_buffered_messages = \<lparr>vec_items = [], vec_capacity = alloc 32\<rparr>,
      sv_reconstruction = loop_start machine capacity (pl_broadcast_channel p)\<rparr>"

section \<open>What a callback hands over\<close>

text \<open>The messages of a callback for the geyser loop, and for block reconstruction.\<close>

definition lifecycle :: "GeyserSlotStatus \<Rightarrow> bool" where
  "lifecycle status \<longleftrightarrow> status = GProcessed \<or> status = GConfirmed \<or> status = GRooted"

definition geyser_messages ::
  "FilterLimits \<Rightarrow> ('e \<Rightarrow> bytes run) \<Rightarrow> Timestamp \<times> ('a, 'e) callback \<Rightarrow> Message list" where
  "geyser_messages limits ser entry =
     (case entry of
        (now, UpdateAccount (Supported info) slot False) \<Rightarrow>
          if ra_owner info \<in> set (la_owner_reject (fl_accounts limits)) \<and> length (ra_owner info) = 32 then []
          else (case MessageAccount_from_geyser now info slot False of None \<Rightarrow> [] | Some m \<Rightarrow> [MAccount m])
      | (now, UpdateSlotStatus slot parent status) \<Rightarrow>
          if lifecycle status then [] else [MSlot (MessageSlot_from_geyser now slot parent status)]
      | (now, NotifyTransaction (Supported info) slot) \<Rightarrow>
          (case MessageTransaction_from_geyser ser now info slot of None \<Rightarrow> [] | Some m \<Rightarrow> [MTransaction m])
      | (now, NotifyEntry (Supported info)) \<Rightarrow>
          (case MessageEntry_from_geyser now info of None \<Rightarrow> [] | Some m \<Rightarrow> [MEntry m])
      | (now, NotifyBlockMetadata (Supported info)) \<Rightarrow> [MBlockMeta (MessageBlockMeta_from_geyser now info)]
      | _ \<Rightarrow> [])"

definition lifecycle_messages :: "Timestamp \<times> ('a, 'e) callback \<Rightarrow> Message list" where
  "lifecycle_messages entry =
     (case entry of
        (now, UpdateSlotStatus slot parent status) \<Rightarrow>
          if lifecycle status then [MSlot (MessageSlot_from_geyser now slot parent status)] else []
      | _ \<Rightarrow> [])"

text \<open>Statuses that block reconstruction publishes itself.\<close>

definition is_lifecycle :: "Message \<Rightarrow> bool" where
  "is_lifecycle m = (case m of MSlot x \<Rightarrow> sl_status x \<in> {SProcessed, SConfirmed, SFinalized} | _ \<Rightarrow> False)"

text \<open>What processed subscribers get as it happens.\<close>

definition is_live :: "Message \<Rightarrow> bool" where
  "is_live m \<longleftrightarrow> \<not> is_lifecycle m \<and> \<not> is_blockmeta m \<and> (\<forall>b. m \<noteq> MBlock b)"

definition queued :: "BlockReconstructionMessage list \<Rightarrow> Message list" where
  "queued rs = concat (map reconstruction_messages rs)"

section \<open>Callbacks\<close>

lemma send_simps [simp]:
  "pl_grpc_channel (send_message m p) = pl_grpc_channel p @ [m]"
  "pl_block_reconstruction_channel (send_message m p) = pl_block_reconstruction_channel p"
  "pl_broadcast_channel (send_message m p) = pl_broadcast_channel p"
  "pl_filter_limits (send_message m p) = pl_filter_limits p"
  "pl_grpc_channel (send_blocks_meta_message m p) = pl_grpc_channel p"
  "pl_block_reconstruction_channel (send_blocks_meta_message m p) = pl_block_reconstruction_channel p"
  "pl_broadcast_channel (send_blocks_meta_message m p) = pl_broadcast_channel p"
  "pl_filter_limits (send_blocks_meta_message m p) = pl_filter_limits p"
  by (simp_all add: send_message_def send_blocks_meta_message_def split: option.split)

lemma queued_append [simp]: "queued (rs @ ss) = queued rs @ queued ss"
  by (simp add: queued_def)

lemma send_updates_simps [simp]:
  "pl_filter_limits (send_deshred_message D m p) = pl_filter_limits p"
  "pl_grpc_channel (send_deshred_message D m p) = pl_grpc_channel p"
  "pl_block_reconstruction_channel (send_deshred_message D m p) = pl_block_reconstruction_channel p"
  "pl_broadcast_channel (send_deshred_message D m p) = pl_broadcast_channel p"
  "pl_filter_limits (send_broadcast_message T c ms p) = pl_filter_limits p"
  "pl_grpc_channel (send_broadcast_message T c ms p) = pl_grpc_channel p"
  "pl_block_reconstruction_channel (send_broadcast_message T c ms p) = pl_block_reconstruction_channel p"
  "pl_broadcast_channel (send_broadcast_message T c ms p) = channels_send T c ms (pl_broadcast_channel p)"
  "pl_filter_limits (send_block_reconstruction_message r p) = pl_filter_limits p"
  "pl_grpc_channel (send_block_reconstruction_message r p) = pl_grpc_channel p"
  "pl_block_reconstruction_channel (send_block_reconstruction_message r p) = pl_block_reconstruction_channel p @ [r]"
  "pl_broadcast_channel (send_block_reconstruction_message r p) = pl_broadcast_channel p"
  by (simp_all add: send_deshred_message_def send_broadcast_message_def send_block_reconstruction_message_def)

lemma queued_single [simp]: "queued [RSingle m] = [m]"
  by (simp add: queued_def reconstruction_messages_def)

lemma slot_status_effect:
  "pl_filter_limits (update_slot_status T D now slot parent status p) = pl_filter_limits p"
  "pl_grpc_channel (update_slot_status T D now slot parent status p) =
     pl_grpc_channel p @ (if lifecycle status then [] else [MSlot (MessageSlot_from_geyser now slot parent status)])"
  "queued (pl_block_reconstruction_channel (update_slot_status T D now slot parent status p)) =
     queued (pl_block_reconstruction_channel p) @
     (if lifecycle status then [MSlot (MessageSlot_from_geyser now slot parent status)] else [])"
  "sender Processed (pl_broadcast_channel (update_slot_status T D now slot parent status p)) =
     sender Processed (pl_broadcast_channel p)"
     apply (cases status; simp add: update_slot_status_def Let_def)
    apply (cases status; simp add: update_slot_status_def Let_def lifecycle_def)
   apply (cases status; simp add: update_slot_status_def Let_def lifecycle_def)
  apply (cases status; simp add: update_slot_status_def Let_def)
  done

lemma callback_effect:
  assumes "plugin_callback T D S ser now cb p = Some p'"
  shows "pl_filter_limits p' = pl_filter_limits p \<and>
    pl_grpc_channel p' = pl_grpc_channel p @ geyser_messages (pl_filter_limits p) ser (now, cb) \<and>
    queued (pl_block_reconstruction_channel p') =
      queued (pl_block_reconstruction_channel p) @ lifecycle_messages (now, cb) \<and>
    sender Processed (pl_broadcast_channel p') = sender Processed (pl_broadcast_channel p)"
proof (cases cb)
  case (UpdateSlotStatus slot parent status)
  with assms have "p' = update_slot_status T D now slot parent status p" by (simp add: plugin_callback_def)
  with UpdateSlotStatus show ?thesis by (simp add: slot_status_effect geyser_messages_def lifecycle_messages_def)
next
  case (UpdateAccount info slot is_startup)
  with assms show ?thesis
    by (cases is_startup)
      (auto simp: plugin_callback_def update_account_def geyser_messages_def lifecycle_messages_def try_array_def
        split: versioned.splits option.splits if_splits prod.splits bool.splits bind_splits)
next
  case (NotifyTransaction info slot)
  with assms show ?thesis
    by (auto simp: plugin_callback_def notify_transaction_def geyser_messages_def lifecycle_messages_def
        split: versioned.splits bind_splits)
next
  case (NotifyEntry info)
  with assms show ?thesis
    by (auto simp: plugin_callback_def notify_entry_def geyser_messages_def lifecycle_messages_def
        split: versioned.splits bind_splits)
next
  case (NotifyBlockMetadata info)
  with assms show ?thesis
    by (auto simp: plugin_callback_def notify_block_metadata_def geyser_messages_def lifecycle_messages_def Let_def
        split: versioned.splits)
qed (use assms in \<open>auto simp: plugin_callback_def geyser_messages_def lifecycle_messages_def notify_end_of_startup_def
      notify_deshred_transaction_def send_deshred_message_def notify_contact_info_def notify_contact_info_removed_def
      send_contact_info_message_def split: bind_splits\<close>)

text \<open>The kinds of the messages.\<close>

lemma slot_status_kind:
  "lifecycle status \<Longrightarrow> is_lifecycle (MSlot (MessageSlot_from_geyser now slot parent status))"
  "\<not> lifecycle status \<Longrightarrow> is_live (MSlot (MessageSlot_from_geyser now slot parent status))"
  by (cases status; simp add: is_live_def is_lifecycle_def is_blockmeta_def lifecycle_def MessageSlot_from_geyser_def
      status_of_geyser_def)+

lemma other_kind [simp]: "is_live (MAccount a)" "is_live (MTransaction t)" "is_live (MEntry e)" "is_blockmeta (MBlockMeta b)"
  by (simp_all add: is_live_def is_lifecycle_def is_blockmeta_def)

lemma geyser_messages_kind: "m \<in> set (geyser_messages limits ser (now, cb)) \<Longrightarrow> is_blockmeta m \<or> is_live m"
  by (cases cb) (auto simp: geyser_messages_def slot_status_kind split: versioned.splits bool.splits option.splits if_splits)

lemma lifecycle_messages_kind: "m \<in> set (lifecycle_messages (now, cb)) \<Longrightarrow> is_lifecycle m"
  by (cases cb) (auto simp: lifecycle_messages_def slot_status_kind split: if_splits)

section \<open>The invariant\<close>

lemma kinds: "is_live m \<Longrightarrow> \<not> is_lifecycle m" "is_blockmeta m \<Longrightarrow> \<not> is_lifecycle m" "is_live m \<Longrightarrow> \<not> is_blockmeta m"
  by (auto simp: is_live_def is_lifecycle_def is_blockmeta_def split: Message.splits)

definition sent_messages :: "FilterLimits \<Rightarrow> ('e \<Rightarrow> bytes run) \<Rightarrow> (Timestamp \<times> ('a, 'e) callback) list \<Rightarrow> Message list" where
  "sent_messages limits ser calls = concat (map (geyser_messages limits ser) calls)"

lemma sent_messages_kind: "m \<in> set (sent_messages limits ser calls) \<Longrightarrow> \<not> is_lifecycle m"
  using geyser_messages_kind kinds(1,2) by (fastforce simp: sent_messages_def)

definition server_inv ::
  "('q \<Rightarrow> Message list list) \<Rightarrow> 'b block_machine \<Rightarrow> nat \<Rightarrow> FilterLimits \<Rightarrow> ('e \<Rightarrow> bytes run)
   \<Rightarrow> (Timestamp \<times> ('a, 'e) callback) list \<Rightarrow> BlockReconstructionMessage list
   \<Rightarrow> ('a, 's, 'd, 'q, 'b) Server \<Rightarrow> bool" where
  "server_inv hist B n limits ser calls taken sv \<longleftrightarrow>
     (let p = sv_plugin sv; sent = sent_messages limits ser calls;
          fed = queued taken @ queued (pl_block_reconstruction_channel p) in
      Partitioned_wf n (sv_buffer sv) \<and> Partitioned_contents (sv_buffer sv) = [] \<and>
      vec_items (sv_buffered_messages sv) = [] \<and> storage_reach B (rl_block_machine (sv_reconstruction sv)) \<and>
      pl_filter_limits p = limits \<and>
      filter is_live (concat (hist (sender Processed (pl_broadcast_channel p)))) @ filter is_live (pl_grpc_channel p) =
        filter is_live sent \<and>
      filter (\<lambda>m. \<not> is_lifecycle m) fed @ pl_grpc_channel p = sent \<and>
      filter is_lifecycle fed = concat (map lifecycle_messages calls))"

lemma server_inv_callback:
  assumes "server_inv hist B n limits ser calls taken sv" "plugin_callback T D S ser now cb (sv_plugin sv) = Some p"
  shows "server_inv hist B n limits ser (calls @ [(now, cb)]) taken (sv\<lparr>sv_plugin := p\<rparr>)"
proof -
  have "filter is_live (geyser_messages limits ser (now, cb)) = filter is_live (geyser_messages limits ser (now, cb))" by simp
  have none: "filter (\<lambda>m. \<not> is_lifecycle m) (lifecycle_messages (now, cb)) = []"
    "filter is_lifecycle (lifecycle_messages (now, cb)) = lifecycle_messages (now, cb)"
    using lifecycle_messages_kind by (auto simp: filter_empty_conv filter_id_conv)
  show ?thesis
    using assms(1) callback_effect [OF assms(2)] none
    by (simp add: server_inv_def Let_def sent_messages_def flip: append_assoc)
qed

lemma server_inv_geyser:
  assumes inv: "server_inv hist B (alloc MESSAGE_BATCH_SIZE) limits ser calls taken sv"
    and ok: "receiver_ok R id" "broadcast_ok T hist pos"
  shows "\<exists>sv'. geyser_turn T alloc R sv = Some sv' \<and>
    server_inv hist B (alloc MESSAGE_BATCH_SIZE) limits ser calls taken sv'"
proof -
  let ?p = "sv_plugin sv"
  let ?g = "\<lparr>gl_messages_rx = pl_grpc_channel ?p, gl_buffer = sv_buffer sv,
    gl_broadcast = pl_broadcast_channel ?p, gl_block_reconstruction_tx = []\<rparr>"
  have "geyser_inv hist id (alloc MESSAGE_BATCH_SIZE) (pl_grpc_channel ?p) (pl_broadcast_channel ?p) ?g"
    using inv by (simp add: server_inv_def geyser_inv_def forwarded_def Let_def)
  then obtain flag g where turn: "geyser_poll T alloc R ?g = Some (flag, g)"
      "geyser_inv hist id (alloc MESSAGE_BATCH_SIZE) (pl_grpc_channel ?p) (pl_broadcast_channel ?p) g"
    using geyser_poll_inv [OF _ ok(1,2) refl] by blast
  obtain batches where g: "forwarded g @ gl_messages_rx g = pl_grpc_channel ?p"
      "hist (sender Processed (gl_broadcast g)) = hist (sender Processed (pl_broadcast_channel ?p)) @ batches"
      "concat batches = filter (\<lambda>m. \<not> is_blockmeta m) (forwarded g)"
    using turn(2) by (auto simp: geyser_inv_def)
  have fwd: "queued (gl_block_reconstruction_tx g) = forwarded g" by (simp add: queued_def forwarded_def)
  have live: "filter is_live (concat batches) = filter is_live (forwarded g)"
    unfolding g(3) filter_filter by (rule filter_cong) (use kinds(3) in auto)
  have "filter (\<lambda>m. \<not> is_lifecycle m) (queued taken @ queued (pl_block_reconstruction_channel ?p)) @ pl_grpc_channel ?p =
      sent_messages limits ser calls" using inv by (simp only: server_inv_def Let_def)
  from arg_cong [OF this, of set] have "set (pl_grpc_channel ?p) \<subseteq> set (sent_messages limits ser calls)" by auto
  then have "\<forall>m \<in> set (forwarded g). \<not> is_lifecycle m"
    using sent_messages_kind arg_cong [OF g(1), of set] by fastforce
  then have plain: "filter (\<lambda>m. \<not> is_lifecycle m) (forwarded g) = forwarded g" "filter is_lifecycle (forwarded g) = []"
    by (simp_all add: filter_id_conv filter_empty_conv)
  let ?hist = "concat (hist (sender Processed (pl_broadcast_channel ?p)))" and ?sent = "sent_messages limits ser calls"
  have "filter is_live ?hist @ filter is_live (forwarded g @ gl_messages_rx g) = filter is_live ?sent"
    "filter (\<lambda>m. \<not> is_lifecycle m) (queued taken @ queued (pl_block_reconstruction_channel ?p)) @
       forwarded g @ gl_messages_rx g = ?sent"
    unfolding g(1) using inv by (simp_all only: server_inv_def Let_def)
  then show ?thesis
    using turn(1) turn(2) [unfolded geyser_inv_def] inv [unfolded server_inv_def Let_def] g(2) fwd live plain
    by (simp add: geyser_turn_def Let_def server_inv_def)
qed

lemma published_not_live: "filter is_live (concat (published now Processed ready)) = []"
proof -
  have "is_lifecycle (slot_message now u)" for u
    by (cases "cu_commitment u") (simp_all add: slot_message_def is_lifecycle_def status_of_commitment_def)
  then show ?thesis
    by (cases ready) (auto simp: published_def is_live_def)
qed

lemma server_inv_reconstruction:
  assumes inv: "server_inv hist B n limits ser calls taken sv" and ok: "receiver_ok Q id" "broadcast_ok T hist pos"
    and turn: "reconstruction_turn T Q B now sv = Some sv'"
    and front: "pl_block_reconstruction_channel (sv_plugin sv) = front @ pl_block_reconstruction_channel (sv_plugin sv')"
  shows "server_inv hist B n limits ser calls (taken @ front) sv'"
proof -
  let ?p = "sv_plugin sv"
  obtain res buffered rx where poll: "poll_recv_batch_with_buffer Vec_buffer Q (sv_buffered_messages sv)
      (pl_block_reconstruction_channel ?p) = Some (res, buffered, rx)"
      "vec_items buffered @ rx = vec_items (sv_buffered_messages sv) @ pl_block_reconstruction_channel ?p"
      "case res of
         Ready (Some n) \<Rightarrow> length (vec_items buffered) = length (vec_items (sv_buffered_messages sv)) + n \<and>
           (n = 0 \<longleftrightarrow> \<not> bf_ready Vec_buffer (sv_buffered_messages sv))
       | Ready None \<Rightarrow> buffered = sv_buffered_messages sv \<and> id (pl_block_reconstruction_channel ?p) = []
       | Pending \<Rightarrow> buffered = sv_buffered_messages sv"
    using vec.poll_moves [OF ok(1), of "sv_buffered_messages sv" "pl_block_reconstruction_channel ?p", unfolded id_apply]
    unfolding id_apply by blast
  show ?thesis
  proof (cases "\<exists>k. res = Ready (Some k)")
    case True
    then obtain l where l: "reconstruction_round T B now (vec_items buffered)
          ((sv_reconstruction sv)\<lparr>rl_broadcast := pl_broadcast_channel ?p\<rparr>) = Some l"
        "sv' = sv\<lparr>sv_buffered_messages := buffered\<lparr>vec_items := []\<rparr>, sv_reconstruction := l,
           sv_plugin := ?p\<lparr>pl_block_reconstruction_channel := rx, pl_broadcast_channel := rl_broadcast l\<rparr>\<rparr>"
      using turn poll(1) by (auto simp: reconstruction_turn_def Let_def split: bind_splits)
    have "storage_reach B (rl_block_machine ((sv_reconstruction sv)\<lparr>rl_broadcast := pl_broadcast_channel ?p\<rparr>))"
      using inv by (simp add: server_inv_def Let_def)
    then obtain ready where
        "hist (sender Processed (rl_broadcast l)) =
           hist (sender Processed (pl_broadcast_channel ?p)) @ concat (map (published now Processed) ready)"
        "storage_reach B (rl_block_machine l)"
      using round_publishes [OF l(1) ok(2)] by (metis ReconstructionLoop.select_convs(2) ReconstructionLoop.surjective
          ReconstructionLoop.update_convs(2))
    moreover have "filter is_live (concat (concat (map (published now Processed) ready))) = []"
      using published_not_live by (induction ready) simp_all
    ultimately show ?thesis
      using inv front by (simp add: server_inv_def Let_def l(2))
  next
    case False
    then have same: "buffered = sv_buffered_messages sv" using poll(3) by (auto split: poll.splits option.splits)
    have sv': "sv' = sv\<lparr>sv_buffered_messages := buffered, sv_plugin := ?p\<lparr>pl_block_reconstruction_channel := rx\<rparr>\<rparr>"
      using turn poll(1) False by (auto simp: reconstruction_turn_def Let_def split: bind_splits poll.splits option.splits)
    have "rx = pl_block_reconstruction_channel ?p"
      using poll(2) inv same by (simp add: server_inv_def Let_def)
    with front show ?thesis using inv by (simp add: sv' same)
  qed
qed

lemma server_run_inv:
  assumes "server_run T D S ser alloc R Q B (server_start_state alloc p machine capacity) calls taken sv"
    and ok: "receiver_ok R id" "receiver_ok Q id" "broadcast_ok T hist pos"
    and empty: "pl_grpc_channel p = []" "pl_block_reconstruction_channel p = []"
      "hist (sender Processed (pl_broadcast_channel p)) = []"
  shows "server_inv hist B (alloc MESSAGE_BATCH_SIZE) (pl_filter_limits p) ser calls taken sv"
  using assms(1)
proof induction
  case server_start
  show ?case
    using empty start_reach
    by (simp add: server_inv_def server_start_state_def Let_def sent_messages_def queued_def PartitionedBuffer_new_def
        Partitioned_wf_def Partitioned_contents_def)
next
  case (server_callback calls taken sv now cb p')
  then show ?case using server_inv_callback by blast
next
  case (server_geyser calls taken sv sv')
  then show ?case using server_inv_geyser [OF _ ok(1,3)] by (metis option.inject)
next
  case (server_reconstruction calls taken sv now sv' front)
  then show ?case using server_inv_reconstruction [OF _ ok(2,3)] by blast
qed

section \<open>Properties\<close>

text \<open>C5. From the callbacks to the processed subscribers, however the callbacks and the two loops interleave: what
  the processed channel got so far of accounts, transactions, entries and the slot statuses between the
  commitment levels, followed by what is still queued, is exactly what the callbacks handed over, each once
  and in order; accounts of rejected owners and accounts of the startup are not among them. Block
  reconstruction is handed the same messages together with the block metas in the same order, so a block
  meta never overtakes the data of its block, and every processed, confirmed or finalized status once, in
  order. The geyser loop never panics.\<close>

theorem processed_stream_exact:
  assumes "receiver_ok R id" "receiver_ok Q id" "broadcast_ok T hist pos"
    and "server_run T D S ser alloc R Q B (server_start_state alloc p machine capacity) calls taken sv"
    and "pl_grpc_channel p = []" "pl_block_reconstruction_channel p = []" "hist (sender Processed (pl_broadcast_channel p)) = []"
  shows "let now = sv_plugin sv; sent = concat (map (geyser_messages (pl_filter_limits p) ser) calls);
      fed = queued taken @ queued (pl_block_reconstruction_channel now) in
    filter is_live (concat (hist (sender Processed (pl_broadcast_channel now)))) @ filter is_live (pl_grpc_channel now) =
      filter (\<lambda>m. \<not> is_blockmeta m) sent \<and>
    filter (\<lambda>m. \<not> is_lifecycle m) fed @ pl_grpc_channel now = sent \<and>
    filter is_lifecycle fed = concat (map lifecycle_messages calls) \<and>
    geyser_turn T alloc R sv \<noteq> None"
proof -
  note inv = server_run_inv [OF assms(4,1-3,5-7)]
  let ?sent = "sent_messages (pl_filter_limits p) ser calls"
  have "filter is_live ?sent = filter (\<lambda>m. \<not> is_blockmeta m) ?sent"
    using geyser_messages_kind kinds(3) by (intro filter_cong) (fastforce simp: sent_messages_def)+
  moreover obtain sv' where "geyser_turn T alloc R sv = Some sv'"
    using server_inv_geyser [where hist = hist and alloc = alloc and R = R and T = T, OF inv assms(1,3)] by blast
  ultimately show ?thesis using inv
    by (simp add: server_inv_def Let_def sent_messages_def)
qed

section \<open>Witness\<close>

definition toy_plugin :: "(unit, Message list \<times> nat, Message list \<times> nat, Message list list \<times> nat) PluginInner" where
  "toy_plugin =
     \<lparr>pl_snapshot_channel = None, pl_snapshot_channel_closed = False, pl_filter_limits = FilterLimits_default,
      pl_grpc_channel = [], pl_deshred_channel = ([], 4), pl_contact_info_channel = [],
      pl_block_reconstruction_channel = [], pl_broadcast_channel = toy_channels, pl_blocks_meta_tx = None\<rparr>"

definition toy_called :: "(unit, Message list \<times> nat, Message list \<times> nat, Message list list \<times> nat) PluginInner" where
  "toy_called = update_slot_status ring ring noon 9 None (GDead ''fork'') toy_plugin"

abbreviation toy_server ::
  "(unit, Message list \<times> nat, Message list \<times> nat, Message list list \<times> nat, BlockStateMachineOutput list) Server" where
  "toy_server \<equiv> server_start_state id toy_plugin [] 1"

lemma toy_callback: "plugin_callback ring ring room_sender (\<lambda>e :: nat. Some [])
     noon (UpdateSlotStatus 9 None (GDead ''fork'')) (sv_plugin toy_server) = Some toy_called"
  by (simp add: plugin_callback_def toy_called_def server_start_state_def)

theorem processed_stream_exact_witness:
  "\<exists>sv. geyser_turn ring id list_receiver (toy_server\<lparr>sv_plugin := toy_called\<rparr>) = Some sv \<and>
     filter is_live (concat (fst (sender Processed (pl_broadcast_channel (sv_plugin sv))))) @
     filter is_live (pl_grpc_channel (sv_plugin sv)) =
       [MSlot (MessageSlot_from_geyser noon 9 None (GDead ''fork''))]"
proof -
  have empty: "pl_grpc_channel toy_plugin = []" "pl_block_reconstruction_channel toy_plugin = []"
      "fst (sender Processed (pl_broadcast_channel toy_plugin)) = []"
    by (simp_all add: toy_plugin_def toy_channels_empty)
  let ?calls = "[(noon, UpdateSlotStatus 9 None (GDead ''fork'') :: (unit, nat) callback)]"
  have called: "server_run ring ring room_sender (\<lambda>_. Some []) id list_receiver list_receiver echo_machine toy_server
      ?calls [] (toy_server\<lparr>sv_plugin := toy_called\<rparr>)"
    using server_callback [OF server_start toy_callback] by simp
  have "geyser_turn ring id list_receiver (toy_server\<lparr>sv_plugin := toy_called\<rparr>) \<noteq> None"
    using processed_stream_exact [OF list_receiver_ok list_receiver_ok ring_ok(1) called empty] by (simp add: Let_def)
  then obtain sv where sv: "geyser_turn ring id list_receiver (toy_server\<lparr>sv_plugin := toy_called\<rparr>) = Some sv" by blast
  from processed_stream_exact [OF list_receiver_ok list_receiver_ok ring_ok(1) server_geyser [OF called sv] empty]
  have "filter is_live (concat (fst (sender Processed (pl_broadcast_channel (sv_plugin sv))))) @
     filter is_live (pl_grpc_channel (sv_plugin sv)) =
       [MSlot (MessageSlot_from_geyser noon 9 None (GDead ''fork''))]"
    by (simp add: Let_def geyser_messages_def lifecycle_def is_blockmeta_def)
  with sv show ?thesis by blast
qed

end
