(* ===== verification/Server_Auth.thy ===== *)
theory Server_Auth
  imports Channels
begin

text \<open>
  Who a request comes from: the repositories of subscriptions (\<^verbatim>\<open>yellowstone-grpc-geyser/src/auth.rs\<close>),
  the cache in front of the remote one (\<^verbatim>\<open>cache_ext.rs\<close>) and the service that lets only authenticated
  requests through (\<^verbatim>\<open>yellowstone-grpc-tools/src/server/tonic/auth/service.rs\<close>). The HTTP client, the
  cache of the crate \<^verbatim>\<open>moka\<close>, the inner service and the futures are parameters that act on a world \<open>'w\<close>.
\<close>

section \<open>Requests\<close>

record SubscriptionRateLimits =
  rl_default :: i32
  rl_methods :: "string \<Rightarrow> i32 option"

record SubscriptionInfo =
  sb_subscription_id :: string
  sb_ratelimits :: "SubscriptionRateLimits option"

text \<open>The head of an \<open>http::Request\<close>: the host and the path and query of its URI, \<open>headers.get\<close>, and the extension
  that authentication leaves.\<close>

record Parts =
  pa_host :: "string option"
  pa_path_and_query :: "(string \<times> string) option"
  pa_header :: "string \<Rightarrow> bytes option"
  pa_subscription :: "SubscriptionInfo option"

text \<open>\<open>uri.path()\<close>\<close>

definition uri_path :: "Parts \<Rightarrow> string" where
  "uri_path parts = (case pa_path_and_query parts of None \<Rightarrow> [] | Some (path, _) \<Rightarrow> path)"

text \<open>A \<open>PathName\<close> is compared and hashed by its path alone.\<close>

definition PathName_from :: "string \<times> string \<Rightarrow> string" where
  "PathName_from path_and_query = fst path_and_query"

text \<open>\<open>HeaderValue::to_str\<close>: visible ASCII and tabs.\<close>

definition to_str :: "bytes \<Rightarrow> string option" where
  "to_str value =
     (if list_all (\<lambda>b. 32 \<le> b \<and> b < 127 \<or> b = 9) value then Some (map (\<lambda>b. char_of (unat b)) value) else None)"

section \<open>Repositories of subscriptions\<close>

definition default_rate_limit :: i32 where
  "default_rate_limit = 1000"

definition SubscriptionRateLimits_default :: SubscriptionRateLimits where
  "SubscriptionRateLimits_default =
     \<lparr>rl_default = default_rate_limit,
      rl_methods = map_of
        [(''/geyser.Geyser/Subscribe'', 1000), (''/geyser.Geyser/SubscribeReplayInfo'', 1000),
         (''/geyser.Geyser/Ping'', 1000), (''/geyser.Geyser/GetLatestBlockhash'', 1000),
         (''/geyser.Geyser/GetBlockHeight'', 1000), (''/geyser.Geyser/GetSlot'', 1000),
         (''/geyser.Geyser/IsBlockhashValid'', 1000), (''/geyser.Geyser/GetVersion'', 1000)]\<rparr>"

subsection \<open>The constant repository\<close>

record SubscriptionKey =
  sy_token :: string
  sy_host :: string

type_synonym ConstantSubscriptionRepository = "string \<Rightarrow> (string \<Rightarrow> SubscriptionInfo option) option"

fun create_from_iter_loop ::
  "(SubscriptionKey \<times> SubscriptionInfo) list \<Rightarrow> ConstantSubscriptionRepository \<Rightarrow> ConstantSubscriptionRepository" where
  "create_from_iter_loop [] nested = nested"
| "create_from_iter_loop ((key, info) # rest) nested =
     (let by_token = (case nested (sy_host key) of None \<Rightarrow> Map.empty | Some m \<Rightarrow> m)
      in create_from_iter_loop rest (nested(sy_host key \<mapsto> by_token(sy_token key \<mapsto> info))))"

definition create_from_iter :: "(SubscriptionKey \<times> SubscriptionInfo) list \<Rightarrow> ConstantSubscriptionRepository" where
  "create_from_iter entries = create_from_iter_loop entries Map.empty"

record TokenSubscriptionInfoMapping =
  tm_token :: string
  tm_host :: string
  tm_subscription_info :: SubscriptionInfo

text \<open>\<open>FileBackedAuthConfig::build_repository\<close>, of what the file is read and parsed to.\<close>

definition file_build_repository ::
  "'io + 'text \<Rightarrow> ('text \<Rightarrow> 'json + TokenSubscriptionInfoMapping list) \<Rightarrow> ('io + 'json) + ConstantSubscriptionRepository" where
  "file_build_repository content parse =
     (case content of
        Inl e \<Rightarrow> Inl (Inl e)
      | Inr text \<Rightarrow> (case parse text of
            Inl e \<Rightarrow> Inl (Inr e)
          | Inr mappings \<Rightarrow>
              Inr (create_from_iter (map (\<lambda>m. (\<lparr>sy_token = tm_token m, sy_host = tm_host m\<rparr>, tm_subscription_info m)) mappings))))"

definition constant_get :: "ConstantSubscriptionRepository \<Rightarrow> string \<Rightarrow> string \<Rightarrow> SubscriptionInfo option" where
  "constant_get repository host token = (case repository host of None \<Rightarrow> None | Some by_token \<Rightarrow> by_token token)"

definition constant_authenticate :: "ConstantSubscriptionRepository \<Rightarrow> Parts \<Rightarrow> SubscriptionInfo option" where
  "constant_authenticate repository parts =
     (let token = (case pa_header parts ''x-token'' of None \<Rightarrow> None | Some v \<Rightarrow> to_str v)
      in case pa_host parts of
           None \<Rightarrow> None
         | Some host \<Rightarrow> (case token of None \<Rightarrow> None | Some t \<Rightarrow> constant_get repository host t))"

subsection \<open>Trusted metadata\<close>

definition X_SUBSCRIPTION_ID_HEADER :: string where
  "X_SUBSCRIPTION_ID_HEADER = ''x-subscription-id''"

definition TrustedMetadataAuthenticator_new :: "(string \<times> i32) list \<Rightarrow> SubscriptionRateLimits" where
  "TrustedMetadataAuthenticator_new default_ratelimits =
     SubscriptionRateLimits_default\<lparr>rl_methods := map_of (rev default_ratelimits)\<rparr>"

definition trusted_authenticate :: "SubscriptionRateLimits \<Rightarrow> Parts \<Rightarrow> SubscriptionInfo option" where
  "trusted_authenticate default_ratelimits parts =
     (case (case pa_header parts X_SUBSCRIPTION_ID_HEADER of None \<Rightarrow> None | Some v \<Rightarrow> to_str v) of
        None \<Rightarrow> None
      | Some subscription_id \<Rightarrow>
          Some \<lparr>sb_subscription_id = subscription_id, sb_ratelimits = Some default_ratelimits\<rparr>)"

subsection \<open>The cache\<close>

text \<open>
  \<open>mo_get\<close> is \<open>optionally_get_with\<close> of one key: it runs the initializer, or waits for one that another caller
  runs, and caches a value. The initializer reports to its tracker that it was called, and its error.
\<close>

record 'e CacheCallTracker =
  cc_called :: bool
  cc_error :: "'e option"

type_synonym ('v, 'e, 'w) initializer = "'w \<Rightarrow> 'v option \<times> 'e CacheCallTracker \<times> 'w"

record ('k, 'v, 'e, 'w) moka =
  mo_get :: "'k \<Rightarrow> ('v, 'e, 'w) initializer \<Rightarrow> 'e CacheCallTracker \<Rightarrow> 'w \<Rightarrow> 'v option \<times> 'e CacheCallTracker \<times> 'w"

definition tracked :: "('w \<Rightarrow> ('e + 'v option) \<times> 'w) \<Rightarrow> ('v, 'e, 'w) initializer" where
  "tracked future w =
     (case future w of
        (Inr value, w1) \<Rightarrow> (value, \<lparr>cc_called = True, cc_error = None\<rparr>, w1)
      | (Inl e, w1) \<Rightarrow> (None, \<lparr>cc_called = True, cc_error = Some e\<rparr>, w1))"

text \<open>The loop with the number of attempts that are left after this one.\<close>

fun try_get_loop ::
  "('k, 'v, 'e, 'w) moka \<Rightarrow> 'k \<Rightarrow> ('w \<Rightarrow> ('e + 'v option) \<times> 'w) \<Rightarrow> nat \<Rightarrow> 'w \<Rightarrow> ('e + 'v option) \<times> 'w" where
  "try_get_loop G key future left w =
     (case mo_get G key (tracked future) \<lparr>cc_called = False, cc_error = None\<rparr> w of
        (Some value, _, w1) \<Rightarrow> (Inr (Some value), w1)
      | (None, tracker, w1) \<Rightarrow>
          if cc_called tracker then
            (case cc_error tracker of Some e \<Rightarrow> (Inl e, w1) | None \<Rightarrow> (Inr None, w1))
          else (case left of 0 \<Rightarrow> (Inr None, w1) | Suc n \<Rightarrow> try_get_loop G key future n w1))"

declare try_get_loop.simps [simp del]

definition try_optionally_get_with ::
  "('k, 'v, 'e, 'w) moka \<Rightarrow> 'k \<Rightarrow> nat \<Rightarrow> ('w \<Rightarrow> ('e + 'v option) \<times> 'w) \<Rightarrow> 'w \<Rightarrow> ('e + 'v option) \<times> 'w" where
  "try_optionally_get_with G key max_loop_iterations future w =
     try_get_loop G key future (max max_loop_iterations 1 - 1) w"

subsection \<open>The remote repository\<close>

text \<open>\<open>hc_send\<close> sends a request for a host with headers and turns error statuses into errors; \<open>hc_status\<close> is the
  status of such an error, \<open>hc_json\<close> decodes a body.\<close>

record ('r, 'e, 'w) http_client =
  hc_send :: "string \<Rightarrow> (string \<times> bytes) list \<Rightarrow> 'w \<Rightarrow> ('e + 'r) \<times> 'w"
  hc_status :: "'e \<Rightarrow> nat option"
  hc_json :: "'r \<Rightarrow> 'e + SubscriptionInfo"

record ('e, 'w) HttpSubscriptionRepository =
  hs_cache :: "(string, SubscriptionInfo, 'e, 'w) moka option"
  hs_forwarded_headers :: "string list"

text \<open>The loop over the forwarded headers: the parts of the caching key, and the headers to send. A value that is not
  text panics.\<close>

fun forward_headers :: "(string \<Rightarrow> bytes option) \<Rightarrow> string list \<Rightarrow> (string list \<times> (string \<times> bytes) list) run" where
  "forward_headers headers [] = Some ([], [])"
| "forward_headers headers (name # names) =
     (case headers name of
        None \<Rightarrow> forward_headers headers names
      | Some value \<Rightarrow> do {
          text \<leftarrow> to_str value;
          (parts, sent) \<leftarrow> forward_headers headers names;
          Some (name # text # parts, hmap_insert name value sent)
        })"

text \<open>\<open>parts.join("\0")\<close>\<close>

fun join_nul :: "string list \<Rightarrow> string" where
  "join_nul [] = []"
| "join_nul [part] = part"
| "join_nul (part # parts) = part @ CHR 0x00 # join_nul parts"

definition resolve_subscription ::
  "('r, 'e, 'w) http_client \<Rightarrow> string \<Rightarrow> (string \<times> bytes) list \<Rightarrow> 'w \<Rightarrow> ('e + SubscriptionInfo option) \<times> 'w" where
  "resolve_subscription H host sent w =
     (case hc_send H host sent w of
        (Inr response, w1) \<Rightarrow> ((case hc_json H response of Inl e \<Rightarrow> Inl e | Inr info \<Rightarrow> Inr (Some info)), w1)
      | (Inl e, w1) \<Rightarrow> ((if hc_status H e = Some 404 then Inr None else Inl e), w1))"

definition get_subscription_info ::
  "('r, 'e, 'w) http_client \<Rightarrow> ('e, 'w) HttpSubscriptionRepository \<Rightarrow> string \<Rightarrow> (string \<Rightarrow> bytes option)
   \<Rightarrow> ('w \<Rightarrow> ('e + SubscriptionInfo option) \<times> 'w) run" where
  "get_subscription_info H repository host headers =
     do {
       (parts, sent) \<leftarrow> forward_headers headers (hs_forwarded_headers repository);
       (let caching_key = join_nul (host # parts);
            future = resolve_subscription H host sent
        in Some (case hs_cache repository of
             Some cache \<Rightarrow> try_optionally_get_with cache caching_key 10 future
           | None \<Rightarrow> future))
     }"

definition http_authenticate ::
  "('r, 'e, 'w) http_client \<Rightarrow> ('e, 'w) HttpSubscriptionRepository \<Rightarrow> Parts
   \<Rightarrow> ('w \<Rightarrow> ('e + SubscriptionInfo option) \<times> 'w) run" where
  "http_authenticate H repository parts =
     (case pa_host parts of
        None \<Rightarrow> Some (\<lambda>w. (Inr None, w))
      | Some host \<Rightarrow> get_subscription_info H repository host (pa_header parts))"

end
