(* ===== verification/Auth_Guard.thy ===== *)
theory Auth_Guard
  imports Server_Auth
begin

text \<open>
  \<open>AuthGuardedService\<close> (\<^verbatim>\<open>yellowstone-grpc-tools/src/server/tonic/auth/service.rs\<close>): the clones of the
  service share a semaphore and the inner service; each call makes a future that authenticates, waits for the
  inner service and calls it. The authentication future, the inner service and its futures are parameters.
\<close>

section \<open>Responses\<close>

record GrpcError =
  ge_code :: Code
  ge_http_status :: nat

definition grpc_error_response :: "Code \<Rightarrow> nat \<Rightarrow> GrpcError" where
  "grpc_error_response code status = \<lparr>ge_code = code, ge_http_status = status\<rparr>"

section \<open>The future of a call\<close>

text \<open>What the guard is built over: polling an authentication future, and the inner service with its futures.\<close>

record ('af, 'ae, 's, 'b, 'sf, 'resp, 'e, 'w) guarded =
  gd_authenticate :: "Parts \<Rightarrow> 'w \<Rightarrow> 'af run \<times> 'w"
  gd_poll_auth :: "'af \<Rightarrow> 'w \<Rightarrow> ('ae + SubscriptionInfo option) poll \<times> 'af \<times> 'w"
  gd_poll_ready :: "'s \<Rightarrow> 'w \<Rightarrow> ('e + unit) poll \<times> 's \<times> 'w"
  gd_call :: "Parts \<times> 'b \<Rightarrow> 's \<Rightarrow> 'w \<Rightarrow> 'sf \<times> 's \<times> 'w"
  gd_poll_inner :: "'sf \<Rightarrow> 'w \<Rightarrow> ('e + 'resp) poll \<times> 'sf \<times> 'w"

text \<open>The permit of a future is present or was released.\<close>

datatype ('af, 'b, 'sf, 'resp, 'e) AuthGuardFuture =
    Authenticating 'af "(Parts \<times> 'b) option" bool
  | PollingService bool "(Parts \<times> 'b) option"
  | CallingInner 'sf
  | Denied "('e + (GrpcError + 'resp)) option"

text \<open>\<open>true\<close> for a future that holds a permit of the semaphore\<close>

fun holds_permit :: "('af, 'b, 'sf, 'resp, 'e) AuthGuardFuture \<Rightarrow> bool" where
  "holds_permit (Authenticating _ _ permit) = permit"
| "holds_permit (PollingService permit _) = permit"
| "holds_permit (CallingInner _) = False"
| "holds_permit (Denied _) = False"

text \<open>After a successful authentication, and while waiting: ask the inner service, and call it when it is ready. The
  permit is released unless the inner service is pending.\<close>

definition enter_service ::
  "('af, 'ae, 's, 'b, 'sf, 'resp, 'e, 'w) guarded \<Rightarrow> Parts \<times> 'b \<Rightarrow> 's \<Rightarrow> 'w
   \<Rightarrow> ('af, 'b, 'sf, 'resp, 'e) AuthGuardFuture \<times> 's \<times> 'w" where
  "enter_service G request s w =
     (case gd_poll_ready G s w of
        (Pending, s1, w1) \<Rightarrow> (PollingService True (Some request), s1, w1)
      | (Ready (Inr _), s1, w1) \<Rightarrow>
          (case gd_call G request s1 w1 of (inner_fut, s2, w2) \<Rightarrow> (CallingInner inner_fut, s2, w2))
      | (Ready (Inl e), s1, w1) \<Rightarrow> (Denied (Some (Inr (Inl (grpc_error_response Internal 500)))), s1, w1))"

text \<open>\<open>poll\<close> goes through at most one transition of each kind, so its loop runs at most four times.\<close>

definition poll_calling ::
  "('af, 'ae, 's, 'b, 'sf, 'resp, 'e, 'w) guarded \<Rightarrow> 'sf \<Rightarrow> 's \<Rightarrow> 'w
   \<Rightarrow> ('e + (GrpcError + 'resp)) poll \<times> ('af, 'b, 'sf, 'resp, 'e) AuthGuardFuture \<times> 's \<times> 'w" where
  "poll_calling G inner_fut s w =
     (case gd_poll_inner G inner_fut w of
        (Pending, f, w1) \<Rightarrow> (Pending, CallingInner f, s, w1)
      | (Ready (Inr response), f, w1) \<Rightarrow> (Ready (Inr (Inr response)), CallingInner f, s, w1)
      | (Ready (Inl e), f, w1) \<Rightarrow> (Ready (Inl e), CallingInner f, s, w1))"

definition attach :: "SubscriptionInfo \<Rightarrow> Parts \<times> 'b \<Rightarrow> Parts \<times> 'b" where
  "attach info request = ((fst request)\<lparr>pa_subscription := Some info\<rparr>, snd request)"

fun guard_loop ::
  "('af, 'ae, 's, 'b, 'sf, 'resp, 'e, 'w) guarded \<Rightarrow> nat \<Rightarrow> ('af, 'b, 'sf, 'resp, 'e) AuthGuardFuture \<Rightarrow> 's \<Rightarrow> 'w
   \<Rightarrow> (('e + (GrpcError + 'resp)) poll \<times> ('af, 'b, 'sf, 'resp, 'e) AuthGuardFuture \<times> 's \<times> 'w) run" where
  "guard_loop G fuel f s w =
     (case fuel of
        0 \<Rightarrow> None
      | Suc n \<Rightarrow>
          (case f of
             Authenticating auth_fut request permit \<Rightarrow>
               (case gd_poll_auth G auth_fut w of
                  (Pending, af, w1) \<Rightarrow> Some (Pending, Authenticating af request permit, s, w1)
                | (Ready (Inr None), _, w1) \<Rightarrow>
                    guard_loop G n (Denied (Some (Inr (Inl (grpc_error_response Unauthenticated 401))))) s w1
                | (Ready (Inr (Some info)), _, w1) \<Rightarrow>
                    if \<not> permit then None
                    else (case request of
                            None \<Rightarrow> None
                          | Some req \<Rightarrow> (case enter_service G (attach info req) s w1 of
                              (f1, s1, w2) \<Rightarrow> guard_loop G n f1 s1 w2))
                | (Ready (Inl e), _, w1) \<Rightarrow>
                    guard_loop G n (Denied (Some (Inr (Inl (grpc_error_response Internal 500))))) s w1)
           | PollingService permit request \<Rightarrow>
               if \<not> permit then None
               else (case gd_poll_ready G s w of
                       (Pending, s1, w1) \<Rightarrow> Some (Pending, f, s1, w1)
                     | (Ready (Inr _), s1, w1) \<Rightarrow>
                         (case request of
                            None \<Rightarrow> None
                          | Some req \<Rightarrow> (case gd_call G req s1 w1 of
                              (inner_fut, s2, w2) \<Rightarrow> guard_loop G n (CallingInner inner_fut) s2 w2))
                     | (Ready (Inl e), s1, w1) \<Rightarrow>
                         guard_loop G n (Denied (Some (Inr (Inl (grpc_error_response Internal 500))))) s1 w1)
           | CallingInner inner_fut \<Rightarrow> Some (poll_calling G inner_fut s w)
           | Denied result \<Rightarrow> (case result of None \<Rightarrow> None | Some r \<Rightarrow> Some (Ready r, Denied None, s, w))))"

declare guard_loop.simps [simp del]

section \<open>The service\<close>

text \<open>The state that the clones share: the permits that are left, the inner service, and the world. A clone has
  acquired a permit or not; a future that returned a result, or was dropped, is \<open>None\<close>. \<open>gs_submitted\<close> records the
  requests of all calls.\<close>

record ('af, 's, 'b, 'sf, 'resp, 'e, 'w) GuardSystem =
  gs_permits :: nat
  gs_clones :: "bool list"
  gs_futures :: "('af, 'b, 'sf, 'resp, 'e) AuthGuardFuture option list"
  gs_inner :: 's
  gs_world :: 'w
  gs_submitted :: "(Parts \<times> 'b) list"

definition AuthGuardedService_new ::
  "nat \<Rightarrow> 's \<Rightarrow> 'w \<Rightarrow> ('af, 's, 'b, 'sf, 'resp, 'e, 'w) GuardSystem" where
  "AuthGuardedService_new concurrent_auth_limit inner w =
     \<lparr>gs_permits = concurrent_auth_limit, gs_clones = [False], gs_futures = [], gs_inner = inner, gs_world = w,
      gs_submitted = []\<rparr>"

definition service_clone ::
  "('af, 's, 'b, 'sf, 'resp, 'e, 'w) GuardSystem \<Rightarrow> ('af, 's, 'b, 'sf, 'resp, 'e, 'w) GuardSystem" where
  "service_clone g = g\<lparr>gs_clones := gs_clones g @ [False]\<rparr>"

definition service_poll_ready ::
  "nat \<Rightarrow> ('af, 's, 'b, 'sf, 'resp, 'e, 'w) GuardSystem \<Rightarrow> unit poll \<times> ('af, 's, 'b, 'sf, 'resp, 'e, 'w) GuardSystem" where
  "service_poll_ready i g =
     (if gs_clones g ! i then (Ready (), g)
      else if gs_permits g = 0 then (Pending, g)
      else (Ready (), g\<lparr>gs_permits := gs_permits g - 1, gs_clones := (gs_clones g)[i := True]\<rparr>))"

text \<open>\<open>authenticate\<close> may panic, which drops the permit.\<close>

definition service_call ::
  "('af, 'ae, 's, 'b, 'sf, 'resp, 'e, 'w) guarded \<Rightarrow> nat \<Rightarrow> Parts \<times> 'b
   \<Rightarrow> ('af, 's, 'b, 'sf, 'resp, 'e, 'w) GuardSystem \<Rightarrow> ('af, 's, 'b, 'sf, 'resp, 'e, 'w) GuardSystem run" where
  "service_call G i request g =
     (if \<not> gs_clones g ! i then None
      else (case gd_authenticate G (fst request) (gs_world g) of
              (None, w1) \<Rightarrow>
                Some (g\<lparr>gs_permits := gs_permits g + 1, gs_clones := (gs_clones g)[i := False], gs_world := w1,
                        gs_futures := gs_futures g @ [None], gs_submitted := gs_submitted g @ [request]\<rparr>)
            | (Some auth_fut, w1) \<Rightarrow>
                Some (g\<lparr>gs_clones := (gs_clones g)[i := False], gs_world := w1,
                        gs_futures := gs_futures g @ [Some (Authenticating auth_fut (Some request) True)],
                        gs_submitted := gs_submitted g @ [request]\<rparr>)))"

definition future_permits :: "('af, 'b, 'sf, 'resp, 'e) AuthGuardFuture option \<Rightarrow> nat" where
  "future_permits f = (case f of None \<Rightarrow> 0 | Some f \<Rightarrow> if holds_permit f then 1 else 0)"

definition future_drop ::
  "nat \<Rightarrow> ('af, 's, 'b, 'sf, 'resp, 'e, 'w) GuardSystem \<Rightarrow> ('af, 's, 'b, 'sf, 'resp, 'e, 'w) GuardSystem" where
  "future_drop j g =
     g\<lparr>gs_permits := gs_permits g + future_permits (gs_futures g ! j), gs_futures := (gs_futures g)[j := None]\<rparr>"

definition clone_drop ::
  "nat \<Rightarrow> ('af, 's, 'b, 'sf, 'resp, 'e, 'w) GuardSystem \<Rightarrow> ('af, 's, 'b, 'sf, 'resp, 'e, 'w) GuardSystem" where
  "clone_drop i g =
     g\<lparr>gs_permits := gs_permits g + (if gs_clones g ! i then 1 else 0), gs_clones := (gs_clones g)[i := False]\<rparr>"

text \<open>Polling a future; a permit that it no longer holds is back.\<close>

definition future_poll ::
  "('af, 'ae, 's, 'b, 'sf, 'resp, 'e, 'w) guarded \<Rightarrow> nat \<Rightarrow> ('af, 's, 'b, 'sf, 'resp, 'e, 'w) GuardSystem
   \<Rightarrow> (('e + (GrpcError + 'resp)) poll \<times> ('af, 's, 'b, 'sf, 'resp, 'e, 'w) GuardSystem) run" where
  "future_poll G j g =
     (case gs_futures g ! j of
        None \<Rightarrow> None
      | Some f \<Rightarrow> do {
          (res, f1, s1, w1) \<leftarrow> guard_loop G 4 f (gs_inner g) (gs_world g);
          (let rest = (case res of Ready _ \<Rightarrow> None | Pending \<Rightarrow> Some f1)
           in Some (res, g\<lparr>gs_permits := gs_permits g + future_permits (Some f) - future_permits rest,
                           gs_futures := (gs_futures g)[j := rest], gs_inner := s1, gs_world := w1\<rparr>))
        })"

section \<open>Runs\<close>

text \<open>Any interleaving of the operations on clones and futures. A clone is only called when it is ready, and a future
  not polled after its result, as the contracts of \<open>Service\<close> and \<open>Future\<close> require.\<close>

inductive guard_run ::
  "('af, 'ae, 's, 'b, 'sf, 'resp, 'e, 'w) guarded \<Rightarrow> nat \<Rightarrow> 's \<Rightarrow> 'w
   \<Rightarrow> ('af, 's, 'b, 'sf, 'resp, 'e, 'w) GuardSystem \<Rightarrow> bool" for G limit s0 w0 where
  guard_new: "guard_run G limit s0 w0 (AuthGuardedService_new limit s0 w0)"
| guard_clone: "guard_run G limit s0 w0 g \<Longrightarrow> guard_run G limit s0 w0 (service_clone g)"
| guard_ready: "guard_run G limit s0 w0 g \<Longrightarrow> i < length (gs_clones g) \<Longrightarrow> service_poll_ready i g = (res, g1) \<Longrightarrow>
    guard_run G limit s0 w0 g1"
| guard_call: "guard_run G limit s0 w0 g \<Longrightarrow> i < length (gs_clones g) \<Longrightarrow> service_call G i request g = Some g1 \<Longrightarrow>
    guard_run G limit s0 w0 g1"
| guard_poll: "guard_run G limit s0 w0 g \<Longrightarrow> j < length (gs_futures g) \<Longrightarrow> future_poll G j g = Some (res, g1) \<Longrightarrow>
    guard_run G limit s0 w0 g1"
| guard_drop_future: "guard_run G limit s0 w0 g \<Longrightarrow> j < length (gs_futures g) \<Longrightarrow>
    guard_run G limit s0 w0 (future_drop j g)"
| guard_drop_clone: "guard_run G limit s0 w0 g \<Longrightarrow> i < length (gs_clones g) \<Longrightarrow>
    guard_run G limit s0 w0 (clone_drop i g)"

end
