(* ===== verification/Auth_Claims.thy ===== *)
theory Auth_Claims
  imports Auth_Guard
begin

text \<open>
  What authentication guarantees: the caching key identifies what is asked of the remote repository, the
  constant repository answers with the last entry of its file, and behind the guard the inner service only
  sees requests that were granted, each at most once, with the permits of the semaphore conserved.
\<close>

section \<open>The caching key\<close>

abbreviation nul_free :: "string \<Rightarrow> bool" where
  "nul_free s \<equiv> CHR 0x00 \<notin> set s"

lemma join_nul_prefix:
  assumes "nul_free a" "nul_free b" "a @ CHR 0x00 # xs = b @ CHR 0x00 # ys"
  shows "a = b \<and> xs = ys"
  using assms
proof (induction a arbitrary: b)
  case Nil
  then show ?case by (cases b) auto
next
  case (Cons c a)
  then show ?case by (cases b) auto
qed

lemma join_nul_inj:
  "list_all nul_free xs \<Longrightarrow> list_all nul_free ys \<Longrightarrow> join_nul (x # xs) = join_nul (y # ys) \<Longrightarrow>
   nul_free x \<Longrightarrow> nul_free y \<Longrightarrow> x # xs = y # ys"
proof (induction xs arbitrary: x y ys)
  case Nil
  then show ?case by (cases ys) auto
next
  case (Cons x2 xs)
  then obtain y2 ys2 where ys: "ys = y2 # ys2" by (cases ys) auto
  have "x = y \<and> join_nul (x2 # xs) = join_nul (y2 # ys2)"
    using Cons.prems ys by (intro join_nul_prefix) simp_all
  with Cons.IH [of ys2 x2 y2] Cons.prems ys show ?case by simp
qed

lemma to_str_inj: "to_str v = Some t \<Longrightarrow> to_str w = Some t \<Longrightarrow> v = w"
proof -
  have inj: "inj (\<lambda>b :: u8. char_of (unat b) :: char)"
  proof (rule injI)
    fix a b :: u8
    assume "(char_of (unat a) :: char) = char_of (unat b)"
    then have "(of_char (char_of (unat a) :: char) :: nat) = of_char (char_of (unat b) :: char)" by simp
    moreover have "unat a < 256" "unat b < 256" using unsigned_less [of a] unsigned_less [of b] by simp_all
    ultimately show "a = b" by (simp add: word_unat_eq_iff)
  qed
  assume "to_str v = Some t" "to_str w = Some t"
  then have "map (\<lambda>b. char_of (unat b)) v = map (\<lambda>b. char_of (unat b) :: char) w"
    by (auto simp: to_str_def split: if_splits)
  then show "v = w" using inj by (simp add: inj_map_eq_map)
qed

lemma to_str_nul_free:
  assumes "to_str v = Some t"
  shows "nul_free t"
proof -
  have "char_of (unat b) \<noteq> CHR 0x00" if "b \<in> set v" for b :: u8
  proof
    assume "char_of (unat b) = CHR 0x00"
    then have "(of_char (char_of (unat b) :: char) :: nat) = of_char (CHR 0x00)" by simp
    moreover have "unat b < 256" using unsigned_less [of b] by simp
    ultimately have "b = 0" by (simp add: unat_eq_0)
    then show False using assms that by (auto simp: to_str_def list_all_iff split: if_splits)
  qed
  moreover have "t = map (\<lambda>b. char_of (unat b)) v" using assms by (simp add: to_str_def split: if_splits)
  ultimately show ?thesis by (metis (no_types, lifting) imageE set_map)
qed

lemma forward_Cons:
  "forward_headers headers (name # names) = Some (parts, sent) \<longleftrightarrow>
     (case headers name of
        None \<Rightarrow> forward_headers headers names = Some (parts, sent)
      | Some v \<Rightarrow> (\<exists>t ps s. to_str v = Some t \<and> forward_headers headers names = Some (ps, s) \<and>
          parts = name # t # ps \<and> sent = hmap_insert name v s))"
  by (auto split: option.split Option.bind_splits)

lemma forward_parts:
  assumes "forward_headers headers names = Some (parts, sent)" "list_all nul_free names"
  shows "list_all nul_free parts \<and> (case parts of [] \<Rightarrow> True | p # _ \<Rightarrow> p \<in> set names)"
  using assms
proof (induction names arbitrary: parts sent)
  case (Cons name names)
  show ?case
  proof (cases "headers name")
    case None
    then have "forward_headers headers names = Some (parts, sent)" using Cons.prems(1) unfolding forward_Cons by simp
    from Cons.IH [OF this] Cons.prems(2) show ?thesis by (auto split: list.splits)
  next
    case (Some v)
    then obtain t ps s where "to_str v = Some t" "forward_headers headers names = Some (ps, s)" "parts = name # t # ps"
      using Cons.prems(1) unfolding forward_Cons by auto
    with Cons.IH Cons.prems(2) to_str_nul_free show ?thesis by simp
  qed
qed simp

lemma forward_determined:
  assumes "forward_headers h1 names = Some (parts, sent1)" "forward_headers h2 names = Some (parts, sent2)"
    and "list_all nul_free names" "distinct names"
  shows "(\<forall>name \<in> set names. h1 name = h2 name) \<and> sent1 = sent2"
  using assms
proof (induction names arbitrary: parts sent1 sent2)
  case (Cons name names)
  have absent: False if "forward_headers h names = Some (name # ps, sent)" for h ps sent
    using forward_parts [OF that] Cons.prems(3,4) by simp
  note split = Cons.prems(1,2) [unfolded forward_Cons]
  show ?case
  proof (cases "h1 name")
    case None
    then have 1: "forward_headers h1 names = Some (parts, sent1)" using split(1) by simp
    have "h2 name = None" using split(2) 1 absent by (cases "h2 name") auto
    then show ?thesis using Cons.IH [OF 1] split(2) Cons.prems(3,4) None by simp
  next
    case (Some v)
    then obtain t ps s1 where 1: "to_str v = Some t" "forward_headers h1 names = Some (ps, s1)" "parts = name # t # ps"
      "sent1 = hmap_insert name v s1" using split(1) by auto
    have "h2 name \<noteq> None"
    proof
      assume "h2 name = None"
      then have "forward_headers h2 names = Some (name # t # ps, sent2)" using split(2) 1(3) by simp
      then show False by (rule absent)
    qed
    then obtain w where w: "h2 name = Some w" by blast
    then obtain s2 where 2: "to_str w = Some t" "forward_headers h2 names = Some (ps, s2)" "sent2 = hmap_insert name w s2"
      using split(2) 1(3) by auto
    have "v = w" using to_str_inj 1(1) 2(1) by blast
    then show ?thesis using Cons.IH [OF 1(2) 2(2)] Cons.prems(3,4) Some w 1(4) 2(3) by simp
  qed
qed simp


definition toy_headers :: "string \<Rightarrow> bytes option" where
  "toy_headers name = (if name = ''x-token'' then Some [65, 66] else None)"

definition toy_headers2 :: "string \<Rightarrow> bytes option" where
  "toy_headers2 name = (if name = ''x-token'' then Some [65, 66] else if name = ''c'' then Some [7] else None)"


text \<open>A client can make the server panic: resolving a subscription panics exactly when one of the forwarded
  headers of the request is present with a value that is not visible ASCII, which HTTP allows.\<close>

lemma forwarded_header_panics:
  "get_subscription_info H repository host headers = None \<longleftrightarrow>
     (\<exists>name \<in> set (hs_forwarded_headers repository). \<exists>value. headers name = Some value \<and> to_str value = None)"
proof -
  have "forward_headers headers names = None \<longleftrightarrow>
      (\<exists>name \<in> set names. \<exists>value. headers name = Some value \<and> to_str value = None)" for names
    by (induction names) (auto split: option.split Option.bind_splits)
  moreover have "get_subscription_info H repository host headers = None \<longleftrightarrow>
      forward_headers headers (hs_forwarded_headers repository) = None"
    by (auto simp: get_subscription_info_def Let_def split: Option.bind_splits)
  ultimately show ?thesis by simp
qed

text \<open>When every attempt only waits for initializers of others that fail, the caller is told that there is no
  subscription, not that the lookup failed.\<close>

lemma waiting_reads_as_absent:
  assumes "\<And>init t w. mo_get G key init t w = (None, \<lparr>cc_called = False, cc_error = None\<rparr>, w)"
  shows "fst (try_optionally_get_with G key attempts future w) = Inr None"
proof -
  have "fst (try_get_loop G key future n w) = Inr None" for n
    by (induction n) (subst try_get_loop.simps, simp add: assms)+
  then show ?thesis by (simp add: try_optionally_get_with_def)
qed

section \<open>The constant repository\<close>

lemma create_from_iter_get:
  "constant_get (create_from_iter_loop entries nested) host token =
     (case find (\<lambda>(key, _). sy_host key = host \<and> sy_token key = token) (rev entries) of
        Some (_, info) \<Rightarrow> Some info | None \<Rightarrow> constant_get nested host token)"
proof (induction entries arbitrary: nested)
  case (Cons e entries)
  obtain key info where e: "e = (key, info)" by fastforce
  have app: "find P (xs @ [x]) = (case find P xs of Some y \<Rightarrow> Some y | None \<Rightarrow> if P x then Some x else None)" for P xs and x :: "'z"
    by (induction xs) auto
  have step: "constant_get (nested(sy_host key \<mapsto>
        (case nested (sy_host key) of None \<Rightarrow> Map.empty | Some m \<Rightarrow> m)(sy_token key \<mapsto> info))) host token =
      (if sy_host key = host \<and> sy_token key = token then Some info else constant_get nested host token)"
    by (auto simp: constant_get_def split: option.splits)
  show ?case
    unfolding e create_from_iter_loop.simps Let_def Cons.IH step by (auto simp: app split: option.split)
qed simp

section \<open>The guard\<close>

text \<open>What the parameters do: an authentication future stays the future of the request it was made for, and the
  subscriptions it yields are granted to that request; \<open>log\<close> is the sequence of requests the inner service was
  called with.\<close>

definition auth_ok ::
  "('af, 'ae, 's, 'b, 'sf, 'resp, 'e, 'w) guarded \<Rightarrow> ('af \<Rightarrow> Parts) \<Rightarrow> (Parts \<Rightarrow> SubscriptionInfo \<Rightarrow> bool) \<Rightarrow> bool" where
  "auth_ok G owner grants \<longleftrightarrow>
     (\<forall>parts w. case gd_authenticate G parts w of (Some af, _) \<Rightarrow> owner af = parts | _ \<Rightarrow> True) \<and>
     (\<forall>af w. case gd_poll_auth G af w of
        (res, af1, _) \<Rightarrow> owner af1 = owner af \<and>
          (case res of Ready (Inr (Some info)) \<Rightarrow> grants (owner af) info | _ \<Rightarrow> True))"

definition log_ok ::
  "('af, 'ae, 's, 'b, 'sf, 'resp, 'e, 'w) guarded \<Rightarrow> ('s \<Rightarrow> (Parts \<times> 'b) list) \<Rightarrow> bool" where
  "log_ok G calls \<longleftrightarrow>
     (\<forall>s w. case gd_poll_ready G s w of (_, s1, _) \<Rightarrow> calls s1 = calls s) \<and>
     (\<forall>request s w. case gd_call G request s w of (_, s1, _) \<Rightarrow> calls s1 = calls s @ [request])"

subsection \<open>One future\<close>

text \<open>The request of a future that was not passed on yet, and what a stored future satisfies.\<close>

fun waiting :: "('af, 'b, 'sf, 'resp, 'e) AuthGuardFuture \<Rightarrow> 'b multiset" where
  "waiting (Authenticating _ (Some request) _) = {#snd request#}"
| "waiting (PollingService _ (Some request)) = {#snd request#}"
| "waiting _ = {#}"

definition granted :: "(Parts \<Rightarrow> SubscriptionInfo \<Rightarrow> bool) \<Rightarrow> (Parts \<times> 'b) set \<Rightarrow> Parts \<times> 'b \<Rightarrow> bool" where
  "granted grants submitted request \<longleftrightarrow>
     (\<exists>original info. original \<in> submitted \<and> grants (fst original) info \<and> request = attach info original)"

fun future_ok ::
  "('af \<Rightarrow> Parts) \<Rightarrow> (Parts \<Rightarrow> SubscriptionInfo \<Rightarrow> bool) \<Rightarrow> (Parts \<times> 'b) set
   \<Rightarrow> ('af, 'b, 'sf, 'resp, 'e) AuthGuardFuture \<Rightarrow> bool" where
  "future_ok owner grants submitted (Authenticating af request permit) \<longleftrightarrow>
     permit \<and> (case request of None \<Rightarrow> False | Some r \<Rightarrow> r \<in> submitted \<and> owner af = fst r)"
| "future_ok owner grants submitted (PollingService permit request) \<longleftrightarrow>
     permit \<and> (case request of None \<Rightarrow> False | Some r \<Rightarrow> granted grants submitted r)"
| "future_ok owner grants submitted (CallingInner _) \<longleftrightarrow> True"
| "future_ok owner grants submitted (Denied result) \<longleftrightarrow> result \<noteq> None"

fun rank :: "('af, 'b, 'sf, 'resp, 'e) AuthGuardFuture \<Rightarrow> nat" where
  "rank (Authenticating _ _ _) = 3" | "rank (PollingService _ _) = 2" | "rank _ = 1"

text \<open>What polling does, from \<open>f\<close> with a service that was called with \<open>old\<close> requests.\<close>

definition poll_fine ::
  "('af \<Rightarrow> Parts) \<Rightarrow> (Parts \<Rightarrow> SubscriptionInfo \<Rightarrow> bool) \<Rightarrow> (Parts \<times> 'b) set \<Rightarrow> ('s \<Rightarrow> (Parts \<times> 'b) list)
   \<Rightarrow> ('af, 'b, 'sf, 'resp, 'e) AuthGuardFuture \<Rightarrow> (Parts \<times> 'b) list
   \<Rightarrow> (('e + (GrpcError + 'resp)) poll \<times> ('af, 'b, 'sf, 'resp, 'e) AuthGuardFuture \<times> 's \<times> 'w) run \<Rightarrow> bool" where
  "poll_fine owner grants submitted calls f old result \<longleftrightarrow>
     (\<exists>res f1 s1 w1 new. result = Some (res, f1, s1, w1) \<and> calls s1 = old @ new \<and>
        (\<forall>request \<in> set new. granted grants submitted request) \<and>
        image_mset snd (mset new) + (if res = Pending then waiting f1 else {#}) \<subseteq># waiting f \<and>
        (res = Pending \<longrightarrow> future_ok owner grants submitted f1 \<and> (holds_permit f1 \<longrightarrow> holds_permit f)))"

lemma poll_fineI:
  assumes "result = Some (res, f1, s1, w1)" "calls s1 = old @ new" "\<forall>request \<in> set new. granted grants submitted request"
    and "image_mset snd (mset new) + (if res = Pending then waiting f1 else {#}) \<subseteq># waiting f"
    and "res = Pending \<Longrightarrow> future_ok owner grants submitted f1 \<and> (holds_permit f1 \<longrightarrow> holds_permit f)"
  shows "poll_fine owner grants submitted calls f old result"
  using assms unfolding poll_fine_def by blast

text \<open>A transition to a future that is polled next.\<close>

lemma poll_fine_trans:
  assumes "poll_fine owner grants submitted calls f1 (old @ new) result" "\<forall>request \<in> set new. granted grants submitted request"
    and "image_mset snd (mset new) + waiting f1 \<subseteq># waiting f" "holds_permit f1 \<longrightarrow> holds_permit f"
  shows "poll_fine owner grants submitted calls f old result"
proof -
  obtain res f2 s2 w2 more where m: "result = Some (res, f2, s2, w2)" "calls s2 = (old @ new) @ more"
      "\<forall>request \<in> set more. granted grants submitted request"
      "image_mset snd (mset more) + (if res = Pending then waiting f2 else {#}) \<subseteq># waiting f1"
      "res = Pending \<longrightarrow> future_ok owner grants submitted f2 \<and> (holds_permit f2 \<longrightarrow> holds_permit f1)"
    using assms(1) unfolding poll_fine_def by blast
  have "image_mset snd (mset (new @ more)) + (if res = Pending then waiting f2 else {#}) \<subseteq># image_mset snd (mset new) + waiting f1"
    using m(4) by (simp add: add.assoc)
  then have "image_mset snd (mset (new @ more)) + (if res = Pending then waiting f2 else {#}) \<subseteq># waiting f"
    using assms(3) by (rule subset_mset.order_trans)
  with m assms(2,4) show ?thesis by (intro poll_fineI [where new = "new @ more"]) auto
qed

lemma loop_steps:
  "guard_loop G (Suc n) (CallingInner inner_fut) s w = Some (poll_calling G inner_fut s w)"
  "guard_loop G (Suc n) (Denied (Some r)) s w = Some (Ready r, Denied None, s, w)"
  "guard_loop G (Suc n) (PollingService True (Some r2)) s w =
     (case gd_poll_ready G s w of
        (Pending, s1, w1) \<Rightarrow> Some (Pending, PollingService True (Some r2), s1, w1)
      | (Ready _, _, _) \<Rightarrow> (case enter_service G r2 s w of (f1, s1, w2) \<Rightarrow> guard_loop G n f1 s1 w2))"
  "guard_loop G (Suc n) (Authenticating af (Some r3) True) s w =
     (case gd_poll_auth G af w of
        (Pending, af1, w1) \<Rightarrow> Some (Pending, Authenticating af1 (Some r3) True, s, w1)
      | (Ready (Inr None), _, w1) \<Rightarrow>
          guard_loop G n (Denied (Some (Inr (Inl (grpc_error_response Unauthenticated 401))))) s w1
      | (Ready (Inr (Some info)), _, w1) \<Rightarrow>
          (case enter_service G (attach info r3) s w1 of (f1, s1, w2) \<Rightarrow> guard_loop G n f1 s1 w2)
      | (Ready (Inl e), _, w1) \<Rightarrow>
          guard_loop G n (Denied (Some (Inr (Inl (grpc_error_response Internal 500))))) s w1)"
  by (subst guard_loop.simps, simp add: enter_service_def split: prod.splits poll.splits sum.splits option.splits)+

text \<open>Entering the inner service: at most the request itself is passed on, and only when it is ready.\<close>

lemma enter_service_fine:
  assumes "log_ok G calls" "enter_service G request s w = (f1, s1, w1)" "granted grants submitted request"
  shows "\<exists>new. calls s1 = calls s @ new \<and> set new \<subseteq> {request} \<and> future_ok owner grants submitted f1 \<and> rank f1 \<le> 2 \<and>
    image_mset snd (mset new) + waiting f1 \<subseteq># {#snd request#}"
proof -
  obtain res s2 w2 where ps: "gd_poll_ready G s w = (res, s2, w2)" by (cases "gd_poll_ready G s w")
  obtain sf s3 w3 where c: "gd_call G request s2 w2 = (sf, s3, w3)" by (cases "gd_call G request s2 w2")
  note log = assms(1) [unfolded log_ok_def]
  have ready: "calls s2 = calls s" using log [THEN conjunct1, THEN spec, of s, THEN spec, of w] ps by simp
  have call: "calls s3 = calls s2 @ [request]"
    using log [THEN conjunct2, THEN spec, of request, THEN spec, of s2, THEN spec, of w2] c by simp
  consider "res = Pending" | e where "res = Ready (Inl e)" | u where "res = Ready (Inr u)"
    by (cases res; cases "case res of Ready r \<Rightarrow> r") auto
  then show ?thesis
  proof cases
    case 1
    then have "f1 = PollingService True (Some request)" "s1 = s2" using assms(2) ps by (simp_all add: enter_service_def)
    then show ?thesis using ready assms(3) by (intro exI [of _ "[]"]) simp
  next
    case 2
    then have "f1 = Denied (Some (Inr (Inl (grpc_error_response Internal 500))))" "s1 = s2"
      using assms(2) ps by (simp_all add: enter_service_def)
    then show ?thesis using ready by (intro exI [of _ "[]"]) simp
  next
    case 3
    then have "f1 = CallingInner sf" "s1 = s3" using assms(2) ps c by (simp_all add: enter_service_def)
    then show ?thesis using ready call by (intro exI [of _ "[request]"]) simp
  qed
qed

lemma poll_fine_denied:
  "poll_fine owner grants submitted calls f (calls s) (guard_loop G (Suc n) (Denied (Some r)) s w)"
  unfolding loop_steps by (rule poll_fineI [OF refl, where new = "[]"]) simp_all

lemma poll_fine_calling:
  "poll_fine owner grants submitted calls (CallingInner inner_fut) (calls s)
     (guard_loop G (Suc n) (CallingInner inner_fut) s w)"
proof -
  obtain res f1 w1 where p: "poll_calling G inner_fut s w = (res, f1, s, w1)" "waiting f1 = {#}" "\<not> holds_permit f1"
      "future_ok owner grants submitted f1"
  proof -
    obtain res1 f1 w1 where "gd_poll_inner G inner_fut w = (res1, f1, w1)" by (cases "gd_poll_inner G inner_fut w")
    then show ?thesis using that by (cases res1; cases "case res1 of Ready r \<Rightarrow> r") (auto simp: poll_calling_def)
  qed
  show ?thesis
    unfolding loop_steps p(1) by (rule poll_fineI [OF refl, where new = "[]"]) (simp_all add: p)
qed

lemma enter_then_fine:
  assumes "log_ok G calls" "granted grants submitted request" "waiting f = {#snd request#}" "holds_permit f"
    and rest: "\<And>f1 s1 w1. future_ok owner grants submitted f1 \<Longrightarrow> rank f1 \<le> 2 \<Longrightarrow>
      poll_fine owner grants submitted calls f1 (calls s1) (guard_loop G n f1 s1 w1)"
  shows "poll_fine owner grants submitted calls f (calls s)
    (case enter_service G request s w of (f1, s1, w1) \<Rightarrow> guard_loop G n f1 s1 w1)"
proof -
  obtain f1 s1 w1 where e: "enter_service G request s w = (f1, s1, w1)" by (cases "enter_service G request s w")
  from enter_service_fine [OF assms(1) e assms(2)] obtain new where
    new: "calls s1 = calls s @ new" "set new \<subseteq> {request}" "future_ok owner grants submitted f1" "rank f1 \<le> 2"
      "image_mset snd (mset new) + waiting f1 \<subseteq># {#snd request#}" by blast
  show ?thesis
    unfolding e prod.case
  proof (rule poll_fine_trans)
    show "poll_fine owner grants submitted calls f1 (calls s @ new) (guard_loop G n f1 s1 w1)"
      using rest [OF new(3,4), of s1 w1] by (simp only: new(1))
  qed (use new assms(2-4) in auto)
qed

text \<open>Four rounds are enough for every future, and a poll passes on only what was granted.\<close>

lemma guard_loop_fine:
  assumes G: "auth_ok G owner grants" "log_ok G calls"
  shows "future_ok owner grants submitted f \<Longrightarrow> rank f \<le> n \<Longrightarrow>
    poll_fine owner grants submitted calls f (calls s) (guard_loop G n f s w)"
proof (induction n arbitrary: f s w)
  case 0
  then show ?case by (cases f) simp_all
next
  case (Suc n)
  show ?case
  proof (cases f)
    case (CallingInner inner_fut)
    then show ?thesis by (simp only: poll_fine_calling)
  next
    case (Denied result)
    with Suc.prems(1) obtain r where "f = Denied (Some r)" by auto
    then show ?thesis by (simp only: poll_fine_denied)
  next
    case (PollingService permit request)
    with Suc.prems(1) obtain r where f: "f = PollingService True (Some r)" and r: "granted grants submitted r"
      by (auto split: option.splits)
    have IH: "future_ok owner grants submitted f1 \<Longrightarrow> rank f1 \<le> 1 \<Longrightarrow>
        poll_fine owner grants submitted calls f1 (calls s1) (guard_loop G n f1 s1 w1)" for f1 s1 w1
      using Suc.IH Suc.prems(2) f by simp
    obtain res s1 w1 where pr: "gd_poll_ready G s w = (res, s1, w1)" by (cases "gd_poll_ready G s w")
    have ready: "calls s1 = calls s" using G(2) [unfolded log_ok_def, THEN conjunct1, THEN spec, of s, THEN spec, of w] pr by simp
    show ?thesis
    proof (cases res)
      case Pending
      show ?thesis unfolding f loop_steps pr Pending prod.case poll.case
        by (rule poll_fineI [OF refl, where new = "[]"]) (simp_all add: ready r)
    next
      case (Ready x)
      obtain f1 s2 w2 where e: "enter_service G r s w = (f1, s2, w2)" by (cases "enter_service G r s w")
      have r1: "rank f1 \<le> 1" using e pr Ready by (cases x) (auto simp: enter_service_def split: prod.splits)
      from enter_service_fine [OF G(2) e r] obtain new where
        new: "calls s2 = calls s @ new" "set new \<subseteq> {r}" "future_ok owner grants submitted f1"
          "image_mset snd (mset new) + waiting f1 \<subseteq># {#snd r#}" by blast
      show ?thesis unfolding f loop_steps pr Ready prod.case poll.case e
      proof (rule poll_fine_trans)
        show "poll_fine owner grants submitted calls f1 (calls s @ new) (guard_loop G n f1 s2 w2)"
          using IH [OF new(3) r1, of s2 w2] by (simp only: new(1))
      qed (use new r in auto)
    qed
  next
    case (Authenticating af request permit)
    with Suc.prems(1) obtain r where f: "f = Authenticating af (Some r) True" and r: "r \<in> submitted" "owner af = fst r"
      by (auto split: option.splits)
    have IH: "future_ok owner grants submitted f1 \<Longrightarrow> rank f1 \<le> 2 \<Longrightarrow>
        poll_fine owner grants submitted calls f1 (calls s1) (guard_loop G n f1 s1 w1)" for f1 s1 w1
      using Suc.IH Suc.prems(2) f by simp
    obtain m where n: "n = Suc m" using Suc.prems(2) f by (cases n) simp_all
    obtain res af1 w1 where pr: "gd_poll_auth G af w = (res, af1, w1)" by (cases "gd_poll_auth G af w")
    note auth = G(1) [unfolded auth_ok_def, THEN conjunct2, THEN spec, of af, THEN spec, of w, unfolded pr prod.case]
    show ?thesis
    proof (cases res)
      case Pending
      show ?thesis unfolding f loop_steps pr Pending prod.case poll.case
        by (rule poll_fineI [OF refl, where new = "[]"]) (simp_all add: auth r)
    next
      case Ready: (Ready x)
      show ?thesis
      proof (cases x)
        case (Inl e)
        then show ?thesis unfolding f loop_steps pr Ready prod.case poll.case by (simp add: n poll_fine_denied)
      next
        case (Inr found)
        show ?thesis
        proof (cases found)
          case None
          then show ?thesis unfolding f loop_steps pr Ready prod.case poll.case Inr by (simp add: n poll_fine_denied)
        next
          case (Some info)
          have "grants (fst r) info" using auth Ready Inr Some r(2) by simp
          then have g: "granted grants submitted (attach info r)" unfolding granted_def using r(1) by blast
          show ?thesis
            unfolding f loop_steps pr Ready prod.case poll.case Inr Some sum.case option.case
            by (rule enter_then_fine [OF G(2) g _ _ IH]) (simp_all add: attach_def)
        qed
      qed
    qed
  qed
qed

subsection \<open>All futures\<close>

definition waiting_at :: "('af, 'b, 'sf, 'resp, 'e) AuthGuardFuture option \<Rightarrow> 'b multiset" where
  "waiting_at f = (case f of None \<Rightarrow> {#} | Some f \<Rightarrow> waiting f)"

definition permits_out :: "('af, 's, 'b, 'sf, 'resp, 'e, 'w) GuardSystem \<Rightarrow> nat" where
  "permits_out g = sum_list (map of_bool (gs_clones g)) + sum_list (map future_permits (gs_futures g))"

definition guard_inv ::
  "nat \<Rightarrow> ('af \<Rightarrow> Parts) \<Rightarrow> (Parts \<Rightarrow> SubscriptionInfo \<Rightarrow> bool) \<Rightarrow> ('s \<Rightarrow> (Parts \<times> 'b) list)
   \<Rightarrow> ('af, 's, 'b, 'sf, 'resp, 'e, 'w) GuardSystem \<Rightarrow> bool" where
  "guard_inv limit owner grants calls g \<longleftrightarrow>
     gs_permits g + permits_out g = limit \<and>
     (\<forall>f. Some f \<in> set (gs_futures g) \<longrightarrow> future_ok owner grants (set (gs_submitted g)) f) \<and>
     (\<forall>request \<in> set (calls (gs_inner g)). granted grants (set (gs_submitted g)) request) \<and>
     image_mset snd (mset (calls (gs_inner g))) + sum_list (map waiting_at (gs_futures g))
       \<subseteq># image_mset snd (mset (gs_submitted g))"

lemma granted_mono: "granted grants submitted request \<Longrightarrow> submitted \<subseteq> wider \<Longrightarrow> granted grants wider request"
  by (auto simp: granted_def)

lemma future_ok_mono: "future_ok owner grants submitted f \<Longrightarrow> submitted \<subseteq> wider \<Longrightarrow> future_ok owner grants wider f"
  by (cases f) (auto split: option.splits intro: granted_mono)

lemma future_permits_le: "future_permits f \<le> 1"
  by (simp add: future_permits_def split: option.split)

lemma guard_inv_permits:
  assumes "guard_inv limit owner grants calls g" "gs_futures g1 = gs_futures g" "gs_inner g1 = gs_inner g"
    and "gs_submitted g1 = gs_submitted g" "gs_permits g1 + permits_out g1 = gs_permits g + permits_out g"
  shows "guard_inv limit owner grants calls g1"
  using assms by (simp add: guard_inv_def)

lemma Some_in_update: "Some f \<in> set (xs[j := None]) \<Longrightarrow> Some f \<in> set xs"
  using set_update_subset_insert [of xs j None] by blast

lemma guard_inv_drop:
  assumes "guard_inv limit owner grants calls g" "j < length (gs_futures g)"
  shows "guard_inv limit owner grants calls (future_drop j g)"
proof -
  note inv = assms(1) [unfolded guard_inv_def]
  let ?futures = "(gs_futures g)[j := None]"
  have "sum_list (map waiting_at ?futures) + waiting_at (gs_futures g ! j) = sum_list (map waiting_at (gs_futures g))"
    using sum_list_map_update [OF assms(2), of waiting_at None] by (simp add: waiting_at_def)
  then have "image_mset snd (mset (calls (gs_inner g))) + sum_list (map waiting_at ?futures)
      \<subseteq># image_mset snd (mset (calls (gs_inner g))) + sum_list (map waiting_at (gs_futures g))"
    by (metis mset_subset_eq_add_left subset_mset.add_left_mono)
  then have "image_mset snd (mset (calls (gs_inner g))) + sum_list (map waiting_at ?futures)
      \<subseteq># image_mset snd (mset (gs_submitted g))"
    using inv by (meson subset_mset.order_trans)
  moreover have "sum_list (map future_permits ?futures) + future_permits (gs_futures g ! j) = sum_list (map future_permits (gs_futures g))"
    using sum_list_map_update [OF assms(2), of future_permits None] by (simp add: future_permits_def [of None])
  ultimately show ?thesis
    using inv Some_in_update unfolding guard_inv_def future_drop_def permits_out_def by fastforce
qed

lemma guard_inv_poll:
  assumes ok: "auth_ok G owner grants" "log_ok G calls"
    and inv: "guard_inv limit owner grants calls g" and j: "j < length (gs_futures g)" "gs_futures g ! j = Some f"
  shows "\<exists>res g1. future_poll G j g = Some (res, g1) \<and> guard_inv limit owner grants calls g1"
proof -
  note g = inv [unfolded guard_inv_def]
  let ?submitted = "set (gs_submitted g)"
  have f: "Some f \<in> set (gs_futures g)" using j by (metis nth_mem)
  then have "future_ok owner grants ?submitted f" using g by blast
  moreover have "rank f \<le> 4" by (cases f) simp_all
  ultimately have "poll_fine owner grants ?submitted calls f (calls (gs_inner g)) (guard_loop G 4 f (gs_inner g) (gs_world g))"
    by (rule guard_loop_fine [OF ok])
  then obtain res f1 s1 w1 new where
    run: "guard_loop G 4 f (gs_inner g) (gs_world g) = Some (res, f1, s1, w1)" and
    new: "calls s1 = calls (gs_inner g) @ new" "\<forall>request \<in> set new. granted grants ?submitted request"
      "image_mset snd (mset new) + (if res = Pending then waiting f1 else {#}) \<subseteq># waiting f"
      "res = Pending \<longrightarrow> future_ok owner grants ?submitted f1 \<and> (holds_permit f1 \<longrightarrow> holds_permit f)"
    unfolding poll_fine_def by blast
  define rest where "rest = (case res of Ready _ \<Rightarrow> None | Pending \<Rightarrow> Some f1)"
  define g1 where "g1 = g\<lparr>gs_permits := gs_permits g + future_permits (Some f) - future_permits rest,
      gs_futures := (gs_futures g)[j := rest], gs_inner := s1, gs_world := w1\<rparr>"
  have poll: "future_poll G j g = Some (res, g1)"
    using run j by (simp add: future_poll_def g1_def rest_def Let_def)
  have rest: "future_permits rest \<le> future_permits (Some f)" "waiting_at rest = (if res = Pending then waiting f1 else {#})"
    using new(4) by (auto simp: rest_def future_permits_def waiting_at_def split: poll.split)
  have "sum_list (map waiting_at (gs_futures g1)) + waiting f = sum_list (map waiting_at (gs_futures g)) + waiting_at rest"
    using sum_list_map_update [OF j(1), of waiting_at rest] j(2) by (simp add: g1_def waiting_at_def [of "Some f"])
  moreover have "image_mset snd (mset (calls s1)) + (sum_list (map waiting_at (gs_futures g)) + waiting_at rest)
      \<subseteq># image_mset snd (mset (calls (gs_inner g))) + sum_list (map waiting_at (gs_futures g)) + waiting f"
    using new(3) by (simp add: new(1) rest(2) add.assoc add.left_commute)
  ultimately have "image_mset snd (mset (calls s1)) + sum_list (map waiting_at (gs_futures g1))
      \<subseteq># image_mset snd (mset (calls (gs_inner g))) + sum_list (map waiting_at (gs_futures g))"
    by (metis add.assoc subset_mset.add_le_cancel_right)
  then have once: "image_mset snd (mset (calls s1)) + sum_list (map waiting_at (gs_futures g1)) \<subseteq># image_mset snd (mset (gs_submitted g))"
    using g by (meson subset_mset.order_trans)
  have permits: "gs_permits g1 + permits_out g1 = limit"
    using g [THEN conjunct1] rest(1) sum_list_map_update [OF j(1), of future_permits rest] j(2)
    unfolding permits_out_def by (simp add: g1_def)
  have futures: "future_ok owner grants ?submitted f2" if "Some f2 \<in> set (gs_futures g1)" for f2
  proof -
    have "Some f2 = rest \<or> Some f2 \<in> set (gs_futures g)"
      using that set_update_subset_insert [of "gs_futures g" j rest] by (auto simp: g1_def)
    then show ?thesis using g new(4) by (auto simp: rest_def split: poll.splits)
  qed
  have calls: "\<forall>request \<in> set (calls s1). granted grants ?submitted request"
    using g new(1,2) by auto
  have "guard_inv limit owner grants calls g1"
    using permits futures calls once unfolding guard_inv_def by (simp add: g1_def)
  with poll show ?thesis by blast
qed

lemma guard_inv_call:
  assumes ok: "auth_ok G owner grants" and inv: "guard_inv limit owner grants calls g"
    and i: "i < length (gs_clones g)" and call: "service_call G i request g = Some g1"
  shows "guard_inv limit owner grants calls g1"
proof -
  note g = inv [unfolded guard_inv_def]
  obtain found w1 where a: "gd_authenticate G (fst request) (gs_world g) = (found, w1)"
    by (cases "gd_authenticate G (fst request) (gs_world g)")
  note owner = ok [unfolded auth_ok_def, THEN conjunct1, THEN spec, of "fst request", THEN spec, of "gs_world g", unfolded a prod.case]
  have ready: "gs_clones g ! i" using call by (simp add: service_call_def split: if_splits)
  define fut where "fut = last (gs_futures g1)"
  have fut_eq: "fut = (case found of None \<Rightarrow> None | Some af \<Rightarrow> Some (Authenticating af (Some request) True))"
    using call ready a by (auto simp: service_call_def fut_def split: option.splits)
  have g1: "gs_permits g1 = gs_permits g + (1 - future_permits fut)" "gs_clones g1 = (gs_clones g)[i := False]"
    "gs_futures g1 = gs_futures g @ [fut]" "gs_inner g1 = gs_inner g" "gs_submitted g1 = gs_submitted g @ [request]"
    using call ready a by (auto simp: service_call_def fut_eq future_permits_def split: option.splits)
  have fut: "waiting_at fut \<subseteq># {#snd request#}" "Some f = fut \<Longrightarrow> future_ok owner grants (set (gs_submitted g1)) f" for f
    using owner by (auto simp: fut_eq waiting_at_def g1(5) split: option.splits)
  have "sum_list (map of_bool ((gs_clones g)[i := False])) + 1 = (sum_list (map of_bool (gs_clones g)) :: nat)"
    using sum_list_map_update [OF i, of "of_bool :: bool \<Rightarrow> nat" False] ready by simp
  then have permits: "gs_permits g1 + permits_out g1 = limit"
    using g [THEN conjunct1] future_permits_le [of fut] by (simp add: permits_out_def g1)
  have futures: "future_ok owner grants (set (gs_submitted g1)) f" if "Some f \<in> set (gs_futures g1)" for f
  proof -
    have "Some f \<in> set (gs_futures g) \<or> Some f = fut" using that by (auto simp: g1(3))
    then show ?thesis
    proof
      assume "Some f \<in> set (gs_futures g)"
      with g have "future_ok owner grants (set (gs_submitted g)) f" by blast
      then show ?thesis by (rule future_ok_mono) (auto simp: g1(5))
    qed (rule fut(2))
  qed
  have calls: "\<forall>request \<in> set (calls (gs_inner g1)). granted grants (set (gs_submitted g1)) request"
  proof
    fix r
    assume "r \<in> set (calls (gs_inner g1))"
    with g have "granted grants (set (gs_submitted g)) r" by (simp add: g1(4))
    then show "granted grants (set (gs_submitted g1)) r" by (rule granted_mono) (auto simp: g1(5))
  qed
  have "image_mset snd (mset (calls (gs_inner g1))) + sum_list (map waiting_at (gs_futures g)) + waiting_at fut
      \<subseteq># image_mset snd (mset (gs_submitted g)) + {#snd request#}"
    unfolding g1(4) using g [THEN conjunct2, THEN conjunct2, THEN conjunct2] fut(1) by (rule subset_mset.add_mono)
  then show ?thesis
    using permits futures calls unfolding guard_inv_def by (simp add: g1(3,5) add.assoc)
qed

text \<open>\<open>calls\<close> of the initial inner service is empty.\<close>

theorem guard_run_inv:
  assumes run: "guard_run G limit s0 w0 g"
    and ok: "auth_ok G owner grants" "log_ok G calls" "calls s0 = []"
  shows "guard_inv limit owner grants calls g"
  using run
proof induction
  case guard_new
  then show ?case by (simp add: guard_inv_def AuthGuardedService_new_def permits_out_def ok(3))
next
  case (guard_clone g)
  show ?case by (rule guard_inv_permits [OF guard_clone.IH]) (simp_all add: service_clone_def permits_out_def)
next
  case (guard_ready g i res g1)
  then show ?case
    using sum_list_map_update [OF guard_ready.hyps(2), of "of_bool :: bool \<Rightarrow> nat" True]
    by (intro guard_inv_permits [OF guard_ready.IH]) (auto simp: service_poll_ready_def permits_out_def split: if_splits)
next
  case (guard_call g i request g1)
  then show ?case using guard_inv_call [OF ok(1)] by blast
next
  case (guard_poll g j res g1)
  obtain f where "gs_futures g ! j = Some f"
    using guard_poll.hyps(3) by (cases "gs_futures g ! j") (simp_all add: future_poll_def)
  from guard_inv_poll [OF ok(1,2) guard_poll.IH guard_poll.hyps(2) this] guard_poll.hyps(3) show ?case by simp
next
  case (guard_drop_future g j)
  then show ?case using guard_inv_drop by blast
next
  case (guard_drop_clone g i)
  then show ?case
    using sum_list_map_update [OF guard_drop_clone.hyps(2), of "of_bool :: bool \<Rightarrow> nat" False]
    by (intro guard_inv_permits [OF guard_drop_clone.IH]) (auto simp: clone_drop_def permits_out_def)
qed

text \<open>C10. Nothing reaches the inner service unauthenticated: in every interleaving of clones, calls, polls and dropped
  futures, each request the inner service is called with is one that was submitted, with the subscription that
  authentication granted to it attached, and no submitted request is passed on twice.\<close>

theorem only_authenticated_requests:
  assumes "guard_run G limit s0 w0 g" "auth_ok G owner grants" "log_ok G calls" "calls s0 = []"
  shows "(\<forall>request \<in> set (calls (gs_inner g)). \<exists>original \<in> set (gs_submitted g). \<exists>info.
      grants (fst original) info \<and> request = attach info original) \<and>
    image_mset snd (mset (calls (gs_inner g))) \<subseteq># image_mset snd (mset (gs_submitted g))"
  using guard_run_inv [OF assms] unfolding guard_inv_def granted_def by (blast intro: subset_mset.order_trans mset_subset_eq_add_left)

text \<open>Permits are neither lost nor made: those of the semaphore, of the clones that are ready and of the futures
  that authenticate or wait are always as many as the configured limit, dropped futures included, and polling a future
  that has not returned never panics.\<close>

lemma auth_permits_conserved:
  assumes "guard_run G limit s0 w0 g" "auth_ok G owner grants" "log_ok G calls" "calls s0 = []"
  shows "gs_permits g + permits_out g = limit \<and>
    (\<forall>j < length (gs_futures g). gs_futures g ! j \<noteq> None \<longrightarrow> future_poll G j g \<noteq> None)"
proof (intro conjI allI impI)
  note inv = guard_run_inv [OF assms]
  then show "gs_permits g + permits_out g = limit" by (simp add: guard_inv_def)
  fix j
  assume "j < length (gs_futures g)" "gs_futures g ! j \<noteq> None"
  then show "future_poll G j g \<noteq> None" using guard_inv_poll [OF assms(2,3) inv] by blast
qed

text \<open>A guard over a service that records its requests; requests with a token are authenticated.\<close>

definition toy_guard :: "(Parts, string, (Parts \<times> nat) list, nat, unit, string, string, unit) guarded" where
  "toy_guard =
     \<lparr>gd_authenticate = (\<lambda>parts w. (Some parts, w)),
      gd_poll_auth = (\<lambda>parts w. (Ready (Inr (if pa_header parts ''x-token'' = None then None
          else Some \<lparr>sb_subscription_id = ''s'', sb_ratelimits = None\<rparr>)), parts, w)),
      gd_poll_ready = (\<lambda>s w. (Ready (Inr ()), s, w)),
      gd_call = (\<lambda>request s w. ((), s @ [request], w)),
      gd_poll_inner = (\<lambda>sf w. (Ready (Inr ''ok''), sf, w))\<rparr>"

definition toy_parts :: Parts where
  "toy_parts = \<lparr>pa_host = Some ''h'', pa_path_and_query = None, pa_header = toy_headers, pa_subscription = None\<rparr>"

abbreviation toy_clone where "toy_clone \<equiv> snd (service_poll_ready 0 (AuthGuardedService_new 2 [] ()))"

definition toy_called :: "(Parts, (Parts \<times> nat) list, nat, unit, string, string, unit) GuardSystem" where
  "toy_called = the (service_call toy_guard 0 (toy_parts, 7) toy_clone)"

definition toy_polled :: "(Parts, (Parts \<times> nat) list, nat, unit, string, string, unit) GuardSystem" where
  "toy_polled = snd (the (future_poll toy_guard 0 toy_called))"

lemma toy_guard_ok:
  "auth_ok toy_guard id (\<lambda>parts _. pa_header parts ''x-token'' \<noteq> None)" "log_ok toy_guard id"
  by (simp_all add: auth_ok_def log_ok_def toy_guard_def)

lemmas toy_eval = AuthGuardedService_new_def service_poll_ready_def service_call_def future_poll_def toy_called_def
  toy_polled_def toy_guard_def enter_service_def loop_steps poll_calling_def toy_parts_def toy_headers_def

lemma guard_loop_4: "guard_loop G 4 f s w = guard_loop G (Suc (Suc (Suc (Suc 0)))) f s w"
  by (simp add: numeral_eq_Suc)

lemma toy_called: "gs_futures toy_called = [Some (Authenticating toy_parts (Some (toy_parts, 7)) True)]"
  "service_call toy_guard 0 (toy_parts, 7) toy_clone = Some toy_called"
  by (simp_all add: toy_eval)

lemma toy_polled: "gs_inner toy_polled = [attach \<lparr>sb_subscription_id = ''s'', sb_ratelimits = None\<rparr> (toy_parts, 7)]"
  "gs_permits toy_polled = 2" "\<exists>res. future_poll toy_guard 0 toy_called = Some (res, toy_polled)"
  by (simp_all add: toy_eval guard_loop_4 future_permits_def)

lemma toy_guard_run: "guard_run toy_guard 2 [] () toy_called" "guard_run toy_guard 2 [] () toy_polled"
proof -
  have "guard_run toy_guard 2 [] () toy_clone"
    by (rule guard_ready [OF guard_new, where i = 0 and res = "Ready ()"]) (simp_all add: AuthGuardedService_new_def service_poll_ready_def)
  from guard_call [OF this _ toy_called(2)] show run: "guard_run toy_guard 2 [] () toy_called"
    by (simp add: AuthGuardedService_new_def service_poll_ready_def)
  obtain res where "future_poll toy_guard 0 toy_called = Some (res, toy_polled)" using toy_polled(3) by blast
  from guard_poll [OF run _ this] show "guard_run toy_guard 2 [] () toy_polled" by (simp add: toy_called(1))
qed

theorem only_authenticated_requests_witness:
  "length (gs_inner toy_polled) = 1 \<and> image_mset snd (mset (gs_inner toy_polled)) \<subseteq># image_mset snd (mset (gs_submitted toy_polled))"
  using only_authenticated_requests [OF toy_guard_run(2) toy_guard_ok] by (simp add: toy_polled(1))

lemma auth_permits_conserved_witness:
  "gs_permits toy_called + permits_out toy_called = 2 \<and> future_poll toy_guard 0 toy_called \<noteq> None"
  using auth_permits_conserved [OF toy_guard_run(1) toy_guard_ok] by (simp add: toy_called(1))

end
