(* ===== verification/Rate_Limit.thy ===== *)
theory Rate_Limit
  imports Server_Auth Float64
begin

text \<open>
  Rate limits: the token bucket of \<^verbatim>\<open>yellowstone-grpc-tools/src/server/window.rs\<close>, the limiter of calls per
  subscriber and method of \<^verbatim>\<open>yellowstone-grpc-geyser/src/ratelimit.rs\<close> and the limit of connections per address of
  \<^verbatim>\<open>yellowstone-grpc-tools/src/server/tonic/ratelimit/transport.rs\<close>. A \<open>Duration\<close> is a number of nanoseconds
  below \<open>2^64 * 10^9\<close>, an \<open>Instant\<close> a number of nanoseconds since some origin, so that the saturating difference of
  instants is the difference of natural numbers.
\<close>

section \<open>The token bucket\<close>

type_synonym Duration = nat
type_synonym Instant = nat

text \<open>\<open>Duration::as_secs_f64\<close> and \<open>from_secs_f64\<close>, which rounds to nanoseconds and panics outside the range.\<close>

definition as_secs_f64 :: "Duration \<Rightarrow> rat" where
  "as_secs_f64 d =
     f64_round (f64_round (of_nat (d div 10 ^ 9)) + f64_round (of_nat (d mod 10 ^ 9) / 10 ^ 9))"

definition from_secs_f64 :: "rat \<Rightarrow> Duration run" where
  "from_secs_f64 secs =
     (let n = round_half_even (secs * 10 ^ 9) in if 0 \<le> secs \<and> n < 2 ^ 64 * 10 ^ 9 then Some (nat n) else None)"

definition f64_EPSILON :: rat where
  "f64_EPSILON = 1 / 2 ^ 52"

record WindowDecision =
  wd_allowed :: bool
  wd_remaining :: u64
  wd_retry_after :: Duration

record TokenState =
  to_tokens :: rat
  to_last_refill :: Instant

record TokenBucketRateLimiter =
  tb_burst_capacity :: rat
  tb_refill_per_sec :: rat
  tb_window :: Duration
  tb_state :: "TokenState option"

definition TokenBucketRateLimiter_new :: "u64 \<Rightarrow> Duration \<Rightarrow> TokenBucketRateLimiter" where
  "TokenBucketRateLimiter_new max_hits window =
     (let burst_capacity = f64_round (of_nat (unat max_hits));
          window_secs = max (as_secs_f64 window) f64_EPSILON
      in \<lparr>tb_burst_capacity = burst_capacity, tb_refill_per_sec = f64_round (burst_capacity / window_secs),
          tb_window = window, tb_state = None\<rparr>)"

text \<open>\<open>x as u64\<close> of a value that is not negative\<close>

definition f64_as_u64 :: "rat \<Rightarrow> u64" where
  "f64_as_u64 x = of_int (min \<lfloor>x\<rfloor> (2 ^ 64 - 1))"

definition tb_max_hits :: "TokenBucketRateLimiter \<Rightarrow> u64" where
  "tb_max_hits l = f64_as_u64 (tb_burst_capacity l)"

definition key_count :: "TokenBucketRateLimiter \<Rightarrow> nat" where
  "key_count l = (if tb_state l \<noteq> None then 1 else 0)"

definition refill_state :: "Instant \<Rightarrow> rat \<Rightarrow> rat \<Rightarrow> TokenState \<Rightarrow> TokenState" where
  "refill_state now burst_capacity refill_per_sec st =
     (let elapsed = as_secs_f64 (now - to_last_refill st)
      in if 0 < elapsed
         then \<lparr>to_tokens = min (f64_round (to_tokens st + f64_round (elapsed * refill_per_sec))) burst_capacity,
               to_last_refill = now\<rparr>
         else st)"

definition retry_after :: "rat \<Rightarrow> rat \<Rightarrow> Duration run" where
  "retry_after tokens refill_per_sec =
     (if refill_per_sec \<le> 0 then Some (2 ^ 64 * 10 ^ 9 - 1)
      else let missing = max (f64_round (1 - tokens)) 0
           in from_secs_f64 (max (f64_round (missing / refill_per_sec)) 0))"

definition check_at :: "Instant \<Rightarrow> TokenBucketRateLimiter \<Rightarrow> (WindowDecision \<times> TokenBucketRateLimiter) run" where
  "check_at now l =
     (if tb_burst_capacity l \<le> 0
      then Some (\<lparr>wd_allowed = False, wd_remaining = 0, wd_retry_after = tb_window l\<rparr>, l)
      else
        let inserted = (case tb_state l of
                          None \<Rightarrow> \<lparr>to_tokens = tb_burst_capacity l, to_last_refill = now\<rparr> | Some st \<Rightarrow> st);
            state = refill_state now (tb_burst_capacity l) (tb_refill_per_sec l) inserted
        in if 1 \<le> to_tokens state
           then let tokens = f64_round (to_tokens state - 1)
                in Some (\<lparr>wd_allowed = True, wd_remaining = f64_as_u64 tokens, wd_retry_after = 0\<rparr>,
                         l\<lparr>tb_state := Some (state\<lparr>to_tokens := tokens\<rparr>)\<rparr>)
           else do {
             delay \<leftarrow> retry_after (to_tokens state) (tb_refill_per_sec l);
             Some (\<lparr>wd_allowed = False, wd_remaining = 0, wd_retry_after = delay\<rparr>, l\<lparr>tb_state := Some state\<rparr>)
           })"

definition prune_at :: "Instant \<Rightarrow> TokenBucketRateLimiter \<Rightarrow> TokenBucketRateLimiter" where
  "prune_at now l =
     (case tb_state l of
        None \<Rightarrow> l
      | Some st \<Rightarrow>
          let state = refill_state now (tb_burst_capacity l) (tb_refill_per_sec l) st
          in if tb_burst_capacity l \<le> f64_round (to_tokens state + f64_EPSILON) then l\<lparr>tb_state := None\<rparr>
             else l\<lparr>tb_state := Some state\<rparr>)"

section \<open>Calls per subscriber and method\<close>

record MethodRatelimitKey =
  mk_subscriber_id :: string
  mk_method_name :: string
  mk_ratelimit :: i32

record MethodWindowState =
  ws_limiter :: TokenBucketRateLimiter
  ws_last_seen :: Instant

record MethodRatelimiter =
  mr_active_windows_map :: "MethodRatelimitKey \<Rightarrow> MethodWindowState option"
  mr_request_counter :: usize
  mr_window :: Duration
  mr_max_hits_fallback :: i32
  mr_idle_timeout :: Duration
  mr_gc_tick :: usize

definition MethodRatelimiter_with_gc :: "i32 \<Rightarrow> Duration \<Rightarrow> Duration \<Rightarrow> usize \<Rightarrow> MethodRatelimiter" where
  "MethodRatelimiter_with_gc max_hits_fallback window idle_timeout gc_tick =
     \<lparr>mr_active_windows_map = Map.empty, mr_request_counter = 0, mr_window = window,
      mr_max_hits_fallback = max_hits_fallback, mr_idle_timeout = idle_timeout, mr_gc_tick = gc_tick\<rparr>"

definition MethodRatelimiter_new :: "i32 \<Rightarrow> Duration \<Rightarrow> MethodRatelimiter" where
  "MethodRatelimiter_new max_hits_fallback window =
     MethodRatelimiter_with_gc max_hits_fallback window (300 * 10 ^ 9) 1024"

definition maybe_run_gc :: "Instant \<Rightarrow> MethodRatelimiter \<Rightarrow> MethodRatelimiter" where
  "maybe_run_gc now m =
     (if mr_gc_tick m = 0 then m
      else
        let request_counter = mr_request_counter m + 1;
            m1 = m\<lparr>mr_request_counter := request_counter\<rparr>
        in if unat request_counter mod unat (mr_gc_tick m) \<noteq> 0 then m1
           else m1\<lparr>mr_active_windows_map := (\<lambda>key. case mr_active_windows_map m1 key of
                    Some state \<Rightarrow> if now - ws_last_seen state \<le> mr_idle_timeout m1 then Some state else None
                  | None \<Rightarrow> None)\<rparr>)"

text \<open>The limit of a request: that of its method, or the default of its subscription, or that of the server.\<close>

definition ratelimit_of :: "i32 \<Rightarrow> SubscriptionInfo \<Rightarrow> string \<Rightarrow> i32" where
  "ratelimit_of max_hits_fallback info path =
     (case sb_ratelimits info of
        None \<Rightarrow> max_hits_fallback
      | Some ratelimits \<Rightarrow> (case rl_methods ratelimits path of Some n \<Rightarrow> n | None \<Rightarrow> rl_default ratelimits))"

text \<open>\<open>inner_call\<close>: an accepted request is passed on unchanged; a limit of zero panics.\<close>

definition inner_call :: "Parts \<Rightarrow> Instant \<Rightarrow> MethodRatelimiter \<Rightarrow> ((Status + Parts) \<times> MethodRatelimiter) run" where
  "inner_call request now m0 =
     (let m = maybe_run_gc now m0
      in case pa_subscription request of
           None \<Rightarrow> Some (Inr request, m)
         | Some info \<Rightarrow>
             (case pa_path_and_query request of
                None \<Rightarrow> Some (Inr request, m)
              | Some path_and_query \<Rightarrow>
                  let ratelimit = ratelimit_of (mr_max_hits_fallback m) info (uri_path request);
                      key = \<lparr>mk_subscriber_id = sb_subscription_id info,
                             mk_method_name = PathName_from path_and_query, mk_ratelimit = ratelimit\<rparr>
                  in if sint ratelimit < 0 then Some (Inr request, m)
                     else if \<not> 0 < sint ratelimit then None
                     else
                       let state = (case mr_active_windows_map m key of
                              Some st \<Rightarrow> st
                            | None \<Rightarrow> \<lparr>ws_limiter = TokenBucketRateLimiter_new (scast ratelimit) (mr_window m),
                                       ws_last_seen = now\<rparr>)
                       in do {
                            (decision, limiter) \<leftarrow> check_at now (ws_limiter state);
                            (let m1 = m\<lparr>mr_active_windows_map := (mr_active_windows_map m)(key \<mapsto>
                                        \<lparr>ws_limiter = limiter, ws_last_seen = now\<rparr>)\<rparr>
                             in Some (if wd_allowed decision then (Inr request, m1)
                                      else (Inl \<lparr>stat_code = ResourceExhausted,
                                                 stat_message = ''rate limit exceeded'', stat_transport = False\<rparr>, m1)))
                          }))"

section \<open>Connections per address\<close>

text \<open>The table that the incoming streams share, and a wrapped connection. \<open>'ip\<close> is the address of a peer, unknown for
  some transports.\<close>

type_synonym 'ip conn_map = "'ip \<Rightarrow> u64 option"

definition DEFAULT_MAX_IP_CONNCUR :: u64 where
  "DEFAULT_MAX_IP_CONNCUR = 250"

record ('io, 'ip) RateLimitedIO =
  io_wrappee :: 'io
  io_remote_peer :: "'ip option"

definition RateLimitedIO_try_new ::
  "('io \<Rightarrow> 'ip option) \<Rightarrow> 'io \<Rightarrow> u64 \<Rightarrow> 'ip conn_map \<Rightarrow> ((string + ('io, 'ip) RateLimitedIO) \<times> 'ip conn_map) run" where
  "RateLimitedIO_try_new extract_remote_peer_addr io max_ip_conncur active =
     (case extract_remote_peer_addr io of
        None \<Rightarrow> Some (Inr \<lparr>io_wrappee = io, io_remote_peer = None\<rparr>, active)
      | Some ip \<Rightarrow>
          let curr_val = (case active ip of None \<Rightarrow> 0 | Some n \<Rightarrow> n)
          in if max_ip_conncur \<le> curr_val then Some (Inl ''connection limit exceeded for remote peer ip'', active)
             else (case active ip of
                     Some active_count \<Rightarrow>
                       if active_count = - 1 then None
                       else Some (Inr \<lparr>io_wrappee = io, io_remote_peer = Some ip\<rparr>, active(ip \<mapsto> active_count + 1))
                   | None \<Rightarrow> Some (Inr \<lparr>io_wrappee = io, io_remote_peer = Some ip\<rparr>, active(ip \<mapsto> 1))))"

text \<open>\<open>Drop\<close>: the count minus one goes to a new variable; the entry is removed when it is zero and otherwise stays as
  it is.\<close>

definition RateLimitedIO_drop :: "('io, 'ip) RateLimitedIO \<Rightarrow> 'ip conn_map \<Rightarrow> 'ip conn_map run" where
  "RateLimitedIO_drop conn active =
     (case io_remote_peer conn of
        None \<Rightarrow> Some active
      | Some ip \<Rightarrow>
          (case active ip of
             None \<Rightarrow> None
           | Some active_count \<Rightarrow>
               if active_count = 0 then None
               else let new_val = active_count - 1 in if new_val = 0 then Some (active(ip := None)) else Some active))"

text \<open>The stream of connections passes errors on and wraps connections.\<close>

definition incoming_poll_next ::
  "('io \<Rightarrow> 'ip option) \<Rightarrow> u64 \<Rightarrow> ('i \<Rightarrow> (string + 'io) option poll \<times> 'i) \<Rightarrow> 'i \<Rightarrow> 'ip conn_map
   \<Rightarrow> ((string + ('io, 'ip) RateLimitedIO) option poll \<times> 'i \<times> 'ip conn_map) run" where
  "incoming_poll_next extract max_ip_conncur poll_incoming i active =
     (case poll_incoming i of
        (Ready (Some (Inr io)), i1) \<Rightarrow> do {
          (res, active1) \<leftarrow> RateLimitedIO_try_new extract io max_ip_conncur active;
          Some (Ready (Some res), i1, active1)
        }
      | (Ready (Some (Inl e)), i1) \<Rightarrow> Some (Ready (Some (Inl e)), i1, active)
      | (Ready None, i1) \<Rightarrow> Some (Ready None, i1, active)
      | (Pending, i1) \<Rightarrow> Some (Pending, i1, active))"

end
