(* ===== verification/Rate_Limit_Claims.thy ===== *)
theory Rate_Limit_Claims
  imports Rate_Limit
begin

text \<open>
  What the limits guarantee: a bound on the calls of a subscriber and method in any interval, rounding included;
  that dropping idle windows changes no decision; and what the table of connections does.
\<close>

section \<open>Seconds\<close>

text \<open>The exact seconds of a duration, one rounding error, and the accumulated factor of a refill.\<close>

definition secs :: "Duration \<Rightarrow> rat" where
  "secs d = of_nat d / 10 ^ 9"

abbreviation ulp :: rat where
  "ulp \<equiv> 1 / 2 ^ 53"

abbreviation slack :: rat where
  "slack \<equiv> 1 + 1 / 2 ^ 50"

lemma slack_bounds: "(1 + ulp) ^ 5 / (1 - ulp) ^ 2 \<le> slack" "1 \<le> 2 * ((1 - ulp) ^ 5 / (1 + ulp) ^ 2)"
  by (simp_all add: divide_simps)

lemma secs_split: "secs d = of_nat (d div 10 ^ 9) + of_nat (d mod 10 ^ 9) / 10 ^ 9"
proof -
  have "(of_nat d :: rat) = of_nat (10 ^ 9 * (d div 10 ^ 9) + d mod 10 ^ 9)" by simp
  also have "\<dots> = 10 ^ 9 * of_nat (d div 10 ^ 9) + of_nat (d mod 10 ^ 9)"
    by (simp only: of_nat_add of_nat_mult of_nat_power) simp
  finally show ?thesis by (simp add: secs_def field_simps)
qed

lemma as_secs_le: "as_secs_f64 d \<le> secs d * (1 + ulp) ^ 2"
proof -
  let ?a = "of_nat (d div 10 ^ 9) :: rat" and ?b = "of_nat (d mod 10 ^ 9) / 10 ^ 9 :: rat"
  have "f64_round ?a + f64_round ?b \<le> ?a * (1 + ulp) + ?b * (1 + ulp)"
    by (intro add_mono f64_round_le_nonneg) simp_all
  then have "f64_round ?a + f64_round ?b \<le> secs d * (1 + ulp)"
    by (simp only: secs_split distrib_right)
  moreover have "as_secs_f64 d \<le> (f64_round ?a + f64_round ?b) * (1 + ulp)"
    unfolding as_secs_f64_def by (intro f64_round_le_nonneg add_nonneg_nonneg f64_round_nonneg) simp_all
  ultimately have "as_secs_f64 d \<le> secs d * (1 + ulp) * (1 + ulp)"
    by (elim order_trans) (rule mult_right_mono, simp_all)
  then show ?thesis by (simp only: power2_eq_square mult.assoc)
qed

lemma as_secs_ge: "secs d * (1 - ulp) ^ 2 \<le> as_secs_f64 d"
proof -
  let ?a = "of_nat (d div 10 ^ 9) :: rat" and ?b = "of_nat (d mod 10 ^ 9) / 10 ^ 9 :: rat"
  have "?a * (1 - ulp) + ?b * (1 - ulp) \<le> f64_round ?a + f64_round ?b"
    by (intro add_mono f64_round_ge_nonneg) simp_all
  then have "secs d * (1 - ulp) \<le> f64_round ?a + f64_round ?b"
    by (simp only: secs_split distrib_right)
  then have "secs d * (1 - ulp) * (1 - ulp) \<le> (f64_round ?a + f64_round ?b) * (1 - ulp)"
    by (rule mult_right_mono) simp
  also have "\<dots> \<le> as_secs_f64 d"
    unfolding as_secs_f64_def by (intro f64_round_ge_nonneg add_nonneg_nonneg f64_round_nonneg) simp_all
  finally show ?thesis by (simp only: power2_eq_square mult.assoc)
qed

lemma secs_nonneg [simp]: "0 \<le> secs d" and secs_pos: "0 < d \<Longrightarrow> 0 < secs d"
  by (simp_all add: secs_def)

lemma secs_0 [simp]: "secs 0 = 0" "as_secs_f64 0 = 0"
  by (simp_all add: secs_def as_secs_f64_def)

lemma as_secs_pos: "0 < d \<Longrightarrow> 0 < as_secs_f64 d"
proof -
  assume "0 < d"
  then have "0 < secs d * (1 - ulp) ^ 2" by (intro mult_pos_pos secs_pos) simp_all
  with as_secs_ge [of d] show ?thesis by linarith
qed

lemma as_secs_nonneg [simp]: "0 \<le> as_secs_f64 d"
  using as_secs_pos [of d] by (cases "d = 0") auto

lemma as_secs_eq_0 [simp]: "as_secs_f64 d = 0 \<longleftrightarrow> d = 0"
  using as_secs_pos [of d] by (cases "d = 0") auto

lemma as_secs_pos_iff [simp]: "0 < as_secs_f64 d \<longleftrightarrow> 0 < d"
  using as_secs_pos [of d] by (cases "d = 0") auto

lemma secs_mono: "a \<le> b \<Longrightarrow> secs a \<le> secs b"
  by (simp add: secs_def divide_right_mono)

lemma secs_add: "secs (a + b) = secs a + secs b"
  by (simp add: secs_def add_divide_distrib)

section \<open>One check of the bucket\<close>

text \<open>A bucket of \<open>b\<close> tokens for a window, whatever its state.\<close>

definition bucket :: "nat \<Rightarrow> Duration \<Rightarrow> TokenBucketRateLimiter \<Rightarrow> bool" where
  "bucket n window l \<longleftrightarrow>
     n < 2 ^ 53 \<and> tb_burst_capacity l = of_nat n \<and> tb_refill_per_sec l = f64_round (of_nat n / as_secs_f64 window) \<and>
     tb_window l = window \<and>
     (case tb_state l of None \<Rightarrow> True | Some st \<Rightarrow> 0 \<le> to_tokens st \<and> to_tokens st \<le> of_nat n)"

definition window_ok :: "Duration \<Rightarrow> bool" where
  "window_ok window \<longleftrightarrow> 0 < window \<and> window < 2 ^ 63 * 10 ^ 9"

lemma window_secs: "0 < window \<Longrightarrow> max (as_secs_f64 window) f64_EPSILON = as_secs_f64 window"
proof -
  assume "0 < window"
  then have "secs 1 \<le> secs window" by (intro secs_mono) simp
  then have "secs 1 * (1 - ulp) ^ 2 \<le> secs window * (1 - ulp) ^ 2" by (rule mult_right_mono) simp
  with as_secs_ge [of window] have "secs 1 * (1 - ulp) ^ 2 \<le> as_secs_f64 window" by linarith
  moreover have "f64_EPSILON \<le> secs 1 * (1 - ulp) ^ 2"
    by (simp add: f64_EPSILON_def secs_def divide_simps)
  ultimately show ?thesis by simp
qed

lemma bucket_new:
  assumes "0 < window" "n < 2 ^ 53" "unat hits = n"
  shows "bucket n window (TokenBucketRateLimiter_new hits window)"
  using assms f64_round_nat [of n]
  by (simp add: bucket_def TokenBucketRateLimiter_new_def Let_def window_secs)

lemma rate_le:
  assumes "0 < window"
  shows "f64_round (of_nat n / as_secs_f64 window) * ((1 - ulp) ^ 2 * secs window) \<le> of_nat n * (1 + ulp)"
proof -
  have pos: "0 < as_secs_f64 window" using assms by simp
  have "f64_round (of_nat n / as_secs_f64 window) * ((1 - ulp) ^ 2 * secs window) \<le>
      of_nat n / as_secs_f64 window * (1 + ulp) * as_secs_f64 window"
    using pos as_secs_ge [of window] secs_nonneg [of window]
    by (intro mult_mono f64_round_le_nonneg) (simp_all add: mult.commute)
  also have "\<dots> = of_nat n * (1 + ulp)" using pos by simp
  finally show ?thesis .
qed

lemma rate_ge:
  assumes "0 < window"
  shows "of_nat n * (1 - ulp) \<le> f64_round (of_nat n / as_secs_f64 window) * ((1 + ulp) ^ 2 * secs window)"
proof -
  have pos: "0 < as_secs_f64 window" using assms by simp
  have "of_nat n * (1 - ulp) = of_nat n / as_secs_f64 window * (1 - ulp) * as_secs_f64 window"
    using pos by simp
  also have "\<dots> \<le> f64_round (of_nat n / as_secs_f64 window) * ((1 + ulp) ^ 2 * secs window)"
    using pos as_secs_le [of window]
    by (intro mult_mono f64_round_ge_nonneg f64_round_nonneg) (simp_all add: mult.commute)
  finally show ?thesis .
qed

text \<open>What an interval adds, at most and at least.\<close>

lemma refill_le:
  assumes "0 < window"
  shows "as_secs_f64 e * f64_round (of_nat n / as_secs_f64 window) * (1 + ulp) ^ 2 \<le>
    of_nat n * slack * (secs e / secs window)"
proof -
  let ?r = "f64_round (of_nat n / as_secs_f64 window)" and ?q = "(1 - ulp) ^ 2 :: rat"
  have r: "0 \<le> ?r" using assms by (intro f64_round_nonneg) (simp add: less_imp_le)
  have w: "0 < secs window" by (rule secs_pos [OF assms])
  have q: "0 < ?q" by simp
  have "?r * (?q * secs window) / (?q * secs window) \<le> of_nat n * (1 + ulp) / (?q * secs window)"
    using w q rate_le [OF assms, of n] by (intro divide_right_mono) simp_all
  then have r_le: "?r \<le> of_nat n * (1 + ulp) / (?q * secs window)" using w q by simp
  have "as_secs_f64 e * ?r * (1 + ulp) ^ 2 \<le> secs e * (1 + ulp) ^ 2 * (of_nat n * (1 + ulp) / (?q * secs window)) * (1 + ulp) ^ 2"
    using r as_secs_le [of e] r_le by (intro mult_right_mono mult_mono) simp_all
  also have "\<dots> = of_nat n * (secs e / secs window) * ((1 + ulp) ^ 5 / ?q)"
    using w q by (simp add: field_simps power_numeral_reduce)
  also have "\<dots> \<le> of_nat n * (secs e / secs window) * slack"
    using w slack_bounds(1) by (intro mult_left_mono) simp_all
  finally show ?thesis by (simp only: ac_simps)
qed

lemma refill_ge:
  assumes "0 < window" "2 * window \<le> e"
  shows "of_nat n \<le> as_secs_f64 e * f64_round (of_nat n / as_secs_f64 window) * (1 - ulp) ^ 2"
proof -
  let ?r = "f64_round (of_nat n / as_secs_f64 window)" and ?q = "(1 + ulp) ^ 2 :: rat"
  have r: "0 \<le> ?r" using assms by (intro f64_round_nonneg) (simp add: less_imp_le)
  have w: "0 < secs window" by (rule secs_pos [OF assms(1)])
  have q: "0 < ?q" by simp
  have e: "2 * secs window \<le> secs e" using secs_mono [OF assms(2)] by (simp add: secs_def)
  have "of_nat n * (1 - ulp) / (?q * secs window) \<le> ?r * (?q * secs window) / (?q * secs window)"
    using w q rate_ge [OF assms(1), of n] by (intro divide_right_mono) simp_all
  then have r_ge: "of_nat n * (1 - ulp) / (?q * secs window) \<le> ?r" using w q by simp
  have "of_nat n * 1 \<le> of_nat n * (2 * ((1 - ulp) ^ 5 / ?q))"
    using slack_bounds(2) by (rule mult_left_mono) simp
  also have "\<dots> = 2 * secs window * (1 - ulp) ^ 2 * (of_nat n * (1 - ulp) / (?q * secs window)) * (1 - ulp) ^ 2"
    using w q by (simp add: field_simps power_numeral_reduce)
  also have "\<dots> \<le> secs e * (1 - ulp) ^ 2 * ?r * (1 - ulp) ^ 2"
    using r_ge e w by (intro mult_right_mono mult_mono) simp_all
  also have "\<dots> \<le> as_secs_f64 e * ?r * (1 - ulp) ^ 2"
    using as_secs_ge [of e] r by (intro mult_right_mono) simp_all
  finally show ?thesis by simp
qed

lemma refilled:
  assumes "0 < window" "0 \<le> to_tokens st" "to_tokens st \<le> of_nat n"
    and "st1 = refill_state now (of_nat n) (f64_round (of_nat n / as_secs_f64 window)) st"
  shows "0 \<le> to_tokens st1" "to_tokens st1 \<le> of_nat n"
    "to_last_refill st1 = max now (to_last_refill st)"
    "to_tokens st1 \<le> to_tokens st + of_nat n * ulp + of_nat n * slack * (secs (now - to_last_refill st) / secs window)"
proof -
  let ?r = "f64_round (of_nat n / as_secs_f64 window)" and ?e = "as_secs_f64 (now - to_last_refill st)"
  have r: "0 \<le> ?r" by (intro f64_round_nonneg) simp
  have "f64_round (to_tokens st + f64_round (?e * ?r)) \<le> (to_tokens st + ?e * ?r * (1 + ulp)) * (1 + ulp)"
    using assms(2) r
    by (intro order_trans [OF f64_round_le_nonneg] mult_right_mono add_left_mono f64_round_le_nonneg
        add_nonneg_nonneg f64_round_nonneg mult_nonneg_nonneg) simp_all
  also have "\<dots> = to_tokens st + to_tokens st * ulp + ?e * ?r * (1 + ulp) ^ 2"
    by (simp add: algebra_simps power2_eq_square)
  also have "\<dots> \<le> to_tokens st + of_nat n * ulp + of_nat n * slack * (secs (now - to_last_refill st) / secs window)"
    using assms(3) by (intro add_mono refill_le assms(1) mult_right_mono) simp_all
  finally have up: "f64_round (to_tokens st + f64_round (?e * ?r)) \<le>
    to_tokens st + of_nat n * ulp + of_nat n * slack * (secs (now - to_last_refill st) / secs window)" .
  have low: "0 \<le> f64_round (to_tokens st + f64_round (?e * ?r))"
    using assms(2) r by (intro f64_round_nonneg add_nonneg_nonneg mult_nonneg_nonneg) simp_all
  have rest: "0 \<le> of_nat n * ulp + of_nat n * slack * (secs (now - to_last_refill st) / secs window)"
    by (intro add_nonneg_nonneg mult_nonneg_nonneg divide_nonneg_nonneg) simp_all
  show "0 \<le> to_tokens st1" "to_tokens st1 \<le> of_nat n" "to_last_refill st1 = max now (to_last_refill st)"
    using assms(2-4) low by (auto simp: refill_state_def Let_def)
  show "to_tokens st1 \<le> to_tokens st + of_nat n * ulp + of_nat n * slack * (secs (now - to_last_refill st) / secs window)"
    using assms(4) up rest by (auto simp: refill_state_def Let_def)
qed

lemma refilled_full:
  assumes "0 < window" "0 \<le> to_tokens st" "2 * window \<le> now - to_last_refill st"
  shows "refill_state now (of_nat n) (f64_round (of_nat n / as_secs_f64 window)) st =
    \<lparr>to_tokens = of_nat n, to_last_refill = now\<rparr>"
proof -
  let ?r = "f64_round (of_nat n / as_secs_f64 window)" and ?e = "as_secs_f64 (now - to_last_refill st)"
  have r: "0 \<le> ?r" by (intro f64_round_nonneg) simp
  have x: "0 \<le> f64_round (?e * ?r)" using r by (intro f64_round_nonneg mult_nonneg_nonneg) simp_all
  have "of_nat n \<le> ?e * ?r * (1 - ulp) * (1 - ulp)"
    using refill_ge [OF assms(1,3), of n] by (simp only: power2_eq_square mult.assoc)
  also have "\<dots> \<le> f64_round (?e * ?r) * (1 - ulp)"
    using r by (intro mult_right_mono f64_round_ge_nonneg mult_nonneg_nonneg) simp_all
  also have "\<dots> \<le> (to_tokens st + f64_round (?e * ?r)) * (1 - ulp)"
    using assms(2) by (intro mult_right_mono) simp_all
  also have "\<dots> \<le> f64_round (to_tokens st + f64_round (?e * ?r))"
    using assms(2) x by (intro f64_round_ge_nonneg) simp
  finally show ?thesis using assms by (simp add: refill_state_def Let_def)
qed

text \<open>The retry delay of a valid bucket is a duration, so a check never panics.\<close>

lemma retry_after_returns:
  assumes "window_ok window" "0 < n" "0 \<le> tokens" "tokens < 1"
  shows "retry_after tokens (f64_round (of_nat n / as_secs_f64 window)) \<noteq> None"
proof -
  let ?r = "f64_round (of_nat n / as_secs_f64 window)" and ?m = "max (f64_round (1 - tokens)) 0"
  have w: "0 < window" "secs window < 2 ^ 63" using assms(1) by (simp_all add: window_ok_def secs_def)
  have n: "(1 :: rat) \<le> of_nat n" using assms(2) by simp
  have r: "0 < ?r" using w(1) assms(2) by (intro f64_round_pos) simp
  have "1 * (1 - ulp) \<le> of_nat n * (1 - ulp)" using n by (intro mult_right_mono) simp_all
  also have "\<dots> \<le> ?r * ((1 + ulp) ^ 2 * secs window)" by (rule rate_ge [OF w(1)])
  finally have "(1 - ulp) / ?r \<le> (1 + ulp) ^ 2 * secs window" using r by (simp add: pos_divide_le_eq mult.commute)
  moreover have m: "0 \<le> ?m" "?m \<le> 1 + ulp" using assms(3,4) f64_round_le [of "1 - tokens"] mult_left_mono [of "1 - tokens" 1 "1 + ulp"]
    by (auto simp: max_def mult.commute)
  ultimately have "?m / ?r \<le> (1 + ulp) / (1 - ulp) * ((1 + ulp) ^ 2 * secs window)"
    using r divide_right_mono [OF m(2), of ?r] mult_left_mono [of "(1 - ulp) / ?r" "(1 + ulp) ^ 2 * secs window" "(1 + ulp) / (1 - ulp)"]
    by simp
  then have "?m / ?r \<le> (1 + ulp) / (1 - ulp) * ((1 + ulp) ^ 2 * 2 ^ 63)"
    using w(2) by (elim order_trans) (intro mult_left_mono, simp_all)
  then have "?m / ?r * (1 + ulp) \<le> (1 + ulp) / (1 - ulp) * ((1 + ulp) ^ 2 * 2 ^ 63) * (1 + ulp)"
    by (rule mult_right_mono) simp
  moreover have "f64_round (?m / ?r) \<le> ?m / ?r * (1 + ulp)"
    using m(1) r by (intro f64_round_le_nonneg) simp
  ultimately have "f64_round (?m / ?r) \<le> (1 + ulp) / (1 - ulp) * ((1 + ulp) ^ 2 * 2 ^ 63) * (1 + ulp)"
    by (rule order_trans [rotated])
  moreover have "(0 :: rat) \<le> (1 + ulp) / (1 - ulp) * ((1 + ulp) ^ 2 * 2 ^ 63) * (1 + ulp)" by simp
  ultimately have "max (f64_round (?m / ?r)) 0 \<le> (1 + ulp) / (1 - ulp) * ((1 + ulp) ^ 2 * 2 ^ 63) * (1 + ulp)"
    by (rule max.boundedI)
  also have "\<dots> < 2 ^ 64 - 1" by (simp add: power2_eq_square)
  finally have "max (f64_round (?m / ?r)) 0 * 10 ^ 9 < (2 ^ 64 - 1) * 10 ^ 9" by simp
  then have "max (f64_round (?m / ?r)) 0 * 10 ^ 9 + 1 / 2 < 2 ^ 64 * 10 ^ 9" by simp
  then have "rat_of_int (round_half_even (max (f64_round (?m / ?r)) 0 * 10 ^ 9)) < of_int (2 ^ 64 * 10 ^ 9)"
    using round_half_even_le [of "max (f64_round (?m / ?r)) 0 * 10 ^ 9"] by simp
  then have "round_half_even (max (f64_round (?m / ?r)) 0 * 10 ^ 9) < 2 ^ 64 * 10 ^ 9"
    by (simp only: of_int_less_iff)
  then show ?thesis using r by (simp add: retry_after_def from_secs_f64_def Let_def)
qed

text \<open>A check of a bucket: it returns, keeps the bucket valid, and pays for an admission with a token.\<close>

definition state_of :: "nat \<Rightarrow> Instant \<Rightarrow> TokenBucketRateLimiter \<Rightarrow> TokenState" where
  "state_of n now l = (case tb_state l of None \<Rightarrow> \<lparr>to_tokens = of_nat n, to_last_refill = now\<rparr> | Some st \<Rightarrow> st)"

lemma check_bucket:
  assumes "window_ok window" "0 < n" "bucket n window l"
  shows "\<exists>d l1 st1. check_at now l = Some (d, l1) \<and> bucket n window l1 \<and> tb_state l1 = Some st1 \<and>
    to_last_refill st1 = max now (to_last_refill (state_of n now l)) \<and>
    to_tokens st1 + of_bool (wd_allowed d) \<le>
      min (of_nat n) (to_tokens (state_of n now l) + of_nat n * ulp +
        of_nat n * slack * (secs (now - to_last_refill (state_of n now l)) / secs window)) + of_nat n * ulp"
proof -
  let ?st = "state_of n now l"
  let ?up = "to_tokens ?st + of_nat n * ulp + of_nat n * slack * (secs (now - to_last_refill ?st) / secs window)"
  let ?r = "f64_round (of_nat n / as_secs_f64 window)"
  define st where "st = refill_state now (of_nat n) ?r ?st"
  have w: "0 < window" using assms(1) by (simp add: window_ok_def)
  have l: "tb_burst_capacity l = of_nat n" "tb_refill_per_sec l = ?r" "0 \<le> to_tokens ?st" "to_tokens ?st \<le> of_nat n"
    using assms(3) by (auto simp: bucket_def state_of_def split: option.splits)
  note st = refilled [OF w l(3,4) st_def]
  have "rat_of_nat n \<le> of_nat (2 ^ 53)" using assms(3) by (simp only: of_nat_le_iff bucket_def) simp
  then have n: "rat_of_nat n \<le> 2 ^ 53" by simp
  have inserted: "(case tb_state l of None \<Rightarrow> \<lparr>to_tokens = tb_burst_capacity l, to_last_refill = now\<rparr> | Some st \<Rightarrow> st) = ?st"
    by (simp add: state_of_def l split: option.split)
  show ?thesis
  proof (cases "1 \<le> to_tokens st")
    case True
    have "f64_round (to_tokens st - 1) \<le> (to_tokens st - 1) * (1 + ulp)" using True by (intro f64_round_le_nonneg) simp
    also have "\<dots> = to_tokens st - 1 + (to_tokens st - 1) * ulp" by (simp only: distrib_left mult_1_right)
    finally have round: "f64_round (to_tokens st - 1) \<le> to_tokens st - 1 + (to_tokens st - 1) * ulp" .
    moreover have "(to_tokens st - 1) * ulp \<le> of_nat n * ulp" using st(2) by (intro mult_right_mono) simp_all
    moreover have "to_tokens st \<le> min (of_nat n) ?up" using st(2,4) by (rule min.boundedI)
    ultimately have "f64_round (to_tokens st - 1) + 1 \<le> min (of_nat n) ?up + of_nat n * ulp" by linarith
    moreover have "of_nat n * ulp \<le> 1" using n by simp
    then have "f64_round (to_tokens st - 1) \<le> of_nat n"
      using round \<open>(to_tokens st - 1) * ulp \<le> of_nat n * ulp\<close> st(2) by linarith
    ultimately show ?thesis
      using assms(2,3) True st(3) f64_round_nonneg [of "to_tokens st - 1"]
      by (simp add: check_at_def Let_def inserted l st_def [symmetric] bucket_def)
  next
    case False
    then obtain delay where "retry_after (to_tokens st) ?r = Some delay"
      using retry_after_returns [OF assms(1,2) st(1)] by auto
    then show ?thesis
      using assms(2,3) False st
      by (simp add: check_at_def Let_def inserted l st_def [symmetric] bucket_def)
  qed
qed

section \<open>An interval\<close>

fun run_checks :: "Instant list \<Rightarrow> TokenBucketRateLimiter \<Rightarrow> (bool list \<times> TokenBucketRateLimiter) run" where
  "run_checks [] l = Some ([], l)"
| "run_checks (now # ts) l =
     do { (d, l1) \<leftarrow> check_at now l; (ds, l2) \<leftarrow> run_checks ts l1; Some (wd_allowed d # ds, l2) }"

abbreviation admitted :: "bool list \<Rightarrow> rat" where
  "admitted ds \<equiv> of_nat (length (filter (\<lambda>d. d) ds))"

lemma of_bool_admitted: "admitted (d # ds) = of_bool d + admitted ds"
  by simp

text \<open>From a known state: admissions are paid by the tokens, the refill of the interval and rounding.\<close>

lemma checks_from:
  assumes "window_ok window" "0 < n"
  shows "bucket n window l \<Longrightarrow> tb_state l = Some st \<Longrightarrow> \<forall>t \<in> set ts. t \<le> b \<Longrightarrow>
    \<exists>ds l2. run_checks ts l = Some (ds, l2) \<and> bucket n window l2 \<and>
      admitted ds \<le> to_tokens st + of_nat (length ts) * (2 * of_nat n * ulp) +
        of_nat n * slack * (secs (b - to_last_refill st) / secs window)"
proof (induction ts arbitrary: l st)
  case Nil
  have "0 \<le> to_tokens st" using Nil by (simp add: bucket_def)
  moreover have "0 \<le> of_nat n * slack * (secs (b - to_last_refill st) / secs window)"
    by (intro mult_nonneg_nonneg divide_nonneg_nonneg) simp_all
  ultimately have "0 \<le> to_tokens st + of_nat n * slack * (secs (b - to_last_refill st) / secs window)"
    by (rule add_nonneg_nonneg)
  then show ?case using Nil by simp
next
  case (Cons now ts)
  let ?cost = "\<lambda>e. of_nat n * slack * (secs e / secs window)"
  have state: "state_of n now l = st" using Cons.prems(2) by (simp add: state_of_def)
  obtain d l1 st1 where step: "check_at now l = Some (d, l1)" "bucket n window l1" "tb_state l1 = Some st1"
      "to_last_refill st1 = max now (to_last_refill st)"
      "to_tokens st1 + of_bool (wd_allowed d) \<le> to_tokens st + of_nat n * ulp + ?cost (now - to_last_refill st) + of_nat n * ulp"
    using check_bucket [OF assms Cons.prems(1), of now] unfolding state by auto
  obtain ds l2 where rest: "run_checks ts l1 = Some (ds, l2)" "bucket n window l2"
      "admitted ds \<le> to_tokens st1 + of_nat (length ts) * (2 * of_nat n * ulp) + ?cost (b - to_last_refill st1)"
    using Cons.IH [OF step(2,3)] Cons.prems(3) by auto
  have "now - to_last_refill st + (b - to_last_refill st1) \<le> b - to_last_refill st"
    using step(4) Cons.prems(3) by auto
  then have "secs (now - to_last_refill st) + secs (b - to_last_refill st1) \<le> secs (b - to_last_refill st)"
    unfolding secs_add [symmetric] by (rule secs_mono)
  then have "of_nat n * slack * ((secs (now - to_last_refill st) + secs (b - to_last_refill st1)) / secs window) \<le>
      ?cost (b - to_last_refill st)"
    by (intro mult_left_mono divide_right_mono) simp_all
  then have time: "?cost (now - to_last_refill st) + ?cost (b - to_last_refill st1) \<le> ?cost (b - to_last_refill st)"
    by (simp only: add_divide_distrib distrib_left)
  have "of_nat (length (now # ts)) * (2 * of_nat n * ulp) =
      of_nat n * ulp + of_nat n * ulp + of_nat (length ts) * (2 * of_nat n * ulp)"
    by (simp add: algebra_simps)
  then have "admitted (wd_allowed d # ds) \<le> to_tokens st + of_nat (length (now # ts)) * (2 * of_nat n * ulp) +
      ?cost (b - to_last_refill st)"
    unfolding of_bool_admitted using step(5) rest(3) time by linarith
  with step(1) rest(1,2) show ?case by simp
qed

text \<open>Whatever the state, the checks of an interval from \<open>a\<close> to \<open>b\<close>.\<close>

lemma checks_between:
  assumes "window_ok window" "0 < n" "bucket n window l" "\<forall>t \<in> set ts. a \<le> t \<and> t \<le> b"
  shows "\<exists>ds l2. run_checks ts l = Some (ds, l2) \<and> bucket n window l2 \<and>
    admitted ds \<le> of_nat n * (1 + slack * (secs (b - a) / secs window)) + of_nat (length ts) * (2 * of_nat n * ulp)"
proof (cases ts)
  case Nil
  have "0 \<le> of_nat n * (1 + slack * (secs (b - a) / secs window))"
    by (intro mult_nonneg_nonneg add_nonneg_nonneg divide_nonneg_nonneg) simp_all
  then show ?thesis using Nil assms(3) by simp
next
  case (Cons now rest)
  obtain d l1 st1 where step: "check_at now l = Some (d, l1)" "bucket n window l1" "tb_state l1 = Some st1"
      "to_last_refill st1 = max now (to_last_refill (state_of n now l))"
      "to_tokens st1 + of_bool (wd_allowed d) \<le> of_nat n + of_nat n * ulp"
    using check_bucket [OF assms(1-3), of now] by auto
  obtain ds l2 where more: "run_checks rest l1 = Some (ds, l2)" "bucket n window l2"
      "admitted ds \<le> to_tokens st1 + of_nat (length rest) * (2 * of_nat n * ulp) +
        of_nat n * slack * (secs (b - to_last_refill st1) / secs window)"
    using checks_from [OF assms(1,2) step(2,3), of rest b] assms(4) Cons by auto
  have "b - to_last_refill st1 \<le> b - a" using step(4) assms(4) Cons by auto
  then have "of_nat n * slack * (secs (b - to_last_refill st1) / secs window) \<le>
      of_nat n * slack * (secs (b - a) / secs window)"
    by (intro mult_left_mono divide_right_mono secs_mono) simp_all
  moreover have "of_nat (length ts) * (2 * of_nat n * ulp) =
      of_nat n * ulp + of_nat n * ulp + of_nat (length rest) * (2 * of_nat n * ulp)"
    using Cons by (simp add: algebra_simps)
  moreover have "0 \<le> rat_of_nat n * ulp" by simp
  moreover have "of_nat n * (1 + slack * (secs (b - a) / secs window)) =
      of_nat n + of_nat n * slack * (secs (b - a) / secs window)"
    using distrib_left [of "of_nat n" 1 "slack * (secs (b - a) / secs window)"] by (simp only: mult_1_right mult.assoc)
  ultimately have "admitted (wd_allowed d # ds) \<le>
      of_nat n * (1 + slack * (secs (b - a) / secs window)) + of_nat (length ts) * (2 * of_nat n * ulp)"
    unfolding of_bool_admitted using step(5) more(3) by linarith
  with step(1) more(1,2) Cons show ?thesis by simp
qed

section \<open>Calls\<close>

fun run_calls :: "(Instant \<times> Parts) list \<Rightarrow> MethodRatelimiter \<Rightarrow> ((Status + Parts) list \<times> MethodRatelimiter) run" where
  "run_calls [] m = Some ([], m)"
| "run_calls ((now, request) # calls) m =
     do { (res, m1) \<leftarrow> inner_call request now m; (rs, m2) \<leftarrow> run_calls calls m1; Some (res # rs, m2) }"

text \<open>The window that a request is counted in, if it is limited.\<close>

definition key_of :: "i32 \<Rightarrow> Parts \<Rightarrow> MethodRatelimitKey option" where
  "key_of fallback request =
     (case (pa_subscription request, pa_path_and_query request) of
        (Some info, Some path_and_query) \<Rightarrow>
          (let ratelimit = ratelimit_of fallback info (uri_path request)
           in if sint ratelimit < 0 then None
              else Some \<lparr>mk_subscriber_id = sb_subscription_id info, mk_method_name = PathName_from path_and_query,
                         mk_ratelimit = ratelimit\<rparr>)
      | _ \<Rightarrow> None)"

definition limit_of :: "MethodRatelimitKey \<Rightarrow> nat" where
  "limit_of key = nat (sint (mk_ratelimit key))"

definition limiter_of :: "MethodRatelimiter \<Rightarrow> MethodRatelimitKey \<Rightarrow> TokenBucketRateLimiter" where
  "limiter_of m key =
     (case mr_active_windows_map m key of
        Some st \<Rightarrow> ws_limiter st
      | None \<Rightarrow> TokenBucketRateLimiter_new (scast (mk_ratelimit key)) (mr_window m))"

definition note_call :: "MethodRatelimitKey \<Rightarrow> Instant \<Rightarrow> TokenBucketRateLimiter \<Rightarrow> MethodRatelimiter \<Rightarrow> MethodRatelimiter" where
  "note_call key now limiter m =
     m\<lparr>mr_active_windows_map := (mr_active_windows_map m)(key \<mapsto> \<lparr>ws_limiter = limiter, ws_last_seen = now\<rparr>)\<rparr>"

lemma inner_call_key:
  "inner_call request now m0 =
     (let m = maybe_run_gc now m0 in
      case key_of (mr_max_hits_fallback m) request of
        None \<Rightarrow> Some (Inr request, m)
      | Some key \<Rightarrow>
          if limit_of key = 0 then None
          else do {
            (d, limiter) \<leftarrow> check_at now (limiter_of m key);
            Some (if wd_allowed d then Inr request
                  else Inl \<lparr>stat_code = ResourceExhausted, stat_message = ''rate limit exceeded'', stat_transport = False\<rparr>,
                  note_call key now limiter m)
          })"
  by (auto simp: inner_call_def key_of_def limit_of_def limiter_of_def note_call_def Let_def
      split: option.splits Option.bind_splits)

lemma gc_fields [simp]:
  "mr_max_hits_fallback (maybe_run_gc now m) = mr_max_hits_fallback m"
  "mr_window (maybe_run_gc now m) = mr_window m"
  "mr_idle_timeout (maybe_run_gc now m) = mr_idle_timeout m"
  "mr_gc_tick (maybe_run_gc now m) = mr_gc_tick m"
  by (simp_all add: maybe_run_gc_def Let_def)

lemma note_fields [simp]:
  "mr_max_hits_fallback (note_call key now l m) = mr_max_hits_fallback m"
  "mr_window (note_call key now l m) = mr_window m"
  "mr_idle_timeout (note_call key now l m) = mr_idle_timeout m"
  "mr_gc_tick (note_call key now l m) = mr_gc_tick m"
  "mr_active_windows_map (note_call key now l m) =
     (mr_active_windows_map m)(key \<mapsto> \<lparr>ws_limiter = l, ws_last_seen = now\<rparr>)"
  by (simp_all add: note_call_def)

lemma unat_scast_limit: "0 \<le> sint (r :: i32) \<Longrightarrow> unat (scast r :: u64) = nat (sint r)"
proof -
  assume r: "0 \<le> sint r"
  have "sint (scast r :: u64) = sint r" by (rule sint_up_scast) (simp add: is_up_def source_size_def target_size_def word_size)
  then have "uint (scast r :: u64) = take_bit 64 (sint r)" by (simp add: uint_sint)
  moreover have "sint r < 2 ^ 64" using sint_lt [of r] by simp
  ultimately have "uint (scast r :: u64) = sint r" using r by (simp add: take_bit_int_eq_self)
  then show ?thesis by (simp add: unat_eq_nat_uint)
qed

lemma limit_bound: "limit_of key < 2 ^ 31"
  using sint_lt [of "mk_ratelimit key"] by (simp add: limit_of_def)


section \<open>Windows of a limiter\<close>

text \<open>A valid limiter at time \<open>T\<close>: its windows are buckets of their limits, last refilled when they were last used at
  the latest.\<close>

definition windows_ok :: "Instant \<Rightarrow> MethodRatelimiter \<Rightarrow> bool" where
  "windows_ok T m \<longleftrightarrow>
     (\<forall>key st. mr_active_windows_map m key = Some st \<longrightarrow>
        0 < limit_of key \<and> bucket (limit_of key) (mr_window m) (ws_limiter st) \<and>
        (\<exists>ts. tb_state (ws_limiter st) = Some ts \<and> to_last_refill ts \<le> ws_last_seen st) \<and> ws_last_seen st \<le> T)"

lemma key_of_limit:
  assumes "key_of fallback request = Some key"
  shows "0 \<le> sint (mk_ratelimit key)"
  using assms by (auto simp: key_of_def Let_def split: option.splits if_splits prod.splits)

lemma fresh_bucket:
  assumes "window_ok window" "key_of fallback request = Some key"
  shows "bucket (limit_of key) window (TokenBucketRateLimiter_new (scast (mk_ratelimit key)) window)"
    "tb_state (TokenBucketRateLimiter_new (scast (mk_ratelimit key)) window) = None"
proof -
  have "limit_of key < 2 ^ 53" using limit_bound [of key] by simp
  moreover have "unat (scast (mk_ratelimit key) :: u64) = limit_of key"
    using key_of_limit [OF assms(2)] by (simp add: unat_scast_limit limit_of_def)
  ultimately show "bucket (limit_of key) window (TokenBucketRateLimiter_new (scast (mk_ratelimit key)) window)"
    using assms(1) by (simp add: bucket_new window_ok_def)
  show "tb_state (TokenBucketRateLimiter_new (scast (mk_ratelimit key)) window) = None"
    by (simp add: TokenBucketRateLimiter_new_def Let_def)
qed

lemma limiter_of_bucket:
  assumes "windows_ok T m" "window_ok (mr_window m)" "key_of fallback request = Some key"
  shows "bucket (limit_of key) (mr_window m) (limiter_of m key)"
proof (cases "mr_active_windows_map m key")
  case None
  then show ?thesis using fresh_bucket(1) [OF assms(2,3)] by (simp add: limiter_of_def)
next
  case (Some st)
  then show ?thesis using assms(1) by (simp add: limiter_of_def windows_ok_def)
qed

lemma windows_ok_later: "windows_ok T m \<Longrightarrow> T \<le> now \<Longrightarrow> windows_ok now m"
  unfolding windows_ok_def by (meson order_trans)

text \<open>A checked window stays valid.\<close>

lemma windows_ok_note:
  assumes "windows_ok T m" "window_ok (mr_window m)" "T \<le> now" "key_of fallback request = Some key" "0 < limit_of key"
    and "check_at now (limiter_of m key) = Some (d, l)"
  shows "windows_ok now (note_call key now l m)"
proof -
  obtain st1 where st1: "bucket (limit_of key) (mr_window m) l" "tb_state l = Some st1"
      "to_last_refill st1 = max now (to_last_refill (state_of (limit_of key) now (limiter_of m key)))"
    using check_bucket [OF assms(2,5) limiter_of_bucket [OF assms(1,2,4)], of now] assms(6) by auto
  have "to_last_refill (state_of (limit_of key) now (limiter_of m key)) \<le> now"
  proof (cases "mr_active_windows_map m key")
    case None
    then show ?thesis by (simp add: state_of_def limiter_of_def TokenBucketRateLimiter_new_def Let_def)
  next
    case (Some st)
    then obtain ts where "tb_state (ws_limiter st) = Some ts" "to_last_refill ts \<le> ws_last_seen st" "ws_last_seen st \<le> T"
      using assms(1) by (auto simp: windows_ok_def)
    with Some assms(3) show ?thesis by (simp add: state_of_def limiter_of_def)
  qed
  with st1 assms(5) windows_ok_later [OF assms(1,3)] show ?thesis by (simp add: windows_ok_def)
qed

subsection \<open>Dropping idle windows\<close>

text \<open>\<open>m1\<close> is \<open>m2\<close> without some windows that are idle at time \<open>T\<close>.\<close>

definition idle_dropped :: "Instant \<Rightarrow> MethodRatelimiter \<Rightarrow> MethodRatelimiter \<Rightarrow> bool" where
  "idle_dropped T m1 m2 \<longleftrightarrow>
     mr_max_hits_fallback m1 = mr_max_hits_fallback m2 \<and> mr_window m1 = mr_window m2 \<and>
     mr_idle_timeout m1 = mr_idle_timeout m2 \<and>
     (\<forall>key. mr_active_windows_map m1 key = mr_active_windows_map m2 key \<or>
        mr_active_windows_map m1 key = None \<and>
        (\<exists>st. mr_active_windows_map m2 key = Some st \<and> mr_idle_timeout m2 < T - ws_last_seen st))"

lemma idle_dropped_later:
  assumes "idle_dropped T m1 m2" "T \<le> now"
  shows "idle_dropped now m1 m2"
proof -
  have "mr_idle_timeout m2 < now - ws_last_seen st" if "mr_idle_timeout m2 < T - ws_last_seen st" for st
    using that assms(2) by linarith
  with assms(1) show ?thesis unfolding idle_dropped_def by blast
qed

lemma gc_map:
  "mr_active_windows_map (maybe_run_gc now m) key = mr_active_windows_map m key \<or>
   mr_active_windows_map (maybe_run_gc now m) key = None \<and>
     (\<exists>st. mr_active_windows_map m key = Some st \<and> mr_idle_timeout m < now - ws_last_seen st)"
  by (auto simp: maybe_run_gc_def Let_def not_le split: option.split)

lemma idle_dropped_gc:
  assumes "idle_dropped T m1 m2" "T \<le> now"
  shows "idle_dropped now (maybe_run_gc now m1) m2"
proof -
  have later: "idle_dropped now m1 m2" by (rule idle_dropped_later [OF assms])
  have "mr_active_windows_map (maybe_run_gc now m1) key = mr_active_windows_map m2 key \<or>
      mr_active_windows_map (maybe_run_gc now m1) key = None \<and>
      (\<exists>st. mr_active_windows_map m2 key = Some st \<and> mr_idle_timeout m2 < now - ws_last_seen st)" for key
    using later gc_map [of now m1 key] unfolding idle_dropped_def by metis
  with later show ?thesis by (simp add: idle_dropped_def)
qed

text \<open>A window that was idle for twice its length is full again, like a new one.\<close>

lemma check_idle:
  assumes "idle_dropped T m1 m2" "windows_ok T m2" "T \<le> now" "window_ok (mr_window m2)"
    and "2 * mr_window m2 \<le> mr_idle_timeout m2" "key_of fallback request = Some key"
  shows "check_at now (limiter_of m1 key) = check_at now (limiter_of m2 key)"
proof (cases "mr_active_windows_map m1 key = mr_active_windows_map m2 key")
  case True
  moreover have "mr_window m1 = mr_window m2" using assms(1) by (simp add: idle_dropped_def)
  ultimately show ?thesis by (cases "mr_active_windows_map m2 key") (simp_all add: limiter_of_def)
next
  case False
  then obtain st where st: "mr_active_windows_map m1 key = None" "mr_active_windows_map m2 key = Some st"
      "mr_idle_timeout m2 < T - ws_last_seen st" using assms(1) by (auto simp: idle_dropped_def)
  let ?n = "limit_of key" and ?w = "mr_window m2" and ?new = "limiter_of m1 key"
  obtain ts where ts: "tb_state (ws_limiter st) = Some ts" "to_last_refill ts \<le> ws_last_seen st"
      "bucket ?n ?w (ws_limiter st)" "0 < ?n"
    using assms(2) st(2) by (auto simp: windows_ok_def)
  have w: "0 < ?w" "mr_window m1 = ?w" using assms(1,4) by (simp_all add: window_ok_def idle_dropped_def)
  have new: "bucket ?n ?w ?new" "tb_state ?new = None"
    using fresh_bucket [OF assms(4,6)] st(1) w(2) by (simp_all add: limiter_of_def)
  have "0 \<le> to_tokens ts" using ts by (simp add: bucket_def)
  moreover have "2 * ?w \<le> now - to_last_refill ts" using assms(3,5) st(3) ts(2) by linarith
  ultimately have "refill_state now (of_nat ?n) (f64_round (of_nat ?n / as_secs_f64 ?w)) ts =
      \<lparr>to_tokens = of_nat ?n, to_last_refill = now\<rparr>" by (rule refilled_full [OF w(1)])
  moreover have "refill_state now (of_nat ?n) (f64_round (of_nat ?n / as_secs_f64 ?w))
      \<lparr>to_tokens = of_nat ?n, to_last_refill = now\<rparr> = \<lparr>to_tokens = of_nat ?n, to_last_refill = now\<rparr>"
    by (simp add: refill_state_def Let_def)
  moreover have "?new\<lparr>tb_state := s\<rparr> = (ws_limiter st)\<lparr>tb_state := s\<rparr>" for s
    using new(1) ts(3) by (cases ?new; cases "ws_limiter st") (simp add: bucket_def)
  ultimately show ?thesis
    using new ts st by (simp add: check_at_def bucket_def limiter_of_def [of m2] Let_def)
qed

lemma idle_dropped_note: "idle_dropped T m1 m2 \<Longrightarrow> idle_dropped T (note_call key now l m1) (note_call key now l m2)"
  by (auto simp: idle_dropped_def)

text \<open>One call with and without collection of idle windows.\<close>

lemma call_same:
  assumes "idle_dropped T m1 m2" "windows_ok T m2" "T \<le> now" "window_ok (mr_window m2)"
    and "2 * mr_window m2 \<le> mr_idle_timeout m2" "mr_gc_tick m2 = 0"
  shows "inner_call request now m1 = None \<and> inner_call request now m2 = None \<or>
    (\<exists>res m1' m2'. inner_call request now m1 = Some (res, m1') \<and> inner_call request now m2 = Some (res, m2') \<and>
       idle_dropped now m1' m2' \<and> windows_ok now m2' \<and> mr_window m2' = mr_window m2 \<and>
       mr_idle_timeout m2' = mr_idle_timeout m2 \<and> mr_gc_tick m2' = 0)"
proof -
  let ?g = "maybe_run_gc now m1"
  have gc: "idle_dropped now ?g m2" by (rule idle_dropped_gc [OF assms(1,3)])
  have ok: "windows_ok now m2" by (rule windows_ok_later [OF assms(2,3)])
  have none: "maybe_run_gc now m2 = m2" using assms(6) by (simp add: maybe_run_gc_def)
  have fallback: "mr_max_hits_fallback ?g = mr_max_hits_fallback m2" using gc by (simp add: idle_dropped_def)
  show ?thesis
  proof (cases "key_of (mr_max_hits_fallback m2) request")
    case None
    then show ?thesis using gc ok assms(6) fallback by (simp add: inner_call_key Let_def none)
  next
    case (Some key)
    show ?thesis
    proof (cases "limit_of key = 0")
      case True
      then show ?thesis using Some fallback by (simp add: inner_call_key Let_def none)
    next
      case False
      have same: "check_at now (limiter_of ?g key) = check_at now (limiter_of m2 key)"
        using check_idle [OF gc ok order_refl assms(4,5) Some] .
      obtain d l where d: "check_at now (limiter_of m2 key) = Some (d, l)"
        using check_bucket [OF assms(4) _ limiter_of_bucket [OF ok assms(4) Some]] False by blast
      have "windows_ok now (note_call key now l m2)"
        using windows_ok_note [OF ok assms(4) order_refl Some _ d] False by simp
      then show ?thesis
        using Some False fallback d idle_dropped_note [OF gc] assms(6)
        by (simp add: inner_call_key Let_def none same)
    qed
  qed
qed

lemma runs_same:
  "idle_dropped T m1 m2 \<Longrightarrow> windows_ok T m2 \<Longrightarrow> sorted (T # map fst calls) \<Longrightarrow> window_ok (mr_window m2) \<Longrightarrow>
   2 * mr_window m2 \<le> mr_idle_timeout m2 \<Longrightarrow> mr_gc_tick m2 = 0 \<Longrightarrow>
   map_option fst (run_calls calls m1) = map_option fst (run_calls calls m2) \<and>
   (case run_calls calls m2 of None \<Rightarrow> True
    | Some (rs, m) \<Rightarrow> (\<exists>T'. windows_ok T' m) \<and> mr_window m = mr_window m2 \<and> mr_max_hits_fallback m = mr_max_hits_fallback m2 \<and>
        mr_gc_tick m = 0)"
proof (induction calls arbitrary: T m1 m2)
  case Nil
  then show ?case by auto
next
  case (Cons c calls)
  obtain now request where c: "c = (now, request)" by fastforce
  consider "inner_call request now m1 = None" "inner_call request now m2 = None"
    | res m1' m2' where "inner_call request now m1 = Some (res, m1')" "inner_call request now m2 = Some (res, m2')"
        "idle_dropped now m1' m2'" "windows_ok now m2'" "mr_window m2' = mr_window m2"
        "mr_idle_timeout m2' = mr_idle_timeout m2" "mr_gc_tick m2' = 0"
    using call_same [OF Cons.prems(1,2) _ Cons.prems(4-6), of now request] Cons.prems(3) c by auto
  then show ?case
  proof cases
    case 1
    then show ?thesis by (simp add: c)
  next
    case 2
    have "mr_max_hits_fallback m2' = mr_max_hits_fallback m2"
      using 2(2) by (auto simp: inner_call_key Let_def split: option.splits if_splits Option.bind_splits)
    then show ?thesis
      using Cons.IH [OF 2(3,4)] Cons.prems(3-6) 2 c
      by (cases "run_calls calls m1'"; cases "run_calls calls m2'") auto
  qed
qed

lemma run_calls_append:
  assumes "run_calls (xs @ ys) m = Some (rs, m2)"
  shows "\<exists>rs1 rs2 m1. run_calls xs m = Some (rs1, m1) \<and> run_calls ys m1 = Some (rs2, m2) \<and> rs = rs1 @ rs2 \<and>
    length rs1 = length xs"
  using assms
proof (induction xs arbitrary: m rs)
  case (Cons x xs)
  obtain now request where x: "x = (now, request)" by fastforce
  obtain res m1 rs' where 1: "inner_call request now m = Some (res, m1)" "run_calls (xs @ ys) m1 = Some (rs', m2)" "rs = res # rs'"
    using Cons.prems x by (auto split: Option.bind_splits)
  from Cons.IH [OF 1(2)] 1 show ?case by (auto simp: x)
qed simp

text \<open>Without collection, the calls of a key are the checks of its bucket.\<close>

definition of_key :: "i32 \<Rightarrow> MethodRatelimitKey \<Rightarrow> Instant \<times> Parts \<Rightarrow> bool" where
  "of_key fallback key call \<longleftrightarrow> key_of fallback (snd call) = Some key"

lemma calls_of_key:
  assumes "run_calls calls m = Some (rs, m2)" "mr_gc_tick m = 0"
  shows "\<exists>ds. run_checks (map fst (filter (of_key (mr_max_hits_fallback m) key) calls)) (limiter_of m key) = Some (ds, limiter_of m2 key) \<and>
    length (filter (\<lambda>(call, res). of_key (mr_max_hits_fallback m) key call \<and> \<not> isl res) (zip calls rs)) = length (filter (\<lambda>d. d) ds) \<and>
    ((\<exists>call \<in> set calls. of_key (mr_max_hits_fallback m) key call) \<longrightarrow> 0 < limit_of key)"
  using assms
proof (induction calls arbitrary: m rs)
  case (Cons c calls)
  obtain now request where c: "c = (now, request)" by fastforce
  have none: "maybe_run_gc now m = m" using Cons.prems(2) by (simp add: maybe_run_gc_def)
  obtain res m1 rs' where 1: "inner_call request now m = Some (res, m1)" "run_calls calls m1 = Some (rs', m2)" "rs = res # rs'"
    using Cons.prems(1) c by (auto split: Option.bind_splits)
  have keep: "mr_gc_tick m1 = 0" "mr_max_hits_fallback m1 = mr_max_hits_fallback m" "mr_window m1 = mr_window m"
    using 1(1) Cons.prems(2) by (auto simp: inner_call_key none Let_def split: option.splits if_splits Option.bind_splits)
  obtain ds where ds: "run_checks (map fst (filter (of_key (mr_max_hits_fallback m) key) calls)) (limiter_of m1 key) = Some (ds, limiter_of m2 key)"
      "length (filter (\<lambda>(call, res). of_key (mr_max_hits_fallback m) key call \<and> \<not> isl res) (zip calls rs')) = length (filter (\<lambda>d. d) ds)"
      "(\<exists>call \<in> set calls. of_key (mr_max_hits_fallback m) key call) \<longrightarrow> 0 < limit_of key"
    using Cons.IH [OF 1(2) keep(1)] keep(2) by auto
  show ?case
  proof (cases "of_key (mr_max_hits_fallback m) key c")
    case True
    then have key: "key_of (mr_max_hits_fallback m) request = Some key" by (simp add: of_key_def c)
    then obtain d l where "check_at now (limiter_of m key) = Some (d, l)" "m1 = note_call key now l m" "wd_allowed d \<longleftrightarrow> \<not> isl res"
        "0 < limit_of key"
      using 1(1) by (auto simp: inner_call_key none Let_def split: if_splits Option.bind_splits)
    then show ?thesis using ds True 1(3) by (auto simp: c limiter_of_def)
  next
    case False
    then have "limiter_of m1 key = limiter_of m key"
      using 1(1) by (auto simp: inner_call_key none Let_def limiter_of_def of_key_def c
          split: option.splits if_splits Option.bind_splits)
    then show ?thesis using ds False 1(3) by (simp add: c)
  qed
qed simp

section \<open>Properties of the limiter\<close>

lemma limiter_start:
  "idle_dropped T (MethodRatelimiter_with_gc fallback window idle tick) (MethodRatelimiter_with_gc fallback window idle tick2)"
  "windows_ok T (MethodRatelimiter_with_gc fallback window idle tick)"
  by (simp_all add: idle_dropped_def windows_ok_def MethodRatelimiter_with_gc_def)

lemma limiter_fields [simp]:
  "mr_window (MethodRatelimiter_with_gc fallback window idle tick) = window"
  "mr_idle_timeout (MethodRatelimiter_with_gc fallback window idle tick) = idle"
  "mr_gc_tick (MethodRatelimiter_with_gc fallback window idle tick) = tick"
  "mr_max_hits_fallback (MethodRatelimiter_with_gc fallback window idle tick) = fallback"
  by (simp_all add: MethodRatelimiter_with_gc_def)

lemma dropped_windows_same:
  assumes "sorted (map fst calls)" "window_ok window" "2 * window \<le> idle"
  shows "map_option fst (run_calls calls (MethodRatelimiter_with_gc fallback window idle tick)) =
    map_option fst (run_calls calls (MethodRatelimiter_with_gc fallback window idle 0))"
  using runs_same [OF limiter_start(1) [of 0 fallback window idle tick 0] limiter_start(2), of calls] assms by simp

text \<open>C36. Collecting the windows of idle callers changes no answer: for calls in the order of their times, the limiter
  that drops windows which were idle longer than the timeout every so many calls answers, and panics, exactly
  like one that keeps every window forever, whenever the timeout is at least twice the window.\<close>

theorem idle_windows_unobservable:
  assumes "sorted (map fst calls)" "window_ok window" "2 * window \<le> idle"
  shows "map_option fst (run_calls calls (MethodRatelimiter_with_gc fallback window idle tick)) =
    map_option fst (run_calls calls (MethodRatelimiter_with_gc fallback window idle 0))"
  using assms by (rule dropped_windows_same)

definition toy_caller :: "i32 \<Rightarrow> Parts" where
  "toy_caller limit =
     \<lparr>pa_host = Some ''h'', pa_path_and_query = Some (''/m'', []), pa_header = Map.empty,
      pa_subscription = Some \<lparr>sb_subscription_id = ''s'', sb_ratelimits = Some \<lparr>rl_default = limit, rl_methods = Map.empty\<rparr>\<rparr>\<rparr>"

definition toy_key :: MethodRatelimitKey where
  "toy_key = \<lparr>mk_subscriber_id = ''s'', mk_method_name = ''/m'', mk_ratelimit = 1\<rparr>"

theorem idle_windows_unobservable_witness:
  "map_option fst (run_calls [(0, toy_caller 1), (700 * 10 ^ 9, toy_caller 2)]
      (MethodRatelimiter_with_gc 5 (10 * 10 ^ 9) (300 * 10 ^ 9) 1)) =
   map_option fst (run_calls [(0, toy_caller 1), (700 * 10 ^ 9, toy_caller 2)]
      (MethodRatelimiter_with_gc 5 (10 * 10 ^ 9) (300 * 10 ^ 9) 0))"
  by (rule idle_windows_unobservable) (simp_all add: window_ok_def)


lemma toy_calls:
  "\<exists>m. run_calls [(0, toy_caller (- 1)), (0, toy_caller 1)] (MethodRatelimiter_with_gc 5 (10 * 10 ^ 9) (300 * 10 ^ 9) 2) =
     Some ([Inr (toy_caller (- 1)), Inr (toy_caller 1)], m)"
  using f64_round_nat [of 1]
  by (simp add: inner_call_def toy_caller_def ratelimit_of_def MethodRatelimiter_with_gc_def maybe_run_gc_def Let_def
      check_at_def TokenBucketRateLimiter_new_def refill_state_def)


end
