(* ===== verification/Metering.thy ===== *)
theory Metering
  imports Server_Auth
begin

text \<open>
  Metering of response bodies: the layer of \<^verbatim>\<open>yellowstone-grpc-tools/src/server/tonic/metered.rs\<close> and the two
  managers that the server stacks in it, for metrics (\<^verbatim>\<open>yellowstone-grpc-geyser/src/metered.rs\<close>) and for billing
  (\<^verbatim>\<open>billing.rs\<close>). The body below is a parameter; the global tables and the billing channel are one record.
\<close>

section \<open>Billing events\<close>

record BandwidthBillingEvent =
  bb_subscription_id :: string
  bb_method :: string
  bb_quantity :: u64

record RequestBillingEvent =
  rb_subscription_id :: string
  rb_method :: string
  rb_quantity :: u64

datatype BillingEvent = Bandwidth BandwidthBillingEvent | Requests RequestBillingEvent

section \<open>Shared state\<close>

text \<open>The active bodies per subscriber and path, the gauges and the counter they feed, and the events sent to the
  billing sink; sending fails only when the sink is gone, which is logged.\<close>

record MeterState =
  me_active :: "string \<times> string \<Rightarrow> u64 option"
  me_outbound :: "string \<times> string \<Rightarrow> i64"
  me_total :: u64
  me_usage :: "BillingEvent list"

definition increment_active :: "string \<times> string \<Rightarrow> MeterState \<Rightarrow> MeterState" where
  "increment_active key w =
     w\<lparr>me_active := (me_active w)(key \<mapsto> (case me_active w key of Some active_count \<Rightarrow> active_count + 1 | None \<Rightarrow> 1))\<rparr>"

definition decrement_active :: "string \<times> string \<Rightarrow> MeterState \<Rightarrow> bool \<times> MeterState" where
  "decrement_active key w =
     (case me_active w key of
        None \<Rightarrow> (True, w)
      | Some active_count \<Rightarrow>
          if 1 < active_count then (False, w\<lparr>me_active := (me_active w)(key \<mapsto> active_count - 1)\<rparr>)
          else (True, w\<lparr>me_active := (me_active w)(key := None), me_outbound := (me_outbound w)(key := 0)\<rparr>))"

section \<open>Hooks of the metrics\<close>

record PrometheusMeteredHooks =
  ph_subscriber_id :: string
  ph_uri_path :: string

definition prom_anonymous :: "PrometheusMeteredHooks \<Rightarrow> bool" where
  "prom_anonymous h \<longleftrightarrow> ph_subscriber_id h = [] \<and> ph_uri_path h = []"

definition prom_key :: "PrometheusMeteredHooks \<Rightarrow> string \<times> string" where
  "prom_key h = (ph_subscriber_id h, ph_uri_path h)"

definition prom_on_emit_bytes :: "u64 \<Rightarrow> PrometheusMeteredHooks \<Rightarrow> MeterState \<Rightarrow> MeterState" where
  "prom_on_emit_bytes byte_count h w =
     (if prom_anonymous h then w
      else w\<lparr>me_total := me_total w + byte_count,
             me_outbound := (me_outbound w)(prom_key h := me_outbound w (prom_key h) + byte_count)\<rparr>)"

definition prom_drop :: "PrometheusMeteredHooks \<Rightarrow> MeterState \<Rightarrow> MeterState" where
  "prom_drop h w = (if prom_anonymous h then w else snd (decrement_active (prom_key h) w))"

definition prom_build_hooks :: "Parts \<Rightarrow> MeterState \<Rightarrow> PrometheusMeteredHooks option \<times> MeterState" where
  "prom_build_hooks parts w =
     (case (case pa_subscription parts of
              Some info \<Rightarrow> Some (sb_subscription_id info)
            | None \<Rightarrow> (case pa_header parts X_SUBSCRIPTION_ID_HEADER of None \<Rightarrow> None | Some v \<Rightarrow> to_str v)) of
        None \<Rightarrow> (None, w)
      | Some subscriber_id \<Rightarrow>
          (case pa_path_and_query parts of
             None \<Rightarrow> (None, w)
           | Some path_and_query \<Rightarrow>
               (Some \<lparr>ph_subscriber_id = subscriber_id, ph_uri_path = fst path_and_query\<rparr>,
                increment_active (subscriber_id, fst path_and_query) w)))"

section \<open>Hooks of the billing\<close>

record BillingBandwidthMeteredHooks =
  bh_subscriber_id :: string
  bh_uri_path :: string

definition billing_on_emit_bytes :: "u64 \<Rightarrow> BillingBandwidthMeteredHooks \<Rightarrow> MeterState \<Rightarrow> MeterState" where
  "billing_on_emit_bytes byte_count h w =
     (if bh_subscriber_id h = [] \<and> bh_uri_path h = [] then w
      else w\<lparr>me_usage := me_usage w @
        [Bandwidth \<lparr>bb_subscription_id = bh_subscriber_id h, bb_method = bh_uri_path h, bb_quantity = byte_count\<rparr>]\<rparr>)"

definition billing_build_hooks :: "Parts \<Rightarrow> BillingBandwidthMeteredHooks option" where
  "billing_build_hooks parts =
     (case pa_subscription parts of
        None \<Rightarrow> None
      | Some info \<Rightarrow>
          (case pa_path_and_query parts of
             None \<Rightarrow> None
           | Some path_and_query \<Rightarrow>
               Some \<lparr>bh_subscriber_id = sb_subscription_id info, bh_uri_path = PathName_from path_and_query\<rparr>))"

definition billing_on_method :: "Parts \<Rightarrow> MeterState \<Rightarrow> MeterState" where
  "billing_on_method parts w =
     (case pa_path_and_query parts of
        None \<Rightarrow> w
      | Some path_and_query \<Rightarrow>
          w\<lparr>me_usage := me_usage w @
            [Requests \<lparr>rb_subscription_id = (case pa_subscription parts of None \<Rightarrow> [] | Some info \<Rightarrow> sb_subscription_id info),
                       rb_method = PathName_from path_and_query, rb_quantity = 1\<rparr>]\<rparr>)"

section \<open>The stacked manager\<close>

text \<open>The server stacks the manager of the metrics on the one of billing, which is absent unless configured
  (\<open>billing\<close>).\<close>

record StackMeteredHooks =
  sk_hooks1 :: "PrometheusMeteredHooks option"
  sk_hooks2 :: "BillingBandwidthMeteredHooks option"

definition stack_on_emit_bytes :: "u64 \<Rightarrow> StackMeteredHooks \<Rightarrow> MeterState \<Rightarrow> MeterState" where
  "stack_on_emit_bytes byte_count h w =
     (let w1 = (case sk_hooks1 h of None \<Rightarrow> w | Some h1 \<Rightarrow> prom_on_emit_bytes byte_count h1 w)
      in case sk_hooks2 h of None \<Rightarrow> w1 | Some h2 \<Rightarrow> billing_on_emit_bytes byte_count h2 w1)"

definition stack_drop :: "StackMeteredHooks \<Rightarrow> MeterState \<Rightarrow> MeterState" where
  "stack_drop h w = (case sk_hooks1 h of None \<Rightarrow> w | Some h1 \<Rightarrow> prom_drop h1 w)"

definition stack_build_hooks :: "bool \<Rightarrow> Parts \<Rightarrow> MeterState \<Rightarrow> StackMeteredHooks option \<times> MeterState" where
  "stack_build_hooks billing parts w =
     (case prom_build_hooks parts w of
        (hooks1, w1) \<Rightarrow>
          let hooks2 = (if billing then billing_build_hooks parts else None)
          in if hooks1 = None \<and> hooks2 = None then (None, w1)
             else (Some \<lparr>sk_hooks1 = hooks1, sk_hooks2 = hooks2\<rparr>, w1))"

definition stack_on_method :: "bool \<Rightarrow> Parts \<Rightarrow> MeterState \<Rightarrow> MeterState" where
  "stack_on_method billing parts w = (if billing then billing_on_method parts w else w)"

section \<open>Metered bodies\<close>

text \<open>A frame carries data, of which only the length matters here, or trailers.\<close>

datatype 'x frame = DataFrame u64 'x | OtherFrame 'x

record 'b MeteredBandwidthBody =
  mb_inner :: 'b
  mb_metered_hooks :: "StackMeteredHooks option"
  mb_traffic_reporting_threshold :: u64
  mb_cumulative_bytes :: u64

definition report_bytes :: "'b MeteredBandwidthBody \<Rightarrow> MeterState \<Rightarrow> MeterState" where
  "report_bytes body w =
     (case mb_metered_hooks body of None \<Rightarrow> w | Some h \<Rightarrow> stack_on_emit_bytes (mb_cumulative_bytes body) h w)"

definition body_poll_frame ::
  "('b \<Rightarrow> ('e + 'x frame) option poll \<times> 'b) \<Rightarrow> 'b MeteredBandwidthBody \<Rightarrow> MeterState
   \<Rightarrow> ('e + 'x frame) option poll \<times> 'b MeteredBandwidthBody \<times> MeterState" where
  "body_poll_frame poll_inner body w =
     (case poll_inner (mb_inner body) of
        (Ready (Some (Inr (DataFrame n x))), b) \<Rightarrow>
          let body1 = body\<lparr>mb_inner := b, mb_cumulative_bytes := mb_cumulative_bytes body + n\<rparr>
          in if mb_traffic_reporting_threshold body1 \<le> mb_cumulative_bytes body1
             then (Ready (Some (Inr (DataFrame n x))), body1\<lparr>mb_cumulative_bytes := 0\<rparr>, report_bytes body1 w)
             else (Ready (Some (Inr (DataFrame n x))), body1, w)
      | (res, b) \<Rightarrow> (res, body\<lparr>mb_inner := b\<rparr>, w))"

text \<open>\<open>PinnedDrop\<close> reports the rest; then the fields are dropped, the hooks among them.\<close>

definition body_drop :: "'b MeteredBandwidthBody \<Rightarrow> MeterState \<Rightarrow> MeterState" where
  "body_drop body w =
     (case mb_metered_hooks body of None \<Rightarrow> w | Some h \<Rightarrow> stack_drop h (report_bytes body w))"

section \<open>Metered calls\<close>

text \<open>A call counts the request and makes the hooks; they wait in the future of the call. Its result wraps the body
  of a response; an error, or dropping the future, drops the hooks.\<close>

definition metered_call :: "bool \<Rightarrow> Parts \<Rightarrow> MeterState \<Rightarrow> StackMeteredHooks option \<times> MeterState" where
  "metered_call billing parts w = stack_build_hooks billing parts (stack_on_method billing parts w)"

definition drop_hooks :: "StackMeteredHooks option \<Rightarrow> MeterState \<Rightarrow> MeterState" where
  "drop_hooks hooks w = (case hooks of None \<Rightarrow> w | Some h \<Rightarrow> stack_drop h w)"

definition metered_response :: "u64 \<Rightarrow> StackMeteredHooks option \<Rightarrow> 'b \<Rightarrow> 'b MeteredBandwidthBody" where
  "metered_response threshold hooks body =
     \<lparr>mb_inner = body, mb_metered_hooks = hooks, mb_traffic_reporting_threshold = threshold, mb_cumulative_bytes = 0\<rparr>"

end
