(* ===== verification/Meter_Claims.thy ===== *)
theory Meter_Claims
  imports Metering
begin

text \<open>
  What metering guarantees, over any interleaving of calls, responses, frames and dropped futures and bodies: the
  bytes that are billed and counted are those that were emitted, and the table of active bodies counts the live hooks.
\<close>

section \<open>Runs\<close>

text \<open>The hooks of a call are first held by its future, then by the body of the response. \<open>ho_emitted\<close> records the
  sizes of the data frames that the body returned.\<close>

datatype 'b holder_phase = Calling | Streaming "'b MeteredBandwidthBody" | Gone

record 'b Holder =
  ho_hooks :: "StackMeteredHooks option"
  ho_phase :: "'b holder_phase"
  ho_emitted :: "u64 list"

record 'b MeterSystem =
  my_state :: MeterState
  my_holders :: "'b Holder list"
  my_calls :: "Parts list"

definition MeterState_new :: MeterState where
  "MeterState_new = \<lparr>me_active = Map.empty, me_outbound = (\<lambda>_. 0), me_total = 0, me_usage = []\<rparr>"

definition meter_new :: "'b MeterSystem" where
  "meter_new = \<lparr>my_state = MeterState_new, my_holders = [], my_calls = []\<rparr>"

definition meter_call :: "bool \<Rightarrow> Parts \<Rightarrow> 'b MeterSystem \<Rightarrow> 'b MeterSystem" where
  "meter_call billing parts m =
     (case metered_call billing parts (my_state m) of
        (hooks, w) \<Rightarrow> \<lparr>my_state = w, my_holders = my_holders m @ [\<lparr>ho_hooks = hooks, ho_phase = Calling, ho_emitted = []\<rparr>],
                        my_calls = my_calls m @ [parts]\<rparr>)"

definition meter_respond :: "u64 \<Rightarrow> nat \<Rightarrow> 'b \<Rightarrow> 'b MeterSystem \<Rightarrow> 'b MeterSystem" where
  "meter_respond threshold i b m =
     (let h = my_holders m ! i
      in m\<lparr>my_holders := (my_holders m)[i := h\<lparr>ho_phase := Streaming (metered_response threshold (ho_hooks h) b)\<rparr>]\<rparr>)"

definition emitted_by :: "('e + 'x frame) option poll \<Rightarrow> u64 list" where
  "emitted_by res = (case res of Ready (Some (Inr (DataFrame n _))) \<Rightarrow> [n] | _ \<Rightarrow> [])"

definition meter_poll ::
  "('b \<Rightarrow> ('e + 'x frame) option poll \<times> 'b) \<Rightarrow> nat \<Rightarrow> 'b MeteredBandwidthBody \<Rightarrow> 'b MeterSystem \<Rightarrow> 'b MeterSystem" where
  "meter_poll poll_inner i body m =
     (case body_poll_frame poll_inner body (my_state m) of
        (res, body1, w) \<Rightarrow>
          let h = my_holders m ! i
          in m\<lparr>my_state := w,
               my_holders := (my_holders m)[i := h\<lparr>ho_phase := Streaming body1, ho_emitted := ho_emitted h @ emitted_by res\<rparr>]\<rparr>)"

definition meter_drop :: "nat \<Rightarrow> 'b MeterSystem \<Rightarrow> 'b MeterSystem" where
  "meter_drop i m =
     (let h = my_holders m ! i
      in m\<lparr>my_state := (case ho_phase h of
                         Calling \<Rightarrow> drop_hooks (ho_hooks h) (my_state m)
                       | Streaming body \<Rightarrow> body_drop body (my_state m)
                       | Gone \<Rightarrow> my_state m),
           my_holders := (my_holders m)[i := h\<lparr>ho_phase := Gone\<rparr>]\<rparr>)"

inductive meter_run ::
  "('b \<Rightarrow> ('e + 'x frame) option poll \<times> 'b) \<Rightarrow> bool \<Rightarrow> u64 \<Rightarrow> 'b MeterSystem \<Rightarrow> bool" for poll_inner billing threshold where
  run_new: "meter_run poll_inner billing threshold meter_new"
| run_call: "meter_run poll_inner billing threshold m \<Longrightarrow> meter_run poll_inner billing threshold (meter_call billing parts m)"
| run_respond: "meter_run poll_inner billing threshold m \<Longrightarrow> i < length (my_holders m) \<Longrightarrow>
    ho_phase (my_holders m ! i) = Calling \<Longrightarrow> meter_run poll_inner billing threshold (meter_respond threshold i b m)"
| run_poll: "meter_run poll_inner billing threshold m \<Longrightarrow> i < length (my_holders m) \<Longrightarrow>
    ho_phase (my_holders m ! i) = Streaming body \<Longrightarrow> meter_run poll_inner billing threshold (meter_poll poll_inner i body m)"
| run_drop: "meter_run poll_inner billing threshold m \<Longrightarrow> i < length (my_holders m) \<Longrightarrow>
    ho_phase (my_holders m ! i) \<noteq> Gone \<Longrightarrow> meter_run poll_inner billing threshold (meter_drop i m)"

section \<open>What is counted\<close>

text \<open>The bytes that are billed to a subscription for a method, and the bytes of a body that are not reported yet.\<close>

fun billed :: "string \<times> string \<Rightarrow> BillingEvent list \<Rightarrow> u64" where
  "billed key [] = 0"
| "billed key (Bandwidth e # events) =
     (if (bb_subscription_id e, bb_method e) = key then bb_quantity e else 0) + billed key events"
| "billed key (Requests e # events) = billed key events"

fun is_request :: "BillingEvent \<Rightarrow> bool" where
  "is_request (Requests _) = True"
| "is_request (Bandwidth _) = False"

definition unreported :: "'b Holder \<Rightarrow> u64" where
  "unreported h = (case ho_phase h of Streaming body \<Rightarrow> mb_cumulative_bytes body | _ \<Rightarrow> 0)"

text \<open>Whether the bytes of a holder of hooks are billed to \<open>key\<close>, whether they are counted, and in which entry of
  the table of active bodies.\<close>

definition bills :: "string \<times> string \<Rightarrow> StackMeteredHooks option \<Rightarrow> bool" where
  "bills key hooks \<longleftrightarrow> (case hooks of None \<Rightarrow> False | Some h \<Rightarrow>
     (case sk_hooks2 h of None \<Rightarrow> False | Some h2 \<Rightarrow> (bh_subscriber_id h2, bh_uri_path h2) = key))"

definition counts :: "StackMeteredHooks option \<Rightarrow> bool" where
  "counts hooks \<longleftrightarrow> (case hooks of None \<Rightarrow> False | Some h \<Rightarrow>
     (case sk_hooks1 h of None \<Rightarrow> False | Some h1 \<Rightarrow> \<not> prom_anonymous h1))"

definition active_on :: "string \<times> string \<Rightarrow> StackMeteredHooks option \<Rightarrow> bool" where
  "active_on key hooks \<longleftrightarrow> (case hooks of None \<Rightarrow> False | Some h \<Rightarrow>
     (case sk_hooks1 h of None \<Rightarrow> False | Some h1 \<Rightarrow> prom_key h1 = key))"

definition total :: "(StackMeteredHooks option \<Rightarrow> bool) \<Rightarrow> ('b Holder \<Rightarrow> u64) \<Rightarrow> 'b Holder list \<Rightarrow> u64" where
  "total P f holders = sum_list (map (\<lambda>h. if P (ho_hooks h) then f h else 0) holders)"

definition emitted :: "'b Holder \<Rightarrow> u64" where
  "emitted h = sum_list (ho_emitted h)"

definition live :: "string \<times> string \<Rightarrow> 'b Holder list \<Rightarrow> nat" where
  "live key holders = sum_list (map (\<lambda>h. of_bool (ho_phase h \<noteq> Gone \<and> active_on key (ho_hooks h))) holders)"

lemma total_Nil [simp]: "total P f [] = 0"
  by (simp add: total_def)

lemma total_snoc [simp]: "total P f (holders @ [h]) = total P f holders + (if P (ho_hooks h) then f h else 0)"
  by (simp add: total_def)

lemma total_update:
  "i < length holders \<Longrightarrow> ho_hooks h = ho_hooks (holders ! i) \<Longrightarrow>
   total P f (holders[i := h]) = total P f holders + (if P (ho_hooks h) then f h - f (holders ! i) else 0)"
proof -
  assume "i < length holders" "ho_hooks h = ho_hooks (holders ! i)"
  with sum_list_map_update [of i holders "\<lambda>h. if P (ho_hooks h) then f h else 0" h]
  have "total P f (holders[i := h]) + (if P (ho_hooks h) then f (holders ! i) else 0) = total P f holders + (if P (ho_hooks h) then f h else 0)"
    by (simp add: total_def)
  then have "total P f (holders[i := h]) =
      total P f holders + (if P (ho_hooks h) then f h else 0) - (if P (ho_hooks h) then f (holders ! i) else 0)"
    by (rule eq_diff_eq [THEN iffD2])
  then show ?thesis by simp
qed

lemma billed_append [simp]: "billed key (xs @ ys) = billed key xs + billed key ys"
  by (induction key xs rule: billed.induct) (simp_all add: add.assoc)

section \<open>One report\<close>

definition reports ::
  "string \<times> string \<Rightarrow> u64 \<Rightarrow> StackMeteredHooks option \<Rightarrow> MeterState \<Rightarrow> MeterState \<Rightarrow> bool" where
  "reports key n hooks w w1 \<longleftrightarrow>
     billed key (me_usage w1) = billed key (me_usage w) + (if bills key hooks then n else 0) \<and>
     me_total w1 = me_total w + (if counts hooks then n else 0) \<and>
     filter is_request (me_usage w1) = filter is_request (me_usage w) \<and>
     me_active w1 = me_active w \<and> (\<not> active_on key hooks \<longrightarrow> me_outbound w1 key = me_outbound w key)"

lemma reports_zero: "reports key 0 hooks w w"
  by (simp add: reports_def)

lemma reports_emit:
  assumes "key \<noteq> ([], [])"
  shows "reports key n (Some h) w (stack_on_emit_bytes n h w)"
proof -
  have 1: "reports key n (Some \<lparr>sk_hooks1 = hooks1, sk_hooks2 = None\<rparr>) w
      (case hooks1 of None \<Rightarrow> w | Some h1 \<Rightarrow> prom_on_emit_bytes n h1 w)" for hooks1 w
    by (auto simp: reports_def prom_on_emit_bytes_def counts_def bills_def active_on_def split: option.split)
  have 2: "reports key n (Some \<lparr>sk_hooks1 = None, sk_hooks2 = hooks2\<rparr>) w
      (case hooks2 of None \<Rightarrow> w | Some h2 \<Rightarrow> billing_on_emit_bytes n h2 w)" for hooks2 w
    using assms by (auto simp: reports_def billing_on_emit_bytes_def counts_def bills_def active_on_def split: option.split)
  obtain hooks1 hooks2 where h: "h = \<lparr>sk_hooks1 = hooks1, sk_hooks2 = hooks2\<rparr>" by (cases h) simp
  show ?thesis
    using 1 [of hooks1 w] 2 [of hooks2 "case hooks1 of None \<Rightarrow> w | Some h1 \<Rightarrow> prom_on_emit_bytes n h1 w"]
    by (simp add: reports_def stack_on_emit_bytes_def Let_def h bills_def counts_def active_on_def)
qed

lemma reports_bytes: "key \<noteq> ([], []) \<Longrightarrow> reports key (mb_cumulative_bytes body) (mb_metered_hooks body) w (report_bytes body w)"
  using reports_emit by (cases "mb_metered_hooks body") (simp_all add: report_bytes_def reports_def bills_def counts_def)

text \<open>Polling a body: what was pending and what is emitted is reported, or pending and below the threshold.\<close>

definition frame_step :: "string \<times> string \<Rightarrow> 'b MeteredBandwidthBody \<Rightarrow> MeterState \<Rightarrow> u64 list
    \<Rightarrow> 'b MeteredBandwidthBody \<Rightarrow> MeterState \<Rightarrow> bool" where
  "frame_step key body w ns body1 w1 \<longleftrightarrow>
     mb_metered_hooks body1 = mb_metered_hooks body \<and>
     mb_traffic_reporting_threshold body1 = mb_traffic_reporting_threshold body \<and>
     (0 < mb_traffic_reporting_threshold body \<longrightarrow> mb_cumulative_bytes body < mb_traffic_reporting_threshold body \<longrightarrow>
       mb_cumulative_bytes body1 < mb_traffic_reporting_threshold body) \<and>
     (\<exists>n. reports key n (mb_metered_hooks body) w w1 \<and> n + mb_cumulative_bytes body1 = mb_cumulative_bytes body + sum_list ns)"

lemma poll_frame_step:
  assumes key: "key \<noteq> ([], [])" and poll: "body_poll_frame poll_inner body w = (res, body1, w1)"
  shows "frame_step key body w (emitted_by res) body1 w1"
proof -
  obtain r b where p: "poll_inner (mb_inner body) = (r, b)" by (cases "poll_inner (mb_inner body)")
  show ?thesis
  proof (cases "\<exists>n x. r = Ready (Some (Inr (DataFrame n x)))")
    case True
    then obtain n x where r: "r = Ready (Some (Inr (DataFrame n x)))" by blast
    define body2 where "body2 = body\<lparr>mb_inner := b, mb_cumulative_bytes := mb_cumulative_bytes body + n\<rparr>"
    have res: "emitted_by res = [n]" using poll p r by (auto simp: body_poll_frame_def emitted_by_def Let_def split: if_splits)
    show ?thesis
    proof (cases "mb_traffic_reporting_threshold body2 \<le> mb_cumulative_bytes body2")
      case True
      then have "body1 = body2\<lparr>mb_cumulative_bytes := 0\<rparr>" "w1 = report_bytes body2 w"
        using poll p r by (simp_all add: body_poll_frame_def Let_def body2_def)
      moreover have "reports key (mb_cumulative_bytes body + n) (mb_metered_hooks body) w (report_bytes body2 w)"
        using reports_bytes [OF key, of body2 w] by (simp add: body2_def)
      ultimately show ?thesis unfolding frame_step_def res by (auto simp: body2_def)
    next
      case False
      then have "body1 = body2" "w1 = w" using poll p r by (simp_all add: body_poll_frame_def Let_def body2_def)
      then show ?thesis
        using False unfolding frame_step_def res by (auto simp: body2_def intro!: exI [of _ 0] reports_zero)
    qed
  next
    case False
    then have "body_poll_frame poll_inner body w = (r, body\<lparr>mb_inner := b\<rparr>, w)"
      using p by (auto simp: body_poll_frame_def split: poll.split option.split sum.split frame.split)
    moreover have "emitted_by r = []"
      using False by (auto simp: emitted_by_def split: poll.split option.split sum.split frame.split)
    ultimately show ?thesis
      using poll unfolding frame_step_def by (auto intro!: exI [of _ 0] reports_zero)
  qed
qed

section \<open>Bytes\<close>

definition phase_ok :: "u64 \<Rightarrow> 'b Holder \<Rightarrow> bool" where
  "phase_ok threshold h \<longleftrightarrow> (case ho_phase h of
     Streaming body \<Rightarrow> mb_metered_hooks body = ho_hooks h \<and> mb_traffic_reporting_threshold body = threshold \<and>
       (0 < threshold \<longrightarrow> mb_cumulative_bytes body < threshold)
   | _ \<Rightarrow> True)"

definition bytes_inv :: "string \<times> string \<Rightarrow> bool \<Rightarrow> u64 \<Rightarrow> 'b MeterSystem \<Rightarrow> bool" where
  "bytes_inv key billing threshold m \<longleftrightarrow>
     list_all (phase_ok threshold) (my_holders m) \<and>
     billed key (me_usage (my_state m)) + total (bills key) unreported (my_holders m) = total (bills key) emitted (my_holders m) \<and>
     me_total (my_state m) + total counts unreported (my_holders m) = total counts emitted (my_holders m) \<and>
     length (filter is_request (me_usage (my_state m))) =
       (if billing then length (filter (\<lambda>parts. pa_path_and_query parts \<noteq> None) (my_calls m)) else 0)"

lemma bytes_inv_update:
  assumes inv: "bytes_inv key billing threshold m" and i: "i < length (my_holders m)"
    and h1: "ho_hooks h1 = ho_hooks (my_holders m ! i)" "phase_ok threshold h1"
    and w1: "reports key n (ho_hooks h1) (my_state m) w1" "me_usage w2 = me_usage w1" "me_total w2 = me_total w1"
    and n: "n + unreported h1 + emitted (my_holders m ! i) = unreported (my_holders m ! i) + emitted h1"
  shows "bytes_inv key billing threshold (m\<lparr>my_state := w2, my_holders := (my_holders m)[i := h1]\<rparr>)"
proof -
  have n1: "n + (unreported h1 - unreported (my_holders m ! i)) = emitted h1 - emitted (my_holders m ! i)"
    using n by (simp add: algebra_simps)
  note inv = inv [unfolded bytes_inv_def]
  have exact: "x + (if P then n else 0) + (t + (if P then unreported h1 - unreported (my_holders m ! i) else 0)) =
      y + (if P then emitted h1 - emitted (my_holders m ! i) else 0)" if "x + t = y" for x t y P
  proof -
    have "x + n + (t + d) = (x + t) + (n + d)" for d by (simp add: ac_simps)
    from this [of "unreported h1 - unreported (my_holders m ! i)"]
    have "x + n + (t + (unreported h1 - unreported (my_holders m ! i))) = y + (emitted h1 - emitted (my_holders m ! i))"
      by (simp only: that n1)
    then show ?thesis using that by simp
  qed
  have "list_all (phase_ok threshold) ((my_holders m)[i := h1])"
    using inv h1(2) set_update_subset_insert [of "my_holders m" i h1] by (auto simp: list_all_iff)
  moreover have "billed key (me_usage w2) + total (bills key) unreported ((my_holders m)[i := h1]) =
      total (bills key) emitted ((my_holders m)[i := h1])"
    using w1 exact [OF inv [THEN conjunct2, THEN conjunct1], of "bills key (ho_hooks h1)"] total_update [OF i h1(1)]
    by (simp add: reports_def)
  moreover have "me_total w2 + total counts unreported ((my_holders m)[i := h1]) = total counts emitted ((my_holders m)[i := h1])"
    using w1 exact [OF inv [THEN conjunct2, THEN conjunct2, THEN conjunct1], of "counts (ho_hooks h1)"] total_update [OF i h1(1)]
    by (simp add: reports_def)
  ultimately show ?thesis using inv w1 by (simp add: bytes_inv_def reports_def)
qed

lemma dropped_same:
  "me_usage (drop_hooks hooks w) = me_usage w" "me_total (drop_hooks hooks w) = me_total w"
  by (simp_all add: drop_hooks_def stack_drop_def prom_drop_def decrement_active_def split: option.split)

lemma body_drop_eq: "body_drop body w = drop_hooks (mb_metered_hooks body) (report_bytes body w)"
  by (simp add: body_drop_def drop_hooks_def report_bytes_def split: option.split)

lemma bytes_inv_call:
  assumes inv: "bytes_inv key billing threshold m"
  shows "bytes_inv key billing threshold (meter_call billing parts m)"
proof -
  obtain hooks w where c: "metered_call billing parts (my_state m) = (hooks, w)" by (cases "metered_call billing parts (my_state m)")
  define w0 where "w0 = stack_on_method billing parts (my_state m)"
  have "me_usage w = me_usage w0 \<and> me_total w = me_total w0"
    using c by (auto simp: metered_call_def stack_build_hooks_def prom_build_hooks_def increment_active_def w0_def Let_def
        split: option.splits if_splits)
  moreover have "billed key (me_usage w0) = billed key (me_usage (my_state m)) \<and> me_total w0 = me_total (my_state m) \<and>
      length (filter is_request (me_usage w0)) = length (filter is_request (me_usage (my_state m))) +
        (if billing \<and> pa_path_and_query parts \<noteq> None then 1 else 0)"
    by (simp add: w0_def stack_on_method_def billing_on_method_def split: option.split)
  ultimately show ?thesis
    using inv by (simp add: bytes_inv_def meter_call_def c phase_ok_def unreported_def emitted_def)
qed

lemma meter_run_bytes:
  assumes "meter_run poll_inner billing threshold m" "key \<noteq> ([], [])"
  shows "bytes_inv key billing threshold m"
  using assms(1)
proof induction
  case run_new
  show ?case by (simp add: bytes_inv_def meter_new_def MeterState_new_def)
next
  case (run_call m parts)
  show ?case by (rule bytes_inv_call [OF run_call.IH])
next
  case (run_respond m i b)
  have "bytes_inv key billing threshold (m\<lparr>my_state := my_state m, my_holders := (my_holders m)[i := (my_holders m ! i)
      \<lparr>ho_phase := Streaming (metered_response threshold (ho_hooks (my_holders m ! i)) b)\<rparr>]\<rparr>)"
    by (rule bytes_inv_update [OF run_respond.IH run_respond.hyps(2) _ _ reports_zero])
      (use run_respond.hyps(3) in \<open>simp_all add: phase_ok_def metered_response_def unreported_def emitted_def\<close>)
  then show ?case by (simp add: meter_respond_def Let_def)
next
  case (run_poll m i body)
  obtain res body1 w1 where p: "body_poll_frame poll_inner body (my_state m) = (res, body1, w1)"
    by (cases "body_poll_frame poll_inner body (my_state m)")
  have ok: "phase_ok threshold (my_holders m ! i)"
    using run_poll.IH run_poll.hyps(2) by (simp add: bytes_inv_def list_all_length)
  have step: "frame_step key body (my_state m) (emitted_by res) body1 w1" by (rule poll_frame_step [OF assms(2) p])
  then obtain n where n: "reports key n (mb_metered_hooks body) (my_state m) w1"
      "n + mb_cumulative_bytes body1 = mb_cumulative_bytes body + sum_list (emitted_by res)"
    unfolding frame_step_def by blast
  let ?h1 = "(my_holders m ! i)\<lparr>ho_phase := Streaming body1, ho_emitted := ho_emitted (my_holders m ! i) @ emitted_by res\<rparr>"
  have "bytes_inv key billing threshold (m\<lparr>my_state := w1, my_holders := (my_holders m)[i := ?h1]\<rparr>)"
  proof (rule bytes_inv_update [OF run_poll.IH run_poll.hyps(2)])
    show "reports key n (ho_hooks ?h1) (my_state m) w1" using n(1) ok run_poll.hyps(3) by (simp add: phase_ok_def)
    show "phase_ok threshold ?h1" using step ok run_poll.hyps(3) by (auto simp: phase_ok_def frame_step_def)
    show "n + unreported ?h1 + emitted (my_holders m ! i) = unreported (my_holders m ! i) + emitted ?h1"
      using n(2) run_poll.hyps(3) by (simp add: unreported_def emitted_def ac_simps)
  qed simp_all
  then show ?case by (simp add: meter_poll_def p Let_def)
next
  case (run_drop m i)
  let ?h = "my_holders m ! i" and ?h1 = "(my_holders m ! i)\<lparr>ho_phase := Gone\<rparr>"
  have ok: "phase_ok threshold ?h"
    using run_drop.IH run_drop.hyps(2) by (simp add: bytes_inv_def list_all_length)
  define w1 where "w1 = (case ho_phase ?h of Streaming body \<Rightarrow> report_bytes body (my_state m) | _ \<Rightarrow> my_state m)"
  have "reports key (unreported ?h) (ho_hooks ?h1) (my_state m) w1"
  proof (cases "ho_phase ?h")
    case (Streaming body)
    with reports_bytes [OF assms(2), of body "my_state m"] ok show ?thesis by (simp add: w1_def unreported_def phase_ok_def)
  qed (simp_all add: w1_def unreported_def reports_zero)
  from bytes_inv_update [OF run_drop.IH run_drop.hyps(2) _ _ this, of "drop_hooks (ho_hooks ?h) w1"]
  have "bytes_inv key billing threshold (m\<lparr>my_state := drop_hooks (ho_hooks ?h) w1, my_holders := (my_holders m)[i := ?h1]\<rparr>)"
    by (simp add: dropped_same phase_ok_def unreported_def emitted_def)
  moreover have "meter_drop i m = m\<lparr>my_state := drop_hooks (ho_hooks ?h) w1, my_holders := (my_holders m)[i := ?h1]\<rparr>"
    using run_drop.hyps(3) ok by (auto simp: meter_drop_def Let_def w1_def phase_ok_def body_drop_eq split: holder_phase.split)
  ultimately show ?case by simp
qed

section \<open>Active bodies\<close>

definition active_ok :: "string \<times> string \<Rightarrow> MeterState \<Rightarrow> nat \<Rightarrow> bool" where
  "active_ok key w l \<longleftrightarrow> me_active w key = (if l = 0 then None else Some (of_nat l)) \<and> (l = 0 \<longrightarrow> me_outbound w key = 0)"

lemma live_le: "live key holders \<le> length holders"
  unfolding live_def by (induction holders) simp_all

lemma live_snoc [simp]: "live key (holders @ [h]) = live key holders + of_bool (ho_phase h \<noteq> Gone \<and> active_on key (ho_hooks h))"
  by (simp add: live_def)

lemma live_update:
  "i < length holders \<Longrightarrow>
   live key (holders[i := h]) + of_bool (ho_phase (holders ! i) \<noteq> Gone \<and> active_on key (ho_hooks (holders ! i))) =
   live key holders + of_bool (ho_phase h \<noteq> Gone \<and> active_on key (ho_hooks h))"
  unfolding live_def by (rule sum_list_map_update)

lemma live_pos:
  assumes "i < length holders" "ho_phase (holders ! i) \<noteq> Gone" "active_on key (ho_hooks (holders ! i))"
  shows "0 < live key holders"
proof -
  have "live key (holders[i := (holders ! i)\<lparr>ho_phase := Gone\<rparr>]) + 1 = live key holders"
    using live_update [OF assms(1), of key "(holders ! i)\<lparr>ho_phase := Gone\<rparr>"] assms(2,3) by simp
  then show ?thesis by simp
qed

lemma active_ok_reports: "reports key n hooks w w1 \<Longrightarrow> active_ok key w l \<Longrightarrow> active_on key hooks \<longrightarrow> 0 < l \<Longrightarrow> active_ok key w1 l"
  by (auto simp: reports_def active_ok_def)

lemma active_ok_drop:
  assumes ok: "active_ok key w (l + of_bool (active_on key hooks))" and small: "l + of_bool (active_on key hooks) < 2 ^ 64" and key: "key \<noteq> ([], [])"
  shows "active_ok key (drop_hooks hooks w) l"
proof (cases "active_on key hooks")
  case False
  have "me_active (drop_hooks hooks w) key = me_active w key \<and> me_outbound (drop_hooks hooks w) key = me_outbound w key"
    using False by (auto simp: drop_hooks_def stack_drop_def prom_drop_def active_on_def decrement_active_def split: option.split)
  then show ?thesis using ok False by (simp add: active_ok_def)
next
  case True
  then obtain h h1 where h: "hooks = Some h" "sk_hooks1 h = Some h1" "prom_key h1 = key"
    by (auto simp: active_on_def split: option.splits)
  then have drop: "drop_hooks hooks w = snd (decrement_active key w)"
    using key by (auto simp: drop_hooks_def stack_drop_def prom_drop_def prom_anonymous_def prom_key_def)
  have act: "me_active w key = Some (of_nat (l + 1))" using ok True by (simp add: active_ok_def)
  have "unat (of_nat (l + 1) :: u64) = l + 1" using small True by (intro of_nat_inverse [OF refl]) simp
  then have many: "1 < (of_nat (l + 1) :: u64) \<longleftrightarrow> 0 < l" unfolding word_less_nat_alt by simp
  have less: "(of_nat (l + 1) :: u64) - 1 = of_nat l" by simp
  show ?thesis
    unfolding drop active_ok_def decrement_active_def act using many less by simp
qed

lemma active_ok_call:
  assumes "metered_call billing parts w = (hooks, w1)" "active_ok key w l"
  shows "active_ok key w1 (l + of_bool (active_on key hooks))"
proof -
  define w0 where "w0 = stack_on_method billing parts w"
  have w0: "active_ok key w0 l"
    using assms(2) by (simp add: w0_def stack_on_method_def billing_on_method_def active_ok_def split: option.split)
  obtain hooks1 w2 where p: "prom_build_hooks parts w0 = (hooks1, w2)" by (cases "prom_build_hooks parts w0")
  have hooks: "w1 = w2" "active_on key hooks \<longleftrightarrow> (case hooks1 of None \<Rightarrow> False | Some h1 \<Rightarrow> prom_key h1 = key)"
    using assms(1) p by (auto simp: metered_call_def stack_build_hooks_def w0_def Let_def active_on_def split: if_splits)
  have "active_ok key w2 (l + of_bool (case hooks1 of None \<Rightarrow> False | Some h1 \<Rightarrow> prom_key h1 = key))"
  proof (cases hooks1)
    case None
    then show ?thesis using p w0 by (auto simp: prom_build_hooks_def split: option.splits)
  next
    case (Some h1)
    then have "w2 = increment_active (prom_key h1) w0"
      using p by (auto simp: prom_build_hooks_def prom_key_def split: option.splits)
    then show ?thesis using w0 Some by (auto simp: increment_active_def active_ok_def add.commute split: option.split)
  qed
  with hooks show ?thesis by simp
qed

lemma meter_run_active:
  assumes "meter_run poll_inner billing threshold m" "key \<noteq> ([], [])"
  shows "length (my_holders m) < 2 ^ 64 \<Longrightarrow> active_ok key (my_state m) (live key (my_holders m))"
  using assms(1)
proof induction
  case run_new
  show ?case by (simp add: active_ok_def meter_new_def MeterState_new_def live_def)
next
  case (run_call m parts)
  obtain hooks w where c: "metered_call billing parts (my_state m) = (hooks, w)" by (cases "metered_call billing parts (my_state m)")
  show ?case using active_ok_call [OF c run_call.IH] run_call.prems by (simp add: meter_call_def c)
next
  case (run_respond m i b)
  let ?h1 = "(my_holders m ! i)\<lparr>ho_phase := Streaming (metered_response threshold (ho_hooks (my_holders m ! i)) b)\<rparr>"
  have "live key ((my_holders m)[i := ?h1]) = live key (my_holders m)"
    using live_update [OF run_respond.hyps(2), of key ?h1] run_respond.hyps(3) by simp
  then show ?case using run_respond.IH run_respond.prems by (simp add: meter_respond_def Let_def)
next
  case (run_poll m i body)
  obtain res body1 w1 where p: "body_poll_frame poll_inner body (my_state m) = (res, body1, w1)"
    by (cases "body_poll_frame poll_inner body (my_state m)")
  have ok: "phase_ok threshold (my_holders m ! i)"
    using meter_run_bytes [OF run_poll.hyps(1) assms(2)] run_poll.hyps(2) by (simp add: bytes_inv_def list_all_length)
  obtain n where n: "reports key n (ho_hooks (my_holders m ! i)) (my_state m) w1"
    using poll_frame_step [OF assms(2) p] ok run_poll.hyps(3) by (auto simp: frame_step_def phase_ok_def)
  let ?h1 = "(my_holders m ! i)\<lparr>ho_phase := Streaming body1, ho_emitted := ho_emitted (my_holders m ! i) @ emitted_by res\<rparr>"
  have "live key ((my_holders m)[i := ?h1]) = live key (my_holders m)"
    using live_update [OF run_poll.hyps(2), of key ?h1] run_poll.hyps(3) by simp
  then show ?case
    using active_ok_reports [OF n] run_poll.IH run_poll.prems live_pos [OF run_poll.hyps(2), of key] run_poll.hyps(3)
    by (simp add: meter_poll_def p Let_def)
next
  case (run_drop m i)
  let ?h = "my_holders m ! i" and ?h1 = "(my_holders m ! i)\<lparr>ho_phase := Gone\<rparr>"
  have ok: "phase_ok threshold ?h"
    using meter_run_bytes [OF run_drop.hyps(1) assms(2)] run_drop.hyps(2) by (simp add: bytes_inv_def list_all_length)
  obtain n w1 where w1: "reports key n (ho_hooks ?h) (my_state m) w1" "my_state (meter_drop i m) = drop_hooks (ho_hooks ?h) w1"
  proof (cases "ho_phase ?h")
    case Calling
    then show ?thesis using that [OF reports_zero] by (simp add: meter_drop_def Let_def)
  next
    case (Streaming body)
    then show ?thesis
      using that [OF reports_bytes [OF assms(2), of body "my_state m", unfolded ok [unfolded phase_ok_def Streaming holder_phase.case, THEN conjunct1]]] ok
      by (simp add: meter_drop_def Let_def body_drop_eq phase_ok_def)
  next
    case Gone
    then show ?thesis using run_drop.hyps(3) by simp
  qed
  have len: "length (my_holders m) < 2 ^ 64" using run_drop.prems by (simp add: meter_drop_def Let_def)
  have l: "live key (my_holders m) = live key ((my_holders m)[i := ?h1]) + of_bool (active_on key (ho_hooks ?h))"
    using live_update [OF run_drop.hyps(2), of key ?h1] run_drop.hyps(3) by simp
  have "active_ok key w1 (live key (my_holders m))"
    using active_ok_reports [OF w1(1) run_drop.IH [OF len]] live_pos [OF run_drop.hyps(2,3)] by blast
  then have "active_ok key (drop_hooks (ho_hooks ?h) w1) (live key ((my_holders m)[i := ?h1]))"
    unfolding l by (rule active_ok_drop) (use live_le [of key "my_holders m"] len l assms(2) in auto)
  moreover have "my_holders (meter_drop i m) = (my_holders m)[i := ?h1]" by (simp add: meter_drop_def Let_def)
  ultimately show ?case by (simp add: w1(2))
qed

section \<open>Properties\<close>


text \<open>The table of active bodies counts the live hooks of each subscriber and path, those that wait for their
  response included, and when the last one is dropped the entry goes and its outbound gauge is back to zero.\<close>

lemma active_bodies_counted:
  assumes "meter_run poll_inner billing threshold m" "length (my_holders m) < 2 ^ 64" "(subscriber, path) \<noteq> ([], [])"
  shows "me_active (my_state m) (subscriber, path) =
      (let l = live (subscriber, path) (my_holders m) in if l = 0 then None else Some (of_nat l)) \<and>
    (live (subscriber, path) (my_holders m) = 0 \<longrightarrow> me_outbound (my_state m) (subscriber, path) = 0)"
  using meter_run_active [OF assms(1,3,2)] by (simp add: active_ok_def Let_def)

text \<open>A call whose response has frames of 10 and 5 bytes, with a threshold of 8; then the body is dropped.\<close>

fun frames_poll :: "u64 list \<Rightarrow> (unit + unit frame) option poll \<times> u64 list" where
  "frames_poll [] = (Ready None, [])"
| "frames_poll (n # ns) = (Ready (Some (Inr (DataFrame n ()))), ns)"

definition meter_parts :: Parts where
  "meter_parts = \<lparr>pa_host = None, pa_path_and_query = Some (''/m'', []), pa_header = Map.empty,
     pa_subscription = Some \<lparr>sb_subscription_id = ''s'', sb_ratelimits = None\<rparr>\<rparr>"

definition meter_hooks :: StackMeteredHooks where
  "meter_hooks = \<lparr>sk_hooks1 = Some \<lparr>ph_subscriber_id = ''s'', ph_uri_path = ''/m''\<rparr>,
     sk_hooks2 = Some \<lparr>bh_subscriber_id = ''s'', bh_uri_path = PathName_from (''/m'', [])\<rparr>\<rparr>"

definition meter_body :: "u64 list \<Rightarrow> u64 \<Rightarrow> u64 list MeteredBandwidthBody" where
  "meter_body ns cumulative = (metered_response 8 (Some meter_hooks) ns)\<lparr>mb_cumulative_bytes := cumulative\<rparr>"

definition meter_open :: "u64 list MeterSystem" where
  "meter_open = meter_poll frames_poll 0 (meter_body [5] 0)
     (meter_poll frames_poll 0 (meter_body [10, 5] 0) (meter_respond 8 0 [10, 5] (meter_call True meter_parts meter_new)))"

lemmas meter_eval = meter_open_def meter_body_def meter_hooks_def meter_parts_def meter_poll_def meter_respond_def
  meter_call_def meter_new_def MeterState_new_def metered_call_def stack_on_method_def stack_build_hooks_def
  billing_on_method_def billing_build_hooks_def prom_build_hooks_def increment_active_def metered_response_def
  body_poll_frame_def report_bytes_def stack_on_emit_bytes_def prom_on_emit_bytes_def billing_on_emit_bytes_def
  prom_anonymous_def prom_key_def emitted_by_def Let_def

lemma meter_open_holders:
  "my_holders meter_open = [\<lparr>ho_hooks = Some meter_hooks, ho_phase = Streaming (meter_body [] 5), ho_emitted = [10, 5]\<rparr>]"
  by (simp add: meter_eval)

lemma meter_open_run: "meter_run frames_poll True 8 meter_open"
  unfolding meter_open_def
  by (rule run_poll, rule run_poll, rule run_respond, rule run_call, rule run_new) (simp_all add: meter_eval)


lemma active_bodies_counted_witness:
  "me_active (my_state meter_open) (''s'', ''/m'') = Some 1 \<and> me_active (my_state (meter_drop 0 meter_open)) (''s'', ''/m'') = None"
proof -
  have "meter_run frames_poll True 8 (meter_drop 0 meter_open)"
    by (rule run_drop [OF meter_open_run]) (simp_all add: meter_open_holders)
  from active_bodies_counted [OF this, of "''s''" "''/m''"] active_bodies_counted [OF meter_open_run, of "''s''" "''/m''"]
  show ?thesis
    by (simp add: meter_drop_def meter_open_holders Let_def live_def active_on_def meter_hooks_def prom_key_def)
qed

end
