(* ===== verification/Request_Path.thy ===== *)
theory Request_Path
  imports Rate_Limit_Claims Meter_Claims
begin

text \<open>
  The layers that \<open>build_service\<close> (\<^verbatim>\<open>yellowstone-grpc-geyser/src/grpc.rs\<close>) puts around the service: behind the
  authentication guard and its mutex a request passes the token interceptor, the rate limiter
  (\<^verbatim>\<open>yellowstone-grpc-tools/src/server/tonic/interceptor.rs\<close>) and the metering, and reaches the service.
\<close>

section \<open>The layers\<close>

text \<open>\<open>rp_served\<close> records the requests that the service was called with.\<close>

record RequestPath =
  rp_x_token :: "bytes option"
  rp_limiter :: "MethodRatelimiter option"
  rp_billing :: bool
  rp_meter :: MeterState
  rp_served :: "Parts list"

text \<open>The future of a call: an interceptor answered with a status, or the service was called, with the hooks of the
  metering.\<close>

datatype response_future = Rejected Status | Forwarded "StackMeteredHooks option"

definition Status_unauthenticated :: "string \<Rightarrow> Status" where
  "Status_unauthenticated msg = \<lparr>stat_code = Unauthenticated, stat_message = msg, stat_transport = False\<rparr>"

definition x_token_call :: "bytes option \<Rightarrow> Parts \<Rightarrow> Status + Parts" where
  "x_token_call x_token request =
     (case x_token of
        None \<Rightarrow> Inr request
      | Some x_token \<Rightarrow>
          (case pa_header request ''x-token'' of
             Some token \<Rightarrow> if token = x_token then Inr request else Inl (Status_unauthenticated ''No valid auth token'')
           | None \<Rightarrow> Inl (Status_unauthenticated ''No valid auth token'')))"

definition optional_call ::
  "Parts \<Rightarrow> Instant \<Rightarrow> MethodRatelimiter option \<Rightarrow> ((Status + Parts) \<times> MethodRatelimiter option) run" where
  "optional_call request now limiter =
     (case limiter of
        None \<Rightarrow> Some (Inr request, None)
      | Some m \<Rightarrow> do { (res, m1) \<leftarrow> inner_call request now m; Some (res, Some m1) })"

definition metered_service_call :: "Parts \<Rightarrow> RequestPath \<Rightarrow> response_future \<times> RequestPath" where
  "metered_service_call request p =
     (case metered_call (rp_billing p) request (rp_meter p) of
        (hooks, w) \<Rightarrow> (Forwarded hooks, p\<lparr>rp_meter := w, rp_served := rp_served p @ [request]\<rparr>))"

definition http_intercepted_call :: "Parts \<Rightarrow> Instant \<Rightarrow> RequestPath \<Rightarrow> (response_future \<times> RequestPath) run" where
  "http_intercepted_call request now p =
     do {
       (res, limiter) \<leftarrow> optional_call request now (rp_limiter p);
       (let p1 = p\<lparr>rp_limiter := limiter\<rparr>
        in Some (case res of Inr req \<Rightarrow> metered_service_call req p1 | Inl status \<Rightarrow> (Rejected status, p1)))
     }"

definition intercepted_call :: "Parts \<Rightarrow> Instant \<Rightarrow> RequestPath \<Rightarrow> (response_future \<times> RequestPath) run" where
  "intercepted_call request now p =
     (case x_token_call (rp_x_token p) request of
        Inl status \<Rightarrow> Some (Rejected status, p)
      | Inr req \<Rightarrow> http_intercepted_call req now p)"

text \<open>What \<open>build_service\<close> wraps, from the token, the default limit with its window, and whether there is billing.\<close>

definition build_path :: "bytes option \<Rightarrow> (i32 \<times> Duration) option \<Rightarrow> bool \<Rightarrow> RequestPath" where
  "build_path x_token ratelimit billing =
     \<lparr>rp_x_token = x_token, rp_limiter = map_option (\<lambda>(hits, window). MethodRatelimiter_new hits window) ratelimit,
      rp_billing = billing, rp_meter = MeterState_new, rp_served = []\<rparr>"

section \<open>Behind the mutex of the guard\<close>

text \<open>The clones of the guard call the layers under one mutex; a panic of the call poisons it, and \<open>expect\<close> panics on a
  poisoned mutex. \<open>None\<close> is a call that panicked.\<close>

record LockedPath =
  lp_poisoned :: bool
  lp_inner :: RequestPath

definition locked_call :: "Parts \<Rightarrow> Instant \<Rightarrow> LockedPath \<Rightarrow> response_future option \<times> LockedPath" where
  "locked_call request now l =
     (if lp_poisoned l then (None, l)
      else (case intercepted_call request now (lp_inner l) of
              None \<Rightarrow> (None, l\<lparr>lp_poisoned := True\<rparr>)
            | Some (fut, p) \<Rightarrow> (Some fut, l\<lparr>lp_inner := p\<rparr>)))"

fun locked_run :: "(Instant \<times> Parts) list \<Rightarrow> LockedPath \<Rightarrow> response_future option list \<times> LockedPath" where
  "locked_run [] l = ([], l)"
| "locked_run ((now, request) # requests) l =
     (case locked_call request now l of
        (res, l1) \<Rightarrow> (case locked_run requests l1 of (rest, l2) \<Rightarrow> (res # rest, l2)))"

definition locked_path :: "bytes option \<Rightarrow> (i32 \<times> Duration) option \<Rightarrow> bool \<Rightarrow> LockedPath" where
  "locked_path x_token ratelimit billing = \<lparr>lp_poisoned = False, lp_inner = build_path x_token ratelimit billing\<rparr>"

section \<open>What the layers let through\<close>

definition token_ok :: "bytes option \<Rightarrow> Parts \<Rightarrow> bool" where
  "token_ok x_token request \<longleftrightarrow> (case x_token of None \<Rightarrow> True | Some t \<Rightarrow> pa_header request ''x-token'' = Some t)"

lemma x_token_call_eq:
  "x_token_call x_token request =
     (if token_ok x_token request then Inr request else Inl (Status_unauthenticated ''No valid auth token''))"
  by (auto simp: x_token_call_def token_ok_def split: option.split)

text \<open>The calls that reach the limiter, and its answers; without a limiter all are accepted.\<close>

fun limiter_run :: "(Instant \<times> Parts) list \<Rightarrow> MethodRatelimiter option \<Rightarrow> (Status + Parts) list run" where
  "limiter_run calls None = Some (map (\<lambda>(_, request). Inr request) calls)"
| "limiter_run calls (Some m) = map_option fst (run_calls calls m)"

text \<open>The status that each request is rejected with, from the answers of the limiter to those with a valid token.\<close>

fun expected :: "bytes option \<Rightarrow> (Instant \<times> Parts) list \<Rightarrow> (Status + Parts) list \<Rightarrow> Status option list" where
  "expected x_token [] rs = []"
| "expected x_token ((now, request) # requests) rs =
     (if token_ok x_token request then
        (case rs of [] \<Rightarrow> [] | r # rs \<Rightarrow> (case r of Inl status \<Rightarrow> Some status | Inr _ \<Rightarrow> None) # expected x_token requests rs)
      else Some (Status_unauthenticated ''No valid auth token'') # expected x_token requests rs)"

definition rejection :: "response_future \<Rightarrow> Status option" where
  "rejection fut = (case fut of Rejected status \<Rightarrow> Some status | Forwarded _ \<Rightarrow> None)"

definition accepted_parts :: "(Status + Parts) list \<Rightarrow> Parts list" where
  "accepted_parts rs = concat (map (\<lambda>r. case r of Inl _ \<Rightarrow> [] | Inr request \<Rightarrow> [request]) rs)"

text \<open>The request events of served requests\<close>

definition request_event :: "Parts \<Rightarrow> BillingEvent list" where
  "request_event request =
     (case pa_path_and_query request of
        None \<Rightarrow> []
      | Some path_and_query \<Rightarrow>
          [Requests \<lparr>rb_subscription_id = (case pa_subscription request of None \<Rightarrow> [] | Some info \<Rightarrow> sb_subscription_id info),
                     rb_method = PathName_from path_and_query, rb_quantity = 1\<rparr>])"

lemma metered_call_usage:
  "metered_call billing request w = (hooks, w1) \<Longrightarrow> me_usage w1 = me_usage w @ (if billing then request_event request else [])"
  by (auto simp: metered_call_def stack_build_hooks_def prom_build_hooks_def increment_active_def stack_on_method_def
      billing_on_method_def request_event_def Let_def split: option.splits if_splits)

lemma optional_call_run:
  "limiter_run ((now, request) # calls) limiter =
     (case optional_call request now limiter of
        None \<Rightarrow> None
      | Some (res, limiter1) \<Rightarrow> map_option ((#) res) (limiter_run calls limiter1))"
  by (cases limiter) (auto simp: optional_call_def split: Option.bind_splits option.splits)

lemma locked_run_exact:
  assumes "limiter_run (filter (\<lambda>(_, request). token_ok (rp_x_token p) request) requests) (rp_limiter p) = Some rs"
    and "locked_run requests \<lparr>lp_poisoned = False, lp_inner = p\<rparr> = (outcomes, l)"
  shows "map (map_option rejection) outcomes = map Some (expected (rp_x_token p) requests rs) \<and> \<not> lp_poisoned l \<and>
    rp_served (lp_inner l) = rp_served p @ accepted_parts rs \<and>
    me_usage (rp_meter (lp_inner l)) = me_usage (rp_meter p) @
      (if rp_billing p then concat (map request_event (accepted_parts rs)) else [])"
  using assms
proof (induction requests arbitrary: p rs outcomes)
  case Nil
  then show ?case by (cases "rp_limiter p") (auto simp: accepted_parts_def)
next
  case (Cons call requests)
  obtain now request where call: "call = (now, request)" by fastforce
  obtain res l1 where c: "locked_call request now \<lparr>lp_poisoned = False, lp_inner = p\<rparr> = (res, l1)" by fastforce
  obtain outcomes1 where run: "locked_run requests l1 = (outcomes1, l)" "outcomes = res # outcomes1"
    using Cons.prems(2) call c by (auto split: prod.splits)
  show ?case
  proof (cases "token_ok (rp_x_token p) request")
    case False
    then have "res = Some (Rejected (Status_unauthenticated ''No valid auth token''))" "l1 = \<lparr>lp_poisoned = False, lp_inner = p\<rparr>"
      using c by (simp_all add: locked_call_def intercepted_call_def x_token_call_eq)
    with Cons.IH [of p rs outcomes1] Cons.prems(1) run False show ?thesis by (simp add: call rejection_def)
  next
    case True
    with Cons.prems(1) obtain r limiter1 rs1 where o: "optional_call request now (rp_limiter p) = Some (r, limiter1)"
        "limiter_run (filter (\<lambda>(_, request). token_ok (rp_x_token p) request) requests) limiter1 = Some rs1" "rs = r # rs1"
      by (auto simp: call optional_call_run split: option.splits)
    show ?thesis
    proof (cases r)
      case (Inl status)
      then have "res = Some (Rejected status)" "l1 = \<lparr>lp_poisoned = False, lp_inner = p\<lparr>rp_limiter := limiter1\<rparr>\<rparr>"
        using c True o(1) by (simp_all add: locked_call_def intercepted_call_def x_token_call_eq http_intercepted_call_def)
      with Cons.IH [of "p\<lparr>rp_limiter := limiter1\<rparr>" rs1 outcomes1] run o True Inl show ?thesis
        by (simp add: call rejection_def accepted_parts_def)
    next
      case (Inr req)
      then have req: "req = request"
        using o(1) by (auto simp: optional_call_def inner_call_def Let_def split: option.splits Option.bind_splits if_splits)
      obtain hooks w where m: "metered_call (rp_billing p) request (rp_meter p) = (hooks, w)" by fastforce
      have "res = Some (Forwarded hooks)"
        "l1 = \<lparr>lp_poisoned = False, lp_inner = p\<lparr>rp_limiter := limiter1, rp_meter := w, rp_served := rp_served p @ [request]\<rparr>\<rparr>"
        using c True o(1) Inr m req
        by (simp_all add: locked_call_def intercepted_call_def x_token_call_eq http_intercepted_call_def metered_service_call_def)
      with Cons.IH [of "p\<lparr>rp_limiter := limiter1, rp_meter := w, rp_served := rp_served p @ [request]\<rparr>" rs1 outcomes1]
        run o True Inr req metered_call_usage [OF m]
      show ?thesis by (simp add: call rejection_def accepted_parts_def)
    qed
  qed
qed

section \<open>Properties\<close>

text \<open>C9. The layers compose: as long as the limiter does not panic, the requests without the token are rejected as
  unauthenticated before they count against a limit, those with it get the answer of the limiter run on them alone,
  the service is called with exactly the accepted ones, in order, and with billing each of them that has a path is
  billed as one request of its subscription and method, no other is.\<close>

theorem request_path_exact:
  assumes "limiter_run (filter (\<lambda>(_, request). token_ok x_token request) requests)
      (map_option (\<lambda>(hits, window). MethodRatelimiter_new hits window) ratelimit) = Some rs"
    and "locked_run requests (locked_path x_token ratelimit billing) = (outcomes, l)"
  shows "map (map_option rejection) outcomes = map Some (expected x_token requests rs) \<and> \<not> lp_poisoned l \<and>
    rp_served (lp_inner l) = accepted_parts rs \<and>
    me_usage (rp_meter (lp_inner l)) = (if billing then concat (map request_event (accepted_parts rs)) else [])"
  using locked_run_exact [of "build_path x_token ratelimit billing" requests rs outcomes l] assms
  by (simp add: locked_path_def build_path_def MeterState_new_def)

lemma inner_call_fallback: "inner_call request now m = Some (res, m1) \<Longrightarrow> mr_max_hits_fallback m1 = mr_max_hits_fallback m"
  by (auto simp: inner_call_def maybe_run_gc_def Let_def split: option.splits Option.bind_splits if_splits)

lemma locked_call_fallback:
  assumes "locked_call request now l = (res, l1)"
  shows "map_option mr_max_hits_fallback (rp_limiter (lp_inner l1)) = map_option mr_max_hits_fallback (rp_limiter (lp_inner l)) \<and>
    rp_x_token (lp_inner l1) = rp_x_token (lp_inner l)"
  using assms inner_call_fallback
  by (auto simp: locked_call_def intercepted_call_def http_intercepted_call_def optional_call_def metered_service_call_def Let_def
      split: if_splits option.splits sum.splits Option.bind_splits prod.splits)

lemma locked_run_fallback:
  "locked_run requests l = (outcomes, l1) \<Longrightarrow>
   map_option mr_max_hits_fallback (rp_limiter (lp_inner l1)) = map_option mr_max_hits_fallback (rp_limiter (lp_inner l)) \<and>
   rp_x_token (lp_inner l1) = rp_x_token (lp_inner l) \<and> length outcomes = length requests"
proof (induction requests arbitrary: l outcomes)
  case (Cons call requests)
  obtain now request where call: "call = (now, request)" by fastforce
  obtain res l2 where c: "locked_call request now l = (res, l2)" by fastforce
  obtain rest where "locked_run requests l2 = (rest, l1)" "outcomes = res # rest"
    using Cons.prems c call by (auto split: prod.splits)
  with Cons.IH [of l2 rest] locked_call_fallback [OF c] show ?case by simp
qed simp

lemma locked_run_append:
  "locked_run (xs @ ys) l = (case locked_run xs l of (o1, l1) \<Rightarrow> case locked_run ys l1 of (o2, l2) \<Rightarrow> (o1 @ o2, l2))"
  by (induction xs l rule: locked_run.induct) (auto split: prod.splits)

lemma locked_run_poisoned: "lp_poisoned l \<Longrightarrow> locked_run requests l = (replicate (length requests) None, l)"
  by (induction requests) (auto simp: locked_call_def)

text \<open>C40. One subscription can stop the server: when a request of a subscription whose limit is zero passes the token
  interceptor of a server with rate limiting, its call panics under the mutex of the guard, and every later call
  panics too, whoever makes it, so the service is never called again.\<close>

theorem zero_limit_stops_server:
  assumes "token_ok x_token request" "pa_subscription request = Some info" "pa_path_and_query request \<noteq> None"
    and "ratelimit_of hits info (uri_path request) = 0"
    and "locked_run before (locked_path x_token (Some (hits, window)) billing) = (outcomes1, l1)"
    and "locked_run (before @ (now, request) # after) (locked_path x_token (Some (hits, window)) billing) = (outcomes, l)"
  shows "outcomes = outcomes1 @ replicate (length after + 1) None \<and> rp_served (lp_inner l) = rp_served (lp_inner l1)"
proof -
  have "\<exists>m. rp_limiter (lp_inner l1) = Some m \<and> mr_max_hits_fallback m = hits"
    using locked_run_fallback [OF assms(5)]
    by (auto simp: locked_path_def build_path_def MethodRatelimiter_new_def MethodRatelimiter_with_gc_def)
  then obtain m where m: "rp_limiter (lp_inner l1) = Some m" "mr_max_hits_fallback m = hits" by blast
  have "mr_max_hits_fallback (maybe_run_gc now m) = hits" using m(2) by (simp add: maybe_run_gc_def Let_def)
  then have "inner_call request now m = None" using assms(2-4) by (auto simp: inner_call_def Let_def)
  then have "intercepted_call request now (lp_inner l1) = None"
    using locked_run_fallback [OF assms(5)] assms(1) m(1)
    by (simp add: intercepted_call_def x_token_call_eq http_intercepted_call_def optional_call_def locked_path_def build_path_def)
  then have call: "locked_call request now l1 = (None, l1\<lparr>lp_poisoned := True\<rparr>)" by (simp add: locked_call_def)
  show ?thesis
    using assms(5,6) call locked_run_poisoned [of "l1\<lparr>lp_poisoned := True\<rparr>" after] by (auto simp: locked_run_append)
qed

definition path_caller :: "i32 \<Rightarrow> string \<Rightarrow> Parts" where
  "path_caller limit name =
     \<lparr>pa_host = Some ''h'', pa_path_and_query = Some (''/m'', []), pa_header = Map.empty,
      pa_subscription = Some \<lparr>sb_subscription_id = name, sb_ratelimits = Some \<lparr>rl_default = limit, rl_methods = Map.empty\<rparr>\<rparr>\<rparr>"

theorem request_path_exact_witness:
  "\<exists>outcomes l. locked_run [(0, path_caller (- 1) ''s'')] (locked_path None (Some (5, 10 ^ 10)) True) = (outcomes, l) \<and>
     me_usage (rp_meter (lp_inner l)) = [Requests \<lparr>rb_subscription_id = ''s'', rb_method = ''/m'', rb_quantity = 1\<rparr>]"
proof -
  obtain outcomes l where run: "locked_run [(0, path_caller (- 1) ''s'')] (locked_path None (Some (5, 10 ^ 10)) True) = (outcomes, l)"
    by fastforce
  have "limiter_run (filter (\<lambda>(_, request). token_ok None request) [(0, path_caller (- 1) ''s'')])
      (map_option (\<lambda>(hits, window). MethodRatelimiter_new hits window) (Some (5, 10 ^ 10))) = Some [Inr (path_caller (- 1) ''s'')]"
    by (simp add: token_ok_def inner_call_def path_caller_def ratelimit_of_def Let_def)
  from request_path_exact [OF this run] run show ?thesis
    by (auto simp: accepted_parts_def request_event_def path_caller_def PathName_from_def)
qed

theorem zero_limit_stops_server_witness:
  "fst (locked_run [(0, path_caller 0 ''bad''), (1, path_caller (- 1) ''good'')] (locked_path None (Some (5, 10 ^ 10)) False)) = [None, None]"
proof -
  obtain outcomes l where run:
      "locked_run ([] @ (0, path_caller 0 ''bad'') # [(1, path_caller (- 1) ''good'')]) (locked_path None (Some (5, 10 ^ 10)) False) = (outcomes, l)"
    by fastforce
  have "outcomes = [] @ replicate (length [(1, path_caller (- 1) ''good'')] + 1) None"
    using zero_limit_stops_server [OF _ _ _ _ locked_run.simps(1) run, of "\<lparr>sb_subscription_id = ''bad'',
        sb_ratelimits = Some \<lparr>rl_default = 0, rl_methods = Map.empty\<rparr>\<rparr>"]
    by (simp add: token_ok_def path_caller_def ratelimit_of_def)
  with run show ?thesis by (simp add: numeral_2_eq_2)
qed

end
