(* ===== verification/Connection_Claims.thy ===== *)
theory Connection_Claims
  imports Rate_Limit
begin

text \<open>
  The table of connections per address under any interleaving of connections that open and close: it never
  counts too few, so the limit holds and nothing panics; but closing does not count down as long as another
  connection of the peer was counted, so a peer can use up its slots for good.
\<close>

section \<open>Runs\<close>

text \<open>The table, the open connections, and the connections accepted since the start of the run.\<close>

inductive conn_run ::
  "('io \<Rightarrow> 'ip option) \<Rightarrow> u64 \<Rightarrow> 'ip conn_map \<Rightarrow> ('io, 'ip) RateLimitedIO list
   \<Rightarrow> ('io, 'ip) RateLimitedIO list \<Rightarrow> 'ip conn_map \<Rightarrow> ('io, 'ip) RateLimitedIO list \<Rightarrow> bool"
  for peer_of limit table0 open0 where
  conn_start: "conn_run peer_of limit table0 open0 [] table0 open0"
| conn_accept: "conn_run peer_of limit table0 open0 accepted table conns \<Longrightarrow>
    RateLimitedIO_try_new peer_of io limit table = Some (Inr c, table1) \<Longrightarrow>
    conn_run peer_of limit table0 open0 (accepted @ [c]) table1 (conns @ [c])"
| conn_refuse: "conn_run peer_of limit table0 open0 accepted table conns \<Longrightarrow>
    RateLimitedIO_try_new peer_of io limit table = Some (Inl e, table1) \<Longrightarrow>
    conn_run peer_of limit table0 open0 accepted table1 conns"
| conn_close: "conn_run peer_of limit table0 open0 accepted table (front @ c # rest) \<Longrightarrow>
    RateLimitedIO_drop c table = Some table1 \<Longrightarrow>
    conn_run peer_of limit table0 open0 accepted table1 (front @ rest)"

definition open_from :: "'ip \<Rightarrow> ('io, 'ip) RateLimitedIO list \<Rightarrow> nat" where
  "open_from ip conns = length (filter (\<lambda>c. io_remote_peer c = Some ip) conns)"

definition counted :: "'ip conn_map \<Rightarrow> 'ip \<Rightarrow> nat" where
  "counted table ip = (case table ip of None \<Rightarrow> 0 | Some n \<Rightarrow> unat n)"

lemma open_from_simps [simp]:
  "open_from ip [] = 0" "open_from ip (xs @ ys) = open_from ip xs + open_from ip ys"
  "open_from ip (c # xs) = (if io_remote_peer c = Some ip then 1 else 0) + open_from ip xs"
  by (simp_all add: open_from_def)

section \<open>One step\<close>

lemma counted_update [simp]: "counted (table(k \<mapsto> n)) ip = (if ip = k then unat n else counted table ip)"
    "counted (table(k := None)) ip = (if ip = k then 0 else counted table ip)"
  by (simp_all add: counted_def)

lemma counted_Some: "table k = Some n \<Longrightarrow> counted table k = unat n" and counted_None: "table k = None \<Longrightarrow> counted table k = 0"
  by (simp_all add: counted_def)

lemma not_max: "n < limit \<Longrightarrow> (n :: u64) \<noteq> - 1"
  using max_word_max [of limit] by (auto simp: not_less)

lemma unat_below:
  assumes "(n :: u64) < limit"
  shows "unat (n + 1) = unat n + 1"
proof -
  have "1 + n \<noteq> 0"
  proof
    assume "1 + n = 0"
    moreover have "n = (1 + n) - 1" by simp
    ultimately show False using not_max [OF assms] by simp
  qed
  from unatSuc [OF this] show ?thesis by (simp only: add.commute [of n 1] Suc_eq_plus1)
qed

lemma try_new_eq:
  "RateLimitedIO_try_new peer_of io limit table =
     (case peer_of io of
        None \<Rightarrow> Some (Inr \<lparr>io_wrappee = io, io_remote_peer = None\<rparr>, table)
      | Some k \<Rightarrow>
          if unat limit \<le> counted table k then Some (Inl ''connection limit exceeded for remote peer ip'', table)
          else Some (Inr \<lparr>io_wrappee = io, io_remote_peer = Some k\<rparr>,
                     table(k \<mapsto> (case table k of None \<Rightarrow> 1 | Some n \<Rightarrow> n + 1))))"
proof (cases "peer_of io")
  case (Some k)
  show ?thesis
  proof (cases "table k")
    case None
    then show ?thesis using Some by (simp add: RateLimitedIO_try_new_def counted_None word_le_nat_alt)
  next
    case (Some n)
    have "limit \<le> n \<longleftrightarrow> unat limit \<le> counted table k" using Some by (simp add: counted_Some word_le_nat_alt)
    moreover have "n \<noteq> - 1" if "n < limit" using that by (rule not_max)
    ultimately show ?thesis using Some \<open>peer_of io = Some k\<close>
      by (auto simp: RateLimitedIO_try_new_def Let_def not_le)
  qed
qed (simp add: RateLimitedIO_try_new_def)

lemma next_count:
  assumes "\<not> unat (limit :: u64) \<le> counted table k"
  shows "unat ((case table k of None \<Rightarrow> 1 | Some n \<Rightarrow> n + 1) :: u64) = counted table k + 1"
proof (cases "table k")
  case (Some n)
  then have "n < limit" using assms by (simp add: counted_Some word_less_nat_alt)
  then show ?thesis using Some by (simp add: counted_Some unat_below)
qed (simp add: counted_None)

lemma accept_step:
  assumes "RateLimitedIO_try_new peer_of io limit table = Some (Inr c, table1)"
  shows "io_remote_peer c = peer_of io"
    "counted table1 ip = counted table ip + (if peer_of io = Some ip then 1 else 0)"
    "peer_of io = Some ip \<Longrightarrow> counted table ip < unat limit"
  using assms next_count [of limit table ip] by (auto simp: try_new_eq not_le split: option.splits if_splits)

lemma refuse_step:
  assumes "RateLimitedIO_try_new peer_of io limit table = Some (Inl e, table1)"
  shows "table1 = table"
  using assms by (auto simp: try_new_eq split: option.splits if_splits)

lemma close_step:
  assumes "RateLimitedIO_drop c table = Some table1"
  shows "counted table1 ip =
    (if io_remote_peer c = Some ip \<and> counted table ip = 1 then 0 else counted table ip)"
proof (cases "io_remote_peer c")
  case None
  then show ?thesis using assms by (simp add: RateLimitedIO_drop_def)
next
  case (Some k)
  then obtain n where n: "table k = Some n" using assms by (auto simp: RateLimitedIO_drop_def split: option.splits)
  have iff: "n = 1 \<longleftrightarrow> counted table k = 1" using n by (simp add: counted_Some word_unat_eq_iff)
  show ?thesis
  proof (cases "n = 1")
    case True
    then have "table1 = table(k := None)" using assms Some n by (simp add: RateLimitedIO_drop_def)
    then show ?thesis using Some iff True by simp
  next
    case False
    then have "n - 1 \<noteq> 0" by simp
    then have "table1 = table" using assms Some n by (simp add: RateLimitedIO_drop_def Let_def split: if_splits)
    then show ?thesis using Some iff False by auto
  qed
qed

section \<open>The limit\<close>

definition table_ok :: "u64 \<Rightarrow> 'ip conn_map \<Rightarrow> ('io, 'ip) RateLimitedIO list \<Rightarrow> bool" where
  "table_ok limit table conns \<longleftrightarrow>
     (\<forall>ip. open_from ip conns \<le> counted table ip \<and> counted table ip \<le> unat limit)"

lemma conn_run_ok:
  "conn_run peer_of limit Map.empty [] accepted table conns \<Longrightarrow> table_ok limit table conns"
proof (induction rule: conn_run.induct)
  case conn_start
  show ?case by (simp add: table_ok_def counted_def)
next
  case (conn_accept accepted table conns io c table1)
  have "open_from ip (conns @ [c]) \<le> counted table1 ip \<and> counted table1 ip \<le> unat limit" for ip
  proof -
    have "open_from ip conns \<le> counted table ip" "counted table ip \<le> unat limit"
      using conn_accept.IH by (simp_all add: table_ok_def)
    then show ?thesis
      using accept_step(1) [OF conn_accept.hyps(2)] accept_step(2,3) [OF conn_accept.hyps(2), of ip]
      by (cases "peer_of io = Some ip") simp_all
  qed
  then show ?case by (simp add: table_ok_def)
next
  case (conn_refuse accepted table conns io e table1)
  then show ?case using refuse_step [OF conn_refuse.hyps(2)] by simp
next
  case (conn_close accepted table front c rest table1)
  have "open_from ip (front @ rest) \<le> counted table1 ip \<and> counted table1 ip \<le> unat limit" for ip
  proof -
    have "open_from ip (front @ c # rest) \<le> counted table ip" "counted table ip \<le> unat limit"
      using conn_close.IH by (simp_all add: table_ok_def)
    then show ?thesis
      using close_step [OF conn_close.hyps(2), of ip]
      by (cases "io_remote_peer c = Some ip"; cases "counted table ip = 1") simp_all
  qed
  then show ?case by (simp add: table_ok_def)
qed

text \<open>C30. The limit of connections per address holds under every interleaving of accepted, refused and closed
  connections: never more than the limit are open from one address, and neither accepting nor closing a
  connection panics.\<close>

theorem connection_limit_holds:
  assumes "conn_run peer_of limit Map.empty [] accepted table conns"
  shows "(\<forall>ip. open_from ip conns \<le> unat limit) \<and>
    (\<forall>io. RateLimitedIO_try_new peer_of io limit table \<noteq> None) \<and>
    (\<forall>c \<in> set conns. RateLimitedIO_drop c table \<noteq> None)"
proof (intro conjI allI ballI)
  have ok: "table_ok limit table conns" by (rule conn_run_ok [OF assms])
  show "open_from ip conns \<le> unat limit" for ip using ok by (meson table_ok_def order_trans)
  show "RateLimitedIO_try_new peer_of io limit table \<noteq> None" for io
    by (simp add: try_new_eq split: option.split)
  fix c assume c: "c \<in> set conns"
  show "RateLimitedIO_drop c table \<noteq> None"
  proof (cases "io_remote_peer c")
    case (Some ip)
    have "0 < open_from ip conns" using c Some by (auto simp: open_from_def length_greater_0_conv filter_empty_conv)
    then have "0 < counted table ip" using ok by (metis table_ok_def less_le_trans)
    then show ?thesis using Some by (auto simp: RateLimitedIO_drop_def counted_def Let_def split: option.splits)
  qed (simp add: RateLimitedIO_drop_def)
qed

section \<open>The leak\<close>

text \<open>C39. Slots leak: once two connections of an address were counted, every connection accepted from it later is
  counted for good. So after as many more as the limit leaves, all its connections are refused, even when none is
  open any more.\<close>

theorem connection_slots_leak:
  assumes "conn_run peer_of limit table0 open0 accepted table conns" "2 \<le> counted table0 ip"
  shows "counted table ip = counted table0 ip + open_from ip accepted \<and>
    (unat limit \<le> counted table0 ip + open_from ip accepted \<longrightarrow>
       (\<forall>io. peer_of io = Some ip \<longrightarrow>
          (\<exists>e. RateLimitedIO_try_new peer_of io limit table = Some (Inl e, table))))"
proof -
  have "counted table ip = counted table0 ip + open_from ip accepted"
    using assms
  proof (induction rule: conn_run.induct)
    case (conn_accept accepted table conns io c table1)
    then show ?case using accept_step(1) [OF conn_accept.hyps(2)] accept_step(2) [OF conn_accept.hyps(2), of ip] by simp
  next
    case (conn_refuse accepted table conns io e table1)
    then show ?case using refuse_step [OF conn_refuse.hyps(2)] by simp
  next
    case (conn_close accepted table front c rest table1)
    then show ?case using close_step [OF conn_close.hyps(2), of ip] by simp
  qed simp
  moreover have "\<exists>e. RateLimitedIO_try_new peer_of io limit table = Some (Inl e, table)"
    if "unat limit \<le> counted table ip" "peer_of io = Some ip" for io
    using that by (simp add: try_new_eq)
  ultimately show ?thesis by simp
qed

text \<open>Two connections that were open at the same time and are both closed leave two of two slots taken.\<close>

definition toy_conn :: "(unit, nat) RateLimitedIO" where
  "toy_conn = \<lparr>io_wrappee = (), io_remote_peer = Some 7\<rparr>"

definition toy_table :: "nat conn_map" where
  "toy_table = [7 \<mapsto> 2]"

lemma toy_open: "conn_run (\<lambda>_. Some 7) 2 Map.empty [] [toy_conn, toy_conn] toy_table [toy_conn, toy_conn]"
proof -
  have "RateLimitedIO_try_new (\<lambda>_. Some 7) () 2 Map.empty = Some (Inr toy_conn, [7 \<mapsto> 1])"
    "RateLimitedIO_try_new (\<lambda>_. Some 7) () 2 [7 \<mapsto> 1] = Some (Inr toy_conn, toy_table)"
    by (simp_all add: RateLimitedIO_try_new_def toy_conn_def toy_table_def word_le_nat_alt)
  note steps = this
  have "conn_run (\<lambda>_. Some 7) 2 Map.empty [] [] Map.empty ([] :: (unit, nat) RateLimitedIO list)" by (rule conn_start)
  from conn_accept [OF conn_accept [OF this steps(1)] steps(2)] show ?thesis by simp
qed

lemma toy_closed: "conn_run (\<lambda>_. Some 7) 2 toy_table [toy_conn, toy_conn] [] toy_table []"
proof -
  have drop: "RateLimitedIO_drop toy_conn toy_table = Some toy_table"
    by (simp add: RateLimitedIO_drop_def toy_conn_def toy_table_def)
  have "conn_run (\<lambda>_. Some 7) 2 toy_table [toy_conn, toy_conn] [] toy_table ([] @ toy_conn # [toy_conn])"
    using conn_start [of "\<lambda>_. Some 7" 2 toy_table "[toy_conn, toy_conn]"] by simp
  from conn_close [OF this drop]
  have "conn_run (\<lambda>_. Some 7) 2 toy_table [toy_conn, toy_conn] [] toy_table ([] @ toy_conn # [])" by simp
  from conn_close [OF this drop] show ?thesis by simp
qed

theorem connection_limit_holds_witness:
  "open_from 7 [toy_conn, toy_conn] \<le> 2 \<and> RateLimitedIO_drop toy_conn toy_table \<noteq> None"
  using connection_limit_holds [OF toy_open] by auto

theorem connection_slots_leak_witness:
  "\<exists>e. RateLimitedIO_try_new (\<lambda>_. Some 7) () 2 toy_table = Some (Inl e, toy_table)"
  using connection_slots_leak [OF toy_closed, of 7] by (simp add: counted_def toy_table_def)

end
