(* ===== verification/Billing_Sink.thy ===== *)
theory Billing_Sink
  imports Metering
begin

text \<open>
  \<open>HttpBillingEventSink\<close> (\<^verbatim>\<open>yellowstone-grpc-geyser/src/billing.rs\<close>): the future that serializes billing events
  to lines of JSON, buffers them and posts the buffer, one request at a time. The source of events, the HTTP client,
  the clock and the serializer are parameters over a world \<open>'w\<close>.
\<close>

section \<open>The sink\<close>

abbreviation FLUSH_THRESHOLD_BYTES :: nat where
  "FLUSH_THRESHOLD_BYTES \<equiv> 4 * 1024"

abbreviation NEWLINE :: u8 where
  "NEWLINE \<equiv> 10"

text \<open>Polling the source; polling the request with a payload, which tells whether it succeeded; \<open>Instant::now\<close>; and
  \<open>serde_json::to_writer\<close>: what it writes and whether it succeeds.\<close>

record 'w sink_env =
  se_poll_next :: "'w \<Rightarrow> BillingEvent option poll \<times> 'w"
  se_poll_send :: "bytes \<Rightarrow> 'w \<Rightarrow> bool poll \<times> 'w"
  se_now :: "'w \<Rightarrow> nat"
  se_to_writer :: "BillingEvent \<Rightarrow> bytes \<times> bool"

text \<open>The ongoing flush is its payload with the number of events in it. The last two fields record the events that
  were taken from the source and the payloads that were handed to the client.\<close>

record HttpBillingEventSink =
  bs_ndjson_buffer :: bytes
  bs_source_closed :: bool
  bs_ongoing_flush :: "(bytes \<times> usize) option"
  bs_report_interval :: nat
  bs_events_since_last_flush :: usize
  bs_events_flushed_since_last_report :: usize
  bs_last_report_time :: nat
  bs_consumed :: "BillingEvent list"
  bs_posted :: "bytes list"

definition HttpBillingEventSink_new :: "nat \<Rightarrow> nat \<Rightarrow> HttpBillingEventSink" where
  "HttpBillingEventSink_new report_interval now =
     \<lparr>bs_ndjson_buffer = [], bs_source_closed = False, bs_ongoing_flush = None, bs_report_interval = report_interval,
      bs_events_since_last_flush = 0, bs_events_flushed_since_last_report = 0, bs_last_report_time = now,
      bs_consumed = [], bs_posted = []\<rparr>"

datatype FlushBufferError = Empty | OngoingFlush

definition try_flush_buffer_without_polling ::
  "HttpBillingEventSink \<Rightarrow> (FlushBufferError + unit) \<times> HttpBillingEventSink" where
  "try_flush_buffer_without_polling this =
     (if bs_ndjson_buffer this = [] then (Inl Empty, this)
      else if bs_ongoing_flush this \<noteq> None then (Inl OngoingFlush, this)
      else (Inr (), this\<lparr>bs_events_since_last_flush := 0, bs_ndjson_buffer := [],
              bs_ongoing_flush := Some (bs_ndjson_buffer this, bs_events_since_last_flush this),
              bs_posted := bs_posted this @ [bs_ndjson_buffer this]\<rparr>))"

definition poll_ongoing_flush ::
  "'w sink_env \<Rightarrow> HttpBillingEventSink \<Rightarrow> 'w \<Rightarrow> unit poll \<times> HttpBillingEventSink \<times> 'w" where
  "poll_ongoing_flush E this w =
     (case bs_ongoing_flush this of
        None \<Rightarrow> (Ready (), this, w)
      | Some (payload, num_events) \<Rightarrow>
          (case se_poll_send E payload w of
             (Ready True, w1) \<Rightarrow>
               (Ready (), this\<lparr>bs_events_flushed_since_last_report := bs_events_flushed_since_last_report this + num_events,
                              bs_ongoing_flush := None\<rparr>, w1)
           | (Ready False, w1) \<Rightarrow> (Ready (), this\<lparr>bs_ongoing_flush := None\<rparr>, w1)
           | (Pending, w1) \<Rightarrow> (Pending, this, w1)))"

text \<open>What is logged is the counter, which starts again; \<open>elapsed\<close> reads the clock.\<close>

definition report_if_needed :: "'w sink_env \<Rightarrow> nat \<Rightarrow> HttpBillingEventSink \<Rightarrow> 'w \<Rightarrow> HttpBillingEventSink" where
  "report_if_needed E now this w =
     (if bs_report_interval this \<le> se_now E w - bs_last_report_time this
      then this\<lparr>bs_events_flushed_since_last_report := 0, bs_last_report_time := now\<rparr>
      else this)"

definition saturating_add_usize :: "usize \<Rightarrow> usize \<Rightarrow> usize" where
  "saturating_add_usize a b = (if a \<le> - 1 - b then a + b else - 1)"

definition on_event :: "'w sink_env \<Rightarrow> BillingEvent \<Rightarrow> HttpBillingEventSink \<Rightarrow> HttpBillingEventSink" where
  "on_event E event this =
     (let this1 = (case se_to_writer E event of
            (written, True) \<Rightarrow>
              this\<lparr>bs_events_since_last_flush := saturating_add_usize (bs_events_since_last_flush this) 1,
                   bs_ndjson_buffer := (bs_ndjson_buffer this @ written) @ [NEWLINE]\<rparr>
          | (written, False) \<Rightarrow> this\<lparr>bs_ndjson_buffer := bs_ndjson_buffer this @ written\<rparr>);
          this2 = this1\<lparr>bs_consumed := bs_consumed this @ [event]\<rparr>
      in if FLUSH_THRESHOLD_BYTES \<le> length (bs_ndjson_buffer this2) then snd (try_flush_buffer_without_polling this2)
         else this2)"

section \<open>Polling\<close>

text \<open>One round of the loop of \<open>poll\<close>: it returns, goes on, or reaches the \<open>unreachable!\<close>, which panics.\<close>

datatype round = Return "unit poll" | Continue | Unreachable

definition poll_round :: "'w sink_env \<Rightarrow> HttpBillingEventSink \<Rightarrow> 'w \<Rightarrow> round \<times> HttpBillingEventSink \<times> 'w" where
  "poll_round E this w =
     (case poll_ongoing_flush E (report_if_needed E (se_now E w) this w) w of
        (Pending, this1, w1) \<Rightarrow> (Return Pending, this1, w1)
      | (Ready _, this1, w1) \<Rightarrow>
          if bs_source_closed this1 then
            (case try_flush_buffer_without_polling this1 of
               (Inr _, this2) \<Rightarrow> (Continue, this2, w1)
             | (Inl Empty, this2) \<Rightarrow> (Return (Ready ()), this2, w1)
             | (Inl OngoingFlush, this2) \<Rightarrow> (Unreachable, this2, w1))
          else
            (case se_poll_next E w1 of
               (Ready (Some event), w2) \<Rightarrow> (Continue, on_event E event this1, w2)
             | (Ready None, w2) \<Rightarrow> (Continue, this1\<lparr>bs_source_closed := True\<rparr>, w2)
             | (Pending, w2) \<Rightarrow>
                 (case try_flush_buffer_without_polling this1 of
                    (Inr _, this2) \<Rightarrow> (Continue, this2, w2)
                  | (Inl Empty, this2) \<Rightarrow> (Return Pending, this2, w2)
                  | (Inl OngoingFlush, this2) \<Rightarrow> (Return Pending, this2, w2))))"

text \<open>\<open>poll\<close>; \<open>None\<close> when it panics or does not return\<close>

partial_function (option) sink_poll ::
  "'w sink_env \<Rightarrow> HttpBillingEventSink \<Rightarrow> 'w \<Rightarrow> (unit poll \<times> HttpBillingEventSink \<times> 'w) option" where
  "sink_poll E this w =
     (case poll_round E this w of
        (Return res, this1, w1) \<Rightarrow> Some (res, this1, w1)
      | (Continue, this1, w1) \<Rightarrow> sink_poll E this1 w1
      | (Unreachable, _, _) \<Rightarrow> None)"

declare sink_poll.simps [code]

text \<open>A sink in its task: it is polled, and between the polls the world changes.\<close>

inductive sink_run :: "'w sink_env \<Rightarrow> HttpBillingEventSink \<Rightarrow> bool \<Rightarrow> bool" for E where
  sink_new: "sink_run E (HttpBillingEventSink_new report_interval now) False"
| sink_polled: "sink_run E this False \<Longrightarrow> sink_poll E this w = Some (res, this1, w1) \<Longrightarrow>
    sink_run E this1 (res = Ready ())"

section \<open>Every event is posted once\<close>

definition line :: "'w sink_env \<Rightarrow> BillingEvent \<Rightarrow> bytes" where
  "line E event = (case se_to_writer E event of (written, ok) \<Rightarrow> if ok then written @ [NEWLINE] else written)"

definition payload :: "'w sink_env \<Rightarrow> BillingEvent list \<Rightarrow> bytes" where
  "payload E events = concat (map (line E) events)"

definition num_events :: "'w sink_env \<Rightarrow> BillingEvent list \<Rightarrow> nat" where
  "num_events E events = length (filter (\<lambda>event. snd (se_to_writer E event)) events)"

lemma payload_simps [simp]: "payload E [] = []" "payload E (es @ fs) = payload E es @ payload E fs" "payload E [e] = line E e"
  by (simp_all add: payload_def)

lemma num_events_simps [simp]: "num_events E [] = 0" "num_events E (es @ fs) = num_events E es + num_events E fs"
    "num_events E [e] = of_bool (snd (se_to_writer E e))"
  by (simp_all add: num_events_def)

lemma num_events_le: "num_events E events \<le> length (payload E events)"
proof (induction events)
  case (Cons e es)
  have "num_events E [e] \<le> length (line E e)" by (simp add: line_def split: prod.split)
  with Cons show ?case using num_events_simps(2) [of E "[e]" es] payload_simps(2) [of E "[e]" es] by simp
qed simp

text \<open>The consumed events are cut into segments, one per payload, and the rest, which is in the buffer.\<close>

definition sink_state :: "'w sink_env \<Rightarrow> BillingEvent list list \<Rightarrow> BillingEvent list \<Rightarrow> HttpBillingEventSink \<Rightarrow> bool" where
  "sink_state E segments rest this \<longleftrightarrow>
     bs_consumed this = concat segments @ rest \<and> bs_posted this = map (payload E) segments \<and>
     bs_ndjson_buffer this = payload E rest \<and> unat (bs_events_since_last_flush this) = num_events E rest \<and>
     (\<forall>segment \<in> set segments. payload E segment \<noteq> [] \<and>
        (\<exists>event \<in> set segment. length (payload E segment) < FLUSH_THRESHOLD_BYTES + length (line E event))) \<and>
     (case bs_ongoing_flush this of
        None \<Rightarrow> True
      | Some (sent, n) \<Rightarrow> segments \<noteq> [] \<and> sent = payload E (last segments) \<and> unat n = num_events E (last segments))"

definition sink_inv :: "'w sink_env \<Rightarrow> HttpBillingEventSink \<Rightarrow> bool" where
  "sink_inv E this \<longleftrightarrow> (\<exists>segments rest. sink_state E segments rest this \<and> length (payload E rest) < FLUSH_THRESHOLD_BYTES)"

lemma flush_state:
  assumes "sink_state E segments rest this" "bs_ndjson_buffer this \<noteq> []" "bs_ongoing_flush this = None"
    and "\<exists>event \<in> set rest. length (payload E rest) < FLUSH_THRESHOLD_BYTES + length (line E event)"
  shows "sink_state E (segments @ [rest]) [] (snd (try_flush_buffer_without_polling this)) \<and>
    fst (try_flush_buffer_without_polling this) = Inr ()"
  using assms by (auto simp: sink_state_def try_flush_buffer_without_polling_def)

lemma sink_invI: "sink_state E segments rest this \<Longrightarrow> length (payload E rest) < FLUSH_THRESHOLD_BYTES \<Longrightarrow> sink_inv E this"
  unfolding sink_inv_def by blast

lemma flush_inv:
  assumes "sink_inv E this" "bs_ongoing_flush this = None" "try_flush_buffer_without_polling this = (res, this1)"
  shows "sink_inv E this1 \<and> (if bs_ndjson_buffer this = [] then res = Inl Empty \<and> this1 = this else res = Inr ()) \<and>
    bs_source_closed this1 = bs_source_closed this \<and> bs_ndjson_buffer this1 = []"
proof (cases "bs_ndjson_buffer this = []")
  case True
  then show ?thesis using assms by (simp add: try_flush_buffer_without_polling_def)
next
  case False
  obtain segments rest where s: "sink_state E segments rest this" "length (payload E rest) < FLUSH_THRESHOLD_BYTES"
    using assms(1) unfolding sink_inv_def by blast
  have "rest \<noteq> []" using s(1) False by (auto simp: sink_state_def)
  then have "\<exists>event \<in> set rest. length (payload E rest) < FLUSH_THRESHOLD_BYTES + length (line E event)"
    using s(2) by (cases rest) auto
  from flush_state [OF s(1) False assms(2) this] have "sink_inv E this1" "res = Inr ()"
    using assms(3) sink_invI [of E "segments @ [rest]" "[]" this1] by simp_all
  then show ?thesis using assms(2,3) False by (auto simp: try_flush_buffer_without_polling_def)
qed

lemma on_event_inv:
  assumes "sink_inv E this" "bs_ongoing_flush this = None"
  shows "sink_inv E (on_event E event this)"
proof -
  obtain segments rest where s: "sink_state E segments rest this" "length (payload E rest) < FLUSH_THRESHOLD_BYTES"
    using assms(1) unfolding sink_inv_def by blast
  define this1 where "this1 = (case se_to_writer E event of
            (written, True) \<Rightarrow>
              this\<lparr>bs_events_since_last_flush := saturating_add_usize (bs_events_since_last_flush this) 1,
                   bs_ndjson_buffer := (bs_ndjson_buffer this @ written) @ [NEWLINE]\<rparr>
          | (written, False) \<Rightarrow> this\<lparr>bs_ndjson_buffer := bs_ndjson_buffer this @ written\<rparr>)"
  define this2 where "this2 = this1\<lparr>bs_consumed := bs_consumed this @ [event]\<rparr>"
  have n: "unat (bs_events_since_last_flush this) < FLUSH_THRESHOLD_BYTES"
    using s num_events_le [of E rest] by (simp add: sink_state_def)
  moreover have "(- 1 - 1 :: usize) = 0xFFFFFFFFFFFFFFFE" by simp
  ultimately have "bs_events_since_last_flush this \<le> - 1 - 1" by (simp only: word_le_nat_alt) simp
  moreover have "unat (bs_events_since_last_flush this + 1) = unat (bs_events_since_last_flush this) + 1"
    using n by (simp add: unat_word_ariths)
  ultimately have "unat (saturating_add_usize (bs_events_since_last_flush this) 1) = unat (bs_events_since_last_flush this) + 1"
    by (simp add: saturating_add_usize_def)
  then have s2: "sink_state E segments (rest @ [event]) this2" "bs_ongoing_flush this2 = None"
    using s(1) assms(2) by (auto simp: sink_state_def this2_def this1_def line_def split: prod.split bool.split)
  have eq: "on_event E event this = (if FLUSH_THRESHOLD_BYTES \<le> length (bs_ndjson_buffer this2)
      then snd (try_flush_buffer_without_polling this2) else this2)"
    unfolding on_event_def this2_def this1_def Let_def by (rule refl)
  have buffer: "bs_ndjson_buffer this2 = payload E rest @ line E event" using s2(1) by (simp add: sink_state_def)
  show ?thesis
  proof (cases "FLUSH_THRESHOLD_BYTES \<le> length (bs_ndjson_buffer this2)")
    case True
    then have "bs_ndjson_buffer this2 \<noteq> []" by auto
    from flush_state [OF s2(1) this s2(2)] s(2) True show ?thesis
      unfolding eq by (simp add: sink_invI [of E "segments @ [rest @ [event]]" "[]"])
  next
    case False
    then show ?thesis
      using sink_invI [OF s2(1)] buffer unfolding eq by simp
  qed
qed

lemma sink_inv_other:
  assumes "sink_inv E this" "bs_consumed this1 = bs_consumed this" "bs_posted this1 = bs_posted this"
    and "bs_ndjson_buffer this1 = bs_ndjson_buffer this" "bs_events_since_last_flush this1 = bs_events_since_last_flush this"
    and "bs_ongoing_flush this1 = None \<or> bs_ongoing_flush this1 = bs_ongoing_flush this"
  shows "sink_inv E this1"
proof -
  obtain segments rest where s: "sink_state E segments rest this" "length (payload E rest) < FLUSH_THRESHOLD_BYTES"
    using assms(1) unfolding sink_inv_def by blast
  have "sink_state E segments rest this1" using s(1) assms(2-6) by (auto simp: sink_state_def)
  then show ?thesis using s(2) by (rule sink_invI)
qed

lemma poll_ongoing_flush_inv:
  assumes "sink_inv E this" "poll_ongoing_flush E this w = (res, this1, w1)"
  shows "sink_inv E this1 \<and> bs_source_closed this1 = bs_source_closed this \<and> bs_ndjson_buffer this1 = bs_ndjson_buffer this \<and>
    (res = Ready () \<longrightarrow> bs_ongoing_flush this1 = None)"
proof -
  have "bs_consumed this1 = bs_consumed this \<and> bs_posted this1 = bs_posted this \<and> bs_ndjson_buffer this1 = bs_ndjson_buffer this \<and>
      bs_events_since_last_flush this1 = bs_events_since_last_flush this \<and> bs_source_closed this1 = bs_source_closed this \<and>
      (bs_ongoing_flush this1 = None \<or> bs_ongoing_flush this1 = bs_ongoing_flush this) \<and>
      (res = Ready () \<longrightarrow> bs_ongoing_flush this1 = None)"
    using assms(2) by (auto simp: poll_ongoing_flush_def split: option.splits prod.splits poll.splits bool.splits)
  then show ?thesis using sink_inv_other [OF assms(1), of this1] by blast
qed

lemma report_inv:
  "sink_inv E this \<Longrightarrow> sink_inv E (report_if_needed E now this w)"
  "bs_source_closed (report_if_needed E now this w) = bs_source_closed this"
  "bs_ndjson_buffer (report_if_needed E now this w) = bs_ndjson_buffer this"
  by (rule sink_inv_other, assumption) (simp_all add: report_if_needed_def)

text \<open>What one round does: \<open>decreases\<close> is what keeps the loop finite.\<close>

definition backlog :: "('w \<Rightarrow> nat) \<Rightarrow> HttpBillingEventSink \<Rightarrow> 'w \<Rightarrow> nat" where
  "backlog events this w = 2 * events w + of_bool (\<not> bs_source_closed this) + of_bool (bs_ndjson_buffer this \<noteq> [])"

definition finite_backlog :: "'w sink_env \<Rightarrow> ('w \<Rightarrow> nat) \<Rightarrow> bool" where
  "finite_backlog E events \<longleftrightarrow>
     (\<forall>w. case se_poll_next E w of
        (Ready (Some _), w1) \<Rightarrow> events w1 < events w
      | (_, w1) \<Rightarrow> events w1 \<le> events w) \<and>
     (\<forall>sent w. events (snd (se_poll_send E sent w)) \<le> events w)"

definition round_fine :: "'w sink_env \<Rightarrow> HttpBillingEventSink \<Rightarrow> 'w \<Rightarrow> round \<Rightarrow> HttpBillingEventSink \<Rightarrow> 'w \<Rightarrow> bool" where
  "round_fine E this w r this1 w1 \<longleftrightarrow>
     sink_inv E this1 \<and> r \<noteq> Unreachable \<and>
     (r = Return (Ready ()) \<longrightarrow> bs_source_closed this1 \<and> bs_ndjson_buffer this1 = [] \<and> bs_ongoing_flush this1 = None) \<and>
     (r = Continue \<longrightarrow> (\<forall>events. finite_backlog E events \<longrightarrow> backlog events this1 w1 < backlog events this w))"

lemma poll_round_fine:
  assumes inv: "sink_inv E this" and round: "poll_round E this w = (r, this1, w1)"
  shows "round_fine E this w r this1 w1"
proof -
  obtain res this2 w2 where f: "poll_ongoing_flush E (report_if_needed E (se_now E w) this w) w = (res, this2, w2)"
    by (cases "poll_ongoing_flush E (report_if_needed E (se_now E w) this w) w")
  note this2 = poll_ongoing_flush_inv [OF report_inv(1) [OF inv] f, unfolded report_inv(2,3)]
  have w2: "events w2 \<le> events w" if "finite_backlog E events" for events
    using f that unfolding finite_backlog_def poll_ongoing_flush_def
    by (auto split: option.splits prod.splits poll.splits bool.splits) (metis snd_conv)+
  show ?thesis
  proof (cases res)
    case Pending
    then show ?thesis using round f this2 by (auto simp: poll_round_def round_fine_def)
  next
    case Ready: (Ready u)
    then have none: "bs_ongoing_flush this2 = None" using this2 by simp
    obtain fres this3 where t: "try_flush_buffer_without_polling this2 = (fres, this3)" by fastforce
    note flush = flush_inv [OF this2 [THEN conjunct1] none t]
    show ?thesis
    proof (cases "bs_source_closed this2")
      case True
      have "backlog events this3 w2 < backlog events this w" if "finite_backlog E events" "bs_ndjson_buffer this2 \<noteq> []" for events
        using w2 [OF that(1)] that(2) this2 flush by (simp add: backlog_def)
      then show ?thesis
        using round f Ready this2 none t flush True
        by (cases "bs_ndjson_buffer this2 = []") (auto simp: poll_round_def round_fine_def)
    next
      case False
      obtain ev w3 where p: "se_poll_next E w2 = (ev, w3)" by fastforce
      have w3: "case ev of Ready (Some _) \<Rightarrow> events w3 < events w2 | _ \<Rightarrow> events w3 \<le> events w2" if "finite_backlog E events" for events
        using that [unfolded finite_backlog_def, THEN conjunct1, THEN spec, of w2] by (simp add: p split: poll.splits option.splits)
      consider event where "ev = Ready (Some event)" | "ev = Ready None" | "ev = Pending" by (metis option.exhaust poll.exhaust)
      then show ?thesis
      proof cases
        case 1
        have "backlog events (on_event E event this2) w3 < backlog events this w" if "finite_backlog E events" for events
        proof -
          have "bs_source_closed (on_event E event this2) = bs_source_closed this2"
            by (simp add: on_event_def Let_def try_flush_buffer_without_polling_def split: prod.split bool.split)
          then show ?thesis using w2 [OF that] w3 [OF that] 1 this2 by (simp add: backlog_def)
        qed
        then show ?thesis
          using round f Ready False p 1 on_event_inv [OF this2 [THEN conjunct1] none] by (auto simp: poll_round_def round_fine_def)
      next
        case 2
        have "sink_inv E (this2\<lparr>bs_source_closed := True\<rparr>)" by (rule sink_inv_other [OF this2 [THEN conjunct1]]) simp_all
        moreover have "backlog events (this2\<lparr>bs_source_closed := True\<rparr>) w3 < backlog events this w" if "finite_backlog E events" for events
          using w2 [OF that] w3 [OF that] 2 this2 False by (simp add: backlog_def)
        ultimately show ?thesis using round f Ready False p 2 by (auto simp: poll_round_def round_fine_def)
      next
        case 3
        show ?thesis
        proof (cases "bs_ndjson_buffer this2 = []")
          case True
          then show ?thesis using round f Ready False p 3 t flush by (auto simp: poll_round_def round_fine_def)
        next
          case nonempty: False
          have "backlog events this3 w3 < backlog events this w" if "finite_backlog E events" for events
            using w2 [OF that] w3 [OF that] 3 this2 flush nonempty by (simp add: backlog_def)
          then show ?thesis using round f Ready False p 3 t flush nonempty by (auto simp: poll_round_def round_fine_def)
        qed
      qed
    qed
  qed
qed

section \<open>Properties\<close>

lemma sink_poll_inv:
  "sink_poll E this w = Some result \<Longrightarrow> sink_inv E this \<Longrightarrow>
   case result of (res, this1, w1) \<Rightarrow> sink_inv E this1 \<and> (res = Ready () \<longrightarrow> bs_source_closed this1 \<and> bs_ndjson_buffer this1 = [] \<and> bs_ongoing_flush this1 = None)"
proof (induction rule: sink_poll.raw_induct [rotated, consumes 1, case_names step])
  case (step poll E this w result)
  obtain r this2 w2 where p: "poll_round E this w = (r, this2, w2)" by (cases "poll_round E this w")
  note fine = poll_round_fine [OF step.prems p]
  then show ?case using step p by (cases r) (auto simp: round_fine_def)
qed

lemma sink_poll_some:
  "sink_inv E this \<Longrightarrow> finite_backlog E events \<Longrightarrow> \<exists>res this1 w1. sink_poll E this w = Some (res, this1, w1)"
proof (induction "backlog events this w" arbitrary: this w rule: less_induct)
  case less
  obtain r this2 w2 where p: "poll_round E this w = (r, this2, w2)" by (cases "poll_round E this w")
  note fine = poll_round_fine [OF less.prems(1) p]
  show ?case
  proof (cases r)
    case Continue
    then have "\<exists>res this1 w1. sink_poll E this2 w2 = Some (res, this1, w1)"
      using less fine by (simp add: round_fine_def)
    then show ?thesis using p Continue by (subst sink_poll.simps) simp
  qed (use fine p in \<open>simp_all add: sink_poll.simps round_fine_def\<close>)
qed

lemma sink_run_inv: "sink_run E this finished \<Longrightarrow>
    sink_inv E this \<and> (finished \<longrightarrow> bs_source_closed this \<and> bs_ndjson_buffer this = [] \<and> bs_ongoing_flush this = None)"
proof (induction rule: sink_run.induct)
  case (sink_new report_interval now)
  have "sink_state E [] [] (HttpBillingEventSink_new report_interval now)"
    by (simp add: sink_state_def HttpBillingEventSink_new_def)
  from sink_invI [OF this] show ?case by simp
next
  case (sink_polled this w res this1 w1)
  then show ?case using sink_poll_inv by fastforce
qed


text \<open>C38. A poll of the sink returns and never reaches its \<open>unreachable!\<close>, whatever is buffered or in flight, as long
  as the source does not have an event ready forever.\<close>

theorem sink_poll_returns:
  assumes "sink_run E this False" "finite_backlog E events"
  shows "sink_poll E this w \<noteq> None"
  using sink_poll_some [OF sink_run_inv [OF assms(1), THEN conjunct1] assms(2)] by (metis option.distinct(1))

text \<open>A source that has a list of events ready and is then closed, and a client that always succeeds.\<close>

fun listed_next :: "BillingEvent list \<Rightarrow> BillingEvent option poll \<times> BillingEvent list" where
  "listed_next [] = (Ready None, [])"
| "listed_next (e # es) = (Ready (Some e), es)"

definition listed :: "BillingEvent list sink_env" where
  "listed = \<lparr>se_poll_next = listed_next, se_poll_send = (\<lambda>_ w. (Ready True, w)), se_now = (\<lambda>_. 0),
     se_to_writer = (\<lambda>_. ([123, 125], True))\<rparr>"

abbreviation some_event :: BillingEvent where
  "some_event \<equiv> Requests \<lparr>rb_subscription_id = ''s'', rb_method = ''/m'', rb_quantity = 1\<rparr>"

lemma listed_finite: "finite_backlog listed length"
proof -
  have "case listed_next w of (Ready (Some _), w1) \<Rightarrow> length w1 < length w | (_, w1) \<Rightarrow> length w1 \<le> length w" for w
    by (cases w) simp_all
  then show ?thesis by (simp add: finite_backlog_def listed_def)
qed

definition posted_sink :: HttpBillingEventSink where
  "posted_sink = (HttpBillingEventSink_new 5 0)\<lparr>bs_source_closed := True, bs_events_flushed_since_last_report := 1,
     bs_consumed := [some_event], bs_posted := [[123, 125, 10]]\<rparr>"

lemma listed_poll: "sink_poll listed (HttpBillingEventSink_new 5 0) [some_event] = Some (Ready (), posted_sink, [])"
  by (simp add: sink_poll.simps poll_round_def poll_ongoing_flush_def report_if_needed_def on_event_def Let_def listed_def
      try_flush_buffer_without_polling_def HttpBillingEventSink_new_def saturating_add_usize_def posted_sink_def)


theorem sink_poll_returns_witness: "sink_poll listed (HttpBillingEventSink_new 5 0) [some_event, some_event] \<noteq> None"
  by (rule sink_poll_returns [OF sink_new listed_finite])

end
