(* ===== verification/Config.thy ===== *)
theory Config
  imports Convert
begin

text \<open>
  The configuration (\<^verbatim>\<open>yellowstone-grpc-geyser/src/config.rs\<close>), as far as it is more than derived
  deserializers: the list of CPU cores, addresses, numbers with underscores and compression formats. The input is what
  \<^verbatim>\<open>serde\<close> hands to the functions.
\<close>

section \<open>The list of cores\<close>

text \<open>\<open>split\<close> and \<open>split_once\<close> at a character\<close>

fun split_on :: "char \<Rightarrow> string \<Rightarrow> string list" where
  "split_on c [] = [[]]"
| "split_on c (x # xs) =
     (if x = c then [] # split_on c xs
      else (case split_on c xs of [] \<Rightarrow> [[x]] | piece # pieces \<Rightarrow> (x # piece) # pieces))"

fun split_once :: "char \<Rightarrow> string \<Rightarrow> (string \<times> string) option" where
  "split_once c [] = None"
| "split_once c (x # xs) =
     (if x = c then Some ([], xs)
      else (case split_once c xs of None \<Rightarrow> None | Some (before, after) \<Rightarrow> Some (x # before, after)))"

definition parse_usize :: "string \<Rightarrow> nat option" where
  "parse_usize = parse_unsigned (2 ^ 64 - 1)"

text \<open>The errors, of which the messages are made\<close>

datatype TasksetError =
    FailedToParse string string
  | InvalidInterval string string
  | FailedToGetAffinity
  | NotInRange nat

fun taskset_loop :: "string \<Rightarrow> string list \<Rightarrow> nat set \<Rightarrow> TasksetError + nat set" where
  "taskset_loop taskset [] set1 = Inr set1"
| "taskset_loop taskset (taskset2 # rest) set1 =
     (case split_once CHR ''-'' taskset2 of
        Some (start, end1) \<Rightarrow>
          (case parse_usize start of
             None \<Rightarrow> Inl (FailedToParse start taskset)
           | Some a \<Rightarrow>
               (case parse_usize end1 of
                  None \<Rightarrow> Inl (FailedToParse end1 taskset)
                | Some b \<Rightarrow>
                    if b < a then Inl (InvalidInterval taskset2 taskset)
                    else taskset_loop taskset rest (set1 \<union> {a..b})))
      | None \<Rightarrow>
          (case parse_usize taskset2 of
             None \<Rightarrow> Inl (FailedToParse taskset2 taskset)
           | Some a \<Rightarrow> taskset_loop taskset rest (insert a set1)))"

text \<open>\<open>affinity\<close> is what \<open>get_thread_affinity\<close> returns.\<close>

definition parse_taskset :: "'e + nat list \<Rightarrow> string \<Rightarrow> TasksetError + nat list" where
  "parse_taskset affinity taskset =
     (case taskset_loop taskset (split_on CHR '','' taskset) {} of
        Inl e \<Rightarrow> Inl e
      | Inr set1 \<Rightarrow>
          let vec = sorted_list_of_set set1
          in if vec = [] then Inr vec
             else (case affinity of
                     Inl _ \<Rightarrow> Inl FailedToGetAffinity
                   | Inr cpus \<Rightarrow>
                       let max_index = foldr max cpus 0
                       in if max_index < last vec then Inl (NotInRange max_index) else Inr vec))"

definition deserialize_affinity :: "'e + nat list \<Rightarrow> string option \<Rightarrow> TasksetError + nat list option" where
  "deserialize_affinity affinity value1 =
     (case value1 of
        Some taskset \<Rightarrow> map_sum id Some (parse_taskset affinity taskset)
      | None \<Rightarrow> Inr None)"

section \<open>Addresses\<close>

definition DEFAULT_UNIX_SOCKET_MODE :: u32 where
  "DEFAULT_UNIX_SOCKET_MODE = 432"

text \<open>Parsing and showing a \<open>SocketAddr\<close>, of type \<open>'a\<close>, are parameters.\<close>

datatype 'a GrpcAddress = Tcp 'a | Unix string u32

datatype AddressError = ParseError string | ModeOnTcp | NoAddress

definition strip_prefix :: "string \<Rightarrow> string \<Rightarrow> string option" where
  "strip_prefix p s = (if take (length p) s = p then Some (drop (length p) s) else None)"

definition GrpcAddress_from_str :: "(string \<Rightarrow> string + 'a) \<Rightarrow> string \<Rightarrow> AddressError + 'a GrpcAddress" where
  "GrpcAddress_from_str parse_addr s =
     (case strip_prefix ''unix://'' s of
        Some path \<Rightarrow> Inr (Unix path DEFAULT_UNIX_SOCKET_MODE)
      | None \<Rightarrow> (case parse_addr s of Inl e \<Rightarrow> Inl (ParseError e) | Inr addr \<Rightarrow> Inr (Tcp addr)))"

fun GrpcAddress_fmt :: "('a \<Rightarrow> string) \<Rightarrow> 'a GrpcAddress \<Rightarrow> string" where
  "GrpcAddress_fmt show_addr (Tcp addr) = show_addr addr"
| "GrpcAddress_fmt show_addr (Unix path _) = ''unix://'' @ path"

text \<open>An address is a string, or an object with a path and a mode.\<close>

datatype RawAddress = RString string | RObject string "u32 option"

fun GrpcAddress_deserialize :: "(string \<Rightarrow> string + 'a) \<Rightarrow> RawAddress \<Rightarrow> AddressError + 'a GrpcAddress" where
  "GrpcAddress_deserialize parse_addr (RString s) = GrpcAddress_from_str parse_addr s"
| "GrpcAddress_deserialize parse_addr (RObject path mode) =
     (case GrpcAddress_from_str parse_addr path of
        Inl e \<Rightarrow> Inl e
      | Inr (Unix path1 _) \<Rightarrow> Inr (Unix path1 (case mode of Some m \<Rightarrow> m | None \<Rightarrow> DEFAULT_UNIX_SOCKET_MODE))
      | Inr (Tcp _) \<Rightarrow> Inl ModeOnTcp)"

fun visit_seq :: "(string \<Rightarrow> string + 'a) \<Rightarrow> RawAddress list \<Rightarrow> 'a GrpcAddress list \<Rightarrow> AddressError + 'a GrpcAddress list" where
  "visit_seq parse_addr [] addrs = (if addrs = [] then Inl NoAddress else Inr addrs)"
| "visit_seq parse_addr (raw # raws) addrs =
     (case GrpcAddress_deserialize parse_addr raw of
        Inl e \<Rightarrow> Inl e
      | Inr addr \<Rightarrow> visit_seq parse_addr raws (addrs @ [addr]))"

datatype RawAddresses = VString string | VMap string "u32 option" | VSeq "RawAddress list"

fun GrpcAddresses_deserialize :: "(string \<Rightarrow> string + 'a) \<Rightarrow> RawAddresses \<Rightarrow> AddressError + 'a GrpcAddress list" where
  "GrpcAddresses_deserialize parse_addr (VString s) = map_sum id (\<lambda>addr. [addr]) (GrpcAddress_from_str parse_addr s)"
| "GrpcAddresses_deserialize parse_addr (VMap path mode) =
     map_sum id (\<lambda>addr. [addr]) (GrpcAddress_deserialize parse_addr (RObject path mode))"
| "GrpcAddresses_deserialize parse_addr (VSeq raws) = visit_seq parse_addr raws []"

section \<open>Numbers and compression formats\<close>

datatype 'n ValueIntStr = VInt 'n | VStr string

definition deserialize_int_str :: "(string \<Rightarrow> 'e + 'n) \<Rightarrow> 'n ValueIntStr \<Rightarrow> 'e + 'n" where
  "deserialize_int_str parse value1 =
     (case value1 of VInt n \<Rightarrow> Inr n | VStr s \<Rightarrow> parse (filter (\<lambda>c. c \<noteq> CHR ''_'') s))"

definition deserialize_int_str_maybe :: "(string \<Rightarrow> 'e + 'n) \<Rightarrow> 'n ValueIntStr option \<Rightarrow> 'e + 'n option" where
  "deserialize_int_str_maybe parse value1 =
     (case value1 of
        Some (VInt n) \<Rightarrow> Inr (Some n)
      | Some (VStr s) \<Rightarrow> map_sum id Some (parse (filter (\<lambda>c. c \<noteq> CHR ''_'') s))
      | None \<Rightarrow> Inr None)"

datatype CompressionEncoding = Gzip | Zstd

text \<open>The error is the unknown format.\<close>

fun deserialize_compression :: "string list \<Rightarrow> string + CompressionEncoding list" where
  "deserialize_compression [] = Inr []"
| "deserialize_compression (name # names) =
     (case (if name = ''gzip'' then Inr Gzip else if name = ''zstd'' then Inr Zstd else Inl name) of
        Inl e \<Rightarrow> Inl e
      | Inr c \<Rightarrow> (case deserialize_compression names of Inl e \<Rightarrow> Inl e | Inr cs \<Rightarrow> Inr (c # cs)))"

record ConfigGrpcCompression =
  cc_accept :: "CompressionEncoding list"
  cc_send :: "CompressionEncoding list"

definition ConfigGrpcCompression_default :: ConfigGrpcCompression where
  "ConfigGrpcCompression_default = \<lparr>cc_accept = [Gzip, Zstd], cc_send = [Gzip, Zstd]\<rparr>"

end
