(* ===== verification/Config_Claims.thy ===== *)
theory Config_Claims
  imports Config Convert_Claims
begin

text \<open>
  What the parsers of the configuration guarantee: a list of cores that is written down is read back as its sorted
  set, and what is read is always a nonempty ascending list of cores the process may use; addresses are read back as
  they are displayed.
\<close>

abbreviation greatest :: "nat set \<Rightarrow> nat" where
  "greatest \<equiv> Lattices_Big.linorder_class.Max"

section \<open>Splitting\<close>

lemma split_on_none: "c \<notin> set s \<Longrightarrow> split_on c s = [s]"
  by (induction s) auto

lemma split_on_append: "c \<notin> set s \<Longrightarrow> split_on c (s @ c # rest) = s # split_on c rest"
  by (induction s) auto

lemma split_on_nonempty [simp]: "split_on c s \<noteq> []"
  by (induction s) (auto split: list.split)

lemma split_once_none: "c \<notin> set s \<Longrightarrow> split_once c s = None"
  by (induction s) auto

lemma split_once_append: "c \<notin> set s \<Longrightarrow> split_once c (s @ c # rest) = Some (s, rest)"
  by (induction s) auto

lemma decimal_digits: "c \<in> set (decimal n) \<Longrightarrow> \<exists>d < 10. c = char_of (48 + d :: nat)"
proof (induction n rule: decimal.induct)
  case (1 n)
  show ?case
  proof (cases "n < 10")
    case True
    then show ?thesis using 1(2) by (auto simp: decimal.simps [of n])
  next
    case False
    then have "c \<in> set (decimal (n div 10)) \<or> c = char_of (48 + n mod 10)" using 1(2) by (auto simp: decimal.simps [of n])
    then show ?thesis
    proof
      assume "c = char_of (48 + n mod 10)"
      moreover have "n mod 10 < 10" by simp
      ultimately show ?thesis by blast
    qed (use 1(1) False in blast)
  qed
qed

lemma decimal_separators: "CHR '','' \<notin> set (decimal n)" "CHR ''-'' \<notin> set (decimal n)"
proof -
  have "c \<notin> set (decimal n)" if "(of_char c :: nat) < 48" for c
  proof
    assume "c \<in> set (decimal n)"
    then obtain d where "d < 10" "c = char_of (48 + d :: nat)" using decimal_digits by blast
    then show False using that digit_of_char by simp
  qed
  then show "CHR '','' \<notin> set (decimal n)" "CHR ''-'' \<notin> set (decimal n)" by simp_all
qed

section \<open>Lists of cores\<close>

datatype taskset_item = Core nat | Cores nat nat

fun item_cores :: "taskset_item \<Rightarrow> nat set" where
  "item_cores (Core a) = {a}"
| "item_cores (Cores a b) = {a..b}"

fun item_ok :: "taskset_item \<Rightarrow> bool" where
  "item_ok (Core a) \<longleftrightarrow> a < 2 ^ 64"
| "item_ok (Cores a b) \<longleftrightarrow> a \<le> b \<and> b < 2 ^ 64"

fun show_item :: "taskset_item \<Rightarrow> string" where
  "show_item (Core a) = decimal a"
| "show_item (Cores a b) = decimal a @ CHR ''-'' # decimal b"

fun show_taskset :: "taskset_item list \<Rightarrow> string" where
  "show_taskset [] = []"
| "show_taskset [item] = show_item item"
| "show_taskset (item # items) = show_item item @ CHR '','' # show_taskset items"

lemma show_item_comma: "CHR '','' \<notin> set (show_item item)"
  using decimal_separators by (cases item) auto

lemma split_show_taskset: "items \<noteq> [] \<Longrightarrow> split_on CHR '','' (show_taskset items) = map show_item items"
proof (induction items rule: show_taskset.induct)
  case (2 item)
  then show ?case using split_on_none [OF show_item_comma] by simp
next
  case (3 item item2 items)
  then show ?case using split_on_append [OF show_item_comma] by simp
qed simp

lemma parse_usize_decimal: "n < 2 ^ 64 \<Longrightarrow> parse_usize (decimal n) = Some n"
  unfolding parse_usize_def by (rule parse_unsigned_decimal) simp

lemma taskset_loop_item:
  assumes "item_ok item"
  shows "taskset_loop taskset (show_item item # pieces) set1 = taskset_loop taskset pieces (set1 \<union> item_cores item)"
proof (cases item)
  case (Core a)
  then have "parse_usize (decimal a) = Some a" using assms by (intro parse_usize_decimal) simp
  then show ?thesis by (simp add: Core split_once_none decimal_separators)
next
  case (Cores a b)
  then have "parse_usize (decimal a) = Some a" "parse_usize (decimal b) = Some b" "a \<le> b"
    using assms by (auto intro!: parse_usize_decimal)
  then show ?thesis by (simp add: Cores split_once_append decimal_separators)
qed

lemma taskset_loop_show:
  "list_all item_ok items \<Longrightarrow> taskset_loop taskset (map show_item items) set1 = Inr (set1 \<union> \<Union> (set (map item_cores items)))"
proof (induction items arbitrary: set1)
  case (Cons item items)
  then show ?case by (simp add: taskset_loop_item Un_assoc del: taskset_loop.simps(2))
qed simp

lemma item_cores_finite: "finite (item_cores item)"
  by (cases item) simp_all

lemma item_cores_nonempty: "item_ok item \<Longrightarrow> item_cores item \<noteq> {}"
  by (cases item) simp_all

lemma last_sorted_list: "finite A \<Longrightarrow> A \<noteq> {} \<Longrightarrow> last (sorted_list_of_set A) = greatest A"
proof -
  assume A: "finite A" "A \<noteq> {}"
  then have ne: "sorted_list_of_set A \<noteq> []" by simp
  have "x \<le> last (sorted_list_of_set A)" if "x \<in> A" for x
  proof -
    have "x \<in> set (sorted_list_of_set A)" using A that by simp
    then obtain i where "i < length (sorted_list_of_set A)" "x = sorted_list_of_set A ! i" by (auto simp: in_set_conv_nth)
    then show ?thesis by (simp add: last_conv_nth [OF ne] sorted_nth_mono)
  qed
  moreover have "last (sorted_list_of_set A) \<in> A" using last_in_set [OF ne] A by simp
  ultimately show ?thesis using A by (intro Max_eqI [symmetric]) auto
qed

lemma parse_taskset_cores:
  assumes "taskset_loop taskset (split_on CHR '','' taskset) {} = Inr cores" "finite cores" "cores \<noteq> {}"
  shows "parse_taskset (Inr cpus) taskset =
    (if greatest cores \<le> foldr max cpus 0 then Inr (sorted_list_of_set cores) else Inl (NotInRange (foldr max cpus 0)))"
proof -
  have "sorted_list_of_set cores \<noteq> []" using assms(2,3) by simp
  then show ?thesis
    unfolding parse_taskset_def assms(1) last_sorted_list [OF assms(2,3), symmetric] by (simp add: Let_def not_less)
qed

lemma parse_taskset_show:
  assumes "items \<noteq> []" "list_all item_ok items"
  shows "parse_taskset (Inr cpus) (show_taskset items) =
    (let cores = \<Union> (set (map item_cores items))
     in if greatest cores \<le> foldr max cpus 0 then Inr (sorted_list_of_set cores) else Inl (NotInRange (foldr max cpus 0)))"
  unfolding Let_def
proof (rule parse_taskset_cores)
  show "taskset_loop (show_taskset items) (split_on CHR '','' (show_taskset items)) {} = Inr (\<Union> (set (map item_cores items)))"
    using taskset_loop_show [OF assms(2)] split_show_taskset [OF assms(1)] by simp
  show "finite (\<Union> (set (map item_cores items)))" using item_cores_finite by auto
  show "\<Union> (set (map item_cores items)) \<noteq> {}" using assms item_cores_nonempty by (cases items) auto
qed

text \<open>A list of cores is read back as it is written: single cores and intervals, in any order and overlapping, give
  the sorted list of their union when the process may run on its greatest core, and otherwise the error that names the
  greatest core it may use.\<close>

lemma parse_taskset_roundtrip:
  assumes "items \<noteq> []" "list_all item_ok items"
  shows "parse_taskset (Inr cpus) (show_taskset items) =
    (let cores = \<Union> (set (map item_cores items))
     in if greatest cores \<le> foldr max cpus 0 then Inr (sorted_list_of_set cores) else Inl (NotInRange (foldr max cpus 0)))"
  using assms by (rule parse_taskset_show)

lemma some_cores: "\<Union> (set (map item_cores [Cores 2 4, Core 0, Cores 3 5])) = set [0, 2, 3, 4, 5]"
  by auto

lemma parse_taskset_roundtrip_witness:
  "parse_taskset (Inr [0, 1, 2, 3, 4, 5, 6, 7]) (show_taskset [Cores 2 4, Core 0, Cores 3 5]) = Inr [0, 2, 3, 4, 5]"
  using parse_taskset_roundtrip [of "[Cores 2 4, Core 0, Cores 3 5]" "[0, 1, 2, 3, 4, 5, 6, 7]"]
  unfolding some_cores Let_def by simp

lemma taskset_loop_finite:
  "taskset_loop taskset pieces set1 = Inr set2 \<Longrightarrow> finite set1 \<Longrightarrow> finite set2 \<and> set1 \<subseteq> set2 \<and> (pieces \<noteq> [] \<longrightarrow> set2 \<noteq> {})"
proof (induction pieces arbitrary: set1)
  case (Cons piece pieces)
  obtain added where "taskset_loop taskset pieces (set1 \<union> added) = Inr set2" "finite added" "added \<noteq> {}"
  proof (cases "split_once CHR ''-'' piece")
    case None
    with Cons.prems(1) obtain a where "taskset_loop taskset pieces (insert a set1) = Inr set2" by (auto split: option.splits)
    then show ?thesis using that [of "{a}"] by simp
  next
    case (Some ends)
    with Cons.prems(1) obtain a b where "taskset_loop taskset pieces (set1 \<union> {a..b}) = Inr set2" "a \<le> b"
      by (cases ends) (auto split: option.splits if_splits)
    then show ?thesis using that [of "{a..b}"] by simp
  qed
  with Cons.IH [of "set1 \<union> added"] Cons.prems(2) show ?case by auto
qed simp

text \<open>Whatever the text is, a list of cores that is accepted is nonempty, strictly ascending, and has no core above
  the greatest one the process may use.\<close>

lemma parse_taskset_accepts:
  assumes "parse_taskset affinity taskset = Inr cores"
  shows "cores \<noteq> [] \<and> sorted_wrt (<) cores \<and> (\<exists>cpus. affinity = Inr cpus \<and> (\<forall>core \<in> set cores. core \<le> foldr max cpus 0))"
proof -
  obtain set1 where loop: "taskset_loop taskset (split_on CHR '','' taskset) {} = Inr set1" and cores: "cores = sorted_list_of_set set1"
    using assms by (auto simp: parse_taskset_def Let_def split: sum.splits if_splits)
  have set1: "finite set1" "set1 \<noteq> {}" using taskset_loop_finite [OF loop] by simp_all
  then obtain cpus where cpus: "affinity = Inr cpus" "last cores \<le> foldr max cpus 0"
    using assms loop cores by (auto simp: parse_taskset_def Let_def not_less split: sum.splits if_splits)
  have "core \<le> last cores" if "core \<in> set cores" for core
    using that set1 by (simp add: cores last_sorted_list)
  then show ?thesis using set1 cpus by (force simp: cores strict_sorted_list_of_set)
qed

section \<open>Addresses\<close>

text \<open>An address is displayed so that it is read back, a Unix socket with the default mode, provided socket addresses
  are and none begins with the scheme of a Unix socket; a mode that is given with a Unix path is kept, and rejected with
  any other address.\<close>

lemma address_display_roundtrip:
  assumes "\<And>addr. parse_addr (show_addr addr) = Inr addr" "\<And>addr. strip_prefix ''unix://'' (show_addr addr) = None"
  shows "GrpcAddress_from_str parse_addr (GrpcAddress_fmt show_addr address) =
      Inr (case address of Tcp addr \<Rightarrow> Tcp addr | Unix path _ \<Rightarrow> Unix path DEFAULT_UNIX_SOCKET_MODE) \<and>
    GrpcAddress_deserialize parse_addr (RObject (GrpcAddress_fmt show_addr address) (Some mode)) =
      (case address of Tcp _ \<Rightarrow> Inl ModeOnTcp | Unix path _ \<Rightarrow> Inr (Unix path mode))"
  using assms by (cases address) (simp_all add: GrpcAddress_from_str_def strip_prefix_def)

lemma address_display_roundtrip_witness:
  "GrpcAddress_from_str (\<lambda>s. Inr (length s)) (GrpcAddress_fmt (\<lambda>n. replicate n CHR ''1'') (Unix ''/run/grpc'' 511)) =
     Inr (Unix ''/run/grpc'' DEFAULT_UNIX_SOCKET_MODE)"
proof -
  have "strip_prefix ''unix://'' (replicate n CHR ''1'') = None" for n
    by (cases n) (simp_all add: strip_prefix_def)
  from address_display_roundtrip [of "\<lambda>s. Inr (length s)" "\<lambda>n. replicate n CHR ''1''" "Unix ''/run/grpc'' 511", OF _ this] show ?thesis by simp
qed

text \<open>Underscores in numbers are ignored.\<close>

lemma int_str_underscores:
  "filter (\<lambda>c. c \<noteq> CHR ''_'') s = decimal n \<Longrightarrow> n < 2 ^ 64 \<Longrightarrow>
   deserialize_int_str (\<lambda>t. case parse_usize t of None \<Rightarrow> Inl () | Some m \<Rightarrow> Inr m) (VStr s) = Inr n"
  by (simp add: deserialize_int_str_def parse_usize_decimal)

lemma compression_ok_iff:
  "(\<exists>cs. deserialize_compression names = Inr cs) \<longleftrightarrow> set names \<subseteq> {''gzip'', ''zstd''}"
  by (induction names) (auto split: sum.splits if_splits)

end
