(* ===== verification/File_Watcher.thy ===== *)
theory File_Watcher
  imports Prelude
begin

text \<open>
  The registry of callbacks on file changes (\<^verbatim>\<open>yellowstone-grpc-geyser/src/file_watcher.rs\<close>). The crate
  \<^verbatim>\<open>notify\<close>, which watches the file system and delivers the events, is a parameter: its answers to \<open>watch\<close> and
  its events are arguments. A callback is an opaque value; an event yields the list of the callbacks it calls. The
  registry sits behind a mutex and every operation holds it for its whole access, so an interleaving of threads is
  a sequence of operations.
\<close>

section \<open>Paths\<close>

text \<open>A path is the list of its components, which is what \<open>==\<close>, \<open>starts_with\<close> and \<open>parent\<close> of the standard
  library look at.\<close>

datatype Component = RootDir | CurDir | ParentDir | Normal string

type_synonym path = "Component list"

definition path_starts_with :: "path \<Rightarrow> path \<Rightarrow> bool" where
  "path_starts_with p base \<longleftrightarrow> take (length base) p = base"

definition path_parent :: "path \<Rightarrow> path option" where
  "path_parent p = (if p = [] \<or> last p = RootDir then None else Some (butlast p))"

section \<open>Registrations\<close>

datatype WatchScope = File path | Folder path bool

definition matches_event_path :: "WatchScope \<Rightarrow> path \<Rightarrow> bool" where
  "matches_event_path scope event_path =
     (case scope of
        File p \<Rightarrow> event_path = p
      | Folder p recursive \<Rightarrow>
          if recursive then path_starts_with event_path p
          else event_path = p \<or> (case path_parent event_path of None \<Rightarrow> False | Some parent_path \<Rightarrow> parent_path = p))"

text \<open>The kinds of events the handler names, and the others.\<close>

datatype EventKind = Create | Modify | Remove | Unnamed

record Event =
  ev_kind :: EventKind
  ev_paths :: "path list"

record 'cb CallbackRegistration =
  cr_id :: u64
  cr_scope :: WatchScope
  cr_callback :: 'cb

definition matches_event :: "'cb CallbackRegistration \<Rightarrow> Event \<Rightarrow> bool" where
  "matches_event registration event = list_ex (matches_event_path (cr_scope registration)) (ev_paths event)"

record FileWatchHandle =
  fh_registration_id :: u64
  fh_deregister_on_drop :: bool

record 'cb Inner =
  in_registrations :: "'cb CallbackRegistration list"
  in_next_registration_id :: u64

definition FileWatchHandle_new :: "u64 \<Rightarrow> FileWatchHandle" where
  "FileWatchHandle_new i = \<lparr>fh_registration_id = i, fh_deregister_on_drop = True\<rparr>"

definition handle_drop :: "FileWatchHandle \<Rightarrow> 'cb Inner \<Rightarrow> 'cb Inner" where
  "handle_drop h w =
     (if \<not> fh_deregister_on_drop h then w
      else w\<lparr>in_registrations := filter (\<lambda>r. cr_id r \<noteq> fh_registration_id h) (in_registrations w)\<rparr>)"

text \<open>\<open>forget\<close> takes the handle, so the changed handle is dropped at its end.\<close>

definition handle_forget :: "FileWatchHandle \<Rightarrow> 'cb Inner \<Rightarrow> 'cb Inner" where
  "handle_forget h w = handle_drop (h\<lparr>fh_deregister_on_drop := False\<rparr>) w"

text \<open>\<open>created\<close> is the error of creating the watcher of the crate, if there is one.\<close>

definition FileWatcher_new :: "'e option \<Rightarrow> 'e + 'cb Inner" where
  "FileWatcher_new created =
     (case created of
        Some e \<Rightarrow> Inl e
      | None \<Rightarrow> Inr \<lparr>in_registrations = [], in_next_registration_id = 0\<rparr>)"

definition allocate_registration_id :: "'cb Inner \<Rightarrow> u64 \<times> 'cb Inner" where
  "allocate_registration_id w =
     (in_next_registration_id w, w\<lparr>in_next_registration_id := in_next_registration_id w + 1\<rparr>)"

definition watch_file :: "path \<Rightarrow> 'cb \<Rightarrow> 'e option \<Rightarrow> 'cb Inner \<Rightarrow> ('e + FileWatchHandle) \<times> 'cb Inner" where
  "watch_file p callback watched w =
     (case allocate_registration_id w of (registration_id, w1) \<Rightarrow>
        case watched of
          Some e \<Rightarrow> (Inl e, w1)
        | None \<Rightarrow>
            (Inr (FileWatchHandle_new registration_id),
             w1\<lparr>in_registrations := in_registrations w1 @
                 [\<lparr>cr_id = registration_id, cr_scope = File p, cr_callback = callback\<rparr>]\<rparr>))"

definition watch_folder ::
  "path \<Rightarrow> bool \<Rightarrow> 'cb \<Rightarrow> 'e option \<Rightarrow> 'cb Inner \<Rightarrow> ('e + FileWatchHandle) \<times> 'cb Inner" where
  "watch_folder p recursive callback watched w =
     (case allocate_registration_id w of (registration_id, w1) \<Rightarrow>
        case watched of
          Some e \<Rightarrow> (Inl e, w1)
        | None \<Rightarrow>
            (Inr (FileWatchHandle_new registration_id),
             w1\<lparr>in_registrations := in_registrations w1 @
                 [\<lparr>cr_id = registration_id, cr_scope = Folder p recursive, cr_callback = callback\<rparr>]\<rparr>))"

section \<open>Events\<close>

definition is_event_relevant :: "Event \<Rightarrow> bool" where
  "is_event_relevant event = (case ev_kind event of Create \<Rightarrow> True | Modify \<Rightarrow> True | Remove \<Rightarrow> True | Unnamed \<Rightarrow> False)"

text \<open>The callbacks that are called, in order; an error is only logged.\<close>

definition handle_event :: "'cb Inner \<Rightarrow> 'e + Event \<Rightarrow> 'cb list" where
  "handle_event w event_result =
     (case event_result of
        Inl e \<Rightarrow> []
      | Inr event \<Rightarrow>
          if \<not> is_event_relevant event then []
          else map cr_callback (filter (\<lambda>registration. matches_event registration event) (in_registrations w)))"

section \<open>What the registry promises\<close>

text \<open>
  What the users of a watcher do: watch a scope, where the crate accepts or refuses, and release the handle of the
  \<open>n\<close>-th call by dropping or forgetting it. A handle can be released once, and only when its call succeeded.
\<close>

datatype 'cb watch_op = Watch WatchScope 'cb bool | Drop nat | Forget nat

definition watch_scope :: "WatchScope \<Rightarrow> 'cb \<Rightarrow> unit option \<Rightarrow> 'cb Inner \<Rightarrow> (unit + FileWatchHandle) \<times> 'cb Inner" where
  "watch_scope scope = (case scope of File p \<Rightarrow> watch_file p | Folder p recursive \<Rightarrow> watch_folder p recursive)"

record 'cb watch_state =
  ws_inner :: "'cb Inner"
  ws_calls :: nat
  ws_handles :: "nat \<Rightarrow> FileWatchHandle option"

definition watch_start :: "'cb watch_state" where
  "watch_start =
     \<lparr>ws_inner = \<lparr>in_registrations = [], in_next_registration_id = 0\<rparr>, ws_calls = 0, ws_handles = (\<lambda>_. None)\<rparr>"

fun watch_do :: "'cb watch_op \<Rightarrow> 'cb watch_state \<Rightarrow> 'cb watch_state option" where
  "watch_do (Watch scope cb ok) s =
     (case watch_scope scope cb (if ok then None else Some ()) (ws_inner s) of (r, w) \<Rightarrow>
        Some (s\<lparr>ws_inner := w, ws_calls := Suc (ws_calls s),
                ws_handles := (ws_handles s)(ws_calls s := (case r of Inl _ \<Rightarrow> None | Inr h \<Rightarrow> Some h))\<rparr>))"
| "watch_do (Drop n) s =
     (case ws_handles s n of
        None \<Rightarrow> None
      | Some h \<Rightarrow> Some (s\<lparr>ws_inner := handle_drop h (ws_inner s), ws_handles := (ws_handles s)(n := None)\<rparr>))"
| "watch_do (Forget n) s =
     (case ws_handles s n of
        None \<Rightarrow> None
      | Some h \<Rightarrow> Some (s\<lparr>ws_inner := handle_forget h (ws_inner s), ws_handles := (ws_handles s)(n := None)\<rparr>))"

fun watch_run :: "'cb watch_op list \<Rightarrow> 'cb watch_state \<Rightarrow> 'cb watch_state option" where
  "watch_run [] s = Some s"
| "watch_run (op # ops) s = do { s1 \<leftarrow> watch_do op s; watch_run ops s1 }"

text \<open>The abstract view: the watch calls with their numbers, less the refused and the dropped ones.\<close>

fun is_watch :: "'cb watch_op \<Rightarrow> bool" where
  "is_watch (Watch scope cb ok) = True"
| "is_watch _ = False"

definition watch_calls :: "'cb watch_op list \<Rightarrow> 'cb watch_op list" where
  "watch_calls ops = filter is_watch ops"

fun live_of :: "(nat \<Rightarrow> bool) \<Rightarrow> nat \<times> 'cb watch_op \<Rightarrow> (nat \<times> WatchScope \<times> 'cb) option" where
  "live_of dropped (n, Watch scope cb ok) = (if ok \<and> \<not> dropped n then Some (n, scope, cb) else None)"
| "live_of dropped _ = None"

definition live_watches :: "'cb watch_op list \<Rightarrow> (nat \<times> WatchScope \<times> 'cb) list" where
  "live_watches ops = List.map_filter (live_of (\<lambda>n. Drop n \<in> set ops)) (enumerate 0 (watch_calls ops))"

lemma watch_run_snoc: "watch_run (ops @ [op]) s = do { s1 \<leftarrow> watch_run ops s; watch_do op s1 }"
  by (induction ops arbitrary: s) (auto split: bind_splits)

definition registration_of :: "nat \<times> WatchScope \<times> 'cb \<Rightarrow> 'cb CallbackRegistration" where
  "registration_of x = \<lparr>cr_id = of_nat (fst x), cr_scope = fst (snd x), cr_callback = snd (snd x)\<rparr>"

definition watch_inv :: "'cb watch_op list \<Rightarrow> 'cb watch_state \<Rightarrow> bool" where
  "watch_inv ops s \<longleftrightarrow>
     ws_calls s = length (watch_calls ops) \<and>
     ws_inner s = \<lparr>in_registrations = map registration_of (live_watches ops), in_next_registration_id = of_nat (ws_calls s)\<rparr> \<and>
     (\<forall>n h. ws_handles s n = Some h \<longrightarrow> h = FileWatchHandle_new (of_nat n) \<and> n < ws_calls s) \<and>
     (\<forall>n. Drop n \<in> set ops \<longrightarrow> n < ws_calls s)"

lemma watch_calls_snoc [simp]: "watch_calls (ops @ [op]) = watch_calls ops @ (if is_watch op then [op] else [])"
  by (simp add: watch_calls_def)

lemma live_of_fst: "live_of d x = Some y \<Longrightarrow> fst y = fst x"
  by (cases "(d, x)" rule: live_of.cases) (auto split: if_splits)

lemma live_watch_number:
  assumes "x \<in> set (live_watches ops)"
  shows "fst x < length (watch_calls ops)"
proof -
  obtain p where "p \<in> set (enumerate 0 (watch_calls ops))" "live_of (\<lambda>n. Drop n \<in> set ops) p = Some x"
    using assms by (auto simp: live_watches_def List.map_filter_def)
  then show ?thesis by (auto simp: in_set_enumerate_eq dest: live_of_fst)
qed

lemma live_watches_watch:
  "live_watches (ops @ [Watch scope cb ok]) =
     live_watches ops @ (if ok \<and> Drop (length (watch_calls ops)) \<notin> set ops then [(length (watch_calls ops), scope, cb)] else [])"
  by (simp add: live_watches_def List.map_filter_def enumerate_append_eq)

lemma live_of_drop:
  "List.map_filter (live_of (\<lambda>m. m = n \<or> d m)) xs = filter (\<lambda>x. fst x \<noteq> n) (List.map_filter (live_of d) xs)"
proof (induction xs)
  case (Cons x xs)
  then show ?case by (cases "(d, x)" rule: live_of.cases) (auto simp: List.map_filter_simps)
qed (simp add: List.map_filter_simps)

lemma live_watches_drop: "live_watches (ops @ [Drop n]) = filter (\<lambda>x. fst x \<noteq> n) (live_watches ops)"
  by (simp add: live_watches_def live_of_drop [symmetric])

lemma live_watches_forget: "live_watches (ops @ [Forget n]) = live_watches ops"
  by (simp add: live_watches_def)

lemma of_nat_u64_eq: "m < 2 ^ 64 \<Longrightarrow> n < 2 ^ 64 \<Longrightarrow> ((of_nat m :: u64) = of_nat n) = (m = n)"
  by (simp add: word_of_nat_eq_iff take_bit_nat_eq_self)

lemma dropped_registrations:
  assumes "n < 2 ^ 64" "length (watch_calls ops) \<le> 2 ^ 64"
  shows "filter (\<lambda>r. cr_id r \<noteq> of_nat n) (map registration_of (live_watches ops)) =
    map registration_of (filter (\<lambda>x. fst x \<noteq> n) (live_watches ops))"
proof -
  have "(of_nat (fst x) :: u64) = of_nat n \<longleftrightarrow> fst x = n" if "x \<in> set (live_watches ops)" for x
    using live_watch_number [OF that] assms by (intro of_nat_u64_eq) simp_all
  then show ?thesis by (simp add: filter_map o_def registration_of_def cong: filter_cong)
qed

lemma watch_inv_watch:
  assumes "watch_inv ops s" "watch_do (Watch scope cb ok) s = Some s'"
  shows "watch_inv (ops @ [Watch scope cb ok]) s'"
proof -
  have "Drop (length (watch_calls ops)) \<notin> set ops" using assms(1) by (auto simp: watch_inv_def)
  then have live: "live_watches (ops @ [Watch scope cb ok]) =
      live_watches ops @ (if ok then [(ws_calls s, scope, cb)] else [])"
    using assms(1) by (simp add: live_watches_watch watch_inv_def)
  have "watch_scope scope cb (if ok then None else Some ()) (ws_inner s) =
      (if ok then Inr (FileWatchHandle_new (of_nat (ws_calls s))) else Inl (),
       \<lparr>in_registrations = map registration_of (live_watches (ops @ [Watch scope cb ok])),
        in_next_registration_id = of_nat (Suc (ws_calls s))\<rparr>)"
    using assms(1) unfolding live
    by (cases scope) (simp_all add: watch_inv_def watch_scope_def watch_file_def watch_folder_def
        allocate_registration_id_def registration_of_def add.commute)
  with assms show ?thesis by (auto simp: watch_inv_def less_Suc_eq split: if_splits)
qed

lemma watch_inv_step:
  assumes "watch_inv ops s" "watch_do op s = Some s'" "length (watch_calls ops) \<le> 2 ^ 64"
  shows "watch_inv (ops @ [op]) s'"
proof (cases op)
  case (Watch scope cb ok)
  with assms(1,2) show ?thesis by (simp only: watch_inv_watch)
next
  case (Drop n)
  with assms(2) obtain h where h: "ws_handles s n = Some h"
    "s' = s\<lparr>ws_inner := handle_drop h (ws_inner s), ws_handles := (ws_handles s)(n := None)\<rparr>"
    by (auto split: option.splits)
  have h': "h = FileWatchHandle_new (of_nat n)" and less: "n < length (watch_calls ops)"
    using assms(1) h(1) unfolding watch_inv_def by fastforce+
  have few: "length (watch_calls ops) \<le> 2 ^ 64" using assms(3) unfolding Drop by (simp only: watch_calls_snoc is_watch.simps if_False append_Nil2)
  with less have n: "n < 2 ^ 64" by (rule less_le_trans)
  show ?thesis using assms(1) less dropped_registrations [OF n few] unfolding Drop h(2)
    by (auto simp: h' watch_inv_def live_watches_drop handle_drop_def FileWatchHandle_new_def)
next
  case (Forget n)
  with assms(2) obtain h where "ws_handles s n = Some h"
    "s' = s\<lparr>ws_inner := handle_forget h (ws_inner s), ws_handles := (ws_handles s)(n := None)\<rparr>"
    by (auto split: option.splits)
  with assms(1) Forget show ?thesis
    by (auto simp: watch_inv_def live_watches_forget handle_forget_def handle_drop_def)
qed

lemma watch_run_inv:
  "watch_run ops watch_start = Some s \<Longrightarrow> length (watch_calls ops) \<le> 2 ^ 64 \<Longrightarrow> watch_inv ops s"
proof (induction ops arbitrary: s rule: rev_induct)
  case Nil
  then show ?case by (auto simp: watch_inv_def watch_start_def live_watches_def watch_calls_def List.map_filter_simps)
next
  case (snoc op ops)
  then obtain s1 where "watch_run ops watch_start = Some s1" "watch_do op s1 = Some s"
    by (auto simp: watch_run_snoc split: bind_splits)
  moreover have "length (watch_calls ops) \<le> 2 ^ 64" using snoc.prems(2) by (simp split: if_splits)
  ultimately show ?case using snoc by (blast intro: watch_inv_step)
qed

text \<open>An event calls, once each and in the order of registration, the callbacks of exactly the watches that match
  one of its paths, were accepted and have not been dropped, and only if it is a creation, a change or a removal; this
  after any sequence of operations with at most \<open>2 ^ 64\<close> watch calls. Forgetting a handle keeps its callback.\<close>

lemma file_events_exact:
  assumes "watch_run ops watch_start = Some s" "length (watch_calls ops) \<le> 2 ^ 64"
  shows "handle_event (ws_inner s) (Inr event) =
    (if is_event_relevant event
     then map (\<lambda>(n, scope, cb). cb) (filter (\<lambda>(n, scope, cb). \<exists>p \<in> set (ev_paths event). matches_event_path scope p) (live_watches ops))
     else [])"
  using watch_run_inv [OF assms]
  by (simp add: watch_inv_def handle_event_def filter_map o_def registration_of_def matches_event_def list_ex_iff case_prod_unfold)

definition toy_watches :: "nat watch_op list" where
  "toy_watches = [Watch (File [RootDir, Normal ''a'']) 5 True, Watch (Folder [RootDir] True) 6 True,
     Watch (File [RootDir, Normal ''a'']) 7 True, Watch (Folder [RootDir] False) 8 True, Drop 0, Forget 2]"

lemma file_events_exact_witness:
  "handle_event (ws_inner (the (watch_run toy_watches watch_start)))
     (Inr \<lparr>ev_kind = Modify, ev_paths = [[RootDir, Normal ''a'']]\<rparr> :: unit + Event) = [6, 7, 8]"
proof -
  have run: "watch_run toy_watches watch_start \<noteq> None" and few: "length (watch_calls toy_watches) \<le> 2 ^ 64"
    by (simp_all add: toy_watches_def watch_start_def watch_calls_def watch_scope_def watch_file_def watch_folder_def
        allocate_registration_id_def)
  have live: "live_watches toy_watches = [(1, Folder [RootDir] True, 6), (2, File [RootDir, Normal ''a''], 7), (3, Folder [RootDir] False, 8)]"
    by (simp add: live_watches_def toy_watches_def watch_calls_def List.map_filter_simps)
  obtain s where s: "watch_run toy_watches watch_start = Some s" using run by auto
  show ?thesis unfolding s option.sel file_events_exact [OF s few] live
    by (simp add: is_event_relevant_def matches_event_path_def path_starts_with_def path_parent_def)
qed

end
