(* ===== verification/Tls_Server.thy ===== *)
theory Tls_Server
  imports File_Watcher "HOL-Library.List_Lexorder" "HOL-Library.Char_ord"
begin

text \<open>
  TLS certificates of the server: the resolver of names and its construction from a directory
  (\<^verbatim>\<open>yellowstone-grpc-tools/src/server/tls.rs\<close>), and its set-up and hot reload
  (\<open>load_server_config_from_tls_config\<close> of \<^verbatim>\<open>yellowstone-grpc-geyser/src/grpc.rs\<close>). The file system, the PEM
  and X.509 parsers and the signing keys are parameters.
\<close>

section \<open>The resolver\<close>

definition ascii_lower :: "char \<Rightarrow> char" where
  "ascii_lower c = (if CHR ''A'' \<le> c \<and> c \<le> CHR ''Z'' then char_of (of_char c + 32 :: nat) else c)"

definition to_ascii_lowercase :: "string \<Rightarrow> string" where
  "to_ascii_lowercase s = map ascii_lower s"

definition strip_prefix :: "string \<Rightarrow> string \<Rightarrow> string option" where
  "strip_prefix p s = (if take (length p) s = p then Some (drop (length p) s) else None)"

definition ends_with :: "string \<Rightarrow> string \<Rightarrow> bool" where
  "ends_with s t \<longleftrightarrow> length t \<le> length s \<and> drop (length s - length t) s = t"

record 'ck SniResolver =
  sni_exact :: "(string, 'ck) hmap"
  sni_wildcard :: "(string \<times> 'ck) list"

text \<open>The errors, by the place that makes them; \<open>'e\<close> is an error of a library.\<close>

datatype 'e PemError = NoItemsFound | PemError 'e

datatype 'e TlsError =
    DuplicateWildcard string
  | DuplicateName string
  | NotADirectory path
  | ReadDir 'e
  | OpenPem path 'e
  | ParseCertificate path 'e
  | NoCertificates path
  | ParseKey path "'e PemError"
  | UnsupportedKey path 'e
  | X509 'e
  | NoNames path
  | RegisterFailed path string "'e TlsError"
  | NoBundles path

definition SniResolver_new :: "'ck SniResolver" where
  "SniResolver_new = \<lparr>sni_exact = [], sni_wildcard = []\<rparr>"

text \<open>A name that is already there is replaced before the error is reported.\<close>

definition sni_add :: "string \<Rightarrow> 'ck \<Rightarrow> 'ck SniResolver \<Rightarrow> ('e TlsError + unit) \<times> 'ck SniResolver" where
  "sni_add name0 cert r =
     (let name = to_ascii_lowercase name0 in
      case strip_prefix ''*.'' name of
        Some suffix0 \<Rightarrow>
          (let suffix = CHR ''.'' # suffix0 in
           if list_ex (\<lambda>(existing, _). existing = suffix) (sni_wildcard r) then (Inl (DuplicateWildcard name), r)
           else (Inr (), r\<lparr>sni_wildcard := sni_wildcard r @ [(suffix, cert)]\<rparr>))
      | None \<Rightarrow>
          (let r1 = r\<lparr>sni_exact := hmap_insert name cert (sni_exact r)\<rparr> in
           if map_of (sni_exact r) name \<noteq> None then (Inl (DuplicateName name), r1) else (Inr (), r1)))"

fun best_wildcard :: "string \<Rightarrow> (string \<times> 'ck) list \<Rightarrow> (string \<times> 'ck) option \<Rightarrow> (string \<times> 'ck) option" where
  "best_wildcard server_name [] best = best"
| "best_wildcard server_name ((suffix, cert) # ws) best =
     (if \<not> ends_with server_name suffix then best_wildcard server_name ws best
      else let prefix = take (length server_name - length suffix) server_name in
        if prefix = [] \<or> CHR ''.'' \<in> set prefix then best_wildcard server_name ws best
        else best_wildcard server_name ws
          (case best of
             Some (best_suffix, c) \<Rightarrow> if length suffix \<le> length best_suffix then best else Some (suffix, cert)
           | None \<Rightarrow> Some (suffix, cert)))"

definition resolve_by_name :: "'ck SniResolver \<Rightarrow> string \<Rightarrow> 'ck option" where
  "resolve_by_name r server_name0 =
     (let server_name = to_ascii_lowercase server_name0 in
      case map_of (sni_exact r) server_name of
        Some cert \<Rightarrow> Some cert
      | None \<Rightarrow> map_option snd (best_wildcard server_name (sni_wildcard r) None))"

text \<open>\<open>resolve\<close>; a client hello need not carry a name.\<close>

definition sni_resolve :: "'ck SniResolver \<Rightarrow> string option \<Rightarrow> 'ck option" where
  "sni_resolve r server_name = (case server_name of None \<Rightarrow> None | Some n \<Rightarrow> resolve_by_name r n)"

section \<open>Loading certificates\<close>

datatype GeneralName = DNSName string | OtherName

text \<open>What is read of a certificate: its alternative names, if the extension can be read, and its common names.\<close>

record 'e x509 =
  x5_subject_alternative_name :: "'e + GeneralName list option"
  x5_common_names :: "('e + string) list"

text \<open>What the libraries answer: whether a path is a directory or a file, the names in a directory, the items of a
  PEM file, its private key, the certificate as X.509, and whether the signing key is supported.\<close>

record ('c, 'k, 'sk, 'e) tls_env =
  te_is_dir :: "path \<Rightarrow> bool"
  te_read_dir :: "path \<Rightarrow> 'e + ('e + string) list"
  te_is_file :: "path \<Rightarrow> bool"
  te_pem_file_iter :: "path \<Rightarrow> 'e + ('e + 'c) list"
  te_from_pem_file :: "path \<Rightarrow> 'e PemError + 'k"
  te_parse_x509_certificate :: "'c \<Rightarrow> 'e + 'e x509"
  te_any_supported_type :: "'k \<Rightarrow> 'e + 'sk"

type_synonym ('c, 'sk) CertifiedKey = "'c list \<times> 'sk"

text \<open>\<open>Path::extension\<close> of the name of a directory entry\<close>

definition file_extension :: "string \<Rightarrow> string option" where
  "file_extension name =
     (if name = ''..'' \<or> CHR ''.'' \<notin> set name then None
      else if rev (tl (dropWhile (\<lambda>c. c \<noteq> CHR ''.'') (rev name))) = [] then None
      else Some (rev (takeWhile (\<lambda>c. c \<noteq> CHR ''.'') (rev name))))"

definition is_pem_like_file :: "string \<Rightarrow> bool" where
  "is_pem_like_file name \<longleftrightarrow> file_extension name = Some ''pem''"

fun result_names :: "('e + string) list \<Rightarrow> string list" where
  "result_names [] = []"
| "result_names (Inl _ # xs) = result_names xs"
| "result_names (Inr n # xs) = to_ascii_lowercase n # result_names xs"

fun dns_names :: "GeneralName list \<Rightarrow> string list" where
  "dns_names [] = []"
| "dns_names (DNSName n # xs) = to_ascii_lowercase n # dns_names xs"
| "dns_names (OtherName # xs) = dns_names xs"

text \<open>The names of a certificate as a sorted list without duplicates.\<close>

definition extract_cert_names :: "('c, 'k, 'sk, 'e) tls_env \<Rightarrow> 'c \<Rightarrow> 'e TlsError + string list" where
  "extract_cert_names E cert =
     (case te_parse_x509_certificate E cert of
        Inl e \<Rightarrow> Inl (X509 e)
      | Inr parsed \<Rightarrow>
          Inr (sort (hset_of []
            ((case x5_subject_alternative_name parsed of
                Inr (Some general_names) \<Rightarrow> dns_names general_names | _ \<Rightarrow> []) @
             result_names (x5_common_names parsed)))))"

text \<open>The certificates of a PEM file.\<close>

definition pem_certs :: "('c, 'k, 'sk, 'e) tls_env \<Rightarrow> path \<Rightarrow> 'e TlsError + 'c list" where
  "pem_certs E p =
     (case te_pem_file_iter E p of
        Inl e \<Rightarrow> Inl (OpenPem p e)
      | Inr items \<Rightarrow>
          (case collect_result (\<lambda>x. x) items of Inl e \<Rightarrow> Inl (ParseCertificate p e) | Inr certs \<Rightarrow> Inr certs))"

definition build_identity_certified_key ::
  "('c, 'k, 'sk, 'e) tls_env \<Rightarrow> path \<Rightarrow> path \<Rightarrow> 'e TlsError + ('c, 'sk) CertifiedKey" where
  "build_identity_certified_key E cert_path key_path =
     (case pem_certs E cert_path of
        Inl e \<Rightarrow> Inl e
      | Inr certs \<Rightarrow>
          if certs = [] then Inl (NoCertificates cert_path)
          else case te_from_pem_file E key_path of
            Inl e \<Rightarrow> Inl (ParseKey key_path e)
          | Inr key \<Rightarrow>
              (case te_any_supported_type E key of
                 Inl e \<Rightarrow> Inl (UnsupportedKey key_path e)
               | Inr signing_key \<Rightarrow> Inr (certs, signing_key)))"

text \<open>One entry of the directory: an error, nothing to register, or the names and the key of a bundle.\<close>

definition load_bundle ::
  "('c, 'k, 'sk, 'e) tls_env \<Rightarrow> path \<Rightarrow> string \<Rightarrow> 'e TlsError + (string list \<times> ('c, 'sk) CertifiedKey) option" where
  "load_bundle E dir name =
     (let p = dir @ [Normal name] in
      if \<not> te_is_file E p \<or> \<not> is_pem_like_file name then Inr None
      else case pem_certs E p of
        Inl e \<Rightarrow> Inl e
      | Inr [] \<Rightarrow> Inr None
      | Inr (cert # certs) \<Rightarrow>
          (case te_from_pem_file E p of
             Inl NoItemsFound \<Rightarrow> Inr None
           | Inl (PemError e) \<Rightarrow> Inl (ParseKey p (PemError e))
           | Inr key \<Rightarrow>
               (case extract_cert_names E cert of
                  Inl e \<Rightarrow> Inl e
                | Inr names \<Rightarrow>
                    if names = [] then Inl (NoNames p)
                    else case te_any_supported_type E key of
                      Inl e \<Rightarrow> Inl (UnsupportedKey p e)
                    | Inr signing_key \<Rightarrow> Inr (Some (names, (cert # certs, signing_key))))))"

fun register_names :: "path \<Rightarrow> string list \<Rightarrow> 'ck \<Rightarrow> 'ck SniResolver \<Rightarrow> 'e TlsError + 'ck SniResolver" where
  "register_names p [] ck r = Inr r"
| "register_names p (name # names) ck r =
     (case sni_add name ck r of
        (Inl e, r1) \<Rightarrow> Inl (RegisterFailed p name e)
      | (Inr _, r1) \<Rightarrow> register_names p names ck r1)"

fun build_loop ::
  "('c, 'k, 'sk, 'e) tls_env \<Rightarrow> path \<Rightarrow> ('e + string) list \<Rightarrow> ('c, 'sk) CertifiedKey SniResolver \<Rightarrow> nat \<Rightarrow>
     'e TlsError + ('c, 'sk) CertifiedKey SniResolver" where
  "build_loop E dir [] r loaded = (if loaded = 0 then Inl (NoBundles dir) else Inr r)"
| "build_loop E dir (Inl e # entries) r loaded = Inl (ReadDir e)"
| "build_loop E dir (Inr name # entries) r loaded =
     (case load_bundle E dir name of
        Inl e \<Rightarrow> Inl e
      | Inr None \<Rightarrow> build_loop E dir entries r loaded
      | Inr (Some (names, ck)) \<Rightarrow>
          (case register_names (dir @ [Normal name]) names ck r of
             Inl e \<Rightarrow> Inl e
           | Inr r1 \<Rightarrow> build_loop E dir entries r1 (Suc loaded)))"

definition build_sni_resolver_from_cert_dir ::
  "('c, 'k, 'sk, 'e) tls_env \<Rightarrow> path \<Rightarrow> 'e TlsError + ('c, 'sk) CertifiedKey SniResolver" where
  "build_sni_resolver_from_cert_dir E dir =
     (if \<not> te_is_dir E dir then Inl (NotADirectory dir)
      else case te_read_dir E dir of
        Inl e \<Rightarrow> Inl (ReadDir e)
      | Inr entries \<Rightarrow> build_loop E dir entries SniResolver_new 0)"

section \<open>Set-up and hot reload\<close>

text \<open>\<open>GrpcTlsConfig\<close> of \<^verbatim>\<open>yellowstone-grpc-geyser/src/config.rs\<close>: the paths of a pair of certificate and key, or of a
  directory, and whether to watch them.\<close>

datatype GrpcTlsConfig = IdentityPair path path bool | CertDir path bool

text \<open>The certificate resolver of the server, which the callbacks share and replace: \<open>ArcSwap\<close> holds the current
  one, \<open>swap\<close> stores another, and a handshake loads it.\<close>

datatype 'ck HotResolver = HotIdentity 'ck | HotSni "'ck SniResolver"

definition hot_resolve :: "'ck HotResolver \<Rightarrow> string option \<Rightarrow> 'ck option" where
  "hot_resolve h server_name = (case h of HotIdentity ck \<Rightarrow> Some ck | HotSni r \<Rightarrow> sni_resolve r server_name)"

text \<open>What the two kinds of callbacks capture.\<close>

datatype tls_reload = ReloadIdentity path path | ReloadDir path

definition run_reload :: "('c, 'k, 'sk, 'e) tls_env \<Rightarrow> tls_reload \<Rightarrow> ('c, 'sk) CertifiedKey HotResolver \<Rightarrow> ('c, 'sk) CertifiedKey HotResolver" where
  "run_reload E cb h =
     (case cb of
        ReloadIdentity cert_path key_path \<Rightarrow>
          (case build_identity_certified_key E cert_path key_path of Inl e \<Rightarrow> h | Inr key \<Rightarrow> HotIdentity key)
      | ReloadDir dir \<Rightarrow>
          (case build_sni_resolver_from_cert_dir E dir of Inl e \<Rightarrow> h | Inr r \<Rightarrow> HotSni r))"

datatype 'e TlsConfigLoadError = IoError "'e TlsError" | Notify 'e

text \<open>\<open>watched p\<close> is the error of watching \<open>p\<close>, if there is one. The handles are forgotten at once. A second watch
  that fails leaves the first one registered. The result has the resolver and the protocols to negotiate.\<close>

record 'ck ServerConfig =
  sc_cert_resolver :: "'ck HotResolver"
  sc_alpn_protocols :: "string list"

definition server_config :: "'ck HotResolver \<Rightarrow> 'ck ServerConfig" where
  "server_config h = \<lparr>sc_cert_resolver = h, sc_alpn_protocols = [''h2'']\<rparr>"

definition forget_watch :: "('e + FileWatchHandle) \<times> 'cb Inner \<Rightarrow> ('e + unit) \<times> 'cb Inner" where
  "forget_watch x = (case x of (Inl e, w) \<Rightarrow> (Inl e, w) | (Inr handle, w) \<Rightarrow> (Inr (), handle_forget handle w))"

definition load_server_config_from_tls_config ::
  "('c, 'k, 'sk, 'e) tls_env \<Rightarrow> (path \<Rightarrow> 'e option) \<Rightarrow> GrpcTlsConfig \<Rightarrow> tls_reload Inner \<Rightarrow>
     ('e TlsConfigLoadError + ('c, 'sk) CertifiedKey ServerConfig) \<times> tls_reload Inner" where
  "load_server_config_from_tls_config E watched tls_config w =
     (case tls_config of
        IdentityPair cert_path key_path watch \<Rightarrow>
          (case build_identity_certified_key E cert_path key_path of
             Inl e \<Rightarrow> (Inl (IoError e), w)
           | Inr certified_key \<Rightarrow>
               if \<not> watch then (Inr (server_config (HotIdentity certified_key)), w)
               else case forget_watch (watch_file cert_path (ReloadIdentity cert_path key_path) (watched cert_path) w) of
                 (Inl e, w1) \<Rightarrow> (Inl (Notify e), w1)
               | (Inr _, w1) \<Rightarrow>
                   (case forget_watch (watch_file key_path (ReloadIdentity cert_path key_path) (watched key_path) w1) of
                      (Inl e, w2) \<Rightarrow> (Inl (Notify e), w2)
                    | (Inr _, w2) \<Rightarrow> (Inr (server_config (HotIdentity certified_key)), w2)))
      | CertDir cert_dir watch \<Rightarrow>
          (case build_sni_resolver_from_cert_dir E cert_dir of
             Inl e \<Rightarrow> (Inl (IoError e), w)
           | Inr resolver \<Rightarrow>
               if \<not> watch then (Inr (server_config (HotSni resolver)), w)
               else case forget_watch (watch_folder cert_dir True (ReloadDir cert_dir) (watched cert_dir) w) of
                 (Inl e, w1) \<Rightarrow> (Inl (Notify e), w1)
               | (Inr _, w1) \<Rightarrow> (Inr (server_config (HotSni resolver)), w1)))"

text \<open>Each event comes with what the libraries answer when its callbacks run.\<close>

fun serve_events ::
  "tls_reload Inner \<Rightarrow> (('e + Event) \<times> ('c, 'k, 'sk, 'e) tls_env) list \<Rightarrow> ('c, 'sk) CertifiedKey HotResolver \<Rightarrow>
     ('c, 'sk) CertifiedKey HotResolver" where
  "serve_events w [] h = h"
| "serve_events w ((event, E) # events) h = serve_events w events (fold (run_reload E) (handle_event w event) h)"

end
