(* ===== verification/Tls_Claims.thy ===== *)
theory Tls_Claims
  imports Tls_Server
begin

text \<open>
  The certificates the server presents: the resolver as one table of names, what a directory of certificates
  registers in it, and what hot reloading keeps.
\<close>

section \<open>The resolver as a table\<close>

text \<open>A registered name, \<open>*.\<close> included, and its certificate. A host takes its own entry, or else the entry of the
  wildcard that replaces its first label.\<close>

definition sni_table :: "'ck SniResolver \<Rightarrow> string \<Rightarrow> 'ck option" where
  "sni_table r name =
     (case strip_prefix ''*.'' name of
        Some suffix \<Rightarrow> map_of (sni_wildcard r) (CHR ''.'' # suffix)
      | None \<Rightarrow> map_of (sni_exact r) name)"

definition first_label :: "string \<Rightarrow> string" where
  "first_label s = takeWhile (\<lambda>c. c \<noteq> CHR ''.'') s"

definition after_label :: "string \<Rightarrow> string" where
  "after_label s = dropWhile (\<lambda>c. c \<noteq> CHR ''.'') s"

definition table_resolve :: "(string \<Rightarrow> 'ck option) \<Rightarrow> string \<Rightarrow> 'ck option" where
  "table_resolve T host =
     (let s = to_ascii_lowercase host in
      case T s of
        Some ck \<Rightarrow> Some ck
      | None \<Rightarrow> if first_label s = [] \<or> after_label s = [] then None else T (CHR ''*'' # after_label s))"

definition sni_wf :: "'ck SniResolver \<Rightarrow> bool" where
  "sni_wf r \<longleftrightarrow>
     distinct (map fst (sni_wildcard r)) \<and> (\<forall>s \<in> fst ` set (sni_wildcard r). \<exists>t. s = CHR ''.'' # t) \<and>
     (\<forall>n. map_of (sni_exact r) n \<noteq> None \<longrightarrow> strip_prefix ''*.'' n = None)"

definition wildcard_hit :: "string \<Rightarrow> string \<Rightarrow> bool" where
  "wildcard_hit s suffix \<longleftrightarrow> ends_with s suffix \<and>
     take (length s - length suffix) s \<noteq> [] \<and> CHR ''.'' \<notin> set (take (length s - length suffix) s)"

lemma ends_with_append: "ends_with s t \<longleftrightarrow> (\<exists>p. s = p @ t)"
  unfolding ends_with_def
  by (metis append_take_drop_id append_eq_conv_conj diff_diff_cancel length_append length_drop le_add2 add_diff_cancel_right')

lemma wildcard_hit_iff:
  "wildcard_hit s (CHR ''.'' # t) \<longleftrightarrow> after_label s = CHR ''.'' # t \<and> first_label s \<noteq> []"
proof
  assume "wildcard_hit s (CHR ''.'' # t)"
  then obtain p where "s = p @ CHR ''.'' # t" "p \<noteq> []" "CHR ''.'' \<notin> set p"
    by (auto simp: wildcard_hit_def ends_with_append)
  moreover have "x \<noteq> CHR ''.''" if "x \<in> set p" for x using that \<open>CHR ''.'' \<notin> set p\<close> by auto
  ultimately have "first_label s = p" "after_label s = CHR ''.'' # t" "p \<noteq> []"
    by (simp_all add: first_label_def after_label_def takeWhile_append2 dropWhile_append2)
  then show "after_label s = CHR ''.'' # t \<and> first_label s \<noteq> []" by simp
next
  assume asm: "after_label s = CHR ''.'' # t \<and> first_label s \<noteq> []"
  then have s: "s = first_label s @ CHR ''.'' # t" by (metis first_label_def after_label_def takeWhile_dropWhile_id)
  then have "take (length s - length (CHR ''.'' # t)) s = first_label s"
    by (metis add_diff_cancel_right' append_eq_conv_conj length_append)
  moreover have "CHR ''.'' \<notin> set (first_label s)" by (auto simp: first_label_def dest: set_takeWhileD)
  ultimately show "wildcard_hit s (CHR ''.'' # t)"
    using asm s unfolding wildcard_hit_def ends_with_append by metis
qed

lemma best_wildcard_step:
  "best_wildcard s ((suffix, cert) # ws) best =
     best_wildcard s ws (if wildcard_hit s suffix then
       (case best of Some (b, c) \<Rightarrow> if length suffix \<le> length b then best else Some (suffix, cert) | None \<Rightarrow> Some (suffix, cert))
       else best)"
  by (auto simp: wildcard_hit_def Let_def)

lemma best_wildcard_miss: "\<forall>x \<in> fst ` set ws. \<not> wildcard_hit s x \<Longrightarrow> best_wildcard s ws best = best"
proof (induction ws)
  case (Cons w ws)
  then show ?case by (cases w) (simp add: best_wildcard_step del: best_wildcard.simps(2))
qed simp

lemma best_wildcard_exact:
  assumes "distinct (map fst ws)" "\<forall>x \<in> fst ` set ws. \<exists>t. x = CHR ''.'' # t"
  shows "best_wildcard s ws None =
    (if first_label s = [] then None else map_option (\<lambda>ck. (after_label s, ck)) (map_of ws (after_label s)))"
  using assms
proof (induction ws)
  case (Cons w ws)
  obtain suffix cert where w: "w = (suffix, cert)" by (cases w)
  have hit: "wildcard_hit s x \<longleftrightarrow> after_label s = x \<and> first_label s \<noteq> []" if x: "x \<in> fst ` set (w # ws)" for x
  proof -
    obtain t where "x = CHR ''.'' # t" using Cons.prems(2) x by blast
    then show ?thesis by (simp only: wildcard_hit_iff)
  qed
  show ?case
  proof (cases "wildcard_hit s suffix")
    case True
    have "\<not> wildcard_hit s x" if x: "x \<in> fst ` set ws" for x
    proof -
      have "x \<noteq> suffix" using x Cons.prems(1) w by auto
      with True hit [of suffix] hit [of x] x w show ?thesis by simp
    qed
    then have "best_wildcard s ws (Some (suffix, cert)) = Some (suffix, cert)" by (simp add: best_wildcard_miss)
    moreover have "after_label s = suffix" "first_label s \<noteq> []" using True hit [of suffix] w by simp_all
    ultimately show ?thesis using True unfolding w best_wildcard_step by simp
  next
    case False
    then have "after_label s \<noteq> suffix \<or> first_label s = []" using hit [of suffix] w by simp
    moreover have "best_wildcard s ws None =
        (if first_label s = [] then None else map_option (\<lambda>ck. (after_label s, ck)) (map_of ws (after_label s)))"
      using Cons.prems by (intro Cons.IH) simp_all
    ultimately show ?thesis using False unfolding w best_wildcard_step by auto
  qed
qed simp

lemma strip_star: "strip_prefix ''*.'' s = Some t \<longleftrightarrow> s = CHR ''*'' # CHR ''.'' # t"
  by (cases s; cases "tl s") (auto simp: strip_prefix_def)

lemma strip_star_Some [simp]: "strip_prefix ''*.'' (CHR ''*'' # CHR ''.'' # t) = Some t"
  by (simp add: strip_star)

lemma sni_resolve_table:
  assumes "sni_wf r"
  shows "resolve_by_name r host = table_resolve (sni_table r) host"
proof -
  define s where "s = to_ascii_lowercase host"
  have best: "best_wildcard s (sni_wildcard r) None =
      (if first_label s = [] then None else map_option (\<lambda>ck. (after_label s, ck)) (map_of (sni_wildcard r) (after_label s)))"
    using assms by (intro best_wildcard_exact) (auto simp: sni_wf_def)
  have empty: "map_of (sni_wildcard r) [] = None" using assms by (force simp: sni_wf_def map_of_eq_None_iff)
  have wild: "sni_table r (CHR ''*'' # after_label s) = map_of (sni_wildcard r) (after_label s)" if ne: "after_label s \<noteq> []"
  proof -
    obtain t where "after_label s = CHR ''.'' # t"
      using hd_dropWhile [of "\<lambda>c. c \<noteq> CHR ''.''" s] ne by (cases "after_label s") (auto simp: after_label_def)
    then show ?thesis by (simp add: sni_table_def strip_prefix_def)
  qed
  have impl: "resolve_by_name r host = (case map_of (sni_exact r) s of Some ck \<Rightarrow> Some ck
      | None \<Rightarrow> if first_label s = [] then None else map_of (sni_wildcard r) (after_label s))"
    unfolding resolve_by_name_def Let_def s_def [symmetric] best
    by (cases "map_of (sni_wildcard r) (after_label s)") (simp_all split: option.split)
  have spec: "table_resolve (sni_table r) host = (case sni_table r s of Some ck \<Rightarrow> Some ck
      | None \<Rightarrow> if first_label s = [] \<or> after_label s = [] then None else map_of (sni_wildcard r) (after_label s))"
    unfolding table_resolve_def Let_def s_def [symmetric] using wild
    by (cases "after_label s = []"; cases "sni_table r s") simp_all
  show ?thesis
  proof (cases "strip_prefix ''*.'' s")
    case None
    then have "sni_table r s = map_of (sni_exact r) s" by (simp add: sni_table_def)
    then show ?thesis using impl spec empty by (cases "after_label s = []") (simp_all split: option.split)
  next
    case (Some t)
    then have s: "s = CHR ''*'' # CHR ''.'' # t" by (simp add: strip_star)
    have "map_of (sni_exact r) s = None" using Some assms unfolding sni_wf_def by (metis option.distinct(1))
    moreover have "sni_table r s = map_of (sni_wildcard r) (CHR ''.'' # t)" using Some by (simp add: sni_table_def)
    ultimately show ?thesis using impl spec by (simp add: s first_label_def after_label_def split: option.split)
  qed
qed

section \<open>Building the resolver\<close>

lemma lower_idem [simp]: "to_ascii_lowercase (to_ascii_lowercase s) = to_ascii_lowercase s"
proof -
  have "ascii_lower (ascii_lower c) = ascii_lower c" for c
    by (cases "CHR ''A'' \<le> c \<and> c \<le> CHR ''Z''") (auto simp: ascii_lower_def less_eq_char_def)
  then show ?thesis by (simp add: to_ascii_lowercase_def)
qed

lemma sni_add_table:
  assumes "sni_wf r"
  shows "case sni_add name ck r of
      (Inl _, _) \<Rightarrow> sni_table r (to_ascii_lowercase name) \<noteq> None
    | (Inr _, r1) \<Rightarrow> sni_table r (to_ascii_lowercase name) = None \<and> sni_wf r1 \<and>
        sni_table r1 = (sni_table r)(to_ascii_lowercase name \<mapsto> ck)"
proof (cases "strip_prefix ''*.'' (to_ascii_lowercase name)")
  case None
  then have "sni_table r (to_ascii_lowercase name) = map_of (sni_exact r) (to_ascii_lowercase name)"
    by (simp add: sni_table_def)
  moreover have "sni_table (r\<lparr>sni_exact := hmap_insert (to_ascii_lowercase name) ck (sni_exact r)\<rparr>) =
      (sni_table r)(to_ascii_lowercase name \<mapsto> ck)"
    using None by (auto simp: sni_table_def fun_eq_iff split: option.split)
  ultimately show ?thesis using None assms by (auto simp: sni_add_def Let_def sni_wf_def)
next
  case (Some t)
  then have name: "to_ascii_lowercase name = CHR ''*'' # CHR ''.'' # t" by (simp add: strip_star)
  have known: "list_ex (\<lambda>(existing, _). existing = CHR ''.'' # t) (sni_wildcard r) \<longleftrightarrow>
      map_of (sni_wildcard r) (CHR ''.'' # t) \<noteq> None"
    by (force simp: list_ex_iff map_of_eq_None_iff)
  have "sni_table r (to_ascii_lowercase name) = map_of (sni_wildcard r) (CHR ''.'' # t)"
    using Some by (simp add: sni_table_def)
  moreover have "sni_table (r\<lparr>sni_wildcard := sni_wildcard r @ [(CHR ''.'' # t, ck)]\<rparr>) = (sni_table r)(to_ascii_lowercase name \<mapsto> ck)"
    if "map_of (sni_wildcard r) (CHR ''.'' # t) = None"
    using that strip_star by (auto simp: sni_table_def fun_eq_iff name strip_star map_add_def split: option.splits)
  ultimately show ?thesis using Some assms known
    by (auto simp: sni_add_def Let_def sni_wf_def map_of_eq_None_iff)
qed

lemma sni_add_dup: "sni_wf r \<Longrightarrow> sni_add name ck r = (Inl e, r1) \<Longrightarrow> sni_table r (to_ascii_lowercase name) \<noteq> None"
  using sni_add_table [of r name ck] by (metis (mono_tags, lifting) case_prod_conv old.sum.simps(5))

lemma sni_add_ok:
  "sni_wf r \<Longrightarrow> sni_add name ck r = (Inr u, r1) \<Longrightarrow>
     sni_table r (to_ascii_lowercase name) = None \<and> sni_wf r1 \<and> sni_table r1 = (sni_table r)(to_ascii_lowercase name \<mapsto> ck)"
  using sni_add_table [of r name ck] by (metis (mono_tags, lifting) case_prod_conv old.sum.simps(6))

text \<open>What a directory registers: the names of its bundles in the order of the entries.\<close>

fun cert_entries :: "('c, 'k, 'sk, 'e) tls_env \<Rightarrow> path \<Rightarrow> ('e + string) list \<Rightarrow> (string \<times> ('c, 'sk) CertifiedKey) list" where
  "cert_entries E dir [] = []"
| "cert_entries E dir (Inl e # entries) = cert_entries E dir entries"
| "cert_entries E dir (Inr name # entries) =
     (case load_bundle E dir name of
        Inr (Some (names, ck)) \<Rightarrow> map (\<lambda>n. (n, ck)) names
      | _ \<Rightarrow> []) @ cert_entries E dir entries"

fun entries_ok :: "('c, 'k, 'sk, 'e) tls_env \<Rightarrow> path \<Rightarrow> ('e + string) list \<Rightarrow> bool" where
  "entries_ok E dir [] = True"
| "entries_ok E dir (Inl e # entries) = False"
| "entries_ok E dir (Inr name # entries) = ((case load_bundle E dir name of Inl _ \<Rightarrow> False | Inr _ \<Rightarrow> True) \<and> entries_ok E dir entries)"

lemma result_names_lower: "n \<in> set (result_names xs) \<Longrightarrow> to_ascii_lowercase n = n"
  by (induction xs rule: result_names.induct) auto

lemma dns_names_lower: "n \<in> set (dns_names xs) \<Longrightarrow> to_ascii_lowercase n = n"
  by (induction xs rule: dns_names.induct) auto

lemma load_bundle_names:
  assumes "load_bundle E dir name = Inr (Some (names, ck))"
  shows "names \<noteq> []" "distinct names" "\<forall>n \<in> set names. to_ascii_lowercase n = n"
  using assms
  by (auto simp: load_bundle_def Let_def extract_cert_names_def result_names_lower dns_names_lower
      split: if_splits sum.splits list.splits PemError.splits option.splits)

lemma register_names_table:
  assumes "sni_wf r" "\<forall>n \<in> set names. to_ascii_lowercase n = n"
  shows "case register_names p names ck r :: 'e TlsError + 'ck SniResolver of
      Inl _ \<Rightarrow> \<not> (distinct names \<and> (\<forall>n \<in> set names. sni_table r n = None))
    | Inr r1 \<Rightarrow> distinct names \<and> (\<forall>n \<in> set names. sni_table r n = None) \<and> sni_wf r1 \<and>
        sni_table r1 = sni_table r ++ map_of (map (\<lambda>n. (n, ck)) names)"
  using assms
proof (induction names arbitrary: r)
  case (Cons n names)
  show ?case
  proof (cases "sni_add n ck r :: ('e TlsError + unit) \<times> 'ck SniResolver")
    case (Pair a r1)
    show ?thesis
    proof (cases a)
      case (Inl e)
      then show ?thesis using Pair sni_add_dup [OF Cons.prems(1), of n ck] Cons.prems(2) by auto
    next
      case (Inr u)
      then have add: "sni_table r n = None" "sni_wf r1" "sni_table r1 = (sni_table r)(n \<mapsto> ck)"
        using Pair sni_add_ok [OF Cons.prems(1), of n ck] Cons.prems(2) by auto
      have upd: "(sni_table r)(n \<mapsto> ck) ++ map_of (map (\<lambda>n. (n, ck)) names) =
          sni_table r ++ map_of (map (\<lambda>n. (n, ck)) (n # names))" if "n \<notin> set names"
        using that by (simp add: map_add_upd_left dom_map_of_conv_image_fst image_image)
      show ?thesis using Cons.IH [OF add(2)] Cons.prems(2) add(1,3) Pair Inr upd
        by (auto split: sum.splits if_splits simp del: list.map map_of.simps)
    qed
  qed
qed simp

lemma register_names_dup:
  assumes "sni_wf r" "\<forall>n \<in> set names. to_ascii_lowercase n = n"
    "(register_names p names ck r :: 'e TlsError + 'ck SniResolver) = Inl e"
  shows "\<not> (distinct names \<and> (\<forall>n \<in> set names. sni_table r n = None))"
  using register_names_table [OF assms(1,2), where p = p and ck = ck and 'e = 'e] unfolding assms(3) by simp

lemma register_names_ok:
  assumes "sni_wf r" "\<forall>n \<in> set names. to_ascii_lowercase n = n"
    "(register_names p names ck r :: 'e TlsError + 'ck SniResolver) = Inr r1"
  shows "\<forall>n \<in> set names. sni_table r n = None" "sni_wf r1"
    "sni_table r1 = sni_table r ++ map_of (map (\<lambda>n. (n, ck)) names)"
  using register_names_table [OF assms(1,2), where p = p and ck = ck and 'e = 'e] unfolding assms(3) by simp_all

text \<open>The directory can be registered beside the names of \<open>T\<close>.\<close>

definition registrable ::
  "('c, 'k, 'sk, 'e) tls_env \<Rightarrow> path \<Rightarrow> ('e + string) list \<Rightarrow> (string \<Rightarrow> ('c, 'sk) CertifiedKey option) \<Rightarrow> nat \<Rightarrow> bool" where
  "registrable E dir entries T loaded \<longleftrightarrow>
     entries_ok E dir entries \<and> distinct (map fst (cert_entries E dir entries)) \<and>
     (\<forall>n \<in> fst ` set (cert_entries E dir entries). T n = None) \<and> (0 < loaded \<or> cert_entries E dir entries \<noteq> [])"

lemma registrable_bundle:
  assumes "load_bundle E dir name = Inr (Some (names, ck))"
  shows "registrable E dir (Inr name # entries) T loaded \<longleftrightarrow>
    (\<forall>n \<in> set names. T n = None) \<and> registrable E dir entries (T ++ map_of (map (\<lambda>n. (n, ck)) names)) (Suc loaded)"
proof -
  have "map_of (map (\<lambda>n. (n, ck)) names) n = None \<longleftrightarrow> n \<notin> set names" for n
    by (simp add: map_of_eq_None_iff image_image)
  then show ?thesis using load_bundle_names [OF assms] assms
    by (auto simp: registrable_def image_image o_def ball_Un)
qed

lemma registrable_comm:
  "registrable E dir entries (T ++ M) loaded \<Longrightarrow> map_of (cert_entries E dir entries) ++ M = M ++ map_of (cert_entries E dir entries)"
  by (rule map_add_comm) (force simp: registrable_def dom_map_of_conv_image_fst map_add_None)

lemma build_loop_table:
  fixes E :: "('c, 'k, 'sk, 'e) tls_env"
  assumes "sni_wf r"
  shows "case build_loop E dir entries r loaded of
      Inl _ \<Rightarrow> \<not> registrable E dir entries (sni_table r) loaded
    | Inr r1 \<Rightarrow> registrable E dir entries (sni_table r) loaded \<and> sni_wf r1 \<and>
        sni_table r1 = sni_table r ++ map_of (cert_entries E dir entries)"
  using assms
proof (induction entries arbitrary: r loaded)
  case Nil
  then show ?case by (simp add: registrable_def)
next
  case (Cons x entries)
  consider e where "x = Inl e" | name e where "x = Inr name" "load_bundle E dir name = Inl e"
    | name where "x = Inr name" "load_bundle E dir name = Inr None"
    | name names ck where "x = Inr name" "load_bundle E dir name = Inr (Some (names, ck))"
    by (metis option.exhaust sum.exhaust surj_pair)
  then show ?case
  proof cases
    case 3
    then have "registrable E dir (x # entries) (sni_table r) loaded = registrable E dir entries (sni_table r) loaded"
      by (simp add: registrable_def)
    then show ?thesis using Cons.IH [OF Cons.prems, of loaded] 3 by (simp split: sum.splits)
  next
    case (4 name names ck)
    show ?thesis
    proof (cases "register_names (dir @ [Normal name]) names ck r :: 'e TlsError + _")
      case (Inl e)
      then have "\<not> (\<forall>n \<in> set names. sni_table r n = None)" using register_names_dup [OF Cons.prems load_bundle_names(3) [OF 4(2)]] load_bundle_names(2) [OF 4(2)] by blast
      then show ?thesis using Inl 4 by (simp add: registrable_bundle)
    next
      case (Inr r1)
      note r1 = register_names_ok [OF Cons.prems load_bundle_names(3) [OF 4(2)] Inr]
      show ?thesis using Cons.IH [OF r1(2), of "Suc loaded"] 4 Inr r1(1,3)
        by (auto simp: registrable_bundle registrable_comm simp flip: map_add_assoc split: sum.splits)
    qed
  qed (simp_all add: registrable_def)
qed

section \<open>Which certificate a host gets\<close>

definition cert_table :: "('c, 'k, 'sk, 'e) tls_env \<Rightarrow> path \<Rightarrow> (string \<times> ('c, 'sk) CertifiedKey) list" where
  "cert_table E dir = (case te_read_dir E dir of Inl _ \<Rightarrow> [] | Inr entries \<Rightarrow> cert_entries E dir entries)"

lemma sni_new_table: "sni_wf SniResolver_new" "sni_table SniResolver_new = (\<lambda>_. None)"
  by (auto simp: sni_wf_def SniResolver_new_def sni_table_def split: option.split)

text \<open>A directory can be loaded exactly if it can be listed, every entry is a bundle or can be skipped, and its
  bundles name at least one host and none twice.\<close>

definition cert_dir_ok :: "('c, 'k, 'sk, 'e) tls_env \<Rightarrow> path \<Rightarrow> bool" where
  "cert_dir_ok E dir \<longleftrightarrow>
     te_is_dir E dir \<and> (case te_read_dir E dir of Inl _ \<Rightarrow> False | Inr entries \<Rightarrow> entries_ok E dir entries) \<and>
     distinct (map fst (cert_table E dir)) \<and> cert_table E dir \<noteq> []"

lemma cert_dir_lemma:
  "case build_sni_resolver_from_cert_dir E dir of
     Inl _ \<Rightarrow> \<not> cert_dir_ok E dir
   | Inr r \<Rightarrow> cert_dir_ok E dir \<and> (\<forall>host. resolve_by_name r host = table_resolve (map_of (cert_table E dir)) host)"
proof (cases "te_read_dir E dir")
  case (Inl e)
  then show ?thesis by (simp add: build_sni_resolver_from_cert_dir_def cert_dir_ok_def)
next
  case (Inr entries)
  then have "registrable E dir entries (\<lambda>_. None) 0 \<longleftrightarrow>
      entries_ok E dir entries \<and> distinct (map fst (cert_table E dir)) \<and> cert_table E dir \<noteq> []"
    by (simp add: registrable_def cert_table_def)
  then show ?thesis using build_loop_table [OF sni_new_table(1), of E dir entries 0] Inr
    by (auto simp: build_sni_resolver_from_cert_dir_def cert_dir_ok_def sni_new_table(2) cert_table_def sni_resolve_table
        split: sum.splits)
qed


section \<open>What reloading promises\<close>

definition watches_files :: "GrpcTlsConfig \<Rightarrow> bool" where
  "watches_files c = (case c of IdentityPair _ _ watch \<Rightarrow> watch | CertDir _ watch \<Rightarrow> watch)"

text \<open>An event concerns a configuration when one of its paths is the certificate or the key, or lies in the directory.\<close>

definition concerns :: "GrpcTlsConfig \<Rightarrow> 'e + Event \<Rightarrow> bool" where
  "concerns c event_result \<longleftrightarrow>
     (case event_result of
        Inl _ \<Rightarrow> False
      | Inr event \<Rightarrow> watches_files c \<and> is_event_relevant event \<and>
          (case c of
             IdentityPair cert_path key_path _ \<Rightarrow> cert_path \<in> set (ev_paths event) \<or> key_path \<in> set (ev_paths event)
           | CertDir dir _ \<Rightarrow> \<exists>p \<in> set (ev_paths event). path_starts_with p dir))"

definition load_resolver :: "GrpcTlsConfig \<Rightarrow> ('c, 'k, 'sk, 'e) tls_env \<Rightarrow> ('c, 'sk) CertifiedKey HotResolver option" where
  "load_resolver c E =
     (case c of
        IdentityPair cert_path key_path _ \<Rightarrow>
          (case build_identity_certified_key E cert_path key_path of Inl _ \<Rightarrow> None | Inr key \<Rightarrow> Some (HotIdentity key))
      | CertDir dir _ \<Rightarrow> (case build_sni_resolver_from_cert_dir E dir of Inl _ \<Rightarrow> None | Inr r \<Rightarrow> Some (HotSni r)))"

text \<open>The results of all loads that succeeded, from the first at start-up to the last.\<close>

definition successful_loads ::
  "GrpcTlsConfig \<Rightarrow> (('e + Event) \<times> ('c, 'k, 'sk, 'e) tls_env) list \<Rightarrow> ('c, 'sk) CertifiedKey HotResolver list" where
  "successful_loads c events = List.map_filter (\<lambda>(event, E). if concerns c event then load_resolver c E else None) events"

lemma run_reload_twice: "run_reload E cb (run_reload E cb h) = run_reload E cb h"
  by (auto simp: run_reload_def split: tls_reload.splits sum.splits)

lemma handle_forget_id [simp]: "handle_forget h w = w"
  by (simp add: handle_forget_def handle_drop_def)

abbreviation no_watches :: "tls_reload Inner" where
  "no_watches \<equiv> \<lparr>in_registrations = [], in_next_registration_id = 0\<rparr>"

lemmas load_defs = load_server_config_from_tls_config_def server_config_def forget_watch_def watch_file_def watch_folder_def
  allocate_registration_id_def

text \<open>The registrations of a loaded configuration.\<close>

definition config_registrations :: "GrpcTlsConfig \<Rightarrow> tls_reload CallbackRegistration list" where
  "config_registrations c =
     (case c of
        IdentityPair cert_path key_path watch \<Rightarrow>
          if watch then [\<lparr>cr_id = 0, cr_scope = File cert_path, cr_callback = ReloadIdentity cert_path key_path\<rparr>,
                         \<lparr>cr_id = 1, cr_scope = File key_path, cr_callback = ReloadIdentity cert_path key_path\<rparr>] else []
      | CertDir dir watch \<Rightarrow>
          if watch then [\<lparr>cr_id = 0, cr_scope = Folder dir True, cr_callback = ReloadDir dir\<rparr>] else [])"

lemma load_server_config:
  assumes "load_server_config_from_tls_config E watched c no_watches = (Inr sc, w)"
  shows "in_registrations w = config_registrations c \<and> load_resolver c E = Some (sc_cert_resolver sc)"
  using assms
  by (cases c) (auto simp: load_defs config_registrations_def load_resolver_def split: if_splits sum.splits option.splits)

lemma reload_on_event:
  assumes "in_registrations w = config_registrations c"
  shows "fold (run_reload E) (handle_event w event) h =
    (if concerns c event then (case load_resolver c E of None \<Rightarrow> h | Some r \<Rightarrow> r) else h)"
proof (cases c)
  case (IdentityPair cert_path key_path watch)
  have run: "run_reload E (ReloadIdentity cert_path key_path) h = (case load_resolver (IdentityPair cert_path key_path b) E of None \<Rightarrow> h | Some r \<Rightarrow> r)" for b
    by (auto simp: run_reload_def load_resolver_def split: sum.split)
  show ?thesis using assms run_reload_twice [of E "ReloadIdentity cert_path key_path" h]
    by (cases watch) (auto simp: IdentityPair run [of True, symmetric] config_registrations_def handle_event_def concerns_def watches_files_def
        matches_event_def matches_event_path_def list_ex_iff split: sum.split)
next
  case (CertDir dir watch)
  have run: "run_reload E (ReloadDir dir) h = (case load_resolver (CertDir dir b) E of None \<Rightarrow> h | Some r \<Rightarrow> r)" for b
    by (auto simp: run_reload_def load_resolver_def split: sum.split)
  show ?thesis using assms
    by (cases watch) (auto simp: CertDir run [of True, symmetric] config_registrations_def handle_event_def concerns_def watches_files_def
        matches_event_def matches_event_path_def list_ex_iff split: sum.split)
qed

lemma serve_events_last:
  assumes "in_registrations w = config_registrations c"
  shows "serve_events w events h = last (h # successful_loads c events)"
proof (induction events arbitrary: h)
  case Nil
  then show ?case by (simp add: successful_loads_def List.map_filter_simps)
next
  case (Cons x events)
  obtain event E where x: "x = (event, E)" by (cases x)
  show ?case unfolding x serve_events.simps reload_on_event [OF assms] Cons.IH
    by (auto simp: successful_loads_def List.map_filter_simps split: option.split)
qed

text \<open>C24. Hot reload: after any events, the server presents certificates from the last load that succeeded among the one
  at start-up and those at the events that concern its files; a load that fails changes nothing. For a directory, each
  host gets what the table of the directory, as it was read by that load, says.\<close>

theorem tls_reload_last_good:
  assumes "load_server_config_from_tls_config E watched c no_watches = (Inr sc, w)"
  shows "serve_events w events (sc_cert_resolver sc) = last (sc_cert_resolver sc # successful_loads c events) \<and>
    (\<forall>dir watch host. c = CertDir dir watch \<longrightarrow> (\<exists>E' \<in> insert E {E'. \<exists>event. (event, E') \<in> set events \<and> concerns c event}.
      cert_dir_ok E' dir \<and>
      hot_resolve (serve_events w events (sc_cert_resolver sc)) (Some host) = table_resolve (map_of (cert_table E' dir)) host))"
proof -
  note loaded = load_server_config [OF assms]
  have last: "serve_events w events (sc_cert_resolver sc) = last (sc_cert_resolver sc # successful_loads c events)"
    using loaded serve_events_last by blast
  define h where "h = serve_events w events (sc_cert_resolver sc)"
  obtain E' where E': "E' \<in> insert E {E'. \<exists>event. (event, E') \<in> set events \<and> concerns c event}" "load_resolver c E' = Some h"
  proof (cases "successful_loads c events = []")
    case True
    then show ?thesis using that [of E] last loaded by (simp add: h_def)
  next
    case False
    then have "h \<in> set (successful_loads c events)" using last by (simp add: h_def)
    then obtain event E1 where "(event, E1) \<in> set events" "concerns c event" "load_resolver c E1 = Some h"
      by (auto simp: successful_loads_def List.map_filter_def split: if_splits)
    then show ?thesis using that [of E1] by blast
  qed
  have "cert_dir_ok E' dir \<and> hot_resolve h (Some host) = table_resolve (map_of (cert_table E' dir)) host"
    if "c = CertDir dir watch" for dir watch host
    using E'(2) that cert_dir_lemma [of E' dir]
    by (auto simp: load_resolver_def hot_resolve_def sni_resolve_def split: sum.splits)
  then show ?thesis using last E'(1) unfolding h_def by blast
qed

text \<open>A toy directory of PEM files with one name each, some without a key.\<close>

definition toy_tls :: "(string \<times> string \<times> bool) list \<Rightarrow> (string, string, string, unit) tls_env" where
  "toy_tls files =
     \<lparr>te_is_dir = (\<lambda>p. p = [RootDir]), te_read_dir = (\<lambda>_. Inr (map (\<lambda>f. Inr (fst f)) files)), te_is_file = (\<lambda>_. True),
      te_pem_file_iter = (\<lambda>p. case last p of Normal f \<Rightarrow> Inr [Inr (fst (the (map_of files f)))] | _ \<Rightarrow> Inl ()),
      te_from_pem_file = (\<lambda>p. case last p of
         Normal f \<Rightarrow> if snd (the (map_of files f)) then Inr f else Inl NoItemsFound | _ \<Rightarrow> Inl (PemError ())),
      te_parse_x509_certificate = (\<lambda>c. Inr \<lparr>x5_subject_alternative_name = Inr (Some [DNSName c]), x5_common_names = []\<rparr>),
      te_any_supported_type = Inr\<rparr>"

lemma char_eval: "(char_of (97 :: nat) :: char) = CHR ''a''" by code_simp

lemmas toy_tls_simps = char_eval toy_tls_def build_sni_resolver_from_cert_dir_def load_bundle_def pem_certs_def extract_cert_names_def
  is_pem_like_file_def file_extension_def sni_add_def SniResolver_new_def Let_def to_ascii_lowercase_def ascii_lower_def
  strip_prefix_def hset_insert_def

definition toy_touch :: "(unit + Event)" where
  "toy_touch = Inr \<lparr>ev_kind = Modify, ev_paths = [[RootDir, Normal ''a.pem'']]\<rparr>"

lemma toy_build_a: "build_sni_resolver_from_cert_dir (toy_tls [(''a.pem'', ''A.b'', True), (''c.pem'', ''*.b'', True)]) [RootDir] =
    Inr \<lparr>sni_exact = [(''a.b'', ([''A.b''], ''a.pem''))], sni_wildcard = [(''.b'', ([''*.b''], ''c.pem''))]\<rparr>"
  by (simp add: toy_tls_simps)

lemma toy_build_half: "build_sni_resolver_from_cert_dir (toy_tls [(''a.pem'', ''A.b'', False), (''c.pem'', ''d'', True)]) [RootDir] =
    Inr \<lparr>sni_exact = [(''d'', ([''d''], ''c.pem''))], sni_wildcard = []\<rparr>"
  by (simp add: toy_tls_simps)

lemma toy_load:
  "load_server_config_from_tls_config (toy_tls [(''a.pem'', ''A.b'', True), (''c.pem'', ''*.b'', True)]) (\<lambda>_. None)
     (CertDir [RootDir] True) no_watches =
   (Inr (server_config (HotSni \<lparr>sni_exact = [(''a.b'', ([''A.b''], ''a.pem''))], sni_wildcard = [(''.b'', ([''*.b''], ''c.pem''))]\<rparr>)),
    \<lparr>in_registrations = [\<lparr>cr_id = 0, cr_scope = Folder [RootDir] True, cr_callback = ReloadDir [RootDir]\<rparr>],
     in_next_registration_id = 1\<rparr>)"
  by (simp add: load_server_config_from_tls_config_def toy_build_a forget_watch_def watch_folder_def allocate_registration_id_def)

lemma toy_concerns: "concerns (CertDir [RootDir] True) toy_touch"
  by (simp add: concerns_def toy_touch_def watches_files_def is_event_relevant_def path_starts_with_def)

lemma toy_reload: "load_resolver (CertDir [RootDir] True) (toy_tls [(''a.pem'', ''A.b'', False), (''c.pem'', ''d'', True)]) =
    Some (HotSni \<lparr>sni_exact = [(''d'', ([''d''], ''c.pem''))], sni_wildcard = []\<rparr>)"
  by (simp add: load_resolver_def toy_build_half)

text \<open>The witness is also the case of a bundle that is being written: its key is not there yet, the file is skipped
  and not reported, and the host it names has no certificate until the next event.\<close>

theorem tls_reload_last_good_witness:
  "serve_events \<lparr>in_registrations = [\<lparr>cr_id = 0, cr_scope = Folder [RootDir] True, cr_callback = ReloadDir [RootDir]\<rparr>],
      in_next_registration_id = 1\<rparr>
     [(Inl (), toy_tls []), (toy_touch, toy_tls [(''a.pem'', ''A.b'', False), (''c.pem'', ''d'', True)]), (toy_touch, toy_tls [])]
     (sc_cert_resolver (server_config (HotSni \<lparr>sni_exact = [(''a.b'', ([''A.b''], ''a.pem''))],
        sni_wildcard = [(''.b'', ([''*.b''], ''c.pem''))]\<rparr>))) =
   HotSni \<lparr>sni_exact = [(''d'', ([''d''], ''c.pem''))], sni_wildcard = []\<rparr>"
proof -
  have none: "load_resolver (CertDir [RootDir] True) (toy_tls []) = None"
    by (simp add: load_resolver_def build_sni_resolver_from_cert_dir_def toy_tls_def)
  have err: "\<not> concerns (CertDir [RootDir] True) (Inl () :: unit + Event)" by (simp add: concerns_def)
  show ?thesis
    by (subst tls_reload_last_good [OF toy_load, THEN conjunct1])
      (simp add: successful_loads_def List.map_filter_simps toy_concerns toy_reload none err)
qed

end
