(* ===== verification/Node_Validation.thy ===== *)
theory Node_Validation
  imports Cuckoo_Request Cuckoo_Claims Client_Reconnect Convert
begin

text \<open>
  The check that the Node.js client makes of a subscribe request before it is sent
  (\<^verbatim>\<open>yellowstone-grpc-client-nodejs/napi/src/subscribe_request_validation.rs\<close>). Indices in error paths are
  written in decimal.
\<close>

section \<open>Errors\<close>

datatype SubscribeRequestValidationError =
    ReservedFilterName
  | MissingFilter string
  | MissingMemcmpData string
  | MissingLamportsComparator string
  | UnsupportedCuckooHashAlgorithm string i32
  | InvalidCuckooEntriesPerBucket string u32
  | InvalidCuckooFingerprintBits string u32
  | InvalidCuckooBucketCount string u32
  | InvalidCuckooDataLength string usize usize

section \<open>Single filters\<close>

definition contains_reserved_filter_name :: "(string, 'a) hmap \<Rightarrow> bool" where
  "contains_reserved_filter_name filters \<longleftrightarrow> map_of filters AUTORECONNECT_FILTER_KEY \<noteq> None"

definition contains_reserved_autoreconnect_filter :: "SubscribeRequest \<Rightarrow> bool" where
  "contains_reserved_autoreconnect_filter request \<longleftrightarrow>
     contains_reserved_filter_name (sr_accounts request) \<or> contains_reserved_filter_name (sr_slots request) \<or>
     contains_reserved_filter_name (sr_transactions request) \<or> contains_reserved_filter_name (sr_transactions_status request) \<or>
     contains_reserved_filter_name (sr_blocks request) \<or> contains_reserved_filter_name (sr_blocks_meta request) \<or>
     contains_reserved_filter_name (sr_entry request)"

definition validate_memcmp_filter :: "FilterMemcmp \<Rightarrow> string \<Rightarrow> SubscribeRequestValidationError + unit" where
  "validate_memcmp_filter memcmp_filter filter_path =
     (case mc_data memcmp_filter of
        None \<Rightarrow> Inl (MissingMemcmpData (filter_path @ ''.memcmp.data''))
      | Some _ \<Rightarrow> Inr ())"

definition validate_lamports_filter :: "LamportsCmp option \<Rightarrow> string \<Rightarrow> SubscribeRequestValidationError + unit" where
  "validate_lamports_filter cmp filter_path =
     (case cmp of
        None \<Rightarrow> Inl (MissingLamportsComparator (filter_path @ ''.lamports.cmp''))
      | Some _ \<Rightarrow> Inr ())"

text \<open>\<open>u32::is_power_of_two\<close>: exactly one bit is set.\<close>

definition is_power_of_two :: "u32 \<Rightarrow> bool" where
  "is_power_of_two x \<longleftrightarrow> list_ex (\<lambda>k. x = push_bit k 1) [0..<32]"

definition checked_mul :: "nat \<Rightarrow> nat \<Rightarrow> nat option" where
  "checked_mul a b = (if a * b < 2 ^ 64 then Some (a * b) else None)"

definition expected_data_len :: "ProtoCuckooFilter \<Rightarrow> nat option" where
  "expected_data_len c =
     do {
       slot_count \<leftarrow> checked_mul (unat (pc_bucket_count c)) (unat (pc_entries_per_bucket c));
       checked_mul slot_count (unat (pc_fingerprint_bits c div 8))
     }"

definition validate_cuckoo_filter :: "ProtoCuckooFilter \<Rightarrow> string \<Rightarrow> SubscribeRequestValidationError + unit" where
  "validate_cuckoo_filter c filter_path =
     (if pc_hash_algorithm c \<noteq> CuckooHashAlgorithm_as_i32 SipHash
      then Inl (UnsupportedCuckooHashAlgorithm filter_path (pc_hash_algorithm c))
      else if pc_entries_per_bucket c \<noteq> 4 then Inl (InvalidCuckooEntriesPerBucket filter_path (pc_entries_per_bucket c))
      else if pc_fingerprint_bits c \<noteq> 16 then Inl (InvalidCuckooFingerprintBits filter_path (pc_fingerprint_bits c))
      else if pc_bucket_count c = 0 \<or> \<not> is_power_of_two (pc_bucket_count c)
      then Inl (InvalidCuckooBucketCount filter_path (pc_bucket_count c))
      else case expected_data_len c of
        None \<Rightarrow> Inl (InvalidCuckooDataLength filter_path (- 1) (of_nat (length (pc_data c))))
      | Some n \<Rightarrow>
          if length (pc_data c) \<noteq> n
          then Inl (InvalidCuckooDataLength filter_path (of_nat n) (of_nat (length (pc_data c))))
          else Inr ())"

section \<open>Requests\<close>

text \<open>A loop whose body returns early with \<open>?\<close>.\<close>

fun try_for_each :: "('a \<Rightarrow> 'e + unit) \<Rightarrow> 'a list \<Rightarrow> 'e + unit" where
  "try_for_each f [] = Inr ()"
| "try_for_each f (x # xs) = (case f x of Inl e \<Rightarrow> Inl e | Inr _ \<Rightarrow> try_for_each f xs)"

text \<open>\<open>group["name"]\<close>\<close>

definition keyed :: "string \<Rightarrow> string \<Rightarrow> string" where
  "keyed group_name name = group_name @ [CHR ''['', CHR 0x22] @ name @ [CHR 0x22, CHR '']'']"

definition validate_cuckoo_opt :: "ProtoCuckooFilter option \<Rightarrow> string \<Rightarrow> SubscribeRequestValidationError + unit" where
  "validate_cuckoo_opt c filter_path =
     (case c of None \<Rightarrow> Inr () | Some cuckoo_filter \<Rightarrow> validate_cuckoo_filter cuckoo_filter filter_path)"

definition validate_account_oneof ::
  "string \<Rightarrow> nat \<times> SubscribeRequestFilterAccountsFilter \<Rightarrow> SubscribeRequestValidationError + unit" where
  "validate_account_oneof account_key indexed =
     (let filter_path = keyed ''accounts'' account_key @ ''.filters['' @ decimal (fst indexed) @ '']'' in
      case snd indexed of
        None \<Rightarrow> Inl (MissingFilter filter_path)
      | Some (Memcmp memcmp_filter) \<Rightarrow> validate_memcmp_filter memcmp_filter filter_path
      | Some (Lamports lamports_filter) \<Rightarrow> validate_lamports_filter lamports_filter filter_path
      | Some (Datasize _) \<Rightarrow> Inr ()
      | Some (TokenAccountState _) \<Rightarrow> Inr ())"

definition validate_account_entry :: "string \<times> SubscribeRequestFilterAccounts \<Rightarrow> SubscribeRequestValidationError + unit" where
  "validate_account_entry entry =
     (case validate_cuckoo_opt (fa_cuckoo_accounts_filter (snd entry)) (keyed ''accounts'' (fst entry) @ ''.cuckooAccountsFilter'') of
        Inl e \<Rightarrow> Inl e
      | Inr _ \<Rightarrow> try_for_each (validate_account_oneof (fst entry)) (enumerate 0 (fa_filters (snd entry))))"

definition validate_transaction_entry ::
  "string \<Rightarrow> string \<times> SubscribeRequestFilterTransactions \<Rightarrow> SubscribeRequestValidationError + unit" where
  "validate_transaction_entry group_name entry =
     validate_cuckoo_opt (ft_cuckoo_account_include (snd entry)) (keyed group_name (fst entry) @ ''.cuckooAccountInclude'')"

definition validate_block_entry :: "string \<times> SubscribeRequestFilterBlocks \<Rightarrow> SubscribeRequestValidationError + unit" where
  "validate_block_entry entry =
     validate_cuckoo_opt (fb_cuckoo_account_include (snd entry)) (keyed ''blocks'' (fst entry) @ ''.cuckooAccountInclude'')"

definition validate_subscribe_request :: "SubscribeRequest \<Rightarrow> SubscribeRequestValidationError + unit" where
  "validate_subscribe_request request =
     (if contains_reserved_autoreconnect_filter request then Inl ReservedFilterName
      else case try_for_each validate_account_entry (sr_accounts request) of
        Inl e \<Rightarrow> Inl e
      | Inr _ \<Rightarrow>
          (case try_for_each (\<lambda>(group_name, filters). try_for_each (validate_transaction_entry group_name) filters)
                  [(''transactions'', sr_transactions request), (''transactionsStatus'', sr_transactions_status request)] of
             Inl e \<Rightarrow> Inl e
           | Inr _ \<Rightarrow> try_for_each validate_block_entry (sr_blocks request)))"

section \<open>What the check accepts\<close>

text \<open>The wire form of a filter that the sources can build, with a bucket count that fits the field.\<close>

definition genuine_filter :: "ProtoCuckooFilter \<Rightarrow> bool" where
  "genuine_filter c \<longleftrightarrow>
     (\<exists>f k. c = proto_from_filter f \<and> cuckoo_wf f \<and> length (cf_buckets f) = 2 ^ k \<and> k < 32)"

definition oneof_defined :: "SubscribeRequestFilterAccountsFilter \<Rightarrow> bool" where
  "oneof_defined x = (case x of None \<Rightarrow> False | Some (Memcmp m) \<Rightarrow> mc_data m \<noteq> None | Some (Lamports c) \<Rightarrow> c \<noteq> None | Some _ \<Rightarrow> True)"

lemma concat_chunks: "0 < n \<Longrightarrow> n dvd length xs \<Longrightarrow> concat (chunks_exact n xs) = xs"
proof (induction n xs rule: chunks_exact.induct)
  case (1 n xs)
  show ?case
  proof (cases "xs = []")
    case True
    then show ?thesis using 1 by (simp add: chunks_exact_short)
  next
    case False
    then have le: "n \<le> length xs" using "1.prems"(2) by (auto intro: dvd_imp_le)
    then have "concat (chunks_exact n (drop n xs)) = drop n xs" using 1 by (simp add: dvd_minus_self)
    then show ?thesis using le "1.prems"(1) by (subst chunks_exact.simps) simp
  qed
qed

lemma u16_le_bytes: "le_bytes_u16 (u16_from_le a b) = [a, b]"
proof -
  have "\<not> bit a (8 + n)" for n using bit_imp_le_length [of a "8 + n"] by auto
  then show ?thesis unfolding u16_from_le_def le_bytes_u16_def
    by (auto intro!: bit_eqI simp: bit_simps)
qed

lemma encode_decode_buckets:
  assumes "8 dvd length data"
  shows "concat (map le_bytes_u16 (concat (decode_buckets data))) = data"
proof -
  define ws where "ws = map (\<lambda>c. u16_from_le (c ! 0) (c ! 1)) (chunks_exact 2 data)"
  have "le_bytes_u16 (u16_from_le (c ! 0) (c ! 1)) = c" if "c \<in> set (chunks_exact 2 data)" for c
    using chunks_exact_length [OF that] by (cases c; cases "tl c") (auto simp: u16_le_bytes)
  then have "concat (map le_bytes_u16 ws) = concat (chunks_exact 2 data)"
    by (simp add: ws_def o_def cong: map_cong)
  also have "\<dots> = data" using assms by (intro concat_chunks) (auto elim: dvd_trans [rotated])
  finally have data: "concat (map le_bytes_u16 ws) = data" .
  have "length ws = length data div 2" by (simp add: ws_def length_chunks_exact)
  then have "4 dvd length ws" using assms by (auto elim!: dvdE)
  then have "concat (chunks_exact ENTRIES_PER_BUCKET ws) = ws" by (intro concat_chunks) (simp_all add: ENTRIES_PER_BUCKET_def)
  moreover have "map bucket_of_chunk (chunks_exact ENTRIES_PER_BUCKET ws) = chunks_exact ENTRIES_PER_BUCKET ws"
    by (intro map_idI) (auto intro: bucket_of_chunk_id chunks_exact_length)
  ultimately show ?thesis using data by (simp add: decode_buckets_def ws_def)
qed

lemma power_u32: "k < 32 \<Longrightarrow> unat (push_bit k 1 :: u32) = 2 ^ k"
proof -
  assume "k < 32"
  then have "(2 :: nat) ^ k < 2 ^ 32" by (intro power_strict_increasing) simp_all
  then have "unat (of_nat (2 ^ k) :: u32) = 2 ^ k" by (simp only: unat_of_nat) simp
  then show ?thesis by (simp add: push_bit_of_1)
qed

lemma is_power_of_two_iff: "is_power_of_two x \<longleftrightarrow> (\<exists>k < 32. unat x = 2 ^ k)"
proof -
  have "x = push_bit k 1 \<longleftrightarrow> unat x = 2 ^ k" if "k < 32" for k
    using power_u32 [OF that] by (metis unsigned_word_eqI)
  then show ?thesis by (auto simp: is_power_of_two_def list_ex_iff)
qed

lemma expected_data_len_eq:
  assumes "pc_entries_per_bucket c = 4" "pc_fingerprint_bits c = 16"
  shows "expected_data_len c = Some (8 * unat (pc_bucket_count c))"
proof -
  have "unat (pc_bucket_count c) < 2 ^ 32" using unsigned_less [where w = "pc_bucket_count c" and 'a = nat] by simp
  then show ?thesis using assms by (simp add: expected_data_len_def checked_mul_def)
qed

lemma length_encode: "length (concat (map le_bytes_u16 ws)) = 2 * length ws"
  by (induction ws) (simp_all add: le_bytes_u16_def)

lemma length_buckets: "\<forall>b \<in> set bs. length b = ENTRIES_PER_BUCKET \<Longrightarrow> length (concat bs) = 4 * length bs"
  by (induction bs) (simp_all add: ENTRIES_PER_BUCKET_def)

lemma validate_cuckoo_iff: "validate_cuckoo_filter c p = Inr () \<longleftrightarrow> genuine_filter c"
proof
  assume "validate_cuckoo_filter c p = Inr ()"
  then have c: "pc_hash_algorithm c = 0" "pc_entries_per_bucket c = 4" "pc_fingerprint_bits c = 16"
      "is_power_of_two (pc_bucket_count c)" "expected_data_len c = Some (length (pc_data c))"
    by (auto simp: validate_cuckoo_filter_def CuckooHashAlgorithm_as_i32_def split: if_splits option.splits)
  obtain k where k: "k < 32" "unat (pc_bucket_count c) = 2 ^ k" using c(4) by (auto simp: is_power_of_two_iff)
  have len: "length (pc_data c) = 8 * 2 ^ k" using c(5) expected_data_len_eq [OF c(2,3)] k(2) by simp
  then have buckets: "length (decode_buckets (pc_data c)) = 2 ^ k" by (simp add: length_decode_buckets)
  then have ne: "decode_buckets (pc_data c) \<noteq> []" "pc_data c \<noteq> []" using len by auto
  have small: "(2 :: nat) ^ k < 2 ^ 60" using k(1) by (intro power_strict_increasing) simp_all
  define f where "f = \<lparr>cf_buckets = decode_buckets (pc_data c), cf_hasher = hasher_new (pc_hash_seed c)\<rparr>"
  have "cuckoo_wf f" using ne(1) buckets small by (simp add: cuckoo_wf_def f_def decode_buckets_wf)
  moreover have "pc_bucket_count c = of_nat (2 ^ k)"
    using k(2) power_u32 [OF k(1)] by (metis of_nat_numeral of_nat_power push_bit_of_1 unsigned_word_eqI)
  then have "c = proto_from_filter f"
    using c encode_decode_buckets [of "pc_data c"] len buckets
    by (simp add: proto_from_filter_def f_def hasher_new_def FINGERPRINT_BITS_def ENTRIES_PER_BUCKET_def CuckooHashAlgorithm_as_i32_def)
  ultimately show "genuine_filter c" using buckets k(1) unfolding genuine_filter_def f_def by (metis CuckooFilter.select_convs(1))
next
  assume "genuine_filter c"
  then obtain f k where f: "c = proto_from_filter f" "cuckoo_wf f" "length (cf_buckets f) = 2 ^ k" "k < 32"
    by (auto simp: genuine_filter_def)
  have count: "unat (pc_bucket_count c) = 2 ^ k" using power_u32 [OF f(4)] f(1,3) by (simp add: proto_from_filter_def push_bit_of_1)
  have c: "pc_entries_per_bucket c = 4" "pc_fingerprint_bits c = 16" "pc_hash_algorithm c = 0"
    using f(1) by (simp_all add: proto_from_filter_def FINGERPRINT_BITS_def ENTRIES_PER_BUCKET_def CuckooHashAlgorithm_as_i32_def)
  have "length (pc_data c) = 8 * 2 ^ k"
    using f(1-3) by (simp add: proto_from_filter_def length_encode length_buckets cuckoo_wf_def)
  moreover have "is_power_of_two (pc_bucket_count c)" using count f(4) by (auto simp: is_power_of_two_iff)
  moreover have "pc_bucket_count c \<noteq> 0" using count by auto
  ultimately show "validate_cuckoo_filter c p = Inr ()"
    using c count expected_data_len_eq [OF c(1,2)] by (simp add: validate_cuckoo_filter_def CuckooHashAlgorithm_as_i32_def)
qed

lemma try_for_each_iff: "try_for_each f xs = Inr () \<longleftrightarrow> (\<forall>x \<in> set xs. f x = Inr ())"
  by (induction xs) (auto split: sum.split)

lemma validate_cuckoo_opt_iff: "validate_cuckoo_opt c p = Inr () \<longleftrightarrow> (\<forall>x \<in> set_option c. genuine_filter x)"
  by (cases c) (simp_all add: validate_cuckoo_opt_def validate_cuckoo_iff)

lemma validate_oneof_iff: "validate_account_oneof k x = Inr () \<longleftrightarrow> oneof_defined (snd x)"
  by (auto simp: validate_account_oneof_def oneof_defined_def Let_def validate_memcmp_filter_def validate_lamports_filter_def
      split: option.splits AccountsFilterOneof.splits)

lemma validate_account_entry_iff:
  "validate_account_entry x = Inr () \<longleftrightarrow>
     (\<forall>c \<in> set_option (fa_cuckoo_accounts_filter (snd x)). genuine_filter c) \<and> (\<forall>f \<in> set (fa_filters (snd x)). oneof_defined f)"
proof -
  have "(\<forall>y \<in> set (enumerate 0 xs). oneof_defined (snd y)) \<longleftrightarrow> (\<forall>f \<in> set xs. oneof_defined f)" for xs
    by (metis (no_types, lifting) image_iff list.set_map map_snd_enumerate)
  moreover have "validate_account_entry x = Inr () \<longleftrightarrow>
      validate_cuckoo_opt (fa_cuckoo_accounts_filter (snd x)) (keyed ''accounts'' (fst x) @ ''.cuckooAccountsFilter'') = Inr () \<and>
      try_for_each (validate_account_oneof (fst x)) (enumerate 0 (fa_filters (snd x))) = Inr ()"
    by (simp add: validate_account_entry_def split: sum.split)
  ultimately show ?thesis by (simp only: try_for_each_iff validate_oneof_iff validate_cuckoo_opt_iff)
qed

text \<open>The cuckoo filters of a request.\<close>

definition cuckoo_filters :: "SubscribeRequest \<Rightarrow> ProtoCuckooFilter set" where
  "cuckoo_filters req =
     (\<Union>(_, f) \<in> set (sr_accounts req). set_option (fa_cuckoo_accounts_filter f)) \<union>
     (\<Union>(_, f) \<in> set (sr_transactions req) \<union> set (sr_transactions_status req). set_option (ft_cuckoo_account_include f)) \<union>
     (\<Union>(_, f) \<in> set (sr_blocks req). set_option (fb_cuckoo_account_include f))"

lemma validate_request_iff:
  "validate_subscribe_request req = Inr () \<longleftrightarrow>
     \<not> contains_reserved_autoreconnect_filter req \<and> (\<forall>c \<in> cuckoo_filters req. genuine_filter c) \<and>
     (\<forall>(_, f) \<in> set (sr_accounts req). \<forall>x \<in> set (fa_filters f). oneof_defined x)"
proof -
  have two: "try_for_each (\<lambda>(group_name, filters). try_for_each (validate_transaction_entry group_name) filters) [(g, xs), (h, ys)] = Inr () \<longleftrightarrow>
      (\<forall>x \<in> set xs. validate_transaction_entry g x = Inr ()) \<and> (\<forall>x \<in> set ys. validate_transaction_entry h x = Inr ())" for g h xs ys
    by (simp add: try_for_each_iff del: try_for_each.simps)
  have seq: "(case a of Inl e \<Rightarrow> Inl e | Inr _ \<Rightarrow> b) = Inr () \<longleftrightarrow> a = Inr () \<and> b = Inr ()"
    for a b :: "SubscribeRequestValidationError + unit"
    by (simp split: sum.split)
  have "validate_subscribe_request req = Inr () \<longleftrightarrow> \<not> contains_reserved_autoreconnect_filter req \<and>
      (\<forall>x \<in> set (sr_accounts req). validate_account_entry x = Inr ()) \<and>
      (\<forall>x \<in> set (sr_transactions req). validate_transaction_entry ''transactions'' x = Inr ()) \<and>
      (\<forall>x \<in> set (sr_transactions_status req). validate_transaction_entry ''transactionsStatus'' x = Inr ()) \<and>
      (\<forall>x \<in> set (sr_blocks req). validate_block_entry x = Inr ())"
    unfolding validate_subscribe_request_def seq two
    by (cases "contains_reserved_autoreconnect_filter req") (simp_all add: seq two try_for_each_iff del: try_for_each.simps)
  then show ?thesis
    by (simp only: validate_account_entry_iff validate_transaction_entry_def validate_block_entry_def validate_cuckoo_opt_iff)
      (simp add: cuckoo_filters_def case_prod_unfold ball_Un ball_conj_distrib conj_ac)
qed

lemma genuine_rebuilt: "genuine_filter c \<Longrightarrow> proto_from_filter (filter_from_proto c) = c \<and> cuckoo_wf (filter_from_proto c)"
  by (auto simp: genuine_filter_def wire_roundtrip)

text \<open>C26. The check of the Node.js client accepts a request exactly when no filter has the name reserved for
  reconnection, every condition of an account filter is given with its data, and every cuckoo filter is the wire form
  of a well-formed filter with a power of two of buckets. The server rebuilds such a filter bit for bit: what it would
  write back is what was sent.\<close>

theorem node_validation_exact:
  "(validate_subscribe_request req = Inr () \<longleftrightarrow>
     \<not> contains_reserved_autoreconnect_filter req \<and> (\<forall>c \<in> cuckoo_filters req. genuine_filter c) \<and>
     (\<forall>(_, f) \<in> set (sr_accounts req). \<forall>x \<in> set (fa_filters f). oneof_defined x)) \<and>
   (validate_subscribe_request req = Inr () \<longrightarrow>
     (\<forall>c \<in> cuckoo_filters req. proto_from_filter (filter_from_proto c) = c \<and> cuckoo_wf (filter_from_proto c)))"
  using validate_request_iff [of req] genuine_rebuilt by blast

definition toy_checked_request :: SubscribeRequest where
  "toy_checked_request =
     SubscribeRequest_default\<lparr>sr_accounts := [(''a'', to_account_filter toy_one\<lparr>fa_filters := [Some (Datasize 3)]\<rparr>)]\<rparr>"

lemma toy_checked: "validate_subscribe_request toy_checked_request = Inr ()"
proof -
  have "validate_cuckoo_filter (cs_to_proto toy_one) p = Inr ()" for p
    unfolding validate_cuckoo_iff genuine_filter_def cs_to_proto_def
    by (intro exI [of _ "cs_filter toy_one"] exI [of _ 0])
      (simp add: toy_one_def toy_table_def cuckoo_wf_def ENTRIES_PER_BUCKET_def)
  then show ?thesis
    by (simp add: validate_subscribe_request_def toy_checked_request_def contains_reserved_autoreconnect_filter_def
        contains_reserved_filter_name_def SubscribeRequest_default_def AUTORECONNECT_FILTER_KEY_def validate_account_entry_def
        to_account_filter_def validate_cuckoo_opt_def validate_account_oneof_def Let_def)
qed

theorem node_validation_exact_witness:
  "proto_from_filter (filter_from_proto (cs_to_proto toy_one)) = cs_to_proto toy_one"
proof -
  have "cs_to_proto toy_one \<in> cuckoo_filters toy_checked_request"
    by (simp add: cuckoo_filters_def toy_checked_request_def SubscribeRequest_default_def to_account_filter_def)
  with node_validation_exact [of toy_checked_request] toy_checked show ?thesis by blast
qed

section \<open>Tracked sets pass\<close>

lemma cs_reach_buckets:
  assumes "cs_reach sip alloc reserve s" "\<And>m. alloc m \<Longrightarrow> m < 2 ^ 60"
  shows "\<exists>k. length (cf_buckets (cs_filter s)) = 2 ^ k"
  using assms(1)
proof induction
  case (reach_new n s)
  then show ?case by (auto simp: cs_with_capacity_def dest: cuckoo_capacity split: sum.splits if_splits)
next
  case (reach_insert s k s' b)
  then have "cuckoo_wf (cs_filter s)" using cs_reach_inv assms(2) by (simp add: cs_inv_def)
  from cf_insert_spec [OF this, of sip k] reach_insert(2,3) show ?case
    by (auto simp: cs_insert_def same_table_def split: if_splits sum.splits)
next
  case (reach_remove s k s' b)
  then have "cuckoo_wf (cs_filter s)" using cs_reach_inv assms(2) by (simp add: cs_inv_def)
  from cf_remove_spec [OF this, of sip k] reach_remove(2,3) show ?case
    by (auto simp: cs_remove_def same_table_def split: if_splits)
qed (simp add: cs_take_dirty_def)

text \<open>Placing a tracked set in a request that passes the check gives one that passes, unless the table has more
  buckets than the field can hold.\<close>

lemma tracked_request_validates:
  assumes "cs_reach sip alloc reserve s" "\<And>m. alloc m \<Longrightarrow> m < 2 ^ 60" "length (cf_buckets (cs_filter s)) < 2 ^ 32"
    "validate_subscribe_request req = Inr ()" "name \<noteq> AUTORECONNECT_FILTER_KEY"
    "insert_into_subscribe_request s req name = (req', s')"
  shows "validate_subscribe_request req' = Inr ()"
proof -
  obtain k where k: "length (cf_buckets (cs_filter s)) = 2 ^ k" using cs_reach_buckets [OF assms(1,2)] by blast
  then have "k < 32" using assms(3) power_less_imp_less_exp [of "2 :: nat" k 32] by simp
  then have gen: "genuine_filter (cs_to_proto s)" using k cs_reach_inv [OF assms(1,2)]
    unfolding genuine_filter_def cs_to_proto_def cs_inv_def by blast
  have req': "req' = req\<lparr>sr_accounts := hmap_insert name (to_account_filter s) (sr_accounts req)\<rparr>"
    using assms(6) by (simp add: insert_into_subscribe_request_def)
  have mem: "x \<in> set (hmap_insert name v m) \<Longrightarrow> x = (name, v) \<or> x \<in> set m" for x v and m :: "(string, SubscribeRequestFilterAccounts) hmap"
    by (induction m) (auto split: if_splits)
  have "\<not> contains_reserved_autoreconnect_filter req'" using assms(4,5)
    by (simp add: validate_request_iff req' contains_reserved_autoreconnect_filter_def contains_reserved_filter_name_def)
  moreover have "\<forall>c \<in> cuckoo_filters req'. genuine_filter c" using assms(4) gen
    by (auto simp: validate_request_iff req' cuckoo_filters_def to_account_filter_def dest!: mem)
  moreover have "\<forall>(_, f) \<in> set (sr_accounts req'). \<forall>x \<in> set (fa_filters f). oneof_defined x" using assms(4)
    by (auto simp: validate_request_iff req' to_account_filter_def dest!: mem)
  ultimately show ?thesis by (simp add: validate_request_iff)
qed

end
