(* ===== verification/Subscribe_Setup.thy ===== *)
theory Subscribe_Setup
  imports Session_Claims Server_Auth
begin

text \<open>
  How the service opens sessions: the beginning of \<open>subscribe\<close>, \<open>subscribe_deshred\<close> and \<open>subscribe_gossip\<close> of
  \<^verbatim>\<open>yellowstone-grpc-geyser/src/grpc.rs\<close>, up to the tasks they spawn. Who the subscriber is, the permit for the
  session, its number, the refusal when the server stops, and who gets the snapshot of the accounts.
\<close>

section \<open>The subscriber\<close>

text \<open>\<open>remote_ip\<close> is the printed address of the peer, where the connection has one.\<close>

definition claimed_subscriber_id :: "Parts \<Rightarrow> string option \<Rightarrow> string option" where
  "claimed_subscriber_id parts remote_ip =
     (case Option.bind (pa_header parts ''x-subscription-id'') to_str of
        Some s \<Rightarrow> Some s
      | None \<Rightarrow> remote_ip)"

definition subscriber_id_of :: "Parts \<Rightarrow> string option \<Rightarrow> string option" where
  "subscriber_id_of parts remote_ip =
     (case pa_subscription parts of
        Some info \<Rightarrow> Some (sb_subscription_id info)
      | None \<Rightarrow> claimed_subscriber_id parts remote_ip)"

section \<open>The service\<close>

record 'sn GrpcService =
  gs_config_snapshot_client_channel_capacity :: nat
  gs_config_channel_capacity :: nat
  gs_subscription_tracker :: SubscriptionTracker
  gs_subscribe_id :: usize
  gs_snapshot_rx :: "'sn option"
  gs_cancelled :: bool

text \<open>A session as it is handed to its tasks; \<open>se_permit\<close> is the key of its permit.\<close>

datatype session_kind = Updates | Deshred | Gossip

record 'sn OpenSession =
  se_kind :: session_kind
  se_id :: usize
  se_subscriber_id :: "string option"
  se_permit :: "string option"
  se_endpoint :: string
  se_capacity :: nat
  se_snapshot_rx :: "'sn option"

definition resource_exhausted :: Status where
  "resource_exhausted =
     \<lparr>stat_code = ResourceExhausted, stat_message = ''max subscription limit exceeded'', stat_transport = False\<rparr>"

definition shutting_down :: Status where
  "shutting_down = \<lparr>stat_code = Unavailable, stat_message = ''server is shutting down'', stat_transport = False\<rparr>"

definition next_subscribe_seq_id :: "'sn GrpcService \<Rightarrow> usize \<times> 'sn GrpcService" where
  "next_subscribe_seq_id s = (gs_subscribe_id s, s\<lparr>gs_subscribe_id := gs_subscribe_id s + 1\<rparr>)"

text \<open>Releasing what a session holds.\<close>

definition release :: "string option \<Rightarrow> 'sn GrpcService \<Rightarrow> 'sn GrpcService" where
  "release permit s =
     (case permit of
        None \<Rightarrow> s
      | Some key \<Rightarrow> s\<lparr>gs_subscription_tracker := drop_permit key (gs_subscription_tracker s)\<rparr>)"

text \<open>The part the three methods share. An early return drops the permit.\<close>

definition admit :: "string option \<Rightarrow> 'sn GrpcService \<Rightarrow> (Status + string option \<times> usize) \<times> 'sn GrpcService" where
  "admit subscriber_id s =
     (case (case subscriber_id of
              None \<Rightarrow> (Inr None, s)
            | Some key \<Rightarrow>
                (case try_insert key (gs_subscription_tracker s) of
                   (None, t) \<Rightarrow> (Inl resource_exhausted, s\<lparr>gs_subscription_tracker := t\<rparr>)
                 | (Some permit, t) \<Rightarrow> (Inr (Some permit), s\<lparr>gs_subscription_tracker := t\<rparr>))) of
        (Inl status, s1) \<Rightarrow> (Inl status, s1)
      | (Inr permit, s1) \<Rightarrow>
          (case next_subscribe_seq_id s1 of (i, s2) \<Rightarrow>
             if gs_cancelled s2 then (Inl shutting_down, release permit s2) else (Inr (permit, i), s2)))"

definition subscribe :: "Parts \<Rightarrow> string option \<Rightarrow> 'sn GrpcService \<Rightarrow> (Status + 'sn OpenSession) \<times> 'sn GrpcService" where
  "subscribe parts remote_ip s =
     (case admit (subscriber_id_of parts remote_ip) s of
        (Inl status, s1) \<Rightarrow> (Inl status, s1)
      | (Inr (permit, i), s1) \<Rightarrow>
          (let x_request_snapshot = pa_header parts ''x-request-snapshot'' \<noteq> None;
               snapshot_rx = (if x_request_snapshot then gs_snapshot_rx s1 else None);
               s2 = (if x_request_snapshot then s1\<lparr>gs_snapshot_rx := None\<rparr> else s1)
           in (Inr \<lparr>se_kind = Updates, se_id = i, se_subscriber_id = subscriber_id_of parts remote_ip, se_permit = permit,
                 se_endpoint = (case Option.bind (pa_header parts ''x-endpoint'') to_str of Some e \<Rightarrow> e | None \<Rightarrow> []),
                 se_capacity = (if snapshot_rx \<noteq> None then gs_config_snapshot_client_channel_capacity s2
                                else gs_config_channel_capacity s2),
                 se_snapshot_rx = snapshot_rx\<rparr>, s2)))"

text \<open>The deshred session is registered under the identity the request claims, not the authenticated one.\<close>

definition subscribe_deshred ::
  "Parts \<Rightarrow> string option \<Rightarrow> 'sn GrpcService \<Rightarrow> (Status + 'sn OpenSession) \<times> 'sn GrpcService" where
  "subscribe_deshred parts remote_ip s =
     (case admit (subscriber_id_of parts remote_ip) s of
        (Inl status, s1) \<Rightarrow> (Inl status, s1)
      | (Inr (permit, i), s1) \<Rightarrow>
          (Inr \<lparr>se_kind = Deshred, se_id = i, se_subscriber_id = claimed_subscriber_id parts remote_ip, se_permit = permit,
             se_endpoint = [], se_capacity = gs_config_channel_capacity s1, se_snapshot_rx = None\<rparr>, s1))"

definition subscribe_gossip ::
  "Parts \<Rightarrow> string option \<Rightarrow> 'sn GrpcService \<Rightarrow> (Status + 'sn OpenSession) \<times> 'sn GrpcService" where
  "subscribe_gossip parts remote_ip s =
     (case admit (subscriber_id_of parts remote_ip) s of
        (Inl status, s1) \<Rightarrow> (Inl status, s1)
      | (Inr (permit, i), s1) \<Rightarrow>
          (Inr \<lparr>se_kind = Gossip, se_id = i, se_subscriber_id = subscriber_id_of parts remote_ip, se_permit = permit,
             se_endpoint = [], se_capacity = gs_config_channel_capacity s1, se_snapshot_rx = None\<rparr>, s1))"

definition open_method :: "session_kind \<Rightarrow> Parts \<Rightarrow> string option \<Rightarrow> 'sn GrpcService \<Rightarrow> (Status + 'sn OpenSession) \<times> 'sn GrpcService" where
  "open_method k = (case k of Updates \<Rightarrow> subscribe | Deshred \<Rightarrow> subscribe_deshred | Gossip \<Rightarrow> subscribe_gossip)"

section \<open>Runs of the service\<close>

text \<open>Calls, ends of sessions and the stop of the server in any order. The state has the number of calls, the open
  sessions and, newest first, every session ever opened with the request that opened it.\<close>

record 'sn service_state =
  sv_service :: "'sn GrpcService"
  sv_calls :: nat
  sv_open :: "'sn OpenSession list"
  sv_history :: "((Parts \<times> string option) \<times> 'sn OpenSession) list"

definition after_call :: "Parts \<times> string option \<Rightarrow> (Status + 'sn OpenSession) \<times> 'sn GrpcService \<Rightarrow> 'sn service_state \<Rightarrow> 'sn service_state" where
  "after_call req r v =
     (case r of
        (Inl _, s) \<Rightarrow> v\<lparr>sv_service := s, sv_calls := Suc (sv_calls v)\<rparr>
      | (Inr x, s) \<Rightarrow> v\<lparr>sv_service := s, sv_calls := Suc (sv_calls v), sv_open := x # sv_open v,
                       sv_history := (req, x) # sv_history v\<rparr>)"

inductive service_run :: "'sn GrpcService \<Rightarrow> 'sn service_state \<Rightarrow> bool" for s0 where
  service_start: "service_run s0 \<lparr>sv_service = s0, sv_calls = 0, sv_open = [], sv_history = []\<rparr>"
| service_call: "service_run s0 v \<Longrightarrow> sv_calls v < 2 ^ 64 - 1 \<Longrightarrow>
    service_run s0 (after_call (parts, remote_ip) (open_method k parts remote_ip (sv_service v)) v)"
| service_end: "service_run s0 v \<Longrightarrow> sv_open v = xs @ x # ys \<Longrightarrow>
    service_run s0 (v\<lparr>sv_service := release (se_permit x) (sv_service v), sv_open := xs @ ys\<rparr>)"
| service_stop: "service_run s0 v \<Longrightarrow> service_run s0 (v\<lparr>sv_service := (sv_service v)\<lparr>gs_cancelled := True\<rparr>\<rparr>)"

section \<open>What admission guarantees\<close>

definition permits :: "'sn OpenSession list \<Rightarrow> string multiset" where
  "permits xs = mset (List.map_filter se_permit xs)"

definition open_of :: "'sn service_state \<Rightarrow> string \<Rightarrow> nat" where
  "open_of v key = length (filter (\<lambda>x. se_permit x = Some key) (sv_open v))"

lemma permits_simps [simp]:
  "permits [] = {#}"
  "permits (x # xs) = (case se_permit x of None \<Rightarrow> permits xs | Some key \<Rightarrow> add_mset key (permits xs))"
  "permits (xs @ ys) = permits xs + permits ys"
  by (simp_all add: permits_def List.map_filter_def split: option.split)

lemma count_permits: "count (permits xs) key = length (filter (\<lambda>x. se_permit x = Some key) xs)"
  by (induction xs) (auto split: option.split)

lemma size_permits: "size (permits xs) \<le> length xs"
  by (induction xs) (auto split: option.split)

lemma drop_permit_inv:
  assumes "tracker_inv limit enforce t P" "key \<in># P"
  shows "drop_permit key t = t\<lparr>tr_counters := alive (P - {#key#})\<rparr>"
proof -
  have "tr_counters t key = Some (count P key)" "count P key \<noteq> 0" using assms by (simp_all add: tracker_inv_def alive_def)
  then show ?thesis using assms(1) by (auto simp: drop_permit_def Let_def alive_remove tracker_inv_def)
qed

lemma tracker_inv_change:
  "tracker_inv limit enforce t P \<Longrightarrow> (enforce \<Longrightarrow> \<forall>key. count Q key \<le> limit) \<Longrightarrow> tracker_inv limit enforce (t\<lparr>tr_counters := alive Q\<rparr>) Q"
  by (simp add: tracker_inv_def)

text \<open>Whether the subscriber has as many sessions as it may have.\<close>

definition full :: "nat \<Rightarrow> bool \<Rightarrow> string multiset \<Rightarrow> string option \<Rightarrow> bool" where
  "full limit enforce P subscriber_id =
     (case subscriber_id of None \<Rightarrow> False | Some key \<Rightarrow> enforce \<and> limit \<le> count P key)"

definition hold :: "string option \<Rightarrow> string multiset \<Rightarrow> string multiset" where
  "hold permit P = (case permit of None \<Rightarrow> P | Some key \<Rightarrow> add_mset key P)"

lemma tracker_same: "tracker_inv limit enforce t P \<Longrightarrow> t\<lparr>tr_counters := alive P\<rparr> = t"
  by (simp add: tracker_inv_def)

lemma admit_exact:
  assumes "tracker_inv limit enforce (gs_subscription_tracker s) P" "0 < limit" "size P < 2 ^ 64 - 1"
  shows "admit subscriber_id s =
    (if full limit enforce P subscriber_id then (Inl resource_exhausted, s)
     else if gs_cancelled s then (Inl shutting_down, s\<lparr>gs_subscribe_id := gs_subscribe_id s + 1\<rparr>)
     else (Inr (subscriber_id, gs_subscribe_id s),
           s\<lparr>gs_subscribe_id := gs_subscribe_id s + 1,
             gs_subscription_tracker := (gs_subscription_tracker s)\<lparr>tr_counters := alive (hold subscriber_id P)\<rparr>\<rparr>))"
proof (cases subscriber_id)
  case None
  then show ?thesis using tracker_same [OF assms(1)]
    by (simp add: admit_def next_subscribe_seq_id_def release_def full_def hold_def)
next
  case (Some key)
  define t1 where "t1 = (gs_subscription_tracker s)\<lparr>tr_counters := alive (add_mset key P)\<rparr>"
  note ins = try_insert_inv [OF assms, of key]
  show ?thesis
  proof (cases "enforce \<and> limit \<le> count P key")
    case True
    then show ?thesis using Some ins by (simp add: admit_def full_def)
  next
    case False
    then have "tracker_inv limit enforce t1 (add_mset key P)"
      unfolding t1_def using assms(1) by (intro tracker_inv_change) (auto simp: tracker_inv_def not_less_eq_eq)
    from drop_permit_inv [OF this, of key] have "drop_permit key t1 = gs_subscription_tracker s"
      using tracker_same [OF assms(1)] by (simp add: t1_def)
    then show ?thesis using False Some ins
      by (auto simp: admit_def full_def hold_def next_subscribe_seq_id_def release_def t1_def)
  qed
qed

lemma open_method_exact:
  "open_method k parts remote_ip s =
     (case admit (subscriber_id_of parts remote_ip) s of
        (Inl status, s1) \<Rightarrow> (Inl status, s1)
      | (Inr (permit, i), s1) \<Rightarrow>
          (let taken = k = Updates \<and> pa_header parts ''x-request-snapshot'' \<noteq> None;
               snapshot = (if taken then gs_snapshot_rx s1 else None)
           in (Inr \<lparr>se_kind = k, se_id = i,
                 se_subscriber_id = (if k = Deshred then claimed_subscriber_id parts remote_ip else subscriber_id_of parts remote_ip),
                 se_permit = permit,
                 se_endpoint = (if k = Updates then
                   (case Option.bind (pa_header parts ''x-endpoint'') to_str of Some e \<Rightarrow> e | None \<Rightarrow> []) else []),
                 se_capacity = (if snapshot \<noteq> None then gs_config_snapshot_client_channel_capacity s1
                                else gs_config_channel_capacity s1),
                 se_snapshot_rx = snapshot\<rparr>,
               if taken then s1\<lparr>gs_snapshot_rx := None\<rparr> else s1)))"
  by (cases k) (auto simp: open_method_def subscribe_def subscribe_deshred_def subscribe_gossip_def Let_def
      split: prod.split sum.split)

definition some_count :: "'a option \<Rightarrow> nat" where
  "some_count x = (case x of None \<Rightarrow> 0 | Some _ \<Rightarrow> 1)"

definition snapshots :: "((Parts \<times> string option) \<times> 'sn OpenSession) list \<Rightarrow> nat" where
  "snapshots h = length (filter (\<lambda>x. se_snapshot_rx (snd x) \<noteq> None) h)"

definition service_inv :: "nat \<Rightarrow> bool \<Rightarrow> 'sn GrpcService \<Rightarrow> 'sn service_state \<Rightarrow> bool" where
  "service_inv limit enforce s0 v \<longleftrightarrow>
     tracker_inv limit enforce (gs_subscription_tracker (sv_service v)) (permits (sv_open v)) \<and>
     length (sv_open v) \<le> sv_calls v \<and> sv_calls v \<le> 2 ^ 64 - 1 \<and>
     (\<exists>n \<le> sv_calls v. gs_subscribe_id (sv_service v) = of_nat n \<and>
        (\<exists>ids. map (\<lambda>x. se_id (snd x)) (sv_history v) = map of_nat ids \<and> distinct ids \<and> (\<forall>i \<in> set ids. i < n))) \<and>
     snapshots (sv_history v) + some_count (gs_snapshot_rx (sv_service v)) \<le> some_count (gs_snapshot_rx s0) \<and>
     (\<forall>(req, x) \<in> set (sv_history v). se_permit x = subscriber_id_of (fst req) (snd req))"

lemma service_inv_start:
  assumes "gs_subscription_tracker s0 = SubscriptionTracker_new limit enforce" "gs_subscribe_id s0 = 0"
  shows "service_inv limit enforce s0 \<lparr>sv_service = s0, sv_calls = 0, sv_open = [], sv_history = []\<rparr>"
  using assms by (auto simp: service_inv_def tracker_inv_def SubscriptionTracker_new_def alive_def snapshots_def)

lemma service_inv_end:
  assumes "service_inv limit enforce s0 v" "sv_open v = xs @ x # ys"
  shows "service_inv limit enforce s0 (v\<lparr>sv_service := release (se_permit x) (sv_service v), sv_open := xs @ ys\<rparr>)"
proof (cases "se_permit x")
  case None
  then show ?thesis using assms by (auto simp: service_inv_def release_def)
next
  case (Some key)
  have inv: "tracker_inv limit enforce (gs_subscription_tracker (sv_service v)) (add_mset key (permits (xs @ ys)))"
    using assms Some by (simp add: service_inv_def)
  then have "drop_permit key (gs_subscription_tracker (sv_service v)) =
      (gs_subscription_tracker (sv_service v))\<lparr>tr_counters := alive (permits (xs @ ys))\<rparr>"
    by (simp add: drop_permit_inv)
  moreover have "tracker_inv limit enforce ((gs_subscription_tracker (sv_service v))\<lparr>tr_counters := alive (permits (xs @ ys))\<rparr>) (permits (xs @ ys))"
    using inv by (rule tracker_inv_change) (use inv in \<open>auto simp: tracker_inv_def split: if_splits intro: Suc_leD\<close>)
  ultimately show ?thesis using assms by (simp add: service_inv_def release_def Some)
qed

text \<open>One call in terms of the sessions that are open.\<close>

lemma open_method_cases:
  assumes "service_inv limit enforce s0 v" "0 < limit" "sv_calls v < 2 ^ 64 - 1"
  shows "\<exists>s. open_method k parts remote_ip (sv_service v) =
    (if full limit enforce (permits (sv_open v)) (subscriber_id_of parts remote_ip) then (Inl resource_exhausted, sv_service v)
     else if gs_cancelled (sv_service v)
     then (Inl shutting_down, (sv_service v)\<lparr>gs_subscribe_id := gs_subscribe_id (sv_service v) + 1\<rparr>)
     else (Inr s,
           (sv_service v)\<lparr>gs_subscribe_id := gs_subscribe_id (sv_service v) + 1,
             gs_snapshot_rx := (if k = Updates \<and> pa_header parts ''x-request-snapshot'' \<noteq> None then None else gs_snapshot_rx (sv_service v)),
             gs_subscription_tracker := (gs_subscription_tracker (sv_service v))\<lparr>tr_counters :=
               alive (hold (subscriber_id_of parts remote_ip) (permits (sv_open v)))\<rparr>\<rparr>)) \<and>
    se_permit s = subscriber_id_of parts remote_ip \<and> se_id s = gs_subscribe_id (sv_service v) \<and>
    se_snapshot_rx s =
      (if k = Updates \<and> pa_header parts ''x-request-snapshot'' \<noteq> None then gs_snapshot_rx (sv_service v) else None)"
proof -
  have "size (permits (sv_open v)) < 2 ^ 64 - 1"
    using assms(1,3) size_permits [of "sv_open v"] unfolding service_inv_def by linarith
  note admit = admit_exact [OF _ assms(2) this, where s = "sv_service v" and subscriber_id = "subscriber_id_of parts remote_ip"]
  have inv: "tracker_inv limit enforce (gs_subscription_tracker (sv_service v)) (permits (sv_open v))"
    using assms(1) by (simp add: service_inv_def)
  show ?thesis
  proof (cases "full limit enforce (permits (sv_open v)) (subscriber_id_of parts remote_ip) \<or> gs_cancelled (sv_service v)")
    case True
    then show ?thesis unfolding open_method_exact admit [OF inv]
      by (intro exI [of _ "\<lparr>se_kind = k, se_id = gs_subscribe_id (sv_service v), se_subscriber_id = None,
          se_permit = subscriber_id_of parts remote_ip, se_endpoint = [], se_capacity = 0,
          se_snapshot_rx = (if k = Updates \<and> pa_header parts ''x-request-snapshot'' \<noteq> None
            then gs_snapshot_rx (sv_service v) else None)\<rparr>"]) auto
  next
    case False
    then show ?thesis unfolding open_method_exact admit [OF inv]
      by (cases "k = Updates \<and> pa_header parts ''x-request-snapshot'' \<noteq> None"; cases "sv_service v") (auto simp: Let_def)
  qed
qed

lemma hold_permits: "permits (x # xs) = hold (se_permit x) (permits xs)"
  by (simp add: hold_def)

lemma hold_not_full:
  "\<not> full limit enforce P k \<Longrightarrow> enforce \<Longrightarrow> \<forall>key. count P key \<le> limit \<Longrightarrow> count (hold k P) key \<le> limit"
  by (auto simp: full_def hold_def split: option.splits)

lemma service_inv_call:
  assumes inv: "service_inv limit enforce s0 v" and "0 < limit" and calls: "sv_calls v < 2 ^ 64 - 1"
  shows "service_inv limit enforce s0 (after_call (parts, remote_ip) (open_method k parts remote_ip (sv_service v)) v)"
proof -
  let ?P = "permits (sv_open v)" and ?who = "subscriber_id_of parts remote_ip" and ?s = "sv_service v"
  obtain x where x: "open_method k parts remote_ip ?s =
      (if full limit enforce ?P ?who then (Inl resource_exhausted, ?s)
       else if gs_cancelled ?s then (Inl shutting_down, ?s\<lparr>gs_subscribe_id := gs_subscribe_id ?s + 1\<rparr>)
       else (Inr x, ?s\<lparr>gs_subscribe_id := gs_subscribe_id ?s + 1,
         gs_snapshot_rx := (if k = Updates \<and> pa_header parts ''x-request-snapshot'' \<noteq> None then None else gs_snapshot_rx ?s),
         gs_subscription_tracker := (gs_subscription_tracker ?s)\<lparr>tr_counters := alive (hold ?who ?P)\<rparr>\<rparr>))"
    and sess: "se_permit x = ?who" "se_id x = gs_subscribe_id ?s"
      "se_snapshot_rx x = (if k = Updates \<and> pa_header parts ''x-request-snapshot'' \<noteq> None then gs_snapshot_rx ?s else None)"
    using open_method_cases [OF assms] by blast
  obtain n ids where n: "n \<le> sv_calls v" "gs_subscribe_id ?s = of_nat n"
      "map (\<lambda>x. se_id (snd x)) (sv_history v) = map of_nat ids" "distinct ids" "\<forall>i \<in> set ids. i < n"
    using inv by (auto simp: service_inv_def)
  consider "full limit enforce ?P ?who" | "\<not> full limit enforce ?P ?who" "gs_cancelled ?s"
    | "\<not> full limit enforce ?P ?who" "\<not> gs_cancelled ?s" by blast
  then show ?thesis
  proof cases
    case 1
    have "\<exists>m \<le> Suc (sv_calls v). (of_nat n :: usize) = of_nat m \<and>
        (\<exists>ids. map (\<lambda>x. se_id (snd x)) (sv_history v) = map of_nat ids \<and> distinct ids \<and> (\<forall>i \<in> set ids. i < m))"
      using n(1,3-5) by (intro exI [of _ n]) auto
    then show ?thesis using 1 inv calls n(2) unfolding x by (auto simp: after_call_def service_inv_def)
  next
    case 2
    have "\<exists>m \<le> Suc (sv_calls v). (of_nat n + 1 :: usize) = of_nat m \<and>
        (\<exists>ids. map (\<lambda>x. se_id (snd x)) (sv_history v) = map of_nat ids \<and> distinct ids \<and> (\<forall>i \<in> set ids. i < m))"
      using n(1,3-5) by (intro exI [of _ "Suc n"]) (auto intro!: exI [of _ ids] simp: less_Suc_eq add.commute)
    then show ?thesis using 2 inv calls n(2) unfolding x by (auto simp: after_call_def service_inv_def)
  next
    case 3
    have ids: "\<exists>m \<le> Suc (sv_calls v). (of_nat n + 1 :: usize) = of_nat m \<and>
        (\<exists>ids. of_nat n # map (\<lambda>x. se_id (snd x)) (sv_history v) = map of_nat ids \<and> distinct ids \<and> (\<forall>i \<in> set ids. i < m))"
      using n(1,3-5) by (intro exI [of _ "Suc n"]) (auto intro!: exI [of _ "n # ids"] simp: less_Suc_eq add.commute)
    have tr: "tracker_inv limit enforce ((gs_subscription_tracker ?s)\<lparr>tr_counters := alive (hold ?who ?P)\<rparr>) (hold ?who ?P)"
      using inv 3(1) by (intro tracker_inv_change) (auto simp: service_inv_def tracker_inv_def intro: hold_not_full)
    show ?thesis using 3 inv calls n(2) ids tr sess unfolding x
      by (auto simp: after_call_def service_inv_def hold_permits snapshots_def some_count_def simp del: permits_simps(2) split: option.splits if_splits)
  qed
qed

lemma service_run_inv:
  assumes "service_run s0 v" "gs_subscription_tracker s0 = SubscriptionTracker_new limit enforce" "gs_subscribe_id s0 = 0" "0 < limit"
  shows "service_inv limit enforce s0 v"
  using assms(1)
proof induction
  case service_start
  show ?case by (rule service_inv_start [OF assms(2,3)])
next
  case (service_call v parts remote_ip k)
  then show ?case by (intro service_inv_call [OF _ assms(4)])
next
  case (service_end v xs x ys)
  then show ?case by (intro service_inv_end)
next
  case (service_stop v)
  then show ?case by (simp add: service_inv_def)
qed

lemma distinct_ids: "distinct ids \<Longrightarrow> \<forall>i \<in> set ids. i < 2 ^ 64 \<Longrightarrow> distinct (map (of_nat :: nat \<Rightarrow> usize) ids)"
  by (induction ids) (auto simp: word_of_nat_eq_iff take_bit_nat_eq_self)

lemma full_iff: "full limit enforce (permits (sv_open v)) who \<longleftrightarrow> (\<exists>k. who = Some k \<and> enforce \<and> limit \<le> open_of v k)"
  by (auto simp: full_def count_permits open_of_def split: option.split)

lemma admission_answer:
  assumes "service_inv limit enforce s0 v" "0 < limit"
  shows "sv_calls v < 2 ^ 64 - 1 \<longrightarrow>
      (let who = subscriber_id_of parts remote_ip;
           reached = (\<exists>k. who = Some k \<and> enforce \<and> limit \<le> open_of v k)
       in case open_method kind parts remote_ip (sv_service v) of
            (Inl status, s) \<Rightarrow> (if reached then status = resource_exhausted else gs_cancelled (sv_service v) \<and> status = shutting_down) \<and>
              gs_subscription_tracker s = gs_subscription_tracker (sv_service v)
          | (Inr x, s) \<Rightarrow> \<not> reached \<and> \<not> gs_cancelled (sv_service v) \<and> se_permit x = who)"
proof
  assume calls: "sv_calls v < 2 ^ 64 - 1"
  show "let who = subscriber_id_of parts remote_ip;
           reached = (\<exists>k. who = Some k \<and> enforce \<and> limit \<le> open_of v k)
       in case open_method kind parts remote_ip (sv_service v) of
            (Inl status, s) \<Rightarrow> (if reached then status = resource_exhausted else gs_cancelled (sv_service v) \<and> status = shutting_down) \<and>
              gs_subscription_tracker s = gs_subscription_tracker (sv_service v)
          | (Inr x, s) \<Rightarrow> \<not> reached \<and> \<not> gs_cancelled (sv_service v) \<and> se_permit x = who"
    unfolding Let_def full_iff [symmetric]
    using open_method_cases [OF assms calls, of kind parts remote_ip]
    by (cases "full limit enforce (permits (sv_open v)) (subscriber_id_of parts remote_ip)"; cases "gs_cancelled (sv_service v)") auto
qed

text \<open>C16. The admission of sessions, over all methods and whatever calls, ends of sessions and stop of the server
  interleave: the counter of a subscriber is the number of its open sessions, never above an enforced limit; sessions
  have distinct numbers; each holds the permit of its subscriber, which is the authenticated one where there is one;
  the snapshot goes to one session at most; and a call is refused exactly when its subscriber has reached an enforced
  limit or the server stops, with the status of the first of these reasons, leaving the open sessions and counters as
  they are.\<close>

theorem session_admission_exact:
  assumes "service_run s0 v" "gs_subscription_tracker s0 = SubscriptionTracker_new limit enforce" "gs_subscribe_id s0 = 0" "0 < limit"
  shows "tr_counters (gs_subscription_tracker (sv_service v)) key = (if open_of v key = 0 then None else Some (open_of v key)) \<and>
    (enforce \<longrightarrow> open_of v key \<le> limit) \<and>
    distinct (map (\<lambda>x. se_id (snd x)) (sv_history v)) \<and>
    (\<forall>(req, x) \<in> set (sv_history v). se_permit x = subscriber_id_of (fst req) (snd req)) \<and>
    snapshots (sv_history v) \<le> 1 \<and>
    (sv_calls v < 2 ^ 64 - 1 \<longrightarrow>
      (let who = subscriber_id_of parts remote_ip;
           reached = (\<exists>k. who = Some k \<and> enforce \<and> limit \<le> open_of v k)
       in case open_method kind parts remote_ip (sv_service v) of
            (Inl status, s) \<Rightarrow> (if reached then status = resource_exhausted else gs_cancelled (sv_service v) \<and> status = shutting_down) \<and>
              gs_subscription_tracker s = gs_subscription_tracker (sv_service v)
          | (Inr x, s) \<Rightarrow> \<not> reached \<and> \<not> gs_cancelled (sv_service v) \<and> se_permit x = who))"
proof -
  note inv = service_run_inv [OF assms]
  have count: "count (permits (sv_open v)) k = open_of v k" for k by (simp add: count_permits open_of_def)
  have tr: "tracker_inv limit enforce (gs_subscription_tracker (sv_service v)) (permits (sv_open v))"
    using inv by (simp add: service_inv_def)
  have counters: "tr_counters (gs_subscription_tracker (sv_service v)) key = (if open_of v key = 0 then None else Some (open_of v key))"
    "enforce \<longrightarrow> open_of v key \<le> limit"
    using tr by (simp_all add: tracker_inv_def alive_def count flip: count_greater_zero_iff)
  obtain n ids where ids: "n \<le> sv_calls v" "map (\<lambda>x. se_id (snd x)) (sv_history v) = map of_nat ids" "distinct ids" "\<forall>i \<in> set ids. i < n"
    "sv_calls v \<le> 2 ^ 64 - 1"
    using inv by (auto simp: service_inv_def)
  have "n < 2 ^ 64" by (rule le_less_trans [OF order.trans [OF ids(1,5)]]) simp
  then have "\<forall>i \<in> set ids. i < 2 ^ 64" using ids(4) by (meson order.strict_trans)
  then have distinct: "distinct (map (\<lambda>x. se_id (snd x)) (sv_history v))"
    unfolding ids(2) by (rule distinct_ids [OF ids(3)])
  have own: "\<forall>(req, x) \<in> set (sv_history v). se_permit x = subscriber_id_of (fst req) (snd req)"
    using inv by (simp add: service_inv_def)
  have "snapshots (sv_history v) \<le> some_count (gs_snapshot_rx s0)" using inv unfolding service_inv_def by linarith
  moreover have "some_count (gs_snapshot_rx s0) \<le> 1" by (simp add: some_count_def split: option.split)
  ultimately have "snapshots (sv_history v) \<le> 1" by (rule order.trans)
  then show ?thesis using counters distinct own admission_answer [OF inv assms(4)] by (intro conjI)
qed

text \<open>With authentication, a deshred session is registered under whatever identity its request claims, while its permit
  is that of the authenticated subscriber.\<close>

lemma deshred_session_misattributed:
  assumes "pa_subscription parts = Some info" "pa_header parts ''x-subscription-id'' = Some value" "to_str value = Some claimed"
    and "subscribe_deshred parts remote_ip s = (Inr x, s')"
  shows "se_subscriber_id x = Some claimed \<and> (\<forall>y t. subscribe parts remote_ip s = (Inr y, t) \<longrightarrow> se_subscriber_id y = Some (sb_subscription_id info))"
  using assms by (auto simp: subscribe_deshred_def subscribe_def claimed_subscriber_id_def subscriber_id_of_def Let_def
      split: prod.splits sum.splits)

definition toy_service :: "unit GrpcService" where
  "toy_service =
     \<lparr>gs_config_snapshot_client_channel_capacity = 9, gs_config_channel_capacity = 5,
      gs_subscription_tracker = SubscriptionTracker_new 1 True, gs_subscribe_id = 0, gs_snapshot_rx = Some (), gs_cancelled = False\<rparr>"

definition toy_caller :: Parts where
  "toy_caller = \<lparr>pa_host = None, pa_path_and_query = None, pa_header = (\<lambda>_. None),
     pa_subscription = Some \<lparr>sb_subscription_id = ''k'', sb_ratelimits = None\<rparr>\<rparr>"

theorem session_admission_exact_witness:
  "fst (subscribe_gossip toy_caller None (snd (subscribe toy_caller None toy_service))) = Inl resource_exhausted"
proof -
  let ?v0 = "\<lparr>sv_service = toy_service, sv_calls = 0, sv_open = [], sv_history = []\<rparr>"
  define v where "v = after_call (toy_caller, None) (open_method Updates toy_caller None toy_service) ?v0"
  have "service_run toy_service v"
    unfolding v_def using service_call [OF service_start [of toy_service], of toy_caller None Updates] by simp
  moreover have "gs_subscription_tracker toy_service = SubscriptionTracker_new 1 True" "gs_subscribe_id toy_service = 0"
    by (simp_all add: toy_service_def)
  moreover have v: "sv_service v = snd (subscribe toy_caller None toy_service)" "sv_calls v = 1" "open_of v ''k'' = 1"
    "gs_cancelled (sv_service v) = False"
    by (simp_all add: v_def open_method_def after_call_def subscribe_def admit_def subscriber_id_of_def toy_caller_def
        try_insert_def SubscriptionTracker_new_def toy_service_def next_subscribe_seq_id_def Let_def open_of_def)
  moreover have "subscriber_id_of toy_caller None = Some ''k''" by (simp add: subscriber_id_of_def toy_caller_def)
  ultimately show ?thesis
    using session_admission_exact [where ?s0.0 = toy_service and v = v and limit = 1 and enforce = True and kind = Gossip and key = "''k''"
        and parts = toy_caller and remote_ip = None]
    by (cases "subscribe_gossip toy_caller None (snd (subscribe toy_caller None toy_service))")
      (auto simp: open_method_def Let_def split: sum.splits)
qed

end
