(* ===== verification/Spec2Isabelle.thy ===== *)
theory Spec2Isabelle
  imports Cuckoo_Claims Cuckoo_Request Account_Claims Subscribe_Filter Reconnect_Claims Session_Claims Encoding_Claims Contact_Claims
    Block_Meta_Claims Convert_Claims Server_System Auth_Claims Request_Path Connection_Claims Billing_Sink Config_Claims Tls_Claims Node_Validation Subscribe_Setup
begin

text \<open>
  \<^bold>\<open>Yellowstone gRPC: a verification development.\<close>

  The program streams the events of a Solana validator to gRPC clients. A plugin turns validator
  callbacks into messages, groups them into blocks, matches every message against the filters of each
  subscription and encodes the matches as protobuf updates. Before a request reaches the service it is
  authenticated, rate limited and metered. The client library reconnects broken
  subscriptions and removes the updates that a replay repeats. Large sets of accounts travel as cuckoo
  filters that the client builds and the server queries.

  \<^bold>\<open>Theories and sources.\<close> Paths are relative to \<^verbatim>\<open>src/\<close>; \<^verbatim>\<open>G\<close> stands for
  \<^verbatim>\<open>yellowstone-grpc-geyser/src\<close>.

  \<^item> \<^verbatim>\<open>Prelude\<close>: integer types, panics, list and hash-table operations of the standard library.
  \<^item> \<^verbatim>\<open>Cuckoo_Filter\<close>, \<^verbatim>\<open>Cuckoo_Set\<close>, \<^verbatim>\<open>Cuckoo_Request\<close>, \<^verbatim>\<open>Cuckoo_Claims\<close>:
    \<^verbatim>\<open>yellowstone-grpc-proto/src/cuckoo\<close>, the filter (hashing, buckets, insertion with relocation, lookup, removal, wire format) and the tracked
    set of accounts that keeps an exact set beside a filter.
  \<^item> \<^verbatim>\<open>Proto\<close>, \<^verbatim>\<open>Messages\<close>: the generated message types the code reads, as records, and
    \<^verbatim>\<open>G/plugin/message.rs\<close>.
  \<^item> \<^verbatim>\<open>Filter_Limits\<close>: \<^verbatim>\<open>G/plugin/filter/{name,limits}.rs\<close> and the decoding helpers of
    \<^verbatim>\<open>filter.rs\<close>; construction threads the table of interned names through every parser.
  \<^item> \<^verbatim>\<open>Account_Filter\<close>, \<^verbatim>\<open>Account_Match\<close>, \<^verbatim>\<open>Account_Claims\<close>: the account filters of
    \<^verbatim>\<open>G/plugin/filter/filter.rs\<close> with their six matching strategies.
  \<^item> \<^verbatim>\<open>Filtered_Update\<close>, \<^verbatim>\<open>Event_Filters\<close>, \<^verbatim>\<open>Event_Claims\<close>: data slices, updates and their conversion
    to protobuf messages, and the filters of slots, transactions, entries, blocks and block metas.
  \<^item> \<^verbatim>\<open>Subscribe_Filter\<close>: \<open>Filter\<close> and \<open>DeshredFilter\<close>, which dispatch a message to all of them.
  \<^item> \<^verbatim>\<open>Update_Encoding\<close>, \<^verbatim>\<open>Encoding_Claims\<close>: the hand-written protobuf encoding of
    \<^verbatim>\<open>G/plugin/filter/{message,encoder}.rs\<close> with its caches.
  \<^item> \<^verbatim>\<open>Block_Reconstruction\<close>, \<^verbatim>\<open>Block_Claims\<close>: \<^verbatim>\<open>G/block_reconstruction.rs\<close>, the buffers of slots,
    frozen blocks, the replay storage and its garbage collection.
  \<^item> \<^verbatim>\<open>Contact_Info\<close>, \<^verbatim>\<open>Contact_Claims\<close>: \<^verbatim>\<open>G/contact_info.rs\<close>, the gossip table, its writer and the
    sessions of subscribers, with the conversion of their messages.
  \<^item> \<^verbatim>\<open>Convert\<close>, \<^verbatim>\<open>Convert_Claims\<close>: \<^verbatim>\<open>G/plugin/convert_{to,from}.rs\<close>, between the types of the validator and
    protobuf.
  \<^item> \<^verbatim>\<open>Channels\<close>: the contracts of the tokio channels the server uses, as records of operations with
    their laws.
  \<^item> \<^verbatim>\<open>Server_Pipeline\<close>, \<^verbatim>\<open>Pipeline_Claims\<close>: \<open>geyser_loop\<close> and \<open>block_reconstruction_loop\<close> of
    \<^verbatim>\<open>G/grpc.rs\<close>, the batches they receive (\<^verbatim>\<open>G/stream.rs\<close>) and the channels of the subscribers.
  \<^item> \<^verbatim>\<open>Plugin_Entry\<close>, \<^verbatim>\<open>Server_System\<close>: the callbacks of \<^verbatim>\<open>G/plugin/entry.rs\<close>, and callbacks and loops
    together in any interleaving.
  \<^item> \<^verbatim>\<open>Server_Session\<close>, \<^verbatim>\<open>Session_Claims\<close>: \<open>client_loop\<close>, its snapshot phase, the deshred session, resuming
    from a slot and the limit of sessions per subscriber, of \<^verbatim>\<open>G/grpc.rs\<close>.
  \<^item> \<^verbatim>\<open>Subscribe_Setup\<close>: how \<open>subscribe\<close>, \<open>subscribe_deshred\<close> and \<open>subscribe_gossip\<close> of \<^verbatim>\<open>G/grpc.rs\<close> admit and
    open sessions.
  \<^item> \<^verbatim>\<open>Block_Meta_Storage\<close>, \<^verbatim>\<open>Block_Meta_Claims\<close>: \<open>BlockMetaStorage\<close> and the unary block methods of
    \<^verbatim>\<open>G/grpc.rs\<close>.
  \<^item> \<^verbatim>\<open>Float64\<close>: the binary64 arithmetic of the capacity of filters and of the token bucket.
  \<^item> \<^verbatim>\<open>Server_Auth\<close>, \<^verbatim>\<open>Auth_Guard\<close>, \<^verbatim>\<open>Auth_Claims\<close>: \<^verbatim>\<open>G/auth.rs\<close>, \<^verbatim>\<open>G/cache_ext.rs\<close> and the guarding service of
    \<^verbatim>\<open>yellowstone-grpc-tools/src/server/tonic/auth/service.rs\<close>, with its semaphore, clones and futures.
  \<^item> \<^verbatim>\<open>Rate_Limit\<close>, \<^verbatim>\<open>Rate_Limit_Claims\<close>, \<^verbatim>\<open>Connection_Claims\<close>: \<^verbatim>\<open>G/ratelimit.rs\<close> with the token bucket of
    \<^verbatim>\<open>yellowstone-grpc-tools/src/server/window.rs\<close>, and the connections per address of \<^verbatim>\<open>tonic/ratelimit/transport.rs\<close>.
  \<^item> \<^verbatim>\<open>Metering\<close>, \<^verbatim>\<open>Meter_Claims\<close>, \<^verbatim>\<open>Billing_Sink\<close>: the metered bodies of \<^verbatim>\<open>tonic/metered.rs\<close> with the hooks of
    \<^verbatim>\<open>G/metered.rs\<close> and \<^verbatim>\<open>G/billing.rs\<close>, and the sink that posts billing events.
  \<^item> \<^verbatim>\<open>Request_Path\<close>: the layers that \<open>build_service\<close> of \<^verbatim>\<open>G/grpc.rs\<close> puts together.
  \<^item> \<^verbatim>\<open>Config\<close>, \<^verbatim>\<open>Config_Claims\<close>: the hand-written parsers of \<^verbatim>\<open>G/config.rs\<close>.
  \<^item> \<^verbatim>\<open>File_Watcher\<close>: \<^verbatim>\<open>G/file_watcher.rs\<close>, the registry of callbacks on file changes.
  \<^item> \<^verbatim>\<open>Tls_Server\<close>, \<^verbatim>\<open>Tls_Claims\<close>: the certificates of \<^verbatim>\<open>yellowstone-grpc-tools/src/server/tls.rs\<close>, their set-up
    and hot reload in \<^verbatim>\<open>G/grpc.rs\<close>.
  \<^item> \<^verbatim>\<open>Node_Validation\<close>: the check of requests in \<^verbatim>\<open>yellowstone-grpc-client-nodejs/napi\<close>.
  \<^item> \<^verbatim>\<open>Client_Dedup\<close>, \<^verbatim>\<open>Dedup_Claims\<close>: \<^verbatim>\<open>yellowstone-grpc-client/src/dedup.rs\<close>.
  \<^item> \<^verbatim>\<open>Client_Reconnect\<close>, \<^verbatim>\<open>Reconnect_Claims\<close>: \<^verbatim>\<open>yellowstone-grpc-client/src/reconnect.rs\<close> and the
    request sink and subscription set-up of \<^verbatim>\<open>lib.rs\<close>.

  \<^bold>\<open>Conventions.\<close> A struct is a record, an enum a datatype, a fixed-width integer a word that wraps as
  in the release build; lengths are natural numbers, cast where the code casts. A function that may panic
  returns an option (\<open>run\<close>), one that may fail a sum. Mutation is returning the new value; this includes
  caches behind shared references. A hash map whose iteration order matters is an association list in an
  arbitrary order, others are partial functions. Loops with a bound are recursive functions with a
  termination proof; the polling loops and the draining of the block machine, which may run forever, are
  partial functions into option, so that a theorem about their result includes that they return.

  \<^bold>\<open>Parameters.\<close> SipHash, base58 and base64 decoding, \<open>prost\<close> and the encoders it generates, the block
  state machine crate, the channels of tokio, the transport, the clock, the inner stream of the client, HTTP clients, the
  cache crate, the file system with its watcher and the parsers of certificates, the futures below the guard and the bodies below the metering are arguments of the definitions. What a theorem needs of them is a named hypothesis (\<open>prost_ok\<close>, \<open>broadcast_ok\<close>,
  \<open>watch_ok\<close>, \<open>script_ok\<close>, \<open>well_fed\<close>, \<open>auth_ok\<close>, \<open>log_ok\<close>, \<open>finite_backlog\<close>, the laws of a locale), with a concrete instance in its witness.

  \<^bold>\<open>Interfaces.\<close> Five locales state contracts between components. \<open>fingerprint_bag\<close> (in
  \<^verbatim>\<open>Cuckoo_Set\<close>) is what the tracked set needs of the cuckoo filter. \<open>account_matcher\<close> (in
  \<^verbatim>\<open>Account_Match\<close>) is what a matching strategy owes to the account filters; every strategy is an
  interpretation. \<open>queue_stream\<close> (in \<^verbatim>\<open>Dedup_Claims\<close>) is what deduplication needs of the stream below it;
  it is interpreted by a plain feed and by the reconnecting stream, so that the two client components
  compose. \<open>batch_buffer\<close>, with \<open>invariant_buffer\<close> above it, is what receiving a batch needs of the buffer it
  fills; it is interpreted by the vector of block reconstruction and the partitioned buffer of the geyser loop.

  \<^bold>\<open>What is shown.\<close>

  \<^item> Cuckoo filter: lookup is membership in the multiset of stored entries; insertion keeps every stored
    key findable unless it reports a full table, in which case exactly one entry is lost; removal takes
    one copy; the wire format round-trips and arbitrary wire data never leads to an index out of range;
    capacity arithmetic in floating point gives enough buckets. The tracked set never misses a key as
    long as no insertion failed, and end to end (in this theory) a request that carries the set gets
    every update of a tracked account and every transaction that mentions it.
  \<^item> Subscriptions: an accepted request yields, for every kind of message, updates that name exactly the
    filters of the request that the message satisfies, with the requested content, and never panics; all
    account strategies agree with a scan of the filters; limits are enforced; metrics count the request.
    The defects found (a memcmp offset, a wrapping data slice, the entries limit, the single-axis
    strategy) are theorems too.
  \<^item> Encoding: the bytes are those of the schema, the announced length is the written one, with empty and
    with filled caches.
  \<^item> Block reconstruction: an invariant of every reachable storage, the content of a frozen block, exactly
    what a replay yields and the bounds of garbage collection.
  \<^item> Contact info: under every interleaving of the writer and the sessions, what a session has sent
    reconstructs the table; the startup flag can be lost, which delays the first subscriber.
  \<^item> Conversions: a transaction of the validator becomes a message and decodes to itself; whatever decodes
    has the lengths of the validator's types.
  \<^item> Server: the geyser loop forwards every message once and in order and no block meta before the data of
    its block; block reconstruction publishes each block at its level before its status; with the callbacks,
    processed subscribers get exactly what the validator handed over. A session sends exactly what its
    filter makes of what was published since it subscribed and answers a resume from the stored blocks;
    sessions are admitted exactly within the limit of their authenticated subscriber, one of them gets the
    snapshot, though a deshred session is registered under the identity its request claims. The block methods answer with the latest block of a commitment, and
    blockhashes are valid exactly while they should be, except that skipped slots keep the answer at startup.
  \<^item> Client: retries end within their budget; the reconnecting stream keeps its assertion in every
    reachable state; the composed client ends, asks for the right slots and delivers every key once;
    the number of slots in flight is bounded, the number of sealed ones is not.

  \<^item> The way of a request: only requests that were granted reach the service behind the guard, none twice, and
    permits are conserved; the caching key of the resolver tells requests apart. A method admits at most its
    limit and what the window refills, rounding included, and dropping idle windows changes no answer. The
    layers compose to exactly the requests with the token that the limiter accepts, each billed once. Bytes
    are billed and counted exactly, and billing events are posted once, in order, by a sink that never gets
    stuck. Connections per address stay within the limit. The defects found are theorems too: slots of
    connections leak, a header that is not text panics, and a subscription with the limit zero stops the server.
  \<^item> Configuration: a list of cores is read back as it is written.
  \<^item> Certificates: a file event calls exactly the live callbacks it matches, in order; a directory of certificates
    loads exactly when it names hosts without duplicates, each host gets the bundle that names it, and reloading
    keeps the last load that succeeded. A bundle that is being written is skipped, so its host has none meanwhile.
  \<^item> Node.js client: its check accepts exactly complete requests whose cuckoo filters are wire forms of well-formed
    filters; those of tracked sets pass, and the server rebuilds them bit for bit.

  \<^bold>\<open>Fuel.\<close> The loop of the guard's future runs on fuel 4, one more than the transitions it can make
  (\<open>rank\<close>); \<open>guard_loop_fine\<close> shows that it never runs out.

  \<^bold>\<open>Not modelled.\<close> Starting the listeners and loading and unloading the plugin; the records of the
  configuration whose deserializers are derived; metrics and logging; the unary calls and the
  builder of the client, which hand their arguments to generated code; sockets and the stream of TLS handshakes; the
  rest of the Node.js bindings; tests, benches and examples. What is left of the implementation files is glue of this
  kind, or tests.
\<close>

section \<open>From the tracked set to the updates\<close>

definition toy_net :: externs where
  "toy_net = toy_ext\<lparr>ex_sip := toy_sip\<rparr>"

definition toy_tracked_request :: SubscribeRequest where
  "toy_tracked_request =
     SubscribeRequest_default\<lparr>sr_accounts := [(''a'', to_account_filter toy_one)],
       sr_transactions := [(''a'', to_transaction_filter toy_one)]\<rparr>"

definition toy_tracked_account :: MessageAccount where
  "toy_tracked_account =
     \<lparr>ac_account = toy_account [7] [], ac_slot = 1, ac_is_startup = False, ac_created_at = toy_stamp\<rparr>"

lemma tracked_account_matches:
  assumes "cs_inv (ex_sip X) s" "cs_contains s (ai_pubkey acc)"
  shows "account_config_matches X acc (to_account_filter s)"
  using tracked_in_proto [OF assms] by (simp add: account_config_matches_def to_account_filter_def)

lemma tracked_transaction_matches:
  assumes "cs_inv (ex_sip X) s" "cs_contains s k" "k \<in> set (ti_account_keys tx)"
  shows "tx_config_matches X tx (to_transaction_filter s)"
  using tracked_in_proto [OF assms(1,2)] assms(3)
  by (auto simp: tx_config_matches_def to_transaction_filter_def effective_set_def)


lemma toy_one_data: "length (pc_data (cs_to_proto toy_one)) = 8"
  by (simp add: cs_to_proto_def proto_from_filter_def toy_one_def toy_table_def le_bytes_u16_def)

lemma toy_tracked_new:
  "\<exists>F names'. Filter_new toy_net toy_tracked_request FilterLimits_default toy_name_table = Some (Inr F, names')"
  by (simp add: toy_tracked_request_def to_account_filter_def to_transaction_filter_def SubscribeRequest_default_def
      toy_net_def toy_one_data Filter_new_def FilterLimits_default_def FilterAccounts_new_def aggregate_from_def
      st_bind_def FilterLimitsAccounts_default_def FilterAccountsState_new_def MAX_FILTERS_def
      FilterAccountsState_default_def state_is_empty_def opt_nonempty_def
      FilterAccountAggregate_new_def strategy_build_def try_init_def build_unindexed_def DIRECT_SCAN_LIMIT_def
      FilterSlots_new_def FilterNamesOnly_new_def
      FilterTransactions_new_def tx_filter_from_def FilterLimitsTransactions_default_def cuckoo_from_def
      FilterBlocks_new_def  FilterLimitsBlocks_default_def
      transpose_result_def hmap_of_def decode_commitment_def Let_def
      CommitmentLevelProto_as_i32_def CommitmentLevelProto_try_from_def commitment_of_proto_def
      FilterAccountsDataSlice_new_def toy_check_simps toy_names_simps toy_decode_simps)

lemma toy_tracked_ok: "request_ok toy_tracked_request"
  by (simp add: toy_tracked_request_def
      to_account_filter_def to_transaction_filter_def SubscribeRequest_default_def request_ok_def config_ok_def
      indexable_def filter_offset_ok_def toy_one_data)

lemma toy_place:
  "insert_into_subscribe_request toy_one SubscribeRequest_default ''a'' =
     (SubscribeRequest_default\<lparr>sr_accounts := [(''a'', to_account_filter toy_one)]\<rparr>, toy_one\<lparr>cs_dirty := False\<rparr>)"
  "insert_into_transaction_subscribe_request (toy_one\<lparr>cs_dirty := False\<rparr>)
     (SubscribeRequest_default\<lparr>sr_accounts := [(''a'', to_account_filter toy_one)]\<rparr>) ''a'' =
     (toy_tracked_request, toy_one\<lparr>cs_dirty := False\<rparr>)"
  by (simp_all add: insert_into_subscribe_request_def insert_into_transaction_subscribe_request_def
      toy_tracked_request_def SubscribeRequest_default_def to_transaction_filter_def cs_to_proto_def)


end
